(* ===== verification/Prelude.thy ===== *)
theory Prelude
  imports Main "HOL-Library.Word"
begin

text \<open>
  The computation monad every component is written in, and the generic facts the
  components share.

  A C function of the program reads an environment (what code outside the model
  answers), works on a state, and ends in one of two ways: it returns a value, or it
  leaves abnormally with a value of an exception type (a \<open>longjmp\<close> of the Lua runtime or
  undefined behaviour).  The state survives both ways, so what an error path leaves
  behind can be stated.
\<close>

named_theorems luasem "unfolding rules that run a computation on a state"
named_theorems neu "rules that show a computation leaves a part of the state alone"
named_theorems hw "rules that show a computation keeps a state predicate"

type_synonym ('env, 's, 'e, 'a) comp = "'env \<Rightarrow> 's \<Rightarrow> ('e + 'a) \<times> 's"

definition retM :: "'a \<Rightarrow> ('env, 's, 'e, 'a) comp" where
  "retM x = (\<lambda>E s. (Inr x, s))"

definition failM :: "'e \<Rightarrow> ('env, 's, 'e, 'a) comp" where
  "failM e = (\<lambda>E s. (Inl e, s))"

definition bindM ::
  "('env, 's, 'e, 'a) comp \<Rightarrow> ('a \<Rightarrow> ('env, 's, 'e, 'b) comp) \<Rightarrow> ('env, 's, 'e, 'b) comp" where
  "bindM m f = (\<lambda>E s. case m E s of (Inl e, s') \<Rightarrow> (Inl e, s') | (Inr x, s') \<Rightarrow> f x E s')"

definition thenM ::
  "('env, 's, 'e, 'a) comp \<Rightarrow> ('env, 's, 'e, 'b) comp \<Rightarrow> ('env, 's, 'e, 'b) comp" where
  "thenM m k = bindM m (\<lambda>_. k)"

definition askM :: "('env \<Rightarrow> 'a) \<Rightarrow> ('env, 's, 'e, 'a) comp" where
  "askM f = (\<lambda>E s. (Inr (f E), s))"

definition getM :: "('s \<Rightarrow> 'a) \<Rightarrow> ('env, 's, 'e, 'a) comp" where
  "getM f = (\<lambda>E s. (Inr (f s), s))"

definition modM :: "('s \<Rightarrow> 's) \<Rightarrow> ('env, 's, 'e, unit) comp" where
  "modM f = (\<lambda>E s. (Inr (), f s))"

definition whenM :: "bool \<Rightarrow> ('env, 's, 'e, unit) comp \<Rightarrow> ('env, 's, 'e, unit) comp" where
  "whenM b m = (if b then m else retM ())"

fun seqM :: "('env, 's, 'e, unit) comp list \<Rightarrow> ('env, 's, 'e, unit) comp" where
  "seqM [] = retM ()"
| "seqM (m # ms) = thenM m (seqM ms)"

fun mapM :: "('a \<Rightarrow> ('env, 's, 'e, 'b) comp) \<Rightarrow> 'a list \<Rightarrow> ('env, 's, 'e, 'b list) comp" where
  "mapM f [] = retM []"
| "mapM f (x # xs) = bindM (f x) (\<lambda>y. bindM (mapM f xs) (\<lambda>ys. retM (y # ys)))"

subsection \<open>The monad laws\<close>

lemma bindM_retM [simp]: "bindM (retM x) f = f x"
  by (simp add: bindM_def retM_def)

lemma bindM_retM_right [simp]: "bindM m retM = m"
  by (auto simp: bindM_def retM_def fun_eq_iff split: prod.splits sum.splits)

lemma bindM_assoc: "bindM (bindM m f) g = bindM m (\<lambda>x. bindM (f x) g)"
  by (auto simp: bindM_def fun_eq_iff split: prod.splits sum.splits)

lemma bindM_failM [simp]: "bindM (failM e) f = failM e"
  by (simp add: bindM_def failM_def)

lemma thenM_assoc: "thenM (thenM a b) c = thenM a (thenM b c)"
  by (simp add: thenM_def bindM_assoc)

subsection \<open>Running a computation\<close>

lemma run_retM [luasem]: "retM x E s = (Inr x, s)"
  by (simp add: retM_def)

lemma run_failM [luasem]: "failM e E s = (Inl e, s)"
  by (simp add: failM_def)

lemma run_bindM [luasem]:
  "bindM m f E s = (case m E s of (Inl e, s') \<Rightarrow> (Inl e, s') | (Inr x, s') \<Rightarrow> f x E s')"
  by (simp add: bindM_def)

lemma run_thenM [luasem]:
  "thenM m k E s = (case m E s of (Inl e, s') \<Rightarrow> (Inl e, s') | (Inr x, s') \<Rightarrow> k E s')"
  by (simp add: thenM_def bindM_def)

lemma run_askM [luasem]: "askM f E s = (Inr (f E), s)"
  by (simp add: askM_def)

lemma run_getM [luasem]: "getM f E s = (Inr (f s), s)"
  by (simp add: getM_def)

lemma run_modM [luasem]: "modM f E s = (Inr (), f s)"
  by (simp add: modM_def)

lemma run_whenM [luasem]: "whenM b m E s = (if b then m E s else (Inr (), s))"
  by (simp add: whenM_def retM_def)

lemma bindM_InrD:
  assumes "bindM m f E s = (Inr y, s')"
  obtains x s1 where "m E s = (Inr x, s1)" "f x E s1 = (Inr y, s')"
  using assms by (auto simp: run_bindM split: prod.splits sum.splits)

lemma thenM_InrD:
  assumes "thenM m k E s = (Inr y, s')"
  obtains x s1 where "m E s = (Inr x, s1)" "k E s1 = (Inr y, s')"
  using assms by (auto simp: run_thenM split: prod.splits sum.splits)

subsection \<open>Computations that leave a part of the state alone\<close>

definition leaves :: "('s \<Rightarrow> 'c) \<Rightarrow> ('env, 's, 'e, 'a) comp \<Rightarrow> bool" where
  "leaves c m \<longleftrightarrow> (\<forall>E s. c (snd (m E s)) = c s)"

lemma leavesI: "(\<And>E s. c (snd (m E s)) = c s) \<Longrightarrow> leaves c m"
  by (simp add: leaves_def)

lemma leavesD: "leaves c m \<Longrightarrow> m E s = (r, s') \<Longrightarrow> c s' = c s"
  unfolding leaves_def by (metis snd_conv)

lemma leaves_retM [neu]: "leaves c (retM x)"
  by (simp add: leaves_def retM_def)

lemma leaves_failM [neu]: "leaves c (failM e)"
  by (simp add: leaves_def failM_def)

lemma leaves_askM [neu]: "leaves c (askM f)"
  by (simp add: leaves_def askM_def)

lemma leaves_getM [neu]: "leaves c (getM f)"
  by (simp add: leaves_def getM_def)

lemma leaves_modM: "(\<And>s. c (f s) = c s) \<Longrightarrow> leaves c (modM f)"
  by (simp add: leaves_def modM_def)

lemma leaves_bindM [neu]:
  assumes "leaves c m" and "\<And>x. leaves c (f x)"
  shows "leaves c (bindM m f)"
proof (rule leavesI)
  fix E s
  obtain r s1 where m: "m E s = (r, s1)" by fastforce
  show "c (snd (bindM m f E s)) = c s"
  proof (cases r)
    case (Inl e)
    with leavesD [OF assms(1) m] show ?thesis by (simp add: run_bindM m)
  next
    case (Inr x)
    obtain r2 s2 where f: "f x E s1 = (r2, s2)" by fastforce
    with leavesD [OF assms(1) m] leavesD [OF assms(2) f] Inr show ?thesis
      by (simp add: run_bindM m)
  qed
qed

lemma leaves_thenM [neu]: "leaves c m \<Longrightarrow> leaves c k \<Longrightarrow> leaves c (thenM m k)"
  unfolding thenM_def by (rule leaves_bindM)

lemma leaves_whenM [neu]: "leaves c m \<Longrightarrow> leaves c (whenM b m)"
  by (simp add: whenM_def leaves_retM)

lemma leaves_seqM: "(\<And>m. m \<in> set ms \<Longrightarrow> leaves c m) \<Longrightarrow> leaves c (seqM ms)"
  by (induction ms) (auto intro: leaves_retM leaves_thenM)

lemma leaves_seqM_Nil [neu]: "leaves c (seqM [])"
  by (simp add: leaves_retM)

lemma leaves_seqM_Cons [neu]: "leaves c m \<Longrightarrow> leaves c (seqM ms) \<Longrightarrow> leaves c (seqM (m # ms))"
  by (simp add: leaves_thenM)

lemma leaves_mapM [neu]: "(\<And>x. leaves c (f x)) \<Longrightarrow> leaves c (mapM f xs)"
  by (induction xs) (auto intro!: leaves_retM leaves_bindM)

lemma leaves_if [neu]:
  "(b \<Longrightarrow> leaves c m) \<Longrightarrow> (\<not> b \<Longrightarrow> leaves c k) \<Longrightarrow> leaves c (if b then m else k)"
  by simp

lemma leaves_option [neu]:
  "leaves c m \<Longrightarrow> (\<And>x. leaves c (f x)) \<Longrightarrow> leaves c (case v of None \<Rightarrow> m | Some x \<Rightarrow> f x)"
  by (cases v) auto

lemma leaves_prod [neu]: "(\<And>x y. leaves c (f x y)) \<Longrightarrow> leaves c (case p of (x, y) \<Rightarrow> f x y)"
  by (cases p) auto

lemma leaves_Let [neu]: "(\<And>y. leaves c (f y)) \<Longrightarrow> leaves c (let y = x in f y)"
  by simp

subsection \<open>State predicates a computation keeps\<close>

text \<open>
  \<open>hoare ok R E P m Q\<close>: from a state in \<open>P\<close>, \<open>m\<close> returns a result \<open>x\<close> in a state in \<open>Q x\<close> or
  leaves with an exception; a recoverable exception (one in \<open>ok\<close>) leaves a state in \<open>R\<close>.
\<close>

definition hoare ::
  "('e \<Rightarrow> bool) \<Rightarrow> ('s \<Rightarrow> bool) \<Rightarrow> 'env \<Rightarrow> ('s \<Rightarrow> bool) \<Rightarrow> ('env, 's, 'e, 'a) comp \<Rightarrow>
   ('a \<Rightarrow> 's \<Rightarrow> bool) \<Rightarrow> bool" where
  "hoare ok R E P m Q \<longleftrightarrow> (\<forall>s. P s \<longrightarrow> (case m E s of
      (Inl e, s') \<Rightarrow> ok e \<longrightarrow> R s' | (Inr x, s') \<Rightarrow> Q x s'))"

lemma hoareI:
  assumes "\<And>s e s'. P s \<Longrightarrow> m E s = (Inl e, s') \<Longrightarrow> ok e \<Longrightarrow> R s'"
    and "\<And>s x s'. P s \<Longrightarrow> m E s = (Inr x, s') \<Longrightarrow> Q x s'"
  shows "hoare ok R E P m Q"
  using assms unfolding hoare_def by (auto split: prod.splits sum.splits)

lemma hoareD:
  assumes "hoare ok R E P m Q" "P s"
  shows "m E s = (Inr x, s') \<Longrightarrow> Q x s'" and "m E s = (Inl e, s') \<Longrightarrow> ok e \<Longrightarrow> R s'"
  using assms unfolding hoare_def by (auto split: prod.splits sum.splits)

lemma hoare_weaken:
  assumes "hoare ok R E P m Q" "\<And>s. P' s \<Longrightarrow> P s" "\<And>x s. Q x s \<Longrightarrow> Q' x s"
  shows "hoare ok R E P' m Q'"
  using assms unfolding hoare_def by (fastforce split: prod.splits sum.splits)

lemma hoare_bindM [hw]:
  assumes m: "hoare ok R E P m Q" and f: "\<And>x. hoare ok R E (Q x) (f x) Q'"
  shows "hoare ok R E P (bindM m f) Q'"
proof (rule hoareI)
  fix s r s'
  assume P: "P s"
  {
    assume "bindM m f E s = (Inl r, s')" "ok r"
    then consider "m E s = (Inl r, s')"
      | x s1 where "m E s = (Inr x, s1)" "f x E s1 = (Inl r, s')"
      by (auto simp: run_bindM split: prod.splits sum.splits)
    then show "R s'"
      using hoareD [OF m P] hoareD(2) [OF f] \<open>ok r\<close> by cases blast+
  }
next
  fix s x s'
  assume P: "P s" and "bindM m f E s = (Inr x, s')"
  then obtain y s1 where "m E s = (Inr y, s1)" "f y E s1 = (Inr x, s')"
    by (auto simp: run_bindM split: prod.splits sum.splits)
  then show "Q' x s'" using hoareD(1) [OF m P] hoareD(1) [OF f] by blast
qed

lemma hoare_thenM [hw]:
  "hoare ok R E P m (\<lambda>_. Q) \<Longrightarrow> hoare ok R E Q k Q' \<Longrightarrow> hoare ok R E P (thenM m k) Q'"
  unfolding thenM_def by (rule hoare_bindM)

lemma hoare_retM [hw]: "hoare ok R E P (retM x) (\<lambda>_. P)"
  by (simp add: hoare_def retM_def)

lemma hoare_getM [hw]: "hoare ok R E P (getM f) (\<lambda>_. P)"
  by (simp add: hoare_def getM_def)

lemma hoare_askM [hw]: "hoare ok R E P (askM f) (\<lambda>_. P)"
  by (simp add: hoare_def askM_def)

lemma hoare_if [hw]:
  "(b \<Longrightarrow> hoare ok R E P m Q) \<Longrightarrow> (\<not> b \<Longrightarrow> hoare ok R E P k Q) \<Longrightarrow>
   hoare ok R E P (if b then m else k) Q"
  by simp

lemma hoare_whenM [hw]: "hoare ok R E P m (\<lambda>_. P) \<Longrightarrow> hoare ok R E P (whenM b m) (\<lambda>_. P)"
  by (simp add: whenM_def hoare_retM)

lemma hoare_seqM_Nil [hw]: "hoare ok R E P (seqM []) (\<lambda>_. P)"
  by (simp add: hoare_retM)

lemma hoare_seqM_Cons [hw]:
  "hoare ok R E P m (\<lambda>_. Q) \<Longrightarrow> hoare ok R E Q (seqM ms) Q' \<Longrightarrow> hoare ok R E P (seqM (m # ms)) Q'"
  by (simp add: hoare_thenM)

lemma hoare_option [hw]:
  "hoare ok R E P m Q \<Longrightarrow> (\<And>x. hoare ok R E P (f x) Q) \<Longrightarrow>
   hoare ok R E P (case v of None \<Rightarrow> m | Some x \<Rightarrow> f x) Q"
  by (cases v) auto

lemma hoare_prod [hw]:
  "(\<And>x y. hoare ok R E P (f x y) Q) \<Longrightarrow> hoare ok R E P (case p of (x, y) \<Rightarrow> f x y) Q"
  by (cases p) auto

lemma hoare_Let [hw]: "(\<And>y. hoare ok R E P (f y) Q) \<Longrightarrow> hoare ok R E P (let y = x in f y) Q"
  by simp

subsection \<open>C integers\<close>

text \<open>
  The conversions C makes when a wide integer is stored in a narrower type, on
  mathematical integers: two's complement for the signed types, modulo the width for
  the unsigned ones.
\<close>

definition wrap_s :: "nat \<Rightarrow> int \<Rightarrow> int" where
  "wrap_s w n = (n + 2 ^ (w - 1)) mod 2 ^ w - 2 ^ (w - 1)"

definition wrap_u :: "nat \<Rightarrow> int \<Rightarrow> int" where
  "wrap_u w n = n mod 2 ^ w"

abbreviation c_int :: "int \<Rightarrow> int" where "c_int \<equiv> wrap_s 32"
abbreviation c_int64 :: "int \<Rightarrow> int" where "c_int64 \<equiv> wrap_s 64"
abbreviation c_uint :: "int \<Rightarrow> int" where "c_uint \<equiv> wrap_u 32"
abbreviation c_uint64 :: "int \<Rightarrow> int" where "c_uint64 \<equiv> wrap_u 64"

lemma wrap_s_id:
  assumes "0 < w" "- (2 ^ (w - 1)) \<le> n" "n < 2 ^ (w - 1)"
  shows "wrap_s w n = n"
proof -
  have "(2::int) ^ w = 2 * 2 ^ (w - 1)"
    using assms(1) by (cases w) auto
  with assms show ?thesis by (simp add: wrap_s_def)
qed

lemma wrap_u_id: "0 \<le> n \<Longrightarrow> n < 2 ^ w \<Longrightarrow> wrap_u w n = n"
  by (simp add: wrap_u_def)

lemma wrap_s_bounds:
  assumes "0 < w"
  shows "- (2 ^ (w - 1)) \<le> wrap_s w n \<and> wrap_s w n < 2 ^ (w - 1)"
proof -
  have e: "(2::int) ^ w = 2 * 2 ^ (w - 1)"
    using assms by (cases w) auto
  have "0 \<le> (n + 2 ^ (w - 1)) mod 2 ^ w \<and> (n + 2 ^ (w - 1)) mod 2 ^ w < 2 ^ w"
    by simp
  with e show ?thesis by (auto simp: wrap_s_def)
qed

subsection \<open>Lists used as stacks, bottom first\<close>

lemma nth_append_here [simp]: "(xs @ y # ys) ! length xs = y"
  by (simp add: nth_append)

lemma take_append_len [simp]: "n = length xs \<Longrightarrow> take n (xs @ ys) = xs"
  by simp

lemma nat_int_Suc [simp]:
  "nat (int n + 1) = Suc n" "nat (1 + int n) = Suc n"
  "nat (int n + 2) = Suc (Suc n)" "nat (2 + int n) = Suc (Suc n)"
  by simp_all

subsection \<open>Bytes and text\<close>

text \<open>A C string ends at its first NUL byte.\<close>

definition cstr :: "string \<Rightarrow> string" where
  "cstr s = takeWhile (\<lambda>c. c \<noteq> CHR 0x00) s"

lemma length_cstr: "length (cstr s) \<le> length s"
  by (simp add: cstr_def length_takeWhile_le)

text \<open>Decimal output of \<^verbatim>\<open>printf\<close>: \<open>%d\<close>, and \<open>%4d\<close> padded to four columns.\<close>

fun dec_digits :: "nat \<Rightarrow> string" where
  "dec_digits n =
     (if n < 10 then [char_of (48 + n)] else dec_digits (n div 10) @ [char_of (48 + n mod 10)])"

declare dec_digits.simps [simp del]

definition fmt_d :: "int \<Rightarrow> string" where
  "fmt_d n = (if n < 0 then CHR ''-'' # dec_digits (nat (- n)) else dec_digits (nat n))"

definition fmt_4d :: "int \<Rightarrow> string" where
  "fmt_4d n = replicate (4 - length (fmt_d n)) CHR '' '' @ fmt_d n"

end
