(* ===== verification/Lua_Value.thy ===== *)
theory Lua_Value
  imports Prelude
begin

text \<open>
  Lua values as the C code of the engine sees them through the Lua C API, and the type
  tags of \<^verbatim>\<open>lua_type\<close>.  A reference type is a name of an object in the state
  (\<open>LTab\<close> a table, \<open>LUData\<close> a full userdata, \<open>LFun\<close> a Lua closure); a float is its
  64-bit pattern, since the modelled code only stores and forwards floats.
\<close>

datatype lval =
    LNil
  | LBool bool
  | LInt int
  | LFlt "64 word"
  | LStr string
  | LTab nat
  | LFun nat
  | LCFun string
  | LUData nat
  | LLight nat
  | LThread

text \<open>The tags, in the numeric order of \<^verbatim>\<open>lua.h\<close>: \<^verbatim>\<open>LUA_TNONE\<close> is -1, nil is 0.\<close>

datatype ltag =
    TNONE | TNIL | TBOOLEAN | TLIGHTUSERDATA | TNUMBER | TSTRING | TTABLE
  | TFUNCTION | TUSERDATA | TTHREAD

primrec tag_num :: "ltag \<Rightarrow> int" where
  "tag_num TNONE = -1"
| "tag_num TNIL = 0"
| "tag_num TBOOLEAN = 1"
| "tag_num TLIGHTUSERDATA = 2"
| "tag_num TNUMBER = 3"
| "tag_num TSTRING = 4"
| "tag_num TTABLE = 5"
| "tag_num TFUNCTION = 6"
| "tag_num TUSERDATA = 7"
| "tag_num TTHREAD = 8"

lemma tag_num_inject: "tag_num a = tag_num b \<longleftrightarrow> a = b"
  by (cases a; cases b) auto

text \<open>
  The C code compares tags as integers (\<^verbatim>\<open>lua_isnoneornil\<close> is \<^verbatim>\<open>lua_type(L, n) <= 0\<close>), so the
  tags are ordered by their numbers.
\<close>

instantiation ltag :: linorder
begin

definition less_eq_ltag :: "ltag \<Rightarrow> ltag \<Rightarrow> bool" where
  "less_eq_ltag a b \<longleftrightarrow> tag_num a \<le> tag_num b"

definition less_ltag :: "ltag \<Rightarrow> ltag \<Rightarrow> bool" where
  "less_ltag a b \<longleftrightarrow> tag_num a < tag_num b"

instance
  by standard (auto simp: less_eq_ltag_def less_ltag_def tag_num_inject)

end

primrec lua_tag :: "lval \<Rightarrow> ltag" where
  "lua_tag LNil = TNIL"
| "lua_tag (LBool b) = TBOOLEAN"
| "lua_tag (LInt n) = TNUMBER"
| "lua_tag (LFlt w) = TNUMBER"
| "lua_tag (LStr s) = TSTRING"
| "lua_tag (LTab t) = TTABLE"
| "lua_tag (LFun f) = TFUNCTION"
| "lua_tag (LCFun f) = TFUNCTION"
| "lua_tag (LUData u) = TUSERDATA"
| "lua_tag (LLight p) = TLIGHTUSERDATA"
| "lua_tag LThread = TTHREAD"

fun tag_name :: "ltag \<Rightarrow> string" where
  "tag_name TNONE = ''no value''"
| "tag_name TNIL = ''nil''"
| "tag_name TBOOLEAN = ''boolean''"
| "tag_name TLIGHTUSERDATA = ''userdata''"
| "tag_name TNUMBER = ''number''"
| "tag_name TSTRING = ''string''"
| "tag_name TTABLE = ''table''"
| "tag_name TFUNCTION = ''function''"
| "tag_name TUSERDATA = ''userdata''"
| "tag_name TTHREAD = ''thread''"

lemma tag_le_nil: "t \<le> TNIL \<longleftrightarrow> t = TNONE \<or> t = TNIL"
  by (cases t) (auto simp: less_eq_ltag_def)

lemma lua_tag_not_none [simp]: "lua_tag v \<noteq> TNONE"
  by (cases v) auto

lemma lua_tag_nil [simp]: "lua_tag v = TNIL \<longleftrightarrow> v = LNil"
  by (cases v) auto

definition lval_truth :: "lval \<Rightarrow> bool" where
  "lval_truth v = (v \<noteq> LNil \<and> v \<noteq> LBool False)"

lemma lval_truth_simps [simp]:
  "\<not> lval_truth LNil" "lval_truth (LBool b) = b" "lval_truth (LInt n)"
  "lval_truth (LStr s)" "lval_truth (LTab t)" "lval_truth (LFun f)" "lval_truth (LUData u)"
  by (auto simp: lval_truth_def)

subsection \<open>Tables\<close>

text \<open>
  A table is an association list with no nil values; storing nil removes the key.  The
  border \<^verbatim>\<open>lua_rawlen\<close> returns is the first \<open>n\<close> for which index \<open>n + 1\<close> is absent, which
  is one of the borders the manual allows and the only one for a sequence.
\<close>

type_synonym ltable = "(lval \<times> lval) list"

definition tget :: "ltable \<Rightarrow> lval \<Rightarrow> lval" where
  "tget t k = (case map_of t k of None \<Rightarrow> LNil | Some v \<Rightarrow> v)"

definition tset :: "ltable \<Rightarrow> lval \<Rightarrow> lval \<Rightarrow> ltable" where
  "tset t k v =
     (let t' = filter (\<lambda>p. fst p \<noteq> k) t in if v = LNil then t' else (k, v) # t')"

fun border_from :: "nat \<Rightarrow> ltable \<Rightarrow> nat \<Rightarrow> nat" where
  "border_from 0 t n = n"
| "border_from (Suc fuel) t n =
     (if tget t (LInt (int n + 1)) = LNil then n else border_from fuel t (Suc n))"

definition border :: "ltable \<Rightarrow> nat" where
  "border t = border_from (length t) t 0"

lemma map_of_filter_other: "k' \<noteq> k \<Longrightarrow> map_of (filter (\<lambda>p. fst p \<noteq> k) t) k' = map_of t k'"
  by (induction t) auto

lemma map_of_filter_same: "map_of (filter (\<lambda>p. fst p \<noteq> k) t) k = None"
  by (induction t) auto

lemma tget_tset [simp]: "tget (tset t k v) k' = (if k' = k then v else tget t k')"
  by (auto simp: tget_def tset_def Let_def map_of_filter_other map_of_filter_same)

lemma tget_Nil [simp]: "tget [] k = LNil"
  by (simp add: tget_def)

end
