(* ===== verification/Lua_Registry.thy ===== *)
theory Lua_Registry
  imports Lua_Value
begin

text \<open>
  The reference table of the Lua registry: \<^verbatim>\<open>luaL_ref\<close> and \<^verbatim>\<open>luaL_unref\<close> of
  \<^verbatim>\<open>deps/lua/lauxlib.c\<close>, on which every callback, handle and request of luv rests.
  The table is the integer part of the registry, a list whose element 0 is the head of
  the free list.  A freed slot holds the next free slot.

  The interface the client code relies on is the locale \<open>ref_store\<close>; the free list is
  an interpretation of it.
\<close>

subsection \<open>The interface\<close>

locale ref_store =
  fixes alloc :: "'s \<Rightarrow> 'v \<Rightarrow> int \<times> 's"
    and release :: "'s \<Rightarrow> int \<Rightarrow> 's"
    and get :: "'s \<Rightarrow> int \<Rightarrow> 'v"
    and live :: "'s \<Rightarrow> int set"
    and invar :: "'s \<Rightarrow> bool"
    and storable :: "'v \<Rightarrow> bool"
  assumes alloc_fresh: "invar s \<Longrightarrow> storable v \<Longrightarrow> fst (alloc s v) \<notin> live s"
    and alloc_pos: "invar s \<Longrightarrow> storable v \<Longrightarrow> 0 < fst (alloc s v)"
    and alloc_live:
      "invar s \<Longrightarrow> storable v \<Longrightarrow> live (snd (alloc s v)) = insert (fst (alloc s v)) (live s)"
    and alloc_get: "invar s \<Longrightarrow> storable v \<Longrightarrow> get (snd (alloc s v)) (fst (alloc s v)) = v"
    and alloc_frame:
      "invar s \<Longrightarrow> storable v \<Longrightarrow> r \<in> live s \<Longrightarrow> get (snd (alloc s v)) r = get s r"
    and alloc_invar: "invar s \<Longrightarrow> storable v \<Longrightarrow> invar (snd (alloc s v))"
    and release_live: "invar s \<Longrightarrow> r \<in> live s \<Longrightarrow> live (release s r) = live s - {r}"
    and release_frame:
      "invar s \<Longrightarrow> r \<in> live s \<Longrightarrow> r' \<in> live s \<Longrightarrow> r' \<noteq> r \<Longrightarrow> get (release s r) r' = get s r'"
    and release_invar: "invar s \<Longrightarrow> r \<in> live s \<Longrightarrow> invar (release s r)"
begin

fun alloc_all :: "'s \<Rightarrow> 'v list \<Rightarrow> int list \<times> 's" where
  "alloc_all s [] = ([], s)"
| "alloc_all s (v # vs) =
     (let (r, s1) = alloc s v; (rs, s2) = alloc_all s1 vs in (r # rs, s2))"

fun release_all :: "'s \<Rightarrow> int list \<Rightarrow> 's" where
  "release_all s [] = s"
| "release_all s (r # rs) = release_all (release s r) rs"

lemma alloc_all_props:
  assumes "invar s" "\<forall>v \<in> set vs. storable v" "alloc_all s vs = (rs, s')"
  shows "invar s' \<and> distinct rs \<and> set rs \<inter> live s = {} \<and> live s' = set rs \<union> live s
         \<and> length rs = length vs \<and> map (get s') rs = vs
         \<and> (\<forall>r \<in> live s. get s' r = get s r)"
  using assms
proof (induction vs arbitrary: s rs s')
  case Nil
  then show ?case by simp
next
  case (Cons v vs)
  obtain r s1 where a: "alloc s v = (r, s1)" by fastforce
  obtain rs1 s2 where b: "alloc_all s1 vs = (rs1, s2)" by fastforce
  from Cons.prems a b have res: "rs = r # rs1" "s' = s2" by simp_all
  have v: "storable v" "\<forall>v \<in> set vs. storable v" using Cons.prems by auto
  have 1: "r \<notin> live s" "live s1 = insert r (live s)" "get s1 r = v" "invar s1"
      "\<And>q. q \<in> live s \<Longrightarrow> get s1 q = get s q"
    using alloc_fresh [OF Cons.prems(1) v(1)] alloc_live [OF Cons.prems(1) v(1)]
      alloc_get [OF Cons.prems(1) v(1)] alloc_invar [OF Cons.prems(1) v(1)]
      alloc_frame [OF Cons.prems(1) v(1)] a by simp_all
  from Cons.IH [OF 1(4) v(2) b] 1 res show ?case by auto
qed

lemma release_all_props:
  assumes "invar s" "distinct rs" "set rs \<subseteq> live s"
  shows "invar (release_all s rs) \<and> live (release_all s rs) = live s - set rs
         \<and> (\<forall>r \<in> live s - set rs. get (release_all s rs) r = get s r)"
  using assms
proof (induction rs arbitrary: s)
  case Nil
  then show ?case by simp
next
  case (Cons r rs)
  have r: "r \<in> live s" using Cons.prems by simp
  have 1: "invar (release s r)" "live (release s r) = live s - {r}"
    using release_invar release_live r Cons.prems(1) by auto
  have "set rs \<subseteq> live (release s r)" "distinct rs" using 1 Cons.prems by auto
  from Cons.IH [OF 1(1) this(2,1)] 1 show ?case
    using release_frame [OF Cons.prems(1) r] by auto
qed

text \<open>
  Releasing what was allocated, in any order, gives the references back and disturbs no
  other one.
\<close>

lemma alloc_release_any_order:
  assumes "invar s" "\<forall>v \<in> set vs. storable v" "alloc_all s vs = (rs, s')"
    and "distinct qs" "set qs = set rs"
  shows "invar (release_all s' qs) \<and> live (release_all s' qs) = live s
         \<and> (\<forall>r \<in> live s. get (release_all s' qs) r = get s r)"
proof -
  note A = alloc_all_props [OF assms(1-3)]
  from A assms(5) have B: "invar s'" "set qs \<subseteq> live s'"
    and D: "live s' - set qs = live s" and G: "\<And>r. r \<in> live s \<Longrightarrow> get s' r = get s r" by auto
  from release_all_props [OF B(1) assms(4) B(2)] D
  have "\<forall>r \<in> live s. get (release_all s' qs) r = get s' r" by metis
  with release_all_props [OF B(1) assms(4) B(2)] D G show ?thesis by simp
qed

lemma alloc_release_balanced:
  assumes "invar s" "\<forall>v \<in> set vs. storable v" "alloc_all s vs = (rs, s')"
  shows "invar (release_all s' rs) \<and> live (release_all s' rs) = live s
         \<and> (\<forall>r \<in> live s. get (release_all s' rs) r = get s r)"
  using alloc_release_any_order [OF assms _ refl] alloc_all_props [OF assms] by blast

end

subsection \<open>The free list\<close>

type_synonym registry = "lval list"

abbreviation (input) LUA_NOREF :: int where "LUA_NOREF \<equiv> -2"
abbreviation (input) LUA_REFNIL :: int where "LUA_REFNIL \<equiv> -1"

definition reg_geti :: "registry \<Rightarrow> int \<Rightarrow> lval" where
  "reg_geti R i = (if 0 \<le> i \<and> nat i < length R then R ! nat i else LNil)"

definition reg_seti :: "registry \<Rightarrow> int \<Rightarrow> lval \<Rightarrow> registry" where
  "reg_seti R i v =
     (if nat i < length R then R[nat i := v]
      else R @ replicate (nat i - length R) LNil @ [v])"

definition reg_rawlen :: "registry \<Rightarrow> nat" where
  "reg_rawlen R = length (takeWhile (\<lambda>v. v \<noteq> LNil) (tl R))"

definition link_of :: "lval \<Rightarrow> int" where
  "link_of v = (case v of LInt n \<Rightarrow> n | _ \<Rightarrow> 0)"

text \<open>\<open>luaL_ref\<close> on the value popped from the stack, and \<open>luaL_unref\<close>.\<close>

definition reg_ref :: "registry \<Rightarrow> lval \<Rightarrow> int \<times> registry" where
  "reg_ref R v =
     (if v = LNil then (LUA_REFNIL, R)
      else let ref = link_of (reg_geti R 0) in
        if ref \<noteq> 0 then (ref, reg_seti (reg_seti R 0 (reg_geti R ref)) ref v)
        else let ref' = int (reg_rawlen R) + 1 in (ref', reg_seti R ref' v))"

definition reg_unref :: "registry \<Rightarrow> int \<Rightarrow> registry" where
  "reg_unref R ref =
     (if 0 \<le> ref then reg_seti (reg_seti R ref (reg_geti R 0)) 0 (LInt ref) else R)"

subsection \<open>Its invariant\<close>

fun is_chain :: "registry \<Rightarrow> int \<Rightarrow> int list \<Rightarrow> bool" where
  "is_chain R r [] = (r = 0)"
| "is_chain R r (x # xs) =
     (r = x \<and> 0 < x \<and> nat x < length R \<and> is_chain R (link_of (reg_geti R x)) xs)"

fun chain :: "nat \<Rightarrow> registry \<Rightarrow> int \<Rightarrow> int list" where
  "chain 0 R r = []"
| "chain (Suc fuel) R r = (if r = 0 then [] else r # chain fuel R (link_of (reg_geti R r)))"

definition free_refs :: "registry \<Rightarrow> int list" where
  "free_refs R = chain (length R) R (link_of (reg_geti R 0))"

definition reg_live :: "registry \<Rightarrow> int set" where
  "reg_live R = {r. 0 < r \<and> nat r < length R} - set (free_refs R)"

definition reg_ok :: "registry \<Rightarrow> bool" where
  "reg_ok R \<longleftrightarrow> R \<noteq> [] \<and> is_chain R (link_of (reg_geti R 0)) (free_refs R)
     \<and> distinct (free_refs R) \<and> (\<forall>r \<in> reg_live R. reg_geti R r \<noteq> LNil)"

lemma chain_unique: "is_chain R r xs \<Longrightarrow> length xs \<le> n \<Longrightarrow> chain n R r = xs"
proof (induction xs arbitrary: r n)
  case Nil
  then show ?case by (cases n) auto
next
  case (Cons x xs)
  then show ?case by (cases n) auto
qed

lemma is_chain_range: "is_chain R r xs \<Longrightarrow> x \<in> set xs \<Longrightarrow> 0 < x \<and> nat x < length R"
  by (induction xs arbitrary: r) auto

lemma chain_length:
  assumes "is_chain R r xs" "distinct xs"
  shows "length xs \<le> length R"
proof -
  have inj: "inj_on nat (set xs)"
    using is_chain_range [OF assms(1)] by (auto simp: inj_on_def) (smt (verit) nat_eq_iff2)
  have "nat ` set xs \<subseteq> {..<length R}"
    using is_chain_range [OF assms(1)] by auto
  then have "card (nat ` set xs) \<le> length R"
    using card_mono [of "{..<length R}"] by fastforce
  with inj assms(2) show ?thesis by (simp add: card_image distinct_card)
qed

lemma free_refsI:
  "is_chain R (link_of (reg_geti R 0)) xs \<Longrightarrow> distinct xs \<Longrightarrow> free_refs R = xs"
  unfolding free_refs_def by (rule chain_unique) (auto intro: chain_length)

text \<open>Writing outside a chain leaves it a chain.\<close>

lemma reg_geti_seti:
  "0 \<le> i \<Longrightarrow> 0 \<le> j \<Longrightarrow> reg_geti (reg_seti R i v) j = (if j = i then v else reg_geti R j)"
  by (auto simp: reg_geti_def reg_seti_def nth_append nth_list_update nat_eq_iff)

lemma length_reg_seti: "length (reg_seti R i v) = max (length R) (Suc (nat i))"
  by (auto simp: reg_seti_def)

lemma is_chain_frame:
  assumes "is_chain R r xs" "\<And>x. x \<in> set xs \<Longrightarrow> reg_geti R' x = reg_geti R x"
    and "length R \<le> length R'"
  shows "is_chain R' r xs"
  using assms by (induction xs arbitrary: r) auto

subsection \<open>The free list implements the interface\<close>

lemma reg_okD:
  assumes "reg_ok R"
  shows "0 < length R" "is_chain R (link_of (reg_geti R 0)) (free_refs R)"
    "distinct (free_refs R)" "r \<in> reg_live R \<Longrightarrow> reg_geti R r \<noteq> LNil"
  using assms by (auto simp: reg_ok_def)

lemma reg_okI:
  assumes "R \<noteq> []" "is_chain R (link_of (reg_geti R 0)) xs" "distinct xs"
    and "\<And>r. 0 < r \<Longrightarrow> nat r < length R \<Longrightarrow> r \<notin> set xs \<Longrightarrow> reg_geti R r \<noteq> LNil"
  shows "reg_ok R \<and> free_refs R = xs"
proof -
  have "free_refs R = xs" by (rule free_refsI) (use assms in auto)
  with assms show ?thesis by (auto simp: reg_ok_def reg_live_def)
qed

lemma reg_live_iff: "r \<in> reg_live R \<longleftrightarrow> 0 < r \<and> nat r < length R \<and> r \<notin> set (free_refs R)"
  by (auto simp: reg_live_def)

text \<open>Taking the head of a non-empty free list.\<close>

lemma reg_ref_reuse:
  assumes ok: "reg_ok R" and v: "v \<noteq> LNil" and fr: "free_refs R = h # xs"
  shows "\<exists>R'. reg_ref R v = (h, R') \<and> reg_ok R' \<and> free_refs R' = xs \<and> length R' = length R
    \<and> (\<forall>i \<ge> 0. i \<noteq> 0 \<longrightarrow> reg_geti R' i = (if i = h then v else reg_geti R i))"
proof -
  define R' where "R' = reg_seti (reg_seti R 0 (reg_geti R h)) h v"
  from reg_okD(2) [OF ok] fr have h: "link_of (reg_geti R 0) = h" "0 < h" "nat h < length R"
    and ch: "is_chain R (link_of (reg_geti R h)) xs" by auto
  have d: "distinct xs" "h \<notin> set xs" using reg_okD(3) [OF ok] fr by auto
  have len: "length R' = length R" using h reg_okD(1) [OF ok]
    by (auto simp: R'_def length_reg_seti)
  have get: "reg_geti R' i = (if i = h then v else if i = 0 then reg_geti R h else reg_geti R i)"
    if "0 \<le> i" for i
    using that h by (auto simp: R'_def reg_geti_seti)
  have "reg_geti R' x = reg_geti R x" if "x \<in> set xs" for x
    using get [of x] is_chain_range [OF ch that] d that by auto
  from is_chain_frame [OF ch this] len have "is_chain R' (link_of (reg_geti R' 0)) xs"
    using get [of 0] h by simp
  then have "reg_ok R' \<and> free_refs R' = xs"
  proof (rule reg_okI [rotated])
    show "R' \<noteq> []" using len reg_okD(1) [OF ok] by auto
    show "distinct xs" by (rule d)
    fix r assume "0 < r" "nat r < length R'" "r \<notin> set xs"
    then show "reg_geti R' r \<noteq> LNil"
      using get [of r] v reg_okD(4) [OF ok, of r] fr len by (auto simp: reg_live_iff)
  qed
  moreover have "reg_ref R v = (h, R')" using v h by (simp add: reg_ref_def R'_def)
  ultimately show ?thesis using len get by auto
qed

text \<open>With an empty free list the next reference is one past the end.\<close>

lemma reg_rawlen_full:
  assumes "reg_ok R" "free_refs R = []"
  shows "reg_rawlen R = length R - 1"
proof -
  have "\<forall>x \<in> set (tl R). x \<noteq> LNil"
  proof
    fix x assume "x \<in> set (tl R)"
    then obtain i where i: "i < length (tl R)" "x = tl R ! i" by (metis in_set_conv_nth)
    then have "x = R ! Suc i" by (simp add: nth_tl)
    moreover have "int (Suc i) \<in> reg_live R" using i assms(2) by (auto simp: reg_live_iff)
    moreover have "reg_geti R (int (Suc i)) = R ! Suc i"
      using i by (cases R) (auto simp: reg_geti_def simp del: of_nat_Suc)
    ultimately show "x \<noteq> LNil"
      using reg_okD(4) [OF assms(1), of "int (Suc i)"] by (simp del: of_nat_Suc)
  qed
  then have "takeWhile (\<lambda>v. v \<noteq> LNil) (tl R) = tl R" by (simp only: takeWhile_eq_all_conv)
  then show ?thesis unfolding reg_rawlen_def by (simp only: length_tl)
qed

lemma reg_ref_extend:
  assumes ok: "reg_ok R" and v: "v \<noteq> LNil" and fr: "free_refs R = []"
  shows "reg_ref R v = (int (length R), R @ [v]) \<and> reg_ok (R @ [v]) \<and> free_refs (R @ [v]) = []"
proof -
  have h: "link_of (reg_geti R 0) = 0" using reg_okD(2) [OF ok] fr by simp
  have n: "int (reg_rawlen R) + 1 = int (length R)"
    using reg_rawlen_full [OF ok fr] reg_okD(1) [OF ok] by (cases R) auto
  have get: "reg_geti (R @ [v]) i = (if nat i = length R then v else reg_geti R i)" if "0 \<le> i" for i
    using that by (auto simp: reg_geti_def nth_append)
  have "reg_ok (R @ [v]) \<and> free_refs (R @ [v]) = []"
  proof (rule reg_okI)
    show "is_chain (R @ [v]) (link_of (reg_geti (R @ [v]) 0)) []"
      using get [of 0] h reg_okD(1) [OF ok] by simp
    fix r :: int assume "0 < r" "nat r < length (R @ [v])" "r \<notin> set []"
    then show "reg_geti (R @ [v]) r \<noteq> LNil"
      using get [of r] v reg_okD(4) [OF ok, of r] fr by (auto simp: reg_live_iff)
  qed auto
  moreover have "reg_ref R v = (int (length R), R @ [v])"
    using v h n by (simp add: reg_ref_def reg_seti_def)
  ultimately show ?thesis by simp
qed

lemma reg_ref_cases:
  assumes ok: "reg_ok R" and v: "v \<noteq> LNil"
  shows "\<exists>r R'. reg_ref R v = (r, R') \<and> 0 < r \<and> r \<notin> reg_live R \<and> reg_ok R'
    \<and> reg_live R' = insert r (reg_live R) \<and> reg_geti R' r = v
    \<and> (\<forall>q \<in> reg_live R. reg_geti R' q = reg_geti R q)"
proof (cases "free_refs R")
  case Nil
  note X = reg_ref_extend [OF ok v Nil]
  have "reg_live (R @ [v]) = insert (int (length R)) (reg_live R)"
    using X Nil reg_okD(1) [OF ok] by (auto simp: reg_live_iff)
  with X Nil reg_okD(1) [OF ok] show ?thesis
    by (auto simp: reg_live_iff reg_geti_def nth_append)
next
  case (Cons h xs)
  then obtain R' where R': "reg_ref R v = (h, R')" "reg_ok R'" "free_refs R' = xs"
    "length R' = length R"
    "\<And>i. 0 \<le> i \<Longrightarrow> i \<noteq> 0 \<Longrightarrow> reg_geti R' i = (if i = h then v else reg_geti R i)"
    using reg_ref_reuse [OF ok v] by metis
  have h: "0 < h" "nat h < length R" "h \<notin> set xs"
    using reg_okD(2,3) [OF ok] Cons by auto
  then have "reg_live R' = insert h (reg_live R)"
    using R' Cons by (auto simp: reg_live_iff)
  with R' h Cons show ?thesis by (auto simp: reg_live_iff)
qed

lemma reg_unref_live:
  assumes ok: "reg_ok R" and r: "r \<in> reg_live R"
  shows "reg_ok (reg_unref R r) \<and> reg_live (reg_unref R r) = reg_live R - {r}
    \<and> (\<forall>q \<in> reg_live R. q \<noteq> r \<longrightarrow> reg_geti (reg_unref R r) q = reg_geti R q)"
proof -
  define R' where "R' = reg_unref R r"
  have r': "0 < r" "nat r < length R" "r \<notin> set (free_refs R)" using r by (auto simp: reg_live_iff)
  have R': "R' = reg_seti (reg_seti R r (reg_geti R 0)) 0 (LInt r)"
    using r' by (simp add: R'_def reg_unref_def)
  have get: "reg_geti R' i = (if i = 0 then LInt r else if i = r then reg_geti R 0 else reg_geti R i)"
    if "0 \<le> i" for i using that r' by (auto simp: R' reg_geti_seti)
  have len: "length R' = length R" using r' reg_okD(1) [OF ok] by (auto simp: R' length_reg_seti)
  have "reg_geti R' x = reg_geti R x" if "x \<in> set (free_refs R)" for x
    using get [of x] is_chain_range [OF reg_okD(2) [OF ok] that] r' that by auto
  from is_chain_frame [OF reg_okD(2) [OF ok] this] len
  have "is_chain R' (link_of (reg_geti R' 0)) (r # free_refs R)"
    using get r' len by (simp add: link_of_def)
  then have X: "reg_ok R' \<and> free_refs R' = r # free_refs R"
  proof (rule reg_okI [rotated])
    show "R' \<noteq> []" using len reg_okD(1) [OF ok] by auto
    show "distinct (r # free_refs R)" using r' reg_okD(3) [OF ok] by simp
    fix q assume "0 < q" "nat q < length R'" "q \<notin> set (r # free_refs R)"
    then show "reg_geti R' q \<noteq> LNil"
      using get [of q] reg_okD(4) [OF ok, of q] len by (auto simp: reg_live_iff)
  qed
  then have "reg_live R' = reg_live R - {r}" using len by (auto simp: reg_live_iff)
  with X get show ?thesis by (auto simp: R'_def reg_live_iff)
qed

interpretation luaref: ref_store reg_ref reg_unref reg_geti reg_live reg_ok "\<lambda>v. v \<noteq> LNil"
proof
  fix R v r r'
  assume ok: "reg_ok R"
  {
    assume v: "v \<noteq> LNil"
    obtain q R' where "reg_ref R v = (q, R')" "0 < q" "q \<notin> reg_live R" "reg_ok R'"
      "reg_live R' = insert q (reg_live R)" "reg_geti R' q = v"
      "\<forall>q \<in> reg_live R. reg_geti R' q = reg_geti R q"
      using reg_ref_cases [OF ok v] by blast
    then show "fst (reg_ref R v) \<notin> reg_live R" "0 < fst (reg_ref R v)"
      "reg_live (snd (reg_ref R v)) = insert (fst (reg_ref R v)) (reg_live R)"
      "reg_geti (snd (reg_ref R v)) (fst (reg_ref R v)) = v"
      "r \<in> reg_live R \<Longrightarrow> reg_geti (snd (reg_ref R v)) r = reg_geti R r"
      "reg_ok (snd (reg_ref R v))" by simp_all
  }
  {
    assume r: "r \<in> reg_live R"
    from reg_unref_live [OF ok r] show "reg_live (reg_unref R r) = reg_live R - {r}"
      "r' \<in> reg_live R \<Longrightarrow> r' \<noteq> r \<Longrightarrow> reg_geti (reg_unref R r) r' = reg_geti R r'"
      "reg_ok (reg_unref R r)" by auto
  }
qed

text \<open>The negative references \<^verbatim>\<open>LUA_NOREF\<close> and \<^verbatim>\<open>LUA_REFNIL\<close> are ignored by \<^verbatim>\<open>luaL_unref\<close>.\<close>

lemma reg_unref_negative [simp]: "r < 0 \<Longrightarrow> reg_unref R r = R"
  by (simp add: reg_unref_def)

lemma reg_live_pos: "r \<in> reg_live R \<Longrightarrow> 0 < r"
  by (simp add: reg_live_iff)

text \<open>The registry of a fresh state: element 1 is the main thread, element 2 the globals.\<close>

definition reg_init :: registry where
  "reg_init = [LNil, LThread, LTab 0]"

lemma reg_ok_init: "reg_ok reg_init \<and> free_refs reg_init = []"
proof (rule reg_okI)
  show "is_chain reg_init (link_of (reg_geti reg_init 0)) []"
    by (simp add: reg_init_def reg_geti_def link_of_def)
  fix r :: int assume "0 < r" "nat r < length reg_init"
  then have "nat r = 1 \<or> nat r = 2" by (auto simp: reg_init_def)
  then show "reg_geti reg_init r \<noteq> LNil" by (auto simp: reg_init_def reg_geti_def numeral_2_eq_2)
qed (auto simp: reg_init_def)

end
