(* ===== verification/Lua_State.thy ===== *)
theory Lua_State
  imports Lua_Registry
begin

text \<open>
  The state the C code of luv works on, the environment it asks, and the part of the
  Lua C API it uses.  The state holds the Lua stack of the running C function (bottom
  first: index 1 is element 0), the registry, the tables, the userdata with the libuv
  handle or request inside, the \<^verbatim>\<open>malloc\<close> heap, and logs of the libuv calls made and the
  Lua functions called.  An operation Lua leaves undefined (an index outside the stack,
  a raw access to something that is no table) ends in \<open>Crash\<close>.
\<close>

subsection \<open>Data of libuv and luv\<close>

datatype uv_handle_type =
    UV_UNKNOWN_HANDLE | UV_ASYNC | UV_CHECK | UV_FS_EVENT | UV_FS_POLL | UV_HANDLE
  | UV_IDLE | UV_NAMED_PIPE | UV_POLL | UV_PREPARE | UV_PROCESS | UV_STREAM | UV_TCP
  | UV_TIMER | UV_TTY | UV_UDP | UV_SIGNAL | UV_FILE

datatype uv_req_type =
    UV_UNKNOWN_REQ | UV_REQ | UV_CONNECT | UV_WRITE | UV_SHUTDOWN | UV_UDP_SEND | UV_FS
  | UV_WORK | UV_GETADDRINFO | UV_GETNAMEINFO

datatype uv_fs_type =
    UV_FS_UNKNOWN | UV_FS_CUSTOM | UV_FS_OPEN | UV_FS_CLOSE | UV_FS_READ | UV_FS_WRITE
  | UV_FS_SENDFILE | UV_FS_STAT | UV_FS_LSTAT | UV_FS_FSTAT | UV_FS_FTRUNCATE
  | UV_FS_UTIME | UV_FS_FUTIME | UV_FS_ACCESS | UV_FS_CHMOD | UV_FS_FCHMOD
  | UV_FS_FSYNC | UV_FS_FDATASYNC | UV_FS_UNLINK | UV_FS_RMDIR | UV_FS_MKDIR
  | UV_FS_MKDTEMP | UV_FS_RENAME | UV_FS_SCANDIR | UV_FS_LINK | UV_FS_SYMLINK
  | UV_FS_READLINK | UV_FS_CHOWN | UV_FS_FCHOWN

text \<open>The fields of \<^verbatim>\<open>uv_handle_t\<close> and \<^verbatim>\<open>uv_req_t\<close> (with \<^verbatim>\<open>uv_fs_t\<close>) the code reads or writes.\<close>

record uv_handle =
  h_type :: uv_handle_type
  h_data :: "nat option"
  h_closing :: bool

record uv_req =
  r_type :: uv_req_type
  r_data :: "nat option"
  r_fs_type :: uv_fs_type
  r_result :: int
  r_path :: "string option"
  r_ptr :: "string option"

text \<open>\<^verbatim>\<open>luv_handle_t\<close> and \<^verbatim>\<open>luv_req_t\<close>.\<close>

record luv_handle =
  lh_ref :: int
  lh_cb0 :: int
  lh_cb1 :: int

record luv_req =
  lr_req_ref :: int
  lr_cb_ref :: int
  lr_data_ref :: int
  lr_data :: "nat option"

datatype block = BHandle luv_handle | BReq luv_req | BBuf

datatype uvarg = AInt int | ANum lval | AStr string | AStrs "string option list"
  | ABufs "string list" | AObj nat | ANull | AFn string

type_synonym uvcall = "string \<times> uvarg list"

text \<open>What ends a computation abnormally: a Lua error, or undefined behaviour of C.\<close>

datatype fault =
    Null_deref | Use_after_free | Double_free | Bad_index | Bad_type | Buffer_overflow
  | Assert_failed | Uninitialised

datatype exc = LuaErr lval | Crash fault

record lstate =
  stk :: "lval list"
  reg :: registry
  regs :: "string \<Rightarrow> lval"
  tabs :: "nat \<Rightarrow> ltable"
  ntab :: nat
  nud :: nat
  umeta :: "nat \<Rightarrow> nat option"
  hnds :: "nat \<Rightarrow> uv_handle option"
  rqs :: "nat \<Rightarrow> uv_req option"
  mem :: "nat \<Rightarrow> block option"
  brk :: nat
  uvlog :: "uvcall list"
  calls :: "(lval \<times> lval list) list"
  errbuf :: string
  out :: "string list"

text \<open>What the debug interface of Lua tells about one active function.\<close>

record frame =
  fr_func :: lval
  fr_what :: string
  fr_name :: "string option"
  fr_short_src :: string
  fr_currentline :: int
  fr_locals :: "(string \<times> lval) list"

text \<open>
  The callbacks libuv makes into luv from inside \<^verbatim>\<open>uv_run\<close>.  Scalar arguments are part of
  the event; structures (an address, a stat buffer, bytes read) are outputs the environment
  answers at that moment.
\<close>

datatype uv_event =
    EvClose nat | EvSpawnClose nat | EvTimer nat | EvPrepare nat | EvCheck nat | EvIdle nat
  | EvAsync nat | EvPoll nat int int | EvSignal nat int | EvConnection nat int | EvRead nat int
  | EvShutdown nat int | EvWrite nat int | EvConnect nat int | EvSend nat int
  | EvRecv nat int bool nat | EvFs nat | EvFsEvent nat int int | EvFsPoll nat int bool bool
  | EvExit nat int int | EvGetaddrinfo nat int | EvGetnameinfo nat int

text \<open>
  The environment: what libuv and the platform answer (a function of the whole history
  of libuv calls, newest first, so that nothing is assumed about repeated calls), what a
  Lua function of the user does, which allocations succeed, the conversions of floating
  point numbers, the texts Lua makes of numbers and pointers, and the constants of the platform's headers.
\<close>

record env =
  uv_ret :: "uvcall list \<Rightarrow> int"
  uv_int :: "uvcall list \<Rightarrow> nat \<Rightarrow> int"
  uv_text :: "uvcall list \<Rightarrow> nat \<Rightarrow> string option"
  uv_dbl :: "uvcall list \<Rightarrow> nat \<Rightarrow> 64 word"
  uv_events :: "uvcall list \<Rightarrow> uv_event list"
  uv_walked :: "uvcall list \<Rightarrow> nat list"
  uv_err_name :: "int \<Rightarrow> string"
  uv_strerror :: "int \<Rightarrow> string"
  malloc_ok :: "nat \<Rightarrow> bool"
  ucall :: "lval \<Rightarrow> lval list \<Rightarrow> lstate \<Rightarrow> (exc + lval list) \<times> lstate"
  str2num :: "string \<Rightarrow> lval option"
  flt2int :: "64 word \<Rightarrow> int option"
  num2cint :: "lval \<Rightarrow> int"
  num2str :: "lval \<Rightarrow> string"
  ptr2str :: "lval \<Rightarrow> string"
  arg_msg :: "int \<Rightarrow> string \<Rightarrow> string"
  lwhere :: string
  frames :: "lstate \<Rightarrow> frame list"
  upvals :: "lval \<Rightarrow> (string \<times> lval) list"
  cst :: "string \<Rightarrow> int option"

type_synonym 'a M = "(env, lstate, exc, 'a) comp"

abbreviation crash :: "fault \<Rightarrow> 'a M" where "crash f \<equiv> failM (Crash f)"

subsection \<open>The stack\<close>

text \<open>\<^verbatim>\<open>index2addr\<close>: a positive index past the top is the valid "none", a negative one is not checked.\<close>

definition index2addr :: "int \<Rightarrow> lval option M" where
  "index2addr i = (\<lambda>E s. let n = length (stk s) in
     if 0 < i then (Inr (if nat i \<le> n then Some (stk s ! (nat i - 1)) else None), s)
     else if i < 0 \<and> nat (- i) \<le> n then (Inr (Some (stk s ! (n - nat (- i)))), s)
     else (Inl (Crash Bad_index), s))"

definition push :: "lval \<Rightarrow> unit M" where
  "push v = modM (\<lambda>s. s\<lparr>stk := stk s @ [v]\<rparr>)"

definition lua_pop :: "nat \<Rightarrow> unit M" where
  "lua_pop n = (\<lambda>E s. if n \<le> length (stk s)
     then (Inr (), s\<lparr>stk := take (length (stk s) - n) (stk s)\<rparr>)
     else (Inl (Crash Bad_index), s))"

definition pop_val :: "lval M" where
  "pop_val = (\<lambda>E s. if stk s = [] then (Inl (Crash Bad_index), s)
     else (Inr (last (stk s)), s\<lparr>stk := butlast (stk s)\<rparr>))"

definition lua_gettop :: "nat M" where
  "lua_gettop = getM (\<lambda>s. length (stk s))"

text \<open>\<^verbatim>\<open>lua_insert\<close> and \<^verbatim>\<open>lua_remove\<close>, used with negative indices only.\<close>

definition lua_insert :: "int \<Rightarrow> unit M" where
  "lua_insert i = (\<lambda>E s. let n = length (stk s); k = nat (- i) in
     if i < 0 \<and> k \<le> n
     then (Inr (), s\<lparr>stk := take (n - k) (stk s) @ last (stk s) # butlast (drop (n - k) (stk s))\<rparr>)
     else (Inl (Crash Bad_index), s))"

definition lua_remove :: "int \<Rightarrow> unit M" where
  "lua_remove i = (\<lambda>E s. let n = length (stk s); k = nat (- i) in
     if i < 0 \<and> k \<le> n
     then (Inr (), s\<lparr>stk := take (n - k) (stk s) @ drop (n - k + 1) (stk s)\<rparr>)
     else (Inl (Crash Bad_index), s))"

definition set_slot :: "int \<Rightarrow> lval \<Rightarrow> unit M" where
  "set_slot i v = modM (\<lambda>s. s\<lparr>stk := (stk s)
     [(if 0 < i then nat i - 1 else length (stk s) - nat (- i)) := v]\<rparr>)"

abbreviation lua_pushnil :: "unit M" where "lua_pushnil \<equiv> push LNil"
abbreviation lua_pushboolean :: "bool \<Rightarrow> unit M" where "lua_pushboolean b \<equiv> push (LBool b)"
abbreviation lua_pushinteger :: "int \<Rightarrow> unit M" where
  "lua_pushinteger n \<equiv> push (LInt (c_int64 n))"
abbreviation lua_pushlstring :: "string \<Rightarrow> unit M" where "lua_pushlstring s \<equiv> push (LStr s)"
abbreviation lua_pushcfunction :: "string \<Rightarrow> unit M" where "lua_pushcfunction f \<equiv> push (LCFun f)"

text \<open>\<^verbatim>\<open>lua_pushstring\<close> copies up to the first NUL and pushes nil for a null pointer.\<close>

definition lua_pushstring :: "string option \<Rightarrow> unit M" where
  "lua_pushstring p = (case p of None \<Rightarrow> push LNil | Some s \<Rightarrow> push (LStr (cstr s)))"

definition lua_pushvalue :: "int \<Rightarrow> unit M" where
  "lua_pushvalue i = bindM (index2addr i) (\<lambda>v. push (case v of None \<Rightarrow> LNil | Some v \<Rightarrow> v))"

subsection \<open>Reading values\<close>

definition lua_type :: "int \<Rightarrow> ltag M" where
  "lua_type i = bindM (index2addr i)
     (\<lambda>v. retM (case v of None \<Rightarrow> TNONE | Some v \<Rightarrow> lua_tag v))"

definition lua_isnoneornil :: "int \<Rightarrow> bool M" where
  "lua_isnoneornil i = bindM (lua_type i) (\<lambda>t. retM (t \<le> TNIL))"

definition lua_isnil :: "int \<Rightarrow> bool M" where
  "lua_isnil i = bindM (lua_type i) (\<lambda>t. retM (t = TNIL))"

definition lua_istable :: "int \<Rightarrow> bool M" where
  "lua_istable i = bindM (lua_type i) (\<lambda>t. retM (t = TTABLE))"

definition lua_isfunction :: "int \<Rightarrow> bool M" where
  "lua_isfunction i = bindM (lua_type i) (\<lambda>t. retM (t = TFUNCTION))"

definition to_num :: "env \<Rightarrow> lval \<Rightarrow> lval option" where
  "to_num E v = (case v of LInt n \<Rightarrow> Some v | LFlt w \<Rightarrow> Some v | LStr t \<Rightarrow> str2num E t | _ \<Rightarrow> None)"

definition to_int :: "env \<Rightarrow> lval \<Rightarrow> int option" where
  "to_int E v = (case to_num E v of
      Some (LInt n) \<Rightarrow> Some n | Some (LFlt w) \<Rightarrow> flt2int E w | _ \<Rightarrow> None)"

definition lua_isnumber :: "int \<Rightarrow> bool M" where
  "lua_isnumber i = bindM (index2addr i) (\<lambda>v E s.
     (Inr (case v of None \<Rightarrow> False | Some v \<Rightarrow> to_num E v \<noteq> None), s))"

definition lua_isstring :: "int \<Rightarrow> bool M" where
  "lua_isstring i = bindM (lua_type i) (\<lambda>t. retM (t = TSTRING \<or> t = TNUMBER))"

definition lua_toboolean :: "int \<Rightarrow> bool M" where
  "lua_toboolean i = bindM (index2addr i)
     (\<lambda>v. retM (case v of None \<Rightarrow> False | Some v \<Rightarrow> lval_truth v))"

definition lua_tointeger :: "int \<Rightarrow> int M" where
  "lua_tointeger i = bindM (index2addr i) (\<lambda>v E s.
     (Inr (case v of None \<Rightarrow> 0 | Some v \<Rightarrow> (case to_int E v of None \<Rightarrow> 0 | Some n \<Rightarrow> n)), s))"

text \<open>\<^verbatim>\<open>lua_tolstring\<close> converts a number in place; it answers NULL for other types.\<close>

definition lua_tostring :: "int \<Rightarrow> string option M" where
  "lua_tostring i = bindM (index2addr i) (\<lambda>v. case v of
      Some (LStr t) \<Rightarrow> retM (Some t)
    | Some (LInt n) \<Rightarrow> bindM (askM (\<lambda>E. num2str E (LInt n)))
        (\<lambda>t. thenM (set_slot i (LStr t)) (retM (Some t)))
    | Some (LFlt w) \<Rightarrow> bindM (askM (\<lambda>E. num2str E (LFlt w)))
        (\<lambda>t. thenM (set_slot i (LStr t)) (retM (Some t)))
    | _ \<Rightarrow> retM None)"

text \<open>\<^verbatim>\<open>lua_touserdata\<close>: the address inside a full or light userdata, NULL otherwise.\<close>

definition lua_touserdata :: "int \<Rightarrow> lval option M" where
  "lua_touserdata i = bindM (index2addr i) (\<lambda>v. retM (case v of
      Some (LUData u) \<Rightarrow> Some (LUData u) | Some (LLight p) \<Rightarrow> Some (LLight p) | _ \<Rightarrow> None))"

subsection \<open>Errors and argument checks\<close>

definition luaL_error :: "string \<Rightarrow> 'a M" where
  "luaL_error msg = bindM (askM lwhere) (\<lambda>w. failM (LuaErr (LStr (w @ msg))))"

definition luaL_argerror :: "int \<Rightarrow> string \<Rightarrow> 'a M" where
  "luaL_argerror i msg = bindM (askM (\<lambda>E. arg_msg E i msg)) (\<lambda>m. failM (LuaErr (LStr m)))"

definition luaL_argcheck :: "bool \<Rightarrow> int \<Rightarrow> string \<Rightarrow> unit M" where
  "luaL_argcheck b i msg = (if b then retM () else luaL_argerror i msg)"

definition typeerror :: "int \<Rightarrow> string \<Rightarrow> 'a M" where
  "typeerror i tname = bindM (lua_type i)
     (\<lambda>t. luaL_argerror i (tname @ '' expected, got '' @ tag_name t))"

definition luaL_checktype :: "int \<Rightarrow> ltag \<Rightarrow> unit M" where
  "luaL_checktype i t = bindM (lua_type i)
     (\<lambda>t'. if t' = t then retM () else typeerror i (tag_name t))"

definition luaL_checkinteger :: "int \<Rightarrow> int M" where
  "luaL_checkinteger i = bindM (index2addr i) (\<lambda>v. bindM (askM id) (\<lambda>E.
     case v of None \<Rightarrow> typeerror i ''number''
     | Some v \<Rightarrow> (case to_int E v of Some n \<Rightarrow> retM n
         | None \<Rightarrow> if to_num E v \<noteq> None
             then luaL_argerror i ''number has no integer representation''
             else typeerror i ''number'')))"

definition luaL_checknumber :: "int \<Rightarrow> lval M" where
  "luaL_checknumber i = bindM (index2addr i) (\<lambda>v. bindM (askM id) (\<lambda>E.
     case v of None \<Rightarrow> typeerror i ''number''
     | Some v \<Rightarrow> (case to_num E v of Some n \<Rightarrow> retM n | None \<Rightarrow> typeerror i ''number'')))"

definition luaL_optinteger :: "int \<Rightarrow> int \<Rightarrow> int M" where
  "luaL_optinteger i d = bindM (lua_isnoneornil i)
     (\<lambda>b. if b then retM d else luaL_checkinteger i)"

definition luaL_checklstring :: "int \<Rightarrow> string M" where
  "luaL_checklstring i = bindM (lua_tostring i)
     (\<lambda>r. case r of Some t \<Rightarrow> retM t | None \<Rightarrow> typeerror i ''string'')"

text \<open>A C string argument is used up to its first NUL.\<close>

definition luaL_checkstring :: "int \<Rightarrow> string M" where
  "luaL_checkstring i = bindM (luaL_checklstring i) (\<lambda>t. retM (cstr t))"

fun index_of :: "'a \<Rightarrow> 'a list \<Rightarrow> nat option" where
  "index_of x [] = None"
| "index_of x (y # ys) = (if y = x then Some 0 else map_option Suc (index_of x ys))"

definition luaL_checkoption :: "int \<Rightarrow> string option \<Rightarrow> string list \<Rightarrow> nat M" where
  "luaL_checkoption i d opts = bindM
     (bindM (lua_isnoneornil i) (\<lambda>b. case d of
         Some t \<Rightarrow> if b then retM t else luaL_checkstring i
       | None \<Rightarrow> luaL_checkstring i))
     (\<lambda>name. case index_of name opts of Some k \<Rightarrow> retM k
        | None \<Rightarrow> luaL_argerror i (''invalid option '' @ name))"

subsection \<open>Tables\<close>

definition lua_newtable :: "unit M" where
  "lua_newtable = modM (\<lambda>s. s\<lparr>tabs := (tabs s)(ntab s := []), ntab := Suc (ntab s),
      stk := stk s @ [LTab (ntab s)]\<rparr>)"

abbreviation lua_createtable :: "nat \<Rightarrow> nat \<Rightarrow> unit M" where
  "lua_createtable narr nrec \<equiv> lua_newtable"

definition tab_at :: "int \<Rightarrow> fault \<Rightarrow> nat M" where
  "tab_at i f = bindM (index2addr i) (\<lambda>v. case v of Some (LTab t) \<Rightarrow> retM t | _ \<Rightarrow> crash f)"

text \<open>Plain tables only: indexing anything else is a Lua error.\<close>

definition index_tab :: "int \<Rightarrow> nat M" where
  "index_tab i = bindM (index2addr i) (\<lambda>v. case v of Some (LTab t) \<Rightarrow> retM t
     | _ \<Rightarrow> luaL_error ''attempt to index a value'')"

definition lua_getfield :: "int \<Rightarrow> string \<Rightarrow> unit M" where
  "lua_getfield i k = bindM (index_tab i)
     (\<lambda>t. bindM (getM (\<lambda>s. tget (tabs s t) (LStr k))) push)"

definition lua_setfield :: "int \<Rightarrow> string \<Rightarrow> unit M" where
  "lua_setfield i k = bindM (index_tab i)
     (\<lambda>t. bindM pop_val (\<lambda>v. modM (\<lambda>s. s\<lparr>tabs := (tabs s)(t := tset (tabs s t) (LStr k) v)\<rparr>)))"

definition lua_rawget :: "int \<Rightarrow> unit M" where
  "lua_rawget i = bindM (tab_at i Bad_type)
     (\<lambda>t. bindM pop_val (\<lambda>k. bindM (getM (\<lambda>s. tget (tabs s t) k)) push))"

definition lua_rawset :: "int \<Rightarrow> unit M" where
  "lua_rawset i = bindM (tab_at i Bad_type) (\<lambda>t. bindM pop_val (\<lambda>v. bindM pop_val
     (\<lambda>k. modM (\<lambda>s. s\<lparr>tabs := (tabs s)(t := tset (tabs s t) k v)\<rparr>))))"

definition lua_rawgeti :: "int \<Rightarrow> int \<Rightarrow> unit M" where
  "lua_rawgeti i n = bindM (tab_at i Bad_type)
     (\<lambda>t. bindM (getM (\<lambda>s. tget (tabs s t) (LInt n))) push)"

definition lua_rawseti :: "int \<Rightarrow> int \<Rightarrow> unit M" where
  "lua_rawseti i n = bindM (tab_at i Bad_type)
     (\<lambda>t. bindM pop_val (\<lambda>v. modM (\<lambda>s. s\<lparr>tabs := (tabs s)(t := tset (tabs s t) (LInt n) v)\<rparr>)))"

text \<open>\<^verbatim>\<open>lua_rawlen\<close>: the border of a table, the length of a string, 0 for other values.\<close>

definition lua_rawlen :: "int \<Rightarrow> nat M" where
  "lua_rawlen i = bindM (index2addr i) (\<lambda>v. case v of
      Some (LTab t) \<Rightarrow> getM (\<lambda>s. border (tabs s t))
    | Some (LStr t) \<Rightarrow> retM (length t)
    | _ \<Rightarrow> retM 0)"

subsection \<open>The registry and userdata\<close>

definition reg_getfield :: "string \<Rightarrow> unit M" where
  "reg_getfield k = bindM (getM (\<lambda>s. regs s k)) push"

definition reg_setfield :: "string \<Rightarrow> unit M" where
  "reg_setfield k = bindM pop_val (\<lambda>v. modM (\<lambda>s. s\<lparr>regs := (regs s)(k := v)\<rparr>))"

definition reg_rawgeti :: "int \<Rightarrow> unit M" where
  "reg_rawgeti r = bindM (getM (\<lambda>s. reg_geti (reg s) r)) push"

definition luaL_ref :: "int M" where
  "luaL_ref = bindM pop_val (\<lambda>v E s.
     (Inr (fst (reg_ref (reg s) v)), s\<lparr>reg := snd (reg_ref (reg s) v)\<rparr>))"

definition luaL_unref :: "int \<Rightarrow> unit M" where
  "luaL_unref r = modM (\<lambda>s. s\<lparr>reg := reg_unref (reg s) r\<rparr>)"

abbreviation luaL_getmetatable :: "string \<Rightarrow> unit M" where
  "luaL_getmetatable k \<equiv> reg_getfield k"

text \<open>\<^verbatim>\<open>luaL_newmetatable\<close>: pushes the registry's table of that name, a new one if absent.\<close>

definition luaL_newmetatable :: "string \<Rightarrow> unit M" where
  "luaL_newmetatable k = bindM (getM (\<lambda>s. regs s k)) (\<lambda>v.
     if v \<noteq> LNil then push v
     else thenM lua_newtable (thenM (push (LStr k)) (thenM (lua_setfield (-2) ''__name'')
       (thenM (lua_pushvalue (-1)) (reg_setfield k)))))"

definition lua_newuserdata :: "nat M" where
  "lua_newuserdata = (\<lambda>E s. (Inr (nud s), s\<lparr>nud := Suc (nud s), stk := stk s @ [LUData (nud s)],
      umeta := (umeta s)(nud s := None), hnds := (hnds s)(nud s := None),
      rqs := (rqs s)(nud s := None)\<rparr>))"

text \<open>
  \<^verbatim>\<open>lua_getmetatable\<close> pushes nothing when there is no metatable.  Only full userdata have
  metatables here.
\<close>

definition lua_getmetatable :: "int \<Rightarrow> bool M" where
  "lua_getmetatable i = bindM (index2addr i) (\<lambda>v. case v of
      Some (LUData u) \<Rightarrow> bindM (getM (\<lambda>s. umeta s u)) (\<lambda>m. case m of
          None \<Rightarrow> retM False
        | Some t \<Rightarrow> thenM (push (LTab t)) (retM True))
    | _ \<Rightarrow> retM False)"

definition lua_setmetatable :: "int \<Rightarrow> unit M" where
  "lua_setmetatable i = bindM (index2addr i) (\<lambda>o1. bindM pop_val (\<lambda>m. case o1 of
      Some (LUData u) \<Rightarrow> (case m of
          LTab t \<Rightarrow> modM (\<lambda>s. s\<lparr>umeta := (umeta s)(u := Some t)\<rparr>)
        | LNil \<Rightarrow> modM (\<lambda>s. s\<lparr>umeta := (umeta s)(u := None)\<rparr>)
        | _ \<Rightarrow> crash Bad_type)
    | _ \<Rightarrow> retM ()))"

definition luaL_checkudata :: "int \<Rightarrow> string \<Rightarrow> nat M" where
  "luaL_checkudata i tname = bindM (index2addr i) (\<lambda>v. case v of
      Some (LUData u) \<Rightarrow> bindM (getM (\<lambda>s. (umeta s u, regs s tname)))
        (\<lambda>(m, r). if map_option LTab m = Some r then retM u else typeerror i tname)
    | _ \<Rightarrow> typeerror i tname)"

subsection \<open>The C heap\<close>

definition malloc :: "block \<Rightarrow> nat option M" where
  "malloc b = (\<lambda>E s. if malloc_ok E (brk s)
     then (Inr (Some (brk s)), s\<lparr>mem := (mem s)(brk s := Some b), brk := Suc (brk s)\<rparr>)
     else (Inr None, s\<lparr>brk := Suc (brk s)\<rparr>))"

definition free_block :: "nat option \<Rightarrow> unit M" where
  "free_block p = (\<lambda>E s. case p of None \<Rightarrow> (Inr (), s)
     | Some a \<Rightarrow> if mem s a = None then (Inl (Crash Double_free), s)
         else (Inr (), s\<lparr>mem := (mem s)(a := None)\<rparr>))"

text \<open>Reading through a \<^verbatim>\<open>luv_handle_t*\<close> or \<^verbatim>\<open>luv_req_t*\<close> that is NULL or freed is undefined.\<close>

definition get_lh :: "nat option \<Rightarrow> luv_handle M" where
  "get_lh p = (\<lambda>E s. case p of None \<Rightarrow> (Inl (Crash Null_deref), s)
     | Some a \<Rightarrow> (case mem s a of Some (BHandle d) \<Rightarrow> (Inr d, s)
         | _ \<Rightarrow> (Inl (Crash Use_after_free), s)))"

definition put_lh :: "nat option \<Rightarrow> luv_handle \<Rightarrow> unit M" where
  "put_lh p d = modM (\<lambda>s. case p of None \<Rightarrow> s | Some a \<Rightarrow> s\<lparr>mem := (mem s)(a := Some (BHandle d))\<rparr>)"

definition get_lr :: "nat option \<Rightarrow> luv_req M" where
  "get_lr p = (\<lambda>E s. case p of None \<Rightarrow> (Inl (Crash Null_deref), s)
     | Some a \<Rightarrow> (case mem s a of Some (BReq d) \<Rightarrow> (Inr d, s)
         | _ \<Rightarrow> (Inl (Crash Use_after_free), s)))"

definition put_lr :: "nat option \<Rightarrow> luv_req \<Rightarrow> unit M" where
  "put_lr p d = modM (\<lambda>s. case p of None \<Rightarrow> s | Some a \<Rightarrow> s\<lparr>mem := (mem s)(a := Some (BReq d))\<rparr>)"

text \<open>The handle or request inside a userdata; one that was never initialised is not readable.\<close>

definition get_h :: "nat \<Rightarrow> uv_handle M" where
  "get_h u = (\<lambda>E s. case hnds s u of Some h \<Rightarrow> (Inr h, s) | None \<Rightarrow> (Inl (Crash Uninitialised), s))"

definition put_h :: "nat \<Rightarrow> uv_handle \<Rightarrow> unit M" where
  "put_h u h = modM (\<lambda>s. s\<lparr>hnds := (hnds s)(u := Some h)\<rparr>)"

definition get_r :: "nat \<Rightarrow> uv_req M" where
  "get_r u = (\<lambda>E s. case rqs s u of Some r \<Rightarrow> (Inr r, s) | None \<Rightarrow> (Inl (Crash Uninitialised), s))"

definition put_r :: "nat \<Rightarrow> uv_req \<Rightarrow> unit M" where
  "put_r u r = modM (\<lambda>s. s\<lparr>rqs := (rqs s)(u := Some r)\<rparr>)"

subsection \<open>Calls to libuv\<close>

text \<open>A call is logged and answered by the environment from the log; outputs likewise.\<close>

definition uv :: "string \<Rightarrow> uvarg list \<Rightarrow> int M" where
  "uv f args = (\<lambda>E s. let l = (f, args) # uvlog s in (Inr (uv_ret E l), s\<lparr>uvlog := l\<rparr>))"

definition uv_void :: "string \<Rightarrow> uvarg list \<Rightarrow> unit M" where
  "uv_void f args = modM (\<lambda>s. s\<lparr>uvlog := (f, args) # uvlog s\<rparr>)"

definition uv_out :: "nat \<Rightarrow> int M" where
  "uv_out k = (\<lambda>E s. (Inr (uv_int E (uvlog s) k), s))"

definition uv_outs :: "nat \<Rightarrow> string option M" where
  "uv_outs k = (\<lambda>E s. (Inr (uv_text E (uvlog s) k), s))"

definition uv_outd :: "nat \<Rightarrow> lval M" where
  "uv_outd k = (\<lambda>E s. (Inr (LFlt (uv_dbl E (uvlog s) k)), s))"

text \<open>An output buffer the call has filled.\<close>

definition out_str :: "nat \<Rightarrow> string M" where
  "out_str k = bindM (uv_outs k) (\<lambda>t. retM (case t of None \<Rightarrow> [] | Some t \<Rightarrow> t))"

subsection \<open>Running the interface functions\<close>

lemma run_index2addr_pos [luasem]:
  "0 < i \<Longrightarrow> index2addr i E s =
     (Inr (if nat i \<le> length (stk s) then Some (stk s ! (nat i - 1)) else None), s)"
  by (simp add: index2addr_def Let_def)

lemma run_index2addr_top [luasem]:
  "stk s = base @ [v] \<Longrightarrow> index2addr (-1) E s = (Inr (Some v), s)"
  by (simp add: index2addr_def Let_def)

lemma run_index2addr_neg:
  assumes "stk s = base @ v # rest" "i = - int (Suc (length rest))"
  shows "index2addr i E s = (Inr (Some v), s)"
  using assms by (simp add: index2addr_def Let_def)

lemma run_push [luasem]: "push v E s = (Inr (), s\<lparr>stk := stk s @ [v]\<rparr>)"
  by (simp add: push_def run_modM)

lemma run_lua_pop [luasem]:
  "n \<le> length (stk s) \<Longrightarrow>
   lua_pop n E s = (Inr (), s\<lparr>stk := take (length (stk s) - n) (stk s)\<rparr>)"
  by (simp add: lua_pop_def)

lemma run_pop_val [luasem]:
  "stk s \<noteq> [] \<Longrightarrow> pop_val E s = (Inr (last (stk s)), s\<lparr>stk := butlast (stk s)\<rparr>)"
  by (simp add: pop_val_def)

lemma run_lua_insert:
  assumes "stk s = base @ args @ [v]" "i = - 1 - int (length args)"
  shows "lua_insert i E s = (Inr (), s\<lparr>stk := base @ v # args\<rparr>)"
proof -
  have k: "nat (- i) = Suc (length args)" using assms(2) by simp
  show ?thesis using assms by (simp add: lua_insert_def Let_def k)
qed

lemma run_lua_remove:
  assumes "stk s = base @ v # rest" "i = - 1 - int (length rest)"
  shows "lua_remove i E s = (Inr (), s\<lparr>stk := base @ rest\<rparr>)"
proof -
  have k: "nat (- i) = Suc (length rest)" using assms(2) by simp
  show ?thesis using assms by (simp add: lua_remove_def Let_def k)
qed

lemma run_lua_pushstring [luasem]:
  "lua_pushstring p E s =
     (Inr (), s\<lparr>stk := stk s @ [case p of None \<Rightarrow> LNil | Some t \<Rightarrow> LStr (cstr t)]\<rparr>)"
  by (cases p) (simp_all add: lua_pushstring_def run_push)

lemma run_reg_rawgeti [luasem]:
  "reg_rawgeti r E s = (Inr (), s\<lparr>stk := stk s @ [reg_geti (reg s) r]\<rparr>)"
  by (simp add: reg_rawgeti_def luasem)

lemma run_reg_getfield [luasem]:
  "reg_getfield k E s = (Inr (), s\<lparr>stk := stk s @ [regs s k]\<rparr>)"
  by (simp add: reg_getfield_def luasem)

lemma run_luaL_unref [luasem]: "luaL_unref r E s = (Inr (), s\<lparr>reg := reg_unref (reg s) r\<rparr>)"
  by (simp add: luaL_unref_def luasem)

lemma run_luaL_ref [luasem]:
  "stk s \<noteq> [] \<Longrightarrow> luaL_ref E s =
     (Inr (fst (reg_ref (reg s) (last (stk s)))),
      s\<lparr>stk := butlast (stk s), reg := snd (reg_ref (reg s) (last (stk s)))\<rparr>)"
  by (simp add: luaL_ref_def luasem)

lemma run_uv [luasem]:
  "uv f args E s = (Inr (uv_ret E ((f, args) # uvlog s)), s\<lparr>uvlog := (f, args) # uvlog s\<rparr>)"
  by (simp add: uv_def Let_def)

lemma run_uv_void [luasem]: "uv_void f args E s = (Inr (), s\<lparr>uvlog := (f, args) # uvlog s\<rparr>)"
  by (simp add: uv_void_def luasem)

lemma run_uv_out [luasem]: "uv_out k E s = (Inr (uv_int E (uvlog s) k), s)"
  by (simp add: uv_out_def)

lemma run_uv_outs [luasem]: "uv_outs k E s = (Inr (uv_text E (uvlog s) k), s)"
  by (simp add: uv_outs_def)

lemma run_lua_newuserdata [luasem]:
  "lua_newuserdata E s = (Inr (nud s), s\<lparr>nud := Suc (nud s), stk := stk s @ [LUData (nud s)],
      umeta := (umeta s)(nud s := None), hnds := (hnds s)(nud s := None),
      rqs := (rqs s)(nud s := None)\<rparr>)"
  by (simp add: lua_newuserdata_def)

lemma run_malloc [luasem]:
  "malloc b E s = (if malloc_ok E (brk s)
     then (Inr (Some (brk s)), s\<lparr>mem := (mem s)(brk s := Some b), brk := Suc (brk s)\<rparr>)
     else (Inr None, s\<lparr>brk := Suc (brk s)\<rparr>))"
  by (simp add: malloc_def)

lemma run_free_block [luasem]:
  "free_block None E s = (Inr (), s)"
  "mem s a \<noteq> None \<Longrightarrow> free_block (Some a) E s = (Inr (), s\<lparr>mem := (mem s)(a := None)\<rparr>)"
  by (auto simp: free_block_def)

lemma run_get_lh [luasem]:
  "mem s a = Some (BHandle d) \<Longrightarrow> get_lh (Some a) E s = (Inr d, s)"
  "get_lh None E s = (Inl (Crash Null_deref), s)"
  by (simp_all add: get_lh_def)

lemma run_get_lr [luasem]:
  "mem s a = Some (BReq q) \<Longrightarrow> get_lr (Some a) E s = (Inr q, s)"
  "get_lr None E s = (Inl (Crash Null_deref), s)"
  by (simp_all add: get_lr_def)

lemma run_put_lh [luasem]:
  "put_lh (Some a) d E s = (Inr (), s\<lparr>mem := (mem s)(a := Some (BHandle d))\<rparr>)"
  by (simp add: put_lh_def luasem)

lemma run_put_lr [luasem]:
  "put_lr (Some a) q E s = (Inr (), s\<lparr>mem := (mem s)(a := Some (BReq q))\<rparr>)"
  by (simp add: put_lr_def luasem)

lemma run_get_h [luasem]: "hnds s u = Some h \<Longrightarrow> get_h u E s = (Inr h, s)"
  by (simp add: get_h_def)

lemma run_put_h [luasem]: "put_h u h E s = (Inr (), s\<lparr>hnds := (hnds s)(u := Some h)\<rparr>)"
  by (simp add: put_h_def luasem)

lemma run_get_r [luasem]: "rqs s u = Some r \<Longrightarrow> get_r u E s = (Inr r, s)"
  by (simp add: get_r_def)

lemma run_put_r [luasem]: "put_r u r E s = (Inr (), s\<lparr>rqs := (rqs s)(u := Some r)\<rparr>)"
  by (simp add: put_r_def luasem)

lemma run_luaL_error [luasem]: "luaL_error msg E s = (Inl (LuaErr (LStr (lwhere E @ msg))), s)"
  by (simp add: luaL_error_def luasem)

lemma run_luaL_argerror [luasem]:
  "luaL_argerror i msg E s = (Inl (LuaErr (LStr (arg_msg E i msg))), s)"
  by (simp add: luaL_argerror_def luasem)

lemma run_luaL_argcheck [luasem]:
  "luaL_argcheck b i msg E s =
     (if b then (Inr (), s) else (Inl (LuaErr (LStr (arg_msg E i msg))), s))"
  by (simp add: luaL_argcheck_def luasem)

lemma run_uv_outd [luasem]: "uv_outd k E s = (Inr (LFlt (uv_dbl E (uvlog s) k)), s)"
  by (simp add: uv_outd_def)

lemma run_out_str [luasem]:
  "out_str k E s = (Inr (case uv_text E (uvlog s) k of None \<Rightarrow> [] | Some t \<Rightarrow> t), s)"
  by (simp add: out_str_def luasem)

text \<open>Argument \<open>i\<close> of the running function, as the argument checks read it.\<close>

definition arg :: "lstate \<Rightarrow> nat \<Rightarrow> lval option" where
  "arg s i = (if 0 < i \<and> i \<le> length (stk s) then Some (stk s ! (i - 1)) else None)"

lemma run_index2addr_arg: "0 < i \<Longrightarrow> index2addr i E s = (Inr (arg s (nat i)), s)"
  by (simp add: luasem arg_def)

lemma run_lua_newtable [luasem]:
  "lua_newtable E s = (Inr (), s\<lparr>tabs := (tabs s)(ntab s := []), ntab := Suc (ntab s),
      stk := stk s @ [LTab (ntab s)]\<rparr>)"
  by (simp add: lua_newtable_def luasem)

text \<open>Storing a field of a table below the value on top, the shape of every result table.\<close>

lemma run_lua_setfield:
  assumes "stk s = base @ [LTab t, v]"
  shows "lua_setfield (-2) k E s =
    (Inr (), s\<lparr>stk := base @ [LTab t], tabs := (tabs s)(t := tset (tabs s t) (LStr k) v)\<rparr>)"
proof -
  have "index2addr (-2) E s = (Inr (Some (LTab t)), s)"
    by (rule run_index2addr_neg [of _ base _ "[v]"]) (use assms in simp_all)
  with assms show ?thesis
    by (simp add: lua_setfield_def index_tab_def luasem butlast_append)
qed

end
