(* ===== verification/Luv_Util.thy ===== *)
theory Luv_Util
  imports Lua_State
begin

text \<open>
  \<^verbatim>\<open>luv/luv_util.c\<close>: the error reports and the protected call every callback goes through.
  The report is built in the 1024-byte buffer \<^verbatim>\<open>g_ErrMsgBuff\<close> by unbounded \<^verbatim>\<open>sprintf\<close>
  calls; writing past its end is the fault \<open>Buffer_overflow\<close>.
\<close>

subsection \<open>The report buffer\<close>

abbreviation ERRBUF_SIZE :: nat where "ERRBUF_SIZE \<equiv> 1024"

definition errcat :: "string \<Rightarrow> unit M" where
  "errcat t = (\<lambda>E s. if ERRBUF_SIZE < length (errbuf s) + length t + 1
     then (Inl (Crash Buffer_overflow), s)
     else (Inr (), s\<lparr>errbuf := errbuf s @ t\<rparr>))"

definition errclear :: "unit M" where
  "errclear = modM (\<lambda>s. s\<lparr>errbuf := []\<rparr>)"

definition nl :: string where "nl = [CHR 0x0A]"
definition tab :: string where "tab = [CHR 0x09]"

definition c_text :: "string option \<Rightarrow> string" where
  "c_text t = (case t of None \<Rightarrow> ''(null)'' | Some t \<Rightarrow> cstr t)"

definition dump_header :: "frame \<Rightarrow> int \<Rightarrow> string" where
  "dump_header fr iLevel =
     (if take 1 (fr_what fr) = ''C'' then
        (case fr_name fr of
           Some n \<Rightarrow> fmt_4d iLevel @ ''[C] : in '' @ cstr n @ nl
         | None \<Rightarrow> fmt_4d iLevel @ ''[C] :'' @ nl)
      else
        (case fr_name fr of
           Some n \<Rightarrow> fmt_4d iLevel @ '' '' @ cstr (fr_short_src fr) @ '':'' @ fmt_d (fr_currentline fr)
             @ '' in '' @ cstr n @ nl
         | None \<Rightarrow> fmt_4d iLevel @ '' '' @ cstr (fr_short_src fr) @ '':'' @ fmt_d (fr_currentline fr)
             @ nl))"

text \<open>
  One variable, whose value is on top of the stack.  The \<^verbatim>\<open>continue\<close>s for \<^verbatim>\<open>_ENV\<close>,
  \<^verbatim>\<open>_G\<close> and nil skip the \<^verbatim>\<open>lua_pop\<close>, so the value stays on the stack.
\<close>

definition dump_var :: "string \<Rightarrow> unit M" where
  "dump_var sName =
     (if sName = ''_ENV'' \<or> sName = ''_G'' then retM ()
      else bindM (lua_type (-1)) (\<lambda>iType.
        if iType = TNIL then retM ()
        else thenM
          (if iType = TBOOLEAN then
             bindM (lua_toboolean (-1)) (\<lambda>b. errcat (tab @ cstr sName @ '' = <'' @ tag_name iType @ ''> ''
               @ (if b then ''true'' else ''false'') @ nl))
           else if iType \<in> {TLIGHTUSERDATA, TUSERDATA, TTHREAD, TFUNCTION, TTABLE} then
             bindM (index2addr (-1)) (\<lambda>v. bindM (askM (\<lambda>E. ptr2str E (case v of None \<Rightarrow> LNil | Some v \<Rightarrow> v)))
               (\<lambda>p. errcat (tab @ cstr sName @ '' = <'' @ tag_name iType @ ''> 0x'' @ p @ nl)))
           else
             bindM (lua_tostring (-1)) (\<lambda>t. errcat (tab @ cstr sName @ '' = <'' @ tag_name iType @ ''> ''
               @ c_text t @ nl)))
          (lua_pop 1)))"

fun dump_locals :: "(string \<times> lval) list \<Rightarrow> unit M" where
  "dump_locals [] = retM ()"
| "dump_locals ((sName, v) # rest) = thenM (push v) (thenM (dump_var sName) (dump_locals rest))"

text \<open>
  \<^verbatim>\<open>lua_getupvalue(L, -1, iIndex++)\<close> on whatever is on top of the stack.  A closure has at
  most 255 upvalues, so the loop ends; the argument counts the indices left.
\<close>

fun dump_upvals :: "nat \<Rightarrow> unit M" where
  "dump_upvals 0 = retM ()"
| "dump_upvals (Suc k) =
     bindM (index2addr (-1)) (\<lambda>v. bindM (askM (\<lambda>E. upvals E (case v of None \<Rightarrow> LNil | Some v \<Rightarrow> v)))
       (\<lambda>us. let iIndex = 255 - k in
          if iIndex \<le> length us
          then thenM (push (snd (us ! (iIndex - 1))))
            (thenM (dump_var (fst (us ! (iIndex - 1)))) (dump_upvals k))
          else retM ()))"

fun luv_stackdump_impl :: "frame list \<Rightarrow> int \<Rightarrow> unit M" where
  "luv_stackdump_impl [] iLevel = retM ()"
| "luv_stackdump_impl (fr # rest) iLevel =
     thenM (push (fr_func fr)) (thenM (lua_pop 1)
       (thenM (errcat (dump_header fr iLevel)) (thenM (dump_locals (fr_locals fr))
         (thenM (dump_upvals 255) (luv_stackdump_impl rest (iLevel + 1))))))"

definition LUV_STACKDUMP_STR :: string where
  "LUV_STACKDUMP_STR = nl @ ''===========[luv_stackdump]=============='' @ nl"

text \<open>The frames from level 1 up; level 0 is the running C function itself.\<close>

definition active_frames :: "frame list M" where
  "active_frames = (\<lambda>E s. (Inr (drop 1 (frames E s)), s))"

definition print_err :: "unit M" where
  "print_err = modM (\<lambda>s. s\<lparr>out := (errbuf s @ nl) # out s\<rparr>)"

definition luv_stackdump :: "nat M" where
  "luv_stackdump = thenM (seqM
     [errclear,
      errcat LUV_STACKDUMP_STR,
      bindM lua_gettop (\<lambda>iTop.
        whenM (0 < iTop) (bindM (lua_tostring (-1)) (\<lambda>t. errcat (c_text t @ nl)))),
      bindM active_frames (\<lambda>frs. luv_stackdump_impl frs 1),
      print_err,
      bindM (getM errbuf) (\<lambda>b. lua_pushstring (Some b))])
     (retM 1)"

subsection \<open>Error results and the status argument\<close>

definition luv_error :: "int \<Rightarrow> nat M" where
  "luv_error status =
     bindM (askM (\<lambda>E. uv_err_name E status)) (\<lambda>sErrName.
     bindM (askM (\<lambda>E. uv_strerror E status)) (\<lambda>sErrStr.
       thenM (seqM
         [lua_pushnil,
          lua_pushlstring (''[luv_error]'' @ cstr sErrName @ '': '' @ cstr sErrStr),
          lua_pushstring (Some sErrName),
          errclear,
          errcat LUV_STACKDUMP_STR,
          errcat (cstr sErrName @ '':'' @ cstr sErrStr @ nl),
          bindM active_frames (\<lambda>frs. luv_stackdump_impl frs 1),
          print_err])
       (retM 3)))"

definition luv_status :: "int \<Rightarrow> unit M" where
  "luv_status status =
     (if status < 0 then bindM (askM (\<lambda>E. uv_err_name E status)) (\<lambda>n. lua_pushstring (Some n))
      else lua_pushnil)"

text \<open>
  The end of most functions: \<^verbatim>\<open>if (ret < 0) return luv_error(L, ret);\<close> and then the result
  pushed as an integer or a boolean.
\<close>

definition ret_integer :: "int \<Rightarrow> nat M" where
  "ret_integer r = (if r < 0 then luv_error r else thenM (lua_pushinteger r) (retM 1))"

definition ret_boolean :: "int \<Rightarrow> nat M" where
  "ret_boolean r = (if r < 0 then luv_error r else thenM (lua_pushboolean (r \<noteq> 0)) (retM 1))"

subsection \<open>Protected calls\<close>

text \<open>The message handler runs on a stack of its own that holds the error object.\<close>

definition call_handler :: "lval \<Rightarrow> lval \<Rightarrow> lval M" where
  "call_handler h msg = (\<lambda>E s.
     if h = LCFun ''luv_stackdump'' then
       (case luv_stackdump E (s\<lparr>stk := [msg]\<rparr>) of
          (Inl e, s') \<Rightarrow> (Inl e, s'\<lparr>stk := stk s\<rparr>)
        | (Inr n, s') \<Rightarrow> (Inr (last (stk s')), s'\<lparr>stk := stk s\<rparr>))
     else (Inr msg, s))"

definition adjust_results :: "nat \<Rightarrow> lval list \<Rightarrow> lval list" where
  "adjust_results n rs = take n rs @ replicate (n - length rs) LNil"

text \<open>
  \<^verbatim>\<open>lua_pcall\<close>: the callee has a frame of its own, so it cannot reach the caller's stack.
  On success the function and its arguments are replaced by the results, on an error by
  the one error object.
\<close>

definition lua_pcall :: "nat \<Rightarrow> nat \<Rightarrow> int \<Rightarrow> int M" where
  "lua_pcall nargs nresults msgh =
     bindM (index2addr msgh) (\<lambda>h E s.
       let n = length (stk s) in
       if n < nargs + 1 then (Inl (Crash Bad_index), s)
       else let base = take (n - nargs - 1) (stk s);
                f = stk s ! (n - nargs - 1);
                args = drop (n - nargs) (stk s);
                s1 = s\<lparr>stk := [], calls := (f, args) # calls s\<rparr>
            in case (if lua_tag f = TFUNCTION then ucall E f args s1
                     else (Inl (LuaErr (LStr ''attempt to call a value'')), s1)) of
                 (Inr rs, s2) \<Rightarrow> (Inr 0, s2\<lparr>stk := base @ adjust_results nresults rs\<rparr>)
               | (Inl (Crash c), s2) \<Rightarrow> (Inl (Crash c), s2\<lparr>stk := base\<rparr>)
               | (Inl (LuaErr e), s2) \<Rightarrow>
                   (case call_handler (case h of None \<Rightarrow> LNil | Some v \<Rightarrow> v) e E s2 of
                      (Inl x, s3) \<Rightarrow> (Inl x, s3\<lparr>stk := base\<rparr>)
                    | (Inr v, s3) \<Rightarrow> (Inr 2, s3\<lparr>stk := base @ [v]\<rparr>)))"

text \<open>\<^verbatim>\<open>lua_call\<close>: the same without protection; an error leaves the calling function.\<close>

definition lua_call :: "nat \<Rightarrow> nat \<Rightarrow> unit M" where
  "lua_call nargs nresults = (\<lambda>E s.
       let n = length (stk s) in
       if n < nargs + 1 then (Inl (Crash Bad_index), s)
       else let base = take (n - nargs - 1) (stk s);
                f = stk s ! (n - nargs - 1);
                args = drop (n - nargs) (stk s);
                s1 = s\<lparr>stk := [], calls := (f, args) # calls s\<rparr>
            in case (if lua_tag f = TFUNCTION then ucall E f args s1
                     else (Inl (LuaErr (LStr ''attempt to call a value'')), s1)) of
                 (Inr rs, s2) \<Rightarrow> (Inr (), s2\<lparr>stk := base @ adjust_results nresults rs\<rparr>)
               | (Inl x, s2) \<Rightarrow> (Inl x, s2\<lparr>stk := base\<rparr>))"

definition luv_pcall :: "int \<Rightarrow> nat \<Rightarrow> unit M" where
  "luv_pcall ref nargs =
     (if ref = LUA_NOREF then lua_pop nargs
      else seqM
        [lua_pushcfunction ''luv_stackdump'',
         whenM (nargs \<noteq> 0) (lua_insert (- 1 - int nargs)),
         reg_rawgeti ref,
         whenM (nargs \<noteq> 0) (lua_insert (- 1 - int nargs)),
         bindM (lua_pcall nargs 0 (- 2 - int nargs)) (\<lambda>_. retM ()),
         lua_pop 1])"

subsection \<open>What a protected call does\<close>

lemma run_lua_pcall_ok:
  assumes "stk s = base @ h # f # args" "lua_tag f = TFUNCTION"
    and "ucall E f args (s\<lparr>stk := [], calls := (f, args) # calls s\<rparr>) = (Inr rs, s2)"
  shows "lua_pcall (length args) 0 (- 2 - int (length args)) E s =
    (Inr 0, s2\<lparr>stk := base @ [h]\<rparr>)"
proof -
  have "index2addr (- 2 - int (length args)) E s = (Inr (Some h), s)"
    by (rule run_index2addr_neg [of _ base _ "f # args"]) (use assms in simp_all)
  with assms show ?thesis
    by (simp add: lua_pcall_def run_bindM Let_def adjust_results_def nth_append)
qed

lemma run_lua_pcall_error:
  assumes "stk s = base @ LCFun ''luv_stackdump'' # f # args" "lua_tag f = TFUNCTION"
    and "ucall E f args (s\<lparr>stk := [], calls := (f, args) # calls s\<rparr>) = (Inl (LuaErr e), s2)"
    and "luv_stackdump E (s2\<lparr>stk := [e]\<rparr>) = (Inr n, s3)"
  shows "lua_pcall (length args) 0 (- 2 - int (length args)) E s =
    (Inr 2, s3\<lparr>stk := base @ [LCFun ''luv_stackdump'', last (stk s3)]\<rparr>)"
proof -
  have "index2addr (- 2 - int (length args)) E s = (Inr (Some (LCFun ''luv_stackdump'')), s)"
    by (rule run_index2addr_neg [of _ base _ "f # args"]) (use assms in simp_all)
  with assms show ?thesis
    by (simp add: lua_pcall_def run_bindM Let_def call_handler_def nth_append)
qed

text \<open>The stack \<^verbatim>\<open>luv_pcall\<close> has built when it reaches \<^verbatim>\<open>lua_pcall\<close>.\<close>

lemma run_luv_pcall_setup:
  assumes "stk s = base @ args" "ref \<noteq> LUA_NOREF"
  shows "luv_pcall ref (length args) E s =
    thenM (bindM (lua_pcall (length args) 0 (- 2 - int (length args))) (\<lambda>_. retM ()))
      (thenM (lua_pop 1) (retM ())) E
      (s\<lparr>stk := base @ LCFun ''luv_stackdump'' # reg_geti (reg s) ref # args\<rparr>)"
proof -
  have i1: "lua_insert (- 1 - int (length args)) E (s\<lparr>stk := base @ args @ [LCFun ''luv_stackdump'']\<rparr>)
      = (Inr (), s\<lparr>stk := base @ LCFun ''luv_stackdump'' # args\<rparr>)"
    by (subst run_lua_insert [of _ base args "LCFun ''luv_stackdump''"]) simp_all
  have i2: "lua_insert (- 1 - int (length args)) E
      (s\<lparr>stk := base @ LCFun ''luv_stackdump'' # args @ [reg_geti (reg s) ref]\<rparr>)
      = (Inr (), s\<lparr>stk := base @ LCFun ''luv_stackdump'' # reg_geti (reg s) ref # args\<rparr>)"
    by (subst run_lua_insert [of _ "base @ [LCFun ''luv_stackdump'']" args]) simp_all
  show ?thesis
    using assms by (cases "args = []") (simp_all add: luv_pcall_def luasem i1 i2)
qed

text \<open>A callback that returns gets exactly the pushed arguments and leaves the stack below them.\<close>

lemma run_luv_pcall_ok:
  assumes "stk s = base @ args" "ref \<noteq> LUA_NOREF" "reg_geti (reg s) ref = f"
    and "lua_tag f = TFUNCTION"
    and "ucall E f args (s\<lparr>stk := [], calls := (f, args) # calls s\<rparr>) = (Inr rs, s2)"
  shows "luv_pcall ref (length args) E s = (Inr (), s2\<lparr>stk := base\<rparr>)"
proof -
  let ?s = "s\<lparr>stk := base @ LCFun ''luv_stackdump'' # f # args\<rparr>"
  have "lua_pcall (length args) 0 (- 2 - int (length args)) E ?s =
      (Inr 0, s2\<lparr>stk := base @ [LCFun ''luv_stackdump'']\<rparr>)"
    by (rule run_lua_pcall_ok [where f = f and args = args and base = base])
      (use assms in simp_all)
  then show ?thesis
    using run_luv_pcall_setup [OF assms(1,2), of E] assms(3) by (simp add: luasem)
qed

lemma run_luv_pcall_error:
  assumes "stk s = base @ args" "ref \<noteq> LUA_NOREF" "reg_geti (reg s) ref = f"
    and "lua_tag f = TFUNCTION"
    and "ucall E f args (s\<lparr>stk := [], calls := (f, args) # calls s\<rparr>) = (Inl (LuaErr e), s2)"
    and "luv_stackdump E (s2\<lparr>stk := [e]\<rparr>) = (Inr n, s3)"
  shows "luv_pcall ref (length args) E s = (Inr (), s3\<lparr>stk := base @ [LCFun ''luv_stackdump'']\<rparr>)"
proof -
  let ?s = "s\<lparr>stk := base @ LCFun ''luv_stackdump'' # f # args\<rparr>"
  have "lua_pcall (length args) 0 (- 2 - int (length args)) E ?s =
      (Inr 2, s3\<lparr>stk := base @ [LCFun ''luv_stackdump'', last (stk s3)]\<rparr>)"
    by (rule run_lua_pcall_error [where f = f and args = args and base = base])
      (use assms in simp_all)
  then show ?thesis
    using run_luv_pcall_setup [OF assms(1,2), of E] assms(3) by (simp add: luasem)
qed

lemma run_luv_pcall_noref:
  assumes "stk s = base @ args"
  shows "luv_pcall LUA_NOREF (length args) E s = (Inr (), s\<lparr>stk := base\<rparr>)"
  using assms by (simp add: luv_pcall_def luasem)

end
