(* ===== verification/Luv_Lhandle.thy ===== *)
theory Luv_Lhandle
  imports Luv_Util
begin

text \<open>
  \<^verbatim>\<open>luv/luv_lhandle.c\<close>: the \<^verbatim>\<open>luv_handle_t\<close> behind every libuv handle.  It owns up to three
  registry references: the handle's own userdata, the CLOSED callback (slot 0) and the
  event callback (slot 1).
\<close>

text \<open>The rows of \<^verbatim>\<open>UV_HANDLE_TYPE_MAP\<close>: the lower-case names of the handle types.\<close>

fun handle_lc :: "uv_handle_type \<Rightarrow> string option" where
  "handle_lc UV_ASYNC = Some ''async''"
| "handle_lc UV_CHECK = Some ''check''"
| "handle_lc UV_FS_EVENT = Some ''fs_event''"
| "handle_lc UV_FS_POLL = Some ''fs_poll''"
| "handle_lc UV_HANDLE = Some ''handle''"
| "handle_lc UV_IDLE = Some ''idle''"
| "handle_lc UV_NAMED_PIPE = Some ''pipe''"
| "handle_lc UV_POLL = Some ''poll''"
| "handle_lc UV_PREPARE = Some ''prepare''"
| "handle_lc UV_PROCESS = Some ''process''"
| "handle_lc UV_STREAM = Some ''stream''"
| "handle_lc UV_TCP = Some ''tcp''"
| "handle_lc UV_TIMER = Some ''timer''"
| "handle_lc UV_TTY = Some ''tty''"
| "handle_lc UV_UDP = Some ''udp''"
| "handle_lc UV_SIGNAL = Some ''signal''"
| "handle_lc _ = None"

abbreviation (input) LUV_CLOSED :: nat where "LUV_CLOSED \<equiv> 0"
abbreviation (input) LUV_EVENT :: nat where "LUV_EVENT \<equiv> 1"

definition cb_get :: "nat \<Rightarrow> luv_handle \<Rightarrow> int" where
  "cb_get i d = (if i = 0 then lh_cb0 d else lh_cb1 d)"

definition cb_set :: "nat \<Rightarrow> int \<Rightarrow> luv_handle \<Rightarrow> luv_handle" where
  "cb_set i r d = (if i = 0 then d\<lparr>lh_cb0 := r\<rparr> else d\<lparr>lh_cb1 := r\<rparr>)"

text \<open>The handle inside the userdata a pointer names.\<close>

definition deref_handle :: "lval option \<Rightarrow> uv_handle M" where
  "deref_handle p = (case p of Some (LUData u) \<Rightarrow> get_h u | None \<Rightarrow> crash Null_deref
     | _ \<Rightarrow> crash Bad_type)"

definition luv_handle_setup :: "nat option M" where
  "luv_handle_setup =
     bindM (lua_touserdata (-1)) (\<lambda>handle.
     thenM (luaL_checktype (-1) TUSERDATA)
     (bindM (malloc BBuf) (\<lambda>data.
     thenM (if data = None then luaL_error ''Can't allocate luv handle'' else retM ())
     (bindM (deref_handle handle) (\<lambda>h.
     thenM (case handle_lc (h_type h) of
              Some lc \<Rightarrow> luaL_getmetatable (''uv_'' @ lc)
            | None \<Rightarrow> luaL_error ''Unknown handle type'')
     (thenM (lua_setmetatable (-2))
     (thenM (lua_pushvalue (-1))
     (bindM luaL_ref (\<lambda>ref.
     thenM (put_lh data \<lparr>lh_ref = ref, lh_cb0 = LUA_NOREF, lh_cb1 = LUA_NOREF\<rparr>)
     (retM data))))))))))"

definition luv_callback_check :: "nat option \<Rightarrow> nat \<Rightarrow> int \<Rightarrow> unit M" where
  "luv_callback_check data i index =
     thenM (luaL_checktype index TFUNCTION)
     (bindM (get_lh data) (\<lambda>d.
     thenM (luaL_unref (cb_get i d))
     (thenM (lua_pushvalue index)
     (bindM luaL_ref (\<lambda>r. put_lh data (cb_set i r d))))))"

text \<open>The unused \<^verbatim>\<open>traceback\<close>: calls \<^verbatim>\<open>debug.traceback\<close> on a string message.\<close>

definition traceback :: "nat M" where
  "traceback =
     bindM (lua_isstring 1) (\<lambda>b. if \<not> b then retM 1 else
     thenM (push (LTab 0)) (thenM (lua_getfield (-1) ''debug'') (thenM (lua_remove (-2))
     (bindM (lua_istable (-1)) (\<lambda>t. if \<not> t then thenM (lua_pop 1) (retM 1) else
     thenM (lua_getfield (-1) ''traceback'')
     (bindM (lua_isfunction (-1)) (\<lambda>f. if \<not> f then thenM (lua_pop 2) (retM 1) else
     thenM (lua_pushvalue 1) (thenM (lua_pushinteger 2) (thenM (lua_call 2 1) (retM 1))))))))))"

definition luv_callback_call :: "nat option \<Rightarrow> nat \<Rightarrow> nat \<Rightarrow> unit M" where
  "luv_callback_call data i nargs = bindM (get_lh data) (\<lambda>d. luv_pcall (cb_get i d) nargs)"

definition luv_handle_cleanup :: "nat option \<Rightarrow> unit M" where
  "luv_handle_cleanup data = bindM (get_lh data) (\<lambda>d. seqM
     [luaL_unref (lh_ref d), luaL_unref (lh_cb0 d), luaL_unref (lh_cb1 d), free_block data])"

definition luv_handle_find :: "nat option \<Rightarrow> unit M" where
  "luv_handle_find data = bindM (get_lh data) (\<lambda>d. reg_rawgeti (lh_ref d))"

subsection \<open>Running them\<close>

lemma cb_get_set [simp]: "cb_get i (cb_set i r d) = r"
  by (simp add: cb_get_def cb_set_def)

lemma run_luaL_checktype [luasem]:
  "0 < i \<Longrightarrow> luaL_checktype i t E s =
     (let t' = (case arg s (nat i) of None \<Rightarrow> TNONE | Some v \<Rightarrow> lua_tag v) in
      if t' = t then (Inr (), s)
      else (Inl (LuaErr (LStr (arg_msg E i (tag_name t @ '' expected, got '' @ tag_name t')))), s))"
  by (simp add: luaL_checktype_def typeerror_def lua_type_def run_bindM run_index2addr_arg
      run_retM run_luaL_argerror Let_def)

lemma run_lua_pushvalue_arg:
  "0 < i \<Longrightarrow> lua_pushvalue i E s =
     (Inr (), s\<lparr>stk := stk s @ [case arg s (nat i) of None \<Rightarrow> LNil | Some v \<Rightarrow> v]\<rparr>)"
  by (simp add: lua_pushvalue_def run_bindM run_index2addr_arg run_push)

text \<open>
  Registering a callback: the function argument is stored under a fresh reference, the
  reference it replaces is released, and the stack is as before.
\<close>

lemma run_luv_callback_check:
  assumes "mem s a = Some (BHandle d)" "arg s (nat i) = Some f" "lua_tag f = TFUNCTION"
  shows "luv_callback_check (Some a) k i E s =
    (let R = reg_unref (reg s) (cb_get k d) in
     (Inr (), s\<lparr>reg := snd (reg_ref R f),
        mem := (mem s)(a := Some (BHandle (cb_set k (fst (reg_ref R f)) d)))\<rparr>))"
proof -
  have i: "0 < i" using assms(2) by (auto simp: arg_def split: if_splits)
  have a: "arg (s\<lparr>reg := R\<rparr>) j = arg s j" for R j by (simp add: arg_def)
  show ?thesis
    using assms i
    by (simp add: luv_callback_check_def run_bindM run_thenM run_luaL_checktype run_get_lh
        run_luaL_unref run_lua_pushvalue_arg run_luaL_ref run_put_lh Let_def a)
qed

lemma run_luv_handle_cleanup:
  "mem s a = Some (BHandle d) \<Longrightarrow> luv_handle_cleanup (Some a) E s =
     (Inr (), s\<lparr>reg := reg_unref (reg_unref (reg_unref (reg s) (lh_ref d)) (lh_cb0 d)) (lh_cb1 d),
        mem := (mem s)(a := None)\<rparr>)"
  by (simp add: luv_handle_cleanup_def luasem)

lemma run_luv_callback_call:
  "mem s a = Some (BHandle d) \<Longrightarrow>
   luv_callback_call (Some a) k n E s = luv_pcall (cb_get k d) n E s"
  by (simp add: luv_callback_call_def luasem)

lemma luv_callback_check_null:
  "0 < i \<Longrightarrow> arg s (nat i) = Some f \<Longrightarrow> lua_tag f = TFUNCTION \<Longrightarrow>
   luv_callback_check None k i E s = (Inl (Crash Null_deref), s)"
  by (simp add: luv_callback_check_def run_bindM run_thenM run_luaL_checktype run_get_lh)

text \<open>A new handle: its userdata is on top of the stack and its type is known.\<close>

lemma run_luv_handle_setup:
  assumes "stk s = base @ [LUData u]" "hnds s u = Some h" "handle_lc (h_type h) = Some lc"
    and "malloc_ok E (brk s)" "regs s (''uv_'' @ lc) = LTab t"
  shows "luv_handle_setup E s =
    (Inr (Some (brk s)), s\<lparr>reg := snd (reg_ref (reg s) (LUData u)),
       mem := (mem s)(brk s := Some (BHandle \<lparr>lh_ref = fst (reg_ref (reg s) (LUData u)),
                  lh_cb0 = LUA_NOREF, lh_cb1 = LUA_NOREF\<rparr>)),
       brk := Suc (brk s), umeta := (umeta s)(u := Some t)\<rparr>)"
proof -
  have top: "index2addr (-1) E s' = (Inr (Some (LUData u)), s')"
    if "stk s' = base @ [LUData u]" for s' :: lstate
    by (rule run_index2addr_top) (rule that)
  have below: "index2addr (-2) E s' = (Inr (Some (LUData u)), s')"
    if "stk s' = base @ [LUData u, v]" for s' :: lstate and v
    by (rule run_index2addr_neg [of _ base _ "[v]"]) (use that in simp_all)
  show ?thesis
    using assms
    by (simp add: luv_handle_setup_def lua_touserdata_def luaL_checktype_def lua_type_def
        deref_handle_def lua_setmetatable_def lua_pushvalue_def run_bindM run_thenM run_retM
        top below luasem butlast_append)
qed

end
