(* ===== verification/Luv_Req.thy ===== *)
theory Luv_Req
  imports Luv_Lhandle
begin

text \<open>
  \<^verbatim>\<open>luv/luv_req.c\<close>: the \<^verbatim>\<open>luv_req_t\<close> behind every asynchronous request.  It owns the
  references of the request's userdata, of the continuation and of the data being
  written, and the buffer in \<^verbatim>\<open>data\<close>.
\<close>

text \<open>The rows of \<^verbatim>\<open>UV_REQ_TYPE_MAP\<close>.\<close>

fun req_lc :: "uv_req_type \<Rightarrow> string option" where
  "req_lc UV_REQ = Some ''req''"
| "req_lc UV_CONNECT = Some ''connect''"
| "req_lc UV_WRITE = Some ''write''"
| "req_lc UV_SHUTDOWN = Some ''shutdown''"
| "req_lc UV_UDP_SEND = Some ''udp_send''"
| "req_lc UV_FS = Some ''fs''"
| "req_lc UV_WORK = Some ''work''"
| "req_lc UV_GETADDRINFO = Some ''getaddrinfo''"
| "req_lc UV_GETNAMEINFO = Some ''getnameinfo''"
| "req_lc UV_UNKNOWN_REQ = None"

definition luv_req_check_continuation :: "int \<Rightarrow> int M" where
  "luv_req_check_continuation index =
     bindM (lua_isnoneornil index) (\<lambda>b. if b then retM LUA_NOREF
       else thenM (luaL_checktype index TFUNCTION) (thenM (lua_pushvalue index) luaL_ref))"

definition luv_req_setup :: "int \<Rightarrow> nat option M" where
  "luv_req_setup callback_ref =
     thenM (luaL_checktype (-1) TUSERDATA)
     (bindM (malloc BBuf) (\<lambda>data.
     thenM (if data = None then luaL_error ''Problem allocating luv request'' else retM ())
     (thenM (luaL_getmetatable ''uv_req'')
     (thenM (lua_setmetatable (-2))
     (thenM (lua_pushvalue (-1))
     (bindM luaL_ref (\<lambda>ref.
     thenM (put_lr data \<lparr>lr_req_ref = ref, lr_cb_ref = callback_ref, lr_data_ref = LUA_NOREF,
        lr_data = None\<rparr>)
     (retM data))))))))"

definition luv_req_fulfill :: "nat option \<Rightarrow> nat \<Rightarrow> unit M" where
  "luv_req_fulfill data nargs =
     bindM (get_lr data) (\<lambda>d.
       if lr_cb_ref d = LUA_NOREF then lua_pop nargs
       else seqM
         [lua_pushcfunction ''luv_stackdump'',
          whenM (nargs \<noteq> 0) (lua_insert (- 1 - int nargs)),
          reg_rawgeti (lr_cb_ref d),
          whenM (nargs \<noteq> 0) (lua_insert (- 1 - int nargs)),
          bindM (lua_pcall nargs 0 (- 2 - int nargs)) (\<lambda>_. retM ()),
          lua_pop 1])"

definition luv_req_cleanup :: "nat option \<Rightarrow> unit M" where
  "luv_req_cleanup data = bindM (get_lr data) (\<lambda>d. seqM
     [luaL_unref (lr_req_ref d), luaL_unref (lr_cb_ref d), luaL_unref (lr_data_ref d),
      free_block (lr_data d), free_block data])"

definition luv_req_check :: "int \<Rightarrow> nat M" where
  "luv_req_check index =
     bindM (luaL_checkudata index ''uv_req'') (\<lambda>u. bindM (get_r u) (\<lambda>r.
       thenM (luaL_argcheck (r_data r \<noteq> None) index ''Expected uv_req_t'') (retM u)))"

definition luv_req_tostring :: "nat M" where
  "luv_req_tostring =
     bindM (luaL_checkudata 1 ''uv_req'') (\<lambda>u. bindM (get_r u) (\<lambda>r.
     bindM (askM (\<lambda>E. ptr2str E (LUData u))) (\<lambda>p.
       thenM (push (LStr (case req_lc (r_type r) of
            Some lc \<Rightarrow> ''uv_'' @ lc @ ''_t: '' @ p | None \<Rightarrow> ''uv_req_t: '' @ p)))
       (retM 1))))"

definition luv_req_init :: "unit M" where
  "luv_req_init = seqM
     [luaL_newmetatable ''uv_req'',
      lua_pushcfunction ''luv_req_tostring'',
      lua_setfield (-2) ''__tostring'',
      lua_pop 1]"

text \<open>\<^verbatim>\<open>req->data = NULL;\<close>\<close>

definition r_data_null :: "nat \<Rightarrow> unit M" where
  "r_data_null u = bindM (get_r u) (\<lambda>r. put_r u (r\<lparr>r_data := None\<rparr>))"

definition luv_req_cancel :: "nat M" where
  "luv_req_cancel =
     bindM (luv_req_check 1) (\<lambda>req.
     bindM (uv ''uv_cancel'' [AObj req]) (\<lambda>ret.
       if ret < 0 then luv_error ret
       else bindM (get_r req) (\<lambda>r.
         thenM (luv_req_cleanup (r_data r))
         (thenM (r_data_null req)
         (thenM (lua_pushinteger ret) (retM 1))))))"

text \<open>
  The shape shared by every request: a fresh userdata whose \<^verbatim>\<open>data\<close> is a new \<^verbatim>\<open>luv_req_t\<close>
  (\<^verbatim>\<open>req = lua_newuserdata(...); req->data = luv_req_setup(L, ref)\<close>).  The other fields of
  the new memory are unset; the libuv call that follows sets them.
\<close>

definition fresh_req :: uv_req where
  "fresh_req = \<lparr>r_type = UV_UNKNOWN_REQ, r_data = None, r_fs_type = UV_FS_UNKNOWN, r_result = 0,
     r_path = None, r_ptr = None\<rparr>"

definition new_req :: "int \<Rightarrow> nat M" where
  "new_req ref =
     bindM lua_newuserdata (\<lambda>u.
     bindM (luv_req_setup ref) (\<lambda>data.
     thenM (put_r u (fresh_req\<lparr>r_data := data\<rparr>)) (retM u)))"

text \<open>What \<^verbatim>\<open>UV_REQ_INIT\<close> of the libuv call does to the request.\<close>

definition set_req_type :: "nat \<Rightarrow> uv_req_type \<Rightarrow> unit M" where
  "set_req_type u t = bindM (get_r u) (\<lambda>r. put_r u (r\<lparr>r_type := t\<rparr>))"

text \<open>A libuv call that starts a request; it sets the type when it accepts the request.\<close>

definition uv_req_call :: "nat \<Rightarrow> uv_req_type \<Rightarrow> string \<Rightarrow> uvarg list \<Rightarrow> int M" where
  "uv_req_call req ty f args = bindM (uv f args) (\<lambda>ret.
     thenM (if 0 \<le> ret then set_req_type req ty else retM ()) (retM ret))"

text \<open>
  \<^verbatim>\<open>lua_pushvalue(L, index); ((luv_req_t*)req->data)->data_ref = luaL_ref(L, LUA_REGISTRYINDEX);\<close>
  keeps the data alive while the request runs.
\<close>

definition set_data_ref :: "nat \<Rightarrow> int \<Rightarrow> unit M" where
  "set_data_ref req index =
     thenM (lua_pushvalue index)
     (bindM luaL_ref (\<lambda>ref.
     bindM (get_r req) (\<lambda>r.
     bindM (get_lr (r_data r)) (\<lambda>d. put_lr (r_data r) (d\<lparr>lr_data_ref := ref\<rparr>)))))"

text \<open>
  The completion callbacks that report only a status (connect, write, shutdown, UDP send)
  are the same function: fulfil the request with the status, then release it.
\<close>

definition status_cb :: "nat \<Rightarrow> int \<Rightarrow> unit M" where
  "status_cb req status =
     thenM (luv_status status)
     (bindM (get_r req) (\<lambda>r.
     thenM (luv_req_fulfill (r_data r) 1)
     (thenM (luv_req_cleanup (r_data r))
     (r_data_null req))))"

subsection \<open>Running them\<close>

lemma run_lua_isnoneornil:
  "0 < i \<Longrightarrow> lua_isnoneornil i E s =
     (Inr (arg s (nat i) = None \<or> arg s (nat i) = Some LNil), s)"
  by (simp add: lua_isnoneornil_def lua_type_def run_bindM run_index2addr_arg run_retM tag_le_nil
      split: option.splits)

lemma run_check_continuation:
  assumes "0 < i"
  shows "luv_req_check_continuation i E s =
    (case arg s (nat i) of None \<Rightarrow> (Inr LUA_NOREF, s)
     | Some v \<Rightarrow> if v = LNil then (Inr LUA_NOREF, s)
         else if lua_tag v = TFUNCTION
         then (Inr (fst (reg_ref (reg s) v)), s\<lparr>reg := snd (reg_ref (reg s) v)\<rparr>)
         else (Inl (LuaErr (LStr (arg_msg E i (''function expected, got '' @ tag_name (lua_tag v))))), s))"
  using assms
  by (auto simp: luv_req_check_continuation_def run_bindM run_thenM run_lua_isnoneornil run_retM
      run_luaL_checktype Let_def run_lua_pushvalue_arg run_luaL_ref split: option.splits)

lemma run_luv_req_cleanup:
  "mem s a = Some (BReq q) \<Longrightarrow> lr_data q = None \<Longrightarrow> luv_req_cleanup (Some a) E s =
     (Inr (), s\<lparr>reg := reg_unref (reg_unref (reg_unref (reg s) (lr_req_ref q)) (lr_cb_ref q))
           (lr_data_ref q),
        mem := (mem s)(a := None)\<rparr>)"
  by (simp add: luv_req_cleanup_def luasem)

lemma run_luv_req_fulfill:
  "mem s a = Some (BReq q) \<Longrightarrow>
   luv_req_fulfill (Some a) n E s = luv_pcall (lr_cb_ref q) n E s"
  by (simp add: luv_req_fulfill_def luv_pcall_def luasem)

lemma run_luv_status [luasem]:
  "luv_status st E s = (Inr (), s\<lparr>stk := stk s @
     [if st < 0 then LStr (cstr (uv_err_name E st)) else LNil]\<rparr>)"
  by (simp add: luv_status_def luasem)

lemma run_new_req:
  assumes "malloc_ok E (brk s)" "regs s ''uv_req'' = LTab t"
  shows "new_req ref E s =
    (Inr (nud s), s\<lparr>nud := Suc (nud s), stk := stk s @ [LUData (nud s)],
       umeta := (umeta s)(nud s := Some t), hnds := (hnds s)(nud s := None),
       rqs := (rqs s)(nud s := Some (fresh_req\<lparr>r_data := Some (brk s)\<rparr>)),
       reg := snd (reg_ref (reg s) (LUData (nud s))),
       mem := (mem s)(brk s := Some (BReq \<lparr>lr_req_ref = fst (reg_ref (reg s) (LUData (nud s))),
          lr_cb_ref = ref, lr_data_ref = LUA_NOREF, lr_data = None\<rparr>)),
       brk := Suc (brk s)\<rparr>)"
proof -
  have top: "index2addr (-1) E s' = (Inr (Some v), s')"
    if "stk s' = base @ [v]" for s' :: lstate and v base
    by (rule run_index2addr_top) (rule that)
  have below: "index2addr (-2) E s' = (Inr (Some u), s')"
    if "stk s' = base @ [u, v]" for s' :: lstate and v u base
    by (rule run_index2addr_neg [of _ base _ "[v]"]) (use that in simp_all)
  show ?thesis
    using assms
    by (simp add: new_req_def luv_req_setup_def luaL_checktype_def lua_type_def
        lua_setmetatable_def lua_pushvalue_def run_bindM run_thenM run_retM
        top below luasem butlast_append)
qed

end
