(* ===== verification/Luv_Handle.thy ===== *)
theory Luv_Handle
  imports Luv_Req
begin

text \<open>
  \<^verbatim>\<open>luv/luv_handle.c\<close>: the operations every handle has, and the close protocol.  A handle
  userdata is recognised by its metatable, looked up in the registry table \<^verbatim>\<open>uv_handle\<close>.
\<close>

text \<open>
  The test \<^verbatim>\<open>lua_handle_check\<close> and \<^verbatim>\<open>luv_stream_check\<close> share: is the metatable of the value at
  \<^verbatim>\<open>index\<close> a key of the registry table \<open>name\<close>?
\<close>

definition meta_in_set :: "int \<Rightarrow> string \<Rightarrow> bool M" where
  "meta_in_set index name =
     thenM (reg_getfield name)
     (bindM (lua_getmetatable (if index < 0 then index - 1 else index)) (\<lambda>_.
     thenM (lua_rawget (-2))
     (bindM (lua_toboolean (-1)) (\<lambda>b. thenM (lua_pop 2) (retM b)))))"

text \<open>A pointer used as a libuv handle: only a full userdata holds one.\<close>

definition as_handle :: "lval \<Rightarrow> nat M" where
  "as_handle p = (case p of LUData u \<Rightarrow> retM u | _ \<Rightarrow> crash Bad_type)"

definition lua_handle_check :: "int \<Rightarrow> nat M" where
  "lua_handle_check index =
     bindM (lua_touserdata index) (\<lambda>p. case p of
       None \<Rightarrow> luaL_argerror index ''Expected uv_handle userdata''
     | Some handle \<Rightarrow> bindM (meta_in_set index ''uv_handle'') (\<lambda>isHandle.
         if isHandle then as_handle handle
         else luaL_argerror index ''Expected uv_handle userdata''))"

definition luv_handle_tostring :: "nat M" where
  "luv_handle_tostring =
     bindM (lua_handle_check 1) (\<lambda>u. bindM (get_h u) (\<lambda>h.
     bindM (askM (\<lambda>E. ptr2str E (LUData u))) (\<lambda>p.
       thenM (push (LStr (case handle_lc (h_type h) of
            Some lc \<Rightarrow> ''uv_'' @ lc @ ''_t: '' @ p | None \<Rightarrow> ''uv_handle_t: '' @ p)))
       (retM 1))))"

definition luv_handle_is_active :: "nat M" where
  "luv_handle_is_active =
     bindM (lua_handle_check 1) (\<lambda>u. bindM (uv ''uv_is_active'' [AObj u]) ret_boolean)"

text \<open>\<^verbatim>\<open>uv_is_closing\<close> reads the closing flags \<^verbatim>\<open>uv_close\<close> sets; a second \<^verbatim>\<open>uv_close\<close> fails its assertion.\<close>

definition uv_is_closing :: "nat \<Rightarrow> int M" where
  "uv_is_closing u = bindM (get_h u) (\<lambda>h. retM (if h_closing h then 1 else 0))"

definition uv_close :: "nat \<Rightarrow> string \<Rightarrow> unit M" where
  "uv_close u cb = bindM (get_h u) (\<lambda>h.
     if h_closing h then crash Assert_failed
     else thenM (uv_void ''uv_close'' [AObj u, AFn cb]) (put_h u (h\<lparr>h_closing := True\<rparr>)))"

definition luv_handle_is_closing :: "nat M" where
  "luv_handle_is_closing = bindM (lua_handle_check 1) (\<lambda>u. bindM (uv_is_closing u) ret_boolean)"

text \<open>\<^verbatim>\<open>handle->data = NULL;\<close>\<close>

definition h_data_null :: "nat \<Rightarrow> unit M" where
  "h_data_null u = bindM (get_h u) (\<lambda>h. put_h u (h\<lparr>h_data := None\<rparr>))"

definition luv_handle_close_cb :: "nat \<Rightarrow> unit M" where
  "luv_handle_close_cb u =
     bindM (get_h u) (\<lambda>h. if h_data h = None then retM ()
       else thenM (luv_callback_call (h_data h) LUV_CLOSED 0)
            (thenM (luv_handle_cleanup (h_data h))
            (h_data_null u)))"

definition luv_handle_close :: "nat M" where
  "luv_handle_close =
     bindM (lua_handle_check 1) (\<lambda>u.
     bindM (uv_is_closing u) (\<lambda>c.
     bindM (askM (\<lambda>E. ptr2str E (LUData u))) (\<lambda>p.
     thenM (if c \<noteq> 0 then luaL_error (''handle '' @ p @ '' is already closing'') else retM ())
     (bindM (lua_isnoneornil 2) (\<lambda>nocb.
     thenM (if nocb then retM () else bindM (get_h u) (\<lambda>h. luv_callback_check (h_data h) LUV_CLOSED 2))
     (thenM (uv_close u ''luv_handle_close_cb'') (retM 0)))))))"

definition luv_handle_ref :: "nat M" where
  "luv_handle_ref = bindM (lua_handle_check 1) (\<lambda>u. thenM (uv_void ''uv_ref'' [AObj u]) (retM 0))"

definition luv_handle_unref :: "nat M" where
  "luv_handle_unref = bindM (lua_handle_check 1) (\<lambda>u. thenM (uv_void ''uv_unref'' [AObj u]) (retM 0))"

definition luv_handle_has_ref :: "nat M" where
  "luv_handle_has_ref =
     bindM (lua_handle_check 1) (\<lambda>u. bindM (uv ''uv_has_ref'' [AObj u]) ret_boolean)"

text \<open>\<^verbatim>\<open>luaL_checkinteger\<close> stored in a C \<^verbatim>\<open>int\<close>.\<close>

definition check_c_int :: "int \<Rightarrow> int M" where
  "check_c_int i = bindM (luaL_checkinteger i) (\<lambda>n. retM (c_int n))"

text \<open>The second argument of the buffer-size functions: 0 when absent.\<close>

definition buffer_size_arg :: "int M" where
  "buffer_size_arg = bindM (lua_isnoneornil 2) (\<lambda>b. if b then retM 0 else check_c_int 2)"

definition luv_handle_send_buffer_size :: "nat M" where
  "luv_handle_send_buffer_size =
     bindM (lua_handle_check 1) (\<lambda>u. bindM buffer_size_arg (\<lambda>value.
     bindM (uv ''uv_send_buffer_size'' [AObj u, AInt value]) ret_integer))"

definition luv_handle_recv_buffer_size :: "nat M" where
  "luv_handle_recv_buffer_size =
     bindM (lua_handle_check 1) (\<lambda>u. bindM buffer_size_arg (\<lambda>value.
     bindM (uv ''uv_recv_buffer_size'' [AObj u, AInt value]) ret_integer))"

definition luv_handle_fileno :: "nat M" where
  "luv_handle_fileno =
     bindM (lua_handle_check 1) (\<lambda>u.
     bindM (uv ''uv_fileno'' [AObj u]) (\<lambda>r.
     bindM (uv_out 0) (\<lambda>fd.
       if r < 0 then luv_error r else thenM (lua_pushinteger fd) (retM 1))))"

subsection \<open>Handles of one type\<close>

text \<open>
  The creation of every handle: new userdata, \<^verbatim>\<open>uv_<type>_init\<close>, and then either the error
  triple (the userdata popped, no \<^verbatim>\<open>luv_handle_t\<close> made) or the set-up handle.  On success the
  libuv call has set the type and cleared the flags.
\<close>

definition init_handle :: "uv_handle_type \<Rightarrow> (nat \<Rightarrow> int M) \<Rightarrow> (nat + nat \<times> nat option) M" where
  "init_handle ty ini =
     bindM lua_newuserdata (\<lambda>u.
     bindM (ini u) (\<lambda>r.
       if r < 0 then thenM (lua_pop 1) (bindM (luv_error r) (\<lambda>n. retM (Inl n)))
       else thenM (put_h u \<lparr>h_type = ty, h_data = None, h_closing = False\<rparr>)
            (bindM luv_handle_setup (\<lambda>data.
             thenM (put_h u \<lparr>h_type = ty, h_data = data, h_closing = False\<rparr>)
             (retM (Inr (u, data)))))))"

text \<open>\<open>Inl n\<close>: the error path has returned \<open>n\<close> results; \<open>Inr\<close>: the code after the set-up goes on.\<close>

definition new_handle_then ::
  "uv_handle_type \<Rightarrow> (nat \<Rightarrow> int M) \<Rightarrow> (nat \<Rightarrow> nat option \<Rightarrow> nat M) \<Rightarrow> nat M" where
  "new_handle_then ty ini k = bindM (init_handle ty ini) (\<lambda>r. case r of
      Inl n \<Rightarrow> retM n | Inr (u, data) \<Rightarrow> k u data)"

abbreviation new_handle :: "uv_handle_type \<Rightarrow> (nat \<Rightarrow> int M) \<Rightarrow> nat M" where
  "new_handle ty ini \<equiv> new_handle_then ty ini (\<lambda>u data. retM 1)"

text \<open>
  The argument check of every handle type: the metatable by \<^verbatim>\<open>luaL_checkudata\<close>, then the
  type field and a non-NULL \<^verbatim>\<open>data\<close>, which a closed handle no longer has.
\<close>

definition check_handle :: "string \<Rightarrow> uv_handle_type \<Rightarrow> string \<Rightarrow> int \<Rightarrow> nat M" where
  "check_handle tname ty msg index =
     bindM (luaL_checkudata index tname) (\<lambda>u. bindM (get_h u) (\<lambda>h.
       thenM (luaL_argcheck (h_type h = ty \<and> h_data h \<noteq> None) index msg) (retM u)))"

text \<open>\<^verbatim>\<open>handle->data\<close>.\<close>

definition handle_data :: "nat \<Rightarrow> nat option M" where
  "handle_data u = bindM (get_h u) (\<lambda>h. retM (h_data h))"

subsection \<open>Running them\<close>

text \<open>\<open>is_meta s name u\<close>: the userdata \<open>u\<close> has a metatable the registry set \<open>name\<close> holds.\<close>

definition is_meta :: "lstate \<Rightarrow> string \<Rightarrow> nat \<Rightarrow> bool" where
  "is_meta s name u = (case (umeta s u, regs s name) of
      (Some m, LTab t) \<Rightarrow> lval_truth (tget (tabs s t) (LTab m)) | _ \<Rightarrow> False)"

lemma run_meta_in_set:
  assumes "0 < i" "arg s (nat i) = Some (LUData u)" "umeta s u = Some m" "regs s name = LTab t"
  shows "meta_in_set i name E s = (Inr (is_meta s name u), s)"
proof -
  let ?v = "tget (tabs s t) (LTab m)"
  have a: "stk s ! (nat i - 1) = LUData u" "nat i \<le> length (stk s)"
    using assms by (auto simp: arg_def split: if_splits)
  have g: "lua_getmetatable i E (s\<lparr>stk := stk s @ [LTab t]\<rparr>) =
      (Inr True, s\<lparr>stk := stk s @ [LTab t, LTab m]\<rparr>)"
    using assms(1,3) a
    by (simp add: lua_getmetatable_def run_bindM run_index2addr_pos run_getM run_thenM
        run_push run_retM nth_append)
  have r: "lua_rawget (-2) E (s\<lparr>stk := stk s @ [LTab t, LTab m]\<rparr>) =
      (Inr (), s\<lparr>stk := stk s @ [LTab t, ?v]\<rparr>)"
    by (simp add: lua_rawget_def tab_at_def luasem butlast_append
        run_index2addr_neg [of _ "stk s" "LTab t" "[LTab m]"])
  have b: "lua_toboolean (-1) E (s\<lparr>stk := stk s @ [LTab t, ?v]\<rparr>) =
      (Inr (lval_truth ?v), s\<lparr>stk := stk s @ [LTab t, ?v]\<rparr>)"
    by (simp add: lua_toboolean_def run_bindM run_retM
        run_index2addr_neg [of _ "stk s @ [LTab t]" ?v "[]"])
  show ?thesis
    using assms
    by (simp add: meta_in_set_def run_bindM run_thenM run_reg_getfield g r b run_lua_pop run_retM
        is_meta_def)
qed

lemma run_lua_handle_check:
  assumes "0 < i" "arg s (nat i) = Some (LUData u)" "umeta s u = Some m" "regs s ''uv_handle'' = LTab t"
    and "is_meta s ''uv_handle'' u"
  shows "lua_handle_check i E s = (Inr u, s)"
  using assms
  by (simp add: lua_handle_check_def lua_touserdata_def run_bindM run_index2addr_arg run_retM
      run_meta_in_set [OF assms(1-4)] as_handle_def)

lemma run_luaL_checkudata:
  assumes "0 < i" "arg s (nat i) = Some (LUData u)" "umeta s u = Some m" "regs s tname = LTab m"
  shows "luaL_checkudata i tname E s = (Inr u, s)"
  using assms
  by (simp add: luaL_checkudata_def run_bindM run_index2addr_arg run_getM run_retM)

lemma run_check_handle:
  assumes "0 < i" "arg s (nat i) = Some (LUData u)" "umeta s u = Some m" "regs s tname = LTab m"
    and "hnds s u = Some h" "h_type h = ty"
  shows "check_handle tname ty msg i E s =
    (if h_data h = None then (Inl (LuaErr (LStr (arg_msg E i msg))), s) else (Inr u, s))"
  using assms
  by (simp add: check_handle_def run_bindM run_thenM run_luaL_checkudata [OF assms(1-4)]
      run_get_h run_luaL_argcheck run_retM)

lemma run_handle_data: "hnds s u = Some h \<Longrightarrow> handle_data u E s = (Inr (h_data h), s)"
  by (simp add: handle_data_def luasem)

text \<open>
  The close callback of a handle with a CLOSED function: it calls that function once with
  no arguments, then releases all references and clears \<^verbatim>\<open>data\<close>.
\<close>

lemma run_luv_handle_close_cb_nocb:
  assumes "hnds s u = Some h" "h_data h = Some a" "mem s a = Some (BHandle d)"
    and "lh_cb0 d = LUA_NOREF"
  shows "luv_handle_close_cb u E s =
    (Inr (), s\<lparr>reg := reg_unref (reg_unref (reg s) (lh_ref d)) (lh_cb1 d),
       mem := (mem s)(a := None), hnds := (hnds s)(u := Some (h\<lparr>h_data := None\<rparr>))\<rparr>)"
  using assms run_luv_pcall_noref [of s "stk s" "[]" E]
  by (simp add: luv_handle_close_cb_def h_data_null_def luasem run_luv_callback_call run_luv_handle_cleanup
      cb_get_def)

lemma run_luv_handle_close_cb:
  assumes "hnds s u = Some h" "h_data h = Some a" "mem s a = Some (BHandle d)"
    and "lh_cb0 d \<noteq> LUA_NOREF" "reg_geti (reg s) (lh_cb0 d) = f" "lua_tag f = TFUNCTION"
    and "ucall E f [] (s\<lparr>stk := [], calls := (f, []) # calls s\<rparr>) = (Inr rs, s2)"
    and "mem s2 a = Some (BHandle d2)" "hnds s2 u = Some h2"
  shows "luv_handle_close_cb u E s =
    (Inr (), s2\<lparr>stk := stk s,
       reg := reg_unref (reg_unref (reg_unref (reg s2) (lh_ref d2)) (lh_cb0 d2)) (lh_cb1 d2),
       mem := (mem s2)(a := None), hnds := (hnds s2)(u := Some (h2\<lparr>h_data := None\<rparr>))\<rparr>)"
proof -
  have "luv_pcall (lh_cb0 d) 0 E s = (Inr (), s2\<lparr>stk := stk s\<rparr>)"
    using run_luv_pcall_ok [of s "stk s" "[]" "lh_cb0 d" f E rs s2] assms by simp
  with assms show ?thesis
    by (simp add: luv_handle_close_cb_def h_data_null_def luasem run_luv_callback_call run_luv_handle_cleanup
        cb_get_def)
qed

text \<open>A new handle, from creation to the set-up \<^verbatim>\<open>luv_handle_t\<close>.\<close>

lemma run_new_handle_ok:
  assumes ini: "\<And>s. uvlog s = uvlog s0 \<Longrightarrow> ini (nud s0) E s = (Inr r, s\<lparr>uvlog := c # uvlog s\<rparr>)" and r: "0 \<le> r"
    and lc: "handle_lc ty = Some lc" and t: "regs s0 (''uv_'' @ lc) = LTab t"
    and m: "malloc_ok E (brk s0)"
  shows "new_handle ty ini E s0 =
    (Inr 1, s0\<lparr>nud := Suc (nud s0), stk := stk s0 @ [LUData (nud s0)],
       umeta := (umeta s0)(nud s0 := Some t), rqs := (rqs s0)(nud s0 := None),
       hnds := (hnds s0)(nud s0 := Some \<lparr>h_type = ty, h_data = Some (brk s0), h_closing = False\<rparr>),
       reg := snd (reg_ref (reg s0) (LUData (nud s0))),
       mem := (mem s0)(brk s0 := Some (BHandle
          \<lparr>lh_ref = fst (reg_ref (reg s0) (LUData (nud s0))), lh_cb0 = LUA_NOREF, lh_cb1 = LUA_NOREF\<rparr>)),
       brk := Suc (brk s0), uvlog := c # uvlog s0\<rparr>)"
  using assms
  by (simp add: new_handle_then_def init_handle_def luasem
      run_luv_handle_setup [where base = "stk s0" and u = "nud s0"
        and h = "\<lparr>h_type = ty, h_data = None, h_closing = False\<rparr>" and lc = lc and t = t])

end
