(* ===== verification/Luv_Wf.thy ===== *)
theory Luv_Wf
  imports Luv_Handle
begin

text \<open>
  The well-formedness of the luv state, the invariant every exported function and every
  libuv callback keeps: the registry's free list is intact, each \<^verbatim>\<open>luv_handle_t\<close> and
  \<^verbatim>\<open>luv_req_t\<close> owns its references exclusively, a callback reference names a function, and
  the userdata of a live handle or request is anchored in the registry, so the collector
  cannot free memory libuv still uses.
\<close>

subsection \<open>The invariant\<close>

definition block_refs :: "block \<Rightarrow> int list" where
  "block_refs b = (case b of
      BHandle d \<Rightarrow> [lh_ref d, lh_cb0 d, lh_cb1 d]
    | BReq q \<Rightarrow> [lr_req_ref q, lr_cb_ref q, lr_data_ref q]
    | BBuf \<Rightarrow> [])"

definition pos_refs :: "block \<Rightarrow> int list" where
  "pos_refs b = filter (\<lambda>r. 0 \<le> r) (block_refs b)"

definition fun_ref :: "registry \<Rightarrow> int \<Rightarrow> bool" where
  "fun_ref R r \<longleftrightarrow> r = LUA_NOREF \<or> (0 \<le> r \<and> lua_tag (reg_geti R r) = TFUNCTION)"

definition cb_ok :: "registry \<Rightarrow> block \<Rightarrow> bool" where
  "cb_ok R b = (case b of
      BHandle d \<Rightarrow> fun_ref R (lh_cb0 d) \<and> fun_ref R (lh_cb1 d)
    | BReq q \<Rightarrow> fun_ref R (lr_cb_ref q)
    | BBuf \<Rightarrow> True)"

definition block_ok :: "registry \<Rightarrow> block \<Rightarrow> bool" where
  "block_ok R b \<longleftrightarrow> distinct (pos_refs b) \<and> set (pos_refs b) \<subseteq> reg_live R \<and> cb_ok R b"

definition owned :: "(nat \<Rightarrow> block option) \<Rightarrow> int set" where
  "owned m = {r. \<exists>a b. m a = Some b \<and> r \<in> set (pos_refs b)}"

definition heap_ok :: "registry \<Rightarrow> (nat \<Rightarrow> block option) \<Rightarrow> bool" where
  "heap_ok R m \<longleftrightarrow> (\<forall>a b. m a = Some b \<longrightarrow> block_ok R b) \<and>
     (\<forall>a a' b b'. m a = Some b \<longrightarrow> m a' = Some b' \<longrightarrow> a \<noteq> a' \<longrightarrow> set (pos_refs b) \<inter> set (pos_refs b') = {})"

text \<open>A userdata's data pointer: never a block of the wrong kind, and anchored while live.\<close>

definition h_ptr_ok :: "lstate \<Rightarrow> nat \<Rightarrow> nat \<Rightarrow> bool" where
  "h_ptr_ok s u a \<longleftrightarrow> a < brk s \<and> (\<forall>b. mem s a = Some b \<longrightarrow>
     (\<exists>d. b = BHandle d \<and> 0 < lh_ref d \<and> reg_geti (reg s) (lh_ref d) = LUData u))"

definition r_ptr_ok :: "lstate \<Rightarrow> nat \<Rightarrow> nat \<Rightarrow> bool" where
  "r_ptr_ok s u a \<longleftrightarrow> a < brk s \<and> (\<forall>b. mem s a = Some b \<longrightarrow>
     (\<exists>q. b = BReq q \<and> 0 < lr_req_ref q \<and> reg_geti (reg s) (lr_req_ref q) = LUData u))"

definition wf :: "lstate \<Rightarrow> bool" where
  "wf s \<longleftrightarrow> reg_ok (reg s) \<and> heap_ok (reg s) (mem s)
     \<and> (\<forall>a \<ge> brk s. mem s a = None)
     \<and> (\<forall>u \<ge> nud s. hnds s u = None \<and> rqs s u = None)
     \<and> (\<forall>u h a. hnds s u = Some h \<longrightarrow> h_data h = Some a \<longrightarrow> h_ptr_ok s u a)
     \<and> (\<forall>u r a. rqs s u = Some r \<longrightarrow> r_data r = Some a \<longrightarrow> r_ptr_ok s u a)"

lemma wfD:
  assumes "wf s"
  shows "reg_ok (reg s)" "heap_ok (reg s) (mem s)" "\<And>a. brk s \<le> a \<Longrightarrow> mem s a = None"
    "\<And>u. nud s \<le> u \<Longrightarrow> hnds s u = None" "\<And>u. nud s \<le> u \<Longrightarrow> rqs s u = None"
    "\<And>u h a. hnds s u = Some h \<Longrightarrow> h_data h = Some a \<Longrightarrow> h_ptr_ok s u a"
    "\<And>u r a. rqs s u = Some r \<Longrightarrow> r_data r = Some a \<Longrightarrow> r_ptr_ok s u a"
  using assms by (auto simp: wf_def)

text \<open>The fields the invariant does not read.\<close>

lemma ptr_ok_frame [simp]:
  "h_ptr_ok (s\<lparr>stk := x\<rparr>) = h_ptr_ok s" "r_ptr_ok (s\<lparr>stk := x\<rparr>) = r_ptr_ok s"
  "h_ptr_ok (s\<lparr>regs := x1\<rparr>) = h_ptr_ok s" "r_ptr_ok (s\<lparr>regs := x1\<rparr>) = r_ptr_ok s"
  "h_ptr_ok (s\<lparr>tabs := x2\<rparr>) = h_ptr_ok s" "r_ptr_ok (s\<lparr>tabs := x2\<rparr>) = r_ptr_ok s"
  "h_ptr_ok (s\<lparr>ntab := x3\<rparr>) = h_ptr_ok s" "r_ptr_ok (s\<lparr>ntab := x3\<rparr>) = r_ptr_ok s"
  "h_ptr_ok (s\<lparr>umeta := x4\<rparr>) = h_ptr_ok s" "r_ptr_ok (s\<lparr>umeta := x4\<rparr>) = r_ptr_ok s"
  "h_ptr_ok (s\<lparr>uvlog := x5\<rparr>) = h_ptr_ok s" "r_ptr_ok (s\<lparr>uvlog := x5\<rparr>) = r_ptr_ok s"
  "h_ptr_ok (s\<lparr>calls := x6\<rparr>) = h_ptr_ok s" "r_ptr_ok (s\<lparr>calls := x6\<rparr>) = r_ptr_ok s"
  "h_ptr_ok (s\<lparr>errbuf := x7\<rparr>) = h_ptr_ok s" "r_ptr_ok (s\<lparr>errbuf := x7\<rparr>) = r_ptr_ok s"
  "h_ptr_ok (s\<lparr>out := x8\<rparr>) = h_ptr_ok s" "r_ptr_ok (s\<lparr>out := x8\<rparr>) = r_ptr_ok s"
  "h_ptr_ok (s\<lparr>nud := x9\<rparr>) = h_ptr_ok s" "r_ptr_ok (s\<lparr>nud := x9\<rparr>) = r_ptr_ok s"
  "h_ptr_ok (s\<lparr>hnds := x10\<rparr>) = h_ptr_ok s" "r_ptr_ok (s\<lparr>hnds := x10\<rparr>) = r_ptr_ok s"
  "h_ptr_ok (s\<lparr>rqs := x11\<rparr>) = h_ptr_ok s" "r_ptr_ok (s\<lparr>rqs := x11\<rparr>) = r_ptr_ok s"
  by (auto simp: h_ptr_ok_def r_ptr_ok_def fun_eq_iff)

lemma wf_frame [simp]:
  "wf (s\<lparr>stk := x\<rparr>) = wf s"
  "wf (s\<lparr>regs := x1\<rparr>) = wf s"
  "wf (s\<lparr>tabs := x2\<rparr>) = wf s"
  "wf (s\<lparr>ntab := x3\<rparr>) = wf s"
  "wf (s\<lparr>umeta := x4\<rparr>) = wf s"
  "wf (s\<lparr>uvlog := x5\<rparr>) = wf s"
  "wf (s\<lparr>calls := x6\<rparr>) = wf s"
  "wf (s\<lparr>errbuf := x7\<rparr>) = wf s"
  "wf (s\<lparr>out := x8\<rparr>) = wf s"
  by (simp_all add: wf_def)

subsection \<open>The elementary changes\<close>

lemma block_ok_frame:
  assumes "block_ok R b" "reg_live R \<subseteq> reg_live R' \<union> X" "set (pos_refs b) \<inter> X = {}"
    and "\<And>r. r \<in> set (pos_refs b) \<Longrightarrow> reg_geti R' r = reg_geti R r"
  shows "block_ok R' b"
proof -
  have "fun_ref R' r = fun_ref R r" if "r \<in> set (block_refs b)" for r
    using assms(4) that by (auto simp: fun_ref_def pos_refs_def)
  with assms(1-3) show ?thesis
    by (auto simp: block_ok_def cb_ok_def block_refs_def split: block.splits)
qed

text \<open>A change of the registry that keeps the owned references keeps the invariant.\<close>

lemma wf_registry:
  assumes "wf s" "reg_ok R'" "owned (mem s) \<subseteq> reg_live R'"
    and "\<And>r. r \<in> owned (mem s) \<Longrightarrow> reg_geti R' r = reg_geti (reg s) r"
  shows "wf (s\<lparr>reg := R'\<rparr>)"
proof -
  note W = wfD [OF assms(1)]
  have own: "r \<in> owned (mem s)" if "mem s a = Some b" "r \<in> set (pos_refs b)" for a b r
    using that by (auto simp: owned_def)
  have "block_ok R' b" if "mem s a = Some b" for a b
  proof (rule block_ok_frame [where X = "- owned (mem s)"])
    show "block_ok (reg s) b" using W(2) that by (auto simp: heap_ok_def)
    show "reg_live (reg s) \<subseteq> reg_live R' \<union> - owned (mem s)" using assms(3) by auto
    show "set (pos_refs b) \<inter> - owned (mem s) = {}" using own [OF that] by auto
    show "\<And>r. r \<in> set (pos_refs b) \<Longrightarrow> reg_geti R' r = reg_geti (reg s) r"
      using own [OF that] assms(4) by auto
  qed
  then have "heap_ok R' (mem s)" using W(2) by (auto simp: heap_ok_def)
  moreover have "h_ptr_ok (s\<lparr>reg := R'\<rparr>) u a" if "h_ptr_ok s u a" for u a
    using that assms(4) own
    by (fastforce simp: h_ptr_ok_def pos_refs_def block_refs_def)
  moreover have "r_ptr_ok (s\<lparr>reg := R'\<rparr>) u a" if "r_ptr_ok s u a" for u a
    using that assms(4) own
    by (fastforce simp: r_ptr_ok_def pos_refs_def block_refs_def)
  ultimately show ?thesis using W assms(2) by (auto simp: wf_def)
qed

lemma owned_live: "wf s \<Longrightarrow> owned (mem s) \<subseteq> reg_live (reg s)"
  by (auto simp: owned_def wf_def heap_ok_def block_ok_def)

lemma wf_ref:
  assumes "wf s" "v \<noteq> LNil"
  shows "wf (s\<lparr>reg := snd (reg_ref (reg s) v)\<rparr>)"
    and "fst (reg_ref (reg s) v) \<in> reg_live (snd (reg_ref (reg s) v))"
    and "fst (reg_ref (reg s) v) \<notin> owned (mem s)"
proof -
  note R = wfD(1) [OF assms(1)]
  show "wf (s\<lparr>reg := snd (reg_ref (reg s) v)\<rparr>)"
    using assms owned_live [OF assms(1)] R
    by (intro wf_registry) (auto simp: luaref.alloc_invar luaref.alloc_live luaref.alloc_frame)
  show "fst (reg_ref (reg s) v) \<in> reg_live (snd (reg_ref (reg s) v))"
    using luaref.alloc_live [OF R assms(2)] by simp
  show "fst (reg_ref (reg s) v) \<notin> owned (mem s)"
    using luaref.alloc_fresh [OF R assms(2)] owned_live [OF assms(1)] by auto
qed

lemma wf_unref:
  assumes "wf s" "r \<in> reg_live (reg s)" "r \<notin> owned (mem s)"
  shows "wf (s\<lparr>reg := reg_unref (reg s) r\<rparr>)"
proof -
  note R = wfD(1) [OF assms(1)]
  have "reg_geti (reg_unref (reg s) r) q = reg_geti (reg s) q" if "q \<in> owned (mem s)" for q
    using luaref.release_frame [OF R assms(2)] that assms(3) owned_live [OF assms(1)] by auto
  then show ?thesis
    using assms owned_live [OF assms(1)] R
    by (intro wf_registry) (auto simp: luaref.release_invar luaref.release_live)
qed

lemma wf_unref_owned_off:
  assumes "wf s" "r < 0 \<or> (r \<in> reg_live (reg s) \<and> r \<notin> owned (mem s))"
  shows "wf (s\<lparr>reg := reg_unref (reg s) r\<rparr>)"
  using assms wf_unref by (cases "r < 0") auto

text \<open>Replacing one block.\<close>

lemma wf_block:
  assumes "wf s" "a < brk s" "block_ok (reg s) b"
    and "set (pos_refs b) \<inter> owned ((mem s)(a := None)) = {}"
    and "\<And>u h. hnds s u = Some h \<Longrightarrow> h_data h = Some a \<Longrightarrow>
       \<exists>d. b = BHandle d \<and> 0 < lh_ref d \<and> reg_geti (reg s) (lh_ref d) = LUData u"
    and "\<And>u r. rqs s u = Some r \<Longrightarrow> r_data r = Some a \<Longrightarrow>
       \<exists>q. b = BReq q \<and> 0 < lr_req_ref q \<and> reg_geti (reg s) (lr_req_ref q) = LUData u"
  shows "wf (s\<lparr>mem := (mem s)(a := Some b)\<rparr>)"
proof -
  note W = wfD [OF assms(1)]
  have dis: "set (pos_refs b) \<inter> set (pos_refs b') = {}" if "mem s a' = Some b'" "a' \<noteq> a" for a' b'
  proof -
    have "set (pos_refs b') \<subseteq> owned ((mem s)(a := None))" using that by (force simp: owned_def)
    with assms(4) show ?thesis by blast
  qed
  have "heap_ok (reg s) ((mem s)(a := Some b))"
    using W(2) assms(3) dis unfolding heap_ok_def by (auto split: if_splits)
  moreover have "h_ptr_ok (s\<lparr>mem := (mem s)(a := Some b)\<rparr>) u a'"
    if "hnds s u = Some h" "h_data h = Some a'" for u h a'
    using W(6) [OF that] assms(2) assms(5) [of u h] that by (auto simp: h_ptr_ok_def)
  moreover have "r_ptr_ok (s\<lparr>mem := (mem s)(a := Some b)\<rparr>) u a'"
    if "rqs s u = Some h" "r_data h = Some a'" for u h a'
    using W(7) [OF that] assms(2) assms(6) [of u h] that by (auto simp: r_ptr_ok_def)
  ultimately show ?thesis using W assms(2) by (auto simp: wf_def)
qed

lemma wf_free:
  assumes "wf s"
  shows "wf (s\<lparr>mem := (mem s)(a := None)\<rparr>)"
  using assms unfolding wf_def heap_ok_def h_ptr_ok_def r_ptr_ok_def by auto

lemma owned_free:
  assumes "wf s" "mem s a = Some b"
  shows "owned ((mem s)(a := None)) = owned (mem s) - set (pos_refs b)"
proof -
  have dis: "set (pos_refs b) \<inter> set (pos_refs b') = {}" if "mem s a' = Some b'" "a' \<noteq> a" for a' b'
    using wfD(2) [OF assms(1)] assms(2) that unfolding heap_ok_def by metis
  show ?thesis
  proof (intro set_eqI iffI)
    fix r assume "r \<in> owned ((mem s)(a := None))"
    then obtain a' b' where "mem s a' = Some b'" "a' \<noteq> a" "r \<in> set (pos_refs b')"
      by (auto simp: owned_def split: if_splits)
    with dis show "r \<in> owned (mem s) - set (pos_refs b)" unfolding owned_def by blast
  next
    fix r assume "r \<in> owned (mem s) - set (pos_refs b)"
    then obtain a' b' where "mem s a' = Some b'" "r \<in> set (pos_refs b')" "r \<notin> set (pos_refs b)"
      unfolding owned_def by blast
    moreover from this assms(2) have "a' \<noteq> a" by auto
    ultimately show "r \<in> owned ((mem s)(a := None))" by (force simp: owned_def)
  qed
qed

lemma wf_alloc_block:
  assumes "wf s" "mem s (brk s) = None"
  shows "wf (s\<lparr>mem := (mem s)(brk s := Some BBuf), brk := Suc (brk s)\<rparr>)"
proof -
  note W = wfD [OF assms(1)]
  have [simp]: "pos_refs BBuf = []" "block_ok R BBuf" for R
    by (auto simp: pos_refs_def block_refs_def block_ok_def cb_ok_def)
  have "heap_ok (reg s) ((mem s)(brk s := Some BBuf))"
    using W(2) by (auto simp: heap_ok_def)
  moreover have "h_ptr_ok (s\<lparr>mem := (mem s)(brk s := Some BBuf), brk := Suc (brk s)\<rparr>) u a"
    if "h_ptr_ok s u a" for u a using that by (auto simp: h_ptr_ok_def)
  moreover have "r_ptr_ok (s\<lparr>mem := (mem s)(brk s := Some BBuf), brk := Suc (brk s)\<rparr>) u a"
    if "r_ptr_ok s u a" for u a using that by (auto simp: r_ptr_ok_def)
  ultimately show ?thesis using W by (auto simp: wf_def)
qed

lemma wf_brk: "wf s \<Longrightarrow> wf (s\<lparr>brk := Suc (brk s)\<rparr>)"
  by (auto simp: wf_def h_ptr_ok_def r_ptr_ok_def intro: less_SucI)

lemma wf_put_h:
  assumes "wf s" "u < nud s" "\<And>a. h_data h = Some a \<Longrightarrow> h_ptr_ok s u a"
  shows "wf (s\<lparr>hnds := (hnds s)(u := Some h)\<rparr>)"
  using assms by (auto simp: wf_def)

lemma wf_put_r:
  assumes "wf s" "u < nud s" "\<And>a. r_data r = Some a \<Longrightarrow> r_ptr_ok s u a"
  shows "wf (s\<lparr>rqs := (rqs s)(u := Some r)\<rparr>)"
  using assms by (auto simp: wf_def)

lemma wf_new_udata:
  assumes "wf s"
  shows "wf (s\<lparr>nud := Suc (nud s), stk := x, umeta := y, hnds := (hnds s)(nud s := None),
      rqs := (rqs s)(nud s := None)\<rparr>)"
  using assms by (auto simp: wf_def)

subsection \<open>Operations that do not touch what the invariant reads\<close>

definition core :: "lstate \<Rightarrow> registry \<times> (nat \<Rightarrow> block option) \<times> nat \<times> nat \<times>
    (nat \<Rightarrow> uv_handle option) \<times> (nat \<Rightarrow> uv_req option)" where
  "core s = (reg s, mem s, brk s, nud s, hnds s, rqs s)"

abbreviation neutral :: "'a M \<Rightarrow> bool" where "neutral m \<equiv> leaves core m"

lemma wf_core: "core s' = core s \<Longrightarrow> wf s' = wf s"
  by (auto simp: core_def wf_def h_ptr_ok_def r_ptr_ok_def)

lemma core_frame [simp]:
  "core (s\<lparr>stk := x\<rparr>) = core s" "core (s\<lparr>regs := x1\<rparr>) = core s"
  "core (s\<lparr>tabs := x2\<rparr>) = core s" "core (s\<lparr>ntab := x3\<rparr>) = core s"
  "core (s\<lparr>umeta := x4\<rparr>) = core s" "core (s\<lparr>uvlog := x5\<rparr>) = core s"
  "core (s\<lparr>calls := x6\<rparr>) = core s" "core (s\<lparr>errbuf := x7\<rparr>) = core s"
  "core (s\<lparr>out := x8\<rparr>) = core s"
  by (simp_all add: core_def)

lemma neutral_index2addr [neu]: "neutral (index2addr i)"
  by (rule leavesI) (simp add: index2addr_def Let_def)

lemma neutral_push [neu]: "neutral (push v)"
  by (rule leavesI) (simp add: run_push)

lemma neutral_lua_pop [neu]: "neutral (lua_pop n)"
  by (rule leavesI) (simp add: lua_pop_def)

lemma neutral_pop_val [neu]: "neutral pop_val"
  by (rule leavesI) (simp add: pop_val_def)

lemma neutral_lua_insert [neu]: "neutral (lua_insert i)"
  by (rule leavesI) (simp add: lua_insert_def Let_def)

lemma neutral_lua_remove [neu]: "neutral (lua_remove i)"
  by (rule leavesI) (simp add: lua_remove_def Let_def)

lemma neutral_set_slot [neu]: "neutral (set_slot i v)"
  by (rule leavesI) (simp add: set_slot_def run_modM)

lemma neutral_lua_newtable [neu]: "neutral lua_newtable"
  by (rule leavesI) (simp add: run_lua_newtable)

lemma neutral_uv [neu]: "neutral (uv f args)" "neutral (uv_void f args)" "neutral (uv_out k)"
  "neutral (uv_outs k)" "neutral (uv_outd k)" "neutral (out_str k)"
  by (auto intro!: leavesI simp: luasem)

lemma neutral_reads [neu]:
  "neutral (get_lh p)" "neutral (get_lr p)" "neutral (get_h u)" "neutral (get_r u)"
  by (auto intro!: leavesI simp: get_lh_def get_lr_def get_h_def get_r_def
      split: option.splits block.splits)

lemma leaves_lval [neu]:
  assumes "leaves c m1" "\<And>b. leaves c (m2 b)" "\<And>n. leaves c (m3 n)" "\<And>w. leaves c (m4 w)"
    "\<And>t. leaves c (m5 t)" "\<And>t. leaves c (m6 t)" "\<And>f. leaves c (m7 f)" "\<And>f. leaves c (m8 f)"
    "\<And>u. leaves c (m9 u)" "\<And>p. leaves c (m10 p)" "leaves c m11"
  shows "leaves c (case v of LNil \<Rightarrow> m1 | LBool b \<Rightarrow> m2 b | LInt n \<Rightarrow> m3 n | LFlt w \<Rightarrow> m4 w
    | LStr t \<Rightarrow> m5 t | LTab t \<Rightarrow> m6 t | LFun f \<Rightarrow> m7 f | LCFun f \<Rightarrow> m8 f | LUData u \<Rightarrow> m9 u
    | LLight p \<Rightarrow> m10 p | LThread \<Rightarrow> m11)"
  using assms by (cases v) auto

lemma neutral_lua_pushstring [neu]: "neutral (lua_pushstring p)"
  unfolding lua_pushstring_def by (intro neu)

lemma neutral_values [neu]:
  "neutral (lua_pushvalue i)" "neutral (lua_type i)" "neutral lua_gettop"
  unfolding lua_pushvalue_def lua_type_def lua_gettop_def by (intro neu)+

lemma neutral_tests [neu]:
  "neutral (lua_isnoneornil i)" "neutral (lua_isnil i)" "neutral (lua_istable i)"
  "neutral (lua_isfunction i)" "neutral (lua_isstring i)" "neutral (lua_toboolean i)"
  "neutral (lua_touserdata i)"
  unfolding lua_isnoneornil_def lua_isnil_def lua_istable_def lua_isfunction_def lua_isstring_def
    lua_toboolean_def lua_touserdata_def by (intro neu)+

lemma neutral_numbers [neu]: "neutral (lua_isnumber i)" "neutral (lua_tointeger i)"
  unfolding lua_isnumber_def lua_tointeger_def
  by (intro leaves_bindM neutral_index2addr leavesI; simp)+

lemma neutral_lua_tostring [neu]: "neutral (lua_tostring i)"
  unfolding lua_tostring_def by (intro neu)

lemma neutral_errors [neu]:
  "neutral (luaL_error msg)" "neutral (luaL_argerror i msg)" "neutral (luaL_argcheck b i msg)"
  "neutral (typeerror i t)"
  unfolding luaL_error_def luaL_argerror_def luaL_argcheck_def typeerror_def by (intro neu)+

lemma neutral_checks [neu]:
  "neutral (luaL_checktype i t)" "neutral (luaL_checkinteger i)" "neutral (luaL_checknumber i)"
  "neutral (luaL_optinteger i n)" "neutral (luaL_checklstring i)" "neutral (luaL_checkstring i)"
  "neutral (luaL_checkoption i d opts)" "neutral (luaL_checkudata i tn)" "neutral (check_c_int i)"
  unfolding luaL_checktype_def typeerror_def luaL_argerror_def luaL_checkinteger_def
    luaL_checknumber_def luaL_optinteger_def luaL_checklstring_def luaL_checkstring_def
    luaL_checkoption_def luaL_checkudata_def check_c_int_def by (intro neu)+

lemma neutral_tab_at [neu]: "neutral (tab_at i f)" "neutral (index_tab i)"
  unfolding tab_at_def index_tab_def luaL_error_def by (intro neu)+

lemma neutral_modM_tabs [neu]: "neutral (modM (\<lambda>s. s\<lparr>tabs := f s\<rparr>))"
  "neutral (modM (\<lambda>s. s\<lparr>regs := g s\<rparr>))" "neutral (modM (\<lambda>s. s\<lparr>umeta := m s\<rparr>))"
  "neutral (modM (\<lambda>s. s\<lparr>errbuf := e s\<rparr>))" "neutral (modM (\<lambda>s. s\<lparr>out := p s\<rparr>))"
  by (auto intro: leaves_modM)

lemma neutral_tables [neu]:
  "neutral (lua_getfield i k)" "neutral (lua_setfield i k)" "neutral (lua_rawget i)"
  "neutral (lua_rawset i)" "neutral (lua_rawgeti i n)" "neutral (lua_rawseti i n)"
  "neutral (lua_rawlen i)"
  unfolding lua_getfield_def lua_setfield_def lua_rawget_def lua_rawset_def lua_rawgeti_def
    lua_rawseti_def lua_rawlen_def by (intro neu)+

lemma neutral_reg [neu]:
  "neutral (reg_getfield k)" "neutral (reg_setfield k)" "neutral (reg_rawgeti r)"
  "neutral (lua_getmetatable i)" "neutral (lua_setmetatable i)"
  unfolding reg_getfield_def reg_setfield_def reg_rawgeti_def lua_getmetatable_def
    lua_setmetatable_def by (intro neu)+

lemma neutral_luaL_newmetatable [neu]: "neutral (luaL_newmetatable k)"
  unfolding luaL_newmetatable_def by (intro neu)

end
