(* ===== verification/Luv_Keep.thy ===== *)
theory Luv_Keep
  imports Luv_Wf
begin

text \<open>
  The rules by which the components show that their functions keep the invariant \<open>wf\<close>.  The
  collection \<open>neu\<close> covers the operations that do not touch what \<open>wf\<close> reads, \<open>hw\<close> the others;
  a component's proof is one \<open>intro\<close> over them.
\<close>

subsection \<open>Neutral operations of the shared components\<close>

lemma neutral_util_buffer [neu]: "neutral (errcat t)" "neutral errclear" "neutral active_frames"
  "neutral print_err"
  by (auto intro!: leavesI simp: errcat_def errclear_def active_frames_def print_err_def run_modM)

lemma neutral_dump_var [neu]: "neutral (dump_var n)"
  unfolding dump_var_def by (intro neu)

lemma neutral_dump_locals [neu]: "neutral (dump_locals vs)"
  by (induction vs rule: dump_locals.induct) (simp_all add: leaves_retM, intro neu)

lemma neutral_dump_upvals [neu]: "neutral (dump_upvals k)"
  by (induction k) (simp_all add: leaves_retM, intro neu)

lemma neutral_stackdump_impl [neu]: "neutral (luv_stackdump_impl frs i)"
  by (induction frs i rule: luv_stackdump_impl.induct)
    (simp_all add: leaves_retM del: dump_upvals.simps, intro neu)

lemma neutral_luv_stackdump [neu]: "neutral luv_stackdump"
  unfolding luv_stackdump_def by (intro neu)

lemma neutral_results [neu]: "neutral (luv_error st)" "neutral (luv_status st)"
  "neutral (ret_integer r)" "neutral (ret_boolean r)"
  unfolding ret_integer_def ret_boolean_def luv_error_def luv_status_def by (intro neu)+

lemma neutral_call_handler [neu]: "neutral (call_handler h msg)"
proof (rule leavesI)
  fix E s
  have "core (snd (luv_stackdump E (s\<lparr>stk := [msg]\<rparr>))) = core s"
    using neutral_luv_stackdump unfolding leaves_def by simp
  then show "core (snd (call_handler h msg E s)) = core s"
    by (auto simp: call_handler_def split: prod.splits sum.splits)
qed

lemma neutral_handle_checks [neu]:
  "neutral (meta_in_set i name)" "neutral (as_handle p)" "neutral (lua_handle_check i)"
  "neutral (check_handle tn ty msg i)" "neutral (handle_data u)" "neutral (uv_is_closing u)"
  "neutral buffer_size_arg"
  unfolding meta_in_set_def as_handle_def lua_handle_check_def check_handle_def handle_data_def
    uv_is_closing_def buffer_size_arg_def by (intro neu)+

lemma neutral_luv_req_check [neu]: "neutral (luv_req_check i)"
  unfolding luv_req_check_def by (intro neu)

subsection \<open>Keeping the invariant\<close>

text \<open>A Lua error can be caught and the program goes on; after a fault nothing is promised.\<close>

fun lua_exc :: "exc \<Rightarrow> bool" where
  "lua_exc (LuaErr v) = True"
| "lua_exc (Crash f) = False"

abbreviation keep :: "env \<Rightarrow> (lstate \<Rightarrow> bool) \<Rightarrow> 'a M \<Rightarrow> ('a \<Rightarrow> lstate \<Rightarrow> bool) \<Rightarrow> bool" where
  "keep E P m Q \<equiv> hoare lua_exc wf E P m Q"

abbreviation keeps :: "env \<Rightarrow> 'a M \<Rightarrow> bool" where
  "keeps E m \<equiv> keep E wf m (\<lambda>_. wf)"

text \<open>
  \<open>wfr r\<close>: besides \<open>wf\<close>, the caller holds the reference \<open>r\<close> of a continuation that no
  block owns yet.
\<close>

definition held :: "int \<Rightarrow> lstate \<Rightarrow> bool" where
  "held r s \<longleftrightarrow> r = LUA_NOREF \<or>
     (r \<in> reg_live (reg s) \<and> r \<notin> owned (mem s) \<and> lua_tag (reg_geti (reg s) r) = TFUNCTION)"

definition wfr :: "int \<Rightarrow> lstate \<Rightarrow> bool" where
  "wfr r s \<longleftrightarrow> wf s \<and> held r s"

text \<open>The Lua code a callback runs keeps the invariant: it reaches the state only through luv.\<close>

definition env_ok :: "env \<Rightarrow> bool" where
  "env_ok E \<longleftrightarrow> (\<forall>f args s. wf s \<longrightarrow> (case ucall E f args s of
      (Inl e, s') \<Rightarrow> lua_exc e \<longrightarrow> wf s' | (Inr rs, s') \<Rightarrow> wf s'))"

definition stable :: "(lstate \<Rightarrow> bool) \<Rightarrow> bool" where
  "stable P \<longleftrightarrow> (\<forall>s s'. core s' = core s \<longrightarrow> P s \<longrightarrow> P s') \<and> (\<forall>s. P s \<longrightarrow> wf s)"

lemma stable_wf [hw]: "stable wf"
  unfolding stable_def using wf_core by blast

lemma stable_wfr [hw]: "stable (wfr r)"
proof -
  have "held r s' = held r s" if "core s' = core s" for s s'
    using that by (simp add: held_def core_def)
  then show ?thesis unfolding stable_def wfr_def using wf_core by blast
qed

lemma keep_neutral:
  assumes "neutral m" "stable P"
  shows "keep E P m (\<lambda>_. P)"
proof (rule hoareI)
  fix s e s' assume "P s" "m E s = (Inl e, s')"
  with assms leavesD [OF assms(1)] show "wf s'" unfolding stable_def by metis
next
  fix s x s' assume "P s" "m E s = (Inr x, s')"
  with assms leavesD [OF assms(1)] show "P s'" unfolding stable_def by metis
qed

lemmas keep_prims [THEN keep_neutral, hw] =
  neutral_index2addr neutral_push neutral_lua_pop neutral_pop_val neutral_lua_insert
  neutral_lua_remove neutral_set_slot neutral_lua_newtable neutral_uv neutral_reads
  neutral_lua_pushstring neutral_values neutral_tests neutral_numbers neutral_lua_tostring
  neutral_errors neutral_checks neutral_tab_at neutral_tables neutral_reg
  neutral_luaL_newmetatable neutral_luv_stackdump neutral_results neutral_call_handler
  neutral_handle_checks neutral_luv_req_check

lemma hoare_lval [hw]:
  assumes "hoare ok R E P m1 Q" "\<And>b. hoare ok R E P (m2 b) Q" "\<And>n. hoare ok R E P (m3 n) Q"
    "\<And>w. hoare ok R E P (m4 w) Q" "\<And>t. hoare ok R E P (m5 t) Q" "\<And>t. hoare ok R E P (m6 t) Q"
    "\<And>f. hoare ok R E P (m7 f) Q" "\<And>f. hoare ok R E P (m8 f) Q" "\<And>u. hoare ok R E P (m9 u) Q"
    "\<And>p. hoare ok R E P (m10 p) Q" "hoare ok R E P m11 Q"
  shows "hoare ok R E P (case v of LNil \<Rightarrow> m1 | LBool b \<Rightarrow> m2 b | LInt n \<Rightarrow> m3 n | LFlt w \<Rightarrow> m4 w
    | LStr t \<Rightarrow> m5 t | LTab t \<Rightarrow> m6 t | LFun f \<Rightarrow> m7 f | LCFun f \<Rightarrow> m8 f | LUData u \<Rightarrow> m9 u
    | LLight p \<Rightarrow> m10 p | LThread \<Rightarrow> m11) Q"
  using assms by (cases v) auto

lemma keep_crash [hw]: "keep E P (crash f) Q"
  by (rule hoareI) (auto simp: run_failM)

lemma keep_luaL_error: "(\<And>s. P s \<Longrightarrow> wf s) \<Longrightarrow> keep E P (luaL_error msg) Q"
  by (rule hoareI) (auto simp: run_luaL_error)

text \<open>The shape most of the proofs below have: run the operation and look at the outcome.\<close>

lemma keepsI:
  assumes "\<And>s. wf s \<Longrightarrow> (case m E s of (Inl e, s') \<Rightarrow> lua_exc e \<longrightarrow> wf s' | (Inr x, s') \<Rightarrow> wf s')"
  shows "keeps E m"
  using assms by (simp add: hoare_def)

subsection \<open>Calls of Lua code\<close>

lemma keep_lua_pcall [hw]:
  assumes "env_ok E"
  shows "keeps E (lua_pcall n r h)"
proof (rule keepsI)
  fix s assume wf: "wf s"
  have u: "wf s' \<Longrightarrow> (case ucall E f args s' of (Inl e, s2) \<Rightarrow> lua_exc e \<longrightarrow> wf s2 | (Inr rs, s2) \<Rightarrow> wf s2)"
    for f args s' using assms by (simp add: env_ok_def)
  have c: "wf s' = wf s''" if "call_handler h msg E s'' = (x, s')" for h msg x s' s''
    using leavesD [OF neutral_call_handler that] by (rule wf_core)
  show "case lua_pcall n r h E s of (Inl e, s') \<Rightarrow> lua_exc e \<longrightarrow> wf s' | (Inr x, s') \<Rightarrow> wf s'"
  proof (cases "index2addr h E s")
    case (Pair a s1)
    have [simp]: "wf s1" using wf_core [OF leavesD [OF neutral_index2addr Pair]] wf by simp
    show ?thesis
    proof (cases a)
      case (Inl e)
      then show ?thesis by (simp add: lua_pcall_def run_bindM Pair)
    next
      case (Inr v)
      let ?n = "length (stk s1)"
      let ?f = "stk s1 ! (?n - n - 1)" and ?args = "drop (?n - n) (stk s1)"
      let ?s2 = "s1\<lparr>stk := [], calls := (?f, ?args) # calls s1\<rparr>"
      have w2: "wf ?s2" by simp
      show ?thesis
        using u [OF w2, of ?f ?args] Inr
        by (auto simp: lua_pcall_def run_bindM Pair Let_def w2 c
            split: prod.splits sum.splits exc.splits)
    qed
  qed
qed

lemma keep_lua_call [hw]:
  assumes "env_ok E"
  shows "keeps E (lua_call n r)"
proof (rule keepsI)
  fix s assume wf: "wf s"
  let ?n = "length (stk s)"
  let ?f = "stk s ! (?n - n - 1)" and ?args = "drop (?n - n) (stk s)"
  let ?s2 = "s\<lparr>stk := [], calls := (?f, ?args) # calls s\<rparr>"
  have w2: "wf ?s2" using wf by simp
  then have "case ucall E ?f ?args ?s2 of (Inl e, s2) \<Rightarrow> lua_exc e \<longrightarrow> wf s2 | (Inr rs, s2) \<Rightarrow> wf s2"
    using assms by (simp add: env_ok_def)
  then show "case lua_call n r E s of (Inl e, s') \<Rightarrow> lua_exc e \<longrightarrow> wf s' | (Inr x, s') \<Rightarrow> wf s'"
    using wf w2 by (auto simp: lua_call_def Let_def split: prod.splits sum.splits)
qed

lemma keep_luv_pcall [hw]: "env_ok E \<Longrightarrow> keeps E (luv_pcall ref n)"
  unfolding luv_pcall_def by (rule hw | assumption)+

lemma keep_luv_callback_call [hw]: "env_ok E \<Longrightarrow> keeps E (luv_callback_call data i n)"
  unfolding luv_callback_call_def by (rule hw | assumption)+

lemma keep_luv_req_fulfill [hw]: "env_ok E \<Longrightarrow> keeps E (luv_req_fulfill data n)"
  unfolding luv_req_fulfill_def by (rule hw | assumption)+

subsection \<open>Replacing and releasing blocks\<close>

lemma wf_put_lh:
  assumes "wf s" "mem s a = Some (BHandle d)" "lh_ref d' = lh_ref d"
    and "block_ok (reg s) (BHandle d')"
    and "set (pos_refs (BHandle d')) \<inter> owned ((mem s)(a := None)) = {}"
  shows "wf (s\<lparr>mem := (mem s)(a := Some (BHandle d'))\<rparr>)"
proof (rule wf_block [OF assms(1) _ assms(4,5)])
  note W = wfD [OF assms(1)]
  show "a < brk s" using W(3) [of a] assms(2) by (cases "a < brk s") auto
  show "\<exists>d. BHandle d' = BHandle d \<and> 0 < lh_ref d \<and> reg_geti (reg s) (lh_ref d) = LUData u"
    if "hnds s u = Some h" "h_data h = Some a" for u h
    using W(6) [OF that] assms(2,3) by (auto simp: h_ptr_ok_def)
  show "\<exists>q. BHandle d' = BReq q \<and> 0 < lr_req_ref q \<and> reg_geti (reg s) (lr_req_ref q) = LUData u"
    if "rqs s u = Some r" "r_data r = Some a" for u r
    using W(7) [OF that] assms(2) by (auto simp: r_ptr_ok_def)
qed

lemma wf_put_lr:
  assumes "wf s" "mem s a = Some (BReq q)" "lr_req_ref q' = lr_req_ref q"
    and "block_ok (reg s) (BReq q')"
    and "set (pos_refs (BReq q')) \<inter> owned ((mem s)(a := None)) = {}"
  shows "wf (s\<lparr>mem := (mem s)(a := Some (BReq q'))\<rparr>)"
proof (rule wf_block [OF assms(1) _ assms(4,5)])
  note W = wfD [OF assms(1)]
  show "a < brk s" using W(3) [of a] assms(2) by (cases "a < brk s") auto
  show "\<exists>q. BReq q' = BReq q \<and> 0 < lr_req_ref q \<and> reg_geti (reg s) (lr_req_ref q) = LUData u"
    if "rqs s u = Some r" "r_data r = Some a" for u r
    using W(7) [OF that] assms(2,3) by (auto simp: r_ptr_ok_def)
  show "\<exists>d. BReq q' = BHandle d \<and> 0 < lh_ref d \<and> reg_geti (reg s) (lh_ref d) = LUData u"
    if "hnds s u = Some h" "h_data h = Some a" for u h
    using W(6) [OF that] assms(2) by (auto simp: h_ptr_ok_def)
qed

lemma wf_block_ok: "wf s \<Longrightarrow> mem s a = Some b \<Longrightarrow> block_ok (reg s) b"
  using wfD(2) by (auto simp: heap_ok_def)

lemma in_pos_refs: "r \<in> set (pos_refs b) \<longleftrightarrow> r \<in> set (block_refs b) \<and> 0 \<le> r"
  by (auto simp: pos_refs_def)

lemma mem_reg_swap: "s\<lparr>mem := m, reg := R\<rparr> = s\<lparr>reg := R, mem := m\<rparr>"
  by simp

text \<open>Releasing a list of references no block owns.\<close>

lemma wf_unrefs:
  assumes "wf s" "distinct (filter (\<lambda>r. 0 \<le> r) rs)"
    and "\<And>r. r \<in> set rs \<Longrightarrow> 0 \<le> r \<Longrightarrow> r \<in> reg_live (reg s) \<and> r \<notin> owned (mem s)"
  shows "wf (s\<lparr>reg := fold (\<lambda>r R. reg_unref R r) rs (reg s)\<rparr>)"
  using assms
proof (induction rs arbitrary: s)
  case Nil
  then show ?case by simp
next
  case (Cons r rs)
  have w: "wf (s\<lparr>reg := reg_unref (reg s) r\<rparr>)"
    using Cons.prems by (intro wf_unref_owned_off) fastforce+
  have "x \<in> reg_live (reg_unref (reg s) r)" if "x \<in> set rs" "0 \<le> x" for x
  proof (cases "r < 0")
    case True
    then show ?thesis using Cons.prems(3) that by simp
  next
    case False
    then show ?thesis
      using that Cons.prems(2,3) luaref.release_live [OF wfD(1) [OF Cons.prems(1)], of r] by auto
  qed
  then show ?case
    using Cons.IH [OF w] Cons.prems(2,3) by (auto split: if_splits)
qed

lemma keep_luv_handle_cleanup [hw]: "keeps E (luv_handle_cleanup data)"
proof (rule keepsI)
  fix s assume wf: "wf s"
  show "case luv_handle_cleanup data E s of (Inl e, s') \<Rightarrow> lua_exc e \<longrightarrow> wf s' | (Inr x, s') \<Rightarrow> wf s'"
  proof (cases "\<exists>a d. data = Some a \<and> mem s a = Some (BHandle d)")
    case True
    then obtain a d where [simp]: "data = Some a" and m: "mem s a = Some (BHandle d)" by auto
    note B = wf_block_ok [OF wf m]
    let ?rs = "[lh_ref d, lh_cb0 d, lh_cb1 d]"
    have "wf (s\<lparr>mem := (mem s)(a := None), reg := fold (\<lambda>r R. reg_unref R r) ?rs (reg s)\<rparr>)"
      using wf_unrefs [OF wf_free [OF wf, of a], of ?rs] B owned_free [OF wf m]
      by (auto simp: block_ok_def pos_refs_def block_refs_def split: if_splits)
    then show ?thesis using run_luv_handle_cleanup [OF m, of E] by (simp add: mem_reg_swap)
  next
    case False
    then show ?thesis
      by (auto simp: luv_handle_cleanup_def run_bindM get_lh_def split: option.splits block.splits)
  qed
qed

lemma keep_luv_req_cleanup [hw]: "keeps E (luv_req_cleanup data)"
proof (rule keepsI)
  fix s assume wf: "wf s"
  show "case luv_req_cleanup data E s of (Inl e, s') \<Rightarrow> lua_exc e \<longrightarrow> wf s' | (Inr x, s') \<Rightarrow> wf s'"
  proof (cases "\<exists>a q. data = Some a \<and> mem s a = Some (BReq q)")
    case True
    then obtain a q where [simp]: "data = Some a" and m: "mem s a = Some (BReq q)" by auto
    note B = wf_block_ok [OF wf m]
    let ?rs = "[lr_req_ref q, lr_cb_ref q, lr_data_ref q]"
    let ?R = "fold (\<lambda>r R. reg_unref R r) ?rs (reg s)"
    have live: "r \<in> reg_live (reg s)" if "r \<in> set ?rs" "0 \<le> r" for r
      using B that by (auto simp: block_ok_def pos_refs_def block_refs_def)
    have dis: "distinct (filter (\<lambda>r. 0 \<le> r) ?rs)"
      using B by (simp add: block_ok_def pos_refs_def block_refs_def)
    have own: "r \<notin> owned ((f (mem s))(a := None))"
      if "r \<in> set ?rs" "0 \<le> r" "f = id \<or> f = (\<lambda>m. m(b := None))" for r f b
    proof -
      have "owned ((f (mem s))(a := None)) \<subseteq> owned ((mem s)(a := None))"
        using that(3) by (auto simp: owned_def split: if_splits)
      then show ?thesis
        using owned_free [OF wf m] that by (auto simp: in_pos_refs block_refs_def)
    qed
    have w1: "wf (s\<lparr>mem := (mem s)(a := None), reg := ?R\<rparr>)"
      using wf_unrefs [OF wf_free [OF wf, of a], of ?rs] live own [where f = id] dis by simp
    have w2: "wf (s\<lparr>mem := (mem s)(b := None, a := None), reg := ?R\<rparr>)" for b
      using wf_unrefs [OF wf_free [OF wf_free [OF wf, of b], of a], of ?rs] live dis
        own [where f = "\<lambda>m. m(b := None)" and b = b] by simp
    show ?thesis
      using w1 w2
      by (auto simp: luv_req_cleanup_def luasem run_get_lr(1) [OF m] m free_block_def mem_reg_swap
          split: option.splits)
  next
    case False
    then show ?thesis
      by (auto simp: luv_req_cleanup_def run_bindM get_lr_def split: option.splits block.splits)
  qed
qed

subsection \<open>Registering callbacks and continuations\<close>

lemma block_refs_cb_set:
  "set (block_refs (BHandle (cb_set k r d))) \<subseteq> insert r (set (block_refs (BHandle d)))"
  by (auto simp: cb_set_def block_refs_def)

lemma block_ok_cb_off:
  "block_ok R (BHandle d) \<Longrightarrow> block_ok R (BHandle (cb_set k LUA_NOREF d))"
  by (auto simp: block_ok_def cb_set_def pos_refs_def block_refs_def cb_ok_def fun_ref_def
      split: if_splits)

lemma block_ok_cb_on:
  assumes "block_ok R (BHandle (cb_set k LUA_NOREF d))" "r \<in> reg_live R"
    and "r \<notin> set (pos_refs (BHandle (cb_set k LUA_NOREF d)))" "lua_tag (reg_geti R r) = TFUNCTION" "0 < r"
  shows "block_ok R (BHandle (cb_set k r d))"
  using assms
  by (auto simp: block_ok_def cb_set_def pos_refs_def block_refs_def cb_ok_def fun_ref_def
      split: if_splits)

lemma cb_set_twice [simp]: "cb_set k r (cb_set k r' d) = cb_set k r d"
  by (simp add: cb_set_def)

lemma lh_ref_cb_set [simp]: "lh_ref (cb_set k r d) = lh_ref d"
  by (simp add: cb_set_def)

lemma cb_get_in_refs: "cb_get k d \<in> set (block_refs (BHandle d))"
  by (simp add: cb_get_def block_refs_def)

lemma wf_cb_off:
  fixes k :: nat
  assumes "wf s" "mem s a = Some (BHandle d)"
  defines "s1 \<equiv> s\<lparr>mem := (mem s)(a := Some (BHandle (cb_set k LUA_NOREF d)))\<rparr>"
  shows "wf s1" and "cb_get k d < 0 \<or> (cb_get k d \<in> reg_live (reg s1) \<and> cb_get k d \<notin> owned (mem s1))"
proof -
  let ?d = "cb_set k LUA_NOREF d"
  note B = wf_block_ok [OF assms(1,2)]
  have sub: "set (pos_refs (BHandle ?d)) \<subseteq> set (pos_refs (BHandle d))"
    using block_refs_cb_set [of k LUA_NOREF d] by (auto simp: in_pos_refs)
  then show "wf s1"
    unfolding s1_def
    using owned_free [OF assms(1,2)] block_ok_cb_off [OF B] assms by (intro wf_put_lh) auto
  have ow: "owned (mem s1) = owned ((mem s)(a := None)) \<union> set (pos_refs (BHandle ?d))"
    unfolding s1_def owned_def by (auto split: if_splits)
  have "cb_get k d \<notin> set (pos_refs (BHandle ?d))" if "0 \<le> cb_get k d"
    using B that by (auto simp: cb_get_def cb_set_def pos_refs_def block_refs_def block_ok_def
        split: if_splits)
  moreover have rg: "reg s1 = reg s" by (simp add: s1_def)
  ultimately show "cb_get k d < 0 \<or> (cb_get k d \<in> reg_live (reg s1) \<and> cb_get k d \<notin> owned (mem s1))"
    using B owned_free [OF assms(1,2)] cb_get_in_refs [of k d]
    by (cases "cb_get k d < 0") (auto simp: ow rg in_pos_refs block_ok_def)
qed

lemma keep_luv_callback_check:
  assumes "0 < i"
  shows "keeps E (luv_callback_check data k i)"
proof (rule keepsI)
  fix s assume wf: "wf s"
  show "case luv_callback_check data k i E s of
      (Inl e, s') \<Rightarrow> lua_exc e \<longrightarrow> wf s' | (Inr x, s') \<Rightarrow> wf s'"
  proof (cases "\<exists>f. arg s (nat i) = Some f \<and> lua_tag f = TFUNCTION")
    case False
    then show ?thesis
      using assms wf
      by (auto simp: luv_callback_check_def run_thenM run_luaL_checktype Let_def split: option.splits)
  next
    case True
    then obtain f where f: "arg s (nat i) = Some f" "lua_tag f = TFUNCTION" by auto
    show ?thesis
    proof (cases "\<exists>a d. data = Some a \<and> mem s a = Some (BHandle d)")
      case False
      with f assms show ?thesis
        by (auto simp: luv_callback_check_def run_thenM run_bindM run_luaL_checktype get_lh_def
            split: option.splits block.splits)
    next
      case True
      then obtain a d where [simp]: "data = Some a" and m: "mem s a = Some (BHandle d)" by auto
      let ?d = "cb_set k LUA_NOREF d"
      let ?m1 = "(mem s)(a := Some (BHandle ?d))"
      let ?R = "reg_unref (reg s) (cb_get k d)"
      let ?r = "fst (reg_ref ?R f)" and ?R' = "snd (reg_ref ?R f)"
      let ?s1 = "s\<lparr>mem := ?m1\<rparr>"
      note off = wf_cb_off [OF wf m, of k]
      have w2: "wf (?s1\<lparr>reg := ?R\<rparr>)"
        using wf_unref_owned_off [OF off] by simp
      have f0: "f \<noteq> LNil" using f by auto
      note A = wf_ref [OF w2 f0, simplified]
      have R: "reg_ok ?R" using wfD(1) [OF w2] by simp
      let ?s3 = "s\<lparr>mem := ?m1, reg := ?R'\<rparr>"
      have w3: "wf ?s3" using A(1) by simp
      have m3: "mem ?s3 a = Some (BHandle ?d)" by simp
      have own: "r \<in> owned ?m1" if "r \<in> set (pos_refs (BHandle ?d))" for r
        using that by (force simp: owned_def)
      have "block_ok ?R' (BHandle (cb_set k ?r d))"
        using block_ok_cb_on [OF _ A(2), of k d] wf_block_ok [OF w3 m3] A(3) own
          luaref.alloc_get [OF R f0] luaref.alloc_pos [OF R f0] f by auto
      moreover have "set (pos_refs (BHandle (cb_set k ?r d))) \<inter> owned ((mem ?s3)(a := None)) = {}"
      proof -
        have sub: "set (pos_refs (BHandle (cb_set k ?r d))) \<subseteq> insert ?r (set (pos_refs (BHandle ?d)))"
          using block_refs_cb_set [of k ?r ?d] by (auto simp: in_pos_refs)
        have "owned ((mem ?s3)(a := None)) = owned ?m1 - set (pos_refs (BHandle ?d))"
          using owned_free [OF w3 m3] by simp
        with sub A(3) show ?thesis by auto
      qed
      ultimately have "wf (?s3\<lparr>mem := (mem ?s3)(a := Some (BHandle (cb_set k ?r d)))\<rparr>)"
        by (intro wf_put_lh [OF w3 m3]) simp_all
      then show ?thesis
        using run_luv_callback_check [OF m f, of k E] by (simp add: Let_def mem_reg_swap)
    qed
  qed
qed

lemma keep_luv_callback_check_nat [hw]:
  "keeps E (luv_callback_check data k 1)" "keeps E (luv_callback_check data k (numeral n))"
  by (rule keep_luv_callback_check; simp)+

lemma keep_check_continuation:
  assumes "0 < i"
  shows "keep E wf (luv_req_check_continuation i) wfr"
proof (rule hoareI)
  fix s e s' assume "wf s" "luv_req_check_continuation i E s = (Inl e, s')"
  with assms show "wf s'"
    by (auto simp: run_check_continuation split: option.splits if_splits)
next
  fix s r s' assume wf: "wf s" and "luv_req_check_continuation i E s = (Inr r, s')"
  with assms have run: "(case arg s (nat i) of None \<Rightarrow> r = LUA_NOREF \<and> s' = s
     | Some v \<Rightarrow> if v = LNil then r = LUA_NOREF \<and> s' = s
         else lua_tag v = TFUNCTION \<and> r = fst (reg_ref (reg s) v) \<and>
           s' = s\<lparr>reg := snd (reg_ref (reg s) v)\<rparr>)"
    by (simp add: run_check_continuation split: option.splits if_splits)
  consider "r = LUA_NOREF" "s' = s"
    | v where "v \<noteq> LNil" "lua_tag v = TFUNCTION" "r = fst (reg_ref (reg s) v)"
        "s' = s\<lparr>reg := snd (reg_ref (reg s) v)\<rparr>"
  proof (cases "arg s (nat i)")
    case None
    with run that(1) show ?thesis by simp
  next
    case (Some v)
    with run that(1) that(2) [of v] show ?thesis by (cases "v = LNil") simp_all
  qed
  then show "wfr r s'"
  proof cases
    case 1
    with wf show ?thesis by (simp add: wfr_def held_def)
  next
    case 2
    with wf_ref [OF wf 2(1)] luaref.alloc_get [OF wfD(1) [OF wf] 2(1)] show ?thesis
      by (simp add: wfr_def held_def)
  qed
qed

lemma keep_check_continuation_nat [hw]:
  "keep E wf (luv_req_check_continuation 1) wfr"
  "keep E wf (luv_req_check_continuation (numeral n)) wfr"
  by (rule keep_check_continuation; simp)+

subsection \<open>New requests and new handles\<close>

lemma run_setup_req:
  assumes "stk s = base @ [LUData u]"
  shows "(\<exists>e. luv_req_setup ref E s = (Inl (LuaErr e), s\<lparr>brk := Suc (brk s)\<rparr>)) \<or>
    (\<exists>f s'. luv_req_setup ref E s = (Inl (Crash f), s')) \<or>
    (\<exists>m. luv_req_setup ref E s = (Inr (Some (brk s)),
       s\<lparr>umeta := m, reg := snd (reg_ref (reg s) (LUData u)),
         mem := (mem s)(brk s := Some (BReq \<lparr>lr_req_ref = fst (reg_ref (reg s) (LUData u)),
            lr_cb_ref = ref, lr_data_ref = LUA_NOREF, lr_data = None\<rparr>)), brk := Suc (brk s)\<rparr>))"
proof -
  have top: "index2addr (-1) E s' = (Inr (Some (LUData u)), s')"
    if "stk s' = base @ [LUData u]" for s' :: lstate
    by (rule run_index2addr_top) (rule that)
  have below: "index2addr (-2) E s' = (Inr (Some (LUData u)), s')"
    if "stk s' = base @ [LUData u, v]" for s' :: lstate and v
    by (rule run_index2addr_neg [of _ base _ "[v]"]) (use that in simp_all)
  note defs = luv_req_setup_def luaL_checktype_def lua_type_def lua_setmetatable_def
    lua_pushvalue_def run_bindM run_thenM run_retM run_failM top below luasem butlast_append
  show ?thesis
  proof (cases "malloc_ok E (brk s)")
    case False
    with assms have "\<exists>e. luv_req_setup ref E s = (Inl (LuaErr e), s\<lparr>brk := Suc (brk s)\<rparr>)"
      by (simp add: defs)
    then show ?thesis by blast
  next
    case True
    have "\<exists>m. luv_req_setup ref E s = (Inr (Some (brk s)),
       s\<lparr>umeta := m, reg := snd (reg_ref (reg s) (LUData u)),
         mem := (mem s)(brk s := Some (BReq \<lparr>lr_req_ref = fst (reg_ref (reg s) (LUData u)),
            lr_cb_ref = ref, lr_data_ref = LUA_NOREF, lr_data = None\<rparr>)), brk := Suc (brk s)\<rparr>)"
      if "(regs s ''uv_req'' = LTab t \<and> m = Some t) \<or> (regs s ''uv_req'' = LNil \<and> m = None)" for m t
      by (rule exI [of _ "(umeta s)(u := m)"], rule disjE [OF that])
        (simp_all add: defs assms True)
    moreover have "\<exists>f s'. luv_req_setup ref E s = (Inl (Crash f), s')"
      if "regs s ''uv_req'' \<noteq> LNil" "\<And>t. regs s ''uv_req'' \<noteq> LTab t"
      using that assms True by (cases "regs s ''uv_req''") (auto simp: defs)
    ultimately show ?thesis by metis
  qed
qed

text \<open>A new block at the break, which no pointer can name yet.\<close>

lemma wf_install:
  assumes "wf s" "block_ok (reg s) b" "set (pos_refs b) \<inter> owned (mem s) = {}"
  shows "wf (s\<lparr>mem := (mem s)(brk s := Some b), brk := Suc (brk s)\<rparr>)"
proof -
  note W = wfD [OF assms(1)]
  let ?s = "s\<lparr>mem := (mem s)(brk s := Some BBuf), brk := Suc (brk s)\<rparr>"
  have w: "wf ?s" using wf_alloc_block [OF assms(1)] W(3) by simp
  have no_h: "False" if "hnds s u = Some h" "h_data h = Some (brk s)" for u h
    using W(6) [OF that] by (simp add: h_ptr_ok_def)
  have no_r: "False" if "rqs s u = Some h" "r_data h = Some (brk s)" for u h
    using W(7) [OF that] by (simp add: r_ptr_ok_def)
  have o: "(mem s)(brk s := None) = mem s" using W(3) by auto
  have "wf (?s\<lparr>mem := (mem ?s)(brk s := Some b)\<rparr>)"
    using assms o by (intro wf_block [OF w]) (auto dest: no_h no_r)
  moreover have "?s\<lparr>mem := (mem ?s)(brk s := Some b)\<rparr> =
      s\<lparr>mem := (mem s)(brk s := Some b), brk := Suc (brk s)\<rparr>" by simp
  ultimately show ?thesis by metis
qed

lemma wf_new_ref_block:
  assumes wf: "wf s" and v: "v \<noteq> LNil"
  defines "R \<equiv> snd (reg_ref (reg s) v)"
  assumes b: "block_ok R b" "set (pos_refs b) \<inter> owned (mem s) = {}"
  shows "wf (s\<lparr>umeta := m, reg := R, mem := (mem s)(brk s := Some b), brk := Suc (brk s)\<rparr>)"
proof -
  have "wf (s\<lparr>umeta := m, reg := R\<rparr>)"
    using wf_ref(1) [of "s\<lparr>umeta := m\<rparr>" v] wf v by (simp add: R_def)
  from wf_install [OF this, of b] b show ?thesis by simp
qed

lemma wf_setup_req:
  fixes u :: nat
  assumes "wfr ref s"
  defines "R \<equiv> reg_ref (reg s) (LUData u)"
  defines "q \<equiv> \<lparr>lr_req_ref = fst R, lr_cb_ref = ref, lr_data_ref = LUA_NOREF, lr_data = None\<rparr>"
  shows "wf (s\<lparr>umeta := m, reg := snd R, mem := (mem s)(brk s := Some (BReq q)), brk := Suc (brk s)\<rparr>)"
proof -
  have wf: "wf s" and h: "held ref s" using assms(1) by (auto simp: wfr_def)
  note A = wf_ref [OF wf, of "LUData u", simplified]
  note L = luaref.alloc_live [OF wfD(1) [OF wf], of "LUData u", simplified]
    luaref.alloc_pos [OF wfD(1) [OF wf], of "LUData u", simplified]
    luaref.alloc_fresh [OF wfD(1) [OF wf], of "LUData u", simplified]
  have f: "reg_geti (snd R) ref = reg_geti (reg s) ref" if "ref \<in> reg_live (reg s)"
    using luaref.alloc_frame [OF wfD(1) [OF wf] _ that, of "LUData u"] by (simp add: R_def)
  have "block_ok (snd R) (BReq q)"
  proof (cases "ref = LUA_NOREF")
    case True
    with L show ?thesis
      by (simp add: q_def R_def block_ok_def pos_refs_def block_refs_def cb_ok_def fun_ref_def)
  next
    case False
    with h have r: "ref \<in> reg_live (reg s)" "lua_tag (reg_geti (reg s) ref) = TFUNCTION"
      by (auto simp: held_def)
    then have "fst R \<noteq> ref" "0 < ref" using L(3) reg_live_pos by (auto simp: R_def)
    with r L f [OF r(1)] show ?thesis
      by (simp add: q_def R_def block_ok_def pos_refs_def block_refs_def cb_ok_def fun_ref_def)
  qed
  moreover have "set (pos_refs (BReq q)) \<inter> owned (mem s) = {}"
    using h A(3) by (auto simp: q_def R_def pos_refs_def block_refs_def held_def)
  ultimately show ?thesis using wf_new_ref_block [OF wf, of "LUData u"] by (simp add: R_def)
qed

lemma keep_new_req [hw]: "keep E (wfr ref) (new_req ref) (\<lambda>_. wf)"
proof -
  {
    fix s assume w: "wfr ref s"
    let ?u = "nud s"
    let ?s = "s\<lparr>nud := Suc (nud s), stk := stk s @ [LUData ?u], umeta := (umeta s)(?u := None),
        hnds := (hnds s)(?u := None), rqs := (rqs s)(?u := None)\<rparr>"
    have w1: "wfr ref ?s" using w wf_new_udata by (simp add: wfr_def held_def)
    then have wf1: "wf ?s" by (simp add: wfr_def)
    let ?q = "\<lparr>lr_req_ref = fst (reg_ref (reg s) (LUData ?u)), lr_cb_ref = ref,
        lr_data_ref = LUA_NOREF, lr_data = None\<rparr>"
    define s3 where "s3 m = ?s\<lparr>umeta := m, reg := snd (reg_ref (reg s) (LUData ?u)),
        mem := (mem s)(brk s := Some (BReq ?q)), brk := Suc (brk s)\<rparr>" for m
    note q = luaref.alloc_get [OF wfD(1) [OF wf1], of "LUData ?u", simplified]
      luaref.alloc_pos [OF wfD(1) [OF wf1], of "LUData ?u", simplified]
    have w3: "wf (s3 m)" for m
      using wf_setup_req [OF w1, of ?u m] by (simp add: s3_def)
    have w4: "wf (s3 m\<lparr>rqs := (rqs (s3 m))(?u := Some (fresh_req\<lparr>r_data := Some (brk s)\<rparr>))\<rparr>)" for m
      using q by (intro wf_put_r [OF w3]) (auto simp: s3_def fresh_req_def r_ptr_ok_def)
    have "case new_req ref E s of (Inl e, s') \<Rightarrow> lua_exc e \<longrightarrow> wf s' | (Inr x, s') \<Rightarrow> wf s'"
      using run_setup_req [of ?s "stk s" ?u ref E] wf_brk [OF wf1] w4
      by (auto simp: new_req_def luasem s3_def)
  }
  then show ?thesis by (simp add: hoare_def)
qed

lemma run_setup_handle:
  assumes "stk s = base @ [LUData u]" "hnds s u = Some h" "handle_lc (h_type h) = Some lc"
  shows "(\<exists>e. luv_handle_setup E s = (Inl (LuaErr e), s\<lparr>brk := Suc (brk s)\<rparr>)) \<or>
    (\<exists>f s'. luv_handle_setup E s = (Inl (Crash f), s')) \<or>
    (\<exists>m. luv_handle_setup E s = (Inr (Some (brk s)),
       s\<lparr>umeta := m, reg := snd (reg_ref (reg s) (LUData u)),
         mem := (mem s)(brk s := Some (BHandle \<lparr>lh_ref = fst (reg_ref (reg s) (LUData u)),
            lh_cb0 = LUA_NOREF, lh_cb1 = LUA_NOREF\<rparr>)), brk := Suc (brk s)\<rparr>))"
proof -
  have top: "index2addr (-1) E s' = (Inr (Some (LUData u)), s')"
    if "stk s' = base @ [LUData u]" for s' :: lstate
    by (rule run_index2addr_top) (rule that)
  have below: "index2addr (-2) E s' = (Inr (Some (LUData u)), s')"
    if "stk s' = base @ [LUData u, v]" for s' :: lstate and v
    by (rule run_index2addr_neg [of _ base _ "[v]"]) (use that in simp_all)
  note defs = luv_handle_setup_def lua_touserdata_def luaL_checktype_def lua_type_def
    deref_handle_def lua_setmetatable_def lua_pushvalue_def run_bindM run_thenM run_retM run_failM
    top below luasem butlast_append
  show ?thesis
  proof (cases "malloc_ok E (brk s)")
    case False
    with assms have "\<exists>e. luv_handle_setup E s = (Inl (LuaErr e), s\<lparr>brk := Suc (brk s)\<rparr>)"
      by (simp add: defs)
    then show ?thesis by blast
  next
    case True
    have "\<exists>m. luv_handle_setup E s = (Inr (Some (brk s)),
       s\<lparr>umeta := m, reg := snd (reg_ref (reg s) (LUData u)),
         mem := (mem s)(brk s := Some (BHandle \<lparr>lh_ref = fst (reg_ref (reg s) (LUData u)),
            lh_cb0 = LUA_NOREF, lh_cb1 = LUA_NOREF\<rparr>)), brk := Suc (brk s)\<rparr>)"
      if "(regs s (''uv_'' @ lc) = LTab t \<and> m = Some t) \<or> (regs s (''uv_'' @ lc) = LNil \<and> m = None)"
      for m t
      by (rule exI [of _ "(umeta s)(u := m)"], rule disjE [OF that])
        (simp_all add: defs assms True)
    moreover have "\<exists>f s'. luv_handle_setup E s = (Inl (Crash f), s')"
      if "regs s (''uv_'' @ lc) \<noteq> LNil" "\<And>t. regs s (''uv_'' @ lc) \<noteq> LTab t"
      using that assms True by (cases "regs s (''uv_'' @ lc)") (auto simp: defs)
    ultimately show ?thesis by metis
  qed
qed

lemma wf_setup_handle:
  fixes u :: nat
  assumes wf: "wf s"
  defines "R \<equiv> reg_ref (reg s) (LUData u)"
  defines "d \<equiv> \<lparr>lh_ref = fst R, lh_cb0 = LUA_NOREF, lh_cb1 = LUA_NOREF\<rparr>"
  shows "wf (s\<lparr>umeta := m, reg := snd R, mem := (mem s)(brk s := Some (BHandle d)), brk := Suc (brk s)\<rparr>)"
proof -
  note A = wf_ref [OF wf, of "LUData u", simplified]
  note L = luaref.alloc_live [OF wfD(1) [OF wf], of "LUData u", simplified]
    luaref.alloc_pos [OF wfD(1) [OF wf], of "LUData u", simplified]
  have "block_ok (snd R) (BHandle d)"
    using L by (simp add: d_def R_def block_ok_def pos_refs_def block_refs_def cb_ok_def fun_ref_def)
  moreover have "set (pos_refs (BHandle d)) \<inter> owned (mem s) = {}"
    using A(3) by (auto simp: d_def R_def pos_refs_def block_refs_def)
  ultimately show ?thesis using wf_new_ref_block [OF wf, of "LUData u"] by (simp add: R_def)
qed

text \<open>
  A new handle: the libuv initialiser is the only call in between and leaves the luv state
  alone; the type must have a row in \<^verbatim>\<open>UV_HANDLE_TYPE_MAP\<close>.
\<close>

lemma keep_init_handle:
  assumes ini: "\<And>u. neutral (ini u)" and stk: "\<And>u. leaves stk (ini u)"
    and lc: "handle_lc ty = Some lc"
  shows "keeps E (init_handle ty ini)"
proof (rule keepsI)
  fix s assume w: "wf s"
  let ?u = "nud s"
  define s1 where "s1 = s\<lparr>nud := Suc (nud s), stk := stk s @ [LUData ?u],
      umeta := (umeta s)(?u := None), hnds := (hnds s)(?u := None), rqs := (rqs s)(?u := None)\<rparr>"
  have w1: "wf s1" using w wf_new_udata by (simp add: s1_def)
  have f1: "nud s1 = Suc ?u" "stk s1 = stk s @ [LUData ?u]" by (simp_all add: s1_def)
  obtain x s2 where i: "ini ?u E s1 = (x, s2)" by fastforce
  note c = leavesD [OF ini i]
  have w2: "wf s2" using wf_core [OF c] w1 by blast
  have c2: "nud s2 = Suc ?u" using c f1(1) by (simp add: core_def)
  have k2: "stk s2 = stk s @ [LUData ?u]" using leavesD [OF stk i] f1(2) by metis
  have nu: "lua_newuserdata E s = (Inr ?u, s1)" by (simp add: run_lua_newuserdata s1_def)
  show "case init_handle ty ini E s of (Inl e, s') \<Rightarrow> lua_exc e \<longrightarrow> wf s' | (Inr x, s') \<Rightarrow> wf s'"
  proof (cases "\<exists>r. x = Inr r \<and> 0 \<le> r")
    case False
    have "keeps E (thenM (lua_pop 1) (bindM (luv_error r) (\<lambda>n. retM (Inl n :: nat + nat \<times> nat option))))" for r
      by (rule hw)+
    note k = this [unfolded hoare_def, THEN spec, THEN mp, OF w2]
    show ?thesis
    proof (cases x)
      case (Inl e)
      with w2 show ?thesis by (simp add: init_handle_def run_bindM nu i)
    next
      case (Inr r)
      with False have "init_handle ty ini E s =
          thenM (lua_pop 1) (bindM (luv_error r) (\<lambda>n. retM (Inl n))) E s2"
        by (simp add: init_handle_def run_bindM nu i)
      with k [of r] show ?thesis by simp
    qed
  next
    case True
    then obtain r where x: "x = Inr r" "\<not> r < 0" by auto
    let ?h = "\<lparr>h_type = ty, h_data = None, h_closing = False\<rparr>"
    let ?s3 = "s2\<lparr>hnds := (hnds s2)(?u := Some ?h)\<rparr>"
    have w3: "wf ?s3" using w2 c2 by (intro wf_put_h) auto
    define s4 where "s4 m = ?s3\<lparr>umeta := m, reg := snd (reg_ref (reg ?s3) (LUData ?u)),
        mem := (mem ?s3)(brk ?s3 := Some (BHandle \<lparr>lh_ref = fst (reg_ref (reg ?s3) (LUData ?u)),
            lh_cb0 = LUA_NOREF, lh_cb1 = LUA_NOREF\<rparr>)), brk := Suc (brk ?s3)\<rparr>" for m
    have w4: "wf (s4 m)" for m using wf_setup_handle [OF w3, of ?u m] by (simp add: s4_def)
    note q = luaref.alloc_get [OF wfD(1) [OF w2], of "LUData ?u", simplified]
      luaref.alloc_pos [OF wfD(1) [OF w2], of "LUData ?u", simplified]
    have w5: "wf (s4 m\<lparr>hnds := (hnds (s4 m))(?u := Some
        \<lparr>h_type = ty, h_data = Some (brk s2), h_closing = False\<rparr>)\<rparr>)" for m
      using q c2 by (intro wf_put_h [OF w4]) (auto simp: s4_def h_ptr_ok_def)
    show ?thesis
      using run_setup_handle [of ?s3 "stk s" ?u ?h lc E] lc k2 x wf_brk [OF w3] w5
      by (auto simp: init_handle_def run_bindM run_thenM nu i run_put_h run_retM s4_def)
  qed
qed

text \<open>Initialisers that are one libuv call.\<close>

lemma keep_new_handle_uv [hw]:
  "handle_lc ty = Some lc \<Longrightarrow> (\<And>u d. keeps E (k u d)) \<Longrightarrow>
   keeps E (new_handle_then ty (\<lambda>u. uv f (args u)) k)"
  unfolding new_handle_then_def
  by (rule hoare_bindM, rule keep_init_handle)
    (auto intro!: leavesI hoare_retM simp: luasem neutral_uv split: sum.splits)

subsection \<open>The fields of handles and requests\<close>

lemma keep_put_h:
  assumes "h_data h' = None \<or> h_data h' = h_data h"
  shows "keep E (\<lambda>s. wf s \<and> hnds s u = Some h) (put_h u h') (\<lambda>_. wf)"
proof -
  have "wf (s\<lparr>hnds := (hnds s)(u := Some h')\<rparr>)" if "wf s" "hnds s u = Some h" for s
  proof (rule wf_put_h [OF that(1)])
    show "u < nud s" using wfD(4) [OF that(1), of u] that(2) by (cases "u < nud s") auto
    show "h_ptr_ok s u a" if "h_data h' = Some a" for a
      using wfD(6) [OF \<open>wf s\<close> \<open>hnds s u = Some h\<close>] that assms by auto
  qed
  then show ?thesis by (simp add: hoare_def run_put_h)
qed

lemma keep_put_r:
  assumes "r_data r' = None \<or> r_data r' = r_data r"
  shows "keep E (\<lambda>s. wf s \<and> rqs s u = Some r) (put_r u r') (\<lambda>_. wf)"
proof -
  have "wf (s\<lparr>rqs := (rqs s)(u := Some r')\<rparr>)" if "wf s" "rqs s u = Some r" for s
  proof (rule wf_put_r [OF that(1)])
    show "u < nud s" using wfD(5) [OF that(1), of u] that(2) by (cases "u < nud s") auto
    show "r_ptr_ok s u a" if "r_data r' = Some a" for a
      using wfD(7) [OF \<open>wf s\<close> \<open>rqs s u = Some r\<close>] that assms by auto
  qed
  then show ?thesis by (simp add: hoare_def run_put_r)
qed

text \<open>Reading a handle or request and writing it back with the same \<^verbatim>\<open>data\<close> or none.\<close>

lemma keep_update_h:
  assumes "\<And>h. keep E (\<lambda>s. wf s \<and> hnds s u = Some h) (m h) (\<lambda>_. wf)"
  shows "keeps E (bindM (get_h u) m)"
proof (rule hoare_bindM [where Q = "\<lambda>h s. wf s \<and> hnds s u = Some h"])
  show "keep E wf (get_h u) (\<lambda>h s. wf s \<and> hnds s u = Some h)"
    by (rule hoareI) (auto simp: get_h_def split: option.splits)
qed (rule assms)

lemma keep_update_r:
  assumes "\<And>r. keep E (\<lambda>s. wf s \<and> rqs s u = Some r) (m r) (\<lambda>_. wf)"
  shows "keeps E (bindM (get_r u) m)"
proof (rule hoare_bindM [where Q = "\<lambda>r s. wf s \<and> rqs s u = Some r"])
  show "keep E wf (get_r u) (\<lambda>r s. wf s \<and> rqs s u = Some r)"
    by (rule hoareI) (auto simp: get_r_def split: option.splits)
qed (rule assms)

lemma keep_field_updates [hw]:
  "keeps E (h_data_null u)" "keeps E (r_data_null u)" "keeps E (set_req_type u t)"
  unfolding h_data_null_def r_data_null_def set_req_type_def
  by (rule keep_update_h keep_put_h keep_update_r keep_put_r | simp)+

lemma keep_uv_close [hw]: "keeps E (uv_close u cb)"
proof -
  have uv: "keep E (\<lambda>s. wf s \<and> hnds s u = Some h) (uv_void f args) (\<lambda>_ s. wf s \<and> hnds s u = Some h)"
    for h f args by (simp add: hoare_def run_uv_void)
  show ?thesis
    unfolding uv_close_def
    by (rule keep_update_h hoare_if hoare_thenM uv keep_crash keep_put_h | simp)+
qed

lemma keep_uv_req_call [hw]: "keeps E (uv_req_call req ty f args)"
  unfolding uv_req_call_def by (rule hw)+

lemma keep_heap [hw]: "keeps E (malloc BBuf)" "keeps E (free_block p)"
proof -
  show "keeps E (malloc BBuf)"
    using wf_alloc_block wf_brk wfD(3) by (auto simp: hoare_def run_malloc)
  show "keeps E (free_block p)"
    using wf_free by (auto simp: hoare_def free_block_def split: option.splits)
qed

text \<open>Storing a fresh reference as the data reference of a request.\<close>

lemma wf_set_data_ref:
  assumes w: "wf s" and m: "mem s a = Some (BReq q)"
    and r: "r < 0 \<or> (r \<in> reg_live (reg s) \<and> r \<notin> owned (mem s))"
  shows "wf (s\<lparr>mem := (mem s)(a := Some (BReq (q\<lparr>lr_data_ref := r\<rparr>)))\<rparr>)"
proof (rule wf_put_lr [OF w m])
  let ?q = "q\<lparr>lr_data_ref := r\<rparr>"
  note B = wf_block_ok [OF w m]
  have own: "x \<in> owned (mem s)" if "x \<in> set (pos_refs (BReq q))" for x
    using m that by (force simp: owned_def)
  have new: "set (pos_refs (BReq ?q)) \<subseteq> insert r (set (pos_refs (BReq q)))"
    by (auto simp: pos_refs_def block_refs_def)
  show "block_ok (reg s) (BReq ?q)"
    using B r own by (auto simp: block_ok_def pos_refs_def block_refs_def cb_ok_def)
  have "r \<notin> set (pos_refs (BReq ?q)) \<or> r \<notin> owned (mem s)"
    using r by (auto simp: in_pos_refs)
  with new owned_free [OF w m] show "set (pos_refs (BReq ?q)) \<inter> owned ((mem s)(a := None)) = {}"
    by auto
qed simp

lemma keep_set_data_ref:
  assumes "0 < i"
  shows "keeps E (set_data_ref req i)"
proof (rule keepsI)
  fix s assume w: "wf s"
  define v where "v = (case arg s (nat i) of None \<Rightarrow> LNil | Some v \<Rightarrow> v)"
  define s1 where "s1 = s\<lparr>reg := snd (reg_ref (reg s) v)\<rparr>"
  let ?r = "fst (reg_ref (reg s) v)"
  have w1: "wf s1" and r: "?r < 0 \<or> (?r \<in> reg_live (reg s1) \<and> ?r \<notin> owned (mem s1))"
    using wf_ref [OF w, of v] w by (auto simp: s1_def reg_ref_def)
  have "thenM (lua_pushvalue i) (bindM luaL_ref f) E s = f ?r E s1" for f :: "int \<Rightarrow> unit M"
    using assms by (simp add: luasem run_lua_pushvalue_arg v_def s1_def)
  then show "case set_data_ref req i E s of (Inl e, s') \<Rightarrow> lua_exc e \<longrightarrow> wf s' | (Inr x, s') \<Rightarrow> wf s'"
    using w1 wf_set_data_ref [OF w1 _ r]
    by (auto simp: set_data_ref_def run_bindM get_r_def get_lr_def put_lr_def run_modM
        split: option.splits block.splits)
qed

lemma keep_set_data_ref_nat [hw]:
  "keeps E (set_data_ref req 1)" "keeps E (set_data_ref req (numeral n))"
  by (rule keep_set_data_ref; simp)+

subsection \<open>The functions of the shared components\<close>

lemma keep_luv_handle_close_cb [hw]: "env_ok E \<Longrightarrow> keeps E (luv_handle_close_cb u)"
  unfolding luv_handle_close_cb_def by (rule hw | assumption)+

lemma keep_status_cb [hw]: "env_ok E \<Longrightarrow> keeps E (status_cb u st)"
  unfolding status_cb_def by (rule hw | assumption)+

lemma keep_handle_api:
  "keeps E luv_handle_tostring" "keeps E luv_handle_is_active" "keeps E luv_handle_is_closing"
  "keeps E luv_handle_close" "keeps E luv_handle_ref" "keeps E luv_handle_unref"
  "keeps E luv_handle_has_ref" "keeps E luv_handle_send_buffer_size"
  "keeps E luv_handle_recv_buffer_size" "keeps E luv_handle_fileno"
  unfolding luv_handle_tostring_def luv_handle_is_active_def luv_handle_is_closing_def
    luv_handle_close_def luv_handle_ref_def luv_handle_unref_def luv_handle_has_ref_def
    luv_handle_send_buffer_size_def luv_handle_recv_buffer_size_def luv_handle_fileno_def
  by (rule hw)+

lemma keep_req_api: "keeps E luv_req_tostring" "keeps E luv_req_cancel" "keeps E luv_req_init"
  unfolding luv_req_tostring_def luv_req_cancel_def luv_req_init_def by (rule hw)+

end
