(* ===== verification/Luv_Timer.thy ===== *)
theory Luv_Timer
  imports Luv_Keep
begin

text \<open>
  \<^verbatim>\<open>luv/luv_timer.c\<close>: timers.  The callback slot \<^verbatim>\<open>LUV_TIMEOUT\<close> is the event slot.  Times are
  unsigned 64-bit: a negative Lua integer becomes a large delay.
\<close>

definition luv_timer_check :: "int \<Rightarrow> nat M" where
  "luv_timer_check index = check_handle ''uv_timer'' UV_TIMER ''Expected uv_timer_t'' index"

definition luv_timer_new :: "nat M" where
  "luv_timer_new = new_handle UV_TIMER (\<lambda>u. uv ''uv_timer_init'' [AObj u])"

definition luv_timer_cb :: "nat \<Rightarrow> unit M" where
  "luv_timer_cb u = bindM (handle_data u) (\<lambda>data. luv_callback_call data LUV_EVENT 0)"

definition luv_timer_start :: "nat M" where
  "luv_timer_start =
     bindM (luv_timer_check 1) (\<lambda>u.
     bindM (luaL_checkinteger 2) (\<lambda>timeout.
     bindM (luaL_checkinteger 3) (\<lambda>repeat.
     bindM (handle_data u) (\<lambda>data.
     thenM (luv_callback_check data LUV_EVENT 4)
     (bindM (uv ''uv_timer_start''
         [AObj u, AFn ''luv_timer_cb'', AInt (c_uint64 timeout), AInt (c_uint64 repeat)])
       ret_integer)))))"

definition luv_timer_stop :: "nat M" where
  "luv_timer_stop = bindM (luv_timer_check 1) (\<lambda>u. bindM (uv ''uv_timer_stop'' [AObj u]) ret_integer)"

definition luv_timer_again :: "nat M" where
  "luv_timer_again = bindM (luv_timer_check 1) (\<lambda>u. bindM (uv ''uv_timer_again'' [AObj u]) ret_integer)"

definition luv_timer_set_repeat :: "nat M" where
  "luv_timer_set_repeat =
     bindM (luv_timer_check 1) (\<lambda>u. bindM (luaL_checkinteger 2) (\<lambda>repeat.
       thenM (uv_void ''uv_timer_set_repeat'' [AObj u, AInt (c_uint64 repeat)]) (retM 0)))"

definition luv_timer_get_repeat :: "nat M" where
  "luv_timer_get_repeat =
     bindM (luv_timer_check 1) (\<lambda>u. bindM (uv ''uv_timer_get_repeat'' [AObj u]) (\<lambda>repeat.
       thenM (lua_pushinteger (c_uint64 repeat)) (retM 1)))"

subsection \<open>Properties\<close>

lemma keep_timer_api:
  "keeps E luv_timer_new" "keeps E luv_timer_start" "keeps E luv_timer_stop"
  "keeps E luv_timer_again" "keeps E luv_timer_set_repeat" "keeps E luv_timer_get_repeat"
  unfolding luv_timer_new_def luv_timer_start_def luv_timer_stop_def luv_timer_again_def
    luv_timer_set_repeat_def luv_timer_get_repeat_def luv_timer_check_def
  by (rule hw handle_lc.simps)+

lemma keep_luv_timer_cb: "env_ok E \<Longrightarrow> keeps E (luv_timer_cb u)"
  unfolding luv_timer_cb_def by (rule hw | assumption)+

end
