(* ===== verification/Luv_Watchers.thy ===== *)
theory Luv_Watchers
  imports Luv_Keep
begin

text \<open>
  \<^verbatim>\<open>luv/luv_prepare.c\<close>, \<^verbatim>\<open>luv/luv_check.c\<close>, \<^verbatim>\<open>luv/luv_idle.c\<close>, \<^verbatim>\<open>luv/luv_async.c\<close> and
  \<^verbatim>\<open>luv/luv_poll.c\<close>: the watchers of the loop's phases, the wake-up handle and the poll
  handle.  All use the event slot for their callback.
\<close>

subsection \<open>Prepare\<close>

definition luv_prepare_check :: "int \<Rightarrow> nat M" where
  "luv_prepare_check index = check_handle ''uv_prepare'' UV_PREPARE ''Expected uv_prepare_t'' index"

definition luv_prepare_new :: "nat M" where
  "luv_prepare_new = new_handle UV_PREPARE (\<lambda>u. uv ''uv_prepare_init'' [AObj u])"

definition luv_prepare_cb :: "nat \<Rightarrow> unit M" where
  "luv_prepare_cb u = bindM (handle_data u) (\<lambda>data. luv_callback_call data LUV_EVENT 0)"

definition luv_prepare_start :: "nat M" where
  "luv_prepare_start =
     bindM (luv_prepare_check 1) (\<lambda>u. bindM (handle_data u) (\<lambda>data.
     thenM (luv_callback_check data LUV_EVENT 2)
     (bindM (uv ''uv_prepare_start'' [AObj u, AFn ''luv_prepare_cb'']) ret_integer)))"

definition luv_prepare_stop :: "nat M" where
  "luv_prepare_stop =
     bindM (luv_prepare_check 1) (\<lambda>u. bindM (uv ''uv_prepare_stop'' [AObj u]) ret_integer)"

subsection \<open>Check\<close>

definition luv_check_check :: "int \<Rightarrow> nat M" where
  "luv_check_check index = check_handle ''uv_check'' UV_CHECK ''Expected uv_check_t'' index"

definition luv_check_new :: "nat M" where
  "luv_check_new = new_handle UV_CHECK (\<lambda>u. uv ''uv_check_init'' [AObj u])"

definition luv_check_cb :: "nat \<Rightarrow> unit M" where
  "luv_check_cb u = bindM (handle_data u) (\<lambda>data. luv_callback_call data LUV_EVENT 0)"

definition luv_check_start :: "nat M" where
  "luv_check_start =
     bindM (luv_check_check 1) (\<lambda>u. bindM (handle_data u) (\<lambda>data.
     thenM (luv_callback_check data LUV_EVENT 2)
     (bindM (uv ''uv_check_start'' [AObj u, AFn ''luv_check_cb'']) ret_integer)))"

definition luv_check_stop :: "nat M" where
  "luv_check_stop = bindM (luv_check_check 1) (\<lambda>u. bindM (uv ''uv_check_stop'' [AObj u]) ret_integer)"

subsection \<open>Idle\<close>

definition luv_idle_check :: "int \<Rightarrow> nat M" where
  "luv_idle_check index = check_handle ''uv_idle'' UV_IDLE ''Expected uv_idle_t'' index"

definition luv_idle_new :: "nat M" where
  "luv_idle_new = new_handle UV_IDLE (\<lambda>u. uv ''uv_idle_init'' [AObj u])"

definition luv_idle_cb :: "nat \<Rightarrow> unit M" where
  "luv_idle_cb u = bindM (handle_data u) (\<lambda>data. luv_callback_call data LUV_EVENT 0)"

definition luv_idle_start :: "nat M" where
  "luv_idle_start =
     bindM (luv_idle_check 1) (\<lambda>u. bindM (handle_data u) (\<lambda>data.
     thenM (luv_callback_check data LUV_EVENT 2)
     (bindM (uv ''uv_idle_start'' [AObj u, AFn ''luv_idle_cb'']) ret_integer)))"

definition luv_idle_stop :: "nat M" where
  "luv_idle_stop = bindM (luv_idle_check 1) (\<lambda>u. bindM (uv ''uv_idle_stop'' [AObj u]) ret_integer)"

subsection \<open>Async\<close>

definition luv_async_check :: "int \<Rightarrow> nat M" where
  "luv_async_check index = check_handle ''uv_async'' UV_ASYNC ''Expected uv_async_t'' index"

definition luv_async_cb :: "nat \<Rightarrow> unit M" where
  "luv_async_cb u = bindM (handle_data u) (\<lambda>data. luv_callback_call data LUV_EVENT 0)"

definition luv_async_new :: "nat M" where
  "luv_async_new =
     thenM (luaL_checktype 1 TFUNCTION)
     (new_handle_then UV_ASYNC (\<lambda>u. uv ''uv_async_init'' [AObj u, AFn ''luv_async_cb''])
       (\<lambda>u data. thenM (luv_callback_check data LUV_EVENT 1) (retM 1)))"

definition luv_async_send :: "nat M" where
  "luv_async_send = bindM (luv_async_check 1) (\<lambda>u. bindM (uv ''uv_async_send'' [AObj u]) ret_integer)"

subsection \<open>Poll\<close>

text \<open>\<^verbatim>\<open>UV_READABLE\<close> is 1 and \<^verbatim>\<open>UV_WRITABLE\<close> is 2.\<close>

definition luv_pollevents :: "string list" where
  "luv_pollevents = [''r'', ''w'', ''rw'']"

definition luv_poll_check :: "int \<Rightarrow> nat M" where
  "luv_poll_check index = check_handle ''uv_poll'' UV_POLL ''Expected uv_poll_t'' index"

definition luv_poll_new :: "nat M" where
  "luv_poll_new = bindM (check_c_int 1) (\<lambda>fd.
     new_handle UV_POLL (\<lambda>u. uv ''uv_poll_init'' [AObj u, AInt fd]))"

definition poll_evtstr :: "int \<Rightarrow> string" where
  "poll_evtstr events = (if events = 1 then ''r'' else if events = 2 then ''w''
     else if events = 3 then ''rw'' else '''')"

definition luv_poll_cb :: "nat \<Rightarrow> int \<Rightarrow> int \<Rightarrow> unit M" where
  "luv_poll_cb u status events =
     bindM (handle_data u) (\<lambda>data.
     thenM (luv_status status)
     (thenM (lua_pushstring (Some (poll_evtstr events)))
     (luv_callback_call data LUV_EVENT 2)))"

definition poll_events :: "nat \<Rightarrow> int" where
  "poll_events k = (if k = 1 then 2 else if k = 2 then 3 else 1)"

definition luv_poll_start :: "nat M" where
  "luv_poll_start =
     bindM (luv_poll_check 1) (\<lambda>u.
     bindM (luaL_checkoption 2 (Some ''rw'') luv_pollevents) (\<lambda>k.
     bindM (handle_data u) (\<lambda>data.
     thenM (luv_callback_check data LUV_EVENT 3)
     (bindM (uv ''uv_poll_start'' [AObj u, AInt (poll_events k), AFn ''luv_poll_cb''])
       ret_integer))))"

definition luv_poll_stop :: "nat M" where
  "luv_poll_stop = bindM (luv_poll_check 1) (\<lambda>u. bindM (uv ''uv_poll_stop'' [AObj u]) ret_integer)"

subsection \<open>Properties\<close>

text \<open>What \<^verbatim>\<open>luv_poll_start\<close> asks libuv for is what \<^verbatim>\<open>luv_poll_cb\<close> reports for those events.\<close>

lemma poll_events_roundtrip:
  "k < length luv_pollevents \<Longrightarrow> poll_evtstr (poll_events k) = luv_pollevents ! k"
  by (auto simp: luv_pollevents_def poll_evtstr_def poll_events_def nth_Cons split: nat.splits)

lemma keep_watcher_new:
  "keeps E luv_prepare_new" "keeps E luv_check_new" "keeps E luv_idle_new" "keeps E luv_async_new"
  "keeps E luv_poll_new"
  unfolding luv_prepare_new_def luv_check_new_def luv_idle_new_def luv_async_new_def luv_poll_new_def
  by (rule hw handle_lc.simps)+

lemma keep_watcher_start:
  "keeps E luv_prepare_start" "keeps E luv_check_start" "keeps E luv_idle_start"
  "keeps E luv_async_send" "keeps E luv_poll_start"
  unfolding luv_prepare_start_def luv_prepare_check_def luv_check_start_def luv_check_check_def
    luv_idle_start_def luv_idle_check_def luv_async_send_def luv_async_check_def
    luv_poll_start_def luv_poll_check_def
  by (rule hw)+

lemma keep_watcher_stop:
  "keeps E luv_prepare_stop" "keeps E luv_check_stop" "keeps E luv_idle_stop"
  "keeps E luv_poll_stop"
  unfolding luv_prepare_stop_def luv_prepare_check_def luv_check_stop_def luv_check_check_def
    luv_idle_stop_def luv_idle_check_def luv_poll_stop_def luv_poll_check_def
  by (rule hw)+

lemma keep_watcher_cb:
  assumes "env_ok E"
  shows "keeps E (luv_prepare_cb u)" "keeps E (luv_check_cb u)" "keeps E (luv_idle_cb u)"
    "keeps E (luv_async_cb u)" "keeps E (luv_poll_cb u st ev)"
  unfolding luv_prepare_cb_def luv_check_cb_def luv_idle_cb_def luv_async_cb_def luv_poll_cb_def
  by (rule hw assms)+

end
