(* ===== verification/Luv_Constants.thy ===== *)
theory Luv_Constants
  imports Luv_Keep
begin

text \<open>
  \<^verbatim>\<open>luv/luv_constants.c\<close>: the table of platform constants and the translations between the
  names luv uses and the platform's numbers.  Which macros are defined and their values
  belong to the platform: \<open>cst E\<close> answers them, and an \<^verbatim>\<open>#ifdef\<close> is the case \<open>None\<close>.
\<close>

subsection \<open>The table of constants\<close>

definition push_const :: "string \<Rightarrow> unit M" where
  "push_const n = bindM (askM (\<lambda>E. cst E n)) (\<lambda>v. case v of None \<Rightarrow> retM ()
     | Some k \<Rightarrow> thenM (lua_pushinteger k) (lua_setfield (-2) n))"

definition open_flags :: "string list" where
  "open_flags = [''O_RDONLY'', ''O_WRONLY'', ''O_RDWR'', ''O_APPEND'', ''O_CREAT'', ''O_DSYNC'',
     ''O_EXCL'', ''O_EXLOCK'', ''O_NOCTTY'', ''O_NONBLOCK'', ''O_RSYNC'', ''O_SYNC'',
     ''O_TRUNC'']"

definition sock_types :: "string list" where
  "sock_types = [''SOCK_STREAM'', ''SOCK_DGRAM'', ''SOCK_SEQPACKET'', ''SOCK_RAW'', ''SOCK_RDM'']"

definition address_families :: "string list" where
  "address_families = [''AF_UNIX'', ''AF_INET'', ''AF_INET6'', ''AF_IPX'', ''AF_NETLINK'', ''AF_X25'',
     ''AF_AX25'', ''AF_ATMPVC'', ''AF_APPLETALK'', ''AF_PACKET'']"

definition addrinfo_flags :: "string list" where
  "addrinfo_flags = [''AI_ADDRCONFIG'', ''AI_V4MAPPED'', ''AI_ALL'', ''AI_NUMERICHOST'', ''AI_PASSIVE'',
     ''AI_NUMERICSERV'']"

definition signal_names :: "string list" where
  "signal_names = [''SIGHUP'', ''SIGINT'', ''SIGQUIT'', ''SIGILL'', ''SIGTRAP'', ''SIGABRT'',
     ''SIGIOT'', ''SIGBUS'', ''SIGFPE'', ''SIGKILL'', ''SIGUSR1'', ''SIGSEGV'',
     ''SIGUSR2'', ''SIGPIPE'', ''SIGALRM'', ''SIGTERM'', ''SIGCHLD'', ''SIGSTKFLT'',
     ''SIGCONT'', ''SIGSTOP'', ''SIGTSTP'', ''SIGBREAK'', ''SIGTTIN'', ''SIGTTOU'',
     ''SIGURG'', ''SIGXCPU'', ''SIGXFSZ'', ''SIGVTALRM'', ''SIGPROF'', ''SIGWINCH'',
     ''SIGIO'', ''SIGPOLL'', ''SIGLOST'', ''SIGPWR'', ''SIGSYS'']"

definition constant_names :: "string list" where
  "constant_names = open_flags @ sock_types @ address_families @ addrinfo_flags @ signal_names"

definition luv_constants :: "nat M" where
  "luv_constants = thenM lua_newtable (thenM (seqM (map push_const constant_names)) (retM 1))"

subsection \<open>Names and numbers\<close>

text \<open>
  Rows of macro and name.  A chain of \<^verbatim>\<open>strcmp\<close> tests and a \<^verbatim>\<open>switch\<close> both take the first
  row that matches among those whose macro is defined.
\<close>

fun string_to_num :: "(string \<Rightarrow> int option) \<Rightarrow> (string \<times> string) list \<Rightarrow> string \<Rightarrow> int" where
  "string_to_num c [] t = 0"
| "string_to_num c ((m, n) # rows) t = (case c m of
      Some k \<Rightarrow> if t = n then k else string_to_num c rows t
    | None \<Rightarrow> string_to_num c rows t)"

fun num_to_string :: "(string \<Rightarrow> int option) \<Rightarrow> (string \<times> string) list \<Rightarrow> int \<Rightarrow> string option" where
  "num_to_string c [] k = None"
| "num_to_string c ((m, n) # rows) k = (if c m = Some k then Some n else num_to_string c rows k)"

definition af_rows :: "(string \<times> string) list" where
  "af_rows = [(''AF_UNIX'', ''unix''), (''AF_INET'', ''inet''), (''AF_INET6'', ''inet6''),
     (''AF_IPX'', ''ipx''), (''AF_NETLINK'', ''netlink''), (''AF_X25'', ''x25''),
     (''AF_AX25'', ''ax25''), (''AF_ATMPVC'', ''atmpvc''),
     (''AF_APPLETALK'', ''appletalk''), (''AF_PACKET'', ''packet'')]"

definition ai_rows :: "(string \<times> string) list" where
  "ai_rows = [(''AI_ADDRCONFIG'', ''addrconfig''), (''AI_V4MAPPED'', ''v4mapped''),
     (''AI_ALL'', ''all''), (''AI_NUMERICHOST'', ''numerichost''),
     (''AI_PASSIVE'', ''passive''), (''AI_NUMERICSERV'', ''numericserv'')]"

definition sock_rows :: "(string \<times> string) list" where
  "sock_rows = [(''SOCK_STREAM'', ''stream''), (''SOCK_DGRAM'', ''dgram''),
     (''SOCK_SEQPACKET'', ''seqpacket''), (''SOCK_RAW'', ''raw''),
     (''SOCK_RDM'', ''rdm'')]"

definition sig_rows :: "(string \<times> string) list" where
  "sig_rows = [(''SIGHUP'', ''sighup''), (''SIGINT'', ''sigint''), (''SIGQUIT'', ''sigquit''),
     (''SIGILL'', ''sigill''), (''SIGTRAP'', ''sigtrap''), (''SIGABRT'', ''sigabrt''),
     (''SIGIOT'', ''sigiot''), (''SIGBUS'', ''sigbus''), (''SIGFPE'', ''sigfpe''),
     (''SIGKILL'', ''sigkill''), (''SIGUSR1'', ''sigusr1''), (''SIGSEGV'', ''sigsegv''),
     (''SIGUSR2'', ''sigusr2''), (''SIGPIPE'', ''sigpipe''), (''SIGALRM'', ''sigalrm''),
     (''SIGTERM'', ''sigterm''), (''SIGCHLD'', ''sigchld''),
     (''SIGSTKFLT'', ''sigstkflt''), (''SIGCONT'', ''sigcont''),
     (''SIGSTOP'', ''sigstop''), (''SIGTSTP'', ''sigtstp''),
     (''SIGBREAK'', ''sigbreak''), (''SIGTTIN'', ''sigttin''),
     (''SIGTTOU'', ''sigttou''), (''SIGURG'', ''sigurg''), (''SIGXCPU'', ''sigxcpu''),
     (''SIGXFSZ'', ''sigxfsz''), (''SIGVTALRM'', ''sigvtalrm''),
     (''SIGPROF'', ''sigprof''), (''SIGWINCH'', ''sigwinch''), (''SIGIO'', ''sigio''),
     (''SIGPOLL'', ''sigpoll''), (''SIGLOST'', ''siglost''), (''SIGPWR'', ''sigpwr''),
     (''SIGSYS'', ''sigsys'')]"

text \<open>The value a macro has in a preprocessor condition: 0 when it is not defined.\<close>

definition cpp :: "env \<Rightarrow> string \<Rightarrow> int" where
  "cpp E m = (case cst E m of None \<Rightarrow> 0 | Some k \<Rightarrow> k)"

text \<open>The three rows \<^verbatim>\<open>#if\<close> drops from the \<^verbatim>\<open>switch\<close> when two signals share a number.\<close>

definition sig_case_kept :: "env \<Rightarrow> string \<Rightarrow> bool" where
  "sig_case_kept E m = (if m = ''SIGIOT'' then cpp E ''SIGIOT'' \<noteq> cpp E ''SIGABRT''
     else if m = ''SIGPOLL'' then cpp E ''SIGPOLL'' \<noteq> cpp E ''SIGIO''
     else if m = ''SIGPWR'' then cpp E ''SIGPWR'' \<noteq> cpp E ''SIGLOST'' else True)"

definition sig_cases :: "env \<Rightarrow> (string \<times> string) list" where
  "sig_cases E = filter (\<lambda>(m, n). sig_case_kept E m) sig_rows"

definition luv_af_string_to_num :: "env \<Rightarrow> string option \<Rightarrow> int" where
  "luv_af_string_to_num E t = (case t of None \<Rightarrow> cpp E ''AF_UNSPEC''
     | Some t \<Rightarrow> string_to_num (cst E) af_rows t)"

definition luv_af_num_to_string :: "env \<Rightarrow> int \<Rightarrow> string option" where
  "luv_af_num_to_string E k = num_to_string (cst E) af_rows k"

definition luv_ai_string_to_num :: "env \<Rightarrow> string option \<Rightarrow> int" where
  "luv_ai_string_to_num E t = (case t of None \<Rightarrow> 0 | Some t \<Rightarrow> string_to_num (cst E) ai_rows t)"

definition luv_ai_num_to_string :: "env \<Rightarrow> int \<Rightarrow> string option" where
  "luv_ai_num_to_string E k = num_to_string (cst E) ai_rows k"

definition luv_sock_string_to_num :: "env \<Rightarrow> string option \<Rightarrow> int" where
  "luv_sock_string_to_num E t = (case t of None \<Rightarrow> 0 | Some t \<Rightarrow> string_to_num (cst E) sock_rows t)"

definition luv_sock_num_to_string :: "env \<Rightarrow> int \<Rightarrow> string option" where
  "luv_sock_num_to_string E k = num_to_string (cst E) sock_rows k"

definition luv_sig_string_to_num :: "env \<Rightarrow> string option \<Rightarrow> int" where
  "luv_sig_string_to_num E t = (case t of None \<Rightarrow> 0 | Some t \<Rightarrow> string_to_num (cst E) sig_rows t)"

definition luv_sig_num_to_string :: "env \<Rightarrow> int \<Rightarrow> string option" where
  "luv_sig_num_to_string E k = num_to_string (cst E) (sig_cases E) k"

subsection \<open>The contract of the name tables\<close>

text \<open>
  What the callers rely on: a table has each name once, and some of its rows (those \<open>kept\<close>)
  are used for the way back.
\<close>

locale name_table =
  fixes rows :: "(string \<times> string) list" and kept :: "env \<Rightarrow> string \<Rightarrow> bool"
  assumes names_distinct: "distinct (map snd rows)"
begin

lemma decode_encode:
  assumes "num_to_string c (filter (\<lambda>(m, n). kept E m) rows) k = Some t"
  shows "string_to_num c rows t = k"
proof -
  have "num_to_string c (filter (\<lambda>(m, n). kept E m) xs) k = Some t \<Longrightarrow> distinct (map snd xs) \<Longrightarrow>
      string_to_num c xs t = k \<and> t \<in> set (map snd xs)" for xs
  proof (induction xs)
    case (Cons x xs)
    then show ?case by (cases x) (auto split: if_splits option.splits)
  qed simp
  with assms names_distinct show ?thesis by blast
qed

lemma encode_decode:
  assumes "(m, n) \<in> set rows" "c m = Some k" "kept E m"
    and "\<And>m' n'. (m', n') \<in> set rows \<Longrightarrow> kept E m' \<Longrightarrow> c m' = Some k \<Longrightarrow> n' = n"
  shows "num_to_string c (filter (\<lambda>(m, n). kept E m) rows) (string_to_num c rows n) = Some n"
proof -
  have "string_to_num c xs n = k" if "(m, n) \<in> set xs" "distinct (map snd xs)" for xs
    using that
  proof (induction xs)
    case (Cons x xs)
    then show ?case using assms(2) by (cases x) (force split: option.splits)
  qed simp
  then have dec: "string_to_num c rows n = k" using assms(1) names_distinct by blast
  have row: "\<exists>m'. (m', t) \<in> set xs \<and> kept E m' \<and> c m' = Some k"
    if "num_to_string c (filter (\<lambda>(m, n). kept E m) xs) k = Some t" for xs t
    using that
  proof (induction xs)
    case (Cons x xs)
    then show ?case by (cases x) (auto split: if_splits)
  qed simp
  have some: "num_to_string c (filter (\<lambda>(m, n). kept E m) xs) k \<noteq> None" if "(m, n) \<in> set xs" for xs
    using that
  proof (induction xs)
    case (Cons x xs)
    then show ?case using assms(2,3) by (cases x) auto
  qed simp
  obtain t where "num_to_string c (filter (\<lambda>(m, n). kept E m) rows) k = Some t"
    using some [OF assms(1)] by auto
  moreover from row [OF this] have "t = n" using assms(4) by blast
  ultimately show ?thesis by (simp add: dec)
qed

end

interpretation af: name_table af_rows "\<lambda>E m. True"
  by unfold_locales (simp add: af_rows_def)

interpretation ai: name_table ai_rows "\<lambda>E m. True"
  by unfold_locales (simp add: ai_rows_def)

interpretation sock: name_table sock_rows "\<lambda>E m. True"
  by unfold_locales (simp add: sock_rows_def)

interpretation sig: name_table sig_rows sig_case_kept
  by unfold_locales (simp add: sig_rows_def)

text \<open>A number that has a name is what the name stands for; no assumption on the platform.\<close>

lemma num_string_num:
  "luv_af_num_to_string E k = Some t \<Longrightarrow> luv_af_string_to_num E (Some t) = k"
  "luv_ai_num_to_string E k = Some t \<Longrightarrow> luv_ai_string_to_num E (Some t) = k"
  "luv_sock_num_to_string E k = Some t \<Longrightarrow> luv_sock_string_to_num E (Some t) = k"
  "luv_sig_num_to_string E k = Some t \<Longrightarrow> luv_sig_string_to_num E (Some t) = k"
  using af.decode_encode [of "cst E" k t] ai.decode_encode [of "cst E" k t]
    sock.decode_encode [of "cst E" k t] sig.decode_encode [of "cst E" E k t]
  by (simp_all add: luv_af_num_to_string_def luv_af_string_to_num_def luv_ai_num_to_string_def
      luv_ai_string_to_num_def luv_sock_num_to_string_def luv_sock_string_to_num_def
      luv_sig_num_to_string_def luv_sig_string_to_num_def sig_cases_def)

subsection \<open>The contents of the table\<close>

definition const_entry :: "env \<Rightarrow> string \<Rightarrow> lval" where
  "const_entry E n = (case cst E n of None \<Rightarrow> LNil | Some k \<Rightarrow> LInt (c_int64 k))"

fun put_consts :: "env \<Rightarrow> string list \<Rightarrow> ltable \<Rightarrow> ltable" where
  "put_consts E [] T = T"
| "put_consts E (n # ns) T = put_consts E ns
     (case cst E n of None \<Rightarrow> T | Some k \<Rightarrow> tset T (LStr n) (LInt (c_int64 k)))"

lemma tget_put_consts:
  "tget (put_consts E ns T) (LStr n) =
     (if n \<in> set ns \<and> cst E n \<noteq> None then const_entry E n else tget T (LStr n))"
  by (induction ns arbitrary: T) (auto simp: const_entry_def split: option.splits)

lemma run_push_consts:
  "stk s = base @ [LTab t] \<Longrightarrow> seqM (map push_const ns) E s =
     (Inr (), s\<lparr>tabs := (tabs s)(t := put_consts E ns (tabs s t))\<rparr>)"
proof (induction ns arbitrary: s)
  case (Cons n ns)
  show ?case
  proof (cases "cst E n")
    case None
    with Cons show ?thesis by (simp add: luasem push_const_def)
  next
    case (Some k)
    let ?s = "s\<lparr>tabs := (tabs s)(t := tset (tabs s t) (LStr n) (LInt (c_int64 k)))\<rparr>"
    have "push_const n E s = (Inr (), ?s)"
      using Cons.prems Some
      by (simp add: push_const_def luasem run_lua_setfield [where base = base and t = t])
    then have "seqM (map push_const (n # ns)) E s = seqM (map push_const ns) E ?s" (is "_ = ?r")
      by (simp add: run_thenM)
    also have "?r = (Inr (), ?s\<lparr>tabs := (tabs ?s)(t := put_consts E ns (tabs ?s t))\<rparr>)"
      by (rule Cons.IH) (simp add: Cons.prems)
    also have "... = (Inr (), s\<lparr>tabs := (tabs s)(t := put_consts E (n # ns) (tabs s t))\<rparr>)"
      unfolding put_consts.simps Some by (simp del: fun_upd_apply add: fun_upd_same)
    finally show ?thesis .
  qed
qed (simp add: luasem)

lemma neutral_push_const [neu]: "neutral (push_const n)"
  unfolding push_const_def by (intro neu)

lemma keep_luv_constants: "keeps E luv_constants"
proof -
  have "neutral luv_constants"
    unfolding luv_constants_def by (intro neu leaves_seqM) (auto intro: neutral_push_const)
  then show ?thesis by (rule keep_neutral [OF _ stable_wf])
qed

end
