(* ===== verification/Luv_Signal.thy ===== *)
theory Luv_Signal
  imports Luv_Constants
begin

text \<open>\<^verbatim>\<open>luv/luv_signal.c\<close>: signal handles, which accept a number or a name.\<close>

definition luv_signal_check :: "int \<Rightarrow> nat M" where
  "luv_signal_check index = check_handle ''uv_signal'' UV_SIGNAL ''Expected uv_signal_t'' index"

definition luv_signal_new :: "nat M" where
  "luv_signal_new = new_handle UV_SIGNAL (\<lambda>u. uv ''uv_signal_init'' [AObj u])"

definition luv_signal_cb :: "nat \<Rightarrow> int \<Rightarrow> unit M" where
  "luv_signal_cb u signum =
     bindM (handle_data u) (\<lambda>data.
     thenM (bindM (askM (\<lambda>E. luv_sig_num_to_string E signum)) lua_pushstring)
     (luv_callback_call data LUV_EVENT 1))"

text \<open>The signal argument, used by \<^verbatim>\<open>luv_signal_start\<close>.\<close>

definition signal_arg :: "int M" where
  "signal_arg =
     bindM (lua_isnumber 2) (\<lambda>isnum.
       if isnum then bindM (lua_tointeger 2) (\<lambda>n. retM (c_int n))
       else bindM (lua_isstring 2) (\<lambda>isstr.
         if isstr then
           bindM (luaL_checkstring 2) (\<lambda>t.
           bindM (askM (\<lambda>E. luv_sig_string_to_num E (Some t))) (\<lambda>signum.
           thenM (luaL_argcheck (signum \<noteq> 0) 2 ''Invalid Signal name'') (retM signum)))
         else luaL_argerror 2 ''Missing Signal name''))"

definition luv_signal_start :: "nat M" where
  "luv_signal_start =
     bindM (luv_signal_check 1) (\<lambda>u.
     bindM signal_arg (\<lambda>signum.
     bindM (lua_isnoneornil 3) (\<lambda>nocb.
     thenM (if nocb then retM () else bindM (handle_data u) (\<lambda>data. luv_callback_check data LUV_EVENT 3))
     (bindM (uv ''uv_signal_start'' [AObj u, AFn ''luv_signal_cb'', AInt signum]) ret_integer))))"

definition luv_signal_stop :: "nat M" where
  "luv_signal_stop = bindM (luv_signal_check 1) (\<lambda>u. bindM (uv ''uv_signal_stop'' [AObj u]) ret_integer)"

subsection \<open>Properties\<close>

lemma neutral_signal_arg: "neutral signal_arg"
  unfolding signal_arg_def by (intro neu)

lemmas keep_signal_arg [hw] = neutral_signal_arg [THEN keep_neutral]

lemma keep_signal_api:
  "keeps E luv_signal_new" "keeps E luv_signal_start" "keeps E luv_signal_stop"
  unfolding luv_signal_new_def luv_signal_start_def luv_signal_stop_def luv_signal_check_def
  by (rule hw handle_lc.simps)+

lemma keep_luv_signal_cb: "env_ok E \<Longrightarrow> keeps E (luv_signal_cb u n)"
  unfolding luv_signal_cb_def by (rule hw | assumption)+

end
