(* ===== verification/Luv_Stream.thy ===== *)
theory Luv_Stream
  imports Luv_Keep
begin

text \<open>
  \<^verbatim>\<open>luv/luv_stream.c\<close>: the operations TCP sockets, pipes and terminals share.  A stream is
  recognised by its metatable alone: unlike the other checks, \<^verbatim>\<open>luv_stream_check\<close> does not
  ask whether \<^verbatim>\<open>handle->data\<close> is still there.
\<close>

definition luv_stream_check :: "int \<Rightarrow> nat M" where
  "luv_stream_check index =
     bindM (lua_touserdata index) (\<lambda>p. case p of
       None \<Rightarrow> luaL_argerror index ''Expected uv_stream userdata''
     | Some handle \<Rightarrow> bindM (meta_in_set index ''uv_stream'') (\<lambda>isStream.
         if isStream then as_handle handle
         else luaL_argerror index ''Expected uv_stream userdata''))"

definition luv_stream_shutdown_cb :: "nat \<Rightarrow> int \<Rightarrow> unit M" where
  "luv_stream_shutdown_cb req status = status_cb req status"

text \<open>The error path of the request functions: the userdata is popped, nothing is released.\<close>

definition req_result :: "int \<Rightarrow> nat M \<Rightarrow> nat M" where
  "req_result ret k = (if ret < 0 then thenM (lua_pop 1) (luv_error ret) else k)"

definition luv_stream_shutdown :: "nat M" where
  "luv_stream_shutdown =
     bindM (luv_stream_check 1) (\<lambda>handle.
     bindM (luv_req_check_continuation 2) (\<lambda>ref.
     bindM (new_req ref) (\<lambda>req.
     bindM (uv_req_call req UV_SHUTDOWN ''uv_shutdown''
         [AObj req, AObj handle, AFn ''luv_stream_shutdown_cb''])
       (\<lambda>ret. req_result ret (retM 1)))))"

definition luv_stream_connection_cb :: "nat \<Rightarrow> int \<Rightarrow> unit M" where
  "luv_stream_connection_cb handle status =
     thenM (luv_status status)
     (bindM (handle_data handle) (\<lambda>data. luv_callback_call data LUV_EVENT 1))"

definition luv_stream_listen :: "nat M" where
  "luv_stream_listen =
     bindM (luv_stream_check 1) (\<lambda>handle.
     bindM (check_c_int 2) (\<lambda>backlog.
     bindM (handle_data handle) (\<lambda>data.
     thenM (luv_callback_check data LUV_EVENT 3)
     (bindM (uv ''uv_listen'' [AObj handle, AInt backlog, AFn ''luv_stream_connection_cb''])
       ret_integer))))"

definition luv_stream_accept :: "nat M" where
  "luv_stream_accept =
     bindM (luv_stream_check 1) (\<lambda>server. bindM (luv_stream_check 2) (\<lambda>client.
     bindM (uv ''uv_accept'' [AObj server, AObj client]) ret_integer))"

text \<open>The buffer libuv reads into.\<close>

definition luv_stream_alloc_cb :: "nat \<Rightarrow> (nat option \<times> nat) M" where
  "luv_stream_alloc_cb suggested_size =
     bindM (malloc BBuf) (\<lambda>p. if p = None then crash Assert_failed else retM (p, suggested_size))"

text \<open>\<open>base\<close> is the block of the buffer and \<open>bytes\<close> what libuv has read into it.\<close>

definition luv_stream_read_cb :: "nat \<Rightarrow> int \<Rightarrow> nat option \<Rightarrow> string \<Rightarrow> unit M" where
  "luv_stream_read_cb handle nread base bytes =
     thenM (if 0 < nread then thenM lua_pushnil (lua_pushlstring (take (nat nread) bytes)) else retM ())
     (thenM (free_block base)
     (if nread = 0 then retM ()
      else bindM (askM (\<lambda>E. cst E ''UV__EOF'')) (\<lambda>eof.
        bindM (if Some nread = eof then retM 0
               else if nread < 0 then thenM (luv_status nread) (retM 1) else retM 2) (\<lambda>nargs.
        bindM (handle_data handle) (\<lambda>data. luv_callback_call data LUV_EVENT nargs)))))"

definition luv_stream_read_start :: "nat M" where
  "luv_stream_read_start =
     bindM (luv_stream_check 1) (\<lambda>handle. bindM (handle_data handle) (\<lambda>data.
     thenM (luv_callback_check data LUV_EVENT 2)
     (bindM (uv ''uv_read_start''
         [AObj handle, AFn ''luv_stream_alloc_cb'', AFn ''luv_stream_read_cb'']) ret_integer)))"

definition luv_stream_read_stop :: "nat M" where
  "luv_stream_read_stop =
     bindM (luv_stream_check 1) (\<lambda>handle. bindM (uv ''uv_read_stop'' [AObj handle]) ret_integer)"

definition luv_stream_write_cb :: "nat \<Rightarrow> int \<Rightarrow> unit M" where
  "luv_stream_write_cb req status = status_cb req status"

definition luv_stream_prep_bufs :: "int \<Rightarrow> (nat option \<times> string list) M" where
  "luv_stream_prep_bufs index =
     bindM (lua_rawlen index) (\<lambda>count.
     bindM (malloc BBuf) (\<lambda>bufs.
     bindM (mapM (\<lambda>i. thenM (lua_rawgeti index (int i + 1))
         (bindM (luaL_checklstring (-1)) (\<lambda>base.
          thenM (if bufs = None then crash Null_deref else retM ())
          (thenM (lua_pop 1) (retM base))))) [0..<count])
       (\<lambda>bs. retM (bufs, bs))))"

text \<open>The data argument, common to the three write functions: a table of strings or a string.\<close>

definition with_data :: "(string list \<Rightarrow> int M) \<Rightarrow> int M" where
  "with_data f =
     bindM (lua_istable 2) (\<lambda>t. if t then
         bindM (luv_stream_prep_bufs 2) (\<lambda>(bufs, bs).
         bindM (f bs) (\<lambda>ret. thenM (free_block bufs) (retM ret)))
       else bindM (lua_isstring 2) (\<lambda>isstr. if isstr then
         bindM (luaL_checklstring 2) (\<lambda>b. f [b])
       else luaL_argerror 2 ''data must be string or table of strings''))"

definition luv_stream_write :: "nat M" where
  "luv_stream_write =
     bindM (luv_stream_check 1) (\<lambda>handle.
     bindM (luv_req_check_continuation 3) (\<lambda>ref.
     bindM (new_req ref) (\<lambda>req.
     bindM (with_data (\<lambda>bs. uv_req_call req UV_WRITE ''uv_write''
         [AObj req, AObj handle, ABufs bs, AFn ''luv_stream_write_cb'']))
       (\<lambda>ret. req_result ret (thenM (set_data_ref req 2) (retM 1))))))"

definition luv_stream_write2 :: "nat M" where
  "luv_stream_write2 =
     bindM (luv_stream_check 1) (\<lambda>handle.
     bindM (luv_stream_check 3) (\<lambda>send_handle.
     bindM (luv_req_check_continuation 4) (\<lambda>ref.
     bindM (new_req ref) (\<lambda>req.
     bindM (with_data (\<lambda>bs. uv_req_call req UV_WRITE ''uv_write2''
         [AObj req, AObj handle, ABufs bs, AObj send_handle, AFn ''luv_stream_write_cb'']))
       (\<lambda>ret. req_result ret (thenM (set_data_ref req 2) (retM 1)))))))"

definition luv_stream_try_write :: "nat M" where
  "luv_stream_try_write =
     bindM (luv_stream_check 1) (\<lambda>handle.
     bindM (with_data (\<lambda>bs. uv ''uv_try_write'' [AObj handle, ABufs bs])) ret_integer)"

definition luv_stream_is_readable :: "nat M" where
  "luv_stream_is_readable =
     bindM (luv_stream_check 1) (\<lambda>handle. bindM (uv ''uv_is_readable'' [AObj handle])
       (\<lambda>r. thenM (lua_pushboolean (r \<noteq> 0)) (retM 1)))"

definition luv_stream_is_writable :: "nat M" where
  "luv_stream_is_writable =
     bindM (luv_stream_check 1) (\<lambda>handle. bindM (uv ''uv_is_writable'' [AObj handle])
       (\<lambda>r. thenM (lua_pushboolean (r \<noteq> 0)) (retM 1)))"

text \<open>A boolean argument as a C \<^verbatim>\<open>int\<close>.\<close>

definition check_boolean :: "int \<Rightarrow> int M" where
  "check_boolean i = thenM (luaL_checktype i TBOOLEAN)
     (bindM (lua_toboolean i) (\<lambda>b. retM (if b then 1 else 0)))"

definition luv_stream_set_blocking :: "nat M" where
  "luv_stream_set_blocking =
     bindM (luv_stream_check 1) (\<lambda>handle. bindM (check_boolean 2) (\<lambda>blocking.
     bindM (uv ''uv_stream_set_blocking'' [AObj handle, AInt blocking]) ret_integer))"

text \<open>One boolean option of the table at \<open>index\<close>, as a flag.\<close>

definition opt_flag :: "int \<Rightarrow> string \<Rightarrow> int \<Rightarrow> int M" where
  "opt_flag index k flag =
     thenM (lua_getfield index k)
     (bindM (lua_toboolean (-1)) (\<lambda>b. thenM (lua_pop 1) (retM (if b then flag else 0))))"

subsection \<open>Keeping the invariant\<close>

lemma neutral_stream_checks [neu]:
  "neutral (luv_stream_check i)" "neutral (check_boolean i)" "neutral (opt_flag i k f)"
  unfolding luv_stream_check_def check_boolean_def opt_flag_def by (intro neu)+

lemmas keep_stream_checks [THEN keep_neutral, hw] = neutral_stream_checks

lemma keep_req_result [hw]: "keeps E k \<Longrightarrow> keeps E (req_result ret k)"
  unfolding req_result_def by (rule hw | assumption)+

lemma hoare_mapM [hw]: "(\<And>x. hoare ok R E P (f x) (\<lambda>_. P)) \<Longrightarrow> hoare ok R E P (mapM f xs) (\<lambda>_. P)"
  by (induction xs) (auto intro!: hoare_retM hoare_bindM)

lemma keep_prep_bufs [hw]: "keeps E (luv_stream_prep_bufs i)"
  unfolding luv_stream_prep_bufs_def by (rule hw)+

lemma keep_with_data [hw]: "(\<And>bs. keeps E (f bs)) \<Longrightarrow> keeps E (with_data f)"
  unfolding with_data_def by (rule hw | assumption)+

lemma keep_stream_reqs:
  "keeps E luv_stream_shutdown" "keeps E luv_stream_write" "keeps E luv_stream_write2"
  unfolding luv_stream_shutdown_def luv_stream_write_def luv_stream_write2_def by (rule hw)+

lemma keep_stream_api:
  "keeps E luv_stream_listen" "keeps E luv_stream_accept" "keeps E luv_stream_read_start"
  "keeps E luv_stream_read_stop" "keeps E luv_stream_try_write" "keeps E luv_stream_is_readable"
  "keeps E luv_stream_is_writable" "keeps E luv_stream_set_blocking"
  unfolding luv_stream_listen_def luv_stream_accept_def luv_stream_read_start_def
    luv_stream_read_stop_def luv_stream_try_write_def luv_stream_is_readable_def
    luv_stream_is_writable_def luv_stream_set_blocking_def
  by (rule hw)+

lemma keep_stream_cb:
  assumes "env_ok E"
  shows "keeps E (luv_stream_shutdown_cb r st)" "keeps E (luv_stream_write_cb r st)"
    "keeps E (luv_stream_connection_cb u st)" "keeps E (luv_stream_read_cb u n p b)"
    "keeps E (luv_stream_alloc_cb k)"
  unfolding luv_stream_shutdown_cb_def luv_stream_write_cb_def luv_stream_connection_cb_def
    luv_stream_read_cb_def luv_stream_alloc_cb_def
  by (rule hw assms)+

end
