(* ===== verification/Luv_Tcp.thy ===== *)
theory Luv_Tcp
  imports Luv_Stream Luv_Constants
begin

text \<open>\<^verbatim>\<open>luv/luv_tcp.c\<close>: TCP sockets, and the socket addresses TCP and UDP share.\<close>

subsection \<open>Addresses\<close>

record sockaddr =
  sa_family :: int
  sa_port :: int
  sa_addr :: string

text \<open>The address a libuv call has filled in.\<close>

definition out_sockaddr :: "sockaddr M" where
  "out_sockaddr = bindM (uv_out 0) (\<lambda>f. bindM (uv_out 1) (\<lambda>p. bindM (out_str 0) (\<lambda>a.
     retM \<lparr>sa_family = f, sa_port = p, sa_addr = a\<rparr>)))"

text \<open>
  \<^verbatim>\<open>uv_inet_ntop\<close> into the local array \<^verbatim>\<open>ip\<close>, its result not looked at.  When the call fails,
  or for another address family, the array has never been written; it is read later.
\<close>

definition sockaddr_ip :: "sockaddr \<Rightarrow> int \<Rightarrow> string option M" where
  "sockaddr_ip a addrlen =
     bindM (askM (\<lambda>E. (cpp E ''AF_INET'', cpp E ''AF_INET6''))) (\<lambda>(inet, inet6).
     if sa_family a = inet \<or> sa_family a = inet6 then
       bindM (uv ''uv_inet_ntop'' [AInt (sa_family a), AStr (sa_addr a), AInt addrlen]) (\<lambda>r.
       bindM (out_str 0) (\<lambda>t. retM (if r = 0 then Some t else None)))
     else retM None)"

definition sockaddr_port :: "env \<Rightarrow> sockaddr \<Rightarrow> int" where
  "sockaddr_port E a = (if sa_family a = cpp E ''AF_INET'' \<or> sa_family a = cpp E ''AF_INET6''
     then sa_port a else 0)"

definition parse_sockaddr :: "sockaddr \<Rightarrow> int \<Rightarrow> unit M" where
  "parse_sockaddr a addrlen =
     thenM lua_newtable
     (bindM (sockaddr_ip a addrlen) (\<lambda>ip. seqM
       [bindM (askM (\<lambda>E. luv_af_num_to_string E (sa_family a))) lua_pushstring,
        lua_setfield (-2) ''family'',
        bindM (askM (\<lambda>E. sockaddr_port E a)) lua_pushinteger,
        lua_setfield (-2) ''port'',
        (case ip of None \<Rightarrow> crash Uninitialised | Some t \<Rightarrow> lua_pushstring (Some t)),
        lua_setfield (-2) ''ip'']))"

text \<open>\<^verbatim>\<open>sizeof(struct sockaddr_storage)\<close> and \<^verbatim>\<open>sizeof(struct sockaddr)\<close>.\<close>

abbreviation STORAGE_SIZE :: int where "STORAGE_SIZE \<equiv> 128"
abbreviation SOCKADDR_SIZE :: int where "SOCKADDR_SIZE \<equiv> 16"

text \<open>A host and port argument: IPv4, then IPv6, or a Lua error.\<close>

definition check_addr :: "string \<Rightarrow> int \<Rightarrow> unit M" where
  "check_addr host port =
     bindM (uv ''uv_ip4_addr'' [AStr host, AInt port]) (\<lambda>r4.
     if r4 = 0 then retM ()
     else bindM (uv ''uv_ip6_addr'' [AStr host, AInt port]) (\<lambda>r6.
       if r6 = 0 then retM ()
       else luaL_error (''Invalid IP address or port ['' @ host @ '':'' @ fmt_d port @ '']'')))"

subsection \<open>TCP handles\<close>

definition luv_tcp_check :: "int \<Rightarrow> nat M" where
  "luv_tcp_check index = check_handle ''uv_tcp'' UV_TCP ''Expected uv_tcp_t'' index"

definition luv_tcp_new :: "nat M" where
  "luv_tcp_new = new_handle UV_TCP (\<lambda>u. uv ''uv_tcp_init'' [AObj u])"

definition luv_tcp_open :: "nat M" where
  "luv_tcp_open = bindM (luv_tcp_check 1) (\<lambda>u. bindM (check_c_int 2) (\<lambda>sock.
     bindM (uv ''uv_tcp_open'' [AObj u, AInt sock]) ret_integer))"

definition luv_tcp_nodelay :: "nat M" where
  "luv_tcp_nodelay = bindM (luv_tcp_check 1) (\<lambda>u. bindM (check_boolean 2) (\<lambda>enable.
     bindM (uv ''uv_tcp_nodelay'' [AObj u, AInt enable]) ret_integer))"

definition luv_tcp_keepalive :: "nat M" where
  "luv_tcp_keepalive =
     bindM (luv_tcp_check 1) (\<lambda>u.
     bindM (check_boolean 2) (\<lambda>enable.
     bindM (if enable \<noteq> 0 then bindM (luaL_checkinteger 3) (\<lambda>d. retM (c_uint d)) else retM 0)
       (\<lambda>delay. bindM (uv ''uv_tcp_keepalive'' [AObj u, AInt enable, AInt delay]) ret_integer)))"

definition luv_tcp_simultaneous_accepts :: "nat M" where
  "luv_tcp_simultaneous_accepts = bindM (luv_tcp_check 1) (\<lambda>u. bindM (check_boolean 2) (\<lambda>enable.
     bindM (uv ''uv_tcp_simultaneous_accepts'' [AObj u, AInt enable]) ret_integer))"

text \<open>\<^verbatim>\<open>UV_TCP_IPV6ONLY\<close> is 1.\<close>

definition luv_tcp_bind :: "nat M" where
  "luv_tcp_bind =
     bindM (luv_tcp_check 1) (\<lambda>u.
     bindM (luaL_checkstring 2) (\<lambda>host.
     bindM (check_c_int 3) (\<lambda>port.
     thenM (check_addr host port)
     (bindM (lua_istable 4) (\<lambda>t.
     bindM (if t then opt_flag 4 ''ipv6only'' 1 else retM 0) (\<lambda>flags.
     bindM (uv ''uv_tcp_bind'' [AObj u, AStr host, AInt port, AInt flags]) ret_integer))))))"

definition luv_tcp_getsockname :: "nat M" where
  "luv_tcp_getsockname =
     bindM (luv_tcp_check 1) (\<lambda>u.
     bindM (uv ''uv_tcp_getsockname'' [AObj u, AInt STORAGE_SIZE]) (\<lambda>ret.
     if ret < 0 then luv_error ret
     else bindM out_sockaddr (\<lambda>a. bindM (uv_out 2) (\<lambda>addrlen.
       thenM (parse_sockaddr a addrlen) (retM 1)))))"

definition luv_tcp_getpeername :: "nat M" where
  "luv_tcp_getpeername =
     bindM (luv_tcp_check 1) (\<lambda>u.
     bindM (uv ''uv_tcp_getpeername'' [AObj u, AInt STORAGE_SIZE]) (\<lambda>ret.
     if ret < 0 then luv_error ret
     else bindM out_sockaddr (\<lambda>a. bindM (uv_out 2) (\<lambda>addrlen.
       thenM (parse_sockaddr a addrlen) (retM 1)))))"

definition luv_tcp_connect_cb :: "nat \<Rightarrow> int \<Rightarrow> unit M" where
  "luv_tcp_connect_cb req status = status_cb req status"

text \<open>A field of the handle libuv maintains.\<close>

definition luv_tcp_write_queue_size :: "nat M" where
  "luv_tcp_write_queue_size =
     bindM (luv_tcp_check 1) (\<lambda>u. bindM (uv_out 0) (\<lambda>n. thenM (lua_pushinteger n) (retM 1)))"

definition luv_tcp_connect :: "nat M" where
  "luv_tcp_connect =
     bindM (luv_tcp_check 1) (\<lambda>u.
     bindM (luaL_checkstring 2) (\<lambda>host.
     bindM (check_c_int 3) (\<lambda>port.
     thenM (check_addr host port)
     (bindM (luv_req_check_continuation 4) (\<lambda>ref.
     bindM (new_req ref) (\<lambda>req.
     bindM (uv_req_call req UV_CONNECT ''uv_tcp_connect''
         [AObj req, AObj u, AStr host, AInt port, AFn ''luv_tcp_connect_cb''])
       (\<lambda>ret. req_result ret (retM 1))))))))"

subsection \<open>Keeping the invariant\<close>

lemma neutral_sockaddr [neu]:
  "neutral out_sockaddr" "neutral (sockaddr_ip a n)" "neutral (parse_sockaddr a n)"
  "neutral (check_addr h p)"
  unfolding out_sockaddr_def sockaddr_ip_def parse_sockaddr_def check_addr_def
  by (intro neu)+

lemmas keep_sockaddr [THEN keep_neutral, hw] = neutral_sockaddr

lemma keep_tcp_api:
  "keeps E luv_tcp_new" "keeps E luv_tcp_open" "keeps E luv_tcp_nodelay" "keeps E luv_tcp_keepalive"
  "keeps E luv_tcp_simultaneous_accepts" "keeps E luv_tcp_bind" "keeps E luv_tcp_getsockname"
  "keeps E luv_tcp_getpeername" "keeps E luv_tcp_write_queue_size" "keeps E luv_tcp_connect"
  unfolding luv_tcp_new_def luv_tcp_open_def luv_tcp_nodelay_def luv_tcp_keepalive_def
    luv_tcp_simultaneous_accepts_def luv_tcp_bind_def luv_tcp_getsockname_def
    luv_tcp_getpeername_def luv_tcp_write_queue_size_def luv_tcp_connect_def luv_tcp_check_def
  by (rule hw handle_lc.simps)+

lemma keep_luv_tcp_connect_cb: "env_ok E \<Longrightarrow> keeps E (luv_tcp_connect_cb r st)"
  unfolding luv_tcp_connect_cb_def by (rule hw)

end
