(* ===== verification/Luv_Udp.thy ===== *)
theory Luv_Udp
  imports Luv_Tcp
begin

text \<open>\<^verbatim>\<open>luv/luv_udp.c\<close>: datagram sockets.\<close>

definition luv_udp_check :: "int \<Rightarrow> nat M" where
  "luv_udp_check index = check_handle ''uv_udp'' UV_UDP ''Expected uv_udp_t'' index"

definition luv_udp_new :: "nat M" where
  "luv_udp_new = new_handle UV_UDP (\<lambda>u. uv ''uv_udp_init'' [AObj u])"

definition luv_udp_open :: "nat M" where
  "luv_udp_open = bindM (luv_udp_check 1) (\<lambda>u. bindM (check_c_int 2) (\<lambda>sock.
     bindM (uv ''uv_udp_open'' [AObj u, AInt sock]) ret_integer))"

text \<open>\<^verbatim>\<open>UV_UDP_IPV6ONLY\<close> is 1 and \<^verbatim>\<open>UV_UDP_REUSEADDR\<close> is 4.\<close>

definition luv_udp_bind :: "nat M" where
  "luv_udp_bind =
     bindM (luv_udp_check 1) (\<lambda>u.
     bindM (luaL_checkstring 2) (\<lambda>host.
     bindM (check_c_int 3) (\<lambda>port.
     thenM (check_addr host port)
     (bindM (lua_istable 4) (\<lambda>t.
     bindM (if t then thenM (luaL_checktype 4 TTABLE)
         (bindM (opt_flag 4 ''reuseaddr'' 4) (\<lambda>f1. bindM (opt_flag 4 ''ipv6only'' 1)
           (\<lambda>f2. retM (f1 + f2)))) else retM 0) (\<lambda>flags.
     bindM (uv ''uv_udp_bind'' [AObj u, AStr host, AInt port, AInt flags]) ret_integer))))))"

definition luv_udp_getsockname :: "nat M" where
  "luv_udp_getsockname =
     bindM (luv_udp_check 1) (\<lambda>u.
     bindM (uv ''uv_udp_getsockname'' [AObj u, AInt STORAGE_SIZE]) (\<lambda>ret.
     if ret < 0 then luv_error ret
     else bindM out_sockaddr (\<lambda>a. bindM (uv_out 2) (\<lambda>addrlen.
       thenM (parse_sockaddr a addrlen) (retM 1)))))"

definition luv_membership_opts :: "string list" where
  "luv_membership_opts = [''leave'', ''join'']"

definition luv_udp_set_membership :: "nat M" where
  "luv_udp_set_membership =
     bindM (luv_udp_check 1) (\<lambda>u.
     bindM (luaL_checkstring 2) (\<lambda>multicast_addr.
     bindM (luaL_checkstring 3) (\<lambda>interface_addr.
     bindM (luaL_checkoption 2 None luv_membership_opts) (\<lambda>membership.
     bindM (uv ''uv_udp_set_membership''
         [AObj u, AStr multicast_addr, AStr interface_addr, AInt (int membership)]) ret_integer))))"

definition luv_udp_set_multicast_loop :: "nat M" where
  "luv_udp_set_multicast_loop = bindM (luv_udp_check 1) (\<lambda>u. bindM (check_boolean 2) (\<lambda>on.
     bindM (uv ''uv_udp_set_multicast_loop'' [AObj u, AInt on]) ret_integer))"

definition luv_udp_set_multicast_ttl :: "nat M" where
  "luv_udp_set_multicast_ttl = bindM (luv_udp_check 1) (\<lambda>u. bindM (check_c_int 2) (\<lambda>ttl.
     bindM (uv ''uv_udp_set_multicast_ttl'' [AObj u, AInt ttl]) ret_integer))"

definition luv_udp_set_multicast_interface :: "nat M" where
  "luv_udp_set_multicast_interface =
     bindM (luv_udp_check 1) (\<lambda>u. bindM (luaL_checkstring 2) (\<lambda>interface_addr.
     bindM (uv ''uv_udp_set_multicast_interface'' [AObj u, AStr interface_addr]) ret_integer))"

definition luv_udp_set_broadcast :: "nat M" where
  "luv_udp_set_broadcast = bindM (luv_udp_check 1) (\<lambda>u. bindM (check_boolean 2) (\<lambda>on.
     bindM (uv ''uv_udp_set_broadcast'' [AObj u, AInt on]) ret_integer))"

text \<open>\<^verbatim>\<open>int ttl = lua_tonumber(L, 2)\<close>, a conversion of a \<^verbatim>\<open>double\<close>.\<close>

definition luv_udp_set_ttl :: "nat M" where
  "luv_udp_set_ttl =
     bindM (luv_udp_check 1) (\<lambda>u.
     thenM (luaL_checktype 2 TNUMBER)
     (bindM (luaL_checknumber 2) (\<lambda>n.
     bindM (askM (\<lambda>E. num2cint E n)) (\<lambda>ttl.
     bindM (uv ''uv_udp_set_ttl'' [AObj u, AInt ttl]) ret_integer))))"

definition luv_udp_send_cb :: "nat \<Rightarrow> int \<Rightarrow> unit M" where
  "luv_udp_send_cb req status = status_cb req status"

definition luv_udp_send :: "nat M" where
  "luv_udp_send =
     bindM (luv_udp_check 1) (\<lambda>u.
     bindM (luaL_checklstring 2) (\<lambda>buf.
     bindM (luaL_checkstring 3) (\<lambda>host.
     bindM (check_c_int 4) (\<lambda>port.
     thenM (check_addr host port)
     (bindM (luv_req_check_continuation 5) (\<lambda>ref.
     bindM (new_req ref) (\<lambda>req.
     bindM (uv_req_call req UV_UDP_SEND ''uv_udp_send''
         [AObj req, AObj u, ABufs [buf], AStr host, AInt port, AFn ''luv_udp_send_cb''])
       (\<lambda>ret. req_result ret (retM 1)))))))))"

definition luv_udp_try_send :: "nat M" where
  "luv_udp_try_send =
     bindM (luv_udp_check 1) (\<lambda>u.
     bindM (luaL_checklstring 2) (\<lambda>buf.
     bindM (luaL_checkstring 3) (\<lambda>host.
     bindM (check_c_int 4) (\<lambda>port.
     thenM (check_addr host port)
     (bindM (uv ''uv_udp_try_send'' [AObj u, ABufs [buf], AStr host, AInt port]) ret_integer)))))"

text \<open>
  The receive callback.  \<open>buf\<close> is the \<^verbatim>\<open>uv_buf_t\<close> (its block and the bytes in it), absent
  for a NULL pointer; \<^verbatim>\<open>UV_UDP_PARTIAL\<close> is 2.  For a negative \<open>nread\<close> no data value is pushed,
  yet the callback is called with four arguments.
\<close>

definition luv_udp_recv_cb ::
  "nat \<Rightarrow> int \<Rightarrow> (nat option \<times> string) option \<Rightarrow> sockaddr option \<Rightarrow> nat \<Rightarrow> unit M" where
  "luv_udp_recv_cb u nread buf addr flags =
     thenM (if nread < 0 then luv_status nread else lua_pushnil)
     (thenM (if nread = 0 then (case addr of Some _ \<Rightarrow> lua_pushstring (Some '''') | None \<Rightarrow> lua_pushnil)
        else if 0 < nread then (case buf of Some (base, bytes) \<Rightarrow>
            lua_pushlstring (take (nat nread) bytes) | None \<Rightarrow> crash Null_deref)
        else retM ())
     (thenM (case buf of Some (base, bytes) \<Rightarrow> free_block base | None \<Rightarrow> retM ())
     (thenM (case addr of Some a \<Rightarrow> parse_sockaddr a SOCKADDR_SIZE | None \<Rightarrow> lua_pushnil)
     (thenM lua_newtable
     (thenM (if flags div 2 mod 2 = 1
        then thenM (lua_pushboolean True) (lua_setfield (-2) ''partial'') else retM ())
     (bindM (handle_data u) (\<lambda>data. luv_callback_call data LUV_EVENT 4)))))))"

definition luv_udp_recv_start :: "nat M" where
  "luv_udp_recv_start =
     bindM (luv_udp_check 1) (\<lambda>u. bindM (handle_data u) (\<lambda>data.
     thenM (luv_callback_check data LUV_EVENT 2)
     (bindM (uv ''uv_udp_recv_start''
         [AObj u, AFn ''luv_stream_alloc_cb'', AFn ''luv_udp_recv_cb'']) ret_integer)))"

definition luv_udp_recv_stop :: "nat M" where
  "luv_udp_recv_stop = bindM (luv_udp_check 1) (\<lambda>u. bindM (uv ''uv_udp_recv_stop'' [AObj u]) ret_integer)"

subsection \<open>Keeping the invariant\<close>

lemma keep_udp_options:
  "keeps E luv_udp_set_membership" "keeps E luv_udp_set_multicast_loop"
  "keeps E luv_udp_set_multicast_ttl" "keeps E luv_udp_set_multicast_interface"
  "keeps E luv_udp_set_broadcast" "keeps E luv_udp_set_ttl"
  unfolding luv_udp_set_membership_def luv_udp_set_multicast_loop_def luv_udp_set_multicast_ttl_def
    luv_udp_set_multicast_interface_def luv_udp_set_broadcast_def luv_udp_set_ttl_def
    luv_udp_check_def
  by (rule hw)+

lemma keep_udp_api:
  "keeps E luv_udp_new" "keeps E luv_udp_open" "keeps E luv_udp_bind" "keeps E luv_udp_getsockname"
  "keeps E luv_udp_send" "keeps E luv_udp_try_send" "keeps E luv_udp_recv_start"
  "keeps E luv_udp_recv_stop"
  unfolding luv_udp_new_def luv_udp_open_def luv_udp_bind_def luv_udp_getsockname_def
    luv_udp_send_def luv_udp_try_send_def luv_udp_recv_start_def luv_udp_recv_stop_def
    luv_udp_check_def
  by (rule hw handle_lc.simps)+

lemma keep_udp_cb:
  assumes "env_ok E"
  shows "keeps E (luv_udp_send_cb r st)" "keeps E (luv_udp_recv_cb u n b a f)"
  unfolding luv_udp_send_cb_def luv_udp_recv_cb_def by (rule hw assms)+

end
