(* ===== verification/Luv_Pipe.thy ===== *)
theory Luv_Pipe
  imports Luv_Tcp
begin

text \<open>\<^verbatim>\<open>luv/luv_pipe.c\<close> and \<^verbatim>\<open>luv/luv_tty.c\<close>: named pipes and terminals.\<close>

subsection \<open>Pipes\<close>

definition luv_pipe_check :: "int \<Rightarrow> nat M" where
  "luv_pipe_check index = check_handle ''uv_pipe'' UV_NAMED_PIPE ''Expected uv_pipe_t'' index"

definition luv_pipe_new :: "nat M" where
  "luv_pipe_new = bindM (check_boolean 1) (\<lambda>ipc.
     new_handle UV_NAMED_PIPE (\<lambda>u. uv ''uv_pipe_init'' [AObj u, AInt ipc]))"

definition luv_pipe_open :: "nat M" where
  "luv_pipe_open = bindM (luv_pipe_check 1) (\<lambda>u. bindM (check_c_int 2) (\<lambda>file.
     bindM (uv ''uv_pipe_open'' [AObj u, AInt file]) ret_integer))"

definition luv_pipe_bind :: "nat M" where
  "luv_pipe_bind = bindM (luv_pipe_check 1) (\<lambda>u. bindM (luaL_checkstring 2) (\<lambda>name.
     bindM (uv ''uv_pipe_bind'' [AObj u, AStr name]) ret_integer))"

definition luv_pipe_connect :: "nat M" where
  "luv_pipe_connect =
     bindM (luv_pipe_check 1) (\<lambda>u.
     bindM (luaL_checkstring 2) (\<lambda>name.
     bindM (luv_req_check_continuation 3) (\<lambda>ref.
     bindM (new_req ref) (\<lambda>req.
     thenM (uv_void ''uv_pipe_connect'' [AObj req, AObj u, AStr name, AFn ''luv_tcp_connect_cb''])
     (thenM (set_req_type req UV_CONNECT) (retM 1))))))"

text \<open>\<^verbatim>\<open>2 * PATH_MAX\<close> bytes for the name.\<close>

abbreviation PIPE_NAME_MAX :: int where "PIPE_NAME_MAX \<equiv> 8192"

definition luv_pipe_getsockname :: "nat M" where
  "luv_pipe_getsockname =
     bindM (luv_pipe_check 1) (\<lambda>u.
     bindM (uv ''uv_pipe_getsockname'' [AObj u, AInt PIPE_NAME_MAX]) (\<lambda>ret.
     if ret < 0 then luv_error ret
     else bindM (out_str 0) (\<lambda>buf. thenM (lua_pushlstring buf) (retM 1))))"

definition luv_pipe_getpeername :: "nat M" where
  "luv_pipe_getpeername =
     bindM (luv_pipe_check 1) (\<lambda>u.
     bindM (uv ''uv_pipe_getpeername'' [AObj u, AInt PIPE_NAME_MAX]) (\<lambda>ret.
     if ret < 0 then luv_error ret
     else bindM (out_str 0) (\<lambda>buf. thenM (lua_pushlstring buf) (retM 1))))"

definition luv_pipe_pending_instances :: "nat M" where
  "luv_pipe_pending_instances = bindM (luv_pipe_check 1) (\<lambda>u. bindM (check_c_int 2) (\<lambda>count.
     thenM (uv_void ''uv_pipe_pending_instances'' [AObj u, AInt count]) (retM 0)))"

definition luv_pipe_pending_count :: "nat M" where
  "luv_pipe_pending_count = bindM (luv_pipe_check 1) (\<lambda>u.
     bindM (uv ''uv_pipe_pending_count'' [AObj u]) (\<lambda>n. thenM (lua_pushinteger n) (retM 1)))"

text \<open>The numbering of \<^verbatim>\<open>uv_handle_type\<close>.\<close>

definition handle_types :: "uv_handle_type list" where
  "handle_types = [UV_UNKNOWN_HANDLE, UV_ASYNC, UV_CHECK, UV_FS_EVENT, UV_FS_POLL, UV_HANDLE,
     UV_IDLE, UV_NAMED_PIPE, UV_POLL, UV_PREPARE, UV_PROCESS, UV_STREAM, UV_TCP, UV_TIMER,
     UV_TTY, UV_UDP, UV_SIGNAL, UV_FILE]"

definition handle_type_of :: "int \<Rightarrow> uv_handle_type" where
  "handle_type_of n = (if 0 \<le> n \<and> nat n < length handle_types then handle_types ! nat n
     else UV_UNKNOWN_HANDLE)"

definition luv_pipe_pending_type :: "nat M" where
  "luv_pipe_pending_type = bindM (luv_pipe_check 1) (\<lambda>u.
     bindM (uv ''uv_pipe_pending_type'' [AObj u]) (\<lambda>n. case handle_lc (handle_type_of n) of
         Some type_name \<Rightarrow> thenM (lua_pushstring (Some type_name)) (retM 1)
       | None \<Rightarrow> retM 0))"

subsection \<open>Terminals\<close>

definition luv_tty_check :: "int \<Rightarrow> nat M" where
  "luv_tty_check index = check_handle ''uv_tty'' UV_TTY ''Expected uv_tty_t'' index"

definition luv_tty_new :: "nat M" where
  "luv_tty_new = bindM (check_c_int 1) (\<lambda>fd. bindM (check_boolean 2) (\<lambda>readable.
     new_handle UV_TTY (\<lambda>u. uv ''uv_tty_init'' [AObj u, AInt fd, AInt readable])))"

definition luv_tty_set_mode :: "nat M" where
  "luv_tty_set_mode = bindM (luv_tty_check 1) (\<lambda>u. bindM (check_c_int 2) (\<lambda>mode.
     bindM (uv ''uv_tty_set_mode'' [AObj u, AInt mode]) ret_integer))"

definition luv_tty_reset_mode :: "nat M" where
  "luv_tty_reset_mode = bindM (uv ''uv_tty_reset_mode'' []) ret_integer"

definition luv_tty_get_winsize :: "nat M" where
  "luv_tty_get_winsize =
     bindM (luv_tty_check 1) (\<lambda>u.
     bindM (uv ''uv_tty_get_winsize'' [AObj u]) (\<lambda>ret.
     if ret < 0 then luv_error ret
     else bindM (uv_out 0) (\<lambda>width. bindM (uv_out 1) (\<lambda>height.
       thenM (lua_pushinteger width) (thenM (lua_pushinteger height) (retM 2))))))"

subsection \<open>Keeping the invariant\<close>

lemma keep_pipe_api:
  "keeps E luv_pipe_new" "keeps E luv_pipe_open" "keeps E luv_pipe_bind" "keeps E luv_pipe_connect"
  "keeps E luv_pipe_getsockname" "keeps E luv_pipe_getpeername" "keeps E luv_pipe_pending_instances"
  "keeps E luv_pipe_pending_count" "keeps E luv_pipe_pending_type"
  unfolding luv_pipe_new_def luv_pipe_open_def luv_pipe_bind_def luv_pipe_connect_def
    luv_pipe_getsockname_def luv_pipe_getpeername_def luv_pipe_pending_instances_def
    luv_pipe_pending_count_def luv_pipe_pending_type_def luv_pipe_check_def
  by (rule hw handle_lc.simps)+

lemma keep_tty_api:
  "keeps E luv_tty_new" "keeps E luv_tty_set_mode" "keeps E luv_tty_reset_mode"
  "keeps E luv_tty_get_winsize"
  unfolding luv_tty_new_def luv_tty_set_mode_def luv_tty_reset_mode_def luv_tty_get_winsize_def
    luv_tty_check_def
  by (rule hw handle_lc.simps)+

end
