(* ===== verification/Luv_Fs.thy ===== *)
theory Luv_Fs
  imports Luv_Stream Luv_Constants
begin

unbundle bit_operations_syntax

text \<open>
  \<^verbatim>\<open>luv/luv_fs.c\<close>: the file system.  Every operation is a request; without a continuation it
  runs synchronously and its results are returned, with one it runs in the background and
  the request is returned.  The macro \<^verbatim>\<open>FS_CALL\<close> and \<open>push_fs_result\<close> are shared.
\<close>

subsection \<open>Checking a request\<close>

text \<open>
  \<^verbatim>\<open>luaL_argcheck(L, req->type = (uv_req_type)(UV_FS && req->data), ...)\<close>: an assignment.  The
  type becomes number 1 (\<^verbatim>\<open>UV_REQ\<close>) or 0.
\<close>

definition luv_fs_check :: "int \<Rightarrow> nat M" where
  "luv_fs_check index =
     bindM (luaL_checkudata index ''uv_req'') (\<lambda>req. bindM (get_r req) (\<lambda>r.
       let ty = (if r_data r \<noteq> None then UV_REQ else UV_UNKNOWN_REQ) in
       thenM (put_r req (r\<lparr>r_type := ty\<rparr>))
       (thenM (luaL_argcheck (ty \<noteq> UV_UNKNOWN_REQ) index ''Expected uv_fs_t'') (retM req))))"

subsection \<open>Stat results\<close>

record uv_stat =
  st_dev :: int
  st_mode :: int
  st_nlink :: int
  st_uid :: int
  st_gid :: int
  st_rdev :: int
  st_ino :: int
  st_size :: int
  st_blksize :: int
  st_blocks :: int
  st_flags :: int
  st_gen :: int
  st_atim :: "int \<times> int"
  st_mtim :: "int \<times> int"
  st_ctim :: "int \<times> int"
  st_birthtim :: "int \<times> int"

text \<open>The \<^verbatim>\<open>statbuf\<close> libuv has filled in; \<open>k\<close> numbers the first field.\<close>

definition out_stat :: "nat \<Rightarrow> uv_stat M" where
  "out_stat k = (\<lambda>E s. let f = (\<lambda>i. uv_int E (uvlog s) (k + i)) in
     (Inr \<lparr>st_dev = f 0, st_mode = f 1, st_nlink = f 2, st_uid = f 3, st_gid = f 4, st_rdev = f 5,
        st_ino = f 6, st_size = f 7, st_blksize = f 8, st_blocks = f 9, st_flags = f 10, st_gen = f 11,
        st_atim = (f 12, f 13), st_mtim = (f 14, f 15), st_ctim = (f 16, f 17),
        st_birthtim = (f 18, f 19)\<rparr>, s))"

definition luv_push_timespec_table :: "int \<times> int \<Rightarrow> unit M" where
  "luv_push_timespec_table t = seqM
     [lua_createtable 0 2,
      lua_pushinteger (fst t), lua_setfield (-2) ''sec'',
      lua_pushinteger (snd t), lua_setfield (-2) ''nsec'']"

text \<open>\<^verbatim>\<open>S_ISREG\<close> and the others compare the bits \<^verbatim>\<open>S_IFMT\<close> (octal 170000) of the mode.\<close>

definition S_IFMT_bits :: "int \<Rightarrow> int" where
  "S_IFMT_bits m = m AND 61440"

definition stat_type :: "int \<Rightarrow> string option" where
  "stat_type m = (let t = S_IFMT_bits m in
     if t = 32768 then Some ''file''
     else if t = 16384 then Some ''directory''
     else if t = 40960 then Some ''link''
     else if t = 4096 then Some ''fifo''
     else if t = 49152 then Some ''socket''
     else if t = 8192 then Some ''char''
     else if t = 24576 then Some ''block''
     else None)"

definition luv_push_stats_table :: "uv_stat \<Rightarrow> unit M" where
  "luv_push_stats_table s = seqM
     [lua_createtable 0 23,
      lua_pushinteger (st_dev s), lua_setfield (-2) ''dev'',
      lua_pushinteger (st_mode s), lua_setfield (-2) ''mode'',
      lua_pushinteger (st_nlink s), lua_setfield (-2) ''nlink'',
      lua_pushinteger (st_uid s), lua_setfield (-2) ''uid'',
      lua_pushinteger (st_gid s), lua_setfield (-2) ''gid'',
      lua_pushinteger (st_rdev s), lua_setfield (-2) ''rdev'',
      lua_pushinteger (st_ino s), lua_setfield (-2) ''ino'',
      lua_pushinteger (st_size s), lua_setfield (-2) ''size'',
      lua_pushinteger (st_blksize s), lua_setfield (-2) ''blksize'',
      lua_pushinteger (st_blocks s), lua_setfield (-2) ''blocks'',
      lua_pushinteger (st_flags s), lua_setfield (-2) ''flags'',
      lua_pushinteger (st_gen s), lua_setfield (-2) ''gen'',
      luv_push_timespec_table (st_atim s), lua_setfield (-2) ''atime'',
      luv_push_timespec_table (st_mtim s), lua_setfield (-2) ''mtime'',
      luv_push_timespec_table (st_ctim s), lua_setfield (-2) ''ctime'',
      luv_push_timespec_table (st_birthtim s), lua_setfield (-2) ''birthtime'',
      (case stat_type (st_mode s) of None \<Rightarrow> retM ()
       | Some ty \<Rightarrow> thenM (lua_pushstring (Some ty)) (lua_setfield (-2) ''type''))]"

subsection \<open>Flag and mode arguments\<close>

text \<open>The table of \<^verbatim>\<open>luv_fs_check_flags\<close>; a \<^verbatim>\<open>|\<close> of open flags.\<close>

definition open_flag_of :: "env \<Rightarrow> string \<Rightarrow> int option" where
  "open_flag_of E t =
     (if t = ''r'' then Some (cpp E ''O_RDONLY'')
      else if cst E ''O_SYNC'' \<noteq> None \<and> (t = ''rs'' \<or> t = ''sr'')
        then Some (cpp E ''O_RDONLY'' OR cpp E ''O_SYNC'')
      else if t = ''r+'' then Some (cpp E ''O_RDWR'')
      else if cst E ''O_SYNC'' \<noteq> None \<and> (t = ''rs+'' \<or> t = ''sr+'')
        then Some (cpp E ''O_RDWR'' OR cpp E ''O_SYNC'')
      else if t = ''w'' then Some (cpp E ''O_TRUNC'' OR cpp E ''O_CREAT'' OR cpp E ''O_WRONLY'')
      else if t = ''wx'' \<or> t = ''xw''
        then Some (cpp E ''O_TRUNC'' OR cpp E ''O_CREAT'' OR cpp E ''O_WRONLY'' OR cpp E ''O_EXCL'')
      else if t = ''w+'' then Some (cpp E ''O_TRUNC'' OR cpp E ''O_CREAT'' OR cpp E ''O_RDWR'')
      else if t = ''wx+'' \<or> t = ''xw+''
        then Some (cpp E ''O_TRUNC'' OR cpp E ''O_CREAT'' OR cpp E ''O_RDWR'' OR cpp E ''O_EXCL'')
      else if t = ''a'' then Some (cpp E ''O_APPEND'' OR cpp E ''O_CREAT'' OR cpp E ''O_WRONLY'')
      else if t = ''ax'' \<or> t = ''xa''
        then Some (cpp E ''O_APPEND'' OR cpp E ''O_CREAT'' OR cpp E ''O_WRONLY'' OR cpp E ''O_EXCL'')
      else if t = ''a+'' then Some (cpp E ''O_APPEND'' OR cpp E ''O_CREAT'' OR cpp E ''O_RDWR'')
      else if t = ''ax+'' \<or> t = ''xa+''
        then Some (cpp E ''O_APPEND'' OR cpp E ''O_CREAT'' OR cpp E ''O_RDWR'' OR cpp E ''O_EXCL'')
      else None)"

definition luv_fs_check_flags :: "int \<Rightarrow> int M" where
  "luv_fs_check_flags index =
     bindM (lua_isnumber index) (\<lambda>isnum.
     if isnum then bindM (lua_tointeger index) (\<lambda>n. retM (c_int n))
     else bindM (lua_isstring index) (\<lambda>isstr.
       if \<not> isstr then luaL_argerror index ''Expected string or integer for file open mode''
       else bindM (luaL_checkstring index) (\<lambda>t.
         bindM (askM (\<lambda>E. open_flag_of E t)) (\<lambda>f. case f of
             Some n \<Rightarrow> retM n
           | None \<Rightarrow> luaL_error (''Unknown file open flag '' @ [CHR 0x27] @ t @ [CHR 0x27])))))"

fun amode_of :: "env \<Rightarrow> string \<Rightarrow> int \<Rightarrow> int option" where
  "amode_of E [] mode = Some mode"
| "amode_of E (c # cs) mode =
     (if c = CHR ''r'' \<or> c = CHR ''R'' then amode_of E cs (mode OR cpp E ''R_OK'')
      else if c = CHR ''w'' \<or> c = CHR ''W'' then amode_of E cs (mode OR cpp E ''W_OK'')
      else if c = CHR ''x'' \<or> c = CHR ''X'' then amode_of E cs (mode OR cpp E ''X_OK'')
      else None)"

definition luv_fs_check_amode :: "int \<Rightarrow> int M" where
  "luv_fs_check_amode index =
     bindM (lua_isnumber index) (\<lambda>isnum.
     if isnum then bindM (lua_tointeger index) (\<lambda>n. retM (c_int n))
     else bindM (lua_isstring index) (\<lambda>isstr.
       if \<not> isstr then luaL_argerror index ''Expected string or integer for file access mode check''
       else bindM (luaL_checkstring index) (\<lambda>t.
         bindM (askM (\<lambda>E. amode_of E t 0)) (\<lambda>m. case m of
             Some n \<Rightarrow> retM (c_int n)
           | None \<Rightarrow> luaL_argerror index ''Unknown character in access mode string''))))"

subsection \<open>Results\<close>

text \<open>The error message: name, text and, when known, the path.\<close>

definition fs_message :: "uv_req \<Rightarrow> unit M" where
  "fs_message r =
     bindM (askM (\<lambda>E. (uv_err_name E (r_result r), uv_strerror E (r_result r)))) (\<lambda>(n, m).
       push (LStr (case r_path r of
           Some p \<Rightarrow> cstr n @ '': '' @ cstr m @ '': '' @ cstr p
         | None \<Rightarrow> cstr n @ '': '' @ cstr m)))"

definition fs_done_types :: "uv_fs_type list" where
  "fs_done_types = [UV_FS_CLOSE, UV_FS_RENAME, UV_FS_UNLINK, UV_FS_RMDIR, UV_FS_MKDIR,
     UV_FS_FTRUNCATE, UV_FS_FSYNC, UV_FS_FDATASYNC, UV_FS_LINK, UV_FS_SYMLINK, UV_FS_CHMOD,
     UV_FS_FCHMOD, UV_FS_CHOWN, UV_FS_FCHOWN, UV_FS_UTIME, UV_FS_FUTIME]"

text \<open>Only the value outside the enumerated cases is left for the \<^verbatim>\<open>default\<close> branch.\<close>

definition fs_type_num :: "uv_fs_type \<Rightarrow> int" where
  "fs_type_num t = (if t = UV_FS_CUSTOM then 0 else - 1)"

definition push_fs_result :: "nat \<Rightarrow> nat M" where
  "push_fs_result req =
     bindM (get_r req) (\<lambda>r.
     if r_fs_type r = UV_FS_ACCESS then thenM (lua_pushboolean (0 \<le> r_result r)) (retM 1)
     else if r_result r < 0 then thenM lua_pushnil (thenM (fs_message r) (retM 2))
     else if r_fs_type r \<in> set fs_done_types then thenM (lua_pushboolean True) (retM 1)
     else if r_fs_type r \<in> {UV_FS_OPEN, UV_FS_SENDFILE, UV_FS_WRITE}
       then thenM (lua_pushinteger (r_result r)) (retM 1)
     else if r_fs_type r \<in> {UV_FS_STAT, UV_FS_LSTAT, UV_FS_FSTAT}
       then bindM (out_stat 1) (\<lambda>st. thenM (luv_push_stats_table st) (retM 1))
     else if r_fs_type r = UV_FS_MKDTEMP then thenM (lua_pushstring (r_path r)) (retM 1)
     else if r_fs_type r = UV_FS_READLINK then thenM (lua_pushstring (r_ptr r)) (retM 1)
     else if r_fs_type r = UV_FS_READ then
       bindM (get_lr (r_data r)) (\<lambda>d. bindM (out_str 2) (\<lambda>bytes.
         thenM (if lr_data d = None then crash Null_deref
                else lua_pushlstring (take (nat (r_result r)) bytes)) (retM 1)))
     else if r_fs_type r = UV_FS_SCANDIR then
       bindM (get_lr (r_data r)) (\<lambda>d. thenM (reg_rawgeti (lr_req_ref d)) (retM 1))
     else thenM lua_pushnil
       (thenM (push (LStr (''UNKNOWN FS TYPE '' @ fmt_d (fs_type_num (r_fs_type r)) @ nl))) (retM 2)))"

text \<open>\<^verbatim>\<open>uv_fs_req_cleanup\<close> frees the path and the pointer of the request.\<close>

definition uv_fs_req_cleanup :: "nat \<Rightarrow> unit M" where
  "uv_fs_req_cleanup req = thenM (uv_void ''uv_fs_req_cleanup'' [AObj req])
     (bindM (get_r req) (\<lambda>r. put_r req (r\<lparr>r_path := None, r_ptr := None\<rparr>)))"

text \<open>\<^verbatim>\<open>luv_req_cleanup(L, req->data); req->data = NULL; uv_fs_req_cleanup(req);\<close>\<close>

definition fs_release :: "nat \<Rightarrow> unit M" where
  "fs_release req = bindM (get_r req) (\<lambda>r.
     thenM (luv_req_cleanup (r_data r)) (thenM (r_data_null req) (uv_fs_req_cleanup req)))"

definition luv_fs_cb :: "nat \<Rightarrow> unit M" where
  "luv_fs_cb req =
     bindM (push_fs_result req) (\<lambda>nargs.
     bindM (if nargs = 2 then lua_isnil (- int nargs) else retM False) (\<lambda>err.
     bindM (if err then thenM (lua_remove (- int nargs)) (retM (nargs - 1))
            else thenM lua_pushnil (thenM (lua_insert (- int nargs - 1)) (retM (nargs + 1)))) (\<lambda>nargs.
     bindM (get_r req) (\<lambda>r.
     thenM (luv_req_fulfill (r_data r) nargs)
     (bindM (get_r req) (\<lambda>r. if r_fs_type r \<noteq> UV_FS_SCANDIR then fs_release req else retM ()))))))"

text \<open>
  The libuv call: it sets the type and, before it returns or before the callback, the
  result, the path and the result pointer of the request.
\<close>

definition uv_fs_call :: "nat \<Rightarrow> uv_fs_type \<Rightarrow> string \<Rightarrow> uvarg list \<Rightarrow> int M" where
  "uv_fs_call req ty f args =
     bindM (uv f args) (\<lambda>ret.
     bindM (uv_out 0) (\<lambda>result.
     bindM (uv_outs 0) (\<lambda>ptr.
     bindM (uv_outs 1) (\<lambda>path.
     thenM (bindM (get_r req) (\<lambda>r. put_r req (r\<lparr>r_type := UV_FS, r_fs_type := ty,
        r_result := result, r_path := path, r_ptr := ptr\<rparr>)))
     (retM ret)))))"

definition FS_CALL :: "nat \<Rightarrow> uv_fs_type \<Rightarrow> string \<Rightarrow> uvarg list \<Rightarrow> nat M" where
  "FS_CALL req ty f args =
     bindM (get_r req) (\<lambda>r0.
     bindM (get_lr (r_data r0)) (\<lambda>data.
     let sync = (lr_cb_ref data = LUA_NOREF) in
     bindM (uv_fs_call req ty f (AObj req # args @ [if sync then ANull else AFn ''luv_fs_cb''])) (\<lambda>ret.
     bindM (get_r req) (\<lambda>r.
     if r_fs_type r \<noteq> UV_FS_ACCESS \<and> ret < 0 then
       thenM lua_pushnil (thenM (fs_message r)
         (thenM (bindM (askM (\<lambda>E. uv_err_name E (r_result r))) (\<lambda>n. lua_pushstring (Some n)))
         (thenM (fs_release req) (retM 3))))
     else if sync then
       bindM (push_fs_result req) (\<lambda>nargs.
         thenM (if r_fs_type r \<noteq> UV_FS_SCANDIR then fs_release req else retM ()) (retM nargs))
     else bindM (get_lr (r_data r0)) (\<lambda>d. thenM (reg_rawgeti (lr_req_ref d)) (retM 1))))))"

text \<open>The request every operation makes, with the continuation at \<open>index\<close>.\<close>

definition fs_req :: "int \<Rightarrow> (nat \<Rightarrow> nat M) \<Rightarrow> nat M" where
  "fs_req index k = bindM (luv_req_check_continuation index) (\<lambda>ref. bindM (new_req ref) k)"

text \<open>\<^verbatim>\<open>((luv_req_t*)req->data)->data = p;\<close>\<close>

definition set_req_buf :: "nat \<Rightarrow> nat option \<Rightarrow> unit M" where
  "set_req_buf req p = bindM (get_r req) (\<lambda>r. bindM (get_lr (r_data r)) (\<lambda>d.
     put_lr (r_data r) (d\<lparr>lr_data := p\<rparr>)))"

subsection \<open>The operations\<close>

definition luv_fs_close :: "nat M" where
  "luv_fs_close =
     bindM (check_c_int 1) (\<lambda>file.
     fs_req 2 (\<lambda>req. FS_CALL req UV_FS_CLOSE ''uv_fs_close'' [AInt file]))"

definition luv_fs_unlink :: "nat M" where
  "luv_fs_unlink =
     bindM (luaL_checkstring 1) (\<lambda>path.
     fs_req 2 (\<lambda>req. FS_CALL req UV_FS_UNLINK ''uv_fs_unlink'' [AStr path]))"

definition luv_fs_mkdir :: "nat M" where
  "luv_fs_mkdir =
     bindM (luaL_checkstring 1) (\<lambda>path.
     bindM (check_c_int 2) (\<lambda>mode.
     fs_req 3 (\<lambda>req. FS_CALL req UV_FS_MKDIR ''uv_fs_mkdir'' [AStr path, AInt mode])))"

definition luv_fs_mkdtemp :: "nat M" where
  "luv_fs_mkdtemp =
     bindM (luaL_checkstring 1) (\<lambda>tpl.
     fs_req 2 (\<lambda>req. FS_CALL req UV_FS_MKDTEMP ''uv_fs_mkdtemp'' [AStr tpl]))"

definition luv_fs_rmdir :: "nat M" where
  "luv_fs_rmdir =
     bindM (luaL_checkstring 1) (\<lambda>path.
     fs_req 2 (\<lambda>req. FS_CALL req UV_FS_RMDIR ''uv_fs_rmdir'' [AStr path]))"

definition luv_fs_stat :: "nat M" where
  "luv_fs_stat =
     bindM (luaL_checkstring 1) (\<lambda>path.
     fs_req 2 (\<lambda>req. FS_CALL req UV_FS_STAT ''uv_fs_stat'' [AStr path]))"

definition luv_fs_fstat :: "nat M" where
  "luv_fs_fstat =
     bindM (check_c_int 1) (\<lambda>file.
     fs_req 2 (\<lambda>req. FS_CALL req UV_FS_FSTAT ''uv_fs_fstat'' [AInt file]))"

definition luv_fs_lstat :: "nat M" where
  "luv_fs_lstat =
     bindM (luaL_checkstring 1) (\<lambda>path.
     fs_req 2 (\<lambda>req. FS_CALL req UV_FS_LSTAT ''uv_fs_lstat'' [AStr path]))"

definition luv_fs_rename :: "nat M" where
  "luv_fs_rename =
     bindM (luaL_checkstring 1) (\<lambda>path.
     bindM (luaL_checkstring 2) (\<lambda>new_path.
     fs_req 3 (\<lambda>req. FS_CALL req UV_FS_RENAME ''uv_fs_rename'' [AStr path, AStr new_path])))"

definition luv_fs_fsync :: "nat M" where
  "luv_fs_fsync =
     bindM (check_c_int 1) (\<lambda>file.
     fs_req 2 (\<lambda>req. FS_CALL req UV_FS_FSYNC ''uv_fs_fsync'' [AInt file]))"

definition luv_fs_fdatasync :: "nat M" where
  "luv_fs_fdatasync =
     bindM (check_c_int 1) (\<lambda>file.
     fs_req 2 (\<lambda>req. FS_CALL req UV_FS_FDATASYNC ''uv_fs_fdatasync'' [AInt file]))"

definition luv_fs_ftruncate :: "nat M" where
  "luv_fs_ftruncate =
     bindM (check_c_int 1) (\<lambda>file.
     bindM (luaL_checkinteger 2) (\<lambda>offset.
     fs_req 3 (\<lambda>req. FS_CALL req UV_FS_FTRUNCATE ''uv_fs_ftruncate'' [AInt file, AInt offset])))"

definition luv_fs_sendfile :: "nat M" where
  "luv_fs_sendfile =
     bindM (check_c_int 1) (\<lambda>out_fd.
     bindM (check_c_int 2) (\<lambda>in_fd.
     bindM (luaL_checkinteger 3) (\<lambda>in_offset.
     bindM (luaL_checkinteger 4) (\<lambda>length.
     fs_req 5 (\<lambda>req. FS_CALL req UV_FS_SENDFILE ''uv_fs_sendfile'' [AInt out_fd, AInt in_fd, AInt in_offset, AInt (c_uint64 length)])))))"

definition luv_fs_chmod :: "nat M" where
  "luv_fs_chmod =
     bindM (luaL_checkstring 1) (\<lambda>path.
     bindM (check_c_int 2) (\<lambda>mode.
     fs_req 3 (\<lambda>req. FS_CALL req UV_FS_CHMOD ''uv_fs_chmod'' [AStr path, AInt mode])))"

definition luv_fs_fchmod :: "nat M" where
  "luv_fs_fchmod =
     bindM (check_c_int 1) (\<lambda>file.
     bindM (check_c_int 2) (\<lambda>mode.
     fs_req 3 (\<lambda>req. FS_CALL req UV_FS_FCHMOD ''uv_fs_fchmod'' [AInt file, AInt mode])))"

definition luv_fs_utime :: "nat M" where
  "luv_fs_utime =
     bindM (luaL_checkstring 1) (\<lambda>path.
     bindM (luaL_checknumber 2) (\<lambda>atime.
     bindM (luaL_checknumber 3) (\<lambda>mtime.
     fs_req 4 (\<lambda>req. FS_CALL req UV_FS_UTIME ''uv_fs_utime'' [AStr path, ANum atime, ANum mtime]))))"

definition luv_fs_futime :: "nat M" where
  "luv_fs_futime =
     bindM (check_c_int 1) (\<lambda>file.
     bindM (luaL_checknumber 2) (\<lambda>atime.
     bindM (luaL_checknumber 3) (\<lambda>mtime.
     fs_req 4 (\<lambda>req. FS_CALL req UV_FS_FUTIME ''uv_fs_futime'' [AInt file, ANum atime, ANum mtime]))))"

definition luv_fs_link :: "nat M" where
  "luv_fs_link =
     bindM (luaL_checkstring 1) (\<lambda>path.
     bindM (luaL_checkstring 2) (\<lambda>new_path.
     fs_req 3 (\<lambda>req. FS_CALL req UV_FS_LINK ''uv_fs_link'' [AStr path, AStr new_path])))"

definition luv_fs_readlink :: "nat M" where
  "luv_fs_readlink =
     bindM (luaL_checkstring 1) (\<lambda>path.
     fs_req 2 (\<lambda>req. FS_CALL req UV_FS_READLINK ''uv_fs_readlink'' [AStr path]))"

definition luv_fs_chown :: "nat M" where
  "luv_fs_chown =
     bindM (luaL_checkstring 1) (\<lambda>path.
     bindM (luaL_checkinteger 2) (\<lambda>uid.
     bindM (luaL_checkinteger 3) (\<lambda>gid.
     fs_req 4 (\<lambda>req. FS_CALL req UV_FS_CHOWN ''uv_fs_chown'' [AStr path, AInt (c_uint uid), AInt (c_uint gid)]))))"

definition luv_fs_fchown :: "nat M" where
  "luv_fs_fchown =
     bindM (check_c_int 1) (\<lambda>file.
     bindM (luaL_checkinteger 2) (\<lambda>uid.
     bindM (luaL_checkinteger 3) (\<lambda>gid.
     fs_req 4 (\<lambda>req. FS_CALL req UV_FS_FCHOWN ''uv_fs_fchown'' [AInt file, AInt (c_uint uid), AInt (c_uint gid)]))))"

definition luv_fs_open :: "nat M" where
  "luv_fs_open =
     bindM (luaL_checkstring 1) (\<lambda>path.
     bindM (luv_fs_check_flags 2) (\<lambda>flags.
     bindM (check_c_int 3) (\<lambda>mode.
     fs_req 4 (\<lambda>req. FS_CALL req UV_FS_OPEN ''uv_fs_open'' [AStr path, AInt flags, AInt mode]))))"

text \<open>\<^verbatim>\<open>malloc\<close> of a negative length, converted to \<^verbatim>\<open>size_t\<close>, exceeds any object size and fails.\<close>

definition luv_fs_read :: "nat M" where
  "luv_fs_read =
     bindM (check_c_int 1) (\<lambda>file.
     bindM (luaL_checkinteger 2) (\<lambda>len.
     bindM (luaL_checkinteger 3) (\<lambda>offset.
     bindM (if len < 0 then retM None else malloc BBuf) (\<lambda>data.
     if data = None then luaL_error ''Failure to allocate buffer''
     else fs_req 4 (\<lambda>req. thenM (set_req_buf req data)
       (FS_CALL req UV_FS_READ ''uv_fs_read'' [AInt file, AInt len, AInt offset]))))))"

definition luv_fs_write :: "nat M" where
  "luv_fs_write =
     bindM (check_c_int 1) (\<lambda>file.
     bindM (lua_istable 2) (\<lambda>t.
     bindM (if t then luv_stream_prep_bufs 2
        else bindM (lua_isstring 2) (\<lambda>isstr.
          if isstr then bindM (luaL_checklstring 2) (\<lambda>b. retM (None, [b]))
          else luaL_argerror 2 ''data must be string or table of strings'')) (\<lambda>(bufs, bs).
     bindM (luaL_checkinteger 3) (\<lambda>offset.
     fs_req 4 (\<lambda>req. thenM (set_req_buf req bufs)
       (FS_CALL req UV_FS_WRITE ''uv_fs_write'' [AInt file, ABufs bs, AInt offset]))))))"

definition luv_fs_scandir :: "nat M" where
  "luv_fs_scandir =
     bindM (luaL_checkstring 1) (\<lambda>path.
     fs_req 2 (\<lambda>req. FS_CALL req UV_FS_SCANDIR ''uv_fs_scandir'' [AStr path, AInt 0]))"

text \<open>The names of \<^verbatim>\<open>uv_dirent_type_t\<close>, numbered from 0.\<close>

definition dirent_type :: "int \<Rightarrow> string option" where
  "dirent_type n = (if n = 1 then Some ''file'' else if n = 2 then Some ''directory''
     else if n = 3 then Some ''link'' else if n = 4 then Some ''fifo''
     else if n = 5 then Some ''socket'' else if n = 6 then Some ''char''
     else if n = 7 then Some ''block'' else None)"

definition luv_fs_scandir_next :: "nat M" where
  "luv_fs_scandir_next =
     bindM (luv_fs_check 1) (\<lambda>req.
     bindM (uv ''uv_fs_scandir_next'' [AObj req]) (\<lambda>ret.
     bindM (askM (\<lambda>E. cst E ''UV__EOF'')) (\<lambda>eof.
     if Some ret = eof then thenM (fs_release req) (retM 0)
     else if ret < 0 then luv_error ret
     else bindM (uv_outs 0) (\<lambda>name. bindM (uv_out 0) (\<lambda>ty.
       thenM (lua_createtable 0 2)
       (thenM (lua_pushstring name)
       (thenM (lua_setfield (-2) ''name'')
       (thenM (case dirent_type ty of None \<Rightarrow> retM ()
          | Some t \<Rightarrow> thenM (lua_pushstring (Some t)) (lua_setfield (-2) ''type''))
       (retM 1)))))))))"

definition luv_fs_access :: "nat M" where
  "luv_fs_access =
     bindM (luaL_checkstring 1) (\<lambda>path.
     bindM (luv_fs_check_amode 2) (\<lambda>amode.
     fs_req 3 (\<lambda>req. FS_CALL req UV_FS_ACCESS ''uv_fs_access'' [AStr path, AInt amode])))"

text \<open>\<^verbatim>\<open>UV_FS_SYMLINK_DIR\<close> is 1 and \<^verbatim>\<open>UV_FS_SYMLINK_JUNCTION\<close> is 2.\<close>

definition luv_fs_symlink :: "nat M" where
  "luv_fs_symlink =
     bindM (luaL_checkstring 1) (\<lambda>path.
     bindM (luaL_checkstring 2) (\<lambda>new_path.
     bindM (lua_istable 3) (\<lambda>t.
     bindM (if t then bindM (opt_flag 3 ''dir'' 1) (\<lambda>f1. bindM (opt_flag 3 ''junction'' 2)
         (\<lambda>f2. retM (f1 + f2))) else retM 0) (\<lambda>flags.
     fs_req 4 (\<lambda>req. FS_CALL req UV_FS_SYMLINK ''uv_fs_symlink''
       [AStr path, AStr new_path, AInt flags])))))"

subsection \<open>Keeping the invariant\<close>

lemma neutral_fs_args [neu]:
  "neutral (luv_fs_check_flags i)" "neutral (luv_fs_check_amode i)"
  "neutral (fs_message r)"
  unfolding luv_fs_check_flags_def luv_fs_check_amode_def fs_message_def
  by (intro neu)+

lemma neutral_stats [neu]:
  "neutral (out_stat k)" "neutral (luv_push_timespec_table t)" "neutral (luv_push_stats_table st)"
proof -
  show "neutral (out_stat k)" by (rule leavesI) (simp add: out_stat_def Let_def)
  show t: "neutral (luv_push_timespec_table t)" for t
    unfolding luv_push_timespec_table_def by (intro neu)
  show "neutral (luv_push_stats_table st)"
    unfolding luv_push_stats_table_def by (intro neu t)
qed

lemma neutral_push_fs_result [neu]: "neutral (push_fs_result req)"
  unfolding push_fs_result_def by (intro neu)

lemmas keep_fs_neutral [THEN keep_neutral, hw] =
  neutral_fs_args neutral_stats neutral_push_fs_result

lemma keep_fs_updates [hw]: "keeps E (uv_fs_req_cleanup req)" "keeps E (uv_fs_call req ty f args)"
  "keeps E (luv_fs_check i)"
proof -
  have u: "keeps E (bindM (get_r req) (\<lambda>r. put_r req (r\<lparr>r_path := x, r_ptr := y\<rparr>)))" for req x y
    by (rule keep_update_r, rule keep_put_r) simp
  have c: "keeps E (bindM (get_r req) (\<lambda>r. put_r req (r\<lparr>r_type := UV_FS, r_fs_type := ty,
      r_result := n, r_path := x, r_ptr := y\<rparr>)))" for req n x y
    by (rule keep_update_r, rule keep_put_r) simp
  have k: "keeps E (bindM (get_r req) (\<lambda>r. let ty = f r in thenM (put_r req (r\<lparr>r_type := ty\<rparr>)) (g ty req)))"
    if "\<And>ty. keeps E (g ty req)" for req f and g :: "uv_req_type \<Rightarrow> nat \<Rightarrow> nat M"
    unfolding Let_def
    by (rule keep_update_r, rule hoare_thenM, rule keep_put_r, simp, rule that)
  show "keeps E (uv_fs_req_cleanup req)"
    unfolding uv_fs_req_cleanup_def by (rule hoare_thenM, rule hw, rule hw, rule u)
  show "keeps E (uv_fs_call req ty f args)"
    unfolding uv_fs_call_def by (rule c hw)+
  show "keeps E (luv_fs_check i)"
    unfolding luv_fs_check_def by (rule k hw)+
qed

lemma keep_fs_release [hw]: "keeps E (fs_release req)"
  unfolding fs_release_def by (rule hw)+

lemma keep_FS_CALL [hw]: "keeps E (FS_CALL req ty f args)"
  unfolding FS_CALL_def by (rule hw)+

lemma keep_fs_req [hw]:
  "(\<And>req. keeps E (k req)) \<Longrightarrow> keeps E (fs_req 1 k)"
  "(\<And>req. keeps E (k req)) \<Longrightarrow> keeps E (fs_req (numeral n) k)"
  unfolding fs_req_def by (rule hw | assumption)+

lemma wf_set_buf:
  assumes w: "wf s" and m: "mem s a = Some (BReq q)"
  shows "wf (s\<lparr>mem := (mem s)(a := Some (BReq (q\<lparr>lr_data := p\<rparr>)))\<rparr>)"
proof (rule wf_put_lr [OF w m])
  have e: "pos_refs (BReq (q\<lparr>lr_data := p\<rparr>)) = pos_refs (BReq q)"
    by (simp add: pos_refs_def block_refs_def)
  show "block_ok (reg s) (BReq (q\<lparr>lr_data := p\<rparr>))"
    using wf_block_ok [OF w m] by (simp add: block_ok_def e cb_ok_def)
  show "set (pos_refs (BReq (q\<lparr>lr_data := p\<rparr>))) \<inter> owned ((mem s)(a := None)) = {}"
    using owned_free [OF w m] e by auto
qed simp

lemma keep_set_req_buf [hw]: "keeps E (set_req_buf req p)"
proof (rule keepsI)
  fix s assume w: "wf s"
  show "case set_req_buf req p E s of (Inl e, s') \<Rightarrow> lua_exc e \<longrightarrow> wf s' | (Inr x, s') \<Rightarrow> wf s'"
    using w wf_set_buf [OF w]
    by (auto simp: set_req_buf_def run_bindM get_r_def get_lr_def put_lr_def run_modM
        split: option.splits block.splits)
qed

lemma keep_fs_simple:
  "keeps E luv_fs_close" "keeps E luv_fs_unlink" "keeps E luv_fs_mkdir"
  "keeps E luv_fs_mkdtemp" "keeps E luv_fs_rmdir" "keeps E luv_fs_stat"
  "keeps E luv_fs_fstat" "keeps E luv_fs_lstat" "keeps E luv_fs_rename"
  "keeps E luv_fs_fsync" "keeps E luv_fs_fdatasync" "keeps E luv_fs_ftruncate"
  "keeps E luv_fs_sendfile" "keeps E luv_fs_chmod" "keeps E luv_fs_fchmod"
  "keeps E luv_fs_utime" "keeps E luv_fs_futime" "keeps E luv_fs_link"
  "keeps E luv_fs_readlink" "keeps E luv_fs_chown" "keeps E luv_fs_fchown"
  unfolding luv_fs_close_def luv_fs_unlink_def luv_fs_mkdir_def luv_fs_mkdtemp_def luv_fs_rmdir_def
    luv_fs_stat_def luv_fs_fstat_def luv_fs_lstat_def luv_fs_rename_def luv_fs_fsync_def
    luv_fs_fdatasync_def luv_fs_ftruncate_def luv_fs_sendfile_def luv_fs_chmod_def
    luv_fs_fchmod_def luv_fs_utime_def luv_fs_futime_def luv_fs_link_def luv_fs_readlink_def
    luv_fs_chown_def luv_fs_fchown_def
  by (rule hw)+

lemma keep_fs_more:
  "keeps E luv_fs_open" "keeps E luv_fs_read" "keeps E luv_fs_write" "keeps E luv_fs_scandir"
  "keeps E luv_fs_scandir_next" "keeps E luv_fs_access" "keeps E luv_fs_symlink"
  unfolding luv_fs_open_def luv_fs_read_def luv_fs_write_def luv_fs_scandir_def
    luv_fs_scandir_next_def luv_fs_access_def luv_fs_symlink_def
  by (rule hw)+

lemma keep_luv_fs_cb: "env_ok E \<Longrightarrow> keeps E (luv_fs_cb req)"
  unfolding luv_fs_cb_def by (rule hw | assumption)+

end
