(* ===== verification/Luv_Fs_Event.thy ===== *)
theory Luv_Fs_Event
  imports Luv_Pipe Luv_Fs
begin

text \<open>\<^verbatim>\<open>luv/luv_fs_event.c\<close> and \<^verbatim>\<open>luv/luv_fs_poll.c\<close>: watching files.\<close>

subsection \<open>Events\<close>

definition luv_fs_event_check :: "int \<Rightarrow> nat M" where
  "luv_fs_event_check index = check_handle ''uv_fs_event'' UV_FS_EVENT ''Expected uv_fs_event_t'' index"

definition luv_fs_event_new :: "nat M" where
  "luv_fs_event_new = new_handle UV_FS_EVENT (\<lambda>u. uv ''uv_fs_event_init'' [AObj u])"

text \<open>\<^verbatim>\<open>UV_RENAME\<close> is bit 0 and \<^verbatim>\<open>UV_CHANGE\<close> bit 1.\<close>

definition luv_fs_event_cb :: "nat \<Rightarrow> string option \<Rightarrow> int \<Rightarrow> int \<Rightarrow> unit M" where
  "luv_fs_event_cb u filename events status =
     thenM (luv_status status)
     (thenM (lua_pushstring filename)
     (thenM lua_newtable
     (thenM (if bit events 0 then thenM (lua_pushboolean True) (lua_setfield (-2) ''rename'') else retM ())
     (thenM (if bit events 1 then thenM (lua_pushboolean True) (lua_setfield (-2) ''change'') else retM ())
     (bindM (handle_data u) (\<lambda>data. luv_callback_call data LUV_EVENT 3))))))"

text \<open>\<^verbatim>\<open>UV_FS_EVENT_WATCH_ENTRY\<close>, \<^verbatim>\<open>_STAT\<close> and \<^verbatim>\<open>_RECURSIVE\<close> are 1, 2 and 4.\<close>

definition luv_fs_event_start :: "nat M" where
  "luv_fs_event_start =
     bindM (luv_fs_event_check 1) (\<lambda>u.
     bindM (luaL_checkstring 2) (\<lambda>path.
     thenM (luaL_checktype 3 TTABLE)
     (bindM (opt_flag 3 ''watch_entry'' 1) (\<lambda>f1.
     bindM (opt_flag 3 ''stat'' 2) (\<lambda>f2.
     bindM (opt_flag 3 ''recursive'' 4) (\<lambda>f3.
     bindM (handle_data u) (\<lambda>data.
     thenM (luv_callback_check data LUV_EVENT 4)
     (bindM (uv ''uv_fs_event_start'' [AObj u, AFn ''luv_fs_event_cb'', AStr path, AInt (f1 + f2 + f3)])
       ret_integer))))))))"

definition luv_fs_event_stop :: "nat M" where
  "luv_fs_event_stop =
     bindM (luv_fs_event_check 1) (\<lambda>u. bindM (uv ''uv_fs_event_stop'' [AObj u]) ret_integer)"

definition luv_fs_event_getpath :: "nat M" where
  "luv_fs_event_getpath =
     bindM (luv_fs_event_check 1) (\<lambda>u.
     bindM (uv ''uv_fs_event_getpath'' [AObj u, AInt PIPE_NAME_MAX]) (\<lambda>ret.
     if ret < 0 then luv_error ret
     else bindM (out_str 0) (\<lambda>buf. thenM (lua_pushlstring buf) (retM 1))))"

subsection \<open>Polling\<close>

definition luv_fs_poll_check :: "int \<Rightarrow> nat M" where
  "luv_fs_poll_check index = check_handle ''uv_fs_poll'' UV_FS_POLL ''Expected uv_fs_poll_t'' index"

definition luv_fs_poll_new :: "nat M" where
  "luv_fs_poll_new = new_handle UV_FS_POLL (\<lambda>u. uv ''uv_fs_poll_init'' [AObj u])"

definition luv_fs_poll_cb :: "nat \<Rightarrow> int \<Rightarrow> uv_stat option \<Rightarrow> uv_stat option \<Rightarrow> unit M" where
  "luv_fs_poll_cb u status prev cur =
     thenM (luv_status status)
     (thenM (case prev of Some st \<Rightarrow> luv_push_stats_table st | None \<Rightarrow> lua_pushnil)
     (thenM (case cur of Some st \<Rightarrow> luv_push_stats_table st | None \<Rightarrow> lua_pushnil)
     (bindM (handle_data u) (\<lambda>data. luv_callback_call data LUV_EVENT 3))))"

definition luv_fs_poll_start :: "nat M" where
  "luv_fs_poll_start =
     bindM (luv_fs_poll_check 1) (\<lambda>u.
     bindM (luaL_checkstring 2) (\<lambda>path.
     bindM (luaL_checkinteger 3) (\<lambda>interval.
     bindM (handle_data u) (\<lambda>data.
     thenM (luv_callback_check data LUV_EVENT 4)
     (bindM (uv ''uv_fs_poll_start'' [AObj u, AFn ''luv_fs_poll_cb'', AStr path, AInt (c_uint interval)])
       ret_integer)))))"

definition luv_fs_poll_stop :: "nat M" where
  "luv_fs_poll_stop =
     bindM (luv_fs_poll_check 1) (\<lambda>u. bindM (uv ''uv_fs_poll_stop'' [AObj u]) ret_integer)"

definition luv_fs_poll_getpath :: "nat M" where
  "luv_fs_poll_getpath =
     bindM (luv_fs_poll_check 1) (\<lambda>u.
     bindM (uv ''uv_fs_poll_getpath'' [AObj u, AInt PIPE_NAME_MAX]) (\<lambda>ret.
     if ret < 0 then luv_error ret
     else bindM (out_str 0) (\<lambda>buf. thenM (lua_pushlstring buf) (retM 1))))"

subsection \<open>Keeping the invariant\<close>

lemma keep_fs_event_api:
  "keeps E luv_fs_event_new" "keeps E luv_fs_event_start" "keeps E luv_fs_event_stop"
  "keeps E luv_fs_event_getpath"
  unfolding luv_fs_event_new_def luv_fs_event_start_def luv_fs_event_stop_def
    luv_fs_event_getpath_def luv_fs_event_check_def
  by (rule hw handle_lc.simps)+

lemma keep_fs_poll_api:
  "keeps E luv_fs_poll_new" "keeps E luv_fs_poll_start" "keeps E luv_fs_poll_stop"
  "keeps E luv_fs_poll_getpath"
  unfolding luv_fs_poll_new_def luv_fs_poll_start_def luv_fs_poll_stop_def
    luv_fs_poll_getpath_def luv_fs_poll_check_def
  by (rule hw handle_lc.simps)+

lemma keep_fs_watch_cb:
  assumes "env_ok E"
  shows "keeps E (luv_fs_event_cb u f ev st)" "keeps E (luv_fs_poll_cb u st p c)"
  unfolding luv_fs_event_cb_def luv_fs_poll_cb_def by (rule hw assms)+

end
