(* ===== verification/Luv_Dns.thy ===== *)
theory Luv_Dns
  imports Luv_Tcp
begin

text \<open>
  \<^verbatim>\<open>luv/luv_dns.c\<close>: name resolution.  Like the file operations, a call without a continuation
  is synchronous.
\<close>

unbundle bit_operations_syntax

subsection \<open>Address lists\<close>

record addrinfo =
  ai_family :: int
  ai_addr :: string
  ai_port :: int
  ai_socktype :: int
  ai_protocol :: int
  ai_canonname :: "string option"

text \<open>
  The list a resolver call answers: \<open>uv_int 1\<close> nodes, four numbers and two texts each.  A
  port is given as \<^verbatim>\<open>ntohs\<close> of the field.
\<close>

definition out_addrinfo :: "addrinfo list M" where
  "out_addrinfo = (\<lambda>E s. let l = uvlog s in
     (Inr (map (\<lambda>i. \<lparr>ai_family = uv_int E l (4 * i + 2), ai_addr = (case uv_text E l (2 * i) of
           None \<Rightarrow> [] | Some t \<Rightarrow> t), ai_port = uv_int E l (4 * i + 3),
           ai_socktype = uv_int E l (4 * i + 4), ai_protocol = uv_int E l (4 * i + 5),
           ai_canonname = uv_text E l (2 * i + 1)\<rparr>) [0..<nat (uv_int E l 1)]), s))"

text \<open>
  The loop of \<^verbatim>\<open>luv_pushaddrinfo\<close>: \<open>i\<close> counts the entries stored and \<open>ip\<close> is the content of
  the local array, unset before the first successful \<^verbatim>\<open>uv_inet_ntop\<close>.
\<close>

fun push_addrinfos :: "addrinfo list \<Rightarrow> int \<Rightarrow> string option \<Rightarrow> unit M" where
  "push_addrinfos [] i ip = retM ()"
| "push_addrinfos (cur # rest) i ip =
     bindM (askM (\<lambda>E. (cpp E ''AF_INET'', cpp E ''AF_INET6''))) (\<lambda>(inet, inet6).
     if ai_family cur = inet \<or> ai_family cur = inet6 then
       thenM lua_newtable
       (thenM (bindM (askM (\<lambda>E. luv_af_num_to_string E (ai_family cur))) lua_pushstring)
       (thenM (lua_setfield (-2) ''family'')
       (bindM (uv ''uv_inet_ntop'' [AInt (ai_family cur), AStr (ai_addr cur)]) (\<lambda>r.
       bindM (out_str 0) (\<lambda>t. let ip' = (if r = 0 then Some t else ip) in
       thenM (case ip' of None \<Rightarrow> crash Uninitialised | Some t \<Rightarrow> lua_pushstring (Some t))
       (thenM (lua_setfield (-2) ''addr'')
       (thenM (if ai_port cur \<noteq> 0
          then thenM (lua_pushinteger (ai_port cur)) (lua_setfield (-2) ''port'') else retM ())
       (thenM (bindM (askM (\<lambda>E. luv_sock_num_to_string E (ai_socktype cur))) lua_pushstring)
       (thenM (lua_setfield (-2) ''socktype'')
       (thenM (bindM (askM (\<lambda>E. luv_af_num_to_string E (ai_protocol cur))) lua_pushstring)
       (thenM (lua_setfield (-2) ''protocol'')
       (thenM (case ai_canonname cur of
            Some n \<Rightarrow> thenM (lua_pushstring (Some n)) (lua_setfield (-2) ''canonname'')
          | None \<Rightarrow> retM ())
       (thenM (lua_rawseti (-2) (i + 1))
       (push_addrinfos rest (i + 1) ip'))))))))))))))
     else push_addrinfos rest i ip)"

definition luv_pushaddrinfo :: "addrinfo list \<Rightarrow> unit M" where
  "luv_pushaddrinfo res = thenM lua_newtable (push_addrinfos res 0 None)"

definition luv_getaddrinfo_cb :: "nat \<Rightarrow> int \<Rightarrow> addrinfo list \<Rightarrow> unit M" where
  "luv_getaddrinfo_cb req status res =
     bindM (if status < 0 then thenM (luv_status status) (retM 1)
        else thenM lua_pushnil (thenM (luv_pushaddrinfo res) (retM 2))) (\<lambda>nargs.
     bindM (get_r req) (\<lambda>r.
     thenM (luv_req_fulfill (r_data r) nargs)
     (bindM (get_r req) (\<lambda>r.
     thenM (luv_req_cleanup (r_data r))
     (thenM (r_data_null req)
     (if res \<noteq> [] then uv_void ''uv_freeaddrinfo'' [] else retM ()))))))"

subsection \<open>\<^verbatim>\<open>getaddrinfo\<close>\<close>

definition opt_string :: "int \<Rightarrow> string option M" where
  "opt_string i = bindM (lua_isnoneornil i) (\<lambda>b. if b then retM None
     else bindM (luaL_checkstring i) (\<lambda>t. retM (Some t)))"

definition opt_continuation :: "int \<Rightarrow> int M" where
  "opt_continuation i = bindM (lua_isnoneornil i) (\<lambda>b. if b then retM LUA_NOREF
     else luv_req_check_continuation i)"

text \<open>The hint \<open>k\<close> of the table at \<open>index\<close>: a number, a string translated by \<open>f\<close>, or nil.\<close>

definition hint :: "int \<Rightarrow> string \<Rightarrow> (string \<Rightarrow> int M) \<Rightarrow> int M \<Rightarrow> string \<Rightarrow> int M" where
  "hint index k f dflt msg =
     thenM (lua_getfield index k)
     (bindM (lua_isnumber (-1)) (\<lambda>isnum.
     bindM (if isnum then bindM (lua_tointeger (-1)) (\<lambda>n. retM (c_int n))
        else bindM (lua_isstring (-1)) (\<lambda>isstr.
          if isstr then bindM (luaL_checkstring (-1)) f
          else bindM (lua_isnil (-1)) (\<lambda>isnil.
            if isnil then dflt else luaL_argerror index msg))) (\<lambda>v.
     thenM (lua_pop 1) (retM v))))"

definition hint_family :: "int M" where
  "hint_family = hint 3 ''family'' (\<lambda>t. askM (\<lambda>E. luv_af_string_to_num E (Some t)))
     (askM (\<lambda>E. cpp E ''AF_UNSPEC'')) ''family hint must be string if set''"

definition hint_socktype :: "int M" where
  "hint_socktype = hint 3 ''socktype'' (\<lambda>t. askM (\<lambda>E. luv_sock_string_to_num E (Some t)))
     (retM 0) ''socktype hint must be string if set''"

definition hint_protocol :: "int M" where
  "hint_protocol = hint 3 ''protocol''
     (\<lambda>t. bindM (askM (\<lambda>E. luv_af_string_to_num E (Some t))) (\<lambda>protocol.
        if protocol \<noteq> 0 then retM protocol else luaL_argerror 3 ''Invalid protocol hint''))
     (retM 0) ''protocol hint must be string if set''"

text \<open>One boolean hint, or-ed into the flags.\<close>

definition hint_flag :: "string \<Rightarrow> string \<Rightarrow> int \<Rightarrow> int M" where
  "hint_flag k macro flags =
     thenM (lua_getfield 3 k)
     (bindM (lua_toboolean (-1)) (\<lambda>b.
     bindM (askM (\<lambda>E. if b then flags OR cpp E macro else flags)) (\<lambda>flags'.
     thenM (lua_pop 1) (retM flags'))))"

text \<open>
  All hints: family, socket type, protocol and flags, and the service, which \<^verbatim>\<open>numericserv\<close>
  replaces when it is absent.
\<close>

definition addr_hints :: "string option \<Rightarrow> (uvarg list \<times> string option) M" where
  "addr_hints service =
     bindM hint_family (\<lambda>family.
     bindM hint_socktype (\<lambda>socktype.
     bindM hint_protocol (\<lambda>protocol.
     bindM (hint_flag ''addrconfig'' ''AI_ADDRCONFIG'' 0) (\<lambda>f1.
     bindM (hint_flag ''v4mapped'' ''AI_V4MAPPED'' f1) (\<lambda>f2.
     bindM (hint_flag ''all'' ''AI_ALL'' f2) (\<lambda>f3.
     bindM (hint_flag ''numerichost'' ''AI_NUMERICHOST'' f3) (\<lambda>f4.
     bindM (hint_flag ''passive'' ''AI_PASSIVE'' f4) (\<lambda>f5.
     thenM (lua_getfield 3 ''numericserv'')
     (bindM (lua_toboolean (-1)) (\<lambda>ns.
     thenM (lua_pop 1)
     (bindM (askM (\<lambda>E. if ns then f5 OR cpp E ''AI_NUMERICSERV'' else f5)) (\<lambda>f6.
     bindM (hint_flag ''canonname'' ''AI_CANONNAME'' f6) (\<lambda>f7.
     retM ([AInt family, AInt socktype, AInt protocol, AInt f7],
       if ns \<and> service = None then Some ''00'' else service))))))))))))))"

definition str_arg :: "string option \<Rightarrow> uvarg" where
  "str_arg t = (case t of None \<Rightarrow> ANull | Some t \<Rightarrow> AStr t)"

definition luv_getaddrinfo :: "nat M" where
  "luv_getaddrinfo =
     bindM (opt_string 1) (\<lambda>node.
     bindM (opt_string 2) (\<lambda>service.
     bindM (lua_isnoneornil 3) (\<lambda>nohints.
     thenM (if nohints then retM () else luaL_checktype 3 TTABLE)
     (bindM (opt_continuation 4) (\<lambda>ref.
     bindM (if nohints then retM ([ANull], service) else addr_hints service) (\<lambda>(hints, service).
     bindM (new_req ref) (\<lambda>req.
     bindM (uv_req_call req UV_GETADDRINFO ''uv_getaddrinfo''
        ([AObj req, if ref = LUA_NOREF then ANull else AFn ''luv_getaddrinfo_cb'',
          str_arg node, str_arg service] @ hints)) (\<lambda>ret.
     if ret < 0 then thenM (lua_pop 1) (luv_error ret)
     else if ref = LUA_NOREF then
       thenM (lua_pop 1)
       (bindM out_addrinfo (\<lambda>res.
       thenM (luv_pushaddrinfo res)
       (thenM (uv_void ''uv_freeaddrinfo'' [])
       (bindM (get_r req) (\<lambda>r. thenM (luv_req_cleanup (r_data r)) (retM 1))))))
     else retM 1))))))))"

subsection \<open>\<^verbatim>\<open>getnameinfo\<close>\<close>

definition luv_getnameinfo_cb :: "nat \<Rightarrow> int \<Rightarrow> string option \<Rightarrow> string option \<Rightarrow> unit M" where
  "luv_getnameinfo_cb req status hostname service =
     bindM (if status < 0 then thenM (luv_status status) (retM 1)
        else thenM lua_pushnil (thenM (lua_pushstring hostname)
          (thenM (lua_pushstring service) (retM 3)))) (\<lambda>nargs.
     bindM (get_r req) (\<lambda>r.
     thenM (luv_req_fulfill (r_data r) nargs)
     (bindM (get_r req) (\<lambda>r. thenM (luv_req_cleanup (r_data r)) (r_data_null req)))))"

text \<open>The \<^verbatim>\<open>ip\<close> and \<^verbatim>\<open>port\<close> properties.\<close>

definition nameinfo_ip :: "string option M" where
  "nameinfo_ip =
     thenM (lua_getfield 1 ''ip'')
     (bindM (lua_isstring (-1)) (\<lambda>isstr.
     bindM (if isstr then bindM (luaL_checkstring (-1)) (\<lambda>t. retM (Some t))
        else bindM (lua_isnil (-1)) (\<lambda>isnil.
          if isnil then retM None else luaL_argerror 1 ''ip property must be string if set'')) (\<lambda>ip.
     thenM (lua_pop 1) (retM ip))))"

definition nameinfo_port :: "int M" where
  "nameinfo_port =
     thenM (lua_getfield 1 ''port'')
     (bindM (lua_isnumber (-1)) (\<lambda>isnum.
     bindM (if isnum then bindM (lua_tointeger (-1)) (\<lambda>n. retM (c_int n))
        else bindM (lua_isnil (-1)) (\<lambda>isnil.
          if isnil then retM 0 else luaL_argerror 1 ''port property must be integer if set'')) (\<lambda>port.
     thenM (lua_pop 1) (retM port))))"

text \<open>The address: family, ip and port; all zero when neither is given.\<close>

definition nameinfo_addr :: "string option \<Rightarrow> int \<Rightarrow> (int \<times> string \<times> int) M" where
  "nameinfo_addr ip port =
     (if ip \<noteq> None \<or> port \<noteq> 0 then
        let a = (case ip of None \<Rightarrow> ''0.0.0.0'' | Some t \<Rightarrow> t) in
        bindM (uv ''uv_ip4_addr'' [AStr a, AInt port]) (\<lambda>r4.
        if r4 = 0 then bindM (askM (\<lambda>E. cpp E ''AF_INET'')) (\<lambda>f. retM (f, a, port))
        else bindM (uv ''uv_ip6_addr'' [AStr a, AInt port]) (\<lambda>r6.
          if r6 = 0 then bindM (askM (\<lambda>E. cpp E ''AF_INET6'')) (\<lambda>f. retM (f, a, port))
          else luaL_argerror 1 ''Invalid ip address or port''))
      else retM (0, '''', 0))"

text \<open>The family property, stored in the 16-bit \<^verbatim>\<open>ss_family\<close>.\<close>

definition nameinfo_family :: "int \<Rightarrow> int M" where
  "nameinfo_family family = bindM
     (hint 1 ''family'' (\<lambda>t. askM (\<lambda>E. luv_af_string_to_num E (Some t)))
       (retM family) ''family must be string if set'') (\<lambda>f. retM (wrap_u 16 f))"

definition luv_getnameinfo :: "nat M" where
  "luv_getnameinfo =
     thenM (luaL_checktype 1 TTABLE)
     (bindM nameinfo_ip (\<lambda>ip.
     bindM nameinfo_port (\<lambda>port.
     bindM (nameinfo_addr ip port) (\<lambda>(family, a, p).
     bindM (nameinfo_family family) (\<lambda>family.
     bindM (opt_continuation 2) (\<lambda>ref.
     bindM (new_req ref) (\<lambda>req.
     bindM (uv_req_call req UV_GETNAMEINFO ''uv_getnameinfo''
        [AObj req, if ref = LUA_NOREF then ANull else AFn ''luv_getnameinfo_cb'',
         AInt family, AStr a, AInt p, AInt 0]) (\<lambda>ret.
     if ret < 0 then thenM (lua_pop 1) (luv_error ret)
     else if ref = LUA_NOREF then
       thenM (lua_pop 1)
       (bindM (uv_outs 0) (\<lambda>host. bindM (uv_outs 1) (\<lambda>service.
       thenM (lua_pushstring host)
       (thenM (lua_pushstring service)
       (bindM (get_r req) (\<lambda>r. thenM (luv_req_cleanup (r_data r)) (retM 2)))))))
     else retM 1))))))))"

subsection \<open>Keeping the invariant\<close>

lemma neutral_push_addrinfos [neu]: "neutral (push_addrinfos res i ip)"
proof (induction res arbitrary: i ip)
  case (Cons cur rest)
  show ?case unfolding push_addrinfos.simps by (intro neu Cons.IH)
qed (simp add: leaves_retM)

lemma neutral_hint [neu]:
  "neutral dflt \<Longrightarrow> (\<And>t. neutral (f t)) \<Longrightarrow> neutral (hint index k f dflt msg)"
  unfolding hint_def by (intro neu)

lemma neutral_dns [neu]:
  "neutral out_addrinfo" "neutral (luv_pushaddrinfo res)" "neutral (opt_string i)"
  "neutral hint_family" "neutral hint_socktype" "neutral hint_protocol" "neutral (hint_flag k m n)"
  "neutral nameinfo_ip" "neutral nameinfo_port" "neutral (nameinfo_addr ip p)"
  "neutral (nameinfo_family n)"
proof -
  show "neutral out_addrinfo" by (rule leavesI) (simp add: out_addrinfo_def Let_def)
qed (unfold luv_pushaddrinfo_def opt_string_def hint_family_def hint_socktype_def hint_protocol_def
    hint_flag_def nameinfo_ip_def nameinfo_port_def nameinfo_addr_def nameinfo_family_def,
    (intro neu)+)

lemma neutral_addr_hints [neu]: "neutral (addr_hints service)"
  unfolding addr_hints_def by (intro neu)

lemmas keep_dns_neutral [THEN keep_neutral, hw] = neutral_dns neutral_addr_hints

lemma keep_opt_continuation:
  assumes "0 < i"
  shows "keep E wf (opt_continuation i) wfr"
proof -
  have n: "keep E wf (retM LUA_NOREF) wfr"
    by (simp add: hoare_def retM_def wfr_def held_def)
  show ?thesis
    unfolding opt_continuation_def
    by (rule hoare_bindM, rule hw, rule hw, rule hoare_if, rule n, rule keep_check_continuation)
      (rule assms)
qed

lemma keep_opt_continuation_nat [hw]:
  "keep E wf (opt_continuation 1) wfr" "keep E wf (opt_continuation (numeral n)) wfr"
  by (rule keep_opt_continuation; simp)+

lemma keep_dns_api: "keeps E luv_getaddrinfo" "keeps E luv_getnameinfo"
  unfolding luv_getaddrinfo_def luv_getnameinfo_def by (rule hw)+

lemma keep_dns_cb:
  assumes "env_ok E"
  shows "keeps E (luv_getaddrinfo_cb req st res)" "keeps E (luv_getnameinfo_cb req st h sv)"
  unfolding luv_getaddrinfo_cb_def luv_getnameinfo_cb_def by (rule hw assms)+

end
