(* ===== verification/Luv_Process.thy ===== *)
theory Luv_Process
  imports Luv_Stream Luv_Constants
begin

text \<open>
  \<^verbatim>\<open>luv/luv_process.c\<close>: child processes.  \<^verbatim>\<open>luv_process_spawn\<close> collects its options in three
  \<^verbatim>\<open>malloc\<close> blocks, released on every path that reports an option error itself.
\<close>

unbundle bit_operations_syntax

definition luv_process_disable_stdio_inheritance :: "nat M" where
  "luv_process_disable_stdio_inheritance =
     thenM (uv_void ''uv_disable_stdio_inheritance'' []) (retM 0)"

definition luv_process_check :: "int \<Rightarrow> nat M" where
  "luv_process_check index = check_handle ''uv_process'' UV_PROCESS ''Expected uv_process_t'' index"

definition exit_cb :: "nat \<Rightarrow> int \<Rightarrow> int \<Rightarrow> unit M" where
  "exit_cb u exit_status term_signal =
     thenM (lua_pushinteger exit_status)
     (thenM (lua_pushinteger term_signal)
     (bindM (handle_data u) (\<lambda>data. luv_callback_call data LUV_EVENT 2)))"

definition luv_spawn_close_cb :: "nat \<Rightarrow> unit M" where
  "luv_spawn_close_cb u = bindM (handle_data u) luv_handle_cleanup"

record proc_options =
  o_args :: "nat option"
  o_argv :: "string option list"
  o_stdio :: "nat option"
  o_fds :: "uvarg list"
  o_env :: "nat option"
  o_envv :: "string option list"
  o_cwd :: "string option"
  o_uid :: int
  o_gid :: int
  o_flags :: int

definition no_options :: proc_options where
  "no_options = \<lparr>o_args = None, o_argv = [], o_stdio = None, o_fds = [], o_env = None, o_envv = [],
     o_cwd = None, o_uid = 0, o_gid = 0, o_flags = 0\<rparr>"

definition luv_clean_options :: "proc_options \<Rightarrow> unit M" where
  "luv_clean_options o1 =
     thenM (free_block (o_args o1)) (thenM (free_block (o_stdio o1)) (free_block (o_env o1)))"

text \<open>An option error: the blocks are released, then the Lua error is raised.\<close>

definition option_error :: "proc_options \<Rightarrow> 'a M \<Rightarrow> 'a M" where
  "option_error o1 err = thenM (luv_clean_options o1) err"

text \<open>The texts of the table on top of the stack, at the given indices.\<close>

definition table_texts :: "nat list \<Rightarrow> string option list M" where
  "table_texts is = mapM (\<lambda>i. thenM (lua_rawgeti (-1) (int i))
     (bindM (lua_tostring (-1)) (\<lambda>t. thenM (lua_pop 1) (retM t)))) is"

definition spawn_args :: "string \<Rightarrow> proc_options \<Rightarrow> proc_options M" where
  "spawn_args file o1 =
     thenM (lua_getfield 2 ''args'')
     (bindM (lua_type (-1)) (\<lambda>ty.
     bindM (if ty = TTABLE then bindM (lua_rawlen (-1)) (\<lambda>n. retM (1 + n))
        else if ty \<noteq> TNIL then option_error o1 (luaL_argerror 3 ''args option must be table'')
        else retM 1) (\<lambda>len.
     bindM (malloc BBuf) (\<lambda>p.
     if p = None then option_error o1 (luaL_error ''Problem allocating args'')
     else bindM (table_texts [1..<len]) (\<lambda>ts.
       thenM (lua_pop 1) (retM (o1\<lparr>o_args := p, o_argv := Some file # ts\<rparr>)))))))"

text \<open>
  One entry of the stdio table, which is on top of the stack: flags and datum.
  \<^verbatim>\<open>UV_INHERIT_FD\<close> is 2, \<^verbatim>\<open>UV_INHERIT_STREAM\<close> 4, \<^verbatim>\<open>UV_IGNORE\<close> 0, and a new pipe that can be
  read and written is 49.
\<close>

definition stdio_entry :: "proc_options \<Rightarrow> uvarg list M" where
  "stdio_entry o1 =
     bindM (lua_type (-1)) (\<lambda>ty.
     if ty = TNUMBER then bindM (lua_tointeger (-1)) (\<lambda>fd. retM [AInt 2, AInt (c_int fd)])
     else if ty = TUSERDATA then
       bindM (luv_stream_check (-1)) (\<lambda>stream.
       bindM (uv ''uv_fileno'' [AObj stream]) (\<lambda>err.
       bindM (askM (\<lambda>E. Some err = cst E ''UV__EINVAL'' \<or> Some err = cst E ''UV__EBADF'')) (\<lambda>new.
         retM [AInt (if new then 49 else 4), AObj stream])))
     else if ty = TNIL then retM [AInt 0, ANull]
     else option_error o1
       (luaL_argerror 2 ''stdio table entries must be nil, uv_stream_t, or integer''))"

definition spawn_stdio :: "proc_options \<Rightarrow> proc_options M" where
  "spawn_stdio o1 =
     thenM (lua_getfield 2 ''stdio'')
     (bindM (lua_type (-1)) (\<lambda>ty.
     bindM (if ty = TTABLE then
         bindM (lua_rawlen (-1)) (\<lambda>len.
         bindM (malloc BBuf) (\<lambda>p.
         if p = None then option_error o1 (luaL_error ''Problem allocating stdio'')
         else let o2 = o1\<lparr>o_stdio := p\<rparr> in
           bindM (mapM (\<lambda>i. thenM (lua_rawgeti (-1) (int i + 1))
              (bindM (stdio_entry o2) (\<lambda>e. thenM (lua_pop 1) (retM e)))) [0..<len]) (\<lambda>es.
           retM (o2\<lparr>o_fds := concat es\<rparr>))))
       else if ty \<noteq> TNIL then option_error o1 (luaL_argerror 2 ''stdio option must be table'')
       else retM o1) (\<lambda>o3.
     thenM (lua_pop 1) (retM o3))))"

definition spawn_env :: "proc_options \<Rightarrow> proc_options M" where
  "spawn_env o1 =
     thenM (lua_getfield 2 ''env'')
     (bindM (lua_type (-1)) (\<lambda>ty.
     bindM (if ty = TTABLE then
         bindM (lua_rawlen (-1)) (\<lambda>len.
         bindM (malloc BBuf) (\<lambda>p.
         if p = None then option_error o1 (luaL_error ''Problem allocating env'')
         else bindM (table_texts [1..<Suc len]) (\<lambda>ts. retM (o1\<lparr>o_env := p, o_envv := ts\<rparr>))))
       else if ty \<noteq> TNIL then option_error o1 (luaL_argerror 2 ''env option must be table'')
       else retM o1) (\<lambda>o2.
     thenM (lua_pop 1) (retM o2))))"

definition spawn_cwd :: "proc_options \<Rightarrow> proc_options M" where
  "spawn_cwd o1 =
     thenM (lua_getfield 2 ''cwd'')
     (bindM (lua_type (-1)) (\<lambda>ty.
     bindM (if ty = TSTRING then bindM (lua_tostring (-1)) (\<lambda>t. retM (o1\<lparr>o_cwd := t\<rparr>))
       else if ty \<noteq> TNIL then option_error o1 (luaL_argerror 2 ''cwd option must be string'')
       else retM o1) (\<lambda>o2.
     thenM (lua_pop 1) (retM o2))))"

text \<open>\<^verbatim>\<open>UV_PROCESS_SETUID\<close> is 1 and \<^verbatim>\<open>UV_PROCESS_SETGID\<close> is 2.\<close>

definition spawn_uid :: "proc_options \<Rightarrow> proc_options M" where
  "spawn_uid o1 =
     thenM (lua_getfield 2 ''uid'')
     (bindM (lua_type (-1)) (\<lambda>ty.
     bindM (if ty = TNUMBER then bindM (lua_tointeger (-1)) (\<lambda>n.
         retM (o1\<lparr>o_uid := c_uint n, o_flags := o_flags o1 OR 1\<rparr>))
       else if ty \<noteq> TNIL then option_error o1 (luaL_argerror 2 ''uid option must be number'')
       else retM o1) (\<lambda>o2.
     thenM (lua_pop 1) (retM o2))))"

definition spawn_gid :: "proc_options \<Rightarrow> proc_options M" where
  "spawn_gid o1 =
     thenM (lua_getfield 2 ''gid'')
     (bindM (lua_type (-1)) (\<lambda>ty.
     bindM (if ty = TNUMBER then bindM (lua_tointeger (-1)) (\<lambda>n.
         retM (o1\<lparr>o_gid := c_uint n, o_flags := o_flags o1 OR 2\<rparr>))
       else if ty \<noteq> TNIL then option_error o1 (luaL_argerror 2 ''gid option must be number'')
       else retM o1) (\<lambda>o2.
     thenM (lua_pop 1) (retM o2))))"

text \<open>The boolean options, with the flags 4, 8 and 16.\<close>

definition spawn_flags :: "proc_options \<Rightarrow> proc_options M" where
  "spawn_flags o1 =
     bindM (opt_flag 2 ''verbatim'' 4) (\<lambda>f1.
     bindM (opt_flag 2 ''detached'' 8) (\<lambda>f2.
     bindM (opt_flag 2 ''hide'' 16) (\<lambda>f3.
     retM (o1\<lparr>o_flags := o_flags o1 OR f1 OR f2 OR f3\<rparr>))))"

definition spawn_options :: "string \<Rightarrow> proc_options M" where
  "spawn_options file =
     bindM (spawn_args file no_options) (\<lambda>o1.
     bindM (spawn_stdio o1) (\<lambda>o2.
     bindM (spawn_env o2) (\<lambda>o3.
     bindM (spawn_cwd o3) (\<lambda>o4.
     bindM (spawn_uid o4) (\<lambda>o5.
     bindM (spawn_gid o5) spawn_flags)))))"

text \<open>
  The handle is set up before \<^verbatim>\<open>uv_spawn\<close>; if that fails, the handle is closed, and its
  \<^verbatim>\<open>luv_handle_t\<close> released by \<open>luv_spawn_close_cb\<close>.
\<close>

definition luv_process_spawn :: "nat M" where
  "luv_process_spawn =
     bindM (luaL_checkstring 1) (\<lambda>file.
     thenM (luaL_checktype 2 TTABLE)
     (bindM (spawn_options file) (\<lambda>opts.
     new_handle_then UV_PROCESS (\<lambda>u. retM 0) (\<lambda>u data.
       bindM (lua_isnoneornil 3) (\<lambda>nocb.
       thenM (if nocb then retM () else luv_callback_check data LUV_EVENT 3)
       (bindM (uv ''uv_spawn'' ([AObj u, AStr file, AStrs (o_argv opts), AStrs (o_envv opts),
          (case o_cwd opts of None \<Rightarrow> ANull | Some d \<Rightarrow> AStr d), AInt (o_uid opts), AInt (o_gid opts),
          AInt (o_flags opts), AFn ''exit_cb''] @ o_fds opts)) (\<lambda>ret.
       thenM (luv_clean_options opts)
       (if ret < 0 then thenM (uv_close u ''luv_spawn_close_cb'') (luv_error ret)
        else bindM (uv_out 0) (\<lambda>pid. thenM (lua_pushinteger pid) (retM 2))))))))))"

definition luv_parse_signal :: "int \<Rightarrow> int M" where
  "luv_parse_signal slot =
     bindM (lua_isnumber slot) (\<lambda>isnum.
     if isnum then bindM (luaL_checknumber slot) (\<lambda>n. askM (\<lambda>E. num2cint E n))
     else bindM (lua_isstring slot) (\<lambda>isstr.
       if isstr then bindM (luaL_checkstring slot) (\<lambda>t. askM (\<lambda>E. luv_sig_string_to_num E (Some t)))
       else askM (\<lambda>E. cpp E ''SIGTERM'')))"

definition luv_process_kill :: "nat M" where
  "luv_process_kill =
     bindM (luv_process_check 1) (\<lambda>u. bindM (luv_parse_signal 2) (\<lambda>signum.
     bindM (uv ''uv_process_kill'' [AObj u, AInt signum]) ret_integer))"

definition luv_kill :: "nat M" where
  "luv_kill =
     bindM (check_c_int 1) (\<lambda>pid. bindM (luv_parse_signal 2) (\<lambda>signum.
     bindM (uv ''uv_kill'' [AInt pid, AInt signum]) ret_integer))"

subsection \<open>Keeping the invariant\<close>

lemma neutral_process [neu]: "neutral (table_texts is)" "neutral (luv_parse_signal i)"
  "neutral (spawn_flags o1)"
  unfolding table_texts_def luv_parse_signal_def spawn_flags_def by (intro neu)+

lemmas keep_process_neutral [THEN keep_neutral, hw] = neutral_process

lemma keep_option_error [hw]:
  "keeps E (luv_clean_options o1)" "keeps E err \<Longrightarrow> keeps E (option_error o1 err)"
  unfolding option_error_def luv_clean_options_def by (rule hw | assumption)+

lemma keep_stdio_entry [hw]: "keeps E (stdio_entry o1)"
  unfolding stdio_entry_def by (rule hw)+

lemma keep_spawn_options [hw]: "keeps E (spawn_options file)"
  unfolding spawn_options_def spawn_args_def spawn_stdio_def spawn_env_def spawn_cwd_def
    spawn_uid_def spawn_gid_def
  by (rule hw)+

lemma keep_new_process [hw]:
  assumes "\<And>u d. keeps E (k u d)"
  shows "keeps E (new_handle_then UV_PROCESS (\<lambda>u. retM 0) k)"
  unfolding new_handle_then_def
  by (rule hoare_bindM, rule keep_init_handle)
    (auto intro!: leavesI hoare_retM assms simp: run_retM leaves_retM split: sum.splits)

lemma keep_process_api:
  "keeps E luv_process_disable_stdio_inheritance" "keeps E luv_process_spawn"
  "keeps E luv_process_kill" "keeps E luv_kill"
  unfolding luv_process_disable_stdio_inheritance_def luv_process_spawn_def luv_process_kill_def
    luv_process_check_def luv_kill_def
  by (rule hw)+

lemma keep_process_cb:
  assumes "env_ok E"
  shows "keeps E (exit_cb u st sg)" "keeps E (luv_spawn_close_cb u)"
  unfolding exit_cb_def luv_spawn_close_cb_def by (rule hw assms)+

end
