(* ===== verification/Luv_Misc.thy ===== *)
theory Luv_Misc
  imports Luv_Pipe
begin

text \<open>
  \<^verbatim>\<open>luv/luv_misc.c\<close>: facts about the process and the machine.  Everything read is the
  environment's; the functions turn it into Lua values and tables.
\<close>

text \<open>\<^verbatim>\<open>uv_guess_handle\<close> can also answer \<^verbatim>\<open>UV_FILE\<close>, which is not in the type map.\<close>

definition luv_guess_handle :: "nat M" where
  "luv_guess_handle =
     bindM (check_c_int 1) (\<lambda>file.
     bindM (uv ''uv_guess_handle'' [AInt file]) (\<lambda>n.
       case handle_lc (handle_type_of n) of
         Some lc \<Rightarrow> thenM (lua_pushstring (Some lc)) (retM 1)
       | None \<Rightarrow> if handle_type_of n = UV_FILE
           then thenM (lua_pushstring (Some ''file'')) (retM 1) else retM 0))"

definition luv_version :: "nat M" where
  "luv_version = bindM (uv ''uv_version'' []) (\<lambda>v. thenM (lua_pushinteger (c_uint v)) (retM 1))"

definition luv_version_string :: "nat M" where
  "luv_version_string = thenM (uv_void ''uv_version_string'' [])
     (bindM (uv_outs 0) (\<lambda>v. thenM (lua_pushstring v) (retM 1)))"

abbreviation MAX_TITLE_LENGTH :: int where "MAX_TITLE_LENGTH \<equiv> 8192"

definition luv_get_process_title :: "nat M" where
  "luv_get_process_title =
     bindM (uv ''uv_get_process_title'' [AInt MAX_TITLE_LENGTH]) (\<lambda>ret.
     if ret < 0 then luv_error ret
     else bindM (out_str 0) (\<lambda>title. thenM (lua_pushstring (Some title)) (retM 1)))"

definition luv_set_process_title :: "nat M" where
  "luv_set_process_title = bindM (luaL_checkstring 1) (\<lambda>title.
     bindM (uv ''uv_set_process_title'' [AStr title]) ret_integer)"

definition luv_resident_set_memory :: "nat M" where
  "luv_resident_set_memory =
     bindM (uv ''uv_resident_set_memory'' []) (\<lambda>ret.
     if ret < 0 then luv_error ret
     else bindM (uv_out 0) (\<lambda>rss. thenM (lua_pushinteger rss) (retM 1)))"

definition luv_uptime :: "nat M" where
  "luv_uptime =
     bindM (uv ''uv_uptime'' []) (\<lambda>ret.
     if ret < 0 then luv_error ret
     else bindM (uv_outd 0) (\<lambda>uptime. thenM (push uptime) (retM 1)))"

definition luv_push_timeval_table :: "int \<times> int \<Rightarrow> unit M" where
  "luv_push_timeval_table t = seqM
     [lua_createtable 0 2,
      lua_pushinteger (fst t), lua_setfield (-2) ''sec'',
      lua_pushinteger (snd t), lua_setfield (-2) ''usec'']"

text \<open>The fields of \<^verbatim>\<open>uv_rusage_t\<close> after the two times, with the names they get.\<close>

definition rusage_fields :: "string list" where
  "rusage_fields = [''maxrss'', ''ixrss'', ''idrss'', ''isrss'', ''minflt'', ''majflt'', ''nswap'',
     ''inblock'', ''oublock'', ''msgsnd'', ''msgrcv'', ''nsignals'', ''nvcsw'', ''nivcsw'']"

definition rusage_field :: "nat \<times> string \<Rightarrow> unit M" where
  "rusage_field p = bindM (uv_out (4 + fst p)) (\<lambda>n.
     thenM (lua_pushinteger n) (lua_setfield (-2) (snd p)))"

definition luv_getrusage :: "nat M" where
  "luv_getrusage =
     bindM (uv ''uv_getrusage'' []) (\<lambda>ret.
     if ret < 0 then luv_error ret
     else bindM (uv_out 0) (\<lambda>us. bindM (uv_out 1) (\<lambda>uu. bindM (uv_out 2) (\<lambda>ss. bindM (uv_out 3) (\<lambda>su.
       thenM (lua_createtable 0 16)
       (thenM (luv_push_timeval_table (us, uu))
       (thenM (lua_setfield (-2) ''utime'')
       (thenM (luv_push_timeval_table (ss, su))
       (thenM (lua_setfield (-2) ''stime'')
       (thenM (seqM (map rusage_field (enumerate 0 rusage_fields)))
       (retM 1)))))))))))"

text \<open>One entry of \<^verbatim>\<open>uv_cpu_info\<close>: the model text, the speed and five times as numbers.\<close>

record cpu_info =
  cpu_model :: "string option"
  cpu_speed :: lval
  cpu_times :: "lval list"

definition out_cpu_infos :: "cpu_info list M" where
  "out_cpu_infos = (\<lambda>E s. let l = uvlog s in
     (Inr (map (\<lambda>i. \<lparr>cpu_model = uv_text E l i, cpu_speed = LFlt (uv_dbl E l (6 * i)),
         cpu_times = map (\<lambda>k. LFlt (uv_dbl E l (6 * i + 1 + k))) [0..<5]\<rparr>)
        [0..<nat (uv_int E l 0)]), s))"

definition cpu_time_names :: "string list" where
  "cpu_time_names = [''user'', ''nice'', ''sys'', ''idle'', ''irq'']"

definition cpu_time :: "lval \<times> string \<Rightarrow> unit M" where
  "cpu_time p = thenM (push (fst p)) (lua_setfield (-2) (snd p))"

definition push_cpu_info :: "nat \<times> cpu_info \<Rightarrow> unit M" where
  "push_cpu_info p = seqM
     [lua_newtable,
      lua_pushstring (cpu_model (snd p)), lua_setfield (-2) ''model'',
      push (cpu_speed (snd p)), lua_setfield (-2) ''speed'',
      lua_newtable,
      seqM (map cpu_time (zip (cpu_times (snd p)) cpu_time_names)),
      lua_setfield (-2) ''times'',
      lua_rawseti (-2) (int (fst p) + 1)]"

definition luv_cpu_info :: "nat M" where
  "luv_cpu_info =
     bindM (uv ''uv_cpu_info'' []) (\<lambda>ret.
     if ret < 0 then luv_error ret
     else bindM out_cpu_infos (\<lambda>cpus.
       thenM lua_newtable
       (thenM (seqM (map push_cpu_info (enumerate 0 cpus)))
       (thenM (uv_void ''uv_free_cpu_info'' []) (retM 1)))))"

text \<open>
  One network interface; the text \<open>if_ip\<close> is what \<^verbatim>\<open>uv_ip4_name\<close> or \<^verbatim>\<open>uv_ip6_name\<close> makes of
  the address, according to its family.
\<close>

record iface =
  if_name :: string
  if_internal :: bool
  if_mac :: string
  if_family :: int
  if_ip :: string

definition out_ifaces :: "iface list M" where
  "out_ifaces = (\<lambda>E s. let l = uvlog s; str = (\<lambda>k. case uv_text E l k of None \<Rightarrow> [] | Some t \<Rightarrow> t) in
     (Inr (map (\<lambda>i. \<lparr>if_name = str (3 * i), if_internal = (uv_int E l (2 * i + 1) \<noteq> 0),
         if_mac = take 6 (str (3 * i + 1)), if_family = uv_int E l (2 * i + 2),
         if_ip = str (3 * i + 2)\<rparr>)
        [0..<nat (uv_int E l 0)]), s))"

definition push_iface :: "iface \<Rightarrow> unit M" where
  "push_iface f = seqM
     [lua_getfield (-1) (if_name f),
      bindM (lua_istable (-1)) (\<lambda>t. if t then retM () else seqM
        [lua_pop 1, lua_newtable, lua_pushvalue (-1), lua_setfield (-3) (if_name f)]),
      lua_newtable,
      lua_pushboolean (if_internal f), lua_setfield (-2) ''internal'',
      lua_pushlstring (if_mac f), lua_setfield (-2) ''mac'',
      bindM (askM (\<lambda>E. if if_family f = cpp E ''AF_INET'' \<or> if_family f = cpp E ''AF_INET6''
          then if_ip f else ''<unknown sa family>'')) (\<lambda>ip. lua_pushstring (Some ip)),
      lua_setfield (-2) ''ip'',
      bindM (askM (\<lambda>E. luv_af_num_to_string E (if_family f))) lua_pushstring,
      lua_setfield (-2) ''family'',
      bindM (lua_rawlen (-2)) (\<lambda>n. lua_rawseti (-2) (int n + 1)),
      lua_pop 1]"

definition luv_interface_addresses :: "nat M" where
  "luv_interface_addresses =
     thenM (uv_void ''uv_interface_addresses'' [])
     (bindM out_ifaces (\<lambda>ifs.
     thenM lua_newtable
     (thenM (seqM (map push_iface ifs))
     (thenM (uv_void ''uv_free_interface_addresses'' []) (retM 1)))))"

definition luv_loadavg :: "nat M" where
  "luv_loadavg = thenM (uv_void ''uv_loadavg'' [])
     (bindM (uv_outd 0) (\<lambda>a. bindM (uv_outd 1) (\<lambda>b. bindM (uv_outd 2) (\<lambda>c.
       thenM (push a) (thenM (push b) (thenM (push c) (retM 3)))))))"

definition luv_exepath :: "nat M" where
  "luv_exepath =
     bindM (uv ''uv_exepath'' [AInt PIPE_NAME_MAX]) (\<lambda>ret.
     if ret < 0 then luv_error ret
     else bindM (out_str 0) (\<lambda>p. thenM (lua_pushlstring p) (retM 1)))"

definition luv_cwd :: "nat M" where
  "luv_cwd =
     bindM (uv ''uv_cwd'' [AInt PIPE_NAME_MAX]) (\<lambda>ret.
     if ret < 0 then luv_error ret
     else bindM (out_str 0) (\<lambda>p. thenM (lua_pushlstring p) (retM 1)))"

definition luv_chdir :: "nat M" where
  "luv_chdir = bindM (luaL_checkstring 1) (\<lambda>p. bindM (uv ''uv_chdir'' [AStr p]) ret_integer)"

definition luv_get_total_memory :: "nat M" where
  "luv_get_total_memory = thenM (uv_void ''uv_get_total_memory'' [])
     (bindM (uv_outd 0) (\<lambda>n. thenM (push n) (retM 1)))"

definition luv_hrtime :: "nat M" where
  "luv_hrtime = thenM (uv_void ''uv_hrtime'' []) (bindM (uv_outd 0) (\<lambda>n. thenM (push n) (retM 1)))"

definition luv_getpid :: "nat M" where
  "luv_getpid = bindM (uv ''getpid'' []) (\<lambda>n. thenM (lua_pushinteger n) (retM 1))"

definition luv_getuid :: "nat M" where
  "luv_getuid = bindM (uv ''getuid'' []) (\<lambda>n. thenM (lua_pushinteger (c_int n)) (retM 1))"

definition luv_getgid :: "nat M" where
  "luv_getgid = bindM (uv ''getgid'' []) (\<lambda>n. thenM (lua_pushinteger (c_int n)) (retM 1))"

definition luv_setuid :: "nat M" where
  "luv_setuid = bindM (check_c_int 1) (\<lambda>uid. bindM (uv ''setuid'' [AInt uid]) (\<lambda>r.
     thenM (if r = -1 then luaL_error ''Error setting UID'' else retM ()) (retM 0)))"

definition luv_setgid :: "nat M" where
  "luv_setgid = bindM (check_c_int 1) (\<lambda>gid. bindM (uv ''setgid'' [AInt gid]) (\<lambda>r.
     thenM (if r = -1 then luaL_error ''Error setting GID'' else retM ()) (retM 0)))"

subsection \<open>Keeping the invariant\<close>

lemma neutral_misc_parts [neu]:
  "neutral (luv_push_timeval_table t)" "neutral (rusage_field p)" "neutral (cpu_time q)"
  "neutral (push_iface f)"
  unfolding luv_push_timeval_table_def rusage_field_def cpu_time_def push_iface_def
  by (intro neu)+

lemma neutral_seqM_map [neu]: "(\<And>x. neutral (f x)) \<Longrightarrow> neutral (seqM (map f xs))"
  by (rule leaves_seqM) auto

lemma neutral_push_cpu_info [neu]: "neutral (push_cpu_info p)"
  unfolding push_cpu_info_def by (intro neu)

lemma neutral_outs [neu]: "neutral out_cpu_infos" "neutral out_ifaces"
  by (rule leavesI, simp add: out_cpu_infos_def out_ifaces_def Let_def)+

lemma neutral_misc:
  "neutral luv_guess_handle" "neutral luv_version" "neutral luv_version_string"
  "neutral luv_get_process_title" "neutral luv_set_process_title" "neutral luv_resident_set_memory"
  "neutral luv_uptime" "neutral luv_getrusage" "neutral luv_cpu_info"
  "neutral luv_interface_addresses" "neutral luv_loadavg" "neutral luv_exepath" "neutral luv_cwd"
  "neutral luv_chdir" "neutral luv_get_total_memory" "neutral luv_hrtime" "neutral luv_getpid"
  "neutral luv_getuid" "neutral luv_getgid" "neutral luv_setuid" "neutral luv_setgid"
  unfolding luv_guess_handle_def luv_version_def luv_version_string_def luv_get_process_title_def
    luv_set_process_title_def luv_resident_set_memory_def luv_uptime_def luv_getrusage_def
    luv_cpu_info_def luv_interface_addresses_def luv_loadavg_def luv_exepath_def luv_cwd_def
    luv_chdir_def luv_get_total_memory_def luv_hrtime_def luv_getpid_def luv_getuid_def
    luv_getgid_def luv_setuid_def luv_setgid_def
  by (intro neu)+

lemmas keep_misc_api = neutral_misc [THEN keep_neutral, OF stable_wf]

end
