(* ===== verification/Luv_Loop.thy ===== *)
theory Luv_Loop
  imports Luv_Timer Luv_Watchers Luv_Signal Luv_Udp Luv_Fs_Event Luv_Dns Luv_Process Luv_Misc
begin

text \<open>
  \<^verbatim>\<open>luv/luv_loop.c\<close>: the event loop.  \<^verbatim>\<open>uv_run\<close> makes callbacks into luv; which ones and in
  which order is the environment's answer, \<open>dispatch\<close> says which function of luv each runs.
\<close>

definition luv_loop_close :: "nat M" where
  "luv_loop_close = bindM (uv ''uv_loop_close'' []) ret_integer"

text \<open>
  The callback libuv makes for an event.  For a read, libuv first asks for a buffer; before a
  file-system callback it has stored the result in the request.
\<close>

definition opt_out :: "bool \<Rightarrow> 'a M \<Rightarrow> 'a option M" where
  "opt_out b m = (if b then bindM m (\<lambda>x. retM (Some x)) else retM None)"

definition fs_complete :: "nat \<Rightarrow> unit M" where
  "fs_complete req =
     bindM (uv_out 0) (\<lambda>result. bindM (uv_outs 0) (\<lambda>ptr. bindM (uv_outs 1) (\<lambda>path.
     bindM (get_r req) (\<lambda>r. put_r req (r\<lparr>r_result := result, r_path := path, r_ptr := ptr\<rparr>)))))"

fun dispatch :: "uv_event \<Rightarrow> unit M" where
  "dispatch (EvClose u) = luv_handle_close_cb u"
| "dispatch (EvSpawnClose u) = luv_spawn_close_cb u"
| "dispatch (EvTimer u) = luv_timer_cb u"
| "dispatch (EvPrepare u) = luv_prepare_cb u"
| "dispatch (EvCheck u) = luv_check_cb u"
| "dispatch (EvIdle u) = luv_idle_cb u"
| "dispatch (EvAsync u) = luv_async_cb u"
| "dispatch (EvPoll u status events) = luv_poll_cb u status events"
| "dispatch (EvSignal u signum) = luv_signal_cb u signum"
| "dispatch (EvConnection u status) = luv_stream_connection_cb u status"
| "dispatch (EvRead u nread) =
     bindM (luv_stream_alloc_cb 65536) (\<lambda>(base, len). bindM (out_str 0) (\<lambda>bytes.
       luv_stream_read_cb u nread base bytes))"
| "dispatch (EvShutdown r status) = luv_stream_shutdown_cb r status"
| "dispatch (EvWrite r status) = luv_stream_write_cb r status"
| "dispatch (EvConnect r status) = luv_tcp_connect_cb r status"
| "dispatch (EvSend r status) = luv_udp_send_cb r status"
| "dispatch (EvRecv u nread has_addr flags) =
     bindM (luv_stream_alloc_cb 65536) (\<lambda>(base, len). bindM (out_str 1) (\<lambda>bytes.
     bindM (opt_out has_addr out_sockaddr) (\<lambda>addr.
       luv_udp_recv_cb u nread (Some (base, bytes)) addr flags)))"
| "dispatch (EvFs r) = thenM (fs_complete r) (luv_fs_cb r)"
| "dispatch (EvFsEvent u events status) =
     bindM (uv_outs 0) (\<lambda>filename. luv_fs_event_cb u filename events status)"
| "dispatch (EvFsPoll u status has_prev has_curr) =
     bindM (opt_out has_prev (out_stat 0)) (\<lambda>prev. bindM (opt_out has_curr (out_stat 20)) (\<lambda>cur.
       luv_fs_poll_cb u status prev cur))"
| "dispatch (EvExit u exit_status term_signal) = exit_cb u exit_status term_signal"
| "dispatch (EvGetaddrinfo r status) =
     bindM out_addrinfo (\<lambda>res. luv_getaddrinfo_cb r status res)"
| "dispatch (EvGetnameinfo r status) =
     bindM (uv_outs 0) (\<lambda>hostname. bindM (uv_outs 1) (\<lambda>service.
       luv_getnameinfo_cb r status hostname service))"

text \<open>The call \<^verbatim>\<open>uv_run\<close>: the callbacks in order, then its result.\<close>

definition uv_run :: "nat \<Rightarrow> int M" where
  "uv_run mode =
     bindM (uv ''uv_run'' [AInt (int mode)]) (\<lambda>ret.
     bindM (\<lambda>E s. (Inr (uv_events E (uvlog s)), s)) (\<lambda>evs.
     thenM (seqM (map dispatch evs)) (retM ret)))"

definition luv_runmodes :: "string list" where
  "luv_runmodes = [''default'', ''once'', ''nowait'']"

definition luv_loop_run :: "nat M" where
  "luv_loop_run = bindM (luaL_checkoption 1 (Some ''default'') luv_runmodes) (\<lambda>mode.
     bindM (uv_run mode) ret_boolean)"

definition luv_loop_alive :: "nat M" where
  "luv_loop_alive = bindM (uv ''uv_loop_alive'' []) ret_boolean"

definition luv_loop_stop :: "nat M" where
  "luv_loop_stop = thenM (uv_void ''uv_stop'' []) (retM 0)"

definition luv_loop_backend_fd :: "nat M" where
  "luv_loop_backend_fd = bindM (uv ''uv_backend_fd'' []) ret_integer"

definition luv_loop_backend_timeout :: "nat M" where
  "luv_loop_backend_timeout = bindM (uv ''uv_backend_timeout'' [])
     (\<lambda>ret. thenM (lua_pushinteger ret) (retM 1))"

definition luv_loop_now :: "nat M" where
  "luv_loop_now = bindM (uv ''uv_now'' []) (\<lambda>now. thenM (lua_pushinteger (c_uint64 now)) (retM 1))"

definition luv_loop_update_time :: "nat M" where
  "luv_loop_update_time = thenM (uv_void ''uv_update_time'' []) (retM 0)"

text \<open>The sanity check is an \<^verbatim>\<open>assert\<close>; \<^verbatim>\<open>0x1000000\<close> is 16777216.\<close>

definition luv_walk_cb :: "nat \<Rightarrow> unit M" where
  "luv_walk_cb u =
     bindM (handle_data u) (\<lambda>data.
     if data = None then crash Assert_failed
     else bindM (get_lh data) (\<lambda>d.
       thenM (if lh_ref d < 16777216 then retM () else crash Assert_failed)
       (thenM (lua_pushvalue 1)
       (thenM (luv_handle_find data)
       (lua_call 1 0)))))"

definition luv_loop_walk :: "nat M" where
  "luv_loop_walk =
     thenM (luaL_checktype 1 TFUNCTION)
     (thenM (uv_void ''uv_walk'' [AFn ''luv_walk_cb''])
     (bindM (\<lambda>E s. (Inr (uv_walked E (uvlog s)), s)) (\<lambda>hs.
     thenM (seqM (map luv_walk_cb hs)) (retM 0))))"

subsection \<open>Keeping the invariant\<close>

lemma keep_fs_complete [hw]: "keeps E (fs_complete req)"
proof -
  have u: "keeps E (bindM (get_r req) (\<lambda>r. put_r req (r\<lparr>r_result := n, r_path := x, r_ptr := y\<rparr>)))" for n x y
    by (rule keep_update_r, rule keep_put_r) simp
  show ?thesis unfolding fs_complete_def by (rule u hw)+
qed

lemma keep_opt_out [hw]: "keeps E m \<Longrightarrow> keeps E (opt_out b m)"
  unfolding opt_out_def by (rule hw | assumption)+

lemma keep_luv_handle_find [hw]: "keeps E (luv_handle_find d)"
  unfolding luv_handle_find_def by (rule hw)+

lemmas keep_callbacks =
  keep_luv_handle_close_cb keep_process_cb keep_luv_timer_cb keep_watcher_cb keep_luv_signal_cb
  keep_stream_cb keep_luv_tcp_connect_cb keep_udp_cb keep_luv_fs_cb keep_fs_watch_cb keep_dns_cb

lemma keep_dispatch [hw]:
  assumes "env_ok E"
  shows "keeps E (dispatch ev)"
  by (cases ev; simp only: dispatch.simps) (rule hw keep_callbacks assms)+

lemma keep_seqM_map: "(\<And>x. keeps E (f x)) \<Longrightarrow> keeps E (seqM (map f xs))"
  by (induction xs) (auto intro!: hoare_retM hoare_thenM)

lemma keep_uv_run [hw]:
  assumes "env_ok E"
  shows "keeps E (uv_run mode)"
proof -
  have e: "keeps E (\<lambda>E s. (Inr (uv_events E (uvlog s)), s))" by (simp add: hoare_def)
  show ?thesis unfolding uv_run_def by (rule e hw keep_seqM_map assms)+
qed

lemma keep_loop_api:
  "keeps E luv_loop_close" "keeps E luv_loop_alive" "keeps E luv_loop_stop"
  "keeps E luv_loop_backend_fd" "keeps E luv_loop_backend_timeout" "keeps E luv_loop_now"
  "keeps E luv_loop_update_time"
  unfolding luv_loop_close_def luv_loop_alive_def luv_loop_stop_def luv_loop_backend_fd_def
    luv_loop_backend_timeout_def luv_loop_now_def luv_loop_update_time_def
  by (rule hw)+

lemma keep_luv_walk_cb [hw]: "env_ok E \<Longrightarrow> keeps E (luv_walk_cb u)"
  unfolding luv_walk_cb_def by (rule hw | assumption)+

lemma keep_loop_calls:
  assumes "env_ok E"
  shows "keeps E luv_loop_run" "keeps E luv_loop_walk"
proof -
  show "keeps E luv_loop_run" unfolding luv_loop_run_def by (rule hw assms)+
  have e: "keeps E (\<lambda>E s. (Inr (uv_walked E (uvlog s)), s))" by (simp add: hoare_def)
  show "keeps E luv_loop_walk" unfolding luv_loop_walk_def by (rule e hw keep_seqM_map assms)+
qed

end
