(* ===== verification/Luv.thy ===== *)
theory Luv
  imports Luv_Loop
begin

text \<open>
  \<^verbatim>\<open>luv/luv.c\<close>: the tables of exported functions and methods, the metatables of the handle
  types, and the initialisation.  A row of \<open>luv_functions\<close> has the Lua name, the name of the C
  function and its model.
\<close>

subsection \<open>The exported functions\<close>

definition functions_loop :: "(string \<times> string \<times> nat M) list" where
  "functions_loop =
    [(''close'', ''luv_loop_close'', luv_loop_close), (''run'', ''luv_loop_run'', luv_loop_run),
     (''alive'', ''luv_loop_alive'', luv_loop_alive),
     (''stop'', ''luv_loop_stop'', luv_loop_stop),
     (''backend_fd'', ''luv_loop_backend_fd'', luv_loop_backend_fd),
     (''backend_timeout'', ''luv_loop_backend_timeout'', luv_loop_backend_timeout),
     (''now'', ''luv_loop_now'', luv_loop_now),
     (''update_time'', ''luv_loop_update_time'', luv_loop_update_time),
     (''walk'', ''luv_loop_walk'', luv_loop_walk)]"

definition functions_req :: "(string \<times> string \<times> nat M) list" where
  "functions_req =
    [(''req_cancel'', ''luv_req_cancel'', luv_req_cancel)]"

definition functions_handle :: "(string \<times> string \<times> nat M) list" where
  "functions_handle =
    [(''handle_is_active'', ''luv_handle_is_active'', luv_handle_is_active),
     (''handle_is_closing'', ''luv_handle_is_closing'', luv_handle_is_closing),
     (''handle_close'', ''luv_handle_close'', luv_handle_close),
     (''handle_ref'', ''luv_handle_ref'', luv_handle_ref),
     (''handle_unref'', ''luv_handle_unref'', luv_handle_unref),
     (''handle_has_ref'', ''luv_handle_has_ref'', luv_handle_has_ref),
     (''handle_send_buffer_size'', ''luv_handle_send_buffer_size'', luv_handle_send_buffer_size),
     (''handle_recv_buffer_size'', ''luv_handle_recv_buffer_size'', luv_handle_recv_buffer_size),
     (''handle_fileno'', ''luv_handle_fileno'', luv_handle_fileno)]"

definition functions_timer :: "(string \<times> string \<times> nat M) list" where
  "functions_timer =
    [(''timer_new'', ''luv_timer_new'', luv_timer_new),
     (''timer_start'', ''luv_timer_start'', luv_timer_start),
     (''timer_stop'', ''luv_timer_stop'', luv_timer_stop),
     (''timer_again'', ''luv_timer_again'', luv_timer_again),
     (''timer_set_repeat'', ''luv_timer_set_repeat'', luv_timer_set_repeat),
     (''timer_get_repeat'', ''luv_timer_get_repeat'', luv_timer_get_repeat)]"

definition functions_prepare :: "(string \<times> string \<times> nat M) list" where
  "functions_prepare =
    [(''prepare_new'', ''luv_prepare_new'', luv_prepare_new),
     (''prepare_start'', ''luv_prepare_start'', luv_prepare_start),
     (''prepare_stop'', ''luv_prepare_stop'', luv_prepare_stop)]"

definition functions_check :: "(string \<times> string \<times> nat M) list" where
  "functions_check =
    [(''check_new'', ''luv_check_new'', luv_check_new),
     (''check_start'', ''luv_check_start'', luv_check_start),
     (''check_stop'', ''luv_check_stop'', luv_check_stop)]"

definition functions_idle :: "(string \<times> string \<times> nat M) list" where
  "functions_idle =
    [(''idle_new'', ''luv_idle_new'', luv_idle_new),
     (''idle_start'', ''luv_idle_start'', luv_idle_start),
     (''idle_stop'', ''luv_idle_stop'', luv_idle_stop)]"

definition functions_async :: "(string \<times> string \<times> nat M) list" where
  "functions_async =
    [(''async_new'', ''luv_async_new'', luv_async_new),
     (''async_send'', ''luv_async_send'', luv_async_send)]"

definition functions_poll :: "(string \<times> string \<times> nat M) list" where
  "functions_poll =
    [(''poll_new'', ''luv_poll_new'', luv_poll_new),
     (''poll_start'', ''luv_poll_start'', luv_poll_start),
     (''poll_stop'', ''luv_poll_stop'', luv_poll_stop)]"

definition functions_signal :: "(string \<times> string \<times> nat M) list" where
  "functions_signal =
    [(''signal_new'', ''luv_signal_new'', luv_signal_new),
     (''signal_start'', ''luv_signal_start'', luv_signal_start),
     (''signal_stop'', ''luv_signal_stop'', luv_signal_stop)]"

definition functions_process :: "(string \<times> string \<times> nat M) list" where
  "functions_process =
    [
     (''process_disable_stdio_inheritance'', ''luv_process_disable_stdio_inheritance'', luv_process_disable_stdio_inheritance),
     (''process_spawn'', ''luv_process_spawn'', luv_process_spawn),
     (''process_kill'', ''luv_process_kill'', luv_process_kill),
     (''kill'', ''luv_kill'', luv_kill)]"

definition functions_stream :: "(string \<times> string \<times> nat M) list" where
  "functions_stream =
    [(''stream_shutdown'', ''luv_stream_shutdown'', luv_stream_shutdown),
     (''stream_listen'', ''luv_stream_listen'', luv_stream_listen),
     (''stream_accept'', ''luv_stream_accept'', luv_stream_accept),
     (''stream_read_start'', ''luv_stream_read_start'', luv_stream_read_start),
     (''stream_read_stop'', ''luv_stream_read_stop'', luv_stream_read_stop),
     (''stream_write'', ''luv_stream_write'', luv_stream_write),
     (''stream_write2'', ''luv_stream_write2'', luv_stream_write2),
     (''stream_try_write'', ''luv_stream_try_write'', luv_stream_try_write),
     (''stream_is_readable'', ''luv_stream_is_readable'', luv_stream_is_readable),
     (''stream_is_writable'', ''luv_stream_is_writable'', luv_stream_is_writable),
     (''stream_set_blocking'', ''luv_stream_set_blocking'', luv_stream_set_blocking)]"

definition functions_tcp :: "(string \<times> string \<times> nat M) list" where
  "functions_tcp =
    [(''tcp_new'', ''luv_tcp_new'', luv_tcp_new), (''tcp_open'', ''luv_tcp_open'', luv_tcp_open),
     (''tcp_nodelay'', ''luv_tcp_nodelay'', luv_tcp_nodelay),
     (''tcp_keepalive'', ''luv_tcp_keepalive'', luv_tcp_keepalive),
     (''tcp_simultaneous_accepts'', ''luv_tcp_simultaneous_accepts'', luv_tcp_simultaneous_accepts),
     (''tcp_bind'', ''luv_tcp_bind'', luv_tcp_bind),
     (''tcp_getpeername'', ''luv_tcp_getpeername'', luv_tcp_getpeername),
     (''tcp_getsockname'', ''luv_tcp_getsockname'', luv_tcp_getsockname),
     (''tcp_connect'', ''luv_tcp_connect'', luv_tcp_connect),
     (''tcp_write_queue_size'', ''luv_tcp_write_queue_size'', luv_tcp_write_queue_size)]"

definition functions_pipe :: "(string \<times> string \<times> nat M) list" where
  "functions_pipe =
    [(''pipe_new'', ''luv_pipe_new'', luv_pipe_new),
     (''pipe_open'', ''luv_pipe_open'', luv_pipe_open),
     (''pipe_bind'', ''luv_pipe_bind'', luv_pipe_bind),
     (''pipe_connect'', ''luv_pipe_connect'', luv_pipe_connect),
     (''pipe_getsockname'', ''luv_pipe_getsockname'', luv_pipe_getsockname),
     (''pipe_getpeername'', ''luv_pipe_getpeername'', luv_pipe_getpeername),
     (''pipe_pending_instances'', ''luv_pipe_pending_instances'', luv_pipe_pending_instances),
     (''pipe_pending_count'', ''luv_pipe_pending_count'', luv_pipe_pending_count),
     (''pipe_pending_type'', ''luv_pipe_pending_type'', luv_pipe_pending_type)]"

definition functions_tty :: "(string \<times> string \<times> nat M) list" where
  "functions_tty =
    [(''tty_new'', ''luv_tty_new'', luv_tty_new),
     (''tty_set_mode'', ''luv_tty_set_mode'', luv_tty_set_mode),
     (''tty_reset_mode'', ''luv_tty_reset_mode'', luv_tty_reset_mode),
     (''tty_get_winsize'', ''luv_tty_get_winsize'', luv_tty_get_winsize)]"

definition functions_udp :: "(string \<times> string \<times> nat M) list" where
  "functions_udp =
    [(''udp_new'', ''luv_udp_new'', luv_udp_new), (''udp_open'', ''luv_udp_open'', luv_udp_open),
     (''udp_bind'', ''luv_udp_bind'', luv_udp_bind),
     (''udp_bindgetsockname'', ''luv_udp_getsockname'', luv_udp_getsockname),
     (''udp_set_membership'', ''luv_udp_set_membership'', luv_udp_set_membership),
     (''udp_set_multicast_loop'', ''luv_udp_set_multicast_loop'', luv_udp_set_multicast_loop),
     (''udp_set_multicast_ttl'', ''luv_udp_set_multicast_ttl'', luv_udp_set_multicast_ttl),
     (''udp_set_multicast_interface'', ''luv_udp_set_multicast_interface'', luv_udp_set_multicast_interface),
     (''udp_set_broadcast'', ''luv_udp_set_broadcast'', luv_udp_set_broadcast),
     (''udp_set_ttl'', ''luv_udp_set_ttl'', luv_udp_set_ttl),
     (''udp_send'', ''luv_udp_send'', luv_udp_send),
     (''udp_try_send'', ''luv_udp_try_send'', luv_udp_try_send),
     (''udp_recv_start'', ''luv_udp_recv_start'', luv_udp_recv_start),
     (''udp_recv_stop'', ''luv_udp_recv_stop'', luv_udp_recv_stop)]"

definition functions_fs_event :: "(string \<times> string \<times> nat M) list" where
  "functions_fs_event =
    [(''fs_event_new'', ''luv_fs_event_new'', luv_fs_event_new),
     (''fs_event_start'', ''luv_fs_event_start'', luv_fs_event_start),
     (''fs_event_stop'', ''luv_fs_event_stop'', luv_fs_event_stop),
     (''fs_event_getpath'', ''luv_fs_event_getpath'', luv_fs_event_getpath)]"

definition functions_fs_poll :: "(string \<times> string \<times> nat M) list" where
  "functions_fs_poll =
    [(''fs_poll_new'', ''luv_fs_poll_new'', luv_fs_poll_new),
     (''fs_poll_start'', ''luv_fs_poll_start'', luv_fs_poll_start),
     (''fs_poll_stop'', ''luv_fs_poll_stop'', luv_fs_poll_stop),
     (''fs_poll_getpath'', ''luv_fs_poll_getpath'', luv_fs_poll_getpath)]"

definition functions_fs :: "(string \<times> string \<times> nat M) list" where
  "functions_fs =
    [(''fs_close'', ''luv_fs_close'', luv_fs_close), (''fs_open'', ''luv_fs_open'', luv_fs_open),
     (''fs_read'', ''luv_fs_read'', luv_fs_read),
     (''fs_unlink'', ''luv_fs_unlink'', luv_fs_unlink),
     (''fs_write'', ''luv_fs_write'', luv_fs_write),
     (''fs_mkdir'', ''luv_fs_mkdir'', luv_fs_mkdir),
     (''fs_mkdtemp'', ''luv_fs_mkdtemp'', luv_fs_mkdtemp),
     (''fs_rmdir'', ''luv_fs_rmdir'', luv_fs_rmdir),
     (''fs_scandir'', ''luv_fs_scandir'', luv_fs_scandir),
     (''fs_scandir_next'', ''luv_fs_scandir_next'', luv_fs_scandir_next),
     (''fs_stat'', ''luv_fs_stat'', luv_fs_stat), (''fs_fstat'', ''luv_fs_fstat'', luv_fs_fstat),
     (''fs_lstat'', ''luv_fs_lstat'', luv_fs_lstat),
     (''fs_rename'', ''luv_fs_rename'', luv_fs_rename),
     (''fs_fsync'', ''luv_fs_fsync'', luv_fs_fsync),
     (''fs_fdatasync'', ''luv_fs_fdatasync'', luv_fs_fdatasync),
     (''fs_ftruncate'', ''luv_fs_ftruncate'', luv_fs_ftruncate),
     (''fs_sendfile'', ''luv_fs_sendfile'', luv_fs_sendfile),
     (''fs_access'', ''luv_fs_access'', luv_fs_access),
     (''fs_chmod'', ''luv_fs_chmod'', luv_fs_chmod),
     (''fs_fchmod'', ''luv_fs_fchmod'', luv_fs_fchmod),
     (''fs_utime'', ''luv_fs_utime'', luv_fs_utime),
     (''fs_futime'', ''luv_fs_futime'', luv_fs_futime),
     (''fs_link'', ''luv_fs_link'', luv_fs_link),
     (''fs_symlink'', ''luv_fs_symlink'', luv_fs_symlink),
     (''fs_readlink'', ''luv_fs_readlink'', luv_fs_readlink),
     (''fs_chown'', ''luv_fs_chown'', luv_fs_chown),
     (''fs_fchown'', ''luv_fs_fchown'', luv_fs_fchown)]"

definition functions_dns :: "(string \<times> string \<times> nat M) list" where
  "functions_dns =
    [(''getaddrinfo'', ''luv_getaddrinfo'', luv_getaddrinfo),
     (''getnameinfo'', ''luv_getnameinfo'', luv_getnameinfo)]"

definition functions_misc :: "(string \<times> string \<times> nat M) list" where
  "functions_misc =
    [(''chdir'', ''luv_chdir'', luv_chdir), (''cpu'', ''luv_cpu_info'', luv_cpu_info),
     (''cwd'', ''luv_cwd'', luv_cwd), (''exepath'', ''luv_exepath'', luv_exepath),
     (''get_process_title'', ''luv_get_process_title'', luv_get_process_title),
     (''set_process_title'', ''luv_set_process_title'', luv_set_process_title),
     (''get_total_memory'', ''luv_get_total_memory'', luv_get_total_memory),
     (''getpid'', ''luv_getpid'', luv_getpid), (''getuid'', ''luv_getuid'', luv_getuid),
     (''setuid'', ''luv_setuid'', luv_setuid), (''getgid'', ''luv_getgid'', luv_getgid),
     (''setgid'', ''luv_setgid'', luv_setgid), (''getrusage'', ''luv_getrusage'', luv_getrusage),
     (''guess_handle'', ''luv_guess_handle'', luv_guess_handle),
     (''hrtime'', ''luv_hrtime'', luv_hrtime),
     (''interface_addresses'', ''luv_interface_addresses'', luv_interface_addresses),
     (''loadavg'', ''luv_loadavg'', luv_loadavg),
     (''resident_set_memory'', ''luv_resident_set_memory'', luv_resident_set_memory),
     (''uptime'', ''luv_uptime'', luv_uptime), (''version'', ''luv_version'', luv_version),
     (''version_string'', ''luv_version_string'', luv_version_string),
     (''stackdump'', ''luv_stackdump'', luv_stackdump)]"

definition luv_functions :: "(string \<times> string \<times> nat M) list" where
  "luv_functions = functions_loop @ functions_req @ functions_handle @ functions_timer
    @ functions_prepare @ functions_check @ functions_idle @ functions_async
    @ functions_poll @ functions_signal @ functions_process @ functions_stream
    @ functions_tcp @ functions_pipe @ functions_tty @ functions_udp
    @ functions_fs_event @ functions_fs_poll @ functions_fs @ functions_dns
    @ functions_misc"

subsection \<open>The method tables\<close>

definition luv_handle_methods :: "(string \<times> string) list" where
  "luv_handle_methods =
    [(''is_active'', ''luv_handle_is_active''), (''is_closing'', ''luv_handle_is_closing''),
     (''close'', ''luv_handle_close''), (''ref'', ''luv_handle_ref''),
     (''unref'', ''luv_handle_unref''), (''has_ref'', ''luv_handle_has_ref''),
     (''send_buffer_size'', ''luv_handle_send_buffer_size''),
     (''recv_buffer_size'', ''luv_handle_recv_buffer_size''),
     (''fileno'', ''luv_handle_fileno'')]"

definition luv_async_methods :: "(string \<times> string) list" where
  "luv_async_methods =
    [(''send'', ''luv_async_send'')]"

definition luv_check_methods :: "(string \<times> string) list" where
  "luv_check_methods =
    [(''start'', ''luv_check_start''), (''stop'', ''luv_check_stop'')]"

definition luv_fs_event_methods :: "(string \<times> string) list" where
  "luv_fs_event_methods =
    [(''start'', ''luv_fs_event_start''), (''stop'', ''luv_fs_event_stop''),
     (''getpath'', ''luv_fs_event_getpath'')]"

definition luv_fs_poll_methods :: "(string \<times> string) list" where
  "luv_fs_poll_methods =
    [(''start'', ''luv_fs_poll_start''), (''stop'', ''luv_fs_poll_stop''),
     (''getpath'', ''luv_fs_poll_getpath'')]"

definition luv_idle_methods :: "(string \<times> string) list" where
  "luv_idle_methods =
    [(''start'', ''luv_idle_start''), (''stop'', ''luv_idle_stop'')]"

definition luv_stream_methods :: "(string \<times> string) list" where
  "luv_stream_methods =
    [(''shutdown'', ''luv_stream_shutdown''), (''listen'', ''luv_stream_listen''),
     (''accept'', ''luv_stream_accept''), (''read_start'', ''luv_stream_read_start''),
     (''read_stop'', ''luv_stream_read_stop''), (''write'', ''luv_stream_write''),
     (''write2'', ''luv_stream_write2''), (''try_write'', ''luv_stream_try_write''),
     (''is_readable'', ''luv_stream_is_readable''),
     (''is_writable'', ''luv_stream_is_writable''),
     (''set_blocking'', ''luv_stream_set_blocking'')]"

definition luv_pipe_methods :: "(string \<times> string) list" where
  "luv_pipe_methods =
    [(''open'', ''luv_pipe_open''), (''bind'', ''luv_pipe_bind''),
     (''connect'', ''luv_pipe_connect''), (''getsockname'', ''luv_pipe_getsockname''),
     (''getpeername'', ''luv_pipe_getpeername''),
     (''pending_instances'', ''luv_pipe_pending_instances''),
     (''pending_count'', ''luv_pipe_pending_count''),
     (''pending_type'', ''luv_pipe_pending_type'')]"

definition luv_poll_methods :: "(string \<times> string) list" where
  "luv_poll_methods =
    [(''start'', ''luv_poll_start''), (''stop'', ''luv_poll_stop'')]"

definition luv_prepare_methods :: "(string \<times> string) list" where
  "luv_prepare_methods =
    [(''start'', ''luv_prepare_start''), (''stop'', ''luv_prepare_stop'')]"

definition luv_process_methods :: "(string \<times> string) list" where
  "luv_process_methods =
    [(''kill'', ''luv_process_kill'')]"

definition luv_tcp_methods :: "(string \<times> string) list" where
  "luv_tcp_methods =
    [(''open'', ''luv_tcp_open''), (''nodelay'', ''luv_tcp_nodelay''),
     (''keepalive'', ''luv_tcp_keepalive''),
     (''simultaneous_accepts'', ''luv_tcp_simultaneous_accepts''), (''bind'', ''luv_tcp_bind''),
     (''getpeername'', ''luv_tcp_getpeername''), (''getsockname'', ''luv_tcp_getsockname''),
     (''connect'', ''luv_tcp_connect''), (''write_queue_size'', ''luv_tcp_write_queue_size'')]"

definition luv_timer_methods :: "(string \<times> string) list" where
  "luv_timer_methods =
    [(''start'', ''luv_timer_start''), (''stop'', ''luv_timer_stop''),
     (''again'', ''luv_timer_again''), (''set_repeat'', ''luv_timer_set_repeat''),
     (''get_repeat'', ''luv_timer_get_repeat'')]"

definition luv_tty_methods :: "(string \<times> string) list" where
  "luv_tty_methods =
    [(''set_mode'', ''luv_tty_set_mode''), (''get_winsize'', ''luv_tty_get_winsize'')]"

definition luv_udp_methods :: "(string \<times> string) list" where
  "luv_udp_methods =
    [(''open'', ''luv_udp_open''), (''bind'', ''luv_udp_bind''),
     (''bindgetsockname'', ''luv_udp_getsockname''),
     (''set_membership'', ''luv_udp_set_membership''),
     (''set_multicast_loop'', ''luv_udp_set_multicast_loop''),
     (''set_multicast_ttl'', ''luv_udp_set_multicast_ttl''),
     (''set_multicast_interface'', ''luv_udp_set_multicast_interface''),
     (''set_broadcast'', ''luv_udp_set_broadcast''), (''set_ttl'', ''luv_udp_set_ttl''),
     (''send'', ''luv_udp_send''), (''try_send'', ''luv_udp_try_send''),
     (''recv_start'', ''luv_udp_recv_start''), (''recv_stop'', ''luv_udp_recv_stop'')]"

definition luv_signal_methods :: "(string \<times> string) list" where
  "luv_signal_methods =
    [(''start'', ''luv_signal_start''), (''stop'', ''luv_signal_stop'')]"

text \<open>The rows of \<^verbatim>\<open>UV_HANDLE_TYPE_MAP\<close>, in order, with the method table the macro names.\<close>

definition type_methods :: "(string \<times> (string \<times> string) list) list" where
  "type_methods =
    [(''async'', luv_async_methods), (''check'', luv_check_methods),
     (''fs_event'', luv_fs_event_methods), (''fs_poll'', luv_fs_poll_methods),
     (''handle'', luv_handle_methods), (''idle'', luv_idle_methods),
     (''pipe'', luv_pipe_methods), (''poll'', luv_poll_methods),
     (''prepare'', luv_prepare_methods), (''process'', luv_process_methods),
     (''stream'', luv_stream_methods), (''tcp'', luv_tcp_methods),
     (''timer'', luv_timer_methods), (''tty'', luv_tty_methods), (''udp'', luv_udp_methods),
     (''signal'', luv_signal_methods)]"

subsection \<open>Initialisation\<close>

definition set_func :: "string \<times> string \<Rightarrow> unit M" where
  "set_func p = thenM (lua_pushcfunction (snd p)) (lua_setfield (-2) (fst p))"

definition luaL_setfuncs :: "(string \<times> string) list \<Rightarrow> unit M" where
  "luaL_setfuncs fs = seqM (map set_func fs)"

definition luaL_newlib :: "(string \<times> string) list \<Rightarrow> unit M" where
  "luaL_newlib fs = thenM lua_newtable (luaL_setfuncs fs)"

text \<open>One row of the macro in \<^verbatim>\<open>luv_handle_init\<close>.\<close>

definition init_type :: "string \<times> (string \<times> string) list \<Rightarrow> unit M" where
  "init_type row = seqM
     [luaL_newmetatable (''uv_'' @ fst row),
      lua_pushcfunction ''luv_handle_tostring'',
      lua_setfield (-2) ''__tostring'',
      luaL_newlib (snd row),
      luaL_setfuncs luv_handle_methods,
      lua_setfield (-2) ''__index'',
      lua_pushboolean True,
      lua_rawset (-3)]"

text \<open>One of the three blocks that make a type a stream.\<close>

definition init_stream :: "string \<Rightarrow> unit M" where
  "init_stream lc = seqM
     [luaL_getmetatable (''uv_'' @ lc),
      lua_getfield (-1) ''__index'',
      luaL_setfuncs luv_stream_methods,
      lua_pop 1,
      lua_pushboolean True,
      lua_rawset (-3)]"

definition luv_handle_init :: "unit M" where
  "luv_handle_init = seqM
     [lua_newtable,
      seqM (map init_type type_methods),
      reg_setfield ''uv_handle'',
      lua_newtable,
      init_stream ''pipe'', init_stream ''tcp'', init_stream ''tty'',
      reg_setfield ''uv_stream'']"

text \<open>The loop of the state: the userdata the registry holds under \<^verbatim>\<open>uv_loop\<close>.\<close>

definition luv_loop :: "lval option M" where
  "luv_loop = thenM (reg_getfield ''uv_loop'')
     (bindM (lua_touserdata (-1)) (\<lambda>loop. thenM (lua_pop 1) (retM loop)))"

text \<open>Table 0 is the table of globals.\<close>

definition lua_setglobal :: "string \<Rightarrow> unit M" where
  "lua_setglobal k = bindM pop_val (\<lambda>v.
     modM (\<lambda>s. s\<lparr>tabs := (tabs s)(0 := tset (tabs s 0) (LStr k) v)\<rparr>))"

definition function_names :: "(string \<times> string) list" where
  "function_names = map (\<lambda>(n, c, m). (n, c)) luv_functions"

definition luaopen_luv :: "nat M" where
  "luaopen_luv =
     thenM (lua_setglobal ''uv'')
     (thenM (luaL_newlib function_names)
     (bindM luv_constants (\<lambda>_.
     thenM (lua_setfield (-2) ''constants'') (retM 1))))"

definition luv_init :: "nat M" where
  "luv_init =
     bindM lua_newuserdata (\<lambda>loop.
     bindM (uv ''uv_loop_init'' [AObj loop]) (\<lambda>ret.
     if ret < 0 then
       bindM (askM (\<lambda>E. cstr (uv_err_name E ret) @ '': '' @ cstr (uv_strerror E ret) @ nl)) luaL_error
     else
       thenM (reg_setfield ''uv_loop'')
       (thenM luv_req_init (thenM luv_handle_init (retM 1)))))"

subsection \<open>Every exported function keeps the invariant\<close>

lemmas keep_exported =
  keep_loop_api keep_req_api keep_handle_api keep_timer_api keep_watcher_new keep_watcher_start
  keep_watcher_stop keep_signal_api keep_process_api keep_stream_reqs keep_stream_api keep_tcp_api
  keep_pipe_api keep_tty_api keep_udp_options keep_udp_api keep_fs_event_api keep_fs_poll_api
  keep_fs_simple keep_fs_more keep_dns_api keep_misc_api

lemma keep_functions_loop: "env_ok E \<Longrightarrow> (n, c, m) \<in> set functions_loop \<Longrightarrow> keeps E m"
  unfolding functions_loop_def by (auto intro: keep_exported keep_loop_calls)

lemma keep_functions_req: "(n, c, m) \<in> set functions_req \<Longrightarrow> keeps E m"
  unfolding functions_req_def by (auto intro: keep_exported)

lemma keep_functions_handle: "(n, c, m) \<in> set functions_handle \<Longrightarrow> keeps E m"
  unfolding functions_handle_def by (auto intro: keep_exported)

lemma keep_functions_timer: "(n, c, m) \<in> set functions_timer \<Longrightarrow> keeps E m"
  unfolding functions_timer_def by (auto intro: keep_exported)

lemma keep_functions_prepare: "(n, c, m) \<in> set functions_prepare \<Longrightarrow> keeps E m"
  unfolding functions_prepare_def by (auto intro: keep_exported)

lemma keep_functions_check: "(n, c, m) \<in> set functions_check \<Longrightarrow> keeps E m"
  unfolding functions_check_def by (auto intro: keep_exported)

lemma keep_functions_idle: "(n, c, m) \<in> set functions_idle \<Longrightarrow> keeps E m"
  unfolding functions_idle_def by (auto intro: keep_exported)

lemma keep_functions_async: "(n, c, m) \<in> set functions_async \<Longrightarrow> keeps E m"
  unfolding functions_async_def by (auto intro: keep_exported)

lemma keep_functions_poll: "(n, c, m) \<in> set functions_poll \<Longrightarrow> keeps E m"
  unfolding functions_poll_def by (auto intro: keep_exported)

lemma keep_functions_signal: "(n, c, m) \<in> set functions_signal \<Longrightarrow> keeps E m"
  unfolding functions_signal_def by (auto intro: keep_exported)

lemma keep_functions_process: "(n, c, m) \<in> set functions_process \<Longrightarrow> keeps E m"
  unfolding functions_process_def by (auto intro: keep_exported)

lemma keep_functions_stream: "(n, c, m) \<in> set functions_stream \<Longrightarrow> keeps E m"
  unfolding functions_stream_def by (auto intro: keep_exported)

lemma keep_functions_tcp: "(n, c, m) \<in> set functions_tcp \<Longrightarrow> keeps E m"
  unfolding functions_tcp_def by (auto intro: keep_exported)

lemma keep_functions_pipe: "(n, c, m) \<in> set functions_pipe \<Longrightarrow> keeps E m"
  unfolding functions_pipe_def by (auto intro: keep_exported)

lemma keep_functions_tty: "(n, c, m) \<in> set functions_tty \<Longrightarrow> keeps E m"
  unfolding functions_tty_def by (auto intro: keep_exported)

lemma keep_functions_udp: "(n, c, m) \<in> set functions_udp \<Longrightarrow> keeps E m"
  unfolding functions_udp_def by (auto intro: keep_exported)

lemma keep_functions_fs_event: "(n, c, m) \<in> set functions_fs_event \<Longrightarrow> keeps E m"
  unfolding functions_fs_event_def by (auto intro: keep_exported)

lemma keep_functions_fs_poll: "(n, c, m) \<in> set functions_fs_poll \<Longrightarrow> keeps E m"
  unfolding functions_fs_poll_def by (auto intro: keep_exported)

lemma keep_functions_fs: "(n, c, m) \<in> set functions_fs \<Longrightarrow> keeps E m"
  unfolding functions_fs_def by (auto intro: keep_exported)

lemma keep_functions_dns: "(n, c, m) \<in> set functions_dns \<Longrightarrow> keeps E m"
  unfolding functions_dns_def by (auto intro: keep_exported)

lemmas keep_luv_stackdump = neutral_luv_stackdump [THEN keep_neutral, OF stable_wf]

lemma keep_functions_misc: "(n, c, m) \<in> set functions_misc \<Longrightarrow> keeps E m"
  unfolding functions_misc_def by (auto intro: keep_exported keep_luv_stackdump)

lemma keep_luv_functions:
  assumes "env_ok E" "(n, c, m) \<in> set luv_functions"
  shows "keeps E m"
proof -
  note rules =
    keep_functions_loop [OF assms(1)] keep_functions_req keep_functions_handle
    keep_functions_timer keep_functions_prepare keep_functions_check keep_functions_idle
    keep_functions_async keep_functions_poll keep_functions_signal keep_functions_process
    keep_functions_stream keep_functions_tcp keep_functions_pipe keep_functions_tty
    keep_functions_udp keep_functions_fs_event keep_functions_fs_poll keep_functions_fs
    keep_functions_dns keep_functions_misc
  show ?thesis
    using assms(2) unfolding luv_functions_def set_append by (elim UnE; elim rules)
qed

end
