(* ===== verification/Luv_Init.thy ===== *)
theory Luv_Init
  imports Luv
begin

text \<open>
  What the initialisation in \<^verbatim>\<open>luv/luv.c\<close> leaves behind: one metatable per handle type in the
  registry, all of them in the set \<^verbatim>\<open>uv_handle\<close>, and exactly pipe, TCP and TTY in \<^verbatim>\<open>uv_stream\<close>.
\<close>

subsection \<open>Filling a table with functions\<close>

fun put_funcs :: "(string \<times> string) list \<Rightarrow> ltable \<Rightarrow> ltable" where
  "put_funcs [] T = T"
| "put_funcs (f # fs) T = put_funcs fs (tset T (LStr (fst f)) (LCFun (snd f)))"

lemma tget_put_funcs_notin:
  "n \<notin> fst ` set fs \<Longrightarrow> tget (put_funcs fs T) (LStr n) = tget T (LStr n)"
  by (induction fs arbitrary: T) auto

lemma tget_put_funcs:
  "distinct (map fst fs) \<Longrightarrow> (n, c) \<in> set fs \<Longrightarrow> tget (put_funcs fs T) (LStr n) = LCFun c"
proof (induction fs arbitrary: T)
  case (Cons f fs)
  then show ?case by (cases "f = (n, c)") (auto simp: tget_put_funcs_notin)
qed simp

lemma run_set_func:
  assumes "stk s = base @ [LTab t]"
  shows "set_func f E s = (Inr (), s\<lparr>tabs := (tabs s)(t := tset (tabs s t) (LStr (fst f)) (LCFun (snd f)))\<rparr>)"
  using assms by (simp add: set_func_def luasem run_lua_setfield [where base = base and t = t])

lemma run_luaL_setfuncs:
  "stk s = base @ [LTab t] \<Longrightarrow> luaL_setfuncs fs E s =
     (Inr (), s\<lparr>tabs := (tabs s)(t := put_funcs fs (tabs s t))\<rparr>)"
proof (induction fs arbitrary: s)
  case (Cons f fs)
  let ?s = "s\<lparr>tabs := (tabs s)(t := tset (tabs s t) (LStr (fst f)) (LCFun (snd f)))\<rparr>"
  have "luaL_setfuncs (f # fs) E s = luaL_setfuncs fs E ?s"
    using run_set_func [OF Cons.prems] by (simp add: luaL_setfuncs_def run_thenM)
  also have "... = (Inr (), ?s\<lparr>tabs := (tabs ?s)(t := put_funcs fs (tabs ?s t))\<rparr>)"
    by (rule Cons.IH) (simp add: Cons.prems)
  finally show ?case by (simp del: fun_upd_apply add: fun_upd_same)
qed (simp add: luaL_setfuncs_def luasem)

lemma run_luaL_newlib:
  "luaL_newlib fs E s = (Inr (), s\<lparr>ntab := Suc (ntab s), stk := stk s @ [LTab (ntab s)],
     tabs := (tabs s)(ntab s := put_funcs fs [])\<rparr>)"
proof -
  let ?s = "s\<lparr>tabs := (tabs s)(ntab s := []), ntab := Suc (ntab s), stk := stk s @ [LTab (ntab s)]\<rparr>"
  have "luaL_newlib fs E s = luaL_setfuncs fs E ?s"
    by (simp add: luaL_newlib_def luasem)
  also have "... = (Inr (), ?s\<lparr>tabs := (tabs ?s)(ntab s := put_funcs fs (tabs ?s (ntab s)))\<rparr>)"
    by (rule run_luaL_setfuncs) simp
  finally show ?thesis by (simp del: fun_upd_apply add: fun_upd_same)
qed

lemma run_lua_rawset:
  assumes "stk s = base @ [LTab t, k, v]"
  shows "lua_rawset (-3) E s = (Inr (), s\<lparr>stk := base @ [LTab t], tabs := (tabs s)(t := tset (tabs s t) k v)\<rparr>)"
proof -
  have "index2addr (-3) E s = (Inr (Some (LTab t)), s)"
    by (rule run_index2addr_neg [of _ base _ "[k, v]"]) (use assms in simp_all)
  with assms show ?thesis
    by (simp add: lua_rawset_def tab_at_def luasem butlast_append)
qed

lemma run_lua_getfield:
  assumes "stk s = base @ [LTab t]"
  shows "lua_getfield (-1) k E s = (Inr (), s\<lparr>stk := base @ [LTab t, tget (tabs s t) (LStr k)]\<rparr>)"
proof -
  have "index2addr (-1) E s = (Inr (Some (LTab t)), s)"
    by (rule run_index2addr_top) (use assms in simp)
  with assms show ?thesis by (simp add: lua_getfield_def index_tab_def luasem)
qed

subsection \<open>One handle type\<close>

definition meta_table :: "string \<Rightarrow> nat \<Rightarrow> ltable" where
  "meta_table lc ix = tset (tset (tset [] (LStr ''__name'') (LStr (''uv_'' @ lc)))
     (LStr ''__tostring'') (LCFun ''luv_handle_tostring'')) (LStr ''__index'') (LTab ix)"

definition type_tabs ::
  "string \<times> (string \<times> string) list \<Rightarrow> nat \<Rightarrow> nat \<Rightarrow> (nat \<Rightarrow> ltable) \<Rightarrow> (nat \<Rightarrow> ltable)" where
  "type_tabs row mt st T = T(mt := meta_table (fst row) (Suc mt),
     Suc mt := put_funcs luv_handle_methods (put_funcs (snd row) []),
     st := tset (T st) (LTab mt) (LBool True))"

lemma run_luaL_newmetatable:
  assumes "regs s k = LNil"
  shows "luaL_newmetatable k E s = (Inr (), s\<lparr>ntab := Suc (ntab s), stk := stk s @ [LTab (ntab s)],
     tabs := (tabs s)(ntab s := tset [] (LStr ''__name'') (LStr k)),
     regs := (regs s)(k := LTab (ntab s))\<rparr>)"
proof -
  let ?s1 = "s\<lparr>tabs := (tabs s)(ntab s := []), ntab := Suc (ntab s), stk := stk s @ [LTab (ntab s)]\<rparr>"
  have 1: "lua_setfield (-2) ''__name'' E (?s1\<lparr>stk := stk s @ [LTab (ntab s), LStr k]\<rparr>) =
      (Inr (), ?s1\<lparr>stk := stk s @ [LTab (ntab s)],
        tabs := (tabs ?s1)(ntab s := tset [] (LStr ''__name'') (LStr k))\<rparr>)"
    by (subst run_lua_setfield [where base = "stk s" and t = "ntab s" and v = "LStr k"]) simp_all
  have top: "index2addr (-1) E s' = (Inr (Some (LTab (ntab s))), s')"
    if "stk s' = stk s @ [LTab (ntab s)]" for s' :: lstate
    by (rule run_index2addr_top) (rule that)
  show ?thesis
    using assms 1
    by (simp add: luaL_newmetatable_def run_bindM run_thenM run_getM run_lua_newtable run_push
        lua_pushvalue_def top reg_setfield_def run_pop_val run_modM butlast_append)
qed

lemma run_init_type:
  assumes "stk s = base @ [LTab st]" "regs s (''uv_'' @ fst row) = LNil" "st < ntab s"
  shows "init_type row E s = (Inr (), s\<lparr>ntab := ntab s + 2,
     regs := (regs s)(''uv_'' @ fst row := LTab (ntab s)),
     tabs := type_tabs row (ntab s) st (tabs s)\<rparr>)"
proof -
  let ?mt = "ntab s" and ?ix = "Suc (ntab s)"
  let ?R = "(regs s)(''uv_'' @ fst row := LTab ?mt)"
  let ?b = "base @ [LTab st, LTab ?mt]"
  let ?T1 = "(tabs s)(?mt := tset [] (LStr ''__name'') (LStr (''uv_'' @ fst row)))"
  let ?s1 = "s\<lparr>ntab := ?ix, stk := ?b, tabs := ?T1, regs := ?R\<rparr>"
  have 1: "luaL_newmetatable (''uv_'' @ fst row) E s = (Inr (), ?s1)"
    using run_luaL_newmetatable [OF assms(2)] assms(1) by simp
  let ?T2 = "?T1(?mt := tset (?T1 ?mt) (LStr ''__tostring'') (LCFun ''luv_handle_tostring''))"
  have 2: "lua_setfield (-2) ''__tostring'' E (?s1\<lparr>stk := ?b @ [LCFun ''luv_handle_tostring'']\<rparr>) =
      (Inr (), ?s1\<lparr>tabs := ?T2\<rparr>)"
    by (subst run_lua_setfield [where base = "base @ [LTab st]" and t = ?mt
          and v = "LCFun ''luv_handle_tostring''"]) simp_all
  let ?s3 = "?s1\<lparr>ntab := Suc ?ix, stk := ?b @ [LTab ?ix], tabs := ?T2(?ix := put_funcs (snd row) [])\<rparr>"
  have 3: "luaL_newlib (snd row) E (?s1\<lparr>tabs := ?T2\<rparr>) = (Inr (), ?s3)"
    by (simp add: run_luaL_newlib)
  let ?F = "put_funcs luv_handle_methods (put_funcs (snd row) [])"
  have 4: "luaL_setfuncs luv_handle_methods E ?s3 = (Inr (), ?s3\<lparr>tabs := ?T2(?ix := ?F)\<rparr>)"
    by (subst run_luaL_setfuncs [where base = ?b and t = ?ix])
      (simp_all del: fun_upd_apply add: fun_upd_same)
  let ?T5 = "?T2(?ix := ?F, ?mt := meta_table (fst row) ?ix)"
  have 5: "lua_setfield (-2) ''__index'' E (?s3\<lparr>tabs := ?T2(?ix := ?F)\<rparr>) =
      (Inr (), ?s3\<lparr>tabs := ?T5, stk := ?b\<rparr>)"
    by (subst run_lua_setfield [where base = "base @ [LTab st]" and t = ?mt and v = "LTab ?ix"])
      (simp_all add: meta_table_def)
  have T: "?T5(st := tset (?T5 st) (LTab ?mt) (LBool True)) = type_tabs row ?mt st (tabs s)"
    using assms(3) by (auto simp: type_tabs_def fun_eq_iff)
  have 6: "lua_rawset (-3) E (?s3\<lparr>tabs := ?T5, stk := ?b @ [LBool True]\<rparr>) =
      (Inr (), ?s3\<lparr>stk := base @ [LTab st], tabs := type_tabs row ?mt st (tabs s)\<rparr>)"
    using T by (subst run_lua_rawset [where base = base and t = st and k = "LTab ?mt" and v = "LBool True"])
      simp_all
  show ?thesis
    using assms(1) 1 2 3 4 5 6
    by (simp del: fun_upd_apply add: init_type_def run_thenM run_push run_retM)
qed

subsection \<open>All handle types\<close>

fun types_tabs ::
  "(string \<times> (string \<times> string) list) list \<Rightarrow> nat \<Rightarrow> nat \<Rightarrow> (nat \<Rightarrow> ltable) \<Rightarrow> (nat \<Rightarrow> ltable)" where
  "types_tabs [] mt st T = T"
| "types_tabs (row # rows) mt st T = types_tabs rows (mt + 2) st (type_tabs row mt st T)"

fun types_regs ::
  "(string \<times> (string \<times> string) list) list \<Rightarrow> nat \<Rightarrow> (string \<Rightarrow> lval) \<Rightarrow> (string \<Rightarrow> lval)" where
  "types_regs [] mt R = R"
| "types_regs (row # rows) mt R = types_regs rows (mt + 2) (R(''uv_'' @ fst row := LTab mt))"

lemma run_init_types:
  "stk s = base @ [LTab st] \<Longrightarrow> st < ntab s \<Longrightarrow> distinct (map fst rows) \<Longrightarrow>
   (\<And>row. row \<in> set rows \<Longrightarrow> regs s (''uv_'' @ fst row) = LNil) \<Longrightarrow>
   seqM (map init_type rows) E s = (Inr (), s\<lparr>ntab := ntab s + 2 * length rows,
     regs := types_regs rows (ntab s) (regs s), tabs := types_tabs rows (ntab s) st (tabs s)\<rparr>)"
proof (induction rows arbitrary: s)
  case (Cons row rows)
  let ?s = "s\<lparr>ntab := ntab s + 2, regs := (regs s)(''uv_'' @ fst row := LTab (ntab s)),
     tabs := type_tabs row (ntab s) st (tabs s)\<rparr>"
  have "init_type row E s = (Inr (), ?s)"
    using Cons.prems by (intro run_init_type) auto
  then have "seqM (map init_type (row # rows)) E s = seqM (map init_type rows) E ?s"
    by (simp add: run_thenM)
  also have "... = (Inr (), ?s\<lparr>ntab := ntab ?s + 2 * length rows,
     regs := types_regs rows (ntab ?s) (regs ?s), tabs := types_tabs rows (ntab ?s) st (tabs ?s)\<rparr>)"
    using Cons.prems by (intro Cons.IH) (auto simp: image_iff)
  finally show ?case by simp
qed (simp add: run_retM)

lemma types_regs_other:
  "(\<And>row. row \<in> set rows \<Longrightarrow> n \<noteq> ''uv_'' @ fst row) \<Longrightarrow> types_regs rows mt R n = R n"
  by (induction rows arbitrary: mt R) auto

lemma types_regs_nth:
  "distinct (map fst rows) \<Longrightarrow> k < length rows \<Longrightarrow>
   types_regs rows mt R (''uv_'' @ fst (rows ! k)) = LTab (mt + 2 * k)"
proof (induction rows arbitrary: mt R k)
  case (Cons row rows)
  show ?case
  proof (cases k)
    case 0
    have "types_regs rows (mt + 2) (R(''uv_'' @ fst row := LTab mt)) (''uv_'' @ fst row) = LTab mt"
      using Cons.prems(1) by (subst types_regs_other) (auto simp: image_iff)
    with 0 show ?thesis by simp
  next
    case (Suc j)
    with Cons show ?thesis by simp
  qed
qed simp

lemma types_tabs_other:
  "t < mt \<or> mt + 2 * length rows \<le> t \<Longrightarrow> t \<noteq> st \<Longrightarrow> types_tabs rows mt st T t = T t"
  by (induction rows arbitrary: mt T) (auto simp: type_tabs_def)

lemma types_tabs_set:
  "st < mt \<Longrightarrow> tget (types_tabs rows mt st T st) (LTab m) =
     (if \<exists>k < length rows. m = mt + 2 * k then LBool True else tget (T st) (LTab m))"
proof (induction rows arbitrary: mt T)
  case (Cons row rows)
  have "(\<exists>k < Suc (length rows). m = mt + 2 * k) \<longleftrightarrow>
      m = mt \<or> (\<exists>k < length rows. m = mt + 2 + 2 * k)"
  proof
    assume "\<exists>k < Suc (length rows). m = mt + 2 * k"
    then obtain k where "k < Suc (length rows)" "m = mt + 2 * k" by blast
    then show "m = mt \<or> (\<exists>k < length rows. m = mt + 2 + 2 * k)"
      by (cases k) auto
  next
    assume "m = mt \<or> (\<exists>k < length rows. m = mt + 2 + 2 * k)"
    then show "\<exists>k < Suc (length rows). m = mt + 2 * k"
    proof
      assume "\<exists>k < length rows. m = mt + 2 + 2 * k"
      then obtain k where "k < length rows" "m = mt + 2 + 2 * k" by blast
      then show ?thesis by (intro exI [of _ "Suc k"]) simp
    qed auto
  qed
  moreover have "st < mt + 2" using Cons.prems by simp
  moreover have "type_tabs row mt st T st = tset (T st) (LTab mt) (LBool True)"
    by (simp add: type_tabs_def)
  ultimately show ?case
    using Cons.IH [of "mt + 2" "type_tabs row mt st T"] by auto
qed simp

lemma types_tabs_meta:
  "st < mt \<Longrightarrow> k < length rows \<Longrightarrow>
   types_tabs rows mt st T (mt + 2 * k) = meta_table (fst (rows ! k)) (Suc (mt + 2 * k)) \<and>
   types_tabs rows mt st T (Suc (mt + 2 * k)) =
     put_funcs luv_handle_methods (put_funcs (snd (rows ! k)) [])"
proof (induction rows arbitrary: mt T k)
  case (Cons row rows)
  show ?case
  proof (cases k)
    case 0
    with Cons.prems show ?thesis by (simp add: types_tabs_other) (simp add: type_tabs_def)
  next
    case (Suc j)
    with Cons.prems Cons.IH [of "mt + 2" j "type_tabs row mt st T"] show ?thesis by simp
  qed
qed simp

subsection \<open>Streams\<close>

definition add_stream :: "nat \<Rightarrow> nat \<Rightarrow> nat \<Rightarrow> (nat \<Rightarrow> ltable) \<Rightarrow> (nat \<Rightarrow> ltable)" where
  "add_stream mt ix st T = T(ix := put_funcs luv_stream_methods (T ix),
     st := tset (T st) (LTab mt) (LBool True))"

lemma run_init_stream:
  assumes "stk s = base @ [LTab st]" "regs s (''uv_'' @ lc) = LTab mt"
    and "tget (tabs s mt) (LStr ''__index'') = LTab ix" "st \<noteq> ix"
  shows "init_stream lc E s = (Inr (), s\<lparr>tabs := add_stream mt ix st (tabs s)\<rparr>)"
proof -
  let ?b = "base @ [LTab st, LTab mt]"
  have 1: "lua_getfield (-1) ''__index'' E (s\<lparr>stk := ?b\<rparr>) = (Inr (), s\<lparr>stk := ?b @ [LTab ix]\<rparr>)"
    using assms(3) by (subst run_lua_getfield [where base = "base @ [LTab st]" and t = mt]) simp_all
  let ?T = "(tabs s)(ix := put_funcs luv_stream_methods (tabs s ix))"
  have 2: "luaL_setfuncs luv_stream_methods E (s\<lparr>stk := ?b @ [LTab ix]\<rparr>) =
      (Inr (), s\<lparr>stk := ?b @ [LTab ix], tabs := ?T\<rparr>)"
    by (subst run_luaL_setfuncs [where base = ?b and t = ix]) simp_all
  have 3: "lua_rawset (-3) E (s\<lparr>tabs := ?T, stk := ?b @ [LBool True]\<rparr>) =
      (Inr (), s\<lparr>stk := base @ [LTab st], tabs := ?T(st := tset (?T st) (LTab mt) (LBool True))\<rparr>)"
    by (subst run_lua_rawset [where base = base and t = st and k = "LTab mt" and v = "LBool True"])
      (simp_all del: fun_upd_apply)
  have "?T(st := tset (?T st) (LTab mt) (LBool True)) = add_stream mt ix st (tabs s)"
    using assms(4) by (simp add: add_stream_def)
  with 3 have 4: "lua_rawset (-3) E (s\<lparr>tabs := ?T, stk := ?b @ [LBool True]\<rparr>) =
      (Inr (), s\<lparr>stk := base @ [LTab st], tabs := add_stream mt ix st (tabs s)\<rparr>)" by simp
  show ?thesis
    using assms(1,2) 1 2 4
    by (simp del: fun_upd_apply add: init_stream_def run_thenM run_push run_retM run_reg_getfield run_lua_pop)
qed

subsection \<open>The whole initialisation\<close>

lemma type_names_distinct: "distinct (map fst type_methods)"
  by (simp add: type_methods_def)

lemma type_positions:
  "length type_methods = 16" "fst (type_methods ! 6) = ''pipe''" "fst (type_methods ! 11) = ''tcp''"
  "fst (type_methods ! 13) = ''tty''"
  by (simp_all add: type_methods_def)

text \<open>The three stream types are the rows 6, 11 and 13; their tables are counted from \<open>n + 1\<close>.\<close>

definition init_tabs :: "nat \<Rightarrow> (nat \<Rightarrow> ltable) \<Rightarrow> (nat \<Rightarrow> ltable)" where
  "init_tabs n T =
     add_stream (n + 27) (n + 28) (n + 33)
     (add_stream (n + 23) (n + 24) (n + 33)
     (add_stream (n + 13) (n + 14) (n + 33)
       ((types_tabs type_methods (n + 1) n (T(n := [])))(n + 33 := []))))"

definition init_regs :: "nat \<Rightarrow> (string \<Rightarrow> lval) \<Rightarrow> (string \<Rightarrow> lval)" where
  "init_regs n R = (types_regs type_methods (n + 1) R)(''uv_handle'' := LTab n, ''uv_stream'' := LTab (n + 33))"

text \<open>
  The row \<^verbatim>\<open>handle\<close> of the type map gets the registry name \<^verbatim>\<open>uv_handle\<close> too: the set of
  handle metatables replaces that metatable, and \<^verbatim>\<open>uv_stream\<close> likewise.
\<close>

lemma run_luv_handle_init:
  assumes "\<And>row. row \<in> set type_methods \<Longrightarrow> regs s (''uv_'' @ fst row) = LNil"
  shows "luv_handle_init E s = (Inr (), s\<lparr>ntab := ntab s + 34,
     regs := init_regs (ntab s) (regs s), tabs := init_tabs (ntab s) (tabs s)\<rparr>)"
proof -
  let ?n = "ntab s" and ?b = "stk s"
  let ?s1 = "s\<lparr>tabs := (tabs s)(?n := []), ntab := Suc ?n, stk := ?b @ [LTab ?n]\<rparr>"
  let ?R = "types_regs type_methods (?n + 1) (regs s)"
  let ?T = "types_tabs type_methods (?n + 1) ?n ((tabs s)(?n := []))"
  let ?s2 = "?s1\<lparr>ntab := ?n + 33, regs := ?R, tabs := ?T\<rparr>"
  have 1: "seqM (map init_type type_methods) E ?s1 = (Inr (), ?s2)"
    using assms run_init_types [of ?s1 ?b ?n type_methods E] type_names_distinct
    by (simp add: type_positions)
  let ?R2 = "?R(''uv_handle'' := LTab ?n)"
  let ?s3 = "s\<lparr>regs := ?R2, tabs := ?T(?n + 33 := []), ntab := ?n + 34, stk := ?b @ [LTab (?n + 33)]\<rparr>"
  have lcs: "?R2 (''uv_pipe'') = LTab (?n + 13)" "?R2 (''uv_tcp'') = LTab (?n + 23)"
    "?R2 (''uv_tty'') = LTab (?n + 27)"
    using types_regs_nth [OF type_names_distinct, of 6 "?n + 1" "regs s"]
      types_regs_nth [OF type_names_distinct, of 11 "?n + 1" "regs s"]
      types_regs_nth [OF type_names_distinct, of 13 "?n + 1" "regs s"]
    by (simp_all add: type_positions)
  have ix: "tget (?T (?n + 1 + 2 * k)) (LStr ''__index'') = LTab (?n + 2 + 2 * k)" if "k < 16" for k
    using types_tabs_meta [of ?n "?n + 1" k type_methods] that
    by (simp add: type_positions meta_table_def)
  let ?T0 = "?T(?n + 33 := [])"
  let ?T1 = "add_stream (?n + 13) (?n + 14) (?n + 33) ?T0"
  let ?T2 = "add_stream (?n + 23) (?n + 24) (?n + 33) ?T1"
  have 3: "init_stream ''pipe'' E ?s3 = (Inr (), ?s3\<lparr>tabs := ?T1\<rparr>)"
    using lcs(1) ix [of 6]
    by (subst run_init_stream [where base = ?b and st = "?n + 33" and mt = "?n + 13" and ix = "?n + 14"])
      (simp_all add: add.commute)
  have 4: "init_stream ''tcp'' E (?s3\<lparr>tabs := ?T1\<rparr>) = (Inr (), ?s3\<lparr>tabs := ?T2\<rparr>)"
    using lcs(2) ix [of 11]
    by (subst run_init_stream [where base = ?b and st = "?n + 33" and mt = "?n + 23" and ix = "?n + 24"])
      (simp_all add: add.commute add_stream_def)
  have 5: "init_stream ''tty'' E (?s3\<lparr>tabs := ?T2\<rparr>) = (Inr (), ?s3\<lparr>tabs := init_tabs ?n (tabs s)\<rparr>)"
    using lcs(3) ix [of 13]
    by (subst run_init_stream [where base = ?b and st = "?n + 33" and mt = "?n + 27" and ix = "?n + 28"])
      (simp_all add: add.commute add_stream_def init_tabs_def)
  show ?thesis
    using 1 3 4 5
    by (simp del: fun_upd_apply add: luv_handle_init_def run_thenM run_retM run_lua_newtable
        reg_setfield_def run_bindM run_pop_val run_modM init_regs_def add.commute)
qed

text \<open>The state of a new Lua state: empty stack, no userdata, no luv memory.\<close>

definition init_state :: lstate where
  "init_state = \<lparr>stk = [], reg = reg_init, regs = (\<lambda>_. LNil), tabs = (\<lambda>_. []), ntab = 1, nud = 0,
     umeta = (\<lambda>_. None), hnds = (\<lambda>_. None), rqs = (\<lambda>_. None), mem = (\<lambda>_. None), brk = 0,
     uvlog = [], calls = [], errbuf = [], out = []\<rparr>"

lemma wf_init_state: "wf init_state"
  by (simp add: wf_def init_state_def reg_ok_init heap_ok_def)

definition req_meta :: ltable where
  "req_meta = tset (tset [] (LStr ''__name'') (LStr ''uv_req'')) (LStr ''__tostring'') (LCFun ''luv_req_tostring'')"

lemma run_luv_req_init:
  assumes "regs s ''uv_req'' = LNil"
  shows "luv_req_init E s = (Inr (), s\<lparr>ntab := Suc (ntab s),
     regs := (regs s)(''uv_req'' := LTab (ntab s)), tabs := (tabs s)(ntab s := req_meta)\<rparr>)"
proof -
  let ?n = "ntab s"
  let ?s1 = "s\<lparr>ntab := Suc ?n, tabs := (tabs s)(?n := tset [] (LStr ''__name'') (LStr ''uv_req'')),
      regs := (regs s)(''uv_req'' := LTab ?n)\<rparr>"
  have 1: "luaL_newmetatable ''uv_req'' E s = (Inr (), ?s1\<lparr>stk := stk s @ [LTab ?n]\<rparr>)"
    using run_luaL_newmetatable [OF assms] by simp
  have 2: "lua_setfield (-2) ''__tostring'' E (?s1\<lparr>stk := stk s @ [LTab ?n, LCFun ''luv_req_tostring'']\<rparr>) =
      (Inr (), ?s1\<lparr>stk := stk s @ [LTab ?n], tabs := (tabs s)(?n := req_meta)\<rparr>)"
    by (subst run_lua_setfield [where base = "stk s" and t = ?n and v = "LCFun ''luv_req_tostring''"])
      (simp_all add: req_meta_def)
  show ?thesis
    using 1 2
    by (simp del: fun_upd_apply add: luv_req_init_def run_thenM run_push run_retM run_lua_pop)
qed

text \<open>The state \<^verbatim>\<open>luv_init\<close> makes of a new Lua state.\<close>

definition luv_state0 :: lstate where
  "luv_state0 = init_state\<lparr>nud := 1, uvlog := [(''uv_loop_init'', [AObj 0])], ntab := 36,
     regs := init_regs 2 ((\<lambda>_. LNil)(''uv_loop'' := LUData 0, ''uv_req'' := LTab 1)),
     tabs := init_tabs 2 ((\<lambda>_. [])(1 := req_meta))\<rparr>"

lemma run_luv_init:
  assumes "0 \<le> uv_ret E [(''uv_loop_init'', [AObj 0])]"
  shows "luv_init E init_state = (Inr 1, luv_state0)"
proof -
  let ?R = "(\<lambda>_. LNil)(''uv_loop'' := LUData 0, ''uv_req'' := LTab 1)"
  let ?s1 = "init_state\<lparr>nud := 1, uvlog := [(''uv_loop_init'', [AObj 0])],
      regs := (\<lambda>_. LNil)(''uv_loop'' := LUData 0)\<rparr>"
  have 1: "luv_req_init E ?s1 = (Inr (), ?s1\<lparr>ntab := 2, regs := ?R, tabs := (\<lambda>_. [])(1 := req_meta)\<rparr>)"
    by (subst run_luv_req_init) (simp_all add: init_state_def)
  have "?R (''uv_'' @ fst row) = LNil" if "row \<in> set type_methods" for row
    using that by (auto simp: type_methods_def)
  then have 2: "luv_handle_init E (?s1\<lparr>ntab := 2, regs := ?R, tabs := (\<lambda>_. [])(1 := req_meta)\<rparr>) =
      (Inr (), luv_state0)"
    by (subst run_luv_handle_init) (simp_all add: luv_state0_def)
  have "lua_newuserdata E init_state = (Inr 0, init_state\<lparr>nud := 1, stk := [LUData 0]\<rparr>)"
    by (simp add: run_lua_newuserdata init_state_def fun_upd_idem)
  then show ?thesis
    using assms 1 2
    by (simp add: luv_init_def run_bindM run_thenM run_retM run_uv reg_setfield_def run_pop_val run_modM)
      (simp add: init_state_def run_thenM run_retM)
qed

lemma wf_luv_state0: "wf luv_state0"
  using wf_init_state by (simp add: wf_def init_state_def luv_state0_def)

text \<open>Is metatable \<open>m\<close> in the registry set \<open>name\<close>?\<close>

definition in_set :: "lstate \<Rightarrow> string \<Rightarrow> nat \<Rightarrow> bool" where
  "in_set s name m = (case regs s name of LTab t \<Rightarrow> lval_truth (tget (tabs s t) (LTab m)) | _ \<Rightarrow> False)"

text \<open>The metatable of row \<open>k\<close> is table \<open>3 + 2 * k\<close>; \<^verbatim>\<open>handle\<close> and \<^verbatim>\<open>stream\<close> lose their names.\<close>

lemma luv_state0_regs:
  assumes "k < 16" "k \<noteq> 4" "k \<noteq> 10"
  shows "regs luv_state0 (''uv_'' @ fst (type_methods ! k)) = LTab (3 + 2 * k)"
proof -
  have "fst (type_methods ! k) \<noteq> ''handle''" "fst (type_methods ! k) \<noteq> ''stream''"
    using assms nth_eq_iff_index_eq [OF type_names_distinct, of k 4]
      nth_eq_iff_index_eq [OF type_names_distinct, of k 10] type_positions(1)
    by (auto simp: type_methods_def nth_Cons split: nat.splits)
  then show ?thesis
    using types_regs_nth [OF type_names_distinct, of k 3] assms
    by (simp add: luv_state0_def init_regs_def type_positions)
qed

lemma luv_state0_sets:
  "in_set luv_state0 ''uv_handle'' m \<longleftrightarrow> (\<exists>k < 16. m = 3 + 2 * k)"
  "in_set luv_state0 ''uv_stream'' m \<longleftrightarrow> m \<in> {15, 25, 29}"
proof -
  let ?T0 = "(\<lambda>_. [])(1 := req_meta, 2 := [])"
  have "tget (types_tabs type_methods 3 2 ?T0 2) (LTab m) =
      (if \<exists>k < 16. m = 3 + 2 * k then LBool True else LNil)"
    using types_tabs_set [of 2 3 type_methods ?T0 m] by (simp add: type_positions)
  then show "in_set luv_state0 ''uv_handle'' m \<longleftrightarrow> (\<exists>k < 16. m = 3 + 2 * k)"
    by (auto simp: in_set_def luv_state0_def init_regs_def init_tabs_def add_stream_def)
  show "in_set luv_state0 ''uv_stream'' m \<longleftrightarrow> m \<in> {15, 25, 29}"
    by (auto simp: in_set_def luv_state0_def init_regs_def init_tabs_def add_stream_def)
qed

lemma luv_state0_meta:
  assumes "k < 16"
  shows "tget (tabs luv_state0 (3 + 2 * k)) (LStr ''__index'') = LTab (4 + 2 * k)"
    and "tget (tabs luv_state0 (3 + 2 * k)) (LStr ''__tostring'') = LCFun ''luv_handle_tostring''"
proof -
  let ?T0 = "(\<lambda>_. [])(1 := req_meta, 2 := [])"
  have o: "odd (3 + 2 * k)" by simp
  have ne: "3 + 2 * k \<noteq> 30" "3 + 2 * k \<noteq> 26" "3 + 2 * k \<noteq> 16"
    by (presburger)+
  have "tabs luv_state0 (3 + 2 * k) = types_tabs type_methods 3 2 ?T0 (3 + 2 * k)"
    using ne assms by (simp add: luv_state0_def init_tabs_def add_stream_def)
  also have "... = meta_table (fst (type_methods ! k)) (4 + 2 * k)"
    using types_tabs_meta [of 2 3 k type_methods ?T0] assms by (simp add: type_positions)
  finally have e: "tabs luv_state0 (3 + 2 * k) = meta_table (fst (type_methods ! k)) (4 + 2 * k)" .
  show "tget (tabs luv_state0 (3 + 2 * k)) (LStr ''__index'') = LTab (4 + 2 * k)"
    "tget (tabs luv_state0 (3 + 2 * k)) (LStr ''__tostring'') = LCFun ''luv_handle_tostring''"
    unfolding e by (simp_all add: meta_table_def)
qed

end
