(* ===== verification/Luv_Reach.thy ===== *)
theory Luv_Reach
  imports Luv_Init
begin

text \<open>
  The library as a state machine: Lua code calls the exported functions and the
  \<^verbatim>\<open>__tostring\<close> metamethods one after the other, each on a stack of its own that holds the
  arguments; libuv's callbacks run inside \<^verbatim>\<open>uv_run\<close>, so inside the call of \<open>luv_loop_run\<close>.
  \<open>reachable\<close> are the states of programs in which no C fault has happened yet.
\<close>

subsection \<open>Calling a C function from Lua\<close>

definition capi :: "nat M \<Rightarrow> lval list \<Rightarrow> lval list M" where
  "capi m args = (\<lambda>E s. case m E (s\<lparr>stk := args\<rparr>) of
      (Inl e, s') \<Rightarrow> (Inl e, s'\<lparr>stk := stk s\<rparr>)
    | (Inr n, s') \<Rightarrow> if n \<le> length (stk s')
        then (Inr (drop (length (stk s') - n) (stk s')), s'\<lparr>stk := stk s\<rparr>)
        else (Inl (Crash Bad_index), s'\<lparr>stk := stk s\<rparr>))"

definition metamethods :: "(string \<times> string \<times> nat M) list" where
  "metamethods =
    [(''__tostring'', ''luv_handle_tostring'', luv_handle_tostring),
     (''__tostring'', ''luv_req_tostring'', luv_req_tostring)]"

text \<open>The exception of a call, if any, is one that Lua can catch.\<close>

fun recoverable :: "exc + 'a \<Rightarrow> bool" where
  "recoverable (Inl e) = lua_exc e"
| "recoverable (Inr x) = True"

inductive luv_step :: "env \<Rightarrow> lstate \<Rightarrow> lstate \<Rightarrow> bool" for E where
  call: "(n, c, m) \<in> set (luv_functions @ metamethods) \<Longrightarrow> capi m args E s = (r, s') \<Longrightarrow>
    recoverable r \<Longrightarrow> luv_step E s s'"

inductive_cases luv_stepE: "luv_step E s s'"

inductive reachable :: "env \<Rightarrow> lstate \<Rightarrow> bool" for E where
  start: "luv_init E init_state = (Inr n, s) \<Longrightarrow> reachable E s"
| step: "reachable E s \<Longrightarrow> luv_step E s s' \<Longrightarrow> reachable E s'"

subsection \<open>The invariant of the reachable states\<close>

lemma keep_capi:
  assumes "keeps E m" "wf s" "capi m args E s = (r, s')" "recoverable r"
  shows "wf s'"
proof -
  obtain q t where q: "m E (s\<lparr>stk := args\<rparr>) = (q, t)" by fastforce
  have w: "wf (s\<lparr>stk := args\<rparr>)" using assms(2) by simp
  show ?thesis
  proof (cases q)
    case (Inl e)
    with q assms(3,4) have "lua_exc e" "s' = t\<lparr>stk := stk s\<rparr>" by (auto simp: capi_def)
    then show ?thesis using hoareD(2) [OF assms(1) w q [unfolded Inl]] by simp
  next
    case (Inr n)
    with q assms(3) have "s' = t\<lparr>stk := stk s\<rparr>" by (auto simp: capi_def split: if_splits)
    then show ?thesis using hoareD(1) [OF assms(1) w q [unfolded Inr]] by simp
  qed
qed

lemma keep_metamethods: "(n, c, m) \<in> set metamethods \<Longrightarrow> keeps E m"
  by (auto simp: metamethods_def intro: keep_handle_api keep_req_api)

lemma wf_luv_step: "env_ok E \<Longrightarrow> luv_step E s s' \<Longrightarrow> wf s \<Longrightarrow> wf s'"
  by (elim luv_stepE) (auto intro: keep_capi keep_luv_functions keep_metamethods)

lemma wf_luv_steps: "(luv_step E)\<^sup>*\<^sup>* s s' \<Longrightarrow> env_ok E \<Longrightarrow> wf s \<Longrightarrow> wf s'"
  by (induction rule: rtranclp_induct) (auto intro: wf_luv_step)

lemma keep_lua_newuserdata: "keeps E lua_newuserdata"
  by (rule keepsI) (simp add: run_lua_newuserdata wf_new_udata)

lemma neutral_set_func [neu]: "neutral (set_func f)"
  unfolding set_func_def by (intro neu)

lemma neutral_luaL_setfuncs [neu]: "neutral (luaL_setfuncs fs)" "neutral (luaL_newlib fs)"
  unfolding luaL_newlib_def luaL_setfuncs_def by (auto intro!: neu leaves_seqM)

lemma neutral_handle_init: "neutral luv_handle_init"
  unfolding luv_handle_init_def
  by (auto intro!: neu leaves_seqM simp: init_type_def init_stream_def)

lemma keep_luv_init: "keeps E luv_init"
  unfolding luv_init_def
  by (rule keep_lua_newuserdata hw keep_req_api(3) neutral_handle_init [THEN keep_neutral, OF stable_wf]
      keep_luaL_error | assumption)+

theorem wf_reachable: "reachable E s \<Longrightarrow> env_ok E \<Longrightarrow> wf s"
proof (induction rule: reachable.induct)
  case (start n s)
  then show ?case using hoareD(1) [OF keep_luv_init wf_init_state] by blast
next
  case (step s s')
  then show ?case using wf_luv_step by blast
qed

end
