(* ===== verification/Luv_Scenario.thy ===== *)
theory Luv_Scenario
  imports Luv_Reach
begin

text \<open>
  What the properties of the handles and requests share: how a call from Lua runs, what it
  means that a userdata is a live handle, and the concrete environment and states at which
  the properties are applied.
\<close>

subsection \<open>Calls from Lua\<close>

lemma capi_ok:
  assumes "m E (s\<lparr>stk := args\<rparr>) = (Inr n, s')" "stk s' = base @ rs" "length rs = n"
    and "s'\<lparr>stk := stk s\<rparr> = t"
  shows "capi m args E s = (Inr rs, t)"
  using assms by (simp add: capi_def)

lemma capi_fail:
  assumes "m E (s\<lparr>stk := args\<rparr>) = (Inl e, s')" "s'\<lparr>stk := stk s\<rparr> = t"
  shows "capi m args E s = (Inl e, t)"
  using assms by (simp add: capi_def)

text \<open>Updates of different fields in another order: equal field by field.\<close>

lemmas lstate_eqI = lstate.equality

text \<open>One step of a computation whose outcome is known.\<close>

lemma bind_step: "m E s = (Inr x, s') \<Longrightarrow> bindM m f E s = f x E s'"
  by (simp add: run_bindM)

lemma then_step: "m E s = (Inr x, s') \<Longrightarrow> thenM m k E s = k E s'"
  by (simp add: run_thenM)

lemma arg_nth: "0 < i \<Longrightarrow> i \<le> length args \<Longrightarrow> arg (s\<lparr>stk := args\<rparr>) i = Some (args ! (i - 1))"
  by (simp add: arg_def)

lemma arg_none: "length args < i \<Longrightarrow> arg (s\<lparr>stk := args\<rparr>) i = None"
  by (simp add: arg_def)

lemma arg_reg [simp]:
  "arg (s\<lparr>reg := R\<rparr>) i = arg s i" "arg (s\<lparr>mem := m\<rparr>) i = arg s i"
  "arg (s\<lparr>uvlog := l\<rparr>) i = arg s i" "arg (s\<lparr>hnds := h\<rparr>) i = arg s i"
  "arg (s\<lparr>rqs := q\<rparr>) i = arg s i" "arg (s\<lparr>umeta := x\<rparr>) i = arg s i"
  "arg (s\<lparr>brk := b\<rparr>) i = arg s i" "arg (s\<lparr>nud := k\<rparr>) i = arg s i"
  by (simp_all add: arg_def)

lemma run_checkinteger_int [luasem]:
  "0 < i \<Longrightarrow> arg s (nat i) = Some (LInt n) \<Longrightarrow> luaL_checkinteger i E s = (Inr n, s)"
  by (simp add: luaL_checkinteger_def run_bindM run_index2addr_arg run_askM to_int_def to_num_def
      run_retM)

lemma run_check_c_int [luasem]:
  "0 < i \<Longrightarrow> arg s (nat i) = Some (LInt n) \<Longrightarrow> check_c_int i E s = (Inr (c_int n), s)"
  by (simp add: check_c_int_def run_bindM run_checkinteger_int run_retM)

lemma run_ret_integer [luasem]:
  "0 \<le> r \<Longrightarrow> ret_integer r E s = (Inr 1, s\<lparr>stk := stk s @ [LInt (c_int64 r)]\<rparr>)"
  by (simp add: ret_integer_def luasem)

lemma run_ret_boolean [luasem]:
  "0 \<le> r \<Longrightarrow> ret_boolean r E s = (Inr 1, s\<lparr>stk := stk s @ [LBool (r \<noteq> 0)]\<rparr>)"
  by (simp add: ret_boolean_def luasem)

subsection \<open>The error triple\<close>

text \<open>
  The results of \<^verbatim>\<open>luv_error\<close> when no Lua function is active above the running one: nil, the
  message and the name of the error.  The report fits the buffer.
\<close>

definition error_triple :: "env \<Rightarrow> int \<Rightarrow> lval list" where
  "error_triple E st = [LNil, LStr (''[luv_error]'' @ cstr (uv_err_name E st) @ '': '' @ cstr (uv_strerror E st)),
     LStr (cstr (uv_err_name E st))]"

definition error_report :: "env \<Rightarrow> int \<Rightarrow> string" where
  "error_report E st = LUV_STACKDUMP_STR @ cstr (uv_err_name E st) @ '':'' @ cstr (uv_strerror E st) @ nl"

definition report_fits :: "env \<Rightarrow> int \<Rightarrow> bool" where
  "report_fits E st \<longleftrightarrow> length (error_report E st) < ERRBUF_SIZE"

lemma run_luv_error:
  assumes "\<And>s. length (frames E s) \<le> 1" "report_fits E st"
  shows "luv_error st E s = (Inr 3, s\<lparr>stk := stk s @ error_triple E st, errbuf := error_report E st,
     out := (error_report E st @ nl) # out s\<rparr>)"
proof -
  have fr: "active_frames E s' = (Inr [], s')" for s' using assms(1) [of s'] by (simp add: active_frames_def)
  show ?thesis
    using assms(2)
    by (simp add: luv_error_def luasem errclear_def errcat_def fr print_err_def error_triple_def
        error_report_def report_fits_def)
qed

subsection \<open>Live handles\<close>

text \<open>
  The userdata \<open>u\<close> is a handle of type \<open>ty\<close> that has not been released: it has the metatable
  of its type and its \<^verbatim>\<open>data\<close> points to the \<^verbatim>\<open>luv_handle_t\<close> \<open>d\<close> at address \<open>a\<close>.
\<close>

definition live_handle ::
  "lstate \<Rightarrow> string \<Rightarrow> uv_handle_type \<Rightarrow> nat \<Rightarrow> nat \<Rightarrow> luv_handle \<Rightarrow> bool" where
  "live_handle s lc ty u a d \<longleftrightarrow> map_option LTab (umeta s u) = Some (regs s (''uv_'' @ lc))
     \<and> map_option h_type (hnds s u) = Some ty \<and> Option.bind (hnds s u) h_data = Some a
     \<and> mem s a = Some (BHandle d)"

lemma live_handleD:
  assumes "live_handle s lc ty u a d"
  obtains m h where "umeta s u = Some m" "regs s (''uv_'' @ lc) = LTab m" "hnds s u = Some h"
    "h_type h = ty" "h_data h = Some a" "mem s a = Some (BHandle d)"
  using assms unfolding live_handle_def
  by (cases "umeta s u"; cases "hnds s u") auto

lemma live_handle_stk [simp]: "live_handle (s\<lparr>stk := x\<rparr>) = live_handle s"
  by (simp add: live_handle_def fun_eq_iff)

lemma run_check_live:
  assumes "live_handle s lc ty u a d" "arg s 1 = Some (LUData u)"
  shows "check_handle (''uv_'' @ lc) ty msg 1 E s = (Inr u, s)"
    and "handle_data u E s = (Inr (Some a), s)"
proof -
  obtain m h where *: "umeta s u = Some m" "regs s (''uv_'' @ lc) = LTab m" "hnds s u = Some h"
    "h_type h = ty" "h_data h = Some a" "mem s a = Some (BHandle d)"
    by (rule live_handleD [OF assms(1)])
  show "check_handle (''uv_'' @ lc) ty msg 1 E s = (Inr u, s)"
    using run_check_handle [of 1 s u m "''uv_'' @ lc" h ty msg E] * assms(2) by simp
  show "handle_data u E s = (Inr (Some a), s)"
    using run_handle_data [OF *(3)] * by simp
qed

text \<open>A userdata that \<^verbatim>\<open>lua_handle_check\<close> accepts, in whatever state the handle in it is.\<close>

definition known_handle :: "lstate \<Rightarrow> string \<Rightarrow> nat \<Rightarrow> bool" where
  "known_handle s name u \<longleftrightarrow> umeta s u \<noteq> None \<and>
     (case regs s name of LTab t \<Rightarrow> True | _ \<Rightarrow> False) \<and> is_meta s name u"

lemma is_meta_frame [simp]:
  "is_meta (s\<lparr>stk := x\<rparr>) = is_meta s" "is_meta (s\<lparr>hnds := h\<rparr>) = is_meta s"
  "is_meta (s\<lparr>uvlog := l\<rparr>) = is_meta s" "is_meta (s\<lparr>reg := r\<rparr>) = is_meta s"
  "is_meta (s\<lparr>mem := m\<rparr>) = is_meta s"
  by (auto simp: is_meta_def fun_eq_iff split: option.splits lval.splits)

lemma known_handle_frame [simp]:
  "known_handle (s\<lparr>stk := x\<rparr>) = known_handle s" "known_handle (s\<lparr>hnds := h\<rparr>) = known_handle s"
  "known_handle (s\<lparr>uvlog := l\<rparr>) = known_handle s" "known_handle (s\<lparr>reg := r\<rparr>) = known_handle s"
  "known_handle (s\<lparr>mem := m\<rparr>) = known_handle s"
  by (simp_all add: known_handle_def fun_eq_iff)

lemma run_meta_known:
  assumes "known_handle s name u" "0 < i" "arg s (nat i) = Some (LUData u)"
  shows "meta_in_set i name E s = (Inr True, s)"
proof -
  obtain m where m: "umeta s u = Some m" using assms(1) by (auto simp: known_handle_def)
  obtain t where t: "regs s name = LTab t"
    using assms(1) by (auto simp: known_handle_def split: lval.splits)
  have "is_meta s name u" using assms(1) by (simp add: known_handle_def)
  with run_meta_in_set [OF assms(2,3) m t, of E] show ?thesis by simp
qed

lemma run_known_handle_check:
  assumes "known_handle s ''uv_handle'' u" "0 < i" "arg s (nat i) = Some (LUData u)"
  shows "lua_handle_check i E s = (Inr u, s)"
  using assms run_meta_known [OF assms, of E]
  by (simp add: lua_handle_check_def lua_touserdata_def run_bindM run_index2addr_arg run_retM
      as_handle_def)

lemma run_known_stream_check:
  assumes "known_handle s ''uv_stream'' u" "0 < i" "arg s (nat i) = Some (LUData u)"
  shows "luv_stream_check i E s = (Inr u, s)"
  using assms run_meta_known [OF assms, of E]
  by (simp add: luv_stream_check_def lua_touserdata_def run_bindM run_index2addr_arg run_retM
      as_handle_def)

subsection \<open>A concrete environment\<close>

text \<open>
  Every libuv call answers 0, every allocation succeeds, every Lua function returns at once
  and no function is active besides the running one.
\<close>

definition quiet_env :: env where
  "quiet_env = \<lparr>uv_ret = (\<lambda>_. 0), uv_int = (\<lambda>_ _. 0), uv_text = (\<lambda>_ _. None), uv_dbl = (\<lambda>_ _. 0),
     uv_events = (\<lambda>_. []), uv_walked = (\<lambda>_. []), uv_err_name = (\<lambda>_. ''EIO''),
     uv_strerror = (\<lambda>_. ''i/o error''), malloc_ok = (\<lambda>_. True),
     ucall = (\<lambda>f args s. (Inr [], s)), str2num = (\<lambda>_. None), flt2int = (\<lambda>_. None),
     num2cint = (\<lambda>_. 0), num2str = (\<lambda>_. ''0''), ptr2str = (\<lambda>_. ''1000''),
     arg_msg = (\<lambda>_ msg. ''bad argument ('' @ msg @ '')''), lwhere = [], frames = (\<lambda>_. []),
     upvals = (\<lambda>_. []), cst = (\<lambda>_. None)\<rparr>"

lemma quiet_simps [simp]:
  "uv_ret quiet_env l = 0" "malloc_ok quiet_env a" "ucall quiet_env f args s = (Inr [], s)"
  "uv_int quiet_env l k = 0" "uv_text quiet_env l k = None" "uv_err_name quiet_env e = ''EIO''"
  "uv_strerror quiet_env e = ''i/o error''" "frames quiet_env s = []" "lwhere quiet_env = []"
  "ptr2str quiet_env v = ''1000''" "cst quiet_env c = None"
  "arg_msg quiet_env i msg = ''bad argument ('' @ msg @ '')''"
  by (simp_all add: quiet_env_def)

lemma env_ok_quiet: "env_ok quiet_env"
  by (simp add: env_ok_def)

text \<open>
  The assumption \<open>env_ok\<close> about the Lua code of a program holds whenever that code acts on the
  state through exported functions only: if each Lua function, called in \<open>E\<close>, makes finitely
  many calls whose own callbacks behave as in an environment \<open>E0\<close> that satisfies it, \<open>E\<close>
  satisfies it.  So it holds for callbacks nested to any depth.
\<close>

definition acts_through :: "env \<Rightarrow> env \<Rightarrow> bool" where
  "acts_through E0 E \<longleftrightarrow> (\<forall>f args s. recoverable (fst (ucall E f args s)) \<longrightarrow>
     (\<exists>t. (luv_step E0)\<^sup>*\<^sup>* s t \<and> core (snd (ucall E f args s)) = core t))"

lemma env_ok_layer:
  assumes "env_ok E0" "acts_through E0 E"
  shows "env_ok E"
proof -
  have "case ucall E f args s of (Inl e, s') \<Rightarrow> lua_exc e \<longrightarrow> wf s' | (Inr rs, s') \<Rightarrow> wf s'"
    if "wf s" for f args s
  proof -
    obtain r s' where u: "ucall E f args s = (r, s')" by fastforce
    have "wf s'" if "recoverable r"
    proof -
      from assms(2) have "recoverable (fst (ucall E f args s)) \<longrightarrow>
          (\<exists>t. (luv_step E0)\<^sup>*\<^sup>* s t \<and> core (snd (ucall E f args s)) = core t)"
        unfolding acts_through_def by blast
      with u that obtain t where "(luv_step E0)\<^sup>*\<^sup>* s t" "core s' = core t" by auto
      with wf_luv_steps [OF this(1) assms(1) \<open>wf s\<close>] show ?thesis using wf_core by blast
    qed
    with u show ?thesis by (cases r) auto
  qed
  then show ?thesis by (simp add: env_ok_def)
qed

subsection \<open>Concrete states\<close>

text \<open>After the initialisation and one \<^verbatim>\<open>uv.timer_new()\<close>: userdata 1 is a timer.\<close>

definition timer_state :: lstate where
  "timer_state = luv_state0\<lparr>nud := 2, umeta := (umeta luv_state0)(1 := Some 27),
     rqs := (rqs luv_state0)(1 := None),
     hnds := (hnds luv_state0)(1 := Some \<lparr>h_type = UV_TIMER, h_data = Some 0, h_closing = False\<rparr>),
     reg := [LNil, LThread, LTab 0, LUData 1],
     mem := (mem luv_state0)(0 := Some (BHandle \<lparr>lh_ref = 3, lh_cb0 = -2, lh_cb1 = -2\<rparr>)),
     brk := 1, uvlog := (''uv_timer_init'', [AObj 1]) # uvlog luv_state0\<rparr>"

lemma luv_state0_fields:
  "stk luv_state0 = []" "reg luv_state0 = reg_init" "nud luv_state0 = 1" "brk luv_state0 = 0"
  "mem luv_state0 = (\<lambda>_. None)" "hnds luv_state0 = (\<lambda>_. None)" "rqs luv_state0 = (\<lambda>_. None)"
  "calls luv_state0 = []" "umeta luv_state0 = (\<lambda>_. None)" "errbuf luv_state0 = []"
  by (simp_all add: luv_state0_def init_state_def)

lemma luv_state0_stk: "luv_state0\<lparr>stk := []\<rparr> = luv_state0"
  by (simp add: luv_state0_def init_state_def)

lemma luv_state0_timer: "regs luv_state0 ''uv_timer'' = LTab 27"
  using luv_state0_regs [of 12] by (simp add: type_positions type_methods_def)

lemma capi_timer_new: "capi luv_timer_new [] quiet_env luv_state0 = (Inr [LUData 1], timer_state)"
proof -
  have "luv_timer_new quiet_env luv_state0 = (Inr 1, timer_state\<lparr>stk := [LUData 1]\<rparr>)"
    using run_new_handle_ok [of luv_state0 "\<lambda>u. uv ''uv_timer_init'' [AObj u]" quiet_env 0
        "(''uv_timer_init'', [AObj 1])" UV_TIMER "''timer''" 27]
    by (simp add: luv_timer_new_def run_uv luv_state0_fields luv_state0_timer timer_state_def
        reg_init_def reg_ref_def reg_geti_def link_of_def reg_seti_def reg_rawlen_def)
  then show ?thesis
    by (intro capi_ok [where n = 1 and base = "[]" and rs = "[LUData 1]"
        and s' = "timer_state\<lparr>stk := [LUData 1]\<rparr>"] lstate_eqI)
      (simp_all add: luv_state0_fields luv_state0_stk timer_state_def)
qed

lemma reachable_luv_state0: "reachable quiet_env luv_state0"
  by (rule reachable.start, rule run_luv_init) simp

lemma reachable_timer_state: "reachable quiet_env timer_state"
proof (rule reachable.step [OF reachable_luv_state0])
  have "(''timer_new'', ''luv_timer_new'', luv_timer_new) \<in> set luv_functions"
    by (simp add: luv_functions_def functions_timer_def)
  then show "luv_step quiet_env luv_state0 timer_state"
    by (intro luv_step.call [OF _ capi_timer_new]) auto
qed

lemma live_timer_state:
  "live_handle timer_state ''timer'' UV_TIMER 1 0 \<lparr>lh_ref = 3, lh_cb0 = -2, lh_cb1 = -2\<rparr>"
  by (simp add: live_handle_def timer_state_def luv_state0_timer)

lemma known_timer_state: "known_handle timer_state ''uv_handle'' 1"
proof -
  have "in_set luv_state0 ''uv_handle'' 27" using luv_state0_sets(1) [of 27] by (auto intro: exI [of _ 12])
  then show ?thesis
    by (auto simp: known_handle_def is_meta_def in_set_def timer_state_def split: lval.splits)
qed

lemma wf_timer_state: "wf timer_state"
  by (rule wf_reachable [OF reachable_timer_state env_ok_quiet])

end
