(* ===== verification/Luv_Handle_Life.thy ===== *)
theory Luv_Handle_Life
  imports Luv_Scenario
begin

text \<open>
  The life of a handle, from its creation over the registration and the calls of its
  callbacks to its release: what \<^verbatim>\<open>luv_lhandle.c\<close>, \<^verbatim>\<open>luv_handle.c\<close>, \<^verbatim>\<open>luv_timer.c\<close> and
  \<^verbatim>\<open>luv_stream.c\<close> do along the way.
\<close>

subsection \<open>Callbacks\<close>

lemma callback_slot_live:
  assumes "wf s" "mem s a = Some (BHandle d)" "0 \<le> cb_get k d"
  shows "cb_get k d \<in> reg_live (reg s)"
  using wf_block_ok [OF assms(1,2)] assms(3)
  by (auto simp: block_ok_def pos_refs_def block_refs_def cb_get_def split: if_splits)

lemma reg_unref_ok:
  assumes "reg_ok R" "r < 0 \<or> r \<in> reg_live R"
  shows "reg_ok (reg_unref R r)" "reg_live (reg_unref R r) = reg_live R - {r}"
    "q \<in> reg_live R \<Longrightarrow> q \<noteq> r \<Longrightarrow> reg_geti (reg_unref R r) q = reg_geti R q"
proof -
  have "r \<notin> reg_live R" if "r < 0" using reg_live_pos that by force
  then show "reg_ok (reg_unref R r)" "reg_live (reg_unref R r) = reg_live R - {r}"
    "q \<in> reg_live R \<Longrightarrow> q \<noteq> r \<Longrightarrow> reg_geti (reg_unref R r) q = reg_geti R q"
    using assms luaref.release_invar luaref.release_live luaref.release_frame
    by (cases "r < 0"; auto)+
qed

text \<open>
  C8. Registering a callback replaces the one before without a leak: the new function is
  stored under a fresh reference, the replaced reference is given back, every other live
  reference keeps its value, and the Lua stack is unchanged.
\<close>

theorem callback_replaced:
  assumes "wf s" "mem s a = Some (BHandle d)" "arg s (nat i) = Some f" "lua_tag f = TFUNCTION"
  shows "\<exists>r s'. luv_callback_check (Some a) k i E s = (Inr (), s') \<and> stk s' = stk s
    \<and> mem s' a = Some (BHandle (cb_set k r d)) \<and> reg_geti (reg s') r = f
    \<and> reg_live (reg s') = insert r (reg_live (reg s) - {cb_get k d})
    \<and> (\<forall>q \<in> reg_live (reg s) - {cb_get k d}. q \<noteq> r \<and> reg_geti (reg s') q = reg_geti (reg s) q)"
proof -
  let ?R = "reg_unref (reg s) (cb_get k d)"
  have f: "f \<noteq> LNil" using assms(4) by auto
  have c: "cb_get k d < 0 \<or> cb_get k d \<in> reg_live (reg s)"
    using callback_slot_live [OF assms(1,2)] by force
  note U = reg_unref_ok [OF wfD(1) [OF assms(1)] c]
  let ?r = "fst (reg_ref ?R f)"
  have "?r \<notin> reg_live ?R" "reg_geti (snd (reg_ref ?R f)) ?r = f"
    "reg_live (snd (reg_ref ?R f)) = insert ?r (reg_live ?R)"
    "\<And>q. q \<in> reg_live ?R \<Longrightarrow> reg_geti (snd (reg_ref ?R f)) q = reg_geti ?R q"
    using luaref.alloc_fresh luaref.alloc_get luaref.alloc_live luaref.alloc_frame U(1) f by blast+
  with U run_luv_callback_check [OF assms(2-4), of k E] show ?thesis
    by (intro exI [of _ ?r] exI) (auto simp: Let_def)
qed

theorem callback_replaced_witness:
  "\<exists>r s'. luv_callback_check (Some 0) 1 2 quiet_env (timer_state\<lparr>stk := [LUData 1, LFun 7]\<rparr>) = (Inr (), s')
    \<and> reg_geti (reg s') r = LFun 7"
  using callback_replaced [of "timer_state\<lparr>stk := [LUData 1, LFun 7]\<rparr>" 0 _ 2 "LFun 7" 1 quiet_env]
    wf_reachable [OF reachable_timer_state env_ok_quiet]
  by (fastforce simp: timer_state_def arg_def)

text \<open>What a registered callback slot holds, as the later call finds it.\<close>

lemma callback_registered:
  assumes "wf s" "mem s a = Some (BHandle d)" "arg s (nat i) = Some f" "lua_tag f = TFUNCTION"
    and "luv_callback_check (Some a) k i E s = (Inr (), s1)"
  shows "\<exists>d'. mem s1 a = Some (BHandle d') \<and> reg_geti (reg s1) (cb_get k d') = f
    \<and> cb_get k d' \<noteq> LUA_NOREF \<and> stk s1 = stk s"
proof -
  let ?R = "reg_unref (reg s) (cb_get k d)"
  have f: "f \<noteq> LNil" using assms(4) by auto
  have c: "cb_get k d < 0 \<or> cb_get k d \<in> reg_live (reg s)"
    using callback_slot_live [OF assms(1,2)] by force
  have ok: "reg_ok ?R" by (rule reg_unref_ok [OF wfD(1) [OF assms(1)] c])
  have "s1 = s\<lparr>reg := snd (reg_ref ?R f),
      mem := (mem s)(a := Some (BHandle (cb_set k (fst (reg_ref ?R f)) d)))\<rparr>"
    using run_luv_callback_check [OF assms(2-4), of k E] assms(5) by (simp add: Let_def)
  then show ?thesis
    using luaref.alloc_get [OF ok, of f] luaref.alloc_pos [OF ok, of f] f by auto
qed

text \<open>
  C9. A registered callback is the one that is called: after \<^verbatim>\<open>luv_callback_check\<close> stored the
  function \<open>f\<close> in a slot, \<^verbatim>\<open>luv_callback_call\<close> on that slot calls \<open>f\<close> with exactly the
  pushed arguments, in order, and leaves the stack as it was below them.
\<close>

theorem registered_callback_called:
  assumes "wf s" "mem s a = Some (BHandle d)" "arg s (nat i) = Some f" "lua_tag f = TFUNCTION"
    and "luv_callback_check (Some a) k i E s = (Inr (), s1)"
    and "ucall E f args (s1\<lparr>stk := [], calls := (f, args) # calls s1\<rparr>) = (Inr rs, s2)"
  shows "luv_callback_call (Some a) k (length args) E (s1\<lparr>stk := base @ args\<rparr>) =
    (Inr (), s2\<lparr>stk := base\<rparr>)"
proof -
  obtain d' where d': "mem s1 a = Some (BHandle d')" "reg_geti (reg s1) (cb_get k d') = f"
    "cb_get k d' \<noteq> LUA_NOREF"
    using callback_registered [OF assms(1-5)] by blast
  then show ?thesis
    using run_luv_pcall_ok [of "s1\<lparr>stk := base @ args\<rparr>" base args "cb_get k d'" f E rs s2] assms(4,6)
    by (simp add: run_luv_callback_call)
qed

theorem registered_callback_called_witness:
  "\<exists>s1. luv_callback_check (Some 0) 1 2 quiet_env (timer_state\<lparr>stk := [LUData 1, LFun 7]\<rparr>) = (Inr (), s1)
    \<and> luv_callback_call (Some 0) 1 1 quiet_env (s1\<lparr>stk := [LInt 5]\<rparr>) =
      (Inr (), s1\<lparr>stk := [], calls := (LFun 7, [LInt 5]) # calls s1\<rparr>)"
proof -
  let ?s = "timer_state\<lparr>stk := [LUData 1, LFun 7]\<rparr>"
  let ?d = "\<lparr>lh_ref = 3, lh_cb0 = -2, lh_cb1 = -2\<rparr>"
  have h: "wf ?s" "mem ?s 0 = Some (BHandle ?d)" "arg ?s (nat 2) = Some (LFun 7)"
    "lua_tag (LFun 7) = TFUNCTION"
    using wf_reachable [OF reachable_timer_state env_ok_quiet]
    by (simp_all add: timer_state_def arg_def)
  obtain s1 where s1: "luv_callback_check (Some 0) 1 2 quiet_env ?s = (Inr (), s1)"
    using run_luv_callback_check [OF h(2-4), of 1 quiet_env] by (simp add: Let_def)
  show ?thesis
    using registered_callback_called [OF h s1, of "[LInt 5]" "[]"
        "s1\<lparr>stk := [], calls := (LFun 7, [LInt 5]) # calls s1\<rparr>" "[]"] s1 by simp
qed

subsection \<open>Creation and release\<close>

text \<open>
  C6. A handle gives back what it took: a handle created by any of the \<^verbatim>\<open>uv_*_init\<close>
  functions and then released by libuv's close callback leaves the registry's live
  references, their values and the C heap as they were before the creation.
\<close>

theorem new_close_balanced:
  assumes "wf s" "handle_lc ty = Some lc" "regs s (''uv_'' @ lc) = LTab t" "malloc_ok E (brk s)"
    and "0 \<le> uv_ret E ((f, args (nud s)) # uvlog s)"
  shows "\<exists>s1 s2. new_handle ty (\<lambda>u. uv f (args u)) E s = (Inr 1, s1)
    \<and> stk s1 = stk s @ [LUData (nud s)]
    \<and> luv_handle_close_cb (nud s) E s1 = (Inr (), s2)
    \<and> reg_live (reg s2) = reg_live (reg s)
    \<and> (\<forall>r \<in> reg_live (reg s). reg_geti (reg s2) r = reg_geti (reg s) r)
    \<and> mem s2 = mem s \<and> stk s2 = stk s1"
proof -
  let ?v = "LUData (nud s)"
  let ?ref = "fst (reg_ref (reg s) ?v)" and ?R = "snd (reg_ref (reg s) ?v)"
  let ?d = "\<lparr>lh_ref = ?ref, lh_cb0 = LUA_NOREF, lh_cb1 = LUA_NOREF\<rparr>"
  let ?h = "\<lparr>h_type = ty, h_data = Some (brk s), h_closing = False\<rparr>"
  define s1 where "s1 = s\<lparr>nud := Suc (nud s), stk := stk s @ [?v],
      umeta := (umeta s)(nud s := Some t), rqs := (rqs s)(nud s := None),
      hnds := (hnds s)(nud s := Some ?h), reg := ?R,
      mem := (mem s)(brk s := Some (BHandle ?d)), brk := Suc (brk s),
      uvlog := (f, args (nud s)) # uvlog s\<rparr>"
  have new: "new_handle ty (\<lambda>u. uv f (args u)) E s = (Inr 1, s1)"
    unfolding s1_def by (rule run_new_handle_ok [OF _ assms(5,2,3,4)]) (simp add: run_uv)
  have close: "luv_handle_close_cb (nud s) E s1 =
      (Inr (), s1\<lparr>reg := reg_unref ?R ?ref, mem := (mem s1)(brk s := None),
         hnds := (hnds s1)(nud s := Some (?h\<lparr>h_data := None\<rparr>))\<rparr>)"
    using run_luv_handle_close_cb_nocb [of s1 "nud s" ?h "brk s" ?d E] by (simp add: s1_def)
  have b: "luaref.alloc_all (reg s) [?v] = ([?ref], ?R)" by (simp add: split_beta)
  have m: "(mem s)(brk s := None) = mem s"
    using wfD(3) [OF assms(1), of "brk s"] by (simp add: fun_upd_idem)
  from luaref.alloc_release_balanced [OF wfD(1) [OF assms(1)] _ b] new close m show ?thesis
    by (intro exI [of _ s1] exI) (auto simp: s1_def)
qed

theorem new_close_balanced_witness:
  "\<exists>s1 s2. luv_timer_new quiet_env timer_state = (Inr 1, s1)
    \<and> luv_handle_close_cb 2 quiet_env s1 = (Inr (), s2)
    \<and> reg_live (reg s2) = reg_live (reg timer_state) \<and> mem s2 = mem timer_state"
  using new_close_balanced [of timer_state UV_TIMER "''timer''" 27 quiet_env "''uv_timer_init''"
      "\<lambda>u. [AObj u]"] wf_reachable [OF reachable_timer_state env_ok_quiet]
  by (auto simp: luv_timer_new_def timer_state_def luv_state0_timer)

subsection \<open>The close protocol\<close>

lemma run_close_fresh:
  assumes "known_handle s ''uv_handle'' u" "hnds s u = Some h" "\<not> h_closing h"
  shows "capi luv_handle_close [LUData u] E s =
    (Inr [], s\<lparr>uvlog := (''uv_close'', [AObj u, AFn ''luv_handle_close_cb'']) # uvlog s,
       hnds := (hnds s)(u := Some (h\<lparr>h_closing := True\<rparr>))\<rparr>)"
proof -
  let ?s = "s\<lparr>stk := [LUData u]\<rparr>"
  have a: "arg ?s 1 = Some (LUData u)" "arg ?s 2 = None" by (simp_all add: arg_def)
  have "luv_handle_close E ?s = (Inr 0, ?s\<lparr>uvlog := (''uv_close'', [AObj u, AFn ''luv_handle_close_cb'']) # uvlog s,
       hnds := (hnds s)(u := Some (h\<lparr>h_closing := True\<rparr>))\<rparr>)"
    using assms a
    by (simp add: luv_handle_close_def run_bindM run_thenM run_known_handle_check uv_is_closing_def
        run_get_h run_retM run_askM run_lua_isnoneornil uv_close_def run_uv_void run_put_h)
  then show ?thesis by (rule capi_ok [where base = "[LUData u]"]) (auto intro: lstate_eqI)
qed

text \<open>
  C10. A handle is closed once.  The first \<^verbatim>\<open>handle_close\<close> makes exactly one \<^verbatim>\<open>uv_close\<close> call
  and marks the handle; every later one, with or without a callback, raises the error
  "already closing", makes no libuv call and changes nothing.
\<close>

theorem close_once:
  assumes "known_handle s ''uv_handle'' u" "hnds s u = Some h" "\<not> h_closing h"
  shows "\<exists>s1. capi luv_handle_close [LUData u] E s = (Inr [], s1)
    \<and> uvlog s1 = (''uv_close'', [AObj u, AFn ''luv_handle_close_cb'']) # uvlog s
    \<and> reg s1 = reg s \<and> mem s1 = mem s
    \<and> (\<forall>xs. capi luv_handle_close (LUData u # xs) E s1 =
         (Inl (LuaErr (LStr (lwhere E @ ''handle '' @ ptr2str E (LUData u) @ '' is already closing''))), s1))"
proof -
  let ?s1 = "s\<lparr>uvlog := (''uv_close'', [AObj u, AFn ''luv_handle_close_cb'']) # uvlog s,
       hnds := (hnds s)(u := Some (h\<lparr>h_closing := True\<rparr>))\<rparr>"
  have "capi luv_handle_close (LUData u # xs) E ?s1 =
      (Inl (LuaErr (LStr (lwhere E @ ''handle '' @ ptr2str E (LUData u) @ '' is already closing''))), ?s1)" for xs
  proof -
    let ?s = "?s1\<lparr>stk := LUData u # xs\<rparr>"
    have "arg ?s 1 = Some (LUData u)" by (simp add: arg_def)
    then have "luv_handle_close E ?s =
        (Inl (LuaErr (LStr (lwhere E @ ''handle '' @ ptr2str E (LUData u) @ '' is already closing''))), ?s)"
      using assms
      by (simp add: luv_handle_close_def run_bindM run_thenM run_known_handle_check uv_is_closing_def
          run_get_h run_retM run_askM run_luaL_error)
    then show ?thesis by (rule capi_fail) (auto intro: lstate_eqI)
  qed
  with run_close_fresh [OF assms, of E] show ?thesis by (intro exI [of _ ?s1]) auto
qed

theorem close_once_witness:
  "\<exists>s1. capi luv_handle_close [LUData 1] quiet_env timer_state = (Inr [], s1)
    \<and> capi luv_handle_close [LUData 1, LFun 7] quiet_env s1 =
      (Inl (LuaErr (LStr ''handle 1000 is already closing'')), s1)"
  using close_once [OF known_timer_state, of "\<lparr>h_type = UV_TIMER, h_data = Some 0, h_closing = False\<rparr>" quiet_env]
  by (fastforce simp: timer_state_def)

lemma run_close_callback:
  assumes "known_handle s ''uv_handle'' u" "hnds s u = Some h" "\<not> h_closing h" "h_data h = Some a"
    and "luv_callback_check (Some a) LUV_CLOSED 2 E (s\<lparr>stk := [LUData u, f]\<rparr>) = (Inr (), s')"
    and "f \<noteq> LNil" "hnds s' = hnds s"
  shows "capi luv_handle_close [LUData u, f] E s =
    (Inr [], s'\<lparr>stk := stk s, uvlog := (''uv_close'', [AObj u, AFn ''luv_handle_close_cb'']) # uvlog s',
       hnds := (hnds s)(u := Some (h\<lparr>h_closing := True\<rparr>))\<rparr>)"
proof -
  let ?s = "s\<lparr>stk := [LUData u, f]\<rparr>"
  have a: "arg ?s 1 = Some (LUData u)" "arg ?s 2 = Some f" by (simp_all add: arg_def)
  have "luv_handle_close E ?s = (Inr 0, s'\<lparr>uvlog := (''uv_close'', [AObj u, AFn ''luv_handle_close_cb'']) # uvlog s',
       hnds := (hnds s)(u := Some (h\<lparr>h_closing := True\<rparr>))\<rparr>)"
    using assms a
    by (simp add: luv_handle_close_def run_bindM run_thenM run_known_handle_check uv_is_closing_def
        run_get_h run_retM run_askM run_lua_isnoneornil uv_close_def run_uv_void run_put_h)
  then show ?thesis by (rule capi_ok [where base = "stk s'"]) (auto intro: lstate_eqI)
qed

lemma callback_check_frame:
  assumes "mem s a = Some (BHandle d)" "arg s (nat i) = Some f" "lua_tag f = TFUNCTION"
    and "luv_callback_check (Some a) k i E s = (Inr (), s')"
  shows "hnds s' = hnds s" "umeta s' = umeta s" "regs s' = regs s" "tabs s' = tabs s"
    "uvlog s' = uvlog s" "calls s' = calls s" "rqs s' = rqs s" "stk s' = stk s"
  using run_luv_callback_check [OF assms(1-3), of k E] assms(4) by (auto simp: Let_def)

text \<open>
  C11. \<^verbatim>\<open>handle:close(f)\<close> runs \<open>f\<close> once, when libuv has closed the handle: the close
  callback calls \<open>f\<close> without arguments, then frees the \<^verbatim>\<open>luv_handle_t\<close> and clears
  \<^verbatim>\<open>handle->data\<close>, so that a second close callback would do nothing.
\<close>

theorem close_calls_back:
  assumes "wf s" "known_handle s ''uv_handle'' u" "hnds s u = Some h" "\<not> h_closing h"
    and "h_data h = Some a" "mem s a = Some (BHandle d)" "lua_tag f = TFUNCTION"
    and "capi luv_handle_close [LUData u, f] E s = (Inr [], s1)"
    and "ucall E f [] (s1\<lparr>stk := [], calls := (f, []) # calls s1\<rparr>) = (Inr rs, s2)"
    and "mem s2 a = mem s1 a" "hnds s2 u = hnds s1 u"
  shows "\<exists>s3. dispatch (EvClose u) E s1 = (Inr (), s3) \<and> calls s3 = calls s2
    \<and> mem s3 a = None \<and> map_option h_data (hnds s3 u) = Some None \<and> stk s3 = stk s
    \<and> dispatch (EvClose u) E s3 = (Inr (), s3)"
proof -
  let ?s = "s\<lparr>stk := [LUData u, f]\<rparr>"
  have c: "wf ?s" "mem ?s a = Some (BHandle d)" "arg ?s (nat 2) = Some f" "f \<noteq> LNil"
    using assms(1,6,7) by (auto simp: arg_def)
  obtain s' where s': "luv_callback_check (Some a) 0 2 E ?s = (Inr (), s')"
    using run_luv_callback_check [OF c(2,3) assms(7), of 0 E] by (simp add: Let_def)
  note F = callback_check_frame [OF c(2,3) assms(7) s']
  have s1: "s1 = s'\<lparr>stk := stk s, uvlog := (''uv_close'', [AObj u, AFn ''luv_handle_close_cb'']) # uvlog s',
       hnds := (hnds s)(u := Some (h\<lparr>h_closing := True\<rparr>))\<rparr>"
    using run_close_callback [OF assms(2-5) s' c(4)] F(1) assms(8) by simp
  obtain d' where d': "mem s' a = Some (BHandle d')" "reg_geti (reg s') (lh_cb0 d') = f"
    "lh_cb0 d' \<noteq> LUA_NOREF"
    using callback_registered [OF c(1,2,3) assms(7) s'] by (auto simp: cb_get_def)
  have h1: "hnds s1 u = Some (h\<lparr>h_closing := True\<rparr>)" "mem s1 a = Some (BHandle d')"
    using s1 d' by simp_all
  let ?s3 = "s2\<lparr>stk := stk s1,
       reg := reg_unref (reg_unref (reg_unref (reg s2) (lh_ref d')) (lh_cb0 d')) (lh_cb1 d'),
       mem := (mem s2)(a := None),
       hnds := (hnds s2)(u := Some (h\<lparr>h_closing := True, h_data := None\<rparr>))\<rparr>"
  have "dispatch (EvClose u) E s1 = (Inr (), ?s3)"
    using run_luv_handle_close_cb [OF h1(1) _ h1(2) d'(3) _ assms(7,9)] h1 assms(5,10,11) d'(2) s1
    by simp
  moreover have "dispatch (EvClose u) E ?s3 = (Inr (), ?s3)"
    by (simp add: luv_handle_close_cb_def run_bindM run_get_h run_retM)
  ultimately show ?thesis using s1 by auto
qed

theorem close_calls_back_witness:
  "\<exists>s1 s3. capi luv_handle_close [LUData 1, LFun 7] quiet_env timer_state = (Inr [], s1)
    \<and> dispatch (EvClose 1) quiet_env s1 = (Inr (), s3) \<and> calls s3 = [(LFun 7, [])] \<and> mem s3 0 = None"
proof -
  let ?h = "\<lparr>h_type = UV_TIMER, h_data = Some 0, h_closing = False\<rparr>"
  have t: "wf timer_state" "hnds timer_state 1 = Some ?h" "lua_tag (LFun 7) = TFUNCTION"
    "mem timer_state 0 = Some (BHandle \<lparr>lh_ref = 3, lh_cb0 = -2, lh_cb1 = -2\<rparr>)"
    using wf_reachable [OF reachable_timer_state env_ok_quiet] by (simp_all add: timer_state_def)
  let ?s = "timer_state\<lparr>stk := [LUData 1, LFun 7]\<rparr>"
  have c: "mem ?s 0 = Some (BHandle \<lparr>lh_ref = 3, lh_cb0 = -2, lh_cb1 = -2\<rparr>)" "arg ?s (nat 2) = Some (LFun 7)"
    using t by (simp_all add: arg_def)
  obtain s' where s': "luv_callback_check (Some 0) 0 2 quiet_env ?s = (Inr (), s')"
    using run_luv_callback_check [OF c t(3), of 0 quiet_env] by (simp add: Let_def)
  note F = callback_check_frame [OF c t(3) s']
  obtain s1 where s1: "capi luv_handle_close [LUData 1, LFun 7] quiet_env timer_state = (Inr [], s1)"
    "calls s1 = []"
    using run_close_callback [OF known_timer_state t(2) _ _ s'] F
    by (simp add: timer_state_def luv_state0_fields)
  show ?thesis
    using close_calls_back [OF t(1) known_timer_state t(2) _ _ t(4,3) s1(1), of "[]"
        "s1\<lparr>stk := [], calls := (LFun 7, []) # calls s1\<rparr>"] s1 by auto
qed

subsection \<open>Timers\<close>

lemma run_timer_start:
  assumes "live_handle s ''timer'' UV_TIMER u a d"
    and "luv_callback_check (Some a) LUV_EVENT 4 E (s\<lparr>stk := [LUData u, LInt timeout, LInt rep, f]\<rparr>) =
      (Inr (), s')"
    and "c = (''uv_timer_start'', [AObj u, AFn ''luv_timer_cb'', AInt (c_uint64 timeout), AInt (c_uint64 rep)])"
    and "uvlog s' = uvlog s" "0 \<le> uv_ret E (c # uvlog s)"
  shows "capi luv_timer_start [LUData u, LInt timeout, LInt rep, f] E s =
    (Inr [LInt (c_int64 (uv_ret E (c # uvlog s)))], s'\<lparr>stk := stk s, uvlog := c # uvlog s\<rparr>)"
proof -
  let ?s = "s\<lparr>stk := [LUData u, LInt timeout, LInt rep, f]\<rparr>"
  have a: "arg ?s 1 = Some (LUData u)" "arg ?s 2 = Some (LInt timeout)" "arg ?s 3 = Some (LInt rep)"
    by (simp_all add: arg_def)
  have l: "live_handle ?s ''timer'' UV_TIMER u a d" using assms(1) by simp
  have ck: "luv_timer_check 1 E ?s = (Inr u, ?s)"
    using run_check_live(1) [OF l a(1), of "''Expected uv_timer_t''" E] by (simp add: luv_timer_check_def)
  have "luv_timer_start E ?s = (Inr 1, s'\<lparr>uvlog := c # uvlog s,
      stk := stk s' @ [LInt (c_int64 (uv_ret E (c # uvlog s)))]\<rparr>)"
    using assms(2-5) a
    by (simp add: luv_timer_start_def run_bindM run_thenM ck run_checkinteger_int
        run_check_live(2) [OF l a(1)] run_uv run_ret_integer)
  then show ?thesis by (rule capi_ok [where base = "stk s'"]) (auto intro: lstate_eqI)
qed

text \<open>
  A timer started with a function fires that function.  \<^verbatim>\<open>timer_start\<close> on a live timer
  hands libuv the delays as unsigned 64-bit numbers and returns its answer; when libuv then
  reports the timeout, exactly the given function is called, with no arguments.
\<close>

lemma timer_start_fires:
  assumes "wf s" "live_handle s ''timer'' UV_TIMER u a d" "lua_tag f = TFUNCTION"
    and "c = (''uv_timer_start'', [AObj u, AFn ''luv_timer_cb'', AInt (c_uint64 timeout), AInt (c_uint64 rep)])"
    and "0 \<le> uv_ret E (c # uvlog s)"
  shows "\<exists>s1. capi luv_timer_start [LUData u, LInt timeout, LInt rep, f] E s =
      (Inr [LInt (c_int64 (uv_ret E (c # uvlog s)))], s1) \<and> uvlog s1 = c # uvlog s
    \<and> (\<forall>rs s2. ucall E f [] (s1\<lparr>stk := [], calls := (f, []) # calls s1\<rparr>) = (Inr rs, s2) \<longrightarrow>
         dispatch (EvTimer u) E s1 = (Inr (), s2\<lparr>stk := stk s\<rparr>))"
proof -
  let ?s = "s\<lparr>stk := [LUData u, LInt timeout, LInt rep, f]\<rparr>"
  have m: "mem ?s a = Some (BHandle d)" using assms(2) by (simp add: live_handle_def)
  have c: "wf ?s" "arg ?s (nat 4) = Some f" using assms(1) by (simp_all add: arg_def)
  obtain s' where s': "luv_callback_check (Some a) 1 4 E ?s = (Inr (), s')"
    using run_luv_callback_check [OF m c(2) assms(3), of 1 E] by (simp add: Let_def)
  note F = callback_check_frame [OF m c(2) assms(3) s']
  let ?s1 = "s'\<lparr>stk := stk s, uvlog := c # uvlog s\<rparr>"
  have st: "capi luv_timer_start [LUData u, LInt timeout, LInt rep, f] E s =
      (Inr [LInt (c_int64 (uv_ret E (c # uvlog s)))], ?s1)"
    using run_timer_start [OF assms(2) s' assms(4) _ assms(5)] F by simp
  obtain d' where d': "mem s' a = Some (BHandle d')" "reg_geti (reg s') (lh_cb1 d') = f"
    "lh_cb1 d' \<noteq> LUA_NOREF"
    using callback_registered [OF c(1) m c(2) assms(3) s'] by (auto simp: cb_get_def)
  have "handle_data u E ?s1 = (Inr (Some a), ?s1)"
    using assms(2) F by (elim live_handleD) (simp add: run_handle_data)
  then have "dispatch (EvTimer u) E ?s1 = luv_pcall (lh_cb1 d') 0 E ?s1"
    using d' by (simp add: luv_timer_cb_def run_bindM run_luv_callback_call cb_get_def)
  then have "dispatch (EvTimer u) E ?s1 = (Inr (), s2\<lparr>stk := stk s\<rparr>)"
    if "ucall E f [] (?s1\<lparr>stk := [], calls := (f, []) # calls ?s1\<rparr>) = (Inr rs, s2)" for rs s2
    using run_luv_pcall_ok [of ?s1 "stk s" "[]" "lh_cb1 d'" f E rs s2] that d' assms(3) by simp
  with st show ?thesis by (intro exI [of _ ?s1]) auto
qed

subsection \<open>Closed handles\<close>

text \<open>
  The type-specific functions refuse a closed handle: once the close callback has
  cleared \<^verbatim>\<open>handle->data\<close>, every \<^verbatim>\<open>luv_<type>_check\<close> raises its argument error, for any type,
  and changes nothing; in particular \<^verbatim>\<open>timer_start\<close> makes no libuv call.
\<close>

lemma closed_handle_refused:
  assumes "umeta s u = Some m" "regs s tname = LTab m" "hnds s u = Some h" "h_data h = None"
    and "stk s = LUData u # rest"
  shows "check_handle tname ty msg 1 E s = (Inl (LuaErr (LStr (arg_msg E 1 msg))), s)"
  using assms
  by (simp add: check_handle_def run_bindM run_thenM run_luaL_checkudata [where m = m] arg_def
      run_get_h run_luaL_argcheck)

lemma closed_handle_refused_witness:
  "luv_timer_start quiet_env (timer_state\<lparr>hnds := [1 \<mapsto> \<lparr>h_type = UV_TIMER, h_data = None, h_closing = True\<rparr>],
      stk := [LUData 1, LInt 1, LInt 0, LFun 7]\<rparr>) =
    (Inl (LuaErr (LStr ''bad argument (Expected uv_timer_t)'')),
     timer_state\<lparr>hnds := [1 \<mapsto> \<lparr>h_type = UV_TIMER, h_data = None, h_closing = True\<rparr>],
      stk := [LUData 1, LInt 1, LInt 0, LFun 7]\<rparr>)"
  unfolding luv_timer_start_def luv_timer_check_def run_bindM
  by (subst closed_handle_refused [where u = 1 and m = 27
      and h = "\<lparr>h_type = UV_TIMER, h_data = None, h_closing = True\<rparr>"])
    (simp_all add: timer_state_def luv_state0_timer)

text \<open>
  C12. The stream functions do not: \<^verbatim>\<open>luv_stream_check\<close> looks at the metatable only, so
  \<^verbatim>\<open>read_start\<close> and \<^verbatim>\<open>listen\<close> on a closed stream go on and dereference the NULL
  \<^verbatim>\<open>handle->data\<close>.
\<close>

theorem closed_stream_crashes:
  assumes "known_handle s ''uv_stream'' u" "hnds s u = Some h" "h_data h = None" "lua_tag f = TFUNCTION"
  shows "capi luv_stream_read_start [LUData u, f] E s = (Inl (Crash Null_deref), s)
    \<and> capi luv_stream_listen [LUData u, LInt backlog, f] E s = (Inl (Crash Null_deref), s)"
proof
  have k: "known_handle (s\<lparr>stk := x\<rparr>) ''uv_stream'' u" for x using assms(1) by simp
  let ?s = "s\<lparr>stk := [LUData u, f]\<rparr>"
  have "arg ?s 1 = Some (LUData u)" "arg ?s 2 = Some f" by (simp_all add: arg_def)
  then have "luv_stream_read_start E ?s = (Inl (Crash Null_deref), ?s)"
    using assms(2-4)
    by (simp add: luv_stream_read_start_def run_bindM run_thenM run_known_stream_check [OF k]
        run_handle_data luv_callback_check_null)
  then show "capi luv_stream_read_start [LUData u, f] E s = (Inl (Crash Null_deref), s)"
    by (rule capi_fail) simp
  let ?s = "s\<lparr>stk := [LUData u, LInt backlog, f]\<rparr>"
  have "arg ?s 1 = Some (LUData u)" "arg ?s 2 = Some (LInt backlog)" "arg ?s 3 = Some f"
    by (simp_all add: arg_def)
  then have "luv_stream_listen E ?s = (Inl (Crash Null_deref), ?s)"
    using assms(2-4)
    by (simp add: luv_stream_listen_def run_bindM run_thenM run_known_stream_check [OF k]
        run_check_c_int run_handle_data luv_callback_check_null)
  then show "capi luv_stream_listen [LUData u, LInt backlog, f] E s = (Inl (Crash Null_deref), s)"
    by (rule capi_fail) simp
qed

text \<open>A TCP handle after its close callback.\<close>

definition closed_tcp_state :: lstate where
  "closed_tcp_state = luv_state0\<lparr>nud := 2, umeta := [1 \<mapsto> 25],
     hnds := [1 \<mapsto> \<lparr>h_type = UV_TCP, h_data = None, h_closing = True\<rparr>]\<rparr>"

lemma known_closed_tcp: "known_handle closed_tcp_state ''uv_stream'' 1"
proof -
  have "in_set luv_state0 ''uv_stream'' 25" by (simp add: luv_state0_sets(2))
  then show ?thesis
    by (auto simp: known_handle_def is_meta_def in_set_def closed_tcp_state_def split: lval.splits)
qed

theorem closed_stream_crashes_witness:
  "capi luv_stream_read_start [LUData 1, LFun 7] quiet_env closed_tcp_state =
    (Inl (Crash Null_deref), closed_tcp_state)"
  using closed_stream_crashes [OF known_closed_tcp, of _ "LFun 7" quiet_env 128]
  by (simp add: closed_tcp_state_def)

end
