(* ===== verification/Luv_Request_Life.thy ===== *)
theory Luv_Request_Life
  imports Luv_Scenario
begin

text \<open>
  The life of a request, from the call that starts it to the completion callback that
  releases it, and the paths of \<^verbatim>\<open>luv_req.c\<close> and \<^verbatim>\<open>luv_stream.c\<close> on which it is not released.
\<close>

subsection \<open>Completion\<close>

lemma run_status_cb:
  assumes "rqs s u = Some r" "r_data r = Some a" "mem s a = Some (BReq q)" "lr_data q = None"
    and "lr_cb_ref q \<noteq> LUA_NOREF" "reg_geti (reg s) (lr_cb_ref q) = f" "lua_tag f = TFUNCTION"
    and "v = (if st < 0 then LStr (cstr (uv_err_name E st)) else LNil)"
    and "ucall E f [v] (s\<lparr>stk := [], calls := (f, [v]) # calls s\<rparr>) = (Inr rs, s2)"
    and "mem s2 a = mem s a" "rqs s2 u = rqs s u"
  shows "status_cb u st E s = (Inr (), s2\<lparr>stk := stk s,
     reg := reg_unref (reg_unref (reg_unref (reg s2) (lr_req_ref q)) (lr_cb_ref q)) (lr_data_ref q),
     mem := (mem s2)(a := None), rqs := (rqs s2)(u := Some (r\<lparr>r_data := None\<rparr>))\<rparr>)"
proof -
  let ?s = "s\<lparr>stk := stk s @ [v]\<rparr>"
  have 1: "luv_status st E s = (Inr (), ?s)" using assms(8) by (simp add: run_luv_status)
  have 2: "luv_pcall (lr_cb_ref q) 1 E ?s = (Inr (), s2\<lparr>stk := stk s\<rparr>)"
    using run_luv_pcall_ok [of ?s "stk s" "[v]" "lr_cb_ref q" f E rs s2] assms by simp
  show ?thesis
    using assms 2
    by (simp add: status_cb_def run_thenM run_bindM 1 run_get_r run_luv_req_fulfill
        run_luv_req_cleanup r_data_null_def run_put_r)
qed

lemma run_status_cb_nocb:
  assumes "rqs s u = Some r" "r_data r = Some a" "mem s a = Some (BReq q)" "lr_data q = None"
    and "lr_cb_ref q = LUA_NOREF"
  shows "status_cb u st E s = (Inr (), s\<lparr>
     reg := reg_unref (reg_unref (reg s) (lr_req_ref q)) (lr_data_ref q),
     mem := (mem s)(a := None), rqs := (rqs s)(u := Some (r\<lparr>r_data := None\<rparr>))\<rparr>)"
proof -
  let ?v = "if st < 0 then LStr (cstr (uv_err_name E st)) else LNil"
  have "luv_pcall LUA_NOREF 1 E (s\<lparr>stk := stk s @ [?v]\<rparr>) = (Inr (), s)"
    using run_luv_pcall_noref [of "s\<lparr>stk := stk s @ [?v]\<rparr>" "stk s" "[?v]" E] by simp
  then show ?thesis
    using assms
    by (simp add: status_cb_def run_thenM run_bindM run_luv_status run_get_r run_luv_req_fulfill
        run_luv_req_cleanup r_data_null_def run_put_r)
qed

subsection \<open>A request from start to end\<close>

definition req_block :: "int \<Rightarrow> int \<Rightarrow> block" where
  "req_block ref cb = BReq \<lparr>lr_req_ref = ref, lr_cb_ref = cb, lr_data_ref = LUA_NOREF, lr_data = None\<rparr>"

text \<open>The state in which a request with the continuation \<open>f\<close> has been set up.\<close>

definition req_made :: "lstate \<Rightarrow> lval \<Rightarrow> nat \<Rightarrow> lstate" where
  "req_made s f t = (let (cb, R1) = reg_ref (reg s) f; (ref, R2) = reg_ref R1 (LUData (nud s)) in
     s\<lparr>nud := Suc (nud s), stk := stk s @ [LUData (nud s)],
       umeta := (umeta s)(nud s := Some t), hnds := (hnds s)(nud s := None),
       rqs := (rqs s)(nud s := Some (fresh_req\<lparr>r_data := Some (brk s)\<rparr>)), reg := R2,
       mem := (mem s)(brk s := Some (req_block ref cb)), brk := Suc (brk s)\<rparr>)"

lemma req_made_fields:
  "stk (req_made s f t) = stk s @ [LUData (nud s)]" "uvlog (req_made s f t) = uvlog s"
  "rqs (req_made s f t) = (rqs s)(nud s := Some (fresh_req\<lparr>r_data := Some (brk s)\<rparr>))"
  "calls (req_made s f t) = calls s" "brk (req_made s f t) = Suc (brk s)"
  "nud (req_made s f t) = Suc (nud s)" "reg (req_made s f t) =
    snd (reg_ref (snd (reg_ref (reg s) f)) (LUData (nud s)))"
  "mem (req_made s f t) = (mem s)(brk s := Some (req_block
     (fst (reg_ref (snd (reg_ref (reg s) f)) (LUData (nud s)))) (fst (reg_ref (reg s) f))))"
  by (simp_all add: req_made_def split_beta Let_def)

lemma req_made_stk: "(req_made (s\<lparr>stk := x\<rparr>) f t)\<lparr>stk := y\<rparr> = (req_made s f t)\<lparr>stk := y\<rparr>"
  by (simp add: req_made_def split_beta Let_def)

lemma run_make_req:
  assumes "0 < i" "arg s (nat i) = Some f" "lua_tag f = TFUNCTION" "malloc_ok E (brk s)"
    and "regs s ''uv_req'' = LTab t"
  shows "bindM (luv_req_check_continuation i) (\<lambda>ref. bindM (new_req ref) k) E s =
    k (nud s) E (req_made s f t)"
proof -
  have f: "f \<noteq> LNil" using assms(3) by auto
  show ?thesis
    using assms f
    by (simp add: run_bindM run_check_continuation run_new_req req_made_def Let_def split_beta
        req_block_def)
qed

text \<open>The state after the libuv call has accepted the request.\<close>

definition req_started :: "lstate \<Rightarrow> lval \<Rightarrow> nat \<Rightarrow> uv_req_type \<Rightarrow> uvcall \<Rightarrow> lstate" where
  "req_started s f t ty c = (req_made s f t)\<lparr>stk := stk s, uvlog := c # uvlog s,
     rqs := (rqs s)(nud s := Some (fresh_req\<lparr>r_data := Some (brk s), r_type := ty\<rparr>))\<rparr>"

lemma run_uv_req_call:
  assumes "rqs s q = Some r" "0 \<le> uv_ret E ((f, args) # uvlog s)"
  shows "uv_req_call q ty f args E s = (Inr (uv_ret E ((f, args) # uvlog s)),
    s\<lparr>uvlog := (f, args) # uvlog s, rqs := (rqs s)(q := Some (r\<lparr>r_type := ty\<rparr>))\<rparr>)"
  using assms
  by (simp add: uv_req_call_def run_bindM run_thenM run_uv set_req_type_def run_get_r run_put_r
      run_retM)

lemma run_stream_shutdown:
  assumes "known_handle s ''uv_stream'' u" "lua_tag f = TFUNCTION" "malloc_ok E (brk s)"
    and "regs s ''uv_req'' = LTab t"
    and "c = (''uv_shutdown'', [AObj (nud s), AObj u, AFn ''luv_stream_shutdown_cb''])"
    and "0 \<le> uv_ret E (c # uvlog s)"
  shows "capi luv_stream_shutdown [LUData u, f] E s =
    (Inr [LUData (nud s)], req_started s f t UV_SHUTDOWN c)"
proof -
  let ?s = "s\<lparr>stk := [LUData u, f]\<rparr>"
  let ?m = "req_made ?s f t"
  let ?k = "\<lambda>req. bindM (uv_req_call req UV_SHUTDOWN ''uv_shutdown''
      [AObj req, AObj u, AFn ''luv_stream_shutdown_cb'']) (\<lambda>ret. req_result ret (retM 1))"
  have a: "arg ?s (nat 1) = Some (LUData u)" "arg ?s (nat 2) = Some f" by (simp_all add: arg_def)
  have k: "known_handle ?s ''uv_stream'' u" using assms(1) by simp
  have "luv_stream_shutdown E ?s = bindM (luv_req_check_continuation 2)
      (\<lambda>ref. bindM (new_req ref) ?k) E ?s"
    unfolding luv_stream_shutdown_def
    by (rule bind_step, rule run_known_stream_check [OF k _ a(1)]) simp
  also have "... = ?k (nud s) E ?m"
    using run_make_req [OF _ a(2) assms(2), of E t ?k] assms(3,4) by simp
  also have "... = (Inr 1, ?m\<lparr>uvlog := c # uvlog s,
      rqs := (rqs ?m)(nud s := Some (fresh_req\<lparr>r_data := Some (brk s), r_type := UV_SHUTDOWN\<rparr>))\<rparr>)"
    using assms(5,6) by (simp add: run_bindM run_uv_req_call req_made_fields req_result_def run_retM)
  finally show ?thesis
    by (rule capi_ok [where base = "[LUData u, f]"])
      (auto intro!: lstate_eqI simp: req_made_fields req_started_def req_made_def split_beta Let_def)
qed

lemma req_started_fields:
  "stk (req_started s f t ty c) = stk s" "uvlog (req_started s f t ty c) = c # uvlog s"
  "rqs (req_started s f t ty c) = (rqs s)(nud s := Some (fresh_req\<lparr>r_data := Some (brk s), r_type := ty\<rparr>))"
  "calls (req_started s f t ty c) = calls s" "reg (req_started s f t ty c) = reg (req_made s f t)"
  "mem (req_started s f t ty c) = mem (req_made s f t)"
  by (simp_all add: req_started_def req_made_fields)

text \<open>The two references a request with a continuation takes, and what giving them back does.\<close>

lemma two_refs:
  assumes "reg_ok R" "f \<noteq> LNil" "v \<noteq> LNil"
    and "reg_ref R f = (r1, R1)" "reg_ref R1 v = (r2, R2)"
  shows "0 < r1" "0 < r2" "r1 \<noteq> r2" "r1 \<notin> reg_live R" "r2 \<notin> reg_live R"
    "reg_geti R2 r1 = f" "reg_geti R2 r2 = v" "reg_live R2 = {r1, r2} \<union> reg_live R" "reg_ok R2"
    "reg_live (reg_unref (reg_unref R2 r2) r1) = reg_live R"
    "\<forall>r \<in> reg_live R. reg_geti (reg_unref (reg_unref R2 r2) r1) r = reg_geti R r"
proof -
  have b: "luaref.alloc_all R [f, v] = ([r1, r2], R2)" using assms(4,5) by simp
  have st: "\<forall>x \<in> set [f, v]. x \<noteq> LNil" using assms(2,3) by simp
  from luaref.alloc_all_props [OF assms(1) st b] show "r1 \<noteq> r2" "r1 \<notin> reg_live R" "r2 \<notin> reg_live R"
    "reg_geti R2 r1 = f" "reg_geti R2 r2 = v" "reg_live R2 = {r1, r2} \<union> reg_live R" "reg_ok R2"
    by auto
  then show "0 < r1" "0 < r2" using reg_live_pos [of _ R2] by auto
  from luaref.alloc_release_any_order [OF assms(1) st b, of "[r2, r1]"] \<open>r1 \<noteq> r2\<close>
  show "reg_live (reg_unref (reg_unref R2 r2) r1) = reg_live R"
    "\<forall>r \<in> reg_live R. reg_geti (reg_unref (reg_unref R2 r2) r1) r = reg_geti R r"
    by (auto simp: insert_commute)
qed


text \<open>An open TCP handle, in a state the initialisation and \<^verbatim>\<open>uv.tcp_new()\<close> reach.\<close>

definition tcp_state :: lstate where
  "tcp_state = luv_state0\<lparr>nud := 2, umeta := [1 \<mapsto> 25],
     hnds := [1 \<mapsto> \<lparr>h_type = UV_TCP, h_data = Some 0, h_closing = False\<rparr>],
     reg := [LNil, LThread, LTab 0, LUData 1],
     mem := [0 \<mapsto> BHandle \<lparr>lh_ref = 3, lh_cb0 = -2, lh_cb1 = -2\<rparr>], brk := 1\<rparr>"

lemma luv_state0_tables: "regs luv_state0 ''uv_tcp'' = LTab 25" "regs luv_state0 ''uv_req'' = LTab 1"
proof -
  show "regs luv_state0 ''uv_tcp'' = LTab 25"
    using luv_state0_regs [of 11] by (simp add: type_positions type_methods_def)
  show "regs luv_state0 ''uv_req'' = LTab 1"
    by (simp add: luv_state0_def init_regs_def types_regs_other type_methods_def)
qed

lemma tcp_state_ok:
  "known_handle tcp_state ''uv_stream'' 1" "known_handle tcp_state ''uv_handle'' 1"
  "live_handle tcp_state ''tcp'' UV_TCP 1 0 \<lparr>lh_ref = 3, lh_cb0 = -2, lh_cb1 = -2\<rparr>"
  "regs tcp_state ''uv_req'' = LTab 1"
proof -
  have "in_set luv_state0 ''uv_stream'' 25" by (simp add: luv_state0_sets(2))
  then show "known_handle tcp_state ''uv_stream'' 1"
    by (auto simp: known_handle_def is_meta_def in_set_def tcp_state_def split: lval.splits)
  have "in_set luv_state0 ''uv_handle'' 25" by (auto simp: luv_state0_sets(1) intro: exI [of _ 11])
  then show "known_handle tcp_state ''uv_handle'' 1"
    by (auto simp: known_handle_def is_meta_def in_set_def tcp_state_def split: lval.splits)
  show "live_handle tcp_state ''tcp'' UV_TCP 1 0 \<lparr>lh_ref = 3, lh_cb0 = -2, lh_cb1 = -2\<rparr>"
    "regs tcp_state ''uv_req'' = LTab 1"
    by (simp_all add: live_handle_def tcp_state_def luv_state0_tables)
qed

lemma reachable_tcp_state:
  "reachable quiet_env (tcp_state\<lparr>uvlog := (''uv_tcp_init'', [AObj 1]) # uvlog luv_state0\<rparr>)"
proof (rule reachable.step [OF reachable_luv_state0])
  let ?t = "tcp_state\<lparr>uvlog := (''uv_tcp_init'', [AObj 1]) # uvlog luv_state0\<rparr>"
  have "luv_tcp_new quiet_env (luv_state0\<lparr>stk := []\<rparr>) = (Inr 1, ?t\<lparr>stk := [LUData 1]\<rparr>)"
    unfolding luv_state0_stk using run_new_handle_ok [of luv_state0 "\<lambda>u. uv ''uv_tcp_init'' [AObj u]" quiet_env 0
        "(''uv_tcp_init'', [AObj 1])" UV_TCP "''tcp''" 25]
    by (auto simp: luv_tcp_new_def run_uv luv_state0_fields luv_state0_tables tcp_state_def
        reg_init_def reg_ref_def reg_geti_def link_of_def reg_seti_def reg_rawlen_def
        intro!: lstate_eqI)
  then have "capi luv_tcp_new [] quiet_env luv_state0 = (Inr [LUData 1], ?t)"
    by (rule capi_ok [where base = "[]"])
      (auto intro!: lstate_eqI simp: luv_state0_fields tcp_state_def)
  moreover have "(''tcp_new'', ''luv_tcp_new'', luv_tcp_new) \<in> set luv_functions"
    by (simp add: luv_functions_def functions_tcp_def)
  ultimately show "luv_step quiet_env luv_state0 ?t" by (intro luv_step.call) auto
qed

lemma wf_tcp_state: "wf tcp_state"
  using wf_reachable [OF reachable_tcp_state env_ok_quiet] by simp


subsection \<open>Data being written\<close>

lemma run_checklstring_arg:
  "0 < i \<Longrightarrow> arg s (nat i) = Some (LStr b) \<Longrightarrow> luaL_checklstring i E s = (Inr b, s)"
  by (simp add: luaL_checklstring_def lua_tostring_def run_bindM run_index2addr_arg run_retM)

lemma run_with_data_string:
  assumes "arg s 2 = Some (LStr b)"
  shows "with_data g E s = g [b] E s"
  using assms
  by (simp add: with_data_def lua_istable_def lua_isstring_def lua_type_def run_bindM
      run_index2addr_arg run_retM run_checklstring_arg)

lemma run_set_data_ref:
  assumes "0 < i" "arg s (nat i) = Some v" "rqs s q = Some r" "r_data r = Some a" "mem s a = Some (BReq d)"
  shows "set_data_ref q i E s = (Inr (), s\<lparr>reg := snd (reg_ref (reg s) v),
      mem := (mem s)(a := Some (BReq (d\<lparr>lr_data_ref := fst (reg_ref (reg s) v)\<rparr>)))\<rparr>)"
  using assms
  by (simp add: set_data_ref_def run_bindM run_thenM run_lua_pushvalue_arg run_luaL_ref run_get_r
      run_get_lr run_put_lr)



subsection \<open>Requests that are not released\<close>


text \<open>The quiet environment with every libuv call failing.\<close>

definition failing_env :: env where
  "failing_env = quiet_env\<lparr>uv_ret := (\<lambda>_. -4)\<rparr>"

lemma failing_simps [simp]:
  "uv_ret failing_env l = -4" "malloc_ok failing_env a" "frames failing_env s = []"
  "uv_err_name failing_env e = ''EIO''" "uv_strerror failing_env e = ''i/o error''"
  by (simp_all add: failing_env_def)

lemma error_triple_failing:
  "error_triple failing_env e = [LNil, LStr ''[luv_error]EIO: i/o error'', LStr ''EIO'']"
  "report_fits failing_env e"
proof -
  have c: "cstr ''EIO'' = ''EIO''" "cstr ''i/o error'' = ''i/o error''" by code_simp+
  then show "error_triple failing_env e = [LNil, LStr ''[luv_error]EIO: i/o error'', LStr ''EIO'']"
    by (simp add: error_triple_def)
  have "length (LUV_STACKDUMP_STR @ ''EIO'' @ '':'' @ ''i/o error'' @ nl) < 1024" by code_simp
  with c show "report_fits failing_env e"
    by (simp only: report_fits_def error_report_def failing_simps)
qed


lemma run_out_addrinfo: "\<exists>l. out_addrinfo E s = (Inr l, s)"
  unfolding out_addrinfo_def Let_def by blast

lemma run_luv_req_cancel:
  assumes "umeta s q = Some m" "regs s ''uv_req'' = LTab m" "rqs s q = Some r" "r_data r = Some a"
    and "mem s a = Some (BReq d)" "lr_data d = None" "c = (''uv_cancel'', [AObj q])"
    and "0 \<le> uv_ret E (c # uvlog s)"
  shows "capi luv_req_cancel [LUData q] E s = (Inr [LInt (c_int64 (uv_ret E (c # uvlog s)))],
    s\<lparr>uvlog := c # uvlog s,
      reg := reg_unref (reg_unref (reg_unref (reg s) (lr_req_ref d)) (lr_cb_ref d)) (lr_data_ref d),
      mem := (mem s)(a := None), rqs := (rqs s)(q := Some (r\<lparr>r_data := None\<rparr>))\<rparr>)"
proof -
  let ?s = "s\<lparr>stk := [LUData q]\<rparr>"
  have "arg ?s (nat 1) = Some (LUData q)" by (simp add: arg_def)
  then have ck: "luv_req_check 1 E ?s = (Inr q, ?s)"
    using assms by (simp add: luv_req_check_def run_bindM run_thenM run_luaL_checkudata [where m = m]
        run_get_r run_luaL_argcheck run_retM)
  have "luv_req_cancel E ?s = (Inr 1, ?s\<lparr>uvlog := c # uvlog s,
      reg := reg_unref (reg_unref (reg_unref (reg s) (lr_req_ref d)) (lr_cb_ref d)) (lr_data_ref d),
      mem := (mem s)(a := None), rqs := (rqs s)(q := Some (r\<lparr>r_data := None\<rparr>)),
      stk := [LUData q, LInt (c_int64 (uv_ret E (c # uvlog s)))]\<rparr>)"
    using assms unfolding luv_req_cancel_def
    by (subst bind_step [where m = "luv_req_check 1", OF ck])
      (simp add: run_bindM run_thenM run_uv run_get_r run_luv_req_cleanup r_data_null_def run_put_r
        run_push run_retM)
  then show ?thesis by (rule capi_ok [where base = "[LUData q]"]) (auto intro: lstate_eqI)
qed

text \<open>
  C15. A cancelled request crashes on completion.  \<^verbatim>\<open>req_cancel\<close> releases the \<^verbatim>\<open>luv_req_t\<close> and
  clears \<^verbatim>\<open>req->data\<close> as soon as \<^verbatim>\<open>uv_cancel\<close> succeeds, yet libuv still reports the
  cancelled request to its completion callback (with \<^verbatim>\<open>ECANCELED\<close>), which dereferences the
  NULL pointer.
\<close>

theorem cancelled_request_crashes:
  assumes "umeta s q = Some m" "regs s ''uv_req'' = LTab m" "rqs s q = Some r" "r_data r = Some a"
    and "mem s a = Some (BReq d)" "lr_data d = None"
    and "0 \<le> uv_ret E ((''uv_cancel'', [AObj q]) # uvlog s)" "status < 0"
  shows "\<exists>s1. capi luv_req_cancel [LUData q] E s =
      (Inr [LInt (c_int64 (uv_ret E ((''uv_cancel'', [AObj q]) # uvlog s)))], s1)
    \<and> fst (dispatch (EvGetaddrinfo q status) E s1) = Inl (Crash Null_deref)
    \<and> fst (dispatch (EvGetnameinfo q status) E s1) = Inl (Crash Null_deref)"
proof -
  let ?s1 = "snd (capi luv_req_cancel [LUData q] E s)"
  note C = run_luv_req_cancel [OF assms(1-6) refl assms(7)]
  have r: "rqs ?s1 q = Some (r\<lparr>r_data := None\<rparr>)" using C by simp
  obtain l where l: "out_addrinfo E ?s1 = (Inr l, ?s1)" using run_out_addrinfo by blast
  have n: "luv_req_fulfill None k E t = (Inl (Crash Null_deref), t)" for k t
    by (simp add: luv_req_fulfill_def run_bindM run_get_lr)
  have "fst (dispatch (EvGetaddrinfo q status) E ?s1) = Inl (Crash Null_deref)"
    using r l assms(8)
    by (simp add: luv_getaddrinfo_cb_def run_bindM run_thenM run_luv_status run_retM run_get_r n)
  moreover have "fst (dispatch (EvGetnameinfo q status) E ?s1) = Inl (Crash Null_deref)"
    using r assms(8)
    by (simp add: luv_getnameinfo_cb_def run_bindM run_thenM run_luv_status run_retM run_get_r n
        run_uv_outs)
  ultimately show ?thesis using C by (intro exI [of _ ?s1]) simp
qed

text \<open>A state with one pending \<^verbatim>\<open>getaddrinfo\<close> request.\<close>

definition resolving_state :: lstate where
  "resolving_state = luv_state0\<lparr>nud := 2, umeta := [1 \<mapsto> 1],
     rqs := [1 \<mapsto> fresh_req\<lparr>r_type := UV_GETADDRINFO, r_data := Some 0\<rparr>],
     reg := [LNil, LThread, LTab 0, LFun 7, LUData 1],
     mem := [0 \<mapsto> req_block 4 3], brk := 1\<rparr>"

theorem cancelled_request_crashes_witness:
  "\<exists>s1. capi luv_req_cancel [LUData 1] quiet_env resolving_state = (Inr [LInt 0], s1)
    \<and> fst (dispatch (EvGetaddrinfo 1 (-125)) quiet_env s1) = Inl (Crash Null_deref)"
  using cancelled_request_crashes [of resolving_state 1 1 "fresh_req\<lparr>r_type := UV_GETADDRINFO, r_data := Some 0\<rparr>"
      0 "\<lparr>lr_req_ref = 4, lr_cb_ref = 3, lr_data_ref = LUA_NOREF, lr_data = None\<rparr>" quiet_env "-125"]
  by (auto simp: resolving_state_def luv_state0_tables req_block_def wrap_s_def)

end
