(* ===== verification/Luv_Fs_Life.thy ===== *)
theory Luv_Fs_Life
  imports Luv_Request_Life
begin

text \<open>
  The life of a file-system request of \<^verbatim>\<open>luv_fs.c\<close>: what a synchronous call returns, what the
  callback of an asynchronous one gets, what is released when, and the directory scan that
  is not.
\<close>

subsection \<open>What a request reports\<close>

text \<open>The operations whose result is a flag, a number or a text in the request itself.\<close>

definition fs_plain :: "uv_fs_type \<Rightarrow> bool" where
  "fs_plain ty \<longleftrightarrow> ty \<in> set fs_done_types
     \<or> ty \<in> {UV_FS_OPEN, UV_FS_SENDFILE, UV_FS_WRITE, UV_FS_MKDTEMP, UV_FS_READLINK, UV_FS_ACCESS}"

definition opt_str :: "string option \<Rightarrow> lval" where
  "opt_str t = (case t of None \<Rightarrow> LNil | Some t \<Rightarrow> LStr (cstr t))"

definition fs_value :: "uv_req \<Rightarrow> lval" where
  "fs_value r = (if r_fs_type r = UV_FS_ACCESS then LBool (0 \<le> r_result r)
     else if r_fs_type r = UV_FS_MKDTEMP then opt_str (r_path r)
     else if r_fs_type r = UV_FS_READLINK then opt_str (r_ptr r)
     else if r_fs_type r \<in> set fs_done_types then LBool True
     else LInt (c_int64 (r_result r)))"

definition fs_text :: "env \<Rightarrow> uv_req \<Rightarrow> string" where
  "fs_text E r = cstr (uv_err_name E (r_result r)) @ '': '' @ cstr (uv_strerror E (r_result r))
     @ (case r_path r of None \<Rightarrow> [] | Some p \<Rightarrow> '': '' @ cstr p)"

definition fs_failed :: "uv_req \<Rightarrow> bool" where
  "fs_failed r \<longleftrightarrow> r_fs_type r \<noteq> UV_FS_ACCESS \<and> r_result r < 0"

definition fs_results :: "env \<Rightarrow> uv_req \<Rightarrow> lval list" where
  "fs_results E r = (if fs_failed r then [LNil, LStr (fs_text E r)] else [fs_value r])"

lemma run_fs_message: "fs_message r E s = (Inr (), s\<lparr>stk := stk s @ [LStr (fs_text E r)]\<rparr>)"
  by (simp add: fs_message_def luasem fs_text_def split: option.splits)

lemma run_push_fs_result:
  assumes "rqs s u = Some r" "fs_plain (r_fs_type r)"
  shows "push_fs_result u E s = (Inr (length (fs_results E r)), s\<lparr>stk := stk s @ fs_results E r\<rparr>)"
proof (cases "fs_failed r")
    case True
    with assms(1) show ?thesis
      by (simp add: push_fs_result_def run_bindM run_thenM run_get_r run_push run_retM run_fs_message
          fs_results_def fs_failed_def)
  next
    case False
    then show ?thesis
      using assms
      by (cases "r_fs_type r")
        (simp_all add: push_fs_result_def run_bindM run_thenM run_get_r run_push run_retM run_lua_pushstring
          fs_results_def fs_failed_def fs_value_def fs_done_types_def opt_str_def fs_plain_def split: option.split)
qed

lemma run_fs_release:
  assumes "rqs s u = Some r" "r_data r = Some a" "mem s a = Some (BReq q)" "lr_data q = None"
  shows "fs_release u E s = (Inr (), s\<lparr>
     reg := reg_unref (reg_unref (reg_unref (reg s) (lr_req_ref q)) (lr_cb_ref q)) (lr_data_ref q),
     mem := (mem s)(a := None), uvlog := (''uv_fs_req_cleanup'', [AObj u]) # uvlog s,
     rqs := (rqs s)(u := Some (r\<lparr>r_data := None, r_path := None, r_ptr := None\<rparr>))\<rparr>)"
  using assms
  by (auto simp: fs_release_def run_bindM run_thenM run_get_r run_luv_req_cleanup r_data_null_def run_put_r
      uv_fs_req_cleanup_def run_uv_void intro!: lstate_eqI)

subsection \<open>Synchronous operations\<close>

text \<open>The request after the libuv call whose log is \<open>L\<close>.\<close>

definition fs_answer :: "env \<Rightarrow> uvcall list \<Rightarrow> nat \<Rightarrow> uv_fs_type \<Rightarrow> uv_req" where
  "fs_answer E L a ty = \<lparr>r_type = UV_FS, r_data = Some a, r_fs_type = ty, r_result = uv_int E L 0,
     r_path = uv_text E L 1, r_ptr = uv_text E L 0\<rparr>"

definition fs_returns :: "env \<Rightarrow> uvcall list \<Rightarrow> nat \<Rightarrow> uv_fs_type \<Rightarrow> lval list" where
  "fs_returns E L a ty = (let r = fs_answer E L a ty in
     if ty \<noteq> UV_FS_ACCESS \<and> uv_ret E L < 0
     then [LNil, LStr (fs_text E r), LStr (cstr (uv_err_name E (r_result r)))]
     else fs_results E r)"

lemma run_uv_fs_call:
  assumes "rqs s u = Some r" "L = (f, args) # uvlog s" "r_data r = Some a"
  shows "uv_fs_call u ty f args E s = (Inr (uv_ret E L), s\<lparr>uvlog := L, rqs := (rqs s)(u := Some (fs_answer E L a ty))\<rparr>)"
  using assms
  by (cases r) (simp add: uv_fs_call_def run_bindM run_thenM run_uv run_uv_out run_uv_outs run_get_r run_put_r
      run_retM fs_answer_def)



subsection \<open>Asynchronous operations\<close>

text \<open>The arguments of the callback: the error first, or nil and the value.\<close>

definition fs_callback_args :: "env \<Rightarrow> uv_req \<Rightarrow> lval list" where
  "fs_callback_args E r = (if fs_failed r then [LStr (fs_text E r)] else [LNil, fs_value r])"

lemma run_shape_error_first:
  assumes "k = length (fs_results E r)" "stk s = base @ fs_results E r"
  shows "bindM (if k = 2 then lua_isnil (- int k) else retM False) (\<lambda>err.
     bindM (if err then thenM (lua_remove (- int k)) (retM (k - 1))
            else thenM lua_pushnil (thenM (lua_insert (- int k - 1)) (retM (k + 1)))) g) E s =
    g (length (fs_callback_args E r)) E (s\<lparr>stk := base @ fs_callback_args E r\<rparr>)"
proof (cases "fs_failed r")
  case True
  then have "index2addr (- 2) E s = (Inr (Some LNil), s)"
    by (intro run_index2addr_neg [of _ base _ "[LStr (fs_text E r)]"]) (use assms in \<open>simp_all add: fs_results_def\<close>)
  with True assms show ?thesis
    by (simp add: fs_results_def fs_callback_args_def lua_isnil_def lua_type_def run_bindM run_thenM run_retM
        lua_remove_def Let_def)
next
  case False
  with assms show ?thesis
    by (simp add: fs_results_def fs_callback_args_def run_bindM run_thenM run_retM run_push
        lua_insert_def Let_def butlast_append numeral_2_eq_2)
qed

lemma run_luv_fs_cb:
  assumes "rqs s u = Some r" "r_data r = Some a" "mem s a = Some (BReq q)" "lr_data q = None"
    and "lr_cb_ref q \<noteq> LUA_NOREF" "reg_geti (reg s) (lr_cb_ref q) = g" "lua_tag g = TFUNCTION"
    and "fs_plain (r_fs_type r)" "args = fs_callback_args E r"
    and "ucall E g args (s\<lparr>stk := [], calls := (g, args) # calls s\<rparr>) = (Inr rs, s2)"
    and "mem s2 a = mem s a" "rqs s2 u = rqs s u"
  shows "luv_fs_cb u E s = (Inr (), s2\<lparr>stk := stk s,
     reg := reg_unref (reg_unref (reg_unref (reg s2) (lr_req_ref q)) (lr_cb_ref q)) (lr_data_ref q),
     mem := (mem s2)(a := None), uvlog := (''uv_fs_req_cleanup'', [AObj u]) # uvlog s2,
     rqs := (rqs s2)(u := Some (r\<lparr>r_data := None, r_path := None, r_ptr := None\<rparr>))\<rparr>)"
proof -
  let ?t = "s\<lparr>stk := stk s @ args\<rparr>"
  have pc: "luv_pcall (lr_cb_ref q) (length args) E ?t = (Inr (), s2\<lparr>stk := stk s\<rparr>)"
    using run_luv_pcall_ok [of ?t "stk s" args "lr_cb_ref q" g E rs s2] assms(5-7,10) by simp
  have ns: "r_fs_type r \<noteq> UV_FS_SCANDIR" using assms(8) by (auto simp: fs_plain_def fs_done_types_def)
  have "luv_fs_cb u E s = bindM (get_r u) (\<lambda>r. thenM (luv_req_fulfill (r_data r) (length args))
      (bindM (get_r u) (\<lambda>r. if r_fs_type r \<noteq> UV_FS_SCANDIR then fs_release u else retM ()))) E ?t"
    unfolding luv_fs_cb_def
    by (rule trans [OF bind_step], rule run_push_fs_result [OF assms(1,8)],
        subst run_shape_error_first [where base = "stk s"]) (simp_all add: assms(9))
  also have "\<dots> = fs_release u E (s2\<lparr>stk := stk s\<rparr>)"
    using assms(1-3,11,12) pc ns by (simp add: run_bindM run_thenM run_get_r run_luv_req_fulfill)
  finally show ?thesis
    using run_fs_release [of "s2\<lparr>stk := stk s\<rparr>" u r a q E] assms(1-4,11,12) by simp
qed



subsection \<open>Scanning a directory\<close>

text \<open>
  A directory scan is released exactly once, by the iteration that reaches its end:
  \<^verbatim>\<open>luv_fs_cb\<close> and \<^verbatim>\<open>FS_CALL\<close> keep a scan request, and \<^verbatim>\<open>scandir_next\<close> at the end of the
  entries returns nothing, frees the \<^verbatim>\<open>luv_req_t\<close> and its references and clears \<^verbatim>\<open>data\<close>; the
  next \<^verbatim>\<open>scandir_next\<close> on the same request is refused with an argument error.
\<close>

lemma scan_released_at_end:
  assumes "umeta s u = Some m" "regs s ''uv_req'' = LTab m" "rqs s u = Some r" "r_data r = Some a"
    and "mem s a = Some (BReq q)" "lr_data q = None" "cst E ''UV__EOF'' = Some eof"
    and "uv_ret E ((''uv_fs_scandir_next'', [AObj u]) # uvlog s) = eof"
  shows "\<exists>s'. capi luv_fs_scandir_next [LUData u] E s = (Inr [], s') \<and> mem s' = (mem s)(a := None)
    \<and> reg s' = reg_unref (reg_unref (reg_unref (reg s) (lr_req_ref q)) (lr_cb_ref q)) (lr_data_ref q)
    \<and> (\<exists>s''. capi luv_fs_scandir_next [LUData u] E s' = (Inl (LuaErr (LStr (arg_msg E 1 ''Expected uv_fs_t''))), s'')
        \<and> mem s'' = mem s' \<and> reg s'' = reg s')"
proof -
  let ?s = "s\<lparr>stk := [LUData u]\<rparr>"
  let ?R = "reg_unref (reg_unref (reg_unref (reg s) (lr_req_ref q)) (lr_cb_ref q)) (lr_data_ref q)"
  let ?c = "(''uv_fs_scandir_next'', [AObj u])"
  let ?s1 = "?s\<lparr>rqs := (rqs s)(u := Some (r\<lparr>r_type := UV_REQ\<rparr>)), uvlog := ?c # uvlog s\<rparr>"
  let ?s2 = "?s1\<lparr>reg := ?R, mem := (mem s)(a := None), uvlog := (''uv_fs_req_cleanup'', [AObj u]) # ?c # uvlog s,
      rqs := (rqs s)(u := Some (r\<lparr>r_type := UV_REQ, r_data := None, r_path := None, r_ptr := None\<rparr>))\<rparr>"
  have arg: "arg t 1 = Some (LUData u)" if "stk t = [LUData u]" for t :: lstate
    using that by (simp add: arg_def)
  have ck: "luaL_checkudata 1 ''uv_req'' E t = (Inr u, t)" if "stk t = [LUData u]" "umeta t = umeta s" "regs t = regs s"
    for t using run_luaL_checkudata [of 1 t u m "''uv_req''" E] arg that assms(1,2) by simp
  have rel: "fs_release u E ?s1 = (Inr (), ?s2)"
    using run_fs_release [of ?s1 u "r\<lparr>r_type := UV_REQ\<rparr>" a q E] assms(4-6) by simp
  have "luv_fs_scandir_next E ?s = bindM (askM (\<lambda>E. cst E ''UV__EOF'')) (\<lambda>e.
      if Some eof = e then thenM (fs_release u) (retM 0) else luv_fs_scandir_next) E ?s1"
    using assms(3,4,7,8)
    by (simp add: luv_fs_scandir_next_def luv_fs_check_def run_bindM run_thenM ck run_get_r run_put_r run_luaL_argcheck
        run_retM run_uv run_askM Let_def)
  also have "\<dots> = (Inr 0, ?s2)" using assms(7) rel by (simp add: run_bindM run_thenM run_askM run_retM)
  finally have 1: "capi luv_fs_scandir_next [LUData u] E s = (Inr [], ?s2\<lparr>stk := stk s\<rparr>)"
    by (rule capi_ok [where base = "[LUData u]"]) simp_all
  let ?s3 = "?s2\<lparr>stk := stk s\<rparr>"
  have "luv_fs_scandir_next E (?s3\<lparr>stk := [LUData u]\<rparr>) = (Inl (LuaErr (LStr (arg_msg E 1 ''Expected uv_fs_t''))),
      (?s3\<lparr>stk := [LUData u]\<rparr>)\<lparr>rqs := (rqs s)(u := Some (r\<lparr>r_data := None, r_path := None, r_ptr := None,
          r_type := UV_UNKNOWN_REQ\<rparr>))\<rparr>)"
    by (simp add: luv_fs_scandir_next_def luv_fs_check_def run_bindM run_thenM ck run_get_r run_put_r run_luaL_argcheck
        run_retM Let_def)
  then have "\<exists>s''. capi luv_fs_scandir_next [LUData u] E ?s3 = (Inl (LuaErr (LStr (arg_msg E 1 ''Expected uv_fs_t''))), s'')
      \<and> mem s'' = mem ?s3 \<and> reg s'' = reg ?s3"
    by (simp add: capi_def)
  with 1 show ?thesis by (intro exI [of _ ?s3]) simp
qed

definition scan_state :: lstate where
  "scan_state = tcp_state\<lparr>umeta := (umeta tcp_state)(2 := Some 1),
     rqs := [2 \<mapsto> \<lparr>r_type = UV_FS, r_data = Some 1, r_fs_type = UV_FS_SCANDIR, r_result = 2, r_path = None, r_ptr = None\<rparr>],
     mem := (mem tcp_state)(1 := Some (BReq \<lparr>lr_req_ref = 4, lr_cb_ref = -2, lr_data_ref = -2, lr_data = None\<rparr>)),
     reg := [LNil, LThread, LTab 0, LUData 1, LUData 2], nud := 3, brk := 2\<rparr>"

end
