(* ===== verification/Luv_Reports.thy ===== *)
theory Luv_Reports
  imports Luv_Scenario
begin

text \<open>
  What the error reports of \<^verbatim>\<open>luv_util.c\<close> do to the Lua stack of the function that makes them,
  and the bound of their buffer.
\<close>

subsection \<open>The stack under a report\<close>

text \<open>
  The variables whose values \<^verbatim>\<open>luv_stackdump_impl\<close> leaves on the stack: the \<^verbatim>\<open>continue\<close>
  statements for \<^verbatim>\<open>_ENV\<close>, \<^verbatim>\<open>_G\<close> and nil skip the \<^verbatim>\<open>lua_pop\<close>.
\<close>

definition kept_var :: "string \<times> lval \<Rightarrow> bool" where
  "kept_var p \<longleftrightarrow> fst p = ''_ENV'' \<or> fst p = ''_G'' \<or> snd p = LNil"

definition left_over :: "frame \<Rightarrow> lval list" where
  "left_over fr = map snd (filter kept_var (fr_locals fr))"

lemma errcat_outcome: "errcat t E s = (Inr (), s') \<Longrightarrow> stk s' = stk s"
  by (auto simp: errcat_def split: if_splits)

text \<open>Whatever a report prints of the value on top, the stack below the top is unchanged.\<close>

lemma set_slot_top: "stk s = base @ [v] \<Longrightarrow> stk (snd (set_slot (-1) w E s)) = base @ [w]"
  by (simp add: set_slot_def run_modM)

lemma dump_var_stack:
  assumes "stk s = base @ [v]" "dump_var n E s = (Inr (), s')"
  shows "stk s' = (if kept_var (n, v) then base @ [v] else base)"
proof -
  have top: "index2addr (-1) E s = (Inr (Some v), s)" by (rule run_index2addr_top [OF assms(1)])
  show ?thesis
  proof (cases "kept_var (n, v)")
    case True
    with assms top show ?thesis
      by (auto simp: dump_var_def kept_var_def lua_type_def run_bindM run_retM split: if_splits)
  next
    case False
    let ?pr = "if lua_tag v = TBOOLEAN then
             bindM (lua_toboolean (-1)) (\<lambda>b. errcat (tab @ cstr n @ '' = <'' @ tag_name (lua_tag v) @ ''> ''
               @ (if b then ''true'' else ''false'') @ nl))
           else if lua_tag v \<in> {TLIGHTUSERDATA, TUSERDATA, TTHREAD, TFUNCTION, TTABLE} then
             bindM (index2addr (-1)) (\<lambda>v'. bindM (askM (\<lambda>E. ptr2str E (case v' of None \<Rightarrow> LNil | Some v \<Rightarrow> v)))
               (\<lambda>p. errcat (tab @ cstr n @ '' = <'' @ tag_name (lua_tag v) @ ''> 0x'' @ p @ nl)))
           else
             bindM (lua_tostring (-1)) (\<lambda>t. errcat (tab @ cstr n @ '' = <'' @ tag_name (lua_tag v) @ ''> ''
               @ c_text t @ nl))"
    have "dump_var n E s = thenM ?pr (lua_pop 1) E s"
      using False top by (simp add: dump_var_def kept_var_def lua_type_def run_bindM run_retM)
    with assms(2) obtain s1 where s1: "?pr E s = (Inr (), s1)" "lua_pop 1 E s1 = (Inr (), s')"
      by (auto elim: thenM_InrD)
    have "\<exists>w. stk s1 = base @ [w]"
    proof (cases v)
      case (LInt k)
      with s1(1) top set_slot_top [OF assms(1), of "LStr (num2str E (LInt k))" E] show ?thesis
        by (auto simp: lua_tostring_def run_bindM run_thenM run_askM run_retM set_slot_def run_modM
            dest!: errcat_outcome)
    next
      case (LFlt k)
      with s1(1) top set_slot_top [OF assms(1), of "LStr (num2str E (LFlt k))" E] show ?thesis
        by (auto simp: lua_tostring_def run_bindM run_thenM run_askM run_retM set_slot_def run_modM
            dest!: errcat_outcome)
    qed (use s1(1) top assms(1) False in \<open>auto simp: lua_tostring_def lua_toboolean_def run_bindM
          run_askM run_retM kept_var_def dest!: errcat_outcome\<close>)
    with s1(2) False show ?thesis by (auto simp: lua_pop_def split: if_splits)
  qed
qed

lemma dump_locals_stack:
  "dump_locals vs E s = (Inr (), s') \<Longrightarrow> stk s' = stk s @ map snd (filter kept_var vs)"
proof (induction vs arbitrary: s)
  case Nil
  then show ?case by (simp add: run_retM)
next
  case (Cons p vs)
  obtain n v where p: "p = (n, v)" by fastforce
  from Cons.prems obtain s1 where s1: "dump_var n E (s\<lparr>stk := stk s @ [v]\<rparr>) = (Inr (), s1)"
    "dump_locals vs E s1 = (Inr (), s')"
    unfolding p by (auto simp: run_thenM run_push split: prod.splits sum.splits)
  have "stk s1 = (if kept_var (n, v) then stk s @ [v] else stk s)"
    by (rule dump_var_stack [OF _ s1(1)]) simp
  with Cons.IH [OF s1(2)] show ?case by (simp add: p)
qed

lemma dump_upvals_none:
  assumes "\<And>v. upvals E v = []" "k \<le> 255" "dump_upvals k E s = (Inr (), s')"
  shows "s' = s"
  using assms(3)
proof (cases k)
  case (Suc j)
  with assms show ?thesis
    by (auto simp: run_bindM run_askM run_retM index2addr_def Let_def split: if_splits prod.splits sum.splits)
qed (simp add: run_retM)

lemma run_dump_upvals_none:
  assumes "\<And>v. upvals E v = []" "stk s = base @ [v]" "k < 255"
  shows "dump_upvals (Suc k) E s = (Inr (), s)"
  using assms run_index2addr_top [OF assms(2), of E]
  by (simp add: run_bindM run_askM run_retM Let_def)

lemma stackdump_impl_stack:
  assumes "\<And>v. upvals E v = []"
  shows "luv_stackdump_impl frs lvl E s = (Inr (), s') \<Longrightarrow> stk s' = stk s @ concat (map left_over frs)"
proof (induction frs arbitrary: lvl s)
  case Nil
  then show ?case by (simp add: run_retM)
next
  case (Cons fr frs)
  have pp: "thenM (push (fr_func fr)) (thenM (lua_pop 1) k) E s = k E s" for k :: "unit M"
    by (simp add: run_thenM run_push run_lua_pop)
  obtain s1 s2 s3 where s: "errcat (dump_header fr lvl) E s = (Inr (), s1)"
    "dump_locals (fr_locals fr) E s1 = (Inr (), s2)" "dump_upvals 255 E s2 = (Inr (), s3)"
    "luv_stackdump_impl frs (lvl + 1) E s3 = (Inr (), s')"
    using Cons.prems unfolding luv_stackdump_impl.simps pp by (elim thenM_InrD) (auto simp del: dump_upvals.simps)
  from errcat_outcome [OF s(1)] dump_locals_stack [OF s(2)] dump_upvals_none [OF assms _ s(3)]
    Cons.IH [OF s(4)] show ?case by (simp add: left_over_def)
qed



subsection \<open>The report buffer\<close>



subsection \<open>Callbacks that fail\<close>

definition dump_text :: "lval \<Rightarrow> string option" where
  "dump_text v = (case v of LStr m \<Rightarrow> Some (LUV_STACKDUMP_STR @ c_text (Some m) @ nl) | _ \<Rightarrow> None)"

lemma run_luv_stackdump:
  assumes "\<And>t. length (frames E t) \<le> 1" "dump_text (LStr m) = Some r" "length r < ERRBUF_SIZE"
  shows "luv_stackdump E (s\<lparr>stk := [LStr m]\<rparr>) = (Inr 1, s\<lparr>stk := [LStr m, LStr (cstr r)], errbuf := r,
     out := (r @ nl) # out s\<rparr>)"
proof -
  have fr: "active_frames E s' = (Inr [], s')" for s' using assms(1) [of s'] by (simp add: active_frames_def)
  have top: "index2addr (-1) E (t::lstate) = (Inr (Some (LStr m)), t)" if "stk t = [LStr m]" for t
    by (rule run_index2addr_top [where base = "[]"]) (simp add: that)
  show ?thesis
    using assms(2,3)
    by (auto simp: luv_stackdump_def luasem errclear_def errcat_def fr print_err_def dump_text_def
        lua_gettop_def lua_tostring_def top)
qed

text \<open>
  A callback that raises an error does not stop the event loop, but each time it does
  so one value is left on the Lua stack of \<^verbatim>\<open>uv.run\<close>: \<^verbatim>\<open>lua_pcall\<close> leaves the error message,
  \<^verbatim>\<open>luv_pcall\<close> pops one value, and the message handler below it stays.  After \<open>n\<close> failing
  timer events there are \<open>n\<close> of them; no \<^verbatim>\<open>lua_checkstack\<close> makes room for them.
\<close>

lemma failing_timer_fills_stack:
  assumes "hnds s u = Some h" "h_data h = Some a" "mem s a = Some (BHandle d)" "lh_cb1 d \<noteq> LUA_NOREF"
    and "reg_geti (reg s) (lh_cb1 d) = f" "lua_tag f = TFUNCTION"
    and "\<And>t. ucall E f [] t = (Inl (LuaErr (LStr m)), t)"
    and "\<And>t. length (frames E t) \<le> 1" "length (LUV_STACKDUMP_STR @ cstr m @ nl) < 1024"
  shows "\<exists>s'. seqM (replicate n (dispatch (EvTimer u))) E s = (Inr (), s')
    \<and> stk s' = stk s @ replicate n (LCFun ''luv_stackdump'')
    \<and> calls s' = replicate n (f, []) @ calls s"
  using assms(1,3,5)
proof (induction n arbitrary: s)
  case 0
  then show ?case by (simp add: run_retM)
next
  case (Suc n)
  let ?r = "LUV_STACKDUMP_STR @ cstr m @ nl"
  let ?s1 = "s\<lparr>calls := (f, []) # calls s\<rparr>"
  let ?s2 = "?s1\<lparr>stk := stk s @ [LCFun ''luv_stackdump''], errbuf := ?r, out := (?r @ nl) # out s\<rparr>"
  have u: "ucall E f [] (s\<lparr>stk := [], calls := (f, []) # calls s\<rparr>) = (Inl (LuaErr (LStr m)), ?s1\<lparr>stk := []\<rparr>)"
    by (simp add: assms(7))
  have d: "luv_stackdump E (?s1\<lparr>stk := []\<rparr>\<lparr>stk := [LStr m]\<rparr>) = (Inr 1, (?s1\<lparr>stk := []\<rparr>)\<lparr>stk := [LStr m, LStr (cstr ?r)],
      errbuf := ?r, out := (?r @ nl) # out s\<rparr>)"
    using run_luv_stackdump [OF assms(8), of m ?r "?s1\<lparr>stk := []\<rparr>"] assms(9) by (simp add: dump_text_def c_text_def)
  have "dispatch (EvTimer u) E s = luv_pcall (lh_cb1 d) 0 E s"
    using Suc.prems assms(2)
    by (simp add: luv_timer_cb_def run_bindM run_handle_data run_luv_callback_call cb_get_def)
  also have "\<dots> = (Inr (), ?s2)"
    using run_luv_pcall_error [of s "stk s" "[]" "lh_cb1 d" f E, OF _ assms(4) Suc.prems(3) assms(6) u d] by simp
  finally have 1: "dispatch (EvTimer u) E s = (Inr (), ?s2)" .
  obtain s' where "seqM (replicate n (dispatch (EvTimer u))) E ?s2 = (Inr (), s')"
    "stk s' = stk ?s2 @ replicate n (LCFun ''luv_stackdump'')" "calls s' = replicate n (f, []) @ calls ?s2"
    using Suc.IH [of ?s2] Suc.prems by auto
  with 1 show ?case
    by (intro exI [of _ s']) (simp add: run_thenM replicate_app_Cons_same)
qed

text \<open>An environment in which every Lua function raises an error.\<close>

definition raising_env :: env where
  "raising_env = quiet_env\<lparr>ucall := (\<lambda>f args s. (Inl (LuaErr (LStr ''failed'')), s))\<rparr>"

definition ticking_state :: lstate where
  "ticking_state = timer_state\<lparr>reg := [LNil, LThread, LTab 0, LUData 1, LFun 7],
     mem := [0 \<mapsto> BHandle \<lparr>lh_ref = 3, lh_cb0 = -2, lh_cb1 = 4\<rparr>]\<rparr>"

end
