(* ===== verification/Luv_Data_Paths.thy ===== *)
theory Luv_Data_Paths
  imports Luv_Reports
begin

text \<open>
  What reaches the callbacks of a program: the arguments of the read and receive callbacks of
  \<^verbatim>\<open>luv_stream.c\<close> and \<^verbatim>\<open>luv_udp.c\<close>, and which functions \<^verbatim>\<open>luv_loop.c\<close> runs for the handles it
  walks over.
\<close>

subsection \<open>A handle somebody listens to\<close>

text \<open>The event slot of the handle in the userdata \<open>u\<close> names the function \<open>f\<close>.\<close>

definition listens :: "lstate \<Rightarrow> nat \<Rightarrow> lval \<Rightarrow> bool" where
  "listens s u f \<longleftrightarrow> lua_tag f = TFUNCTION \<and> (case Option.bind (hnds s u) h_data of None \<Rightarrow> False
     | Some a \<Rightarrow> (case mem s a of
         Some (BHandle d) \<Rightarrow> lh_cb1 d \<noteq> LUA_NOREF \<and> reg_geti (reg s) (lh_cb1 d) = f | _ \<Rightarrow> False))"

lemma listensD:
  assumes "listens s u f"
  obtains h a d where "hnds s u = Some h" "h_data h = Some a" "mem s a = Some (BHandle d)"
    "lh_cb1 d \<noteq> LUA_NOREF" "reg_geti (reg s) (lh_cb1 d) = f" "lua_tag f = TFUNCTION"
  using assms unfolding listens_def
  by (cases "hnds s u") (auto split: option.splits block.splits)

lemma mem_before_stk: "(s :: lstate)\<lparr>stk := x, mem := y\<rparr> = s\<lparr>mem := y, stk := x\<rparr>"
  by (rule lstate_eqI) simp_all

lemma listens_cong:
  "hnds s' = hnds s \<Longrightarrow> mem s' = mem s \<Longrightarrow> reg s' = reg s \<Longrightarrow> listens s' = listens s"
  unfolding listens_def by (intro ext) (simp cong: option.case_cong block.case_cong)

lemma listens_stk [simp]: "listens (s\<lparr>stk := x\<rparr>) = listens s"
  by (rule listens_cong) simp_all

lemma listens_free: "listens s u f \<Longrightarrow> mem s b = Some BBuf \<Longrightarrow> listens (s\<lparr>mem := (mem s)(b := None)\<rparr>) u f"
  unfolding listens_def by (auto split: option.splits block.splits)

text \<open>Every event callback ends in this call.\<close>

lemma run_event_call:
  assumes "listens s u f" "stk s = base @ args" "n = length args"
    and "ucall E f args (s\<lparr>stk := [], calls := (f, args) # calls s\<rparr>) = (Inr rs, s2)"
  shows "bindM (handle_data u) (\<lambda>data. luv_callback_call data LUV_EVENT n) E s =
    (Inr (), s2\<lparr>stk := base\<rparr>)"
proof -
  obtain h a d where l: "hnds s u = Some h" "h_data h = Some a" "mem s a = Some (BHandle d)"
    "lh_cb1 d \<noteq> LUA_NOREF" "reg_geti (reg s) (lh_cb1 d) = f" "lua_tag f = TFUNCTION"
    by (rule listensD [OF assms(1)])
  have "luv_pcall (lh_cb1 d) (length args) E s = (Inr (), s2\<lparr>stk := base\<rparr>)"
    by (rule run_luv_pcall_ok [OF assms(2) l(4-6) assms(4)])
  with l show ?thesis
    using assms(3) by (simp add: run_bindM run_handle_data run_luv_callback_call cb_get_def)
qed

subsection \<open>Reading from a stream\<close>

text \<open>The arguments \<^verbatim>\<open>luv_stream_read_cb\<close> documents for a program's callback.\<close>

definition read_args :: "env \<Rightarrow> int \<Rightarrow> string \<Rightarrow> lval list" where
  "read_args E nread bytes = (if Some nread = cst E ''UV__EOF'' then []
     else if nread < 0 then [LStr (cstr (uv_err_name E nread))]
     else [LNil, LStr (take (nat nread) bytes)])"

text \<open>
  C18. Reading: the callback gets nil and exactly the bytes read, nothing at the end of the
  file, the name of the error otherwise, and is not called at all when nothing was read;
  in every case the buffer is freed, and the Lua stack is left as it was.
\<close>

theorem read_delivers:
  assumes "listens s u f" "mem s b = Some BBuf" "cst E ''UV__EOF'' = Some eof" "eof < 0"
    and "t = s\<lparr>mem := (mem s)(b := None)\<rparr>" "args = read_args E nread bytes"
    and "ucall E f args (t\<lparr>stk := [], calls := (f, args) # calls t\<rparr>) = (Inr rs, s2)"
  shows "luv_stream_read_cb u nread (Some b) bytes E s =
    (Inr (), if nread = 0 then t else s2\<lparr>stk := stk s\<rparr>)"
proof (cases "nread = 0")
  case True
  with assms show ?thesis
    by (simp add: luv_stream_read_cb_def luasem)
next
  case False
  let ?t = "s\<lparr>mem := (mem s)(b := None), stk := stk s @ args\<rparr>"
  have l: "listens ?t u f"
    using listens_free [OF assms(1,2)] listens_cong [of ?t "s\<lparr>mem := (mem s)(b := None)\<rparr>"] by simp
  have "?t\<lparr>stk := [], calls := (f, args) # calls ?t\<rparr> = t\<lparr>stk := [], calls := (f, args) # calls t\<rparr>"
    using assms(5) by (auto intro: lstate_eqI)
  then have c: "bindM (handle_data u) (\<lambda>data. luv_callback_call data LUV_EVENT (length args)) E ?t =
      (Inr (), s2\<lparr>stk := stk s\<rparr>)"
    using run_event_call [OF l, of "stk s" args _ E rs s2] assms(7) by simp
  consider "nread = eof" | "nread \<noteq> eof" "nread < 0" | "0 < nread" "nread \<noteq> eof"
    using False assms(4) by linarith
  then have "luv_stream_read_cb u nread (Some b) bytes E s =
      bindM (handle_data u) (\<lambda>data. luv_callback_call data LUV_EVENT (length args)) E ?t"
  proof cases
    case 1
    then show ?thesis
      using assms(2-6) by (simp add: luv_stream_read_cb_def luasem read_args_def)
  next
    case 2
    then show ?thesis
      using assms(2-6) by (simp add: luv_stream_read_cb_def luasem read_args_def)
  next
    case 3
    then show ?thesis
      using assms(2-6) by (simp add: luv_stream_read_cb_def luasem read_args_def mem_before_stk numeral_2_eq_2)
  qed
  with c False show ?thesis by simp
qed

text \<open>A timer stands for any handle with a registered event callback, the function 7.\<close>

definition eof_env :: env where
  "eof_env = quiet_env\<lparr>cst := (\<lambda>n. if n = ''UV__EOF'' then Some (-4095) else None)\<rparr>"

definition listening_state :: lstate where
  "listening_state = ticking_state\<lparr>mem := (mem ticking_state)(1 := Some BBuf), brk := 2\<rparr>"

lemma listening: "listens listening_state 1 (LFun 7)"
  by (simp add: listens_def listening_state_def ticking_state_def timer_state_def reg_geti_def)

theorem read_delivers_witness:
  "\<exists>t. luv_stream_read_cb 1 3 (Some 1) ''abcdef'' eof_env listening_state = (Inr (), t)
    \<and> calls t = [(LFun 7, [LNil, LStr ''abc''])] \<and> mem t 1 = None"
proof -
  let ?t = "listening_state\<lparr>mem := (mem listening_state)(1 := None)\<rparr>"
  have "read_args eof_env 3 ''abcdef'' = [LNil, LStr ''abc'']" by (simp add: read_args_def eof_env_def)
  then have "luv_stream_read_cb 1 3 (Some 1) ''abcdef'' eof_env listening_state = (Inr (),
      if (3::int) = 0 then ?t else (?t\<lparr>stk := [], calls := (LFun 7, [LNil, LStr ''abc'']) # calls ?t\<rparr>)\<lparr>stk := stk listening_state\<rparr>)"
    by (intro read_delivers [OF listening, where eof = "-4095" and t = ?t and rs = "[]" and args = "[LNil, LStr ''abc'']"])
      (simp_all add: listening_state_def eof_env_def)
  then show ?thesis
    by (simp add: listening_state_def ticking_state_def timer_state_def luv_state0_fields)
qed

subsection \<open>Receiving a datagram\<close>

text \<open>
  A receive error is misreported: for a negative \<^verbatim>\<open>nread\<close> \<^verbatim>\<open>luv_udp_recv_cb\<close> pushes three
  values but calls the callback with four, so the callback gets whatever lies below them as
  its first argument, and that value is lost from the stack of the caller; on an empty
  stack the call reaches below its bottom.
\<close>

lemma recv_error_shifts:
  assumes "listens s u f" "mem s b = Some BBuf" "nread < 0" "flags div 2 mod 2 = 0"
    and "args = [v, LStr (cstr (uv_err_name E nread)), LNil, LTab (ntab s)]"
    and "t = s\<lparr>mem := (mem s)(b := None), tabs := (tabs s)(ntab s := []), ntab := Suc (ntab s)\<rparr>"
  shows "(stk s = [] \<longrightarrow> fst (luv_udp_recv_cb u nread (Some (Some b, bytes)) None flags E s) = Inl (Crash Bad_index))
    \<and> (\<forall>base rs s2. stk s = base @ [v]
        \<longrightarrow> ucall E f args (t\<lparr>stk := [], calls := (f, args) # calls t\<rparr>) = (Inr rs, s2)
        \<longrightarrow> luv_udp_recv_cb u nread (Some (Some b, bytes)) None flags E s = (Inr (), s2\<lparr>stk := base\<rparr>))"
proof -
  let ?err = "[LStr (cstr (uv_err_name E nread)), LNil, LTab (ntab s)]"
  let ?t = "s\<lparr>mem := (mem s)(b := None), tabs := (tabs s)(ntab s := []), ntab := Suc (ntab s), stk := stk s @ ?err\<rparr>"
  let ?call = "bindM (handle_data u) (\<lambda>data. luv_callback_call data LUV_EVENT 4)"
  have l: "listens ?t u f"
    using listens_free [OF assms(1,2)] listens_cong [of ?t "s\<lparr>mem := (mem s)(b := None)\<rparr>"] by simp
  have r: "luv_udp_recv_cb u nread (Some (Some b, bytes)) None flags E s = ?call E ?t"
    using assms(2-6) by (simp add: luv_udp_recv_cb_def luasem)
  have "fst (?call E ?t) = Inl (Crash Bad_index)" if "stk s = []"
    using l that
    by (elim listensD) (simp add: run_bindM run_handle_data run_luv_callback_call cb_get_def luv_pcall_def
        run_thenM run_push run_whenM lua_insert_def run_reg_rawgeti Let_def)
  moreover have e: "?t\<lparr>stk := [], calls := (f, args) # calls ?t\<rparr> = t\<lparr>stk := [], calls := (f, args) # calls t\<rparr>"
    using assms(6) by (auto intro: lstate_eqI)
  have "?call E ?t = (Inr (), s2\<lparr>stk := base\<rparr>)"
    if "stk s = base @ [v]" "ucall E f args (t\<lparr>stk := [], calls := (f, args) # calls t\<rparr>) = (Inr rs, s2)"
    for base rs s2
    using run_event_call [OF l, of base args 4 E rs s2] that assms(5) e by simp
  ultimately show ?thesis unfolding r by blast
qed

lemma recv_error_shifts_witness:
  "fst (luv_udp_recv_cb 1 (-1) (Some (Some 1, [])) None 0 quiet_env listening_state) = Inl (Crash Bad_index)
    \<and> (\<exists>t. luv_udp_recv_cb 1 (-1) (Some (Some 1, [])) None 0 quiet_env (listening_state\<lparr>stk := [LInt 9]\<rparr>) = (Inr (), t)
        \<and> hd (calls t) = (LFun 7, [LInt 9, LStr ''EIO'', LNil, LTab (ntab listening_state)]) \<and> stk t = [])"
proof
  let ?A = "[LInt 9, LStr ''EIO'', LNil, LTab (ntab listening_state)]"
  have e: "cstr ''EIO'' = ''EIO''" by code_simp
  have b: "mem listening_state 1 = Some BBuf" by (simp add: listening_state_def)
  have "stk listening_state = []"
    by (simp add: listening_state_def ticking_state_def timer_state_def luv_state0_fields)
  with recv_error_shifts [OF listening b, of "-1" 0 ?A "LInt 9" quiet_env _ "[]"] e
  show "fst (luv_udp_recv_cb 1 (-1) (Some (Some 1, [])) None 0 quiet_env listening_state) = Inl (Crash Bad_index)"
    by simp
  let ?s = "listening_state\<lparr>stk := [LInt 9]\<rparr>"
  have l: "listens ?s 1 (LFun 7)" "mem ?s 1 = Some BBuf" using listening b by simp_all
  let ?t = "?s\<lparr>mem := (mem ?s)(1 := None), tabs := (tabs ?s)(ntab ?s := []), ntab := Suc (ntab ?s)\<rparr>"
  let ?u = "?t\<lparr>stk := [], calls := (LFun 7, ?A) # calls ?t\<rparr>"
  have "luv_udp_recv_cb 1 (-1) (Some (Some 1, [])) None 0 quiet_env ?s = (Inr (), ?u\<lparr>stk := []\<rparr>)"
    using recv_error_shifts [OF l, of "-1" 0 ?A "LInt 9" quiet_env ?t "[]"] e by simp
  then show "\<exists>t. luv_udp_recv_cb 1 (-1) (Some (Some 1, [])) None 0 quiet_env ?s = (Inr (), t)
        \<and> hd (calls t) = (LFun 7, ?A) \<and> stk t = []" by auto
qed

end
