(* ===== verification/Luv_Names.thy ===== *)
theory Luv_Names
  imports Luv_Scenario
begin

text \<open>
  The translations between names and numbers: the tables of \<^verbatim>\<open>luv_constants.c\<close>, the access modes
  and the file types of \<^verbatim>\<open>luv_fs.c\<close>.
\<close>

text \<open>
  C30. A number luv shows as a name is the number the name stands for, on every platform: for
  address families, address hints, socket types and signals, translating the name back gives
  the number.
\<close>

theorem names_sound:
  "(\<forall>t. luv_af_num_to_string E k = Some t \<longrightarrow> luv_af_string_to_num E (Some t) = k)
    \<and> (\<forall>t. luv_ai_num_to_string E k = Some t \<longrightarrow> luv_ai_string_to_num E (Some t) = k)
    \<and> (\<forall>t. luv_sock_num_to_string E k = Some t \<longrightarrow> luv_sock_string_to_num E (Some t) = k)
    \<and> (\<forall>t. luv_sig_num_to_string E k = Some t \<longrightarrow> luv_sig_string_to_num E (Some t) = k)"
  using num_string_num by blast

definition linux_env :: env where
  "linux_env = quiet_env\<lparr>cst := (\<lambda>n. if n = ''SIGABRT'' \<or> n = ''SIGIOT'' then Some 6
     else if n = ''SIGHUP'' then Some 1 else if n = ''SIGTERM'' then Some 15 else None)\<rparr>"

theorem names_sound_witness:
  "luv_sig_num_to_string linux_env 6 = Some ''sigabrt'' \<and> luv_sig_string_to_num linux_env (Some ''sigabrt'') = 6"
proof -
  have "luv_sig_num_to_string linux_env 6 = Some ''sigabrt''"
    by (simp add: luv_sig_num_to_string_def sig_cases_def sig_rows_def sig_case_kept_def linux_env_def cpp_def)
  with names_sound [of linux_env 6] show ?thesis by blast
qed

text \<open>
  The table \<^verbatim>\<open>uv.constants\<close> has exactly the names whose macro the platform defines, each
  with its value; it is a new table and no other table changes.
\<close>

lemma constants_table:
  "\<exists>s'. luv_constants E s = (Inr 1, s') \<and> stk s' = stk s @ [LTab (ntab s)]
    \<and> (\<forall>n. tget (tabs s' (ntab s)) (LStr n) = (if n \<in> set constant_names then const_entry E n else LNil))
    \<and> tabs s' = (tabs s)(ntab s := tabs s' (ntab s))"
proof -
  let ?s = "s\<lparr>tabs := (tabs s)(ntab s := []), ntab := Suc (ntab s), stk := stk s @ [LTab (ntab s)]\<rparr>"
  have "seqM (map push_const constant_names) E ?s =
      (Inr (), ?s\<lparr>tabs := (tabs ?s)(ntab s := put_consts E constant_names (tabs ?s (ntab s)))\<rparr>)"
    by (rule run_push_consts [where base = "stk s"]) simp
  then have "luv_constants E s = (Inr 1, ?s\<lparr>tabs := (tabs ?s)(ntab s := put_consts E constant_names (tabs ?s (ntab s)))\<rparr>)"
    unfolding luv_constants_def by (simp add: run_thenM run_lua_newtable run_retM)
  then show ?thesis
    by (auto simp: tget_put_consts const_entry_def split: option.split)
qed

subsection \<open>Access modes\<close>

text \<open>The flags a mode string asks for.\<close>

definition mode_flags :: "env \<Rightarrow> string \<Rightarrow> int" where
  "mode_flags E t = (if CHR ''r'' \<in> set t \<or> CHR ''R'' \<in> set t then cpp E ''R_OK'' else 0)
     OR (if CHR ''w'' \<in> set t \<or> CHR ''W'' \<in> set t then cpp E ''W_OK'' else 0)
     OR (if CHR ''x'' \<in> set t \<or> CHR ''X'' \<in> set t then cpp E ''X_OK'' else 0)"

lemma or_absorb: "(m::int) OR a OR a = m OR a"
  by (simp add: or.assoc)

lemma amode_of_acc:
  "amode_of E t m = (if set t \<subseteq> set ''rRwWxX'' then Some (m OR mode_flags E t) else None)"
proof (induction t arbitrary: m)
  case (Cons c cs)
  have m: "mode_flags E (c # cs) = (if c = CHR ''r'' \<or> c = CHR ''R'' then cpp E ''R_OK'' else 0)
     OR (if c = CHR ''w'' \<or> c = CHR ''W'' then cpp E ''W_OK'' else 0)
     OR (if c = CHR ''x'' \<or> c = CHR ''X'' then cpp E ''X_OK'' else 0) OR mode_flags E cs"
    by (auto simp: mode_flags_def ac_simps)
  show ?case
    by (auto simp: Cons.IH m ac_simps)
qed (simp add: mode_flags_def)

text \<open>
  The access mode of \<^verbatim>\<open>fs_access\<close>: a string of the letters r, w and x in either case, in
  any order and with repetitions, stands for the disjunction of the flags its letters ask
  for; any other letter is refused.
\<close>

lemma amode_of_letters:
  "amode_of E t 0 = (if set t \<subseteq> set ''rRwWxX'' then Some (mode_flags E t) else None)"
  by (simp add: amode_of_acc)

subsection \<open>File types\<close>

lemma S_IFMT_bits_eq: "S_IFMT_bits m = 4096 * (m div 4096 mod 16)"
proof -
  have "m AND push_bit 12 (mask 4) = push_bit 12 (take_bit 4 (drop_bit 12 m))"
    by (rule bit_eqI) (auto simp: bit_simps)
  then show ?thesis
    by (simp add: S_IFMT_bits_def mask_eq_exp_minus_1 push_bit_eq_mult take_bit_eq_mod drop_bit_eq_div)
qed

text \<open>
  The \<^verbatim>\<open>type\<close> of a stat table is decided by the file-type bits alone: the permission and
  set-id bits, the lower twelve, never matter, and each of the seven POSIX file types has
  its name.
\<close>

lemma stat_type_of_mode:
  assumes "0 \<le> p" "p < 4096"
  shows "stat_type (4096 * k + p) = (case map_of [(8::int, ''file''), (4, ''directory''), (10, ''link''),
     (1, ''fifo''), (12, ''socket''), (2, ''char''), (6, ''block'')] (k mod 16) of t \<Rightarrow> t)"
proof -
  have "(4096 * k + p) div 4096 = k" using assms by simp
  then have "S_IFMT_bits (4096 * k + p) = 4096 * (k mod 16)" by (simp add: S_IFMT_bits_eq)
  then show ?thesis by (simp add: stat_type_def Let_def)
qed

lemma stat_type_of_mode_witness: "stat_type 33188 = Some ''file''"
  using stat_type_of_mode [of 420 8] by simp

end
