(* ===== verification/Lminiz.thy ===== *)
theory Lminiz
  imports Luv
begin

text \<open>
  \<^verbatim>\<open>xcore/src/lminiz.c\<close> and \<^verbatim>\<open>xcore/src/lengine.c\<close>: the method tables and the opening functions of
  the libraries \<^verbatim>\<open>miniz\<close> and \<^verbatim>\<open>engine\<close>.
\<close>

definition lminiz_read_m :: "(string \<times> string) list" where
  "lminiz_read_m = [(''get_num_files'', ''lmz_reader_get_num_files''), (''stat'', ''lmz_reader_stat''),
     (''get_filename'', ''lmz_reader_get_filename''), (''is_directory'', ''lmz_reader_is_file_a_directory''),
     (''extract'', ''lmz_reader_extract''), (''locate_file'', ''lmz_reader_locate_file''),
     (''get_offset'', ''lmz_reader_get_offset'')]"

definition lminiz_write_m :: "(string \<times> string) list" where
  "lminiz_write_m = [(''add_from_zip'', ''lmz_writer_add_from_zip_reader''), (''add'', ''lmz_writer_add_mem''),
     (''finalize'', ''lmz_writer_finalize'')]"

definition lminiz_f :: "(string \<times> string) list" where
  "lminiz_f = [(''new_reader'', ''lmz_reader_init''), (''new_writer'', ''lmz_writer_init''),
     (''inflate'', ''ltinfl''), (''deflate'', ''ltdefl'')]"

definition luaopen_miniz :: "nat M" where
  "luaopen_miniz = thenM (seqM
     [luaL_newmetatable ''miniz_reader'',
      luaL_newlib lminiz_read_m,
      lua_setfield (-2) ''__index'',
      lua_pushcfunction ''lmz_reader_gc'',
      lua_setfield (-2) ''__gc'',
      lua_pop 1,
      luaL_newmetatable ''miniz_writer'',
      luaL_newlib lminiz_write_m,
      lua_setfield (-2) ''__index'',
      lua_pushcfunction ''lmz_writer_gc'',
      lua_setfield (-2) ''__gc'',
      lua_pop 1,
      luaL_newlib lminiz_f])
     (retM 1)"

definition luaopen_engine :: "nat M" where
  "luaopen_engine = thenM lua_newtable (retM 1)"

end
