(* ===== verification/Xcore_Main.thy ===== *)
theory Xcore_Main
  imports Luv_Scenario Lminiz
begin

text \<open>
  \<^verbatim>\<open>xcore/src/main.c\<close>: how the engine starts, loads its libraries and scripts, runs the event
  loop and ends.  The Lua compiler and the standard libraries are the host: which chunk a
  file or a text compiles to, and what \<^verbatim>\<open>luaL_openlibs\<close> does to a new state.
\<close>

subsection \<open>The process\<close>

record host =
  newstate_ok :: bool
  openlibs :: "lstate \<Rightarrow> lstate"
  loadfile :: "string \<Rightarrow> int \<times> lval"
  loadstring :: "string \<Rightarrow> int \<times> lval"

text \<open>The global \<^verbatim>\<open>g_Lua\<close>, the states closed so far, and the lines written to \<^verbatim>\<open>stderr\<close>.\<close>

record process =
  g_Lua :: "lstate option"
  nclosed :: nat
  stderr_lines :: "string list"

type_synonym 'a P = "(env, process, exc, 'a) comp"

text \<open>A call of the Lua API on \<^verbatim>\<open>g_Lua\<close>.\<close>

definition on_lua :: "'a M \<Rightarrow> 'a P" where
  "on_lua m = (\<lambda>E p. case g_Lua p of None \<Rightarrow> (Inl (Crash Null_deref), p)
     | Some s \<Rightarrow> (case m E s of (r, s') \<Rightarrow> (r, p\<lparr>g_Lua := Some s'\<rparr>)))"

subsection \<open>Running chunks\<close>

text \<open>\<^verbatim>\<open>luaL_loadfile\<close> and \<^verbatim>\<open>luaL_loadstring\<close> push the chunk, or the message of the error.\<close>

definition luaL_load :: "int \<times> lval \<Rightarrow> int M" where
  "luaL_load r = thenM (push (snd r)) (retM (fst r))"

text \<open>\<^verbatim>\<open>luaL_dostring\<close>: all results stay on the stack; it is true when there was an error.\<close>

definition luaL_dostring :: "host \<Rightarrow> string \<Rightarrow> bool M" where
  "luaL_dostring H code =
     bindM (luaL_load (loadstring H code)) (\<lambda>r.
     if r \<noteq> 0 then retM True
     else (\<lambda>E s.
       let base = butlast (stk s); f = last (stk s); s1 = s\<lparr>stk := [], calls := (f, []) # calls s\<rparr>
       in case (if lua_tag f = TFUNCTION then ucall E f [] s1
                else (Inl (LuaErr (LStr ''attempt to call a value'')), s1)) of
            (Inr rs, s2) \<Rightarrow> (Inr False, s2\<lparr>stk := base @ rs\<rparr>)
          | (Inl (LuaErr e), s2) \<Rightarrow> (Inr True, s2\<lparr>stk := base @ [e]\<rparr>)
          | (Inl (Crash c), s2) \<Rightarrow> (Inl (Crash c), s2\<lparr>stk := base\<rparr>)))"

definition uv_loop_close :: "lval option \<Rightarrow> unit M" where
  "uv_loop_close loop = (case loop of
      Some (LUData u) \<Rightarrow> bindM (uv ''uv_loop_close'' [AObj u]) (\<lambda>_. retM ())
    | _ \<Rightarrow> crash Null_deref)"

definition lua_close :: "unit P" where
  "lua_close = modM (\<lambda>p. p\<lparr>nclosed := Suc (nclosed p)\<rparr>)"

definition ExitEngine :: "host \<Rightarrow> unit P" where
  "ExitEngine H = bindM (getM g_Lua) (\<lambda>L.
     if L = None then retM ()
     else seqM
       [bindM (on_lua (luaL_dostring H ''lengine.stop()'')) (\<lambda>_. retM ()),
        on_lua (bindM luv_loop uv_loop_close),
        lua_close,
        modM (\<lambda>p. p\<lparr>g_Lua := None\<rparr>)])"

text \<open>The result of \<^verbatim>\<open>lua_pcall\<close> is not looked at.\<close>

definition ExecFile :: "host \<Rightarrow> string \<Rightarrow> int P" where
  "ExecFile H file = on_lua
     (thenM (lua_pushcfunction ''luv_stackdump'')
     (bindM lua_gettop (\<lambda>iErrFunc.
     bindM (luaL_load (loadfile H file)) (\<lambda>iRet.
     if iRet \<noteq> 0 then retM iRet
     else bindM (lua_pcall 0 0 (int iErrFunc)) (\<lambda>_. retM 0)))))"

datatype ctrl_type = CTRL_C_EVENT | CTRL_BREAK_EVENT | CTRL_CLOSE_EVENT | CTRL_LOGOFF_EVENT
  | CTRL_SHUTDOWN_EVENT | CTRL_OTHER

text \<open>The Windows console handler; it always returns \<^verbatim>\<open>FALSE\<close>.\<close>

definition CtrlHandler :: "host \<Rightarrow> ctrl_type \<Rightarrow> bool P" where
  "CtrlHandler H fdwCtrlType =
     (if fdwCtrlType = CTRL_OTHER then retM False else thenM (ExitEngine H) (retM False))"

subsection \<open>The libraries\<close>

definition luaL_getsubtable_reg :: "string \<Rightarrow> unit M" where
  "luaL_getsubtable_reg k = bindM (getM (\<lambda>s. regs s k)) (\<lambda>v. case v of
      LTab t \<Rightarrow> push v
    | _ \<Rightarrow> thenM lua_newtable (thenM (lua_pushvalue (-1)) (reg_setfield k)))"

text \<open>\<^verbatim>\<open>lua_call(L, 1, 1)\<close> of an opening function: it runs on a stack of its own.\<close>

definition call_open :: "nat M \<Rightarrow> string \<Rightarrow> unit M" where
  "call_open openf modname = (\<lambda>E s. case capi openf [LStr modname] E s of
      (Inl e, s') \<Rightarrow> (Inl e, s')
    | (Inr rs, s') \<Rightarrow> (Inr (), s'\<lparr>stk := stk s @ adjust_results 1 rs\<rparr>))"

definition luaL_requiref :: "string \<Rightarrow> nat M \<Rightarrow> unit M" where
  "luaL_requiref modname openf = seqM
     [luaL_getsubtable_reg ''_LOADED'',
      lua_getfield (-1) modname,
      bindM (lua_toboolean (-1)) (\<lambda>loaded. whenM (\<not> loaded) (seqM
        [lua_pop 1, call_open openf modname, lua_pushvalue (-1), lua_setfield (-3) modname])),
      lua_remove (-2),
      lua_pushvalue (-1),
      lua_setglobal modname]"

definition engine_libs :: "(string \<times> nat M) list" where
  "engine_libs = [(''uv'', luaopen_luv), (''miniz'', luaopen_miniz), (''engine'', luaopen_engine)]"

definition open_lib :: "string \<times> nat M \<Rightarrow> unit M" where
  "open_lib lib = thenM (luaL_requiref (fst lib) (snd lib)) (lua_pop 1)"

definition lua_getglobal :: "string \<Rightarrow> unit M" where
  "lua_getglobal k = bindM (getM (\<lambda>s. tget (tabs s 0) (LStr k))) push"

text \<open>\<^verbatim>\<open>lua_settable\<close> on a table without metamethods; anything else is a Lua error.\<close>

definition lua_settable :: "int \<Rightarrow> unit M" where
  "lua_settable i = bindM (index_tab i) (\<lambda>t. bindM pop_val (\<lambda>v. bindM pop_val
     (\<lambda>k. modM (\<lambda>s. s\<lparr>tabs := (tabs s)(t := tset (tabs s t) k v)\<rparr>))))"

text \<open>\<^verbatim>\<open>argv\<close> ends with a NULL pointer after its \<^verbatim>\<open>argc\<close> strings.\<close>

definition argv_at :: "string list \<Rightarrow> nat \<Rightarrow> string option M" where
  "argv_at argv i = (if i < length argv then retM (Some (argv ! i))
     else if i = length argv then retM None else crash Bad_index)"

definition exearg :: "string list \<Rightarrow> nat \<Rightarrow> unit M" where
  "exearg argv i = seqM
     [lua_pushinteger (int i), bindM (argv_at argv (i + 1)) lua_pushstring, lua_settable (-3)]"

definition set_exeargs :: "string list \<Rightarrow> unit M" where
  "set_exeargs argv = seqM
     [lua_getglobal ''engine'',
      lua_pushstring (Some ''exeargs''),
      lua_newtable,
      seqM (map (exearg argv) [1..<length argv]),
      lua_settable (-3),
      lua_pop 1]"

subsection \<open>main\<close>

definition xcore_main :: "host \<Rightarrow> string list \<Rightarrow> int P" where
  "xcore_main H argv =
     thenM (modM (\<lambda>p. p\<lparr>g_Lua := (if newstate_ok H then Some init_state else None)\<rparr>))
     (bindM (getM g_Lua) (\<lambda>L.
     if L = None then
       thenM (modM (\<lambda>p. p\<lparr>stderr_lines := (''luaL_newstate has failed'' @ nl) # stderr_lines p\<rparr>)) (retM 1)
     else
       thenM (on_lua (modM (openlibs H)))
       (thenM (on_lua (bindM luv_init (\<lambda>_. retM ())))
       (thenM (on_lua (seqM (map open_lib engine_libs)))
       (bindM (ExecFile H ''base/preload.lua'') (\<lambda>iRet.
       if iRet \<noteq> 0 then retM iRet
       else bindM
         (if 1 < length argv then
            thenM (whenM (2 < length argv) (on_lua (set_exeargs argv))) (ExecFile H (argv ! 1))
          else bindM (on_lua (luaL_dostring H (''require('' @ [CHR 0x27] @ ''base/repl'' @ [CHR 0x27] @ '').run()'')))
            (\<lambda>_. retM 0)) (\<lambda>iRet.
       if iRet \<noteq> 0 then retM iRet
       else bindM (on_lua luv_loop) (\<lambda>loop.
         thenM (on_lua (bindM (uv_run 0) (\<lambda>_. retM ())))
         (thenM (ExitEngine H) (retM 1))))))))))"

subsection \<open>What the process reports and closes\<close>

lemma then_modM: "thenM (modM f) k E s = k E (f s)"
  by (simp add: run_thenM run_modM)

lemma bind_getM: "bindM (getM f) k E s = k (f s) E s"
  by (simp add: run_bindM run_getM)

lemma on_lua_InrD:
  assumes "on_lua m E p = (Inr x, p')"
  obtains s s' where "g_Lua p = Some s" "m E s = (Inr x, s')" "p' = p\<lparr>g_Lua := Some s'\<rparr>"
  using assms by (auto simp: on_lua_def split: option.splits prod.splits)

lemma on_lua_frame: "on_lua m E p = (Inr x, p') \<Longrightarrow> nclosed p' = nclosed p \<and> g_Lua p' \<noteq> None"
  by (auto elim: on_lua_InrD)

lemma ExecFile_frame: "ExecFile H f E p = (Inr r, p') \<Longrightarrow> nclosed p' = nclosed p \<and> g_Lua p' \<noteq> None"
  unfolding ExecFile_def by (rule on_lua_frame)

lemma ExecFile_status:
  assumes "ExecFile H f E p = (Inr r, p')"
  shows "r = fst (loadfile H f)"
  using assms unfolding ExecFile_def
  by (elim on_lua_InrD thenM_InrD bindM_InrD)
    (auto simp: luaL_load_def run_thenM run_push run_retM run_bindM split: if_splits prod.splits sum.splits)

lemma ExecFile_returns:
  "ExecFile H f E p = (Inr r, p') \<Longrightarrow> r = fst (loadfile H f) \<and> nclosed p' = nclosed p \<and> g_Lua p' \<noteq> None"
  using ExecFile_status ExecFile_frame by blast

lemma ExitEngine_closes:
  assumes "ExitEngine H E p = (Inr (), p')"
  shows "g_Lua p' = None" "nclosed p' = (if g_Lua p = None then nclosed p else Suc (nclosed p))"
proof -
  have "g_Lua p' = None \<and> nclosed p' = (if g_Lua p = None then nclosed p else Suc (nclosed p))"
  proof (cases "g_Lua p")
    case None
    with assms show ?thesis
      by (auto simp: ExitEngine_def run_bindM run_getM run_retM)
  next
    case (Some s)
    let ?stop = "bindM (on_lua (luaL_dostring H ''lengine.stop()'')) (\<lambda>_. retM ())"
    let ?loop = "on_lua (bindM luv_loop uv_loop_close)"
    have "thenM ?stop (thenM ?loop (thenM lua_close (thenM (modM (\<lambda>p. p\<lparr>g_Lua := None\<rparr>)) (retM ())))) E p = (Inr (), p')"
      using assms Some by (simp add: ExitEngine_def run_bindM run_getM)
    then obtain p1 p2 where p: "?stop E p = (Inr (), p1)" "?loop E p1 = (Inr (), p2)"
      "p' = p2\<lparr>nclosed := Suc (nclosed p2), g_Lua := None\<rparr>"
      by (elim thenM_InrD) (auto simp: lua_close_def run_modM run_retM run_thenM)
    have "nclosed p1 = nclosed p"
      using p(1) by (elim bindM_InrD) (auto simp: run_retM dest: on_lua_frame)
    with p(2,3) Some show ?thesis by (auto dest: on_lua_frame)
  qed
  then show "g_Lua p' = None" "nclosed p' = (if g_Lua p = None then nclosed p else Suc (nclosed p))"
    by simp_all
qed

text \<open>The exit status, and whether the engine reaches its regular end.\<close>

definition main_ends :: "host \<Rightarrow> string list \<Rightarrow> bool" where
  "main_ends H argv \<longleftrightarrow> newstate_ok H \<and> fst (loadfile H ''base/preload.lua'') = 0
     \<and> (1 < length argv \<longrightarrow> fst (loadfile H (argv ! 1)) = 0)"

definition main_status :: "host \<Rightarrow> string list \<Rightarrow> int" where
  "main_status H argv = (if \<not> newstate_ok H then 1
     else if fst (loadfile H ''base/preload.lua'') \<noteq> 0 then fst (loadfile H ''base/preload.lua'')
     else if 1 < length argv \<and> fst (loadfile H (argv ! 1)) \<noteq> 0 then fst (loadfile H (argv ! 1))
     else 1)"

text \<open>
  C31. The exit status of the engine depends only on whether the scripts compile: it is the
  status of \<^verbatim>\<open>luaL_loadfile\<close> for the first one that does not, and 1 otherwise.  It is never 0,
  also after a regular end, and errors the scripts raise do not show in it.  The Lua state
  is closed, once, exactly when the engine reaches its regular end.
\<close>

theorem main_exit_status:
  assumes "xcore_main H argv E p = (Inr code, p')"
  shows "code = main_status H argv \<and> code \<noteq> 0
    \<and> nclosed p' = nclosed p + (if main_ends H argv then 1 else 0)
    \<and> (g_Lua p' = None \<longleftrightarrow> \<not> newstate_ok H \<or> main_ends H argv)"
proof (cases "newstate_ok H")
  case False
  with assms show ?thesis
    by (auto simp: xcore_main_def run_thenM run_bindM run_modM run_getM run_retM main_status_def main_ends_def)
next
  case True
  define script where "script = (if 1 < length argv
      then thenM (whenM (2 < length argv) (on_lua (set_exeargs argv))) (ExecFile H (argv ! 1))
      else bindM (on_lua (luaL_dostring H (''require('' @ [CHR 0x27] @ ''base/repl'' @ [CHR 0x27] @ '').run()'')))
        (\<lambda>_. retM 0))"
  define finish :: "int P" where "finish = bindM (on_lua luv_loop) (\<lambda>loop.
      thenM (on_lua (bindM (uv_run 0) (\<lambda>_. retM ()))) (thenM (ExitEngine H) (retM 1)))"
  let ?p0 = "p\<lparr>g_Lua := Some init_state\<rparr>"
  have "thenM (on_lua (modM (openlibs H))) (thenM (on_lua (bindM luv_init (\<lambda>_. retM ())))
      (thenM (on_lua (seqM (map open_lib engine_libs)))
      (bindM (ExecFile H ''base/preload.lua'') (\<lambda>r. if r \<noteq> 0 then retM r
        else bindM script (\<lambda>r. if r \<noteq> 0 then retM r else finish))))) E ?p0 = (Inr code, p')"
    using assms [unfolded xcore_main_def, folded script_def finish_def] True by (simp add: then_modM bind_getM)
  then obtain p3 r4 p4 where p3: "nclosed p3 = nclosed p"
    and p4: "ExecFile H ''base/preload.lua'' E p3 = (Inr r4, p4)"
      "(if r4 \<noteq> 0 then retM r4 else bindM script (\<lambda>r. if r \<noteq> 0 then retM r else finish)) E p4 = (Inr code, p')"
    by (elim thenM_InrD bindM_InrD) (auto dest!: on_lua_frame)
  have r4: "r4 = fst (loadfile H ''base/preload.lua'')" "nclosed p4 = nclosed p" "g_Lua p4 \<noteq> None"
    using ExecFile_status [OF p4(1)] ExecFile_frame [OF p4(1)] p3 by auto
  show ?thesis
  proof (cases "r4 = 0")
    case False
    with p4(2) r4 True show ?thesis by (auto simp: run_retM main_status_def main_ends_def)
  next
    case r40: True
    with p4(2) obtain r5 p5 where p5: "script E p4 = (Inr r5, p5)"
      "(if r5 \<noteq> 0 then retM r5 else finish) E p5 = (Inr code, p')"
      by (auto elim: bindM_InrD)
    have r5: "r5 = (if 1 < length argv then fst (loadfile H (argv ! 1)) else 0)" "nclosed p5 = nclosed p"
      "g_Lua p5 \<noteq> None"
      using p5(1) r4(2) unfolding script_def
      by (auto split: if_splits elim!: thenM_InrD bindM_InrD simp: run_whenM run_retM
          dest!: on_lua_frame ExecFile_returns)
    show ?thesis
    proof (cases "r5 = 0")
      case False
      with p5(2) r5 r4(1) r40 True show ?thesis
        by (auto simp: run_retM main_status_def main_ends_def split: if_splits)
    next
      case r50: True
      with p5(2) have "finish E p5 = (Inr code, p')" by simp
      then obtain p6 p7 where "nclosed p6 = nclosed p5" "g_Lua p6 \<noteq> None" "ExitEngine H E p6 = (Inr (), p7)"
        "code = 1" "p' = p7"
        unfolding finish_def
        by (elim bindM_InrD thenM_InrD) (auto simp: run_retM dest!: on_lua_frame)
      with ExitEngine_closes [of H E p6 p7] r5 r4(1) r40 r50 True show ?thesis
        by (auto simp: main_status_def main_ends_def split: if_splits)
    qed
  qed
qed

text \<open>A host whose scripts compile to functions, on which everything returns at once.\<close>

definition quiet_host :: host where
  "quiet_host = \<lparr>newstate_ok = True, openlibs = id, loadfile = (\<lambda>f. (0, LFun 1)),
     loadstring = (\<lambda>c. (0, LFun 2))\<rparr>"

definition new_process :: process where
  "new_process = \<lparr>g_Lua = None, nclosed = 0, stderr_lines = []\<rparr>"

end
