(* ===== verification/Xcore_Start.thy ===== *)
theory Xcore_Start
  imports Xcore_Main
begin

text \<open>
  The start of the engine: what the opening functions of the three libraries leave in the
  Lua state, and the table of program arguments.
\<close>

subsection \<open>The opening functions\<close>

lemma setfield_at:
  assumes "stk s = base @ [LTab t, v]" "b = base @ [LTab t]" "T = (tabs s)(t := tset (tabs s t) (LStr k) v)"
  shows "lua_setfield (-2) k E s = (Inr (), s\<lparr>stk := b, tabs := T\<rparr>)"
  using run_lua_setfield [OF assms(1)] assms(2,3) by simp

lemma capi_luaopen_engine:
  "capi luaopen_engine [v] E s = (Inr [LTab (ntab s)], s\<lparr>tabs := (tabs s)(ntab s := []), ntab := Suc (ntab s)\<rparr>)"
  by (rule capi_ok [where n = 1 and base = "[v]"
      and s' = "s\<lparr>stk := [v, LTab (ntab s)], tabs := (tabs s)(ntab s := []), ntab := Suc (ntab s)\<rparr>"])
    (auto simp: luaopen_engine_def luasem intro!: lstate_eqI)

definition uv_table :: "nat \<Rightarrow> ltable" where
  "uv_table t = tset (put_funcs function_names []) (LStr ''constants'') (LTab (Suc t))"

text \<open>\<^verbatim>\<open>luaopen_luv\<close> first makes its argument, the name of the module, the global \<^verbatim>\<open>uv\<close>.\<close>

lemma capi_luaopen_luv:
  assumes "0 < ntab s"
  shows "capi luaopen_luv [v] E s = (Inr [LTab (ntab s)], s\<lparr>ntab := ntab s + 2,
     tabs := (tabs s)(0 := tset (tabs s 0) (LStr ''uv'') v, ntab s := uv_table (ntab s),
       Suc (ntab s) := put_consts E constant_names [])\<rparr>)"
proof -
  let ?t = "ntab s" and ?F = "put_funcs function_names []" and ?C = "put_consts E constant_names []"
  define S where "S = (\<lambda>k x T. s\<lparr>ntab := k, stk := x, tabs := T\<rparr>)"
  have S: "stk (S k x T) = x" "tabs (S k x T) = T" "ntab (S k x T) = k" "(S k x T)\<lparr>stk := y, tabs := U\<rparr> = S k y U"
    "(S k x T)\<lparr>tabs := U\<rparr> = S k x U" for k x y T U
    unfolding S_def by (auto intro!: lstate_eqI)
  define T0 where "T0 = (tabs s)(0 := tset (tabs s 0) (LStr ''uv'') v)"
  have 1: "lua_setglobal ''uv'' E (s\<lparr>stk := [v]\<rparr>) = (Inr (), S ?t [] T0)"
    by (auto simp: lua_setglobal_def luasem S_def T0_def intro!: lstate_eqI)
  have 2: "luaL_newlib function_names E (S ?t [] T0) = (Inr (), S (Suc ?t) [LTab ?t] (T0(?t := ?F)))"
    by (auto simp: run_luaL_newlib S_def intro!: lstate_eqI)
  have n: "lua_newtable E (S (Suc ?t) [LTab ?t] U) = (Inr (), S (?t + 2) [LTab ?t, LTab (Suc ?t)] (U(Suc ?t := [])))" for U
    by (auto simp: run_lua_newtable S_def intro!: lstate_eqI)
  have c: "seqM (map push_const constant_names) E (S (?t + 2) [LTab ?t, LTab (Suc ?t)] U) =
      (Inr (), S (?t + 2) [LTab ?t, LTab (Suc ?t)] (U(Suc ?t := put_consts E constant_names (U (Suc ?t)))))" for U
    using run_push_consts [of "S (?t + 2) [LTab ?t, LTab (Suc ?t)] U" "[LTab ?t]" "Suc ?t" constant_names E]
    by (simp add: S)
  have 3: "luv_constants E (S (Suc ?t) [LTab ?t] U) = (Inr 1, S (?t + 2) [LTab ?t, LTab (Suc ?t)] (U(Suc ?t := ?C)))" for U
    unfolding luv_constants_def
    by (simp only: run_thenM n c run_retM sum.case prod.case fun_upd_same fun_upd_upd)
  have 4: "lua_setfield (-2) ''constants'' E (S (?t + 2) [LTab ?t, LTab (Suc ?t)] (T0(?t := ?F, Suc ?t := ?C))) =
      (Inr (), S (?t + 2) [LTab ?t] (T0(?t := uv_table ?t, Suc ?t := ?C)))"
  proof -
    have "T0(?t := uv_table ?t, Suc ?t := ?C) = (T0(?t := ?F, Suc ?t := ?C))(?t :=
        tset ((T0(?t := ?F, Suc ?t := ?C)) ?t) (LStr ''constants'') (LTab (Suc ?t)))"
      by (rule ext) (simp add: uv_table_def)
    then show ?thesis
      using setfield_at [of "S (?t + 2) [LTab ?t, LTab (Suc ?t)] (T0(?t := ?F, Suc ?t := ?C))" "[]" ?t "LTab (Suc ?t)"]
      by (simp only: S append.simps)
  qed
  have "luaopen_luv E (s\<lparr>stk := [v]\<rparr>) = (Inr 1, S (?t + 2) [LTab ?t] (T0(?t := uv_table ?t, Suc ?t := ?C)))"
    unfolding luaopen_luv_def by (simp only: run_thenM run_bindM run_retM 1 2 3 4 sum.case prod.case)
  then show ?thesis
    by (rule capi_ok [where base = "[]"]) (auto simp: S_def T0_def intro!: lstate_eqI)
qed

text \<open>A metatable with its methods in the next table, as \<^verbatim>\<open>luaopen_miniz\<close> makes them.\<close>

definition miniz_meta :: "string \<Rightarrow> string \<Rightarrow> nat \<Rightarrow> ltable" where
  "miniz_meta name gc ix = tset (tset (tset [] (LStr ''__name'') (LStr name)) (LStr ''__index'') (LTab ix))
     (LStr ''__gc'') (LCFun gc)"

lemma run_miniz_class:
  assumes "regs s name = LNil" "stk s = base"
  shows "thenM (luaL_newmetatable name) (thenM (luaL_newlib fs) (thenM (lua_setfield (-2) ''__index'')
     (thenM (lua_pushcfunction gc) (thenM (lua_setfield (-2) ''__gc'') (thenM (lua_pop 1) k))))) E s =
    k E (s\<lparr>ntab := ntab s + 2, regs := (regs s)(name := LTab (ntab s)),
      tabs := (tabs s)(ntab s := miniz_meta name gc (Suc (ntab s)), Suc (ntab s) := put_funcs fs [])\<rparr>)"
proof -
  let ?t = "ntab s" and ?b = "base @ [LTab (ntab s)]" and ?F = "put_funcs fs []"
  define S where "S = (\<lambda>k x T. s\<lparr>ntab := k, regs := (regs s)(name := LTab (ntab s)), stk := x, tabs := T\<rparr>)"
  have S: "stk (S k x T) = x" "tabs (S k x T) = T" "(S k x T)\<lparr>stk := y, tabs := U\<rparr> = S k y U"
    "(S k x T)\<lparr>stk := y\<rparr> = S k y T" "(S k x T)\<lparr>tabs := U\<rparr> = S k x U" for k x y T U
    unfolding S_def by (auto intro!: lstate_eqI)
  define M where "M = tset [] (LStr ''__name'') (LStr name)"
  define M2 where "M2 = tset M (LStr ''__index'') (LTab (Suc ?t))"
  define T where "T = (\<lambda>m. (tabs s)(?t := m, Suc ?t := ?F))"
  have T: "T m ?t = m" "T (tset m k v) = (T m)(?t := tset (T m ?t) k v)" for m k v
    unfolding T_def by (simp_all add: fun_eq_iff)
  have 1: "luaL_newmetatable name E s = (Inr (), S (Suc ?t) ?b ((tabs s)(?t := M)))"
    using run_luaL_newmetatable [OF assms(1), of E] assms(2) by (auto simp: S_def M_def intro!: lstate_eqI)
  have 2: "luaL_newlib fs E (S (Suc ?t) ?b ((tabs s)(?t := M))) = (Inr (), S (?t + 2) (?b @ [LTab (Suc ?t)]) (T M))"
    by (auto simp: run_luaL_newlib S_def T_def intro!: lstate_eqI)
  have 3: "lua_setfield (-2) k E (S n (?b @ [v]) (T m)) = (Inr (), S n ?b (T (tset m (LStr k) v)))" for k n m v
    by (subst setfield_at [of "S n (?b @ [v]) (T m)" base ?t v ?b "T (tset m (LStr k) v)"]) (simp_all only: S T append_assoc append.simps)
  have 4: "lua_pushcfunction f E (S n x U) = (Inr (), S n (x @ [LCFun f]) U)" for f n x U
    by (simp add: run_push S)
  have 5: "lua_pop 1 E (S n ?b U) = (Inr (), S n base U)" for n U
    by (simp add: run_lua_pop S)
  have e: "S (?t + 2) base (T (tset M2 (LStr ''__gc'') (LCFun gc))) = s\<lparr>ntab := ?t + 2,
      regs := (regs s)(name := LTab ?t), tabs := (tabs s)(?t := miniz_meta name gc (Suc ?t), Suc ?t := ?F)\<rparr>"
    using assms(2) by (auto simp: S_def T_def M_def M2_def miniz_meta_def intro!: lstate_eqI)
  show ?thesis
    unfolding e [symmetric] by (simp only: run_thenM 1 2 3 4 5 M2_def sum.case prod.case)
qed

text \<open>The tables \<^verbatim>\<open>luaopen_miniz\<close> makes: two metatables with their methods, then the library.\<close>

definition miniz_tabs :: "nat \<Rightarrow> (nat \<Rightarrow> ltable) \<Rightarrow> (nat \<Rightarrow> ltable)" where
  "miniz_tabs t T = T(t := miniz_meta ''miniz_reader'' ''lmz_reader_gc'' (Suc t), Suc t := put_funcs lminiz_read_m [],
     t + 2 := miniz_meta ''miniz_writer'' ''lmz_writer_gc'' (t + 3), t + 3 := put_funcs lminiz_write_m [],
     t + 4 := put_funcs lminiz_f [])"

lemma capi_luaopen_miniz:
  assumes "regs s ''miniz_reader'' = LNil" "regs s ''miniz_writer'' = LNil"
  shows "capi luaopen_miniz [v] E s = (Inr [LTab (ntab s + 4)], s\<lparr>ntab := ntab s + 5,
     regs := (regs s)(''miniz_reader'' := LTab (ntab s), ''miniz_writer'' := LTab (ntab s + 2)),
     tabs := miniz_tabs (ntab s) (tabs s)\<rparr>)"
proof -
  let ?t = "ntab s"
  let ?T1 = "(tabs s)(?t := miniz_meta ''miniz_reader'' ''lmz_reader_gc'' (Suc ?t), Suc ?t := put_funcs lminiz_read_m [])"
  let ?s1 = "s\<lparr>stk := [v], ntab := ?t + 2, regs := (regs s)(''miniz_reader'' := LTab ?t), tabs := ?T1\<rparr>"
  let ?s2 = "?s1\<lparr>ntab := ?t + 2 + 2, regs := (regs s)(''miniz_reader'' := LTab ?t, ''miniz_writer'' := LTab (?t + 2)),
      tabs := ?T1(?t + 2 := miniz_meta ''miniz_writer'' ''lmz_writer_gc'' (Suc (?t + 2)),
        Suc (?t + 2) := put_funcs lminiz_write_m [])\<rparr>"
  have "luaopen_miniz E (s\<lparr>stk := [v]\<rparr>) = thenM (luaL_newlib lminiz_f) (thenM (retM ()) (retM 1)) E ?s2"
    unfolding luaopen_miniz_def seqM.simps thenM_assoc
    by (subst run_miniz_class [where base = "[v]"], use assms in simp, simp,
        subst run_miniz_class [where base = "[v]"]) (use assms in \<open>simp_all add: run_thenM run_retM\<close>)
  also have "\<dots> = (Inr 1, s\<lparr>stk := [v, LTab (?t + 4)], ntab := ?t + 5,
     regs := (regs s)(''miniz_reader'' := LTab ?t, ''miniz_writer'' := LTab (?t + 2)), tabs := miniz_tabs ?t (tabs s)\<rparr>)"
    by (auto simp: run_thenM run_luaL_newlib run_retM miniz_tabs_def numeral_eq_Suc intro!: lstate_eqI)
  finally show ?thesis
    by (rule capi_ok [where base = "[v]"]) (auto intro!: lstate_eqI)
qed

subsection \<open>Requiring a library\<close>

text \<open>What \<^verbatim>\<open>luaL_requiref\<close> adds: the module in the table of loaded modules and as a global.\<close>

definition add_module :: "nat \<Rightarrow> string \<Rightarrow> lval \<Rightarrow> (nat \<Rightarrow> ltable) \<Rightarrow> (nat \<Rightarrow> ltable)" where
  "add_module l n v T = (let T1 = T(l := tset (T l) (LStr n) v) in T1(0 := tset (T1 0) (LStr n) v))"

lemma run_open_lib:
  assumes "regs s ''_LOADED'' = LTab l" "tget (tabs s l) (LStr n) = LNil"
    and "\<And>x. capi openf [LStr n] E (s\<lparr>stk := x\<rparr>) = (Inr [v], s2\<lparr>stk := x\<rparr>)"
  shows "open_lib (n, openf) E s = (Inr (), s2\<lparr>stk := stk s, tabs := add_module l n v (tabs s2)\<rparr>)"
proof -
  let ?b = "stk s"
  define S where "S = (\<lambda>x T. s2\<lparr>stk := x, tabs := T\<rparr>)"
  have S: "stk (S x T) = x" "tabs (S x T) = T" "(S x T)\<lparr>stk := y, tabs := U\<rparr> = S y U"
    "(S x T)\<lparr>stk := y\<rparr> = S y T" "(S x T)\<lparr>tabs := U\<rparr> = S x U" for x y T U
    unfolding S_def by (auto intro!: lstate_eqI)
  let ?T1 = "(tabs s2)(l := tset (tabs s2 l) (LStr n) v)"
  have 1: "luaL_getsubtable_reg ''_LOADED'' E s = (Inr (), s\<lparr>stk := ?b @ [LTab l]\<rparr>)"
    using assms(1) by (simp add: luaL_getsubtable_reg_def luasem)
  have 2: "lua_getfield (-1) n E (s\<lparr>stk := ?b @ [LTab l]\<rparr>) = (Inr (), s\<lparr>stk := ?b @ [LTab l, LNil]\<rparr>)"
    using run_lua_getfield [of "s\<lparr>stk := ?b @ [LTab l]\<rparr>" ?b l n E] assms(2) by simp
  have 3: "call_open openf n E (s\<lparr>stk := ?b @ [LTab l]\<rparr>) = (Inr (), S (?b @ [LTab l, v]) (tabs s2))"
    by (simp add: call_open_def assms(3) adjust_results_def S_def)
  have top: "index2addr (-1) E t = (Inr (Some w), t)" if "stk t = xs @ [w]" for t :: lstate and xs w
    by (rule run_index2addr_top [OF that])
  have loaded: "lua_toboolean (-1) E (s\<lparr>stk := ?b @ [LTab l, LNil]\<rparr>) = (Inr False, s\<lparr>stk := ?b @ [LTab l, LNil]\<rparr>)"
    by (simp add: lua_toboolean_def run_bindM top [of _ "?b @ [LTab l]"] run_retM)
  have 4: "lua_pushvalue (-1) E (S (xs @ [w]) T) = (Inr (), S (xs @ [w, w]) T)" for xs w T
    by (simp add: lua_pushvalue_def run_bindM top [of _ xs] S run_push)
  have "index2addr (-3) E (S (?b @ [LTab l, v, v]) (tabs s2)) = (Inr (Some (LTab l)), S (?b @ [LTab l, v, v]) (tabs s2))"
    by (rule run_index2addr_neg [of _ ?b _ "[v, v]"]) (simp_all add: S)
  then have 5: "lua_setfield (-3) n E (S (?b @ [LTab l, v, v]) (tabs s2)) = (Inr (), S (?b @ [LTab l, v]) ?T1)"
    by (simp add: lua_setfield_def index_tab_def run_bindM run_retM run_pop_val run_modM S butlast_append)
  have 6: "lua_remove (-2) E (S (?b @ [LTab l, v]) T) = (Inr (), S (?b @ [v]) T)" for T
    by (subst run_lua_remove [of _ ?b "LTab l" "[v]"]) (simp_all add: S)
  have 7: "lua_setglobal n E (S (?b @ [v, v]) ?T1) = (Inr (), S (?b @ [v]) (add_module l n v (tabs s2)))"
    by (simp add: lua_setglobal_def run_bindM run_pop_val run_modM S butlast_append add_module_def Let_def)
  have 8: "lua_pop 1 E (S (?b @ [v]) T) = (Inr (), S ?b T)" for T by (simp add: run_lua_pop S)
  have 9: "lua_pop 1 E (s\<lparr>stk := ?b @ [LTab l, LNil]\<rparr>) = (Inr (), s\<lparr>stk := ?b @ [LTab l]\<rparr>)" by (simp add: run_lua_pop)
  have req: "luaL_requiref n openf E s = (Inr (), S (?b @ [v]) (add_module l n v (tabs s2)))"
    using 4 [of "?b @ [LTab l]" v] 4 [of ?b v] 5 6 7 9
    by (simp add: luaL_requiref_def run_thenM run_bindM run_whenM 1 2 3 loaded run_retM)
  show ?thesis
    unfolding open_lib_def using req 8 by (simp add: run_thenM S_def)
qed

lemma tget_put_funcs_all:
  "tget (put_funcs fs T) (LStr n) = (case map_of (rev fs) n of None \<Rightarrow> tget T (LStr n) | Some c \<Rightarrow> LCFun c)"
proof (induction fs arbitrary: T)
  case (Cons f fs)
  then show ?case by (cases f) (auto simp: map_add_def split: option.split)
qed simp

definition exported_entry :: "(string \<times> string) list \<Rightarrow> string \<Rightarrow> lval" where
  "exported_entry fs n = (case map_of (rev fs) n of None \<Rightarrow> LNil | Some c \<Rightarrow> LCFun c)"

lemma run_engine_libs:
  assumes "regs s ''_LOADED'' = LTab l" "l < ntab s" "0 < ntab s"
    and "\<And>n. n \<in> {''uv'', ''miniz'', ''engine''} \<Longrightarrow> tget (tabs s l) (LStr n) = LNil"
    and "regs s ''miniz_reader'' = LNil" "regs s ''miniz_writer'' = LNil" "l \<noteq> 0"
  shows "\<exists>s' u m e. seqM (map open_lib engine_libs) E s = (Inr (), s') \<and> stk s' = stk s
    \<and> tget (tabs s' 0) (LStr ''uv'') = LTab u \<and> tget (tabs s' 0) (LStr ''miniz'') = LTab m
    \<and> tget (tabs s' 0) (LStr ''engine'') = LTab e
    \<and> tget (tabs s' u) (LStr ''constants'') = LTab (Suc u)
    \<and> (\<forall>n. n \<noteq> ''constants'' \<longrightarrow> tget (tabs s' u) (LStr n) = exported_entry function_names n)
    \<and> (\<forall>n. tget (tabs s' m) (LStr n) = exported_entry lminiz_f n)
    \<and> tabs s' e = []"
proof -
  let ?t = "ntab s"
  let ?s1 = "s\<lparr>ntab := ?t + 2, tabs := (tabs s)(0 := tset (tabs s 0) (LStr ''uv'') (LStr ''uv''), ?t := uv_table ?t,
       Suc ?t := put_consts E constant_names [])\<rparr>"
  let ?A1 = "add_module l ''uv'' (LTab ?t) (tabs ?s1)"
  let ?p1 = "?s1\<lparr>stk := stk s, tabs := ?A1\<rparr>"
  have 1: "open_lib (''uv'', luaopen_luv) E s = (Inr (), ?p1)"
    by (rule run_open_lib) (use assms in \<open>auto simp: capi_luaopen_luv intro!: lstate_eqI\<close>)
  have A1: "?A1 l = tset (tabs s l) (LStr ''uv'') (LTab ?t)" "?A1 ?t = uv_table ?t"
    "?A1 0 = tset (tset (tabs s 0) (LStr ''uv'') (LStr ''uv'')) (LStr ''uv'') (LTab ?t)"
    using assms by (simp_all add: add_module_def Let_def)
  let ?s2 = "?p1\<lparr>ntab := ?t + 7, regs := (regs s)(''miniz_reader'' := LTab (?t + 2), ''miniz_writer'' := LTab (?t + 4)),
      tabs := miniz_tabs (?t + 2) ?A1\<rparr>"
  let ?A2 = "add_module l ''miniz'' (LTab (?t + 6)) (miniz_tabs (?t + 2) ?A1)"
  let ?p2 = "?s2\<lparr>stk := stk s, tabs := ?A2\<rparr>"
  have c2: "capi luaopen_miniz [LStr ''miniz''] E (?p1\<lparr>stk := x\<rparr>) = (Inr [LTab (?t + 6)], ?s2\<lparr>stk := x\<rparr>)" for x
    using capi_luaopen_miniz [of "?p1\<lparr>stk := x\<rparr>" "LStr ''miniz''" E] assms(5,6)
    by (auto simp: numeral_eq_Suc intro!: lstate_eqI)
  have 2: "open_lib (''miniz'', luaopen_miniz) E ?p1 = (Inr (), ?p2)"
    using run_open_lib [of ?p1 l "''miniz''", OF _ _ c2] assms(1,4) A1(1) by simp
  have A2: "?A2 l = tset (?A1 l) (LStr ''miniz'') (LTab (?t + 6))" "?A2 ?t = uv_table ?t"
    "?A2 0 = tset (?A1 0) (LStr ''miniz'') (LTab (?t + 6))" "?A2 (?t + 6) = put_funcs lminiz_f []"
    using assms A1 by (simp_all add: add_module_def miniz_tabs_def Let_def)
  let ?s3 = "?p2\<lparr>ntab := ?t + 8, tabs := ?A2(?t + 7 := [])\<rparr>"
  let ?A3 = "add_module l ''engine'' (LTab (?t + 7)) (?A2(?t + 7 := []))"
  have c3: "capi luaopen_engine [LStr ''engine''] E (?p2\<lparr>stk := x\<rparr>) = (Inr [LTab (?t + 7)], ?s3\<lparr>stk := x\<rparr>)" for x
    by (auto simp: capi_luaopen_engine numeral_eq_Suc intro!: lstate_eqI)
  have 3: "open_lib (''engine'', luaopen_engine) E ?p2 = (Inr (), ?s3\<lparr>stk := stk s, tabs := ?A3\<rparr>)"
    using run_open_lib [of ?p2 l "''engine''", OF _ _ c3] assms(1,4) A1(1) A2(1) by simp
  have A3: "?A3 ?t = uv_table ?t" "?A3 0 = tset (?A2 0) (LStr ''engine'') (LTab (?t + 7))" "?A3 (?t + 6) = ?A2 (?t + 6)"
    "?A3 (?t + 7) = []"
    using assms A2 by (simp_all add: add_module_def Let_def)
  have uv: "tget (uv_table ?t) (LStr n) = (if n = ''constants'' then LTab (Suc ?t) else exported_entry function_names n)"
    "tget (put_funcs lminiz_f []) (LStr n) = exported_entry lminiz_f n" for n
    by (simp_all add: uv_table_def tget_put_funcs_all exported_entry_def split: option.split)
  have run: "seqM (map open_lib engine_libs) E s = (Inr (), ?s3\<lparr>stk := stk s, tabs := ?A3\<rparr>)"
    unfolding engine_libs_def by (simp only: list.map seqM.simps run_thenM 1 2 3 run_retM sum.case prod.case)
  define p3 where "p3 = ?s3\<lparr>stk := stk s, tabs := ?A3\<rparr>"
  define T where "T = ?A3"
  have p3: "tabs p3 = T" "stk p3 = stk s" by (simp_all add: p3_def T_def)
  have T: "T ?t = uv_table ?t" "T (?t + 6) = put_funcs lminiz_f []" "T (?t + 7) = []"
    "tget (T 0) (LStr ''uv'') = LTab ?t" "tget (T 0) (LStr ''miniz'') = LTab (?t + 6)"
    "tget (T 0) (LStr ''engine'') = LTab (?t + 7)"
    unfolding T_def A3 A2 A1 by simp_all
  show ?thesis
    by (rule exI [of _ p3], rule exI [of _ ?t], rule exI [of _ "?t + 6"], rule exI [of _ "?t + 7"])
      (simp add: run [folded p3_def] p3 T uv)
qed

text \<open>
  C32. The start of the engine makes the three libraries global, each as the table its
  opening function returns: \<^verbatim>\<open>uv\<close> has exactly the exported functions under their names, and the
  table of constants, \<^verbatim>\<open>miniz\<close> has exactly its four functions, \<^verbatim>\<open>engine\<close> is an empty table; the metatables of
  the ZIP readers and writers have their methods; and the Lua stack is as before.
\<close>

theorem engine_libraries:
  assumes "regs s ''_LOADED'' = LTab l" "l < ntab s" "0 < ntab s"
    and "\<And>n. n \<in> {''uv'', ''miniz'', ''engine''} \<Longrightarrow> tget (tabs s l) (LStr n) = LNil"
    and "regs s ''miniz_reader'' = LNil" "regs s ''miniz_writer'' = LNil" "l \<noteq> 0"
  shows "\<exists>s' u m e. seqM (map open_lib engine_libs) E s = (Inr (), s') \<and> stk s' = stk s
    \<and> tget (tabs s' 0) (LStr ''uv'') = LTab u \<and> tget (tabs s' 0) (LStr ''miniz'') = LTab m
    \<and> tget (tabs s' 0) (LStr ''engine'') = LTab e
    \<and> tget (tabs s' u) (LStr ''constants'') = LTab (Suc u)
    \<and> (\<forall>n. n \<noteq> ''constants'' \<longrightarrow> tget (tabs s' u) (LStr n) = exported_entry function_names n)
    \<and> (\<forall>n. tget (tabs s' m) (LStr n) = exported_entry lminiz_f n)
    \<and> tabs s' e = []"
  by (rule run_engine_libs [OF assms])

theorem engine_libraries_witness:
  "\<exists>s' m. seqM (map open_lib engine_libs) quiet_env
      (luv_state0\<lparr>regs := (regs luv_state0)(''_LOADED'' := LTab 36), ntab := 37,
         tabs := (tabs luv_state0)(36 := [])\<rparr>) = (Inr (), s')
    \<and> tget (tabs s' 0) (LStr ''miniz'') = LTab m \<and> tget (tabs s' m) (LStr ''inflate'') = LCFun ''ltinfl''"
proof -
  let ?s = "luv_state0\<lparr>regs := (regs luv_state0)(''_LOADED'' := LTab 36), ntab := 37, tabs := (tabs luv_state0)(36 := [])\<rparr>"
  have "regs luv_state0 ''miniz_reader'' = LNil" "regs luv_state0 ''miniz_writer'' = LNil"
    by (simp_all add: luv_state0_def init_regs_def types_regs_other type_methods_def)
  then have h: "regs ?s ''_LOADED'' = LTab 36" "36 < ntab ?s" "0 < ntab ?s" "regs ?s ''miniz_reader'' = LNil"
    "regs ?s ''miniz_writer'' = LNil" "(36::nat) \<noteq> 0" "\<And>n. tget (tabs ?s 36) (LStr n) = LNil"
    by simp_all
  have e: "exported_entry lminiz_f ''inflate'' = LCFun ''ltinfl''" by (simp add: exported_entry_def lminiz_f_def)
  obtain s' m where "seqM (map open_lib engine_libs) quiet_env ?s = (Inr (), s')"
    "tget (tabs s' 0) (LStr ''miniz'') = LTab m" "\<forall>n. tget (tabs s' m) (LStr n) = exported_entry lminiz_f n"
    using engine_libraries [OF h(1-3) h(7) h(4-6), of quiet_env] by blast
  with e show ?thesis by auto
qed

text \<open>Without a table of loaded modules the first \<^verbatim>\<open>luaL_requiref\<close> makes one.\<close>

lemma open_lib_first:
  assumes "regs s ''_LOADED'' = LNil"
  shows "open_lib lib E s = open_lib lib E (s\<lparr>regs := (regs s)(''_LOADED'' := LTab (ntab s)), ntab := Suc (ntab s),
     tabs := (tabs s)(ntab s := [])\<rparr>)" (is "_ = open_lib lib E ?s")
proof -
  let ?t = "?s\<lparr>stk := stk s @ [LTab (ntab s)]\<rparr>"
  have top: "index2addr (-1) E u = (Inr (Some (LTab (ntab s))), u)" if "stk u = stk s @ [LTab (ntab s)]" for u :: lstate
    by (rule run_index2addr_top [OF that])
  have "luaL_getsubtable_reg ''_LOADED'' E s = (Inr (), ?t)"
    using assms by (auto simp: luaL_getsubtable_reg_def run_bindM run_thenM run_getM run_lua_newtable lua_pushvalue_def top
        run_push reg_setfield_def run_pop_val run_modM butlast_append intro!: lstate_eqI)
  moreover have "luaL_getsubtable_reg ''_LOADED'' E ?s = (Inr (), ?t)"
    by (auto simp: luaL_getsubtable_reg_def run_bindM run_getM run_push intro!: lstate_eqI)
  ultimately show ?thesis
    by (simp add: open_lib_def luaL_requiref_def run_thenM)
qed

theorem main_exit_status_witness:
  "\<exists>p'. xcore_main (quiet_host\<lparr>loadfile := (\<lambda>f. (3, LStr ''syntax error''))\<rparr>) [''xcore''] quiet_env new_process = (Inr 3, p')
    \<and> nclosed p' = 0 \<and> g_Lua p' \<noteq> None"
proof -
  let ?H = "quiet_host\<lparr>loadfile := (\<lambda>f. (3, LStr ''syntax error''))\<rparr>"
  let ?s = "luv_state0\<lparr>regs := (regs luv_state0)(''_LOADED'' := LTab 36), ntab := 37, tabs := (tabs luv_state0)(36 := [])\<rparr>"
  have n: "regs luv_state0 ''miniz_reader'' = LNil" "regs luv_state0 ''miniz_writer'' = LNil"
    "regs luv_state0 ''_LOADED'' = LNil" "ntab luv_state0 = 36"
    by (simp_all add: luv_state0_def init_regs_def types_regs_other type_methods_def)
  then have h: "regs ?s ''_LOADED'' = LTab 36" "36 < ntab ?s" "0 < ntab ?s" "regs ?s ''miniz_reader'' = LNil"
    "regs ?s ''miniz_writer'' = LNil" "(36::nat) \<noteq> 0" "\<And>n. tget (tabs ?s 36) (LStr n) = LNil"
    by simp_all
  have "\<exists>s'. seqM (map open_lib engine_libs) quiet_env ?s = (Inr (), s')"
    using run_engine_libs [OF h(1-3) h(7) h(4-6), of quiet_env] by blast
  then obtain s' where "seqM (map open_lib engine_libs) quiet_env luv_state0 = (Inr (), s')"
    unfolding engine_libs_def by (auto simp: run_thenM open_lib_first [OF n(3)] n(4))
  then have "\<exists>p'. xcore_main ?H [''xcore''] quiet_env new_process = (Inr 3, p')"
    by (simp add: xcore_main_def quiet_host_def run_thenM run_bindM run_modM run_getM on_lua_def run_luv_init run_retM
        ExecFile_def luaL_load_def run_push lua_gettop_def new_process_def)
  then obtain p' where p': "xcore_main ?H [''xcore''] quiet_env new_process = (Inr 3, p')" by blast
  from main_exit_status [OF p'] p' show ?thesis
    by (auto simp: main_ends_def quiet_host_def new_process_def)
qed

subsection \<open>The program arguments\<close>

definition exearg_entry :: "string list \<Rightarrow> nat \<Rightarrow> lval" where
  "exearg_entry argv i = (if Suc i < length argv then LStr (cstr (argv ! Suc i)) else LNil)"

lemma run_exeargs:
  assumes "length argv < 2 ^ 31"
  shows "stk s = base @ [LTab x] \<Longrightarrow> (\<And>i. i \<in> set is \<Longrightarrow> i < length argv) \<Longrightarrow>
    \<exists>T. seqM (map (exearg argv) is) E s = (Inr (), s\<lparr>tabs := (tabs s)(x := T)\<rparr>)
      \<and> (\<forall>k. tget T (LInt k) = (if k \<in> int ` set is then exearg_entry argv (nat k) else tget (tabs s x) (LInt k)))"
proof (induction "is" arbitrary: s)
  case Nil
  then show ?case by (intro exI [of _ "tabs s x"]) (simp add: run_retM)
next
  case (Cons i "is")
  let ?v = "exearg_entry argv i"
  let ?s = "s\<lparr>tabs := (tabs s)(x := tset (tabs s x) (LInt (int i)) ?v)\<rparr>"
  have i: "i < length argv" using Cons.prems by simp
  then have c: "c_int64 (int i) = int i" using assms by (intro wrap_s_id) auto
  have tab: "index2addr (-3) E u = (Inr (Some (LTab x)), u)" if "stk u = base @ [LTab x, k, v]" for u :: lstate and k v
    by (rule run_index2addr_neg [of _ base _ "[k, v]"]) (simp_all add: that)
  have "argv_at argv (i + 1) E u = (Inr (if Suc i < length argv then Some (argv ! Suc i) else None), u)" for u
    using i by (simp add: argv_at_def run_retM)
  then have step: "exearg argv i E s = (Inr (), ?s)"
    using Cons.prems(1) c
    by (auto simp: exearg_def run_thenM run_bindM run_push run_lua_pushstring lua_settable_def index_tab_def tab
        run_retM run_pop_val run_modM butlast_append exearg_entry_def intro!: lstate_eqI)
  have "\<exists>T. seqM (map (exearg argv) is) E ?s = (Inr (), ?s\<lparr>tabs := (tabs ?s)(x := T)\<rparr>)
      \<and> (\<forall>k. tget T (LInt k) = (if k \<in> int ` set is then exearg_entry argv (nat k) else tget (tabs ?s x) (LInt k)))"
    by (rule Cons.IH) (use Cons.prems in simp_all)
  then obtain T where T: "seqM (map (exearg argv) is) E ?s = (Inr (), ?s\<lparr>tabs := (tabs ?s)(x := T)\<rparr>)"
    "\<forall>k. tget T (LInt k) = (if k \<in> int ` set is then exearg_entry argv (nat k) else tget (tabs ?s x) (LInt k))"
    by blast
  from T(1) have "seqM (map (exearg argv) (i # is)) E s = (Inr (), s\<lparr>tabs := (tabs s)(x := T)\<rparr>)"
    by (simp add: run_thenM step)
  then show ?case by (rule exI [of _ T, OF conjI]) (use T(2) in auto)
qed

text \<open>
  The program arguments: \<^verbatim>\<open>engine.exeargs\<close> becomes a new table whose entry \<open>i\<close> is the \<open>i\<close>-th
  argument after the script, and nothing else; the loop also reads the NULL that ends
  \<^verbatim>\<open>argv\<close>, never a place behind it.
\<close>

lemma exeargs_table:
  assumes "tget (tabs s 0) (LStr ''engine'') = LTab e" "e < ntab s" "length argv < 2 ^ 31"
  shows "\<exists>s'. set_exeargs argv E s = (Inr (), s') \<and> stk s' = stk s
    \<and> tget (tabs s' e) (LStr ''exeargs'') = LTab (ntab s)
    \<and> (\<forall>k. tget (tabs s' (ntab s)) (LInt k) =
        (if 1 \<le> k \<and> k < int (length argv) - 1 then LStr (cstr (argv ! nat (k + 1))) else LNil))"
proof -
  let ?x = "ntab s" and ?b = "stk s @ [LTab e, LStr ''exeargs'']"
  have n: "cstr ''exeargs'' = ''exeargs''" by code_simp
  let ?s1 = "s\<lparr>tabs := (tabs s)(?x := []), ntab := Suc ?x, stk := ?b @ [LTab ?x]\<rparr>"
  have "\<exists>T. seqM (map (exearg argv) [1..<length argv]) E ?s1 = (Inr (), ?s1\<lparr>tabs := (tabs ?s1)(?x := T)\<rparr>)
      \<and> (\<forall>k. tget T (LInt k) = (if k \<in> int ` set [1..<length argv] then exearg_entry argv (nat k)
            else tget (tabs ?s1 ?x) (LInt k)))"
    by (rule run_exeargs [OF assms(3)]) simp_all
  then obtain T where T: "seqM (map (exearg argv) [1..<length argv]) E ?s1 = (Inr (), ?s1\<lparr>tabs := (tabs ?s1)(?x := T)\<rparr>)"
    "\<forall>k. tget T (LInt k) = (if k \<in> int ` set [1..<length argv] then exearg_entry argv (nat k) else LNil)"
    by auto
  let ?s2 = "s\<lparr>ntab := Suc ?x, stk := ?b @ [LTab ?x], tabs := (tabs s)(?x := T)\<rparr>"
  let ?s3 = "s\<lparr>ntab := Suc ?x, stk := stk s, tabs := (tabs s)(?x := T, e := tset (tabs s e) (LStr ''exeargs'') (LTab ?x))\<rparr>"
  have e2: "?s1\<lparr>tabs := (tabs ?s1)(?x := T)\<rparr> = ?s2" by (auto intro!: lstate_eqI)
  have tab: "index2addr (-3) E ?s2 = (Inr (Some (LTab e)), ?s2)"
    by (rule run_index2addr_neg [of _ "stk s" _ "[LStr ''exeargs'', LTab ?x]"]) simp_all
  have start: "thenM (lua_getglobal ''engine'') (thenM (lua_pushstring (Some ''exeargs'')) (thenM lua_newtable k)) E s = k E ?s1"
    for k :: "unit M"
    using assms(1) n by (simp add: lua_getglobal_def run_thenM run_bindM run_getM run_push run_lua_pushstring run_lua_newtable)
  have fin: "thenM (lua_settable (-3)) (thenM (lua_pop 1) (retM ())) E ?s2 = (Inr (), ?s3)"
    using tab assms(2) by (auto simp: lua_settable_def index_tab_def run_thenM run_bindM run_pop_val run_modM run_lua_pop run_retM
        butlast_append intro!: lstate_eqI)
  have "set_exeargs argv E s = (Inr (), ?s3)"
    unfolding set_exeargs_def seqM.simps start using T(1) fin e2 by (subst then_step) simp_all
  moreover have "(if k \<in> int ` set [1..<length argv] then exearg_entry argv (nat k) else LNil) =
      (if 1 \<le> k \<and> k < int (length argv) - 1 then LStr (cstr (argv ! nat (k + 1))) else LNil)" for k
    by (cases "0 \<le> k") (auto simp: exearg_entry_def image_iff nat_add_distrib elim!: nonneg_int_cases)
  ultimately show ?thesis using T(2) assms(2) by (intro exI [of _ ?s3]) auto
qed

lemma exeargs_table_witness:
  "\<exists>s'. set_exeargs [''xcore'', ''main.lua'', ''-p'', ''80''] quiet_env
      (luv_state0\<lparr>tabs := (tabs luv_state0)(0 := [(LStr ''engine'', LTab 35)])\<rparr>) = (Inr (), s')
    \<and> tget (tabs s' 36) (LInt 1) = LStr ''-p'' \<and> tget (tabs s' 36) (LInt 2) = LStr ''80''
    \<and> tget (tabs s' 36) (LInt 3) = LNil"
proof -
  let ?s = "luv_state0\<lparr>tabs := (tabs luv_state0)(0 := [(LStr ''engine'', LTab 35)])\<rparr>"
  let ?argv = "[''xcore'', ''main.lua'', ''-p'', ''80'']"
  have h: "tget (tabs ?s 0) (LStr ''engine'') = LTab 35" "35 < ntab ?s" "length ?argv < 2 ^ 31" and n: "ntab ?s = 36"
    by (simp_all add: tget_def luv_state0_def)
  obtain s' where s': "set_exeargs ?argv quiet_env ?s = (Inr (), s')"
    "\<forall>k. tget (tabs s' (ntab ?s)) (LInt k) = (if 1 \<le> k \<and> k < int (length ?argv) - 1 then LStr (cstr (?argv ! nat (k + 1))) else LNil)"
    using exeargs_table [OF h, of quiet_env] by blast
  have "cstr ''-p'' = ''-p''" "cstr ''80'' = ''80''" by code_simp+
  with s' n show ?thesis by (intro exI [of _ s']) simp
qed

end
