(* ===== verification/Xcore_Exit.thy ===== *)
theory Xcore_Exit
  imports Xcore_Main
begin

text \<open>
  How the engine ends: \<^verbatim>\<open>ExitEngine\<close> of \<^verbatim>\<open>xcore/src/main.c\<close> called again, and the two threads in
  which it can run.  On Windows the console handler \<^verbatim>\<open>CtrlHandler\<close> runs in a thread of its own,
  next to \<^verbatim>\<open>main\<close>; nothing orders its steps with those of the main thread.
\<close>

text \<open>
  \<^verbatim>\<open>ExitEngine\<close> closes the Lua state once: after a call the global pointer is NULL, and
  any later call, directly or from the console handler, does nothing.
\<close>

lemma exit_idempotent:
  assumes "ExitEngine H E p = (Inr (), p')"
  shows "nclosed p' = nclosed p + (if g_Lua p = None then 0 else 1)
    \<and> ExitEngine H E p' = (Inr (), p') \<and> CtrlHandler H ev E p' = (Inr False, p')"
proof -
  have "ExitEngine H E p' = (Inr (), p')"
    using ExitEngine_closes(1) [OF assms] by (simp add: ExitEngine_def run_bindM run_getM run_retM)
  then show ?thesis
    using ExitEngine_closes(2) [OF assms] by (simp add: CtrlHandler_def run_thenM run_retM)
qed

subsection \<open>Two threads\<close>

text \<open>Where a thread is in \<^verbatim>\<open>ExitEngine\<close>: before the statement it executes next.\<close>

datatype exit_pc = At_test | At_stop | At_loop_close | At_close | At_clear | Returned

text \<open>
  What the threads share: whether \<^verbatim>\<open>g_Lua\<close> is not NULL, how often the state was closed, and
  whether a NULL or closed state was used.
\<close>

record shared =
  ptr :: bool
  closes :: nat
  misused :: bool

definition use_lua :: "shared \<Rightarrow> shared" where
  "use_lua sh = sh\<lparr>misused := misused sh \<or> \<not> ptr sh \<or> 0 < closes sh\<rparr>"

text \<open>One statement of \<^verbatim>\<open>ExitEngine\<close>; every one of them reads \<^verbatim>\<open>g_Lua\<close> again.\<close>

fun exit_stmt :: "exit_pc \<Rightarrow> shared \<Rightarrow> exit_pc \<times> shared" where
  "exit_stmt At_test sh = (if ptr sh then At_stop else Returned, sh)"
| "exit_stmt At_stop sh = (At_loop_close, use_lua sh)"
| "exit_stmt At_loop_close sh = (At_close, use_lua sh)"
| "exit_stmt At_close sh = (At_clear, (use_lua sh)\<lparr>closes := Suc (closes sh)\<rparr>)"
| "exit_stmt At_clear sh = (Returned, sh\<lparr>ptr := False\<rparr>)"
| "exit_stmt Returned sh = (Returned, sh)"

inductive exit_reach :: "exit_pc \<Rightarrow> exit_pc \<Rightarrow> shared \<Rightarrow> bool" where
  start: "exit_reach At_test At_test \<lparr>ptr = True, closes = 0, misused = False\<rparr>"
| in_main: "exit_reach a b sh \<Longrightarrow> exit_reach (fst (exit_stmt a sh)) b (snd (exit_stmt a sh))"
| in_handler: "exit_reach a b sh \<Longrightarrow> exit_reach a (fst (exit_stmt b sh)) (snd (exit_stmt b sh))"

definition past_close :: "exit_pc \<Rightarrow> bool" where
  "past_close pc \<longleftrightarrow> pc = At_clear \<or> pc = Returned"

text \<open>Closes are bounded by the threads past \<^verbatim>\<open>lua_close\<close>; two of them, or a lost pointer, need a misuse.\<close>

definition exit_inv :: "exit_pc \<Rightarrow> exit_pc \<Rightarrow> shared \<Rightarrow> bool" where
  "exit_inv a b sh \<longleftrightarrow> closes sh \<le> (if past_close a then 1 else 0) + (if past_close b then 1 else 0)
     \<and> (\<not> misused sh \<longrightarrow> closes sh \<le> 1 \<and> (\<not> ptr sh \<longrightarrow> closes sh = 1)
          \<and> (a = At_clear \<longrightarrow> closes sh = 1) \<and> (b = At_clear \<longrightarrow> closes sh = 1)
          \<and> (a = Returned \<or> b = Returned \<longrightarrow> \<not> ptr sh))"

lemma exit_inv_main: "exit_inv a b sh \<Longrightarrow> exit_inv (fst (exit_stmt a sh)) b (snd (exit_stmt a sh))"
  by (cases a; cases b) (auto simp: exit_inv_def past_close_def use_lua_def)

lemma exit_inv_sym: "exit_inv a b sh = exit_inv b a sh"
  by (auto simp: exit_inv_def)

lemma exit_inv: "exit_reach a b sh \<Longrightarrow> exit_inv a b sh"
proof (induction rule: exit_reach.induct)
  case start
  show ?case by (simp add: exit_inv_def past_close_def)
next
  case (in_main a b sh)
  from in_main.IH show ?case by (rule exit_inv_main)
next
  case (in_handler a b sh)
  from in_handler.IH show ?case using exit_inv_main exit_inv_sym by blast
qed

text \<open>
  C33. The shutdown has a race.  In every interleaving of the main thread and the console
  handler the state is closed at most twice, and more than once only after a NULL or closed
  state was used; there is an interleaving, the handler starting before the main thread has
  cleared \<^verbatim>\<open>g_Lua\<close>, in which \<^verbatim>\<open>lua_close\<close> runs twice on the same state; and there is one, without
  overlap, that closes it once and misuses nothing.
\<close>

theorem exit_race:
  "(\<forall>a b sh. exit_reach a b sh \<longrightarrow> closes sh \<le> 2 \<and> (1 < closes sh \<longrightarrow> misused sh))
    \<and> exit_reach Returned Returned \<lparr>ptr = False, closes = 2, misused = True\<rparr>
    \<and> exit_reach Returned Returned \<lparr>ptr = False, closes = 1, misused = False\<rparr>"
proof (intro conjI)
  show "\<forall>a b sh. exit_reach a b sh \<longrightarrow> closes sh \<le> 2 \<and> (1 < closes sh \<longrightarrow> misused sh)"
  proof (intro allI impI)
    fix a b sh
    assume "exit_reach a b sh"
    from exit_inv [OF this] show "closes sh \<le> 2 \<and> (1 < closes sh \<longrightarrow> misused sh)"
      unfolding exit_inv_def by (cases "past_close a"; cases "past_close b") (simp_all, linarith+)
  qed
  have m: "exit_reach a' b sh'" if "exit_reach a b sh" "exit_stmt a sh = (a', sh')" for a b sh a' sh'
    using in_main [OF that(1)] that(2) by simp
  have h: "exit_reach a b' sh'" if "exit_reach a b sh" "exit_stmt b sh = (b', sh')" for a b sh b' sh'
    using in_handler [OF that(1)] that(2) by simp
  let ?s = "\<lambda>p c d. \<lparr>ptr = p, closes = c, misused = d\<rparr>"
  have 1: "exit_reach At_clear At_test (?s True 1 False)"
  proof -
    have "exit_reach At_stop At_test (?s True 0 False)" by (rule m [OF start]) simp
    then have "exit_reach At_loop_close At_test (?s True 0 False)" by (rule m) (simp add: use_lua_def)
    then have "exit_reach At_close At_test (?s True 0 False)" by (rule m) (simp add: use_lua_def)
    then show ?thesis by (rule m) (simp add: use_lua_def)
  qed
  then have "exit_reach At_clear At_stop (?s True 1 False)" by (rule h) simp
  then have "exit_reach At_clear At_loop_close (?s True 1 True)" by (rule h) (simp add: use_lua_def)
  then have "exit_reach At_clear At_close (?s True 1 True)" by (rule h) (simp add: use_lua_def)
  then have "exit_reach At_clear At_clear (?s True 2 True)" by (rule h) (simp add: use_lua_def)
  then have "exit_reach Returned At_clear (?s False 2 True)" by (rule m) simp
  then show "exit_reach Returned Returned (?s False 2 True)" by (rule h) simp
  have "exit_reach Returned At_test (?s False 1 False)" by (rule m [OF 1]) simp
  then show "exit_reach Returned Returned (?s False 1 False)" by (rule h) simp
qed

theorem exit_race_witness:
  "exit_reach Returned Returned \<lparr>ptr = False, closes = 2, misused = True\<rparr>
    \<and> closes \<lparr>ptr = False, closes = 2, misused = True\<rparr> \<le> 2"
  using exit_race by blast

end
