(* ===== verification/Miniz_Mem.thy ===== *)
theory Miniz_Mem
  imports Prelude
begin

text \<open>
  Memory as \<^verbatim>\<open>xcore/src/miniz.c\<close> reads and writes it: a block is the list of its elements, and an access
  outside it is \<open>None\<close>.  A number of several bytes is read at any address, the lowest byte first.
\<close>

unbundle bit_operations_syntax

type_synonym bytes = "8 word list"

definition at :: "'a list \<Rightarrow> nat \<Rightarrow> 'a option" where
  "at a i = (if i < length a then Some (a ! i) else None)"

lemma at_Some [simp]: "i < length a \<Longrightarrow> at a i = Some (a ! i)"
  by (simp add: at_def)

text \<open>Writing an element; an index may have been computed in \<^verbatim>\<open>int\<close>.\<close>

definition put :: "'a list \<Rightarrow> nat \<Rightarrow> 'a \<Rightarrow> 'a list option" where
  "put a i x = (if i < length a then Some (a[i := x]) else None)"

definition at_int :: "'a list \<Rightarrow> int \<Rightarrow> 'a option" where
  "at_int a i = (if i < 0 then None else at a (nat i))"

definition put_int :: "'a list \<Rightarrow> int \<Rightarrow> 'a \<Rightarrow> 'a list option" where
  "put_int a i x = (if i < 0 then None else put a (nat i) x)"

text \<open>\<^verbatim>\<open>memcpy\<close> and \<^verbatim>\<open>memset\<close> into a block: \<open>xs\<close> from place \<open>i\<close> on.\<close>

definition put_list :: "'a list \<Rightarrow> nat \<Rightarrow> 'a list \<Rightarrow> 'a list option" where
  "put_list a i xs = (if i + length xs \<le> length a then Some (take i a @ xs @ drop (i + length xs) a) else None)"

definition MZ_READ_LE16 :: "(nat \<Rightarrow> 8 word option) \<Rightarrow> nat \<Rightarrow> 32 word option" where
  "MZ_READ_LE16 f p = Option.bind (f p) (\<lambda>b0. Option.bind (f (p + 1)) (\<lambda>b1.
     Some (ucast b0 OR push_bit 8 (ucast b1))))"

definition MZ_READ_LE32 :: "(nat \<Rightarrow> 8 word option) \<Rightarrow> nat \<Rightarrow> 32 word option" where
  "MZ_READ_LE32 f p = Option.bind (f p) (\<lambda>b0. Option.bind (f (p + 1)) (\<lambda>b1.
     Option.bind (f (p + 2)) (\<lambda>b2. Option.bind (f (p + 3)) (\<lambda>b3.
     Some (ucast b0 OR push_bit 8 (ucast b1) OR push_bit 16 (ucast b2) OR push_bit 24 (ucast b3))))))"

definition memcpy_from :: "(nat \<Rightarrow> 8 word option) \<Rightarrow> nat \<Rightarrow> nat \<Rightarrow> bytes option" where
  "memcpy_from f p n = those (map f [p..<p + n])"

end
