(* ===== verification/Miniz_Checksum.thy ===== *)
theory Miniz_Checksum
  imports Miniz_Mem
begin

text \<open>
  The checksums of \<^verbatim>\<open>xcore/src/miniz.c\<close>: Adler-32 with its delayed reductions and CRC-32 with
  Karl Malbrain's table of sixteen entries, against the definitions of RFC 1950 and of the
  reflected polynomial \<^verbatim>\<open>0xEDB88320\<close>.  A \<^verbatim>\<open>NULL\<close> buffer is \<open>None\<close>; \<^verbatim>\<open>mz_ulong\<close> is C's
  \<^verbatim>\<open>unsigned long\<close>, whose width is a type parameter.
\<close>

unbundle bit_operations_syntax

subsection \<open>Adler-32\<close>

definition adler_step :: "8 word \<Rightarrow> 32 word \<times> 32 word \<Rightarrow> 32 word \<times> 32 word" where
  "adler_step b = (\<lambda>(s1, s2). let s1 = s1 + ucast b in (s1, s2 + s1))"

text \<open>The two inner loops: eight bytes a turn while eight are left, then one byte a turn.\<close>

fun adler_block :: "bytes \<Rightarrow> 32 word \<times> 32 word \<Rightarrow> 32 word \<times> 32 word" where
  "adler_block (b0 # b1 # b2 # b3 # b4 # b5 # b6 # b7 # bs) s =
     adler_block bs (adler_step b7 (adler_step b6 (adler_step b5 (adler_step b4
       (adler_step b3 (adler_step b2 (adler_step b1 (adler_step b0 s))))))))"
| "adler_block (b # bs) s = adler_block bs (adler_step b s)"
| "adler_block [] s = s"

text \<open>The loop \<^verbatim>\<open>while (buf_len)\<close>: the first block has \<^verbatim>\<open>buf_len % 5552\<close> bytes, the others 5552.\<close>

function adler_blocks :: "nat \<Rightarrow> bytes \<Rightarrow> 32 word \<times> 32 word \<Rightarrow> 32 word \<times> 32 word" where
  "adler_blocks block_len bs s = (if bs = [] then s else
     (case adler_block (take block_len bs) s of (s1, s2) \<Rightarrow>
        adler_blocks 5552 (drop block_len bs) (s1 mod 65521, s2 mod 65521)))"
  by auto
termination
  by (relation "measure (\<lambda>(k, bs, s). 2 * length bs + (if k = 0 then 1 else 0))") auto

declare adler_blocks.simps [simp del]

definition mz_adler32 :: "'l::len word \<Rightarrow> bytes option \<Rightarrow> 'l word" where
  "mz_adler32 adler ptr = (case ptr of None \<Rightarrow> 1 | Some buf \<Rightarrow>
     (case adler_blocks (length buf mod 5552) buf
             (ucast (adler AND 0xFFFF), ucast (drop_bit 16 adler)) of
        (s1, s2) \<Rightarrow> ucast (push_bit 16 s2 + s1)))"

text \<open>RFC 1950: both sums are taken modulo 65521 after every byte.\<close>

definition adler_ref :: "bytes \<Rightarrow> nat \<times> nat \<Rightarrow> nat \<times> nat" where
  "adler_ref = fold (\<lambda>b (a, c). ((a + unat b) mod 65521, (c + a + unat b) mod 65521))"

lemma adler_block_fold: "adler_block bs s = fold adler_step bs s"
  by (induction bs s rule: adler_block.induct) simp_all

text \<open>
  What a block adds, in unbounded numbers.  After \<open>n\<close> bytes from \<open>(a, c)\<close> the sums are at most
  \<open>a + 255 n\<close> and \<open>c + n a + 255 n (n + 1) / 2\<close>.
\<close>

definition adler_nat :: "bytes \<Rightarrow> nat \<times> nat \<Rightarrow> nat \<times> nat" where
  "adler_nat = fold (\<lambda>b (a, c). (a + unat b, c + a + unat b))"

lemma adler_nat_simps [simp]:
  "adler_nat [] s = s"
  "adler_nat (b # bs) (a, c) = adler_nat bs (a + unat b, c + a + unat b)"
  by (simp_all add: adler_nat_def)

lemma adler_ref_simps [simp]:
  "adler_ref [] s = s"
  "adler_ref (b # bs) (a, c) = adler_ref bs ((a + unat b) mod 65521, (c + a + unat b) mod 65521)"
  by (simp_all add: adler_ref_def)

lemma adler_ref_append: "adler_ref (xs @ ys) s = adler_ref ys (adler_ref xs s)"
  by (simp add: adler_ref_def)

lemma unat_byte_le: "unat (b :: 8 word) \<le> 255"
  using unsigned_less [of b] by (simp add: word_less_nat_alt flip: less_Suc_eq_le)

lemma unat_ucast_byte [simp]: "unat (ucast (b :: 8 word) :: 32 word) = unat b"
  using unat_byte_le [of b] by (simp add: unsigned_ucast_eq take_bit_nat_eq_self)

lemma adler_nat_bound:
  "adler_nat bs (a, c) = (a', c') \<Longrightarrow>
     a' \<le> a + 255 * length bs \<and>
     2 * c' \<le> 2 * c + 2 * length bs * a + 255 * (length bs * (length bs + 1))"
proof (induction bs arbitrary: a c)
  case (Cons b bs)
  let ?n = "length bs"
  have IH: "a' \<le> a + unat b + 255 * ?n"
    "2 * c' \<le> 2 * (c + a + unat b) + 2 * ?n * (a + unat b) + 255 * (?n * (?n + 1))"
    using Cons.IH [of "a + unat b" "c + a + unat b"] Cons.prems by simp_all
  have "?n * unat b \<le> ?n * 255" by (rule mult_le_mono2 [OF unat_byte_le])
  moreover have "2 * ?n * (a + unat b) = 2 * (?n * a) + 2 * (?n * unat b)"
    by (simp add: distrib_left)
  moreover have "x \<le> 2 * c + (2 * p + 2 * a) + (255 * s + 510 * n + 510)"
    if "q \<le> n * 255" "r = 2 * p + 2 * q" "x \<le> 2 * (c + a + u) + r + 255 * s" "u \<le> 255"
    for p q r s x n u :: nat using that by presburger
  ultimately have "2 * c' \<le> 2 * c + (2 * (?n * a) + 2 * a) + (255 * (?n * (?n + 1)) + 510 * ?n + 510)"
    using IH(2) unat_byte_le by blast
  then show ?case using IH(1) unat_byte_le [of b] by (simp add: algebra_simps)
qed simp

text \<open>The running sums only grow, so a bound on the last one bounds them all.\<close>

lemma adler_nat_mono: "adler_nat bs (a, c) = (a', c') \<Longrightarrow> a \<le> a' \<and> c \<le> c'"
  by (induction bs arbitrary: a c) fastforce+

lemma adler_steps_nat:
  assumes "adler_nat bs (unat s1, unat s2) = (a, c)" "a < 2 ^ 32" "c < 2 ^ 32"
  shows "fold adler_step bs (s1, s2) = (of_nat a, of_nat c)"
  using assms(1)
proof (induction bs arbitrary: s1 s2)
  case (Cons b bs)
  have n: "adler_nat bs (unat s1 + unat b, unat s2 + unat s1 + unat b) = (a, c)"
    using Cons.prems by simp
  from adler_nat_mono [OF n] assms(2,3)
  have lt: "unat s1 + unat b < 2 ^ 32" "unat s2 + unat s1 + unat b < 2 ^ 32" by auto
  have u1: "unat (s1 + ucast b :: 32 word) = unat s1 + unat b"
    using lt(1) by (subst unat_add_lem [THEN iffD1]) simp_all
  have u2: "unat (s2 + (s1 + ucast b) :: 32 word) = unat s2 + unat s1 + unat b"
    using lt(2) u1 by (subst unat_add_lem [THEN iffD1]) simp_all
  show ?case using Cons.IH [of "s1 + ucast b" "s2 + (s1 + ucast b)"] n
    by (simp add: adler_step_def Let_def u1 u2)
qed auto

definition adler_red :: "nat \<times> nat \<Rightarrow> nat \<times> nat" where
  "adler_red = (\<lambda>(a, c). (a mod 65521, c mod 65521))"

lemma adler_red_step:
  "((a mod 65521 + u) mod 65521, (c mod 65521 + a mod 65521 + u) mod 65521) = adler_red (a + u, c + a + u)"
proof -
  have "(c mod 65521 + a mod 65521 + u) mod 65521 = (c + a + u) mod 65521"
    by (intro mod_add_cong) simp_all
  then show ?thesis by (simp add: adler_red_def mod_add_left_eq)
qed

lemma adler_nat_ref: "adler_ref bs (adler_red s) = adler_red (adler_nat bs s)"
proof (induction bs arbitrary: s)
  case (Cons b bs)
  obtain a c where "s = (a, c)" by (cases s)
  moreover have "adler_ref (b # bs) (adler_red (a, c)) = adler_ref bs (adler_red (a + unat b, c + a + unat b))"
    by (simp only: adler_red_def case_prod_conv adler_ref_simps adler_red_step [unfolded adler_red_def case_prod_conv])
  ultimately show ?case using Cons by simp
qed simp

lemma adler_ref_red: "bs \<noteq> [] \<Longrightarrow> adler_ref bs (adler_red s) = adler_ref bs s"
proof (cases bs)
  case (Cons b cs)
  obtain a c where "s = (a, c)" by (cases s)
  then show ?thesis using Cons adler_red_step [of a "unat b" c]
    by (simp add: adler_red_def)
qed simp

lemma adler_ref_lt:
  assumes "bs \<noteq> []" "adler_ref bs s = (a, c)"
  shows "a < 65521 \<and> c < 65521"
proof -
  have "adler_red (adler_nat bs s) = (a, c)"
    using assms(2) adler_ref_red [OF assms(1), of s] by (simp add: adler_nat_ref)
  then show ?thesis by (auto simp: adler_red_def split: prod.splits)
qed

text \<open>
  5552 is small enough: no sum of a block passes \<^verbatim>\<open>2\<^sup>32\<close>, for sums that start below \<^verbatim>\<open>2\<^sup>16\<close>.
\<close>

lemma adler_block_exact:
  assumes "length bs \<le> 5552" "unat s1 < 65536" "unat s2 < 65536"
    "adler_block bs (s1, s2) = (t1, t2)"
  shows "(unat t1, unat t2) = adler_nat bs (unat s1, unat s2)"
proof -
  obtain a c where n: "adler_nat bs (unat s1, unat s2) = (a, c)" by fastforce
  have "length bs * unat s1 \<le> 5552 * 65535" "length bs * (length bs + 1) \<le> 5552 * 5553"
    by (rule mult_le_mono; use assms(1,2) in simp)+
  with adler_nat_bound [OF n] assms(1-3) have lt: "a < 2 ^ 32" "c < 2 ^ 32"
    by auto
  have "adler_block bs (s1, s2) = (of_nat a, of_nat c)"
    unfolding adler_block_fold by (rule adler_steps_nat [OF n lt])
  with lt assms(4) have "unat t1 = a \<and> unat t2 = c" by (auto simp: unsigned_of_nat take_bit_nat_eq_self)
  with n show ?thesis by simp
qed

lemma adler_blocks_ref:
  assumes "k \<le> 5552" "bs \<noteq> []" "unat s1 < 65536" "unat s2 < 65536"
    "adler_blocks k bs (s1, s2) = (t1, t2)"
  shows "(unat t1, unat t2) = adler_ref bs (unat s1, unat s2)"
  using assms
proof (induction k bs "(s1, s2)" arbitrary: s1 s2 rule: adler_blocks.induct)
  case (1 k bs s1 s2)
  let ?xs = "take k bs" and ?ys = "drop k bs"
  obtain u1 u2 where u: "adler_block ?xs (s1, s2) = (u1, u2)" by fastforce
  have len: "length ?xs \<le> 5552" using 1(2) by simp
  have "(unat u1, unat u2) = adler_nat ?xs (unat s1, unat s2)"
    by (rule adler_block_exact [OF len 1(4,5) u])
  then have red: "(unat (u1 mod 65521), unat (u2 mod 65521)) = adler_ref ?xs (adler_red (unat s1, unat s2))"
    unfolding adler_nat_ref by (auto simp: adler_red_def unat_mod split: prod.splits)
  have rest: "adler_blocks 5552 ?ys (u1 mod 65521, u2 mod 65521) = (t1, t2)"
    using 1(3,6) u by (subst (asm) adler_blocks.simps) simp
  show ?case
  proof (cases "?ys = []")
    case True
    then have "?xs = bs" by (metis append_Nil2 append_take_drop_id)
    with rest True red show ?thesis
      by (simp add: adler_blocks.simps adler_ref_red 1(3))
  next
    case False
    have "(unat t1, unat t2) = adler_ref ?ys (unat (u1 mod 65521), unat (u2 mod 65521))"
      by (rule 1(1) [OF 1(3) u [symmetric] _ False _ _ rest]) (simp_all add: unat_mod)
    also have "\<dots> = adler_ref (?xs @ ?ys) (adler_red (unat s1, unat s2))"
      unfolding red adler_ref_append ..
    finally show ?thesis by (simp add: adler_ref_red 1(3))
  qed
qed

text \<open>The two sums in a checksum.\<close>

definition adler_of :: "nat \<Rightarrow> nat \<times> nat" where
  "adler_of n = (n mod 65536, n div 65536)"

definition adler_value :: "nat \<times> nat \<Rightarrow> nat" where
  "adler_value = (\<lambda>(a, c). 65536 * c + a)"

lemma adler_of_value: "a < 65536 \<Longrightarrow> adler_of (adler_value (a, c)) = (a, c)"
  by (simp add: adler_of_def adler_value_def)

lemma adler_words:
  fixes adler :: "'l::len word"
  assumes "32 \<le> LENGTH('l)" "unat adler < 2 ^ 32"
  shows "unat (ucast (adler AND 0xFFFF) :: 32 word) = unat adler mod 65536"
    "unat (ucast (drop_bit 16 adler) :: 32 word) = unat adler div 65536"
proof -
  have "(0xFFFF :: 'l word) = mask 16" by (simp add: mask_eq_exp_minus_1)
  then have "unat (adler AND 0xFFFF) = take_bit 16 (unat adler)"
    by (simp only: take_bit_eq_mask [symmetric] unsigned_take_bit_eq)
  then have u: "unat (adler AND 0xFFFF) = unat adler mod 65536" by (simp add: take_bit_eq_mod)
  then show "unat (ucast (adler AND 0xFFFF) :: 32 word) = unat adler mod 65536"
    unfolding unsigned_ucast_eq by (simp add: take_bit_eq_mod)
  show "unat (ucast (drop_bit 16 adler) :: 32 word) = unat adler div 65536"
    unfolding unsigned_ucast_eq unsigned_drop_bit_eq using assms(2)
    by (simp add: take_bit_nat_eq_self drop_bit_eq_div less_imp_le [THEN le_less_trans])
qed

lemma mz_adler32_ref:
  fixes adler :: "'l::len word"
  assumes "32 \<le> LENGTH('l)" "unat adler < 2 ^ 32"
  shows "unat (mz_adler32 adler (Some buf)) =
    (if buf = [] then unat adler else adler_value (adler_ref buf (adler_of (unat adler))))"
proof -
  let ?s1 = "ucast (adler AND 0xFFFF) :: 32 word" and ?s2 = "ucast (drop_bit 16 adler) :: 32 word"
  obtain t1 t2 where t: "adler_blocks (length buf mod 5552) buf (?s1, ?s2) = (t1, t2)" by fastforce
  have r: "mz_adler32 adler (Some buf) = ucast (push_bit 16 t2 + t1)"
    using t by (simp add: mz_adler32_def)
  have join: "unat (ucast (push_bit 16 t2 + t1) :: 'l word) = 65536 * unat t2 + unat t1"
    if "unat t1 < 65536" "unat t2 < 65536"
  proof -
    have p: "unat (push_bit 16 t2) = 65536 * unat t2"
      unfolding unsigned_push_bit_eq using that(2) by (simp add: push_bit_eq_mult take_bit_nat_eq_self)
    have "unat (push_bit 16 t2 + t1) = 65536 * unat t2 + unat t1"
      using that p by (subst unat_add_lem [THEN iffD1]) simp_all
    moreover have "take_bit LENGTH('l) (unat (push_bit 16 t2 + t1)) = unat (push_bit 16 t2 + t1)"
    proof -
      have "unat (push_bit 16 t2 + t1) < 2 ^ 32" using unsigned_less [of "push_bit 16 t2 + t1"] by simp
      also have "(2 :: nat) ^ 32 \<le> 2 ^ LENGTH('l)" by (rule power_increasing [OF assms(1)]) simp
      finally show ?thesis by (simp add: take_bit_nat_eq_self)
    qed
    ultimately show ?thesis by (simp add: unsigned_ucast_eq)
  qed
  have lt: "unat ?s1 < 65536" "unat ?s2 < 65536"
    unfolding adler_words [OF assms] using assms(2) by auto
  show ?thesis
  proof (cases "buf = []")
    case True
    then have "t1 = ?s1" "t2 = ?s2" using t by (simp_all add: adler_blocks.simps)
    then show ?thesis using True r join lt by (simp add: adler_words [OF assms])
  next
    case False
    have e: "(unat t1, unat t2) = adler_ref buf (adler_of (unat adler))"
      using adler_blocks_ref [OF _ False lt t] by (simp add: adler_words [OF assms] adler_of_def)
    have "unat t1 < 65521 \<and> unat t2 < 65521" by (rule adler_ref_lt [OF False e [symmetric]])
    then show ?thesis using False r join e [symmetric] by (simp add: adler_value_def)
  qed
qed

subsection \<open>CRC-32\<close>

definition s_crc32 :: "32 word list" where
  "s_crc32 = [0, 0x1db71064, 0x3b6e20c8, 0x26d930ac, 0x76dc4190, 0x6b6b51f4, 0x4db26158, 0x5005713c,
    0xedb88320, 0xf00f9344, 0xd6d6a3e8, 0xcb61b38c, 0x9b64c2b0, 0x86d3d2d4, 0xa00ae278, 0xbdbdf21c]"

definition crc_nibble :: "'l::len word \<Rightarrow> 8 word \<Rightarrow> 'l word" where
  "crc_nibble crc n = drop_bit 4 crc XOR ucast (s_crc32 ! unat ((crc AND 0xF) XOR ucast n))"

definition crc_byte :: "8 word \<Rightarrow> 'l::len word \<Rightarrow> 'l word" where
  "crc_byte b crc = crc_nibble (crc_nibble crc (b AND 0xF)) (drop_bit 4 b)"

definition mz_crc32 :: "'l::len word \<Rightarrow> bytes option \<Rightarrow> 'l word" where
  "mz_crc32 crc ptr = (case ptr of None \<Rightarrow> 0 | Some buf \<Rightarrow> NOT (fold crc_byte buf (NOT crc)))"

text \<open>The division by the reflected polynomial, one bit at a time.\<close>

definition crc_bit :: "32 word \<Rightarrow> 32 word" where
  "crc_bit c = (if bit c 0 then drop_bit 1 c XOR 0xEDB88320 else drop_bit 1 c)"

definition crc_ref :: "32 word \<Rightarrow> bytes \<Rightarrow> 32 word" where
  "crc_ref c bs = NOT (fold (\<lambda>b c. (crc_bit ^^ 8) (c XOR ucast b)) bs (NOT c))"

lemma crc_bit_xor: "crc_bit (x XOR y) = crc_bit x XOR crc_bit y"
  by (auto simp: crc_bit_def ac_simps bit_xor_iff drop_bit_xor)

lemma crc_bits_xor: "(crc_bit ^^ n) (x XOR y) = (crc_bit ^^ n) x XOR (crc_bit ^^ n) y"
  by (induction n) (simp_all add: crc_bit_xor)

lemma crc_bits_shift: "take_bit n x = 0 \<Longrightarrow> (crc_bit ^^ n) x = drop_bit n x"
proof (induction n)
  case (Suc n)
  have b: "\<not> bit x i" if "i < Suc n" for i
    using that arg_cong [OF Suc.prems, of "\<lambda>y. bit y i"] by (simp add: bit_take_bit_iff)
  then have "take_bit n x = 0" by (intro bit_eqI) (simp add: bit_take_bit_iff)
  moreover have "\<not> bit (drop_bit n x) 0" using b [of n] by (simp only: bit_drop_bit_eq) simp
  ultimately show ?case using Suc.IH by (simp add: crc_bit_def drop_bit_drop_bit)
qed simp

lemma crc_table: "i < 16 \<Longrightarrow> (crc_bit ^^ 4) (of_nat i) = s_crc32 ! i"
proof -
  have "list_all (\<lambda>i. (crc_bit ^^ 4) (of_nat i) = s_crc32 ! i) [0..<16]"
    by code_simp
  then show "i < 16 \<Longrightarrow> ?thesis" by (simp add: list_all_iff)
qed

lemma crc_four: "(crc_bit ^^ 4) c = drop_bit 4 c XOR s_crc32 ! unat (take_bit 4 c)"
proof -
  have split: "c = push_bit 4 (drop_bit 4 c) XOR take_bit 4 c"
    by (rule bit_eqI) (auto simp: bit_simps)
  have hi: "(crc_bit ^^ 4) (push_bit 4 (drop_bit 4 c)) = drop_bit 4 c"
  proof -
    have "take_bit 4 (push_bit 4 (drop_bit 4 c)) = 0" by (rule bit_eqI) (auto simp: bit_simps)
    then have "(crc_bit ^^ 4) (push_bit 4 (drop_bit 4 c)) = drop_bit 4 (push_bit 4 (drop_bit 4 c))"
      by (rule crc_bits_shift)
    also have "\<dots> = drop_bit 4 c"
      by (rule bit_eqI) (auto simp: bit_simps dest: bit_imp_le_length)
    finally show ?thesis .
  qed
  have "unat (take_bit 4 c) < 16"
    unfolding unsigned_take_bit_eq by (simp add: take_bit_eq_mod)
  from crc_table [OF this] have lo: "(crc_bit ^^ 4) (take_bit 4 c) = s_crc32 ! unat (take_bit 4 c)"
    by simp
  show ?thesis by (subst split) (simp only: crc_bits_xor hi lo)
qed

lemma and_0xF: "(x :: 'a::len word) AND 0xF = take_bit 4 x"
  by (simp only: take_bit_eq_mask) (simp add: mask_eq_exp_minus_1)

lemma crc_nibble_bits:
  "crc_nibble c n = (crc_bit ^^ 4) (c XOR ucast n)" if "take_bit 4 n = n"
proof -
  have n: "bit n i \<Longrightarrow> i < 4" for i using that by (metis bit_take_bit_iff)
  have "take_bit 4 (c XOR ucast n) = take_bit 4 c XOR ucast n"
    by (rule bit_eqI) (auto simp: bit_simps dest: n)
  moreover have "drop_bit 4 (c XOR ucast n) = drop_bit 4 c"
    by (rule bit_eqI) (auto simp: bit_simps dest: n)
  ultimately show ?thesis by (simp only: crc_nibble_def crc_four and_0xF) (simp add: ucast_id)
qed

lemma crc_byte_bits: "crc_byte b c = (crc_bit ^^ 8) (c XOR ucast b)"
proof -
  have t: "take_bit 4 (b AND 0xF) = b AND 0xF" "take_bit 4 (drop_bit 4 b) = drop_bit 4 b"
    by (rule bit_eqI; auto simp: and_0xF bit_simps dest: bit_imp_le_length)+
  have "(ucast b :: 32 word) = ucast (b AND 0xF) XOR push_bit 4 (ucast (drop_bit 4 b))"
    by (rule bit_eqI) (auto simp: and_0xF bit_simps dest: bit_imp_le_length)
  then have "(crc_bit ^^ 4) (c XOR ucast b) =
      (crc_bit ^^ 4) (c XOR ucast (b AND 0xF)) XOR (crc_bit ^^ 4) (push_bit 4 (ucast (drop_bit 4 b)))"
    by (simp add: crc_bits_xor ac_simps)
  also have "(crc_bit ^^ 4) (push_bit 4 (ucast (drop_bit 4 b))) = ucast (drop_bit 4 b)"
  proof -
    have "take_bit 4 (push_bit 4 (ucast (drop_bit 4 b)) :: 32 word) = 0"
      by (rule bit_eqI) (auto simp: bit_simps)
    from crc_bits_shift [OF this] show ?thesis
      by (simp only:) (rule bit_eqI, auto simp: bit_simps dest: bit_imp_le_length)
  qed
  finally show ?thesis
    by (simp add: crc_byte_def crc_nibble_bits [OF t(1)] crc_nibble_bits [OF t(2)]
        funpow_add [of 4 4, simplified])
qed

lemma mz_crc32_ref: "mz_crc32 c (Some bs) = crc_ref c bs"
proof -
  have "crc_byte = (\<lambda>b c. (crc_bit ^^ 8) (c XOR ucast b))" by (intro ext) (rule crc_byte_bits)
  then show ?thesis by (simp add: mz_crc32_def crc_ref_def)
qed

subsection \<open>Changed bytes\<close>

lemma crc_bit_zero: "crc_bit z = 0 \<Longrightarrow> z = 0"
proof (rule ccontr)
  assume z: "crc_bit z = 0" "z \<noteq> 0"
  show False
  proof (cases "bit z 0")
    case True
    with z have "drop_bit 1 z XOR 0xEDB88320 = 0" by (simp add: crc_bit_def)
    then have "bit (drop_bit 1 z XOR (0xEDB88320 :: 32 word)) 31 = bit (0 :: 32 word) 31" by (rule arg_cong)
    moreover have "\<not> bit (drop_bit 1 z) 31" by (auto simp: bit_drop_bit_eq dest: bit_imp_le_length)
    moreover have "bit (0xEDB88320 :: 32 word) 31" by simp
    ultimately show False unfolding bit_xor_iff by simp
  next
    case False
    with z have d: "drop_bit 1 z = 0" by (simp add: crc_bit_def)
    have "\<not> bit z n" for n
    proof (cases n)
      case (Suc m)
      have "bit (drop_bit 1 z) m = bit (0 :: 32 word) m" by (simp only: d)
      then show ?thesis using Suc by (simp only: bit_drop_bit_eq) simp
    qed (use False in simp)
    then have "z = 0" by (intro bit_eqI) simp
    with z show False by simp
  qed
qed

lemma xor_cancel: "(c XOR x = c XOR y) = (x = (y :: 'a::len word))"
  by (metis bit.xor_left_self xor.assoc xor.left_neutral)

lemma inj_crc_bit: "crc_bit x = crc_bit y \<longleftrightarrow> x = y"
proof
  assume "crc_bit x = crc_bit y"
  then have "crc_bit (x XOR y) = 0" by (simp add: crc_bit_xor)
  from crc_bit_zero [OF this] show "x = y" by (metis xor_cancel xor_self_eq)
qed simp

lemma inj_crc_bits: "(crc_bit ^^ n) x = (crc_bit ^^ n) y \<longleftrightarrow> x = y"
  by (induction n) (simp_all add: inj_crc_bit)

lemma ucast_byte_eq: "(ucast (x :: 8 word) :: 32 word) = ucast y \<longleftrightarrow> x = y"
proof
  assume "(ucast x :: 32 word) = ucast y"
  from arg_cong [OF this, of unat] show "x = y" by (simp add: unsigned_word_eqI)
qed simp

lemma crc_fold_inj: "fold (crc_byte :: _ \<Rightarrow> 32 word \<Rightarrow> _) bs c = fold crc_byte bs d \<longleftrightarrow> c = d"
proof (induction bs arbitrary: c d)
  case (Cons b bs)
  have "(crc_byte b c = crc_byte b d) = (c = d)"
    unfolding crc_byte_bits inj_crc_bits by (metis xor_cancel xor.commute)
  with Cons show ?case by simp
qed simp

text \<open>
  C27. Adler-32.  For every buffer and every start value below \<^verbatim>\<open>2\<^sup>32\<close>, the checksum the code
  computes with one reduction per block of 5552 bytes is the one RFC 1950 defines with a
  reduction after every byte: no 32-bit sum of a block overflows.  An empty buffer gives the start
  value back unreduced.
\<close>

theorem adler32_reference:
  fixes adler :: "'l::len word"
  assumes "32 \<le> LENGTH('l)" "unat adler < 2 ^ 32"
  shows "unat (mz_adler32 adler (Some buf)) =
    (if buf = [] then unat adler else adler_value (adler_ref buf (adler_of (unat adler))))"
  by (rule mz_adler32_ref [OF assms])

theorem adler32_reference_witness:
  "unat (mz_adler32 (1 :: 64 word) (Some [97, 98])) = adler_value (adler_ref [97, 98] (1, 0))"
  using adler32_reference [of "1 :: 64 word" "[97, 98]"] by (simp add: adler_of_def)


text \<open>
  C29. Two buffers that differ in exactly one byte have different CRC-32 checksums, whatever surrounds
  the byte.
\<close>

theorem crc32_detects:
  assumes "x \<noteq> y"
  shows "mz_crc32 (c :: 32 word) (Some (as @ x # bs)) \<noteq> mz_crc32 c (Some (as @ y # bs))"
proof
  assume "mz_crc32 c (Some (as @ x # bs)) = mz_crc32 c (Some (as @ y # bs))"
  then have "fold crc_byte bs (crc_byte x (fold crc_byte as (NOT c))) =
      fold crc_byte bs (crc_byte y (fold crc_byte as (NOT c)))"
    by (simp add: mz_crc32_def)
  then have "crc_byte x (fold crc_byte as (NOT c)) = crc_byte y (fold crc_byte as (NOT c))"
    by (simp only: crc_fold_inj)
  then show False using assms by (simp only: crc_byte_bits inj_crc_bits xor_cancel ucast_byte_eq)
qed

theorem crc32_detects_witness:
  "mz_crc32 (0 :: 32 word) (Some ([1, 2] @ 3 # [4])) \<noteq> mz_crc32 0 (Some ([1, 2] @ 7 # [4]))"
  by (rule crc32_detects) simp

text \<open>
  Where \<^verbatim>\<open>unsigned long\<close> has 64 bits, the complement sets the upper half of the register and the
  shifts bring it into the lower half: already the checksum of one byte is wrong.
\<close>

lemma crc32_wide:
  "mz_crc32 (0 :: 32 word) (Some [97]) = 0xE8B7BE43"
  "ucast (mz_crc32 (0 :: 64 word) (Some [97])) \<noteq> (0xE8B7BE43 :: 32 word)"
  by code_simp+

end
