(* ===== verification/Zip_Sort.thy ===== *)
theory Zip_Sort
  imports Miniz_Mem "HOL-Library.Multiset"
begin

text \<open>
  The two algorithms \<^verbatim>\<open>xcore/src/miniz.c\<close> runs on the index of a ZIP directory: the heap sort of
  \<^verbatim>\<open>mz_zip_reader_sort_central_dir_offsets_by_filename\<close> and the binary search of
  \<^verbatim>\<open>mz_zip_reader_locate_file_binary_search\<close>.  They are stated over the comparison the caller
  passes; \<open>None\<close> is a read outside an array, in the comparison or in the index itself.
\<close>

subsection \<open>Heap sort\<close>

text \<open>The comparison of two elements of the array.\<close>

definition less_at :: "('a \<Rightarrow> 'a \<Rightarrow> bool option) \<Rightarrow> 'a list \<Rightarrow> nat \<Rightarrow> nat \<Rightarrow> bool option" where
  "less_at lt a i j = Option.bind (at a i) (\<lambda>x. Option.bind (at a j) (lt x))"

definition swap_at :: "'a list \<Rightarrow> nat \<Rightarrow> nat \<Rightarrow> 'a list option" where
  "swap_at a i j = Option.bind (at a i) (\<lambda>x. Option.bind (at a j) (\<lambda>y. Some (a[i := y, j := x])))"

text \<open>
  The inner loop \<^verbatim>\<open>for ( ; ; )\<close>, which is the same in both phases up to the number of elements that
  belong to the heap (\<^verbatim>\<open>size\<close> in the first phase, \<^verbatim>\<open>end\<close> in the second).
\<close>

function sift :: "('a \<Rightarrow> 'a \<Rightarrow> bool option) \<Rightarrow> nat \<Rightarrow> nat \<Rightarrow> 'a list \<Rightarrow> 'a list option" where
  "sift lt n root a =
    (let child = 2 * root + 1 in
     if n \<le> child then Some a else
     Option.bind (if child + 1 < n then less_at lt a child (child + 1) else Some False) (\<lambda>right.
     let child = child + (if right then 1 else 0) in
     Option.bind (less_at lt a root child) (\<lambda>smaller.
     if \<not> smaller then Some a else
     Option.bind (swap_at a root child) (sift lt n child))))"
  by auto
termination
  by (relation "measure (\<lambda>(lt, n, root, a). n - root)") (auto split: if_splits)

declare sift.simps [simp del]

text \<open>First phase: \<^verbatim>\<open>while (start >= 0)\<close>; the argument is \<^verbatim>\<open>start + 1\<close>.\<close>

fun heapify :: "('a \<Rightarrow> 'a \<Rightarrow> bool option) \<Rightarrow> nat \<Rightarrow> nat \<Rightarrow> 'a list \<Rightarrow> 'a list option" where
  "heapify lt n 0 a = Some a"
| "heapify lt n (Suc start) a = Option.bind (sift lt n start a) (heapify lt n start)"

text \<open>Second phase: \<^verbatim>\<open>while (end > 0)\<close>.\<close>

fun sort_down :: "('a \<Rightarrow> 'a \<Rightarrow> bool option) \<Rightarrow> nat \<Rightarrow> 'a list \<Rightarrow> 'a list option" where
  "sort_down lt 0 a = Some a"
| "sort_down lt (Suc e) a =
    Option.bind (swap_at a (Suc e) 0) (\<lambda>a. Option.bind (sift lt (Suc e) 0 a) (sort_down lt e))"

definition heap_sort :: "('a \<Rightarrow> 'a \<Rightarrow> bool option) \<Rightarrow> nat \<Rightarrow> 'a list \<Rightarrow> 'a list option" where
  "heap_sort lt n a = Option.bind (heapify lt n (n div 2) a) (sort_down lt (n - 1))"

subsection \<open>Binary search\<close>

text \<open>
  \<^verbatim>\<open>while (l <= h)\<close> with the inclusive bounds of the code, as integers because \<^verbatim>\<open>h\<close> can become \<^verbatim>\<open>-1\<close>;
  the comparison answers a C \<^verbatim>\<open>int\<close>.
\<close>

function bin_search :: "('a \<Rightarrow> int option) \<Rightarrow> 'a list \<Rightarrow> int \<Rightarrow> int \<Rightarrow> 'a option option" where
  "bin_search cmp a l h = (if h < l then Some None else
    (let m = (l + h) div 2 in
     if m < 0 then None else
     Option.bind (at a (nat m)) (\<lambda>x. Option.bind (cmp x) (\<lambda>c.
     if c = 0 then Some (Some x)
     else if c < 0 then bin_search cmp a (m + 1) h
     else bin_search cmp a l (m - 1)))))"
  by auto
termination
  by (relation "measure (\<lambda>(cmp, a, l, h). nat (h + 1 - l))") auto

declare bin_search.simps [simp del]

text \<open>The search reads inside the array, whatever the comparison says.\<close>

lemma bin_search_defined:
  assumes "\<And>x. x \<in> set a \<Longrightarrow> \<exists>c. cmp x = Some c" "0 \<le> l" "h < int (length a)"
  shows "\<exists>r. bin_search cmp a l h = Some r \<and> (\<forall>x. r = Some x \<longrightarrow> x \<in> set a)"
  using assms
proof (induction "nat (h + 1 - l)" arbitrary: l h rule: less_induct)
  case less
  show ?case
  proof (cases "h < l")
    case True
    then show ?thesis by (subst bin_search.simps) auto
  next
    case False
    define m where "m = nat ((l + h) div 2)"
    have m: "int m = (l + h) div 2" "l \<le> int m" "int m \<le> h" "m < length a"
      using False less.prems(2,3) by (auto simp: m_def)
    then obtain c where c: "cmp (a ! m) = Some c" using less.prems(1) by fastforce
    have step: "bin_search cmp a l h = (if c = 0 then Some (Some (a ! m))
        else if c < 0 then bin_search cmp a (int m + 1) h else bin_search cmp a l (int m - 1))"
      using False m c by (subst bin_search.simps) (simp add: Let_def flip: m(1))
    have "\<exists>r. bin_search cmp a (int m + 1) h = Some r \<and> (\<forall>x. r = Some x \<longrightarrow> x \<in> set a)"
      using less.hyps [of h "int m + 1"] less.prems m by simp
    moreover have "\<exists>r. bin_search cmp a l (int m - 1) = Some r \<and> (\<forall>x. r = Some x \<longrightarrow> x \<in> set a)"
      using less.hyps [of "int m - 1" l] less.prems m by simp
    ultimately show ?thesis using step m(4) by auto
  qed
qed

subsection \<open>What a comparison promises\<close>

text \<open>
  The client of the sort: on the elements of a carrier the comparison is defined and compares keys of
  a linear order.
\<close>

locale keyed =
  fixes lt :: "'a \<Rightarrow> 'a \<Rightarrow> bool option" and key :: "'a \<Rightarrow> 'k::linorder" and carrier :: "'a set"
  assumes less_key: "x \<in> carrier \<Longrightarrow> y \<in> carrier \<Longrightarrow> lt x y = Some (key x < key y)"
begin

definition child :: "nat \<Rightarrow> nat \<Rightarrow> bool" where
  "child i j \<longleftrightarrow> j = 2 * i + 1 \<or> j = 2 * i + 2"

lemma child_less: "child i j \<Longrightarrow> i < j"
  by (auto simp: child_def)

lemma child_parent: "child i j \<Longrightarrow> child i' j \<Longrightarrow> i = i'"
  by (auto simp: child_def)

text \<open>The elements from \<open>lo\<close> on, below \<open>n\<close>, are a heap; and the same but for the children of \<open>r\<close>.\<close>

definition heap :: "nat \<Rightarrow> nat \<Rightarrow> 'a list \<Rightarrow> bool" where
  "heap lo n a \<longleftrightarrow> (\<forall>i j. lo \<le> i \<longrightarrow> child i j \<longrightarrow> j < n \<longrightarrow> key (a ! j) \<le> key (a ! i))"

definition heap_but :: "nat \<Rightarrow> nat \<Rightarrow> nat \<Rightarrow> 'a list \<Rightarrow> bool" where
  "heap_but lo n r a \<longleftrightarrow>
    (\<forall>i j. lo \<le> i \<longrightarrow> child i j \<longrightarrow> j < n \<longrightarrow> i \<noteq> r \<longrightarrow> key (a ! j) \<le> key (a ! i)) \<and>
    (\<forall>p j. lo \<le> p \<longrightarrow> child p r \<longrightarrow> child r j \<longrightarrow> j < n \<longrightarrow> key (a ! j) \<le> key (a ! p))"

lemma less_at_key:
  "set a \<subseteq> carrier \<Longrightarrow> i < length a \<Longrightarrow> j < length a \<Longrightarrow> less_at lt a i j = Some (key (a ! i) < key (a ! j))"
  by (auto simp: less_at_def intro!: less_key)

lemma swap_at_eq: "i < length a \<Longrightarrow> j < length a \<Longrightarrow> swap_at a i j = Some (a[i := a ! j, j := a ! i])"
  by (simp add: swap_at_def)

lemma heap_but_swap:
  assumes "heap_but lo n r a" "lo \<le> r" "child r c" "c < n" "n \<le> length a"
    and big: "\<And>j. child r j \<Longrightarrow> j < n \<Longrightarrow> key (a ! j) \<le> key (a ! c)"
    and sm: "key (a ! r) < key (a ! c)"
  shows "heap_but lo n c (a[r := a ! c, c := a ! r])"
proof -
  let ?b = "a[r := a ! c, c := a ! r]"
  note rc = child_less [OF assms(3)]
  have b: "?b ! r = a ! c" "?b ! c = a ! r" "\<And>i. i \<noteq> r \<Longrightarrow> i \<noteq> c \<Longrightarrow> ?b ! i = a ! i"
    using rc assms(4,5) by (auto simp: nth_list_update)
  note H = assms(1) [unfolded heap_but_def]
  have "key (?b ! j) \<le> key (?b ! i)" if ij: "lo \<le> i" "child i j" "j < n" "i \<noteq> c" for i j
  proof (cases "i = r")
    case True
    then show ?thesis using big [of j] ij sm b by (cases "j = c") (auto simp: child_def)
  next
    case False
    have "j \<noteq> c" using child_parent [OF ij(2)] assms(3) False by blast
    then show ?thesis using H ij False b assms(3,4) by (cases "j = r") auto
  qed
  moreover have "key (?b ! j) \<le> key (?b ! p)" if "lo \<le> p" "child p c" "child c j" "j < n" for p j
  proof -
    have "p = r" using child_parent [OF that(2) assms(3)] .
    moreover have "j \<noteq> r" "j \<noteq> c" using child_less [OF that(3)] rc by auto
    moreover have "key (a ! j) \<le> key (a ! c)" using H assms(2) that rc by auto
    ultimately show ?thesis using b by simp
  qed
  ultimately show ?thesis unfolding heap_but_def by blast
qed

text \<open>What \<open>sift\<close> leaves alone: everything below \<open>r\<close> and from \<open>n\<close> on.\<close>

definition same_outside :: "nat \<Rightarrow> nat \<Rightarrow> 'a list \<Rightarrow> 'a list \<Rightarrow> bool" where
  "same_outside r n a b \<longleftrightarrow> mset b = mset a \<and> (\<forall>i. i < r \<or> n \<le> i \<longrightarrow> b ! i = a ! i)"

lemma same_outside_refl [simp]: "same_outside r n a a"
  by (simp add: same_outside_def)

lemma same_outside_length: "same_outside r n a b \<Longrightarrow> length b = length a"
  unfolding same_outside_def by (metis size_mset)

lemma same_outside_set: "same_outside r n a b \<Longrightarrow> set b = set a"
  unfolding same_outside_def by (metis set_mset_mset)

lemma same_outside_trans:
  "same_outside r n a b \<Longrightarrow> same_outside r' n b c \<Longrightarrow> r \<le> r' \<Longrightarrow> same_outside r n a c"
  by (auto simp: same_outside_def)

lemma same_outside_swap:
  "r \<le> i \<Longrightarrow> i < n \<Longrightarrow> r \<le> j \<Longrightarrow> j < n \<Longrightarrow> n \<le> length a \<Longrightarrow> same_outside r n a (a[i := a ! j, j := a ! i])"
  by (auto simp: same_outside_def mset_swap nth_list_update)

lemma sift_heap:
  assumes "set a \<subseteq> carrier" "n \<le> length a" "lo \<le> r" "heap_but lo n r a"
  shows "\<exists>b. sift lt n r a = Some b \<and> heap lo n b \<and> same_outside r n a b"
  using assms
proof (induction "n - r" arbitrary: r a rule: less_induct)
  case less
  show ?case
  proof (cases "n \<le> 2 * r + 1")
    case True
    then have "heap lo n a"
      using less.prems(4) by (auto simp: heap_but_def heap_def child_def)
    then show ?thesis using True by (subst sift.simps) auto
  next
    case False
    define right where "right \<longleftrightarrow> 2 * r + 2 < n \<and> key (a ! (2 * r + 1)) < key (a ! (2 * r + 2))"
    define c where "c = 2 * r + 1 + (if right then 1 else 0)"
    have c: "child r c" "c < n" using False by (auto simp: c_def right_def child_def)
    have big: "key (a ! j) \<le> key (a ! c)" if "child r j" "j < n" for j
      using that by (auto simp: c_def right_def child_def)
    have step: "sift lt n r a = (if \<not> key (a ! r) < key (a ! c) then Some a
        else sift lt n c (a[r := a ! c, c := a ! r]))"
      using False c child_less [OF c(1)] less.prems(1,2)
      by (subst sift.simps) (auto simp: less_at_key swap_at_eq c_def right_def)
    show ?thesis
    proof (cases "key (a ! r) < key (a ! c)")
      case True
      let ?b = "a[r := a ! c, c := a ! r]"
      note rc = child_less [OF c(1)]
      have so: "same_outside r n a ?b"
        using rc c(2) less.prems(2) by (intro same_outside_swap) auto
      have "heap_but lo n c ?b"
        by (rule heap_but_swap [OF less.prems(4,3) c less.prems(2) big True])
      moreover have "set ?b \<subseteq> carrier" "n \<le> length ?b" "n - c < n - r" "lo \<le> c"
        using less.prems(1-3) same_outside_set [OF so] rc c(2) by auto
      ultimately obtain b where "sift lt n c ?b = Some b" "heap lo n b" "same_outside c n ?b b"
        using less.hyps [of c ?b] by blast
      then show ?thesis using step True so rc by (auto intro: same_outside_trans)
    next
      case False
      then have "key (a ! j) \<le> key (a ! r)" if "child r j" "j < n" for j
        using big [OF that] by simp
      then have "heap lo n a" using less.prems(4) by (auto simp: heap_but_def heap_def)
      then show ?thesis using step False by simp
    qed
  qed
qed

lemma heapify_heap:
  assumes "set a \<subseteq> carrier" "n \<le> length a" "heap k n a"
  shows "\<exists>b. heapify lt n k a = Some b \<and> heap 0 n b \<and> mset b = mset a"
  using assms
proof (induction k arbitrary: a)
  case (Suc k)
  have "heap_but k n k a" using Suc.prems(3) by (auto simp: heap_but_def heap_def dest: child_less)
  from sift_heap [OF Suc.prems(1,2) order_refl this] obtain b where
    b: "sift lt n k a = Some b" "heap k n b" "same_outside k n a b" by blast
  have "set b \<subseteq> carrier" "n \<le> length b"
    using Suc.prems same_outside_set [OF b(3)] same_outside_length [OF b(3)] by auto
  from Suc.IH [OF this b(2)] b(1,3) show ?case by (auto simp: same_outside_def)
qed simp

lemma heap_root: "heap 0 n a \<Longrightarrow> i < n \<Longrightarrow> key (a ! i) \<le> key (a ! 0)"
proof (induction i rule: less_induct)
  case (less i)
  show ?case
  proof (cases i)
    case (Suc m)
    have "child (m div 2) i" using Suc by (auto simp: child_def)
    then have "key (a ! i) \<le> key (a ! (m div 2))" using less.prems by (auto simp: heap_def)
    also have "\<dots> \<le> key (a ! 0)" using less.IH [of "m div 2"] less.prems Suc by simp
    finally show ?thesis .
  qed simp
qed

text \<open>The invariant of the second phase: a heap below \<open>n\<close>, and from \<open>n\<close> on sorted and not smaller.\<close>

definition half_sorted :: "nat \<Rightarrow> 'a list \<Rightarrow> bool" where
  "half_sorted n a \<longleftrightarrow> heap 0 n a \<and>
    (\<forall>i j. i < j \<longrightarrow> n \<le> j \<longrightarrow> j < length a \<longrightarrow> key (a ! i) \<le> key (a ! j))"

lemma half_sorted_step:
  assumes "set a \<subseteq> carrier" "Suc e < length a" "half_sorted (Suc (Suc e)) a"
  shows "\<exists>b c. swap_at a (Suc e) 0 = Some b \<and> sift lt (Suc e) 0 b = Some c
    \<and> half_sorted (Suc e) c \<and> mset c = mset a"
proof -
  let ?n = "Suc e" and ?b = "a[Suc e := a ! 0, 0 := a ! Suc e]"
  note H = assms(3) [unfolded half_sorted_def]
  have hb: "heap_but 0 ?n 0 ?b"
    using H assms(2) by (auto simp: heap_but_def heap_def nth_list_update child_def)
  have so: "same_outside 0 (Suc ?n) a ?b" using assms(2) by (intro same_outside_swap) auto
  have "set ?b \<subseteq> carrier" "?n \<le> length ?b" using assms same_outside_set [OF so] by auto
  from sift_heap [OF this order_refl hb] obtain c where
    c: "sift lt ?n 0 ?b = Some c" "heap 0 ?n c" "same_outside 0 ?n ?b c" by blast
  have mem: "\<exists>k. k < Suc ?n \<and> c ! i = a ! k" if "i < Suc ?n" for i
  proof (cases "i < ?n")
    case True
    have len: "length c = length a" using same_outside_length [OF c(3)] by simp
    have "mset (take ?n c) = mset (take ?n ?b)"
    proof -
      have "drop ?n c = drop ?n ?b" using c(3) len by (intro nth_equalityI) (auto simp: same_outside_def)
      moreover have "mset (take ?n c) + mset (drop ?n c) = mset (take ?n ?b) + mset (drop ?n ?b)"
        using c(3) by (metis append_take_drop_id mset_append same_outside_def)
      ultimately show ?thesis by simp
    qed
    then have "set (take ?n c) = set (take ?n ?b)" by (metis set_mset_mset)
    moreover have "c ! i \<in> set (take ?n c)" using True len assms(2) by (auto simp: in_set_conv_nth intro!: exI [of _ i])
    ultimately obtain k where k: "k < ?n" "c ! i = ?b ! k" by (auto simp: in_set_conv_nth)
    moreover have "0 < length a" using assms(2) by linarith
    ultimately have "c ! i = a ! (if k = 0 then ?n else k)" using assms(2) by (simp add: nth_list_update)
    then show ?thesis using k(1) by (metis lessI less_Suc_eq)
  next
    case False
    then have "i = ?n" using that by simp
    then have "c ! i = a ! 0" using c(3) assms(2) by (simp add: same_outside_def nth_list_update)
    then show ?thesis by blast
  qed
  have "key (c ! i) \<le> key (c ! j)" if ij: "i < j" "?n \<le> j" "j < length c" for i j
  proof -
    have len: "length c = length a" using same_outside_length [OF c(3)] by simp
    have cj: "c ! j = (if j = ?n then a ! 0 else a ! j)"
      using c(3) ij assms(2) len by (auto simp: same_outside_def nth_list_update)
    show ?thesis
    proof (cases "i < Suc ?n")
      case True
      from mem [OF this] obtain k where k: "k < Suc ?n" "c ! i = a ! k" by blast
      show ?thesis
      proof (cases "j = ?n")
        case True
        then show ?thesis using k cj heap_root [of "Suc ?n" a k] H by simp
      next
        case False
        then show ?thesis using k cj ij H len by auto
      qed
    next
      case False
      then have "c ! i = a ! i" using c(3) assms(2) by (simp add: same_outside_def nth_list_update)
      then show ?thesis using False ij cj H len by auto
    qed
  qed
  then have "half_sorted ?n c" using c(2) by (auto simp: half_sorted_def)
  moreover have "mset c = mset a" using c(3) so by (simp add: same_outside_def)
  moreover have "swap_at a (Suc e) 0 = Some ?b"
    by (rule swap_at_eq) (use assms(2) in auto)
  ultimately show ?thesis using c(1) by blast
qed

lemma sort_down_sorted:
  assumes "set a \<subseteq> carrier" "e < length a" "half_sorted (Suc e) a"
  shows "\<exists>b. sort_down lt e a = Some b \<and> mset b = mset a \<and> sorted (map key b)"
  using assms
proof (induction e arbitrary: a)
  case 0
  have "sorted (map key a)" unfolding sorted_iff_nth_mono_less
    using 0(3) by (auto simp: half_sorted_def)
  then show ?case by simp
next
  case (Suc e)
  from half_sorted_step [OF Suc.prems] obtain b c where
    c: "swap_at a (Suc e) 0 = Some b" "sift lt (Suc e) 0 b = Some c" "half_sorted (Suc e) c" "mset c = mset a"
    by blast
  have "set c \<subseteq> carrier" "e < length c"
    using Suc.prems(1,2) c(4) by (metis set_mset_mset) (metis Suc_lessD Suc.prems(2) c(4) size_mset)
  from Suc.IH [OF this c(3)] c(1,2,4) show ?case by auto
qed

lemma heap_sort_sorted:
  assumes "set a \<subseteq> carrier"
  shows "\<exists>b. heap_sort lt (length a) a = Some b \<and> mset b = mset a \<and> sorted (map key b)"
proof (cases "a = []")
  case False
  let ?n = "length a"
  have "heap (?n div 2) ?n a" by (auto simp: heap_def child_def)
  from heapify_heap [OF assms order_refl this] obtain b where
    b: "heapify lt ?n (?n div 2) a = Some b" "heap 0 ?n b" "mset b = mset a" by blast
  have "set b \<subseteq> carrier" "length b = ?n" using assms b(3) by (metis set_mset_mset, metis size_mset)
  moreover have "half_sorted (Suc (?n - 1)) b"
    using False b(2) \<open>length b = ?n\<close> by (simp add: half_sorted_def)
  ultimately have "\<exists>c. sort_down lt (?n - 1) b = Some c \<and> mset c = mset b \<and> sorted (map key c)"
    using False by (intro sort_down_sorted) auto
  then show ?thesis using b by (auto simp: heap_sort_def)
qed (simp add: heap_sort_def)

end

text \<open>The client of the search: the comparison answers the sign of the key against the one sought.\<close>

locale searched =
  fixes cmp :: "'a \<Rightarrow> int option" and key :: "'a \<Rightarrow> 'k::linorder" and carrier :: "'a set" and k :: 'k
  assumes cmp_key: "x \<in> carrier \<Longrightarrow>
    \<exists>c. cmp x = Some c \<and> (c < 0 \<longleftrightarrow> key x < k) \<and> (c = 0 \<longleftrightarrow> key x = k)"
begin

lemma bin_search_range:
  assumes "set a \<subseteq> carrier" "sorted (map key a)" "0 \<le> l" "h < int (length a)"
  shows "\<exists>r. bin_search cmp a l h = Some r \<and>
    (case r of Some x \<Rightarrow> x \<in> set a \<and> key x = k
     | None \<Rightarrow> \<forall>i. l \<le> int i \<longrightarrow> int i \<le> h \<longrightarrow> key (a ! i) \<noteq> k)"
  using assms
proof (induction "nat (h + 1 - l)" arbitrary: l h rule: less_induct)
  case less
  show ?case
  proof (cases "h < l")
    case True
    then show ?thesis by (subst bin_search.simps) auto
  next
    case False
    define m where "m = nat ((l + h) div 2)"
    have m: "int m = (l + h) div 2" "l \<le> int m" "int m \<le> h" "m < length a"
      using False less.prems by (auto simp: m_def)
    then have "a ! m \<in> carrier" using less.prems(1) by auto
    from cmp_key [OF this] obtain c where
      c: "cmp (a ! m) = Some c" "c < 0 \<longleftrightarrow> key (a ! m) < k" "c = 0 \<longleftrightarrow> key (a ! m) = k" by blast
    have mono: "key (a ! i) \<le> key (a ! j)" if "i \<le> j" "j < length a" for i j
      using less.prems(2) that by (auto simp: sorted_iff_nth_mono)
    have step: "bin_search cmp a l h = (if c = 0 then Some (Some (a ! m))
        else if c < 0 then bin_search cmp a (int m + 1) h else bin_search cmp a l (int m - 1))"
      using False m c(1) by (subst bin_search.simps) (simp add: Let_def flip: m(1))
    consider "c = 0" | "c < 0" | "0 < c" by linarith
    then show ?thesis
    proof cases
      case 1
      then show ?thesis using step c(3) m(4) by auto
    next
      case 2
      have "\<exists>r. bin_search cmp a (int m + 1) h = Some r \<and>
          (case r of Some x \<Rightarrow> x \<in> set a \<and> key x = k
           | None \<Rightarrow> \<forall>i. int m + 1 \<le> int i \<longrightarrow> int i \<le> h \<longrightarrow> key (a ! i) \<noteq> k)"
        using less.hyps [of h "int m + 1"] less.prems m by simp
      then obtain r where r: "bin_search cmp a (int m + 1) h = Some r"
        "case r of Some x \<Rightarrow> x \<in> set a \<and> key x = k
           | None \<Rightarrow> \<forall>i. int m + 1 \<le> int i \<longrightarrow> int i \<le> h \<longrightarrow> key (a ! i) \<noteq> k" by blast
      have low: "key (a ! i) \<noteq> k" if "int i \<le> int m" for i
        using mono [of i m] that m(4) 2 c(2) by auto
      have "bin_search cmp a l h = Some r" using step 2 r(1) by simp
      moreover have "case r of Some x \<Rightarrow> x \<in> set a \<and> key x = k
           | None \<Rightarrow> \<forall>i. l \<le> int i \<longrightarrow> int i \<le> h \<longrightarrow> key (a ! i) \<noteq> k"
      proof (cases r)
        case None
        have "key (a ! i) \<noteq> k" if "l \<le> int i" "int i \<le> h" for i
          by (cases "int i \<le> int m") (use low that r(2) None in auto)
        then show ?thesis using None by simp
      qed (use r(2) in simp)
      ultimately show ?thesis by blast
    next
      case 3
      have "\<exists>r. bin_search cmp a l (int m - 1) = Some r \<and>
          (case r of Some x \<Rightarrow> x \<in> set a \<and> key x = k
           | None \<Rightarrow> \<forall>i. l \<le> int i \<longrightarrow> int i \<le> int m - 1 \<longrightarrow> key (a ! i) \<noteq> k)"
        using less.hyps [of "int m - 1" l] less.prems m by simp
      then obtain r where r: "bin_search cmp a l (int m - 1) = Some r"
        "case r of Some x \<Rightarrow> x \<in> set a \<and> key x = k
           | None \<Rightarrow> \<forall>i. l \<le> int i \<longrightarrow> int i \<le> int m - 1 \<longrightarrow> key (a ! i) \<noteq> k" by blast
      have high: "key (a ! i) \<noteq> k" if "int m \<le> int i" "int i \<le> h" for i
        using mono [of m i] that less.prems(4) 3 c(2,3) by auto
      have "bin_search cmp a l h = Some r" using step 3 r(1) by simp
      moreover have "case r of Some x \<Rightarrow> x \<in> set a \<and> key x = k
           | None \<Rightarrow> \<forall>i. l \<le> int i \<longrightarrow> int i \<le> h \<longrightarrow> key (a ! i) \<noteq> k"
      proof (cases r)
        case None
        have "key (a ! i) \<noteq> k" if "l \<le> int i" "int i \<le> h" for i
          by (cases "int m \<le> int i") (use high that r(2) None in auto)
        then show ?thesis using None by simp
      qed (use r(2) in simp)
      ultimately show ?thesis by blast
    qed
  qed
qed

lemma bin_search_complete:
  assumes "set a \<subseteq> carrier" "sorted (map key a)"
  shows "\<exists>r. bin_search cmp a 0 (int (length a) - 1) = Some r \<and>
    (case r of Some x \<Rightarrow> x \<in> set a \<and> key x = k | None \<Rightarrow> \<forall>x \<in> set a. key x \<noteq> k)"
proof -
  from bin_search_range [OF assms, of 0 "int (length a) - 1"] obtain r where
    "bin_search cmp a 0 (int (length a) - 1) = Some r"
    "case r of Some x \<Rightarrow> x \<in> set a \<and> key x = k
     | None \<Rightarrow> \<forall>i. 0 \<le> int i \<longrightarrow> int i \<le> int (length a) - 1 \<longrightarrow> key (a ! i) \<noteq> k" by auto
  then show ?thesis by (auto simp: in_set_conv_nth split: option.splits)
qed

end

end
