(* ===== verification/Zip_Dir.thy ===== *)
theory Zip_Dir
  imports Miniz_Checksum Zip_Sort
begin

text \<open>
  Opening a ZIP archive and asking for its files: the reader of \<^verbatim>\<open>xcore/src/miniz.c\<close> up to the
  extraction.  An operation is a computation on the \<^verbatim>\<open>mz_zip_archive\<close>; \<open>Returns_false\<close> is an early
  \<^verbatim>\<open>return MZ_FALSE\<close>, caught at the end of the function, and \<open>Bad_access\<close> a read or write outside a
  block, through \<^verbatim>\<open>NULL\<close>, or of memory that was never written.  The environment has the answers of
  \<^verbatim>\<open>malloc\<close>, of the read callback and of \<^verbatim>\<open>mktime\<close>, and the width of \<^verbatim>\<open>size_t\<close>.
\<close>

subsection \<open>The data\<close>

datatype zexc = Returns_false | Bad_access

record 'a mz_zip_array =
  m_p :: "'a option list option"
  m_size :: nat
  m_capacity :: nat
  m_element_size :: nat

record mz_zip_internal_state =
  m_central_dir :: "8 word mz_zip_array"
  m_central_dir_offsets :: "32 word mz_zip_array"
  m_sorted_central_dir_offsets :: "32 word mz_zip_array"
  m_pMem :: "bytes option"

datatype mz_zip_mode = MZ_ZIP_MODE_INVALID | MZ_ZIP_MODE_READING | MZ_ZIP_MODE_WRITING
  | MZ_ZIP_MODE_WRITING_HAS_BEEN_FINALIZED

text \<open>The values \<^verbatim>\<open>m_pRead\<close> takes: \<^verbatim>\<open>mz_zip_mem_read_func\<close>, or the callback of the user.\<close>

datatype read_func = Read_mem | Read_user

record mz_zip_archive =
  m_archive_size :: "64 word"
  m_central_directory_file_ofs :: "64 word"
  m_start_ofs :: "64 word"
  m_total_files :: "32 word"
  m_zip_mode :: mz_zip_mode
  m_pRead :: "read_func option"
  m_pState :: "mz_zip_internal_state option"

record tm =
  tm_year :: int
  tm_mon :: int
  tm_mday :: int
  tm_hour :: int
  tm_min :: int
  tm_sec :: int

record zenv =
  zmalloc :: "nat \<Rightarrow> bool"
  zread :: "64 word \<Rightarrow> nat \<Rightarrow> bytes"
  mktime :: "tm \<Rightarrow> int"
  size_t_64 :: bool

type_synonym 'a Z = "(zenv, mz_zip_archive, zexc, 'a) comp"

abbreviation return_false :: "'a Z" where "return_false \<equiv> failM Returns_false"

definition bool_result :: "'a Z \<Rightarrow> bool Z" where
  "bool_result m = (\<lambda>E z. case m E z of (Inl Returns_false, z') \<Rightarrow> (Inr False, z')
     | (Inl e, z') \<Rightarrow> (Inl e, z') | (Inr x, z') \<Rightarrow> (Inr True, z'))"

definition access :: "'a option \<Rightarrow> 'a Z" where
  "access x = (case x of None \<Rightarrow> failM Bad_access | Some v \<Rightarrow> retM v)"

definition pState :: "mz_zip_internal_state Z" where
  "pState = bindM (getM m_pState) access"

definition on_state :: "(mz_zip_internal_state \<Rightarrow> mz_zip_internal_state) \<Rightarrow> unit Z" where
  "on_state f = bindM pState (\<lambda>st. modM (\<lambda>z. z\<lparr>m_pState := Some (f st)\<rparr>))"

subsection \<open>Elements and characters\<close>

definition MZ_ZIP_ARRAY_ELEMENT :: "'a mz_zip_array \<Rightarrow> nat \<Rightarrow> 'a option" where
  "MZ_ZIP_ARRAY_ELEMENT a i = Option.bind (m_p a) (\<lambda>xs. Option.bind (at xs i) (\<lambda>x. x))"

definition MZ_TOLOWER :: "8 word \<Rightarrow> 8 word" where
  "MZ_TOLOWER c = (if 65 \<le> c \<and> c \<le> 90 then c - 65 + 97 else c)"

subsection \<open>Arrays\<close>

definition empty_array :: "nat \<Rightarrow> 'a mz_zip_array" where
  "empty_array sz = \<lparr>m_p = None, m_size = 0, m_capacity = 0, m_element_size = sz\<rparr>"

text \<open>\<^verbatim>\<open>while (new_capacity < min_new_capacity) new_capacity *= 2\<close>.\<close>

function grow_capacity :: "nat \<Rightarrow> nat \<Rightarrow> nat" where
  "grow_capacity c n = (if 0 < c \<and> c < n then grow_capacity (2 * c) n else c)"
  by auto
termination
  by (relation "measure (\<lambda>(c, n). n - c)") auto

declare grow_capacity.simps [simp del]

definition mz_zip_array_ensure_capacity ::
  "zenv \<Rightarrow> 'a mz_zip_array \<Rightarrow> nat \<Rightarrow> bool \<Rightarrow> bool \<times> 'a mz_zip_array" where
  "mz_zip_array_ensure_capacity E a n growing =
    (if n \<le> m_capacity a then (True, a) else
     let c = (if growing then grow_capacity (max 1 (m_capacity a)) n else n);
         old = (case m_p a of None \<Rightarrow> [] | Some xs \<Rightarrow> xs)
     in if zmalloc E (m_element_size a * c)
        then (True, a\<lparr>m_p := Some (take c old @ replicate (c - length old) None), m_capacity := c\<rparr>)
        else (False, a))"

definition mz_zip_array_resize ::
  "zenv \<Rightarrow> 'a mz_zip_array \<Rightarrow> nat \<Rightarrow> bool \<Rightarrow> bool \<times> 'a mz_zip_array" where
  "mz_zip_array_resize E a n growing =
    (if m_capacity a < n
     then (case mz_zip_array_ensure_capacity E a n growing of
             (False, a') \<Rightarrow> (False, a') | (True, a') \<Rightarrow> (True, a'\<lparr>m_size := n\<rparr>))
     else (True, a\<lparr>m_size := n\<rparr>))"

text \<open>A resize of one of the arrays of the archive that returns \<^verbatim>\<open>MZ_FALSE\<close> when it fails.\<close>

definition resize_or_fail ::
  "(mz_zip_internal_state \<Rightarrow> 'a mz_zip_array) \<Rightarrow>
   (('a mz_zip_array \<Rightarrow> 'a mz_zip_array) \<Rightarrow> mz_zip_internal_state \<Rightarrow> mz_zip_internal_state) \<Rightarrow>
   nat \<Rightarrow> unit Z" where
  "resize_or_fail get upd n = (\<lambda>E z.
    bindM pState (\<lambda>st. case mz_zip_array_resize E (get st) n False of (ok, a) \<Rightarrow>
      thenM (on_state (upd (\<lambda>_. a))) (whenM (\<not> ok) return_false)) E z)"

subsection \<open>Comparing names\<close>

text \<open>
  \<^verbatim>\<open>while (pL < pE)\<close>: the two bytes at which two names first differ, both in lower case; none when
  the loop reaches its end.
\<close>

fun name_diff :: "(nat \<Rightarrow> 8 word option) \<Rightarrow> (nat \<Rightarrow> 8 word option) \<Rightarrow> nat \<Rightarrow> nat \<Rightarrow> nat \<Rightarrow>
    (8 word \<times> 8 word) option option" where
  "name_diff f g pL pR 0 = Some None"
| "name_diff f g pL pR (Suc k) =
    Option.bind (f pL) (\<lambda>x. Option.bind (g pR) (\<lambda>y.
    let l = MZ_TOLOWER x; r = MZ_TOLOWER y in
    if l \<noteq> r then Some (Some (l, r)) else name_diff f g (pL + 1) (pR + 1) k))"

definition mz_zip_reader_filename_less ::
  "8 word mz_zip_array \<Rightarrow> 32 word mz_zip_array \<Rightarrow> 32 word \<Rightarrow> 32 word \<Rightarrow> bool option" where
  "mz_zip_reader_filename_less dir offsets l_index r_index =
    (let f = MZ_ZIP_ARRAY_ELEMENT dir in
     Option.bind (MZ_ZIP_ARRAY_ELEMENT offsets (unat l_index)) (\<lambda>pL.
     Option.bind (MZ_ZIP_ARRAY_ELEMENT offsets (unat r_index)) (\<lambda>pR.
     Option.bind (MZ_READ_LE16 f (unat pL + 28)) (\<lambda>l_len.
     Option.bind (MZ_READ_LE16 f (unat pR + 28)) (\<lambda>r_len.
     Option.bind (name_diff f f (unat pL + 46) (unat pR + 46) (unat (min l_len r_len))) (\<lambda>d.
     Some (case d of None \<Rightarrow> l_len < r_len | Some (l, r) \<Rightarrow> l < r)))))))"

definition mz_zip_reader_filename_compare ::
  "8 word mz_zip_array \<Rightarrow> 32 word mz_zip_array \<Rightarrow> 32 word \<Rightarrow> bytes \<Rightarrow> 32 word \<Rightarrow> int option" where
  "mz_zip_reader_filename_compare dir offsets l_index pR r_len =
    (let f = MZ_ZIP_ARRAY_ELEMENT dir in
     Option.bind (MZ_ZIP_ARRAY_ELEMENT offsets (unat l_index)) (\<lambda>pL.
     Option.bind (MZ_READ_LE16 f (unat pL + 28)) (\<lambda>l_len.
     Option.bind (name_diff f (at pR) (unat pL + 46) 0 (unat (min l_len r_len))) (\<lambda>d.
     Some (case d of None \<Rightarrow> sint (l_len - r_len) | Some (l, r) \<Rightarrow> uint l - uint r)))))"

subsection \<open>Opening\<close>

definition mz_zip_reader_init_internal :: "bool Z" where
  "mz_zip_reader_init_internal = bool_result (\<lambda>E z.
     if m_pState z \<noteq> None \<or> m_zip_mode z \<noteq> MZ_ZIP_MODE_INVALID then return_false E z
     else (let z = z\<lparr>m_zip_mode := MZ_ZIP_MODE_READING, m_archive_size := 0,
                     m_central_directory_file_ofs := 0, m_total_files := 0\<rparr>
           in if \<not> zmalloc E 1 then return_false E z
              else (Inr (), z\<lparr>m_pState := Some \<lparr>m_central_dir = empty_array 1,
                m_central_dir_offsets = empty_array 4, m_sorted_central_dir_offsets = empty_array 4,
                m_pMem = None\<rparr>\<rparr>)))"

definition mz_zip_mem_read_func :: "mz_zip_archive \<Rightarrow> 64 word \<Rightarrow> nat \<Rightarrow> bytes option" where
  "mz_zip_mem_read_func z file_ofs n =
    (let s = (if m_archive_size z \<le> file_ofs then 0 else min (unat (m_archive_size z - file_ofs)) n)
     in Option.bind (m_pState z) (\<lambda>st. Option.bind (m_pMem st) (\<lambda>mem.
        memcpy_from (at mem) (unat file_ofs) s)))"

text \<open>A call of \<^verbatim>\<open>m_pRead\<close>: the bytes it stores in the buffer, as many as it returns.\<close>

definition pRead :: "64 word \<Rightarrow> nat \<Rightarrow> bytes Z" where
  "pRead file_ofs n = (\<lambda>E z. case m_pRead z of None \<Rightarrow> (Inl Bad_access, z)
     | Some Read_user \<Rightarrow> (Inr (zread E file_ofs n), z)
     | Some Read_mem \<Rightarrow> access (mz_zip_mem_read_func z file_ofs n) E z)"

definition read_exactly :: "64 word \<Rightarrow> nat \<Rightarrow> bytes Z" where
  "read_exactly file_ofs n = bindM (pRead file_ofs n) (\<lambda>b. if length b \<noteq> n then return_false else retM b)"

text \<open>
  \<^verbatim>\<open>for (i = n - 4; i >= 0; --i)\<close>: the last place below \<open>k\<close> at which the buffer has the signature
  of the end record.
\<close>

fun find_sig :: "bytes \<Rightarrow> nat \<Rightarrow> nat option option" where
  "find_sig b 0 = Some None"
| "find_sig b (Suc i) = Option.bind (MZ_READ_LE32 (at b) i) (\<lambda>s.
     if s = 0x06054b50 then Some (Some i) else find_sig b i)"

text \<open>
  The offset of the next window.  \<^verbatim>\<open>MZ_MAX(cur_file_ofs - (sizeof(buf_u32) - 3), 0)\<close>: where \<^verbatim>\<open>size_t\<close> has
  64 bits the difference is unsigned and the maximum does nothing.
\<close>

definition prev_window :: "bool \<Rightarrow> 64 word \<Rightarrow> 64 word" where
  "prev_window wide cur = (if wide then max (cur - 4093) 0
     else if sint (cur - 4093) < 0 then 0 else cur - 4093)"

text \<open>The scan from the end of the file towards its beginning, with what a read answers.\<close>

function find_end_record ::
  "(64 word \<Rightarrow> nat \<Rightarrow> zexc + bytes) \<Rightarrow> bool \<Rightarrow> 64 word \<Rightarrow> 64 word \<Rightarrow> zexc + 64 word" where
  "find_end_record rd wide archive_size cur =
    (let n = unat (min 4096 (archive_size - cur)) in
     case rd cur n of Inl e \<Rightarrow> Inl e
     | Inr pBuf \<Rightarrow> (case find_sig pBuf (n - 3) of
         None \<Rightarrow> Inl Bad_access
       | Some (Some i) \<Rightarrow> Inr (cur + of_nat i)
       | Some None \<Rightarrow> if cur = 0 \<or> 0xFFFF + 22 \<le> archive_size - cur then Inl Returns_false
           else find_end_record rd wide archive_size (prev_window wide cur)))"
  by auto

text \<open>
  The loop ends: a window that is not the first moves the distance to the end of the file up by 4093,
  and from 65557 on there is no further window.
\<close>

lemma prev_window_distance:
  fixes n cur :: "64 word"
  assumes "\<not> 0xFFFF + 22 \<le> n - cur" "prev_window wide cur \<noteq> 0"
  shows "unat (n - prev_window wide cur) = unat (n - cur) + 4093"
proof -
  have e: "n - prev_window wide cur = (n - cur) + 4093"
    using assms(2) by (auto simp: prev_window_def split: if_splits)
  have "unat (n - cur) < 65557" using assms(1) by (simp add: word_le_nat_alt)
  then show ?thesis unfolding e by (subst unat_add_lem [THEN iffD1]) simp_all
qed

termination find_end_record
  by (relation "measure (\<lambda>(rd, wide, n, cur). if cur = 0 then 0 else Suc (65557 - unat (n - cur)))")
    (auto simp: prev_window_distance word_le_nat_alt)

declare find_end_record.simps [simp del]

text \<open>Writing an element of an array of the archive.\<close>

definition set_element ::
  "(mz_zip_internal_state \<Rightarrow> 'a mz_zip_array) \<Rightarrow>
   (('a mz_zip_array \<Rightarrow> 'a mz_zip_array) \<Rightarrow> mz_zip_internal_state \<Rightarrow> mz_zip_internal_state) \<Rightarrow>
   nat \<Rightarrow> 'a \<Rightarrow> unit Z" where
  "set_element get upd i v = bindM pState (\<lambda>st. case m_p (get st) of
     None \<Rightarrow> failM Bad_access
   | Some xs \<Rightarrow> if i < length xs then on_state (upd (\<lambda>a. a\<lparr>m_p := Some (xs[i := Some v])\<rparr>))
       else failM Bad_access)"

definition cd16 :: "nat \<Rightarrow> 32 word Z" where
  "cd16 p = bindM pState (\<lambda>st. access (MZ_READ_LE16 (MZ_ZIP_ARRAY_ELEMENT (m_central_dir st)) p))"

definition cd32 :: "nat \<Rightarrow> 32 word Z" where
  "cd32 p = bindM pState (\<lambda>st. access (MZ_READ_LE32 (MZ_ZIP_ARRAY_ELEMENT (m_central_dir st)) p))"

text \<open>The checks of one record that compare sizes.\<close>

definition record_check :: "32 word \<Rightarrow> nat \<Rightarrow> unit Z" where
  "record_check num_this_disk p =
    bindM (cd32 (p + 20)) (\<lambda>comp_size.
    bindM (cd32 (p + 24)) (\<lambda>decomp_size.
    bindM (cd32 (p + 10)) (\<lambda>method.
    if method = 0 \<and> decomp_size \<noteq> comp_size \<or> decomp_size \<noteq> 0 \<and> comp_size = 0
      \<or> decomp_size = 0xFFFFFFFF \<or> comp_size = 0xFFFFFFFF then return_false else
    bindM (cd16 (p + 34)) (\<lambda>disk_index.
    if disk_index \<noteq> num_this_disk \<and> disk_index \<noteq> 1 then return_false else
    bindM (cd32 (p + 42)) (\<lambda>local_ofs.
    bindM (getM m_archive_size) (\<lambda>archive_size.
    whenM (archive_size < ucast local_ofs + 30 + ucast comp_size) return_false))))))"

text \<open>
  The loop over the records: \<open>k\<close> records are left, \<open>i\<close> is the index of the next one, \<open>p\<close> its offset
  in the directory and \<open>n\<close> the number of bytes from there.
\<close>

fun index_records :: "32 word \<Rightarrow> nat \<Rightarrow> nat \<Rightarrow> nat \<Rightarrow> nat \<Rightarrow> unit Z" where
  "index_records disk 0 i n p = retM ()"
| "index_records disk (Suc k) i n p =
    (if n < 46 then return_false else
     bindM (cd32 p) (\<lambda>sig. if sig \<noteq> 0x02014b50 then return_false else
     thenM (set_element m_central_dir_offsets m_central_dir_offsets_update i (of_nat p))
    (thenM (set_element m_sorted_central_dir_offsets m_sorted_central_dir_offsets_update i (of_nat i))
    (thenM (record_check disk p)
    (bindM (cd16 (p + 28)) (\<lambda>name_len.
     bindM (cd16 (p + 30)) (\<lambda>extra_len.
     bindM (cd16 (p + 32)) (\<lambda>comment_len.
     let total_header_size = 46 + unat name_len + unat extra_len + unat comment_len in
     if n < total_header_size then return_false
     else index_records disk k (i + 1) (n - total_header_size) (p + total_header_size)))))))))"

definition mz_zip_reader_sort_central_dir_offsets_by_filename :: "unit Z" where
  "mz_zip_reader_sort_central_dir_offsets_by_filename =
    bindM pState (\<lambda>st. bindM (getM m_total_files) (\<lambda>n.
    case m_p (m_sorted_central_dir_offsets st) of
      None \<Rightarrow> if n \<le> 1 then retM () else failM Bad_access
    | Some xs \<Rightarrow>
       bindM (access (heap_sort
           (\<lambda>x y. Option.bind x (\<lambda>l. Option.bind y (\<lambda>r.
              mz_zip_reader_filename_less (m_central_dir st) (m_central_dir_offsets st) l r)))
           (unat n) xs)) (\<lambda>ys.
       on_state (m_sorted_central_dir_offsets_update (\<lambda>a. a\<lparr>m_p := Some ys\<rparr>)))))"

text \<open>The directory itself: three blocks, the bytes, and the index of the records.\<close>

definition load_records :: "32 word \<Rightarrow> 64 word \<Rightarrow> 32 word \<Rightarrow> 32 word \<Rightarrow> unit Z" where
  "load_records num_this_disk cdir_ofs cdir_size n_files =
    thenM (resize_or_fail m_central_dir m_central_dir_update (unat cdir_size))
   (thenM (resize_or_fail m_central_dir_offsets m_central_dir_offsets_update (unat n_files))
   (thenM (resize_or_fail m_sorted_central_dir_offsets m_sorted_central_dir_offsets_update (unat n_files))
   (bindM (read_exactly cdir_ofs (unat cdir_size)) (\<lambda>b.
    thenM (on_state (m_central_dir_update (\<lambda>a. a\<lparr>m_p := Some (map Some b)\<rparr>)))
   (index_records num_this_disk (unat n_files) 0 (unat cdir_size) 0)))))"

definition first_window :: "64 word \<Rightarrow> 64 word" where
  "first_window archive_size = (if sint archive_size - 4096 < 0 then 0 else archive_size - 4096)"

definition locate_end_record :: "64 word Z" where
  "locate_end_record = (\<lambda>E z. (find_end_record (\<lambda>ofs n. fst (read_exactly ofs n E z)) (size_t_64 E)
     (m_archive_size z) (first_window (m_archive_size z)), z))"

text \<open>What the end record says is checked, and the directory it points to is loaded.\<close>

definition use_end_record :: "32 word \<Rightarrow> 64 word \<Rightarrow> 64 word \<Rightarrow> bytes \<Rightarrow> unit Z" where
  "use_end_record flags archive_size cur_file_ofs pBuf =
    bindM (access (MZ_READ_LE32 (at pBuf) 0)) (\<lambda>sig.
    if sig \<noteq> 0x06054b50 then return_false else
    bindM (access (MZ_READ_LE16 (at pBuf) 10)) (\<lambda>n_files.
    bindM (access (MZ_READ_LE16 (at pBuf) 8)) (\<lambda>n_on_disk.
    thenM (modM (\<lambda>z. z\<lparr>m_total_files := n_files\<rparr>))
   (if n_files \<noteq> n_on_disk then return_false else
    bindM (access (MZ_READ_LE16 (at pBuf) 4)) (\<lambda>num_this_disk.
    bindM (access (MZ_READ_LE16 (at pBuf) 6)) (\<lambda>cdir_disk_index.
    if num_this_disk OR cdir_disk_index \<noteq> 0 \<and> (num_this_disk \<noteq> 1 \<or> cdir_disk_index \<noteq> 1) then return_false else
    bindM (access (MZ_READ_LE32 (at pBuf) 12)) (\<lambda>cdir_size.
    if cdir_size < n_files * 46 then return_false else
    bindM (access (MZ_READ_LE32 (at pBuf) 16)) (\<lambda>stated_ofs.
    let cdir_ofs = cur_file_ofs - ucast cdir_size in
    thenM (modM (\<lambda>z. z\<lparr>m_start_ofs := cdir_ofs - ucast stated_ofs\<rparr>))
   (if archive_size < cdir_ofs + ucast cdir_size then return_false else
    thenM (modM (\<lambda>z. z\<lparr>m_central_directory_file_ofs := cdir_ofs\<rparr>))
   (thenM (whenM (n_files \<noteq> 0) (load_records num_this_disk cdir_ofs cdir_size n_files))
   (whenM (flags AND 0x0800 = 0) mz_zip_reader_sort_central_dir_offsets_by_filename)))))))))))"

definition mz_zip_reader_read_central_dir :: "32 word \<Rightarrow> bool Z" where
  "mz_zip_reader_read_central_dir flags = bool_result (
    bindM (getM m_archive_size) (\<lambda>archive_size.
    if archive_size < 22 then return_false else
    bindM locate_end_record (\<lambda>cur_file_ofs.
    bindM (read_exactly cur_file_ofs 22) (\<lambda>pBuf.
    use_end_record flags archive_size cur_file_ofs pBuf))))"

definition mz_zip_reader_end :: "bool Z" where
  "mz_zip_reader_end = (\<lambda>E z. if m_pState z = None \<or> m_zip_mode z \<noteq> MZ_ZIP_MODE_READING
     then (Inr False, z)
     else (Inr True, z\<lparr>m_pState := None, m_zip_mode := MZ_ZIP_MODE_INVALID\<rparr>))"

text \<open>The end of both opening functions: the directory is read, or everything is released.\<close>

definition read_dir_or_end :: "32 word \<Rightarrow> bool Z" where
  "read_dir_or_end flags = bindM (mz_zip_reader_read_central_dir flags) (\<lambda>ok.
     if \<not> ok then thenM mz_zip_reader_end (retM False) else retM True)"

definition mz_zip_reader_init :: "64 word \<Rightarrow> 32 word \<Rightarrow> bool Z" where
  "mz_zip_reader_init sz flags = bindM (getM m_pRead) (\<lambda>rd.
     if rd = None then retM False else
     bindM mz_zip_reader_init_internal (\<lambda>ok. if \<not> ok then retM False else
     thenM (modM (\<lambda>z. z\<lparr>m_archive_size := sz\<rparr>)) (read_dir_or_end flags)))"

definition mz_zip_reader_init_mem :: "bytes \<Rightarrow> 32 word \<Rightarrow> bool Z" where
  "mz_zip_reader_init_mem mem flags =
     bindM mz_zip_reader_init_internal (\<lambda>ok. if \<not> ok then retM False else
     thenM (modM (\<lambda>z. z\<lparr>m_archive_size := of_nat (length mem), m_pRead := Some Read_mem\<rparr>))
    (thenM (on_state (\<lambda>st. st\<lparr>m_pMem := Some mem\<rparr>)) (read_dir_or_end flags)))"

end
