(* ===== verification/Zip_Query.thy ===== *)
theory Zip_Query
  imports Zip_Dir
begin

text \<open>
  What a program asks of an open archive: the accessors of \<^verbatim>\<open>xcore/src/miniz.c\<close> from
  \<^verbatim>\<open>mz_zip_reader_get_num_files\<close> to \<^verbatim>\<open>mz_zip_reader_locate_file\<close>.
\<close>

definition mz_zip_reader_get_num_files :: "32 word Z" where
  "mz_zip_reader_get_num_files = getM m_total_files"

text \<open>The offset of a record in the directory; \<open>None\<close> is the \<^verbatim>\<open>NULL\<close> the function returns.\<close>

definition mz_zip_reader_get_cdh :: "32 word \<Rightarrow> nat option Z" where
  "mz_zip_reader_get_cdh file_index = (\<lambda>E z.
     if m_pState z = None \<or> m_total_files z \<le> file_index \<or> m_zip_mode z \<noteq> MZ_ZIP_MODE_READING
     then (Inr None, z)
     else bindM pState (\<lambda>st.
       bindM (access (MZ_ZIP_ARRAY_ELEMENT (m_central_dir_offsets st) (unat file_index))) (\<lambda>p.
       retM (Some (unat p)))) E z)"

text \<open>A function that returns \<open>d\<close> when there is no record.\<close>

definition with_cdh :: "32 word \<Rightarrow> 'a \<Rightarrow> (nat \<Rightarrow> 'a Z) \<Rightarrow> 'a Z" where
  "with_cdh file_index d f = bindM (mz_zip_reader_get_cdh file_index) (\<lambda>p.
     case p of None \<Rightarrow> retM d | Some p \<Rightarrow> f p)"

definition mz_zip_reader_is_file_encrypted :: "32 word \<Rightarrow> bool Z" where
  "mz_zip_reader_is_file_encrypted file_index = with_cdh file_index False (\<lambda>p.
     bindM (cd16 (p + 8)) (\<lambda>m_bit_flag. retM (m_bit_flag AND 1 \<noteq> 0)))"

definition cd_copy :: "nat \<Rightarrow> nat \<Rightarrow> bytes Z" where
  "cd_copy p n = bindM pState (\<lambda>st. access (memcpy_from (MZ_ZIP_ARRAY_ELEMENT (m_central_dir st)) p n))"

definition mz_zip_reader_is_file_a_directory :: "32 word \<Rightarrow> bool Z" where
  "mz_zip_reader_is_file_a_directory file_index = with_cdh file_index False (\<lambda>p.
     bindM (cd16 (p + 36)) (\<lambda>internal_attr.
     bindM (cd32 (p + 38)) (\<lambda>external_attr.
     if internal_attr = 0 \<and> external_attr AND 0x10 \<noteq> 0 then retM True else
     bindM (cd16 (p + 28)) (\<lambda>filename_len.
     if filename_len = 0 then retM False else
     bindM (cd_copy (p + 46 + unat filename_len - 1) 1) (\<lambda>c. retM (c = [47]))))))"

definition mz_zip_dos_to_tm :: "32 word \<Rightarrow> 32 word \<Rightarrow> tm" where
  "mz_zip_dos_to_tm dos_time dos_date =
    \<lparr>tm_year = uint (drop_bit 9 dos_date AND 127) + 1980 - 1900,
     tm_mon = uint (drop_bit 5 dos_date AND 15) - 1,
     tm_mday = uint (dos_date AND 31),
     tm_hour = uint (drop_bit 11 dos_time AND 31),
     tm_min = uint (drop_bit 5 dos_time AND 63),
     tm_sec = uint (push_bit 1 dos_time AND 62)\<rparr>"

definition mz_zip_dos_to_time_t :: "32 word \<Rightarrow> 32 word \<Rightarrow> int Z" where
  "mz_zip_dos_to_time_t dos_time dos_date = askM (\<lambda>E. mktime E (mz_zip_dos_to_tm dos_time dos_date))"

record mz_zip_archive_file_stat =
  m_file_index :: "32 word"
  m_central_dir_ofs :: "32 word"
  m_version_made_by :: "32 word"
  m_version_needed :: "32 word"
  m_bit_flag :: "32 word"
  m_method :: "32 word"
  m_time :: int
  m_crc32 :: "32 word"
  m_comp_size :: "64 word"
  m_uncomp_size :: "64 word"
  m_internal_attr :: "32 word"
  m_external_attr :: "32 word"
  m_local_header_ofs :: "64 word"
  m_comment_size :: "32 word"
  m_filename :: bytes
  m_comment :: bytes

text \<open>
  \<^verbatim>\<open>None\<close> is the answer \<^verbatim>\<open>MZ_FALSE\<close>.  The two strings are the bytes before the terminator the code
  writes; 260 and 256 are the sizes of their buffers.
\<close>

definition mz_zip_reader_file_stat :: "32 word \<Rightarrow> mz_zip_archive_file_stat option Z" where
  "mz_zip_reader_file_stat file_index = with_cdh file_index None (\<lambda>p.
     bindM (cd16 (p + 4)) (\<lambda>version_made_by.
     bindM (cd16 (p + 6)) (\<lambda>version_needed.
     bindM (cd16 (p + 8)) (\<lambda>bit_flag.
     bindM (cd16 (p + 10)) (\<lambda>method.
     bindM (cd16 (p + 12)) (\<lambda>dos_time.
     bindM (cd16 (p + 14)) (\<lambda>dos_date.
     bindM (mz_zip_dos_to_time_t dos_time dos_date) (\<lambda>time.
     bindM (cd32 (p + 16)) (\<lambda>crc.
     bindM (cd32 (p + 20)) (\<lambda>comp_size.
     bindM (cd32 (p + 24)) (\<lambda>uncomp_size.
     bindM (cd16 (p + 36)) (\<lambda>internal_attr.
     bindM (cd32 (p + 38)) (\<lambda>external_attr.
     bindM (cd32 (p + 42)) (\<lambda>local_ofs.
     bindM (getM m_start_ofs) (\<lambda>start_ofs.
     bindM (cd16 (p + 28)) (\<lambda>name_len.
     bindM (cd_copy (p + 46) (min (unat name_len) (260 - 1))) (\<lambda>filename.
     bindM (cd16 (p + 32)) (\<lambda>comment_len.
     bindM (cd16 (p + 30)) (\<lambda>extra_len.
     bindM (cd_copy (p + 46 + unat name_len + unat extra_len) (min (unat comment_len) (256 - 1))) (\<lambda>comment.
     retM (Some \<lparr>m_file_index = file_index, m_central_dir_ofs = of_nat p,
       m_version_made_by = version_made_by, m_version_needed = version_needed,
       m_bit_flag = bit_flag, m_method = method, m_time = time, m_crc32 = crc,
       m_comp_size = ucast comp_size, m_uncomp_size = ucast uncomp_size,
       m_internal_attr = internal_attr, m_external_attr = external_attr,
       m_local_header_ofs = ucast local_ofs + start_ofs,
       m_comment_size = of_nat (length comment), m_filename = filename,
       m_comment = comment\<rparr>)))))))))))))))))))))"

text \<open>
  The returned number, and the string in the buffer of the caller; \<open>None\<close> for a buffer of size 0,
  which is not written.
\<close>

definition mz_zip_reader_get_filename :: "32 word \<Rightarrow> 32 word \<Rightarrow> (32 word \<times> bytes option) Z" where
  "mz_zip_reader_get_filename file_index buf_size =
    with_cdh file_index (0, if buf_size = 0 then None else Some []) (\<lambda>p.
     bindM (cd16 (p + 28)) (\<lambda>n.
     if buf_size = 0 then retM (n + 1, None) else
     let n = min n (buf_size - 1) in
     bindM (cd_copy (p + 46) (unat n)) (\<lambda>name. retM (n + 1, Some name))))"

subsection \<open>Finding a file by its name\<close>

text \<open>The comparison of \<open>k\<close> bytes with or without regard to case.\<close>

fun equal_bytes :: "bool \<Rightarrow> (nat \<Rightarrow> 8 word option) \<Rightarrow> nat \<Rightarrow> (nat \<Rightarrow> 8 word option) \<Rightarrow> nat \<Rightarrow> nat \<Rightarrow> bool option" where
  "equal_bytes cs f p g q 0 = Some True"
| "equal_bytes cs f p g q (Suc k) =
    Option.bind (f p) (\<lambda>x. Option.bind (g q) (\<lambda>y.
    if (if cs then x \<noteq> y else MZ_TOLOWER x \<noteq> MZ_TOLOWER y) then Some False
    else equal_bytes cs f (p + 1) g (q + 1) k))"

definition mz_zip_reader_string_equal ::
  "(nat \<Rightarrow> 8 word option) \<Rightarrow> nat \<Rightarrow> (nat \<Rightarrow> 8 word option) \<Rightarrow> nat \<Rightarrow> nat \<Rightarrow> 32 word \<Rightarrow> bool option" where
  "mz_zip_reader_string_equal f p g q n flags = equal_bytes (flags AND 0x0100 \<noteq> 0) f p g q n"

text \<open>The \<^verbatim>\<open>do ... while (--ofs >= 0)\<close>: the place after the last separator among \<open>k\<close> bytes.\<close>

fun base_ofs :: "(nat \<Rightarrow> 8 word option) \<Rightarrow> nat \<Rightarrow> nat \<Rightarrow> nat option" where
  "base_ofs f p 0 = Some 0"
| "base_ofs f p (Suc k) = Option.bind (f (p + k)) (\<lambda>c.
     if c = 47 \<or> c = 92 \<or> c = 58 then Some (Suc k) else base_ofs f p k)"

text \<open>Whether one record matches.  A name is a C string, without its terminator.\<close>

definition record_matches ::
  "(nat \<Rightarrow> 8 word option) \<Rightarrow> nat \<Rightarrow> bytes \<Rightarrow> bytes option \<Rightarrow> 32 word \<Rightarrow> bool option" where
  "record_matches f p name comment flags =
    Option.bind (MZ_READ_LE16 f (p + 28)) (\<lambda>filename_len.
    if unat filename_len < length name then Some False else
    Option.bind (case comment of None \<Rightarrow> Some True | Some c \<Rightarrow>
       if c = [] then Some True else
       Option.bind (MZ_READ_LE16 f (p + 30)) (\<lambda>extra_len.
       Option.bind (MZ_READ_LE16 f (p + 32)) (\<lambda>comment_len.
       if unat comment_len \<noteq> length c then Some False
       else mz_zip_reader_string_equal (at c) 0 f
              (p + 46 + unat filename_len + unat extra_len) (unat comment_len) flags))) (\<lambda>ok.
    if \<not> ok then Some False else
    Option.bind (if flags AND 0x0200 \<noteq> 0 \<and> filename_len \<noteq> 0
       then base_ofs f (p + 46) (unat filename_len) else Some 0) (\<lambda>ofs.
    if unat filename_len - ofs = length name
    then mz_zip_reader_string_equal (at name) 0 f (p + 46 + ofs) (unat filename_len - ofs) flags
    else Some False)))"

text \<open>\<^verbatim>\<open>for (file_index = 0; file_index < pZip->m_total_files; file_index++)\<close> with \<open>k\<close> files left.\<close>

fun scan_records ::
  "mz_zip_internal_state \<Rightarrow> bytes \<Rightarrow> bytes option \<Rightarrow> 32 word \<Rightarrow> nat \<Rightarrow> nat \<Rightarrow> int option" where
  "scan_records st name comment flags 0 i = Some (-1)"
| "scan_records st name comment flags (Suc k) i =
    Option.bind (MZ_ZIP_ARRAY_ELEMENT (m_central_dir_offsets st) i) (\<lambda>p.
    Option.bind (record_matches (MZ_ZIP_ARRAY_ELEMENT (m_central_dir st)) (unat p) name comment flags) (\<lambda>ok.
    if ok then Some (int i) else scan_records st name comment flags k (i + 1)))"

definition mz_zip_reader_locate_file_binary_search :: "bytes \<Rightarrow> int Z" where
  "mz_zip_reader_locate_file_binary_search pFilename =
    bindM pState (\<lambda>st. bindM (getM m_total_files) (\<lambda>n.
    let a = (case m_p (m_sorted_central_dir_offsets st) of None \<Rightarrow> [] | Some xs \<Rightarrow> xs);
        cmp = (\<lambda>x. Option.bind x (\<lambda>file_index. mz_zip_reader_filename_compare (m_central_dir st)
                 (m_central_dir_offsets st) file_index pFilename (of_nat (length pFilename))))
    in bindM (access (bin_search cmp a 0 (uint n - 1))) (\<lambda>r. case r of
         None \<Rightarrow> retM (-1) | Some x \<Rightarrow> bindM (access x) (\<lambda>file_index. retM (uint file_index)))))"

definition mz_zip_reader_locate_file :: "bytes \<Rightarrow> bytes option \<Rightarrow> 32 word \<Rightarrow> int Z" where
  "mz_zip_reader_locate_file name comment flags = (\<lambda>E z. case m_pState z of
     None \<Rightarrow> (Inr (-1), z)
   | Some st \<Rightarrow>
      if m_zip_mode z \<noteq> MZ_ZIP_MODE_READING then (Inr (-1), z)
      else if flags AND (0x0200 OR 0x0100) = 0 \<and> comment = None \<and> m_p (m_sorted_central_dir_offsets st) \<noteq> None
      then mz_zip_reader_locate_file_binary_search name E z
      else if 0xFFFF < length name then (Inr (-1), z)
      else if 0xFFFF < length (case comment of None \<Rightarrow> [] | Some c \<Rightarrow> c) then (Inr (-1), z)
      else access (scan_records st name comment flags (unat (m_total_files z)) 0) E z)"

end
