(* ===== verification/Tinfl_Huff.thy ===== *)
theory Tinfl_Huff
  imports Miniz_Mem
begin

text \<open>
  The decoding table of a Huffman code, as \<^verbatim>\<open>tinfl_decompress\<close> in \<^verbatim>\<open>xcore/src/miniz.c\<close> builds it from the
  lengths of the code words: 1024 entries indexed by the next ten bits of the input, and a tree for the
  code words that are longer.  \<open>None\<close> is an access outside an array.
\<close>

record tinfl_huff_table =
  m_code_size :: "nat list"
  m_look_up :: "int list"
  m_tree :: "int list"

text \<open>\<^verbatim>\<open>for (i = 0; i < table_size; ++i) total_syms[m_code_size[i]]++\<close>\<close>

fun total_syms :: "nat list \<Rightarrow> nat list \<Rightarrow> nat list option" where
  "total_syms [] t = Some t"
| "total_syms (c # cs) t = Option.bind (at t c) (\<lambda>n. Option.bind (put t c (n + 1)) (total_syms cs))"

text \<open>
  \<^verbatim>\<open>for (i = 1; i <= 15; ++i)\<close> with \<open>k\<close> turns left: the number of used symbols, the total, and the
  first code word of each length.
\<close>

fun next_codes :: "nat list \<Rightarrow> nat \<Rightarrow> nat \<Rightarrow> nat \<Rightarrow> nat \<Rightarrow> nat list \<Rightarrow> (nat \<times> nat \<times> nat list) option" where
  "next_codes ts 0 i used tot next = Some (used, tot, next)"
| "next_codes ts (Suc k) i used tot next =
    Option.bind (at ts i) (\<lambda>n. Option.bind (put next (i + 1) (2 * (tot + n)))
      (next_codes ts k (i + 1) (used + n) (2 * (tot + n))))"

text \<open>\<^verbatim>\<open>for (l = code_size; l > 0; l--, cur_code >>= 1) rev_code = (rev_code << 1) | (cur_code & 1)\<close>\<close>

fun rev_code :: "nat \<Rightarrow> nat \<Rightarrow> nat \<Rightarrow> nat" where
  "rev_code 0 cur r = r"
| "rev_code (Suc l) cur r = rev_code l (cur div 2) (2 * r + cur mod 2)"

text \<open>\<^verbatim>\<open>while (rev_code < TINFL_FAST_LOOKUP_SIZE)\<close>\<close>

function fill_look_up :: "int list \<Rightarrow> nat \<Rightarrow> nat \<Rightarrow> int \<Rightarrow> int list option" where
  "fill_look_up t r code_size k = (if 1024 \<le> r then Some t else
     Option.bind (put t r k) (\<lambda>t. fill_look_up t (r + 2 ^ code_size) code_size k))"
  by auto
termination
  by (relation "measure (\<lambda>(t, r, code_size, k). 1024 - r)")
    (auto intro!: diff_less_mono2 simp: diff_less_mono2)

declare fill_look_up.simps [simp del]

text \<open>
  \<^verbatim>\<open>for (j = code_size; j > TINFL_FAST_LOOKUP_BITS + 1; j--)\<close> with \<open>k\<close> turns left: one level of the tree
  for each bit, made when it is missing.
\<close>

fun grow_tree :: "nat \<Rightarrow> nat \<Rightarrow> int list \<Rightarrow> int \<Rightarrow> int \<Rightarrow> (nat \<times> int list \<times> int \<times> int) option" where
  "grow_tree 0 r tree cur next = Some (r, tree, cur, next)"
| "grow_tree (Suc k) r tree cur next =
    (let r = r div 2; cur = cur - int (r mod 2) in
     Option.bind (at_int tree (- cur - 1)) (\<lambda>t.
     if t = 0 then Option.bind (put_int tree (- cur - 1) next) (\<lambda>tree. grow_tree k r tree next (next - 2))
     else grow_tree k r tree t next))"

text \<open>One symbol: the next code of its length, in reverse, and its entries.\<close>

definition add_symbol ::
  "nat \<Rightarrow> nat \<Rightarrow> nat list \<times> int list \<times> int list \<times> int \<Rightarrow> (nat list \<times> int list \<times> int list \<times> int) option" where
  "add_symbol sy code_size = (\<lambda>(next, look_up, tree, tree_next).
    if code_size = 0 then Some (next, look_up, tree, tree_next) else
    Option.bind (at next code_size) (\<lambda>cur_code.
    Option.bind (put next code_size (cur_code + 1)) (\<lambda>next.
    let r = rev_code code_size cur_code 0 in
    if code_size \<le> 10 then
      Option.bind (fill_look_up look_up r code_size (int (push_bit 9 code_size OR sy))) (\<lambda>look_up.
      Some (next, look_up, tree, tree_next))
    else
      Option.bind (at look_up (r mod 1024)) (\<lambda>t.
      Option.bind (if t = 0 then put look_up (r mod 1024) tree_next else Some look_up) (\<lambda>look_up.
      let cur = (if t = 0 then tree_next else t); tree_next = (if t = 0 then tree_next - 2 else tree_next) in
      Option.bind (grow_tree (code_size - 11) (r div 512) tree cur tree_next) (\<lambda>(r, tree, cur, tree_next).
      let cur = cur - int (r div 2 mod 2) in
      Option.bind (put_int tree (- cur - 1) (int sy)) (\<lambda>tree.
      Some (next, look_up, tree, tree_next))))))))"

text \<open>\<^verbatim>\<open>for (...; sym_index < r->m_table_sizes[r->m_type]; ++sym_index)\<close>\<close>

fun add_symbols ::
  "nat \<Rightarrow> nat list \<Rightarrow> nat list \<times> int list \<times> int list \<times> int \<Rightarrow> (nat list \<times> int list \<times> int list \<times> int) option" where
  "add_symbols sy [] s = Some s"
| "add_symbols sy (c # cs) s = Option.bind (add_symbol sy c s) (add_symbols (sy + 1) cs)"

text \<open>
  The table for the first \<open>n\<close> lengths, and whether they are those of a code; if they are not, the
  table is cleared and the caller goes to \<^verbatim>\<open>TINFL_CR_RETURN_FOREVER(35, ...)\<close>.
\<close>

definition build_table :: "nat \<Rightarrow> tinfl_huff_table \<Rightarrow> (bool \<times> tinfl_huff_table) option" where
  "build_table n p = (if length (m_code_size p) < n then None else
    let sizes = take n (m_code_size p); p = p\<lparr>m_look_up := replicate 1024 0, m_tree := replicate (2 * 288) 0\<rparr> in
    Option.bind (total_syms sizes (replicate 16 0)) (\<lambda>ts.
    Option.bind (next_codes ts 15 1 0 0 (replicate 17 0)) (\<lambda>(used_syms, tot, next_code).
    if tot \<noteq> 65536 \<and> 1 < used_syms then Some (False, p) else
    Option.bind (add_symbols 0 sizes (next_code, m_look_up p, m_tree p, -1))
      (\<lambda>(next, look_up, tree, tree_next). Some (True, p\<lparr>m_look_up := look_up, m_tree := tree\<rparr>)))))"

end
