(* ===== verification/Tinfl.thy ===== *)
theory Tinfl
  imports Miniz_Checksum Tinfl_Huff "HOL-Library.While_Combinator"
begin

text \<open>
  The inflater of \<^verbatim>\<open>xcore/src/miniz.c\<close>.  \<^verbatim>\<open>tinfl_decompress\<close> is a coroutine: it returns in the middle of its
  work when the input is used up or the output is full, and goes on from there when it is called again
  with \<^verbatim>\<open>m_state\<close> as it left it.  Here it is a machine that goes from one point of the code to the next;
  a step ends in the next point, or in an exception: the return of a status, or an access
  outside a buffer.  The local variables of the function that survive a return are the fields
  they are saved in.  The buffer of bits has 64 bits and the loads are unaligned, as
  \<^verbatim>\<open>xcore/src/miniz.h\<close> defines.
\<close>

subsection \<open>The data\<close>

datatype tinfl_status = TINFL_STATUS_BAD_PARAM | TINFL_STATUS_ADLER32_MISMATCH | TINFL_STATUS_FAILED
  | TINFL_STATUS_DONE | TINFL_STATUS_NEEDS_MORE_INPUT | TINFL_STATUS_HAS_MORE_OUTPUT

record tinfl_decompressor =
  m_state :: nat
  m_num_bits :: nat
  m_zhdr0 :: nat
  m_zhdr1 :: nat
  m_z_adler32 :: "32 word"
  m_final :: nat
  m_type :: int
  m_check_adler32 :: "32 word"
  m_dist :: nat
  m_counter :: nat
  m_num_extra :: nat
  m_table_sizes :: "nat list"
  m_bit_buf :: "64 word"
  m_dist_from_out_buf_start :: nat
  m_tables :: "tinfl_huff_table list"
  m_raw_header :: bytes
  m_len_codes :: "nat list"

text \<open>
  The buffers of a call: the input from \<^verbatim>\<open>pIn_buf_next\<close> to \<^verbatim>\<open>pIn_buf_end\<close> with the place of
  \<^verbatim>\<open>pIn_buf_cur\<close>, and the output from \<^verbatim>\<open>pOut_buf_start\<close> to \<^verbatim>\<open>pOut_buf_end\<close> with that of \<^verbatim>\<open>pOut_buf_cur\<close>.
\<close>

record tinfl = tinfl_decompressor +
  in_cur :: nat
  out_buf :: bytes
  out_cur :: nat

record tinfl_call =
  in_buf :: bytes
  decomp_flags :: "32 word"
  out_buf_size_mask :: "64 word"

datatype texc = Status tinfl_status | Bad_memory | Underflow

type_synonym 'a T = "(tinfl_call, tinfl, texc, 'a) comp"

definition checked :: "'a option \<Rightarrow> 'a T" where
  "checked x = (case x of None \<Rightarrow> failM Bad_memory | Some v \<Rightarrow> retM v)"

definition flag :: "32 word \<Rightarrow> bool T" where
  "flag f = askM (\<lambda>E. decomp_flags E AND f \<noteq> 0)"

abbreviation PARSE_ZLIB_HEADER :: "32 word" where "PARSE_ZLIB_HEADER \<equiv> 1"
abbreviation HAS_MORE_INPUT :: "32 word" where "HAS_MORE_INPUT \<equiv> 2"
abbreviation NON_WRAPPING_OUTPUT_BUF :: "32 word" where "NON_WRAPPING_OUTPUT_BUF \<equiv> 4"
abbreviation COMPUTE_ADLER32 :: "32 word" where "COMPUTE_ADLER32 \<equiv> 8"

definition TINFL_CR_RETURN :: "nat \<Rightarrow> tinfl_status \<Rightarrow> 'a T" where
  "TINFL_CR_RETURN i st = thenM (modM (m_state_update (\<lambda>_. i))) (failM (Status st))"

subsection \<open>Reading bits\<close>

definition in_avail :: "nat T" where
  "in_avail = (\<lambda>E s. (Inr (length (in_buf E) - in_cur s), s))"

definition next_byte :: "8 word T" where
  "next_byte = (\<lambda>E s. bindM (checked (at (in_buf E) (in_cur s))) (\<lambda>b.
     thenM (modM (in_cur_update (\<lambda>i. i + 1))) (retM b)) E s)"

definition TINFL_GET_BYTE :: "nat \<Rightarrow> 8 word T" where
  "TINFL_GET_BYTE i = bindM in_avail (\<lambda>n. if n = 0
     then bindM (flag HAS_MORE_INPUT) (\<lambda>m. if m then TINFL_CR_RETURN i TINFL_STATUS_NEEDS_MORE_INPUT else retM 0)
     else next_byte)"

text \<open>\<^verbatim>\<open>bit_buf |= (((tinfl_bit_buf_t)c) << num_bits); num_bits += n\<close>\<close>

definition push_bits :: "64 word \<Rightarrow> nat \<Rightarrow> unit T" where
  "push_bits c n = modM (\<lambda>s. s\<lparr>m_bit_buf := m_bit_buf s OR push_bit (m_num_bits s) c, m_num_bits := m_num_bits s + n\<rparr>)"

text \<open>
  \<^verbatim>\<open>bit_buf >>= (n); num_bits -= (n)\<close>.  The subtraction is unsigned in the code; where it would wrap the
  model stops with \<open>Underflow\<close>.
\<close>

definition drop_bits :: "nat \<Rightarrow> unit T" where
  "drop_bits n = bindM (getM m_num_bits) (\<lambda>k. if k < n then failM Underflow else
     modM (\<lambda>s. s\<lparr>m_bit_buf := drop_bit n (m_bit_buf s), m_num_bits := k - n\<rparr>))"

definition byte_of_bits :: "nat \<Rightarrow> unit T" where
  "byte_of_bits i = bindM (TINFL_GET_BYTE i) (\<lambda>c. push_bits (ucast c) 8)"

lemma byte_of_bits_num_bits:
  "byte_of_bits i E s = (Inr x, s') \<Longrightarrow> m_num_bits s' = m_num_bits s + 8"
  by (auto simp: byte_of_bits_def TINFL_GET_BYTE_def in_avail_def flag_def next_byte_def checked_def
      TINFL_CR_RETURN_def push_bits_def luasem split: if_splits option.splits)

text \<open>\<^verbatim>\<open>do { ... } while (num_bits < (mz_uint)(n))\<close>, entered when there are fewer than \<open>n\<close> bits.\<close>

function TINFL_NEED_BITS :: "nat \<Rightarrow> nat \<Rightarrow> unit T" where
  "TINFL_NEED_BITS i n E s = (if n \<le> m_num_bits s then (Inr (), s) else
     (case byte_of_bits i E s of (Inl e, s') \<Rightarrow> (Inl e, s') | (Inr x, s') \<Rightarrow> TINFL_NEED_BITS i n E s'))"
  by auto
termination
  by (relation "measure (\<lambda>(i, n, E, s). n - m_num_bits s)") (auto simp: byte_of_bits_num_bits)

declare TINFL_NEED_BITS.simps [simp del]

definition TINFL_SKIP_BITS :: "nat \<Rightarrow> nat \<Rightarrow> unit T" where
  "TINFL_SKIP_BITS i n = thenM (TINFL_NEED_BITS i n) (drop_bits n)"

definition TINFL_GET_BITS :: "nat \<Rightarrow> nat \<Rightarrow> nat T" where
  "TINFL_GET_BITS i n = thenM (TINFL_NEED_BITS i n) (bindM (getM m_bit_buf) (\<lambda>b.
     thenM (drop_bits n) (retM (unat (b AND (push_bit n 1 - 1))))))"

subsection \<open>Decoding a symbol\<close>

text \<open>\<^verbatim>\<open>do { temp = m_tree[~temp + ((bit_buf >> code_len++) & 1)]; } while (temp < 0)\<close>\<close>

function tree_walk :: "int list \<Rightarrow> 64 word \<Rightarrow> int \<Rightarrow> nat \<Rightarrow> (int \<times> nat) option" where
  "tree_walk tree bits temp code_len = (if 64 \<le> code_len then None else
     Option.bind (at_int tree (- temp - 1 + (if bit bits code_len then 1 else 0))) (\<lambda>temp.
     if temp < 0 then tree_walk tree bits temp (code_len + 1) else Some (temp, code_len + 1)))"
  by auto
termination
  by (relation "measure (\<lambda>(tree, bits, temp, code_len). 64 - code_len)") auto

declare tree_walk.simps [simp del]

definition fast_index :: "64 word \<Rightarrow> nat" where
  "fast_index bits = unat (bits AND (1024 - 1))"

text \<open>
  The symbol of the next bits and the length of its code word.  An entry of the first table has both,
  \<open>masked\<close> is \<^verbatim>\<open>temp &= 511\<close>.
\<close>

definition huff_symbol :: "bool \<Rightarrow> tinfl_huff_table \<Rightarrow> 64 word \<Rightarrow> (int \<times> nat) option" where
  "huff_symbol masked p bits = Option.bind (at (m_look_up p) (fast_index bits)) (\<lambda>temp.
     if 0 \<le> temp then Some (if masked then temp AND 511 else temp, nat (drop_bit 9 temp))
     else tree_walk (m_tree p) bits temp 10)"

text \<open>
  Whether \<^verbatim>\<open>TINFL_HUFF_BITBUF_FILL\<close> leaves its loop by a \<^verbatim>\<open>break\<close>, because the next code word is in
  the buffer; the walk down the tree stops where the bits end.
\<close>

function tree_walk_in :: "int list \<Rightarrow> 64 word \<Rightarrow> nat \<Rightarrow> int \<Rightarrow> nat \<Rightarrow> bool option" where
  "tree_walk_in tree bits num_bits temp code_len = (if 64 \<le> code_len then None else
     Option.bind (at_int tree (- temp - 1 + (if bit bits code_len then 1 else 0))) (\<lambda>temp.
     if temp < 0 \<and> code_len + 2 \<le> num_bits then tree_walk_in tree bits num_bits temp (code_len + 1)
     else Some (0 \<le> temp)))"
  by auto
termination
  by (relation "measure (\<lambda>(tree, bits, num_bits, temp, code_len). 64 - code_len)") auto

declare tree_walk_in.simps [simp del]

definition huff_in_buffer :: "tinfl_huff_table \<Rightarrow> 64 word \<Rightarrow> nat \<Rightarrow> bool option" where
  "huff_in_buffer p bits num_bits = Option.bind (at (m_look_up p) (fast_index bits)) (\<lambda>temp.
     if 0 \<le> temp then Some (drop_bit 9 temp \<noteq> 0 \<and> nat (drop_bit 9 temp) \<le> num_bits)
     else if 10 < num_bits then tree_walk_in (m_tree p) bits num_bits temp 10 else Some False)"

function TINFL_HUFF_BITBUF_FILL :: "nat \<Rightarrow> tinfl_huff_table \<Rightarrow> unit T" where
  "TINFL_HUFF_BITBUF_FILL i p E s = (case huff_in_buffer p (m_bit_buf s) (m_num_bits s) of
     None \<Rightarrow> (Inl Bad_memory, s)
   | Some found \<Rightarrow> if found then (Inr (), s) else
      (case byte_of_bits i E s of (Inl e, s') \<Rightarrow> (Inl e, s')
       | (Inr x, s') \<Rightarrow> if m_num_bits s' < 15 then TINFL_HUFF_BITBUF_FILL i p E s' else (Inr (), s')))"
  by auto
termination
  by (relation "measure (\<lambda>(i, p, E, s). 15 - m_num_bits s)") (auto simp: byte_of_bits_num_bits)

declare TINFL_HUFF_BITBUF_FILL.simps [simp del]

text \<open>
  \<open>resumed\<close>: the coroutine comes back into \<^verbatim>\<open>TINFL_HUFF_BITBUF_FILL\<close>, at the byte it waited for.
\<close>

definition TINFL_HUFF_DECODE :: "nat \<Rightarrow> bool \<Rightarrow> tinfl_huff_table \<Rightarrow> nat T" where
  "TINFL_HUFF_DECODE i resumed p =
    thenM (if resumed
      then thenM (byte_of_bits i) (bindM (getM m_num_bits) (\<lambda>n. whenM (n < 15) (TINFL_HUFF_BITBUF_FILL i p)))
      else bindM (getM m_num_bits) (\<lambda>n. whenM (n < 15)
        (bindM in_avail (\<lambda>k. if k < 2 then TINFL_HUFF_BITBUF_FILL i p
           else bindM next_byte (\<lambda>b0. bindM next_byte (\<lambda>b1.
                push_bits (ucast b0 OR push_bit 8 (ucast b1)) 16))))))
   (bindM (getM m_bit_buf) (\<lambda>bits. bindM (checked (huff_symbol True p bits)) (\<lambda>(temp, code_len).
    thenM (drop_bits code_len) (retM (nat temp)))))"

subsection \<open>The points of the coroutine\<close>

text \<open>
  The heads of the loops and the places a return comes back to.  Where a macro is entered again from
  its beginning after a return, it finds the same variables and waits at the same byte, and one point
  stands for both; the three uses of \<^verbatim>\<open>TINFL_HUFF_DECODE\<close>, which read two bytes at once only when they
  are entered from above, have the argument \<open>resumed\<close>.
\<close>

datatype tinfl_point = Start | Zlib_header0 | Zlib_header1 | Block | Skip_to_byte | Raw_header | Raw_bits
  | Raw_bits_out | Raw_copy | Raw_copy_in | Table_sizes | Code_length_lengths | Build
  | Code_lengths bool | Repeat_length | Decode | Literal bool | Literal_out | Match | Length_extra | Distance bool
  | Distance_extra | Copy | Slow_copy | Slow_copy_out | Block_end | Trailer_skip | Trailer
  | Forever nat tinfl_status

text \<open>\<^verbatim>\<open>switch (r->m_state)\<close>; a number that is no case leaves \<^verbatim>\<open>status\<close> at its first value.\<close>

definition resume_point :: "nat \<Rightarrow> tinfl_point option" where
  "resume_point i = map_of
    [(0, Start), (1, Zlib_header0), (2, Zlib_header1), (3, Block), (5, Skip_to_byte), (6, Raw_header), (7, Raw_header),
     (9, Raw_copy), (10, Forever 10 TINFL_STATUS_FAILED), (11, Table_sizes), (14, Code_length_lengths),
     (16, Code_lengths True), (17, Forever 17 TINFL_STATUS_FAILED), (18, Repeat_length),
     (21, Forever 21 TINFL_STATUS_FAILED), (23, Literal True), (24, Literal_out), (25, Length_extra),
     (26, Distance True), (27, Distance_extra), (32, Trailer_skip), (34, Forever 34 TINFL_STATUS_DONE),
     (35, Forever 35 TINFL_STATUS_FAILED), (36, Forever 36 TINFL_STATUS_FAILED), (37, Forever 37 TINFL_STATUS_FAILED),
     (38, Raw_copy_in), (39, Forever 39 TINFL_STATUS_FAILED), (40, Forever 40 TINFL_STATUS_FAILED), (41, Trailer),
     (42, Trailer), (51, Raw_bits), (52, Raw_bits_out), (53, Slow_copy_out)] i"

subsection \<open>Arrays and output\<close>

abbreviation counterM :: "nat T" where "counterM \<equiv> getM m_counter"

definition set_counter :: "nat \<Rightarrow> unit T" where
  "set_counter n = modM (m_counter_update (\<lambda>_. n))"

definition table :: "nat \<Rightarrow> tinfl_huff_table T" where
  "table i = bindM (getM m_tables) (\<lambda>ts. checked (at ts i))"

definition put_table :: "nat \<Rightarrow> tinfl_huff_table \<Rightarrow> unit T" where
  "put_table i p = bindM (getM m_tables) (\<lambda>ts. bindM (checked (put ts i p)) (\<lambda>ts. modM (m_tables_update (\<lambda>_. ts))))"

definition table_size :: "nat \<Rightarrow> nat T" where
  "table_size i = bindM (getM m_table_sizes) (\<lambda>ns. checked (at ns i))"

definition put_table_size :: "nat \<Rightarrow> nat \<Rightarrow> unit T" where
  "put_table_size i n = bindM (getM m_table_sizes) (\<lambda>ns. bindM (checked (put ns i n)) (\<lambda>ns.
     modM (m_table_sizes_update (\<lambda>_. ns))))"

definition out_avail :: "nat T" where
  "out_avail = getM (\<lambda>s. length (out_buf s) - out_cur s)"

text \<open>\<^verbatim>\<open>*pOut_buf_cur++ = b\<close>\<close>

definition put_byte :: "8 word \<Rightarrow> unit T" where
  "put_byte b = bindM (getM (\<lambda>s. put (out_buf s) (out_cur s) b)) (\<lambda>o'. bindM (checked o') (\<lambda>buf.
     modM (\<lambda>s. s\<lparr>out_buf := buf, out_cur := out_cur s + 1\<rparr>)))"

text \<open>\<^verbatim>\<open>while (pOut_buf_cur >= pOut_buf_end) { TINFL_CR_RETURN(i, TINFL_STATUS_HAS_MORE_OUTPUT); }\<close>\<close>

definition wait_output :: "nat \<Rightarrow> unit T" where
  "wait_output i = bindM out_avail (\<lambda>n. whenM (n = 0) (TINFL_CR_RETURN i TINFL_STATUS_HAS_MORE_OUTPUT))"

subsection \<open>The steps\<close>

definition s_length_base :: "nat list" where
  "s_length_base = [3,4,5,6,7,8,9,10,11,13, 15,17,19,23,27,31,35,43,51,59, 67,83,99,115,131,163,195,227,258,0,0]"

definition s_length_extra :: "nat list" where
  "s_length_extra = [0,0,0,0,0,0,0,0,1,1,1,1,2,2,2,2,3,3,3,3,4,4,4,4,5,5,5,5,0,0,0]"

definition s_dist_base :: "nat list" where
  "s_dist_base = [1,2,3,4,5,7,9,13,17,25,33,49,65,97,129,193, 257,385,513,769,1025,1537,2049,3073,4097,6145,
     8193,12289,16385,24577,0,0]"

definition s_dist_extra :: "nat list" where
  "s_dist_extra = [0,0,0,0,1,1,2,2,3,3,4,4,5,5,6,6,7,7,8,8,9,9,10,10,11,11,12,12,13,13,0,0]"

definition s_length_dezigzag :: "nat list" where
  "s_length_dezigzag = [16,17,18,0,8,7,9,6,10,5,11,4,12,3,13,2,14,1,15]"

definition s_min_table_sizes :: "nat list" where
  "s_min_table_sizes = [257, 1, 4]"

definition step_start :: "tinfl_point T" where
  "step_start = thenM (modM (\<lambda>s. s\<lparr>m_bit_buf := 0, m_num_bits := 0, m_dist := 0, m_counter := 0,
       m_num_extra := 0, m_zhdr0 := 0, m_zhdr1 := 0, m_z_adler32 := 1, m_check_adler32 := 1\<rparr>))
     (bindM (flag PARSE_ZLIB_HEADER) (\<lambda>z. retM (if z then Zlib_header0 else Block)))"

definition step_zlib_header0 :: "tinfl_point T" where
  "step_zlib_header0 = bindM (TINFL_GET_BYTE 1) (\<lambda>c. thenM (modM (m_zhdr0_update (\<lambda>_. unat c))) (retM Zlib_header1))"

definition step_zlib_header1 :: "tinfl_point T" where
  "step_zlib_header1 = bindM (TINFL_GET_BYTE 2) (\<lambda>c. thenM (modM (m_zhdr1_update (\<lambda>_. unat c)))
     (bindM (getM m_zhdr0) (\<lambda>h0. bindM (getM m_zhdr1) (\<lambda>h1. bindM (flag NON_WRAPPING_OUTPUT_BUF) (\<lambda>nw.
      bindM (askM out_buf_size_mask) (\<lambda>msk.
      let bad = (h0 * 256 + h1) mod 31 \<noteq> 0 \<or> h1 AND 32 \<noteq> 0 \<or> h0 AND 15 \<noteq> 8;
          window = push_bit (8 + drop_bit 4 h0) 1;
          bad = (bad \<or> \<not> nw \<and> (32768 < window \<or> msk + 1 < of_nat window)) in
      thenM (set_counter (if bad then 1 else 0))
       (retM (if bad then Forever 36 TINFL_STATUS_FAILED else Block))))))))"

text \<open>The lengths of the fixed code of literals.\<close>

definition fixed_lengths :: "nat list" where
  "fixed_lengths = replicate 144 8 @ replicate 112 9 @ replicate 24 7 @ replicate 8 8"

definition fixed_tables :: "unit T" where
  "fixed_tables = bindM (table 0) (\<lambda>p. bindM (checked (put_list (m_code_size p) 0 fixed_lengths)) (\<lambda>c0.
     bindM (table 1) (\<lambda>q. bindM (checked (put_list (m_code_size q) 0 (replicate 32 5))) (\<lambda>c1.
     seqM [put_table_size 0 288, put_table_size 1 32, put_table 1 (q\<lparr>m_code_size := c1\<rparr>),
       put_table 0 (p\<lparr>m_code_size := c0\<rparr>)]))))"

definition step_block :: "tinfl_point T" where
  "step_block = bindM (TINFL_GET_BITS 3 3) (\<lambda>n. thenM (modM (\<lambda>s. s\<lparr>m_final := n, m_type := int (n div 2)\<rparr>))
     (if n div 2 = 0 then retM Skip_to_byte
      else if n div 2 = 3 then retM (Forever 10 TINFL_STATUS_FAILED)
      else if n div 2 = 1 then thenM fixed_tables (retM Build)
      else thenM (set_counter 0) (retM Table_sizes)))"

definition step_skip_to_byte :: "tinfl_point T" where
  "step_skip_to_byte = bindM (getM m_num_bits) (\<lambda>n. thenM (TINFL_SKIP_BITS 5 (n AND 7))
     (thenM (set_counter 0) (retM Raw_header)))"

definition step_raw_header :: "tinfl_point T" where
  "step_raw_header = bindM counterM (\<lambda>i. bindM (getM m_num_bits) (\<lambda>n.
     if i < 4 then
       bindM (if n \<noteq> 0 then bindM (TINFL_GET_BITS 6 8) (\<lambda>b. retM (of_nat b)) else TINFL_GET_BYTE 7) (\<lambda>c.
       bindM (getM m_raw_header) (\<lambda>h. bindM (checked (put h i c)) (\<lambda>h.
       thenM (modM (m_raw_header_update (\<lambda>_. h))) (thenM (set_counter (i + 1)) (retM Raw_header)))))
     else bindM (getM m_raw_header) (\<lambda>h.
       bindM (checked (MZ_READ_LE16 (at h) 0)) (\<lambda>len. bindM (checked (MZ_READ_LE16 (at h) 2)) (\<lambda>nlen.
       thenM (set_counter (unat len))
        (retM (if len \<noteq> 0xFFFF XOR nlen then Forever 39 TINFL_STATUS_FAILED else Raw_bits)))))))"

definition step_raw_bits :: "tinfl_point T" where
  "step_raw_bits = bindM counterM (\<lambda>k. bindM (getM m_num_bits) (\<lambda>n.
     if k \<noteq> 0 \<and> n \<noteq> 0 then bindM (TINFL_GET_BITS 51 8) (\<lambda>d.
       thenM (modM (m_dist_update (\<lambda>_. d))) (retM Raw_bits_out))
     else retM Raw_copy))"

definition step_raw_bits_out :: "tinfl_point T" where
  "step_raw_bits_out = thenM (wait_output 52) (bindM (getM m_dist) (\<lambda>d. thenM (put_byte (of_nat d))
     (bindM counterM (\<lambda>k. thenM (set_counter (k - 1)) (retM Raw_bits)))))"

definition step_raw_copy :: "tinfl_point T" where
  "step_raw_copy = bindM counterM (\<lambda>k. if k = 0 then retM Block_end else thenM (wait_output 9) (retM Raw_copy_in))"

definition step_raw_copy_in :: "tinfl_point T" where
  "step_raw_copy_in = bindM in_avail (\<lambda>n. if n = 0
     then bindM (flag HAS_MORE_INPUT) (\<lambda>m. if m then TINFL_CR_RETURN 38 TINFL_STATUS_NEEDS_MORE_INPUT
            else retM (Forever 40 TINFL_STATUS_FAILED))
     else bindM out_avail (\<lambda>a. bindM counterM (\<lambda>k.
       let n = min (min a n) k in
       bindM (\<lambda>E s. checked (put_list (out_buf s) (out_cur s) (take n (drop (in_cur s) (in_buf E)))) E s) (\<lambda>buf.
       thenM (modM (\<lambda>s. s\<lparr>out_buf := buf, in_cur := in_cur s + n, out_cur := out_cur s + n, m_counter := k - n\<rparr>))
        (retM Raw_copy)))))"

definition step_table_sizes :: "tinfl_point T" where
  "step_table_sizes = bindM counterM (\<lambda>i. if i < 3
     then bindM (checked (at [5, 5, 4] i)) (\<lambda>k. bindM (TINFL_GET_BITS 11 k) (\<lambda>n.
       bindM (checked (at s_min_table_sizes i)) (\<lambda>m.
       thenM (put_table_size i (n + m)) (thenM (set_counter (i + 1)) (retM Table_sizes)))))
     else bindM (table 2) (\<lambda>p. thenM (put_table 2 (p\<lparr>m_code_size := replicate 288 0\<rparr>))
       (thenM (set_counter 0) (retM Code_length_lengths))))"

definition step_code_length_lengths :: "tinfl_point T" where
  "step_code_length_lengths = bindM counterM (\<lambda>i. bindM (table_size 2) (\<lambda>n. if i < n
     then bindM (TINFL_GET_BITS 14 3) (\<lambda>c. bindM (checked (at s_length_dezigzag i)) (\<lambda>j.
       bindM (table 2) (\<lambda>p. bindM (checked (put (m_code_size p) j c)) (\<lambda>cs.
       thenM (put_table 2 (p\<lparr>m_code_size := cs\<rparr>))
      (thenM (set_counter (i + 1)) (retM Code_length_lengths))))))
     else thenM (put_table_size 2 19) (retM Build)))"

text \<open>\<^verbatim>\<open>for ( ; (int)r->m_type >= 0; r->m_type--)\<close>\<close>

definition step_build :: "tinfl_point T" where
  "step_build = bindM (getM m_type) (\<lambda>t. if t < 0 then retM Decode else
     bindM (table (nat t)) (\<lambda>p. bindM (table_size (nat t)) (\<lambda>n. bindM (checked (build_table n p)) (\<lambda>(ok, p).
     thenM (put_table (nat t) p)
    (if \<not> ok then retM (Forever 35 TINFL_STATUS_FAILED)
     else if t = 2 then thenM (set_counter 0) (retM (Code_lengths False))
     else thenM (modM (m_type_update (\<lambda>t. t - 1))) (retM Build))))))"

definition step_code_lengths :: "bool \<Rightarrow> tinfl_point T" where
  "step_code_lengths resumed = bindM counterM (\<lambda>i. bindM (table_size 0) (\<lambda>n0. bindM (table_size 1) (\<lambda>n1.
     if resumed \<or> i < n0 + n1 then
       bindM (table 2) (\<lambda>p. bindM (TINFL_HUFF_DECODE 16 resumed p) (\<lambda>d.
       thenM (modM (m_dist_update (\<lambda>_. d)))
      (if d < 16 then
         bindM (getM m_len_codes) (\<lambda>lc. bindM (checked (put lc i d)) (\<lambda>lc.
         thenM (modM (m_len_codes_update (\<lambda>_. lc))) (thenM (set_counter (i + 1)) (retM (Code_lengths False)))))
       else if d = 16 \<and> i = 0 then retM (Forever 17 TINFL_STATUS_FAILED)
       else bindM (checked (at [2, 3, 7] (d - 16))) (\<lambda>k.
         thenM (modM (m_num_extra_update (\<lambda>_. k))) (retM Repeat_length)))))
     else if n0 + n1 \<noteq> i then retM (Forever 21 TINFL_STATUS_FAILED)
     else bindM (getM m_len_codes) (\<lambda>lc. bindM (table 0) (\<lambda>p. bindM (table 1) (\<lambda>q.
       bindM (checked (put_list (m_code_size p) 0 (take n0 lc))) (\<lambda>c0.
       bindM (checked (put_list (m_code_size q) 0 (take n1 (drop n0 lc)))) (\<lambda>c1.
       thenM (seqM [put_table 0 (p\<lparr>m_code_size := c0\<rparr>), put_table 1 (q\<lparr>m_code_size := c1\<rparr>),
         modM (m_type_update (\<lambda>t. t - 1))]) (retM Build)))))))))"

definition step_repeat_length :: "tinfl_point T" where
  "step_repeat_length = bindM (getM m_num_extra) (\<lambda>k. bindM (TINFL_GET_BITS 18 k) (\<lambda>n.
     bindM (getM m_dist) (\<lambda>d. bindM counterM (\<lambda>i. bindM (getM m_len_codes) (\<lambda>lc.
     bindM (checked (at [3, 3, 11] (d - 16))) (\<lambda>m.
     bindM (if d = 16 then checked (at lc (i - 1)) else retM 0) (\<lambda>x.
     bindM (checked (put_list lc i (replicate (n + m) x))) (\<lambda>lc.
     thenM (modM (m_len_codes_update (\<lambda>_. lc)))
    (thenM (set_counter (i + (n + m))) (retM (Code_lengths False)))))))))))"

text \<open>
  The loop over the symbols.  While four bytes of input and two of output are left, two symbols are
  decoded in one turn.
\<close>

definition fast_symbol :: "nat T" where
  "fast_symbol = bindM (table 0) (\<lambda>p. bindM (getM m_bit_buf) (\<lambda>bits.
     bindM (checked (huff_symbol False p bits)) (\<lambda>(sym2, code_len).
     thenM (drop_bits code_len) (retM (nat sym2)))))"

definition fast_refill :: "unit T" where
  "fast_refill = bindM (getM m_num_bits) (\<lambda>n. whenM (n < 30)
     (bindM (\<lambda>E s. checked (MZ_READ_LE32 (at (in_buf E)) (in_cur s)) E s) (\<lambda>w.
      thenM (push_bits (ucast w) 32) (modM (in_cur_update (\<lambda>i. i + 4))))))"

definition step_decode :: "tinfl_point T" where
  "step_decode = bindM in_avail (\<lambda>i. bindM out_avail (\<lambda>o'.
     if i < 4 \<or> o' < 2 then retM (Literal False) else
     thenM fast_refill
    (bindM fast_symbol (\<lambda>c.
     thenM (set_counter c)
    (if c AND 256 \<noteq> 0 then retM Match else
     bindM fast_symbol (\<lambda>sym2.
     thenM (put_byte (of_nat c))
    (if sym2 AND 256 \<noteq> 0 then thenM (set_counter sym2) (retM Match)
     else thenM (put_byte (of_nat sym2)) (retM Decode))))))))"

definition step_literal :: "bool \<Rightarrow> tinfl_point T" where
  "step_literal resumed = bindM (table 0) (\<lambda>p. bindM (TINFL_HUFF_DECODE 23 resumed p) (\<lambda>c.
     thenM (set_counter c) (retM (if 256 \<le> c then Match else Literal_out))))"

definition step_literal_out :: "tinfl_point T" where
  "step_literal_out = thenM (wait_output 24) (bindM counterM (\<lambda>c. thenM (put_byte (of_nat c)) (retM Decode)))"

text \<open>A length and a distance, each a base and extra bits.\<close>

definition step_match :: "tinfl_point T" where
  "step_match = bindM counterM (\<lambda>c. let c = c AND 511 in
     if c = 256 then thenM (set_counter c) (retM Block_end) else
     if c < 257 then failM Bad_memory else
     bindM (checked (at s_length_extra (c - 257))) (\<lambda>k. bindM (checked (at s_length_base (c - 257))) (\<lambda>b.
     thenM (modM (\<lambda>s. s\<lparr>m_num_extra := k, m_counter := b\<rparr>))
      (retM (if k \<noteq> 0 then Length_extra else Distance False)))))"

definition step_length_extra :: "tinfl_point T" where
  "step_length_extra = bindM (getM m_num_extra) (\<lambda>k. bindM (TINFL_GET_BITS 25 k) (\<lambda>e.
     thenM (modM (m_counter_update (\<lambda>c. c + e))) (retM (Distance False))))"

definition step_distance :: "bool \<Rightarrow> tinfl_point T" where
  "step_distance resumed = bindM (table 1) (\<lambda>p. bindM (TINFL_HUFF_DECODE 26 resumed p) (\<lambda>d.
     bindM (checked (at s_dist_extra d)) (\<lambda>k. bindM (checked (at s_dist_base d)) (\<lambda>b.
     thenM (modM (\<lambda>s. s\<lparr>m_num_extra := k, m_dist := b\<rparr>))
      (retM (if k \<noteq> 0 then Distance_extra else Copy))))))"

definition step_distance_extra :: "tinfl_point T" where
  "step_distance_extra = bindM (getM m_num_extra) (\<lambda>k. bindM (TINFL_GET_BITS 27 k) (\<lambda>e.
     thenM (modM (m_dist_update (\<lambda>d. d + e))) (retM Copy)))"

subsection \<open>Copying a match\<close>

text \<open>One byte after the other, from \<open>src\<close> to \<open>dst\<close> in the same buffer.\<close>

fun copy_bytes :: "nat \<Rightarrow> nat \<Rightarrow> nat \<Rightarrow> 'a list \<Rightarrow> 'a list option" where
  "copy_bytes 0 src dst buf = Some buf"
| "copy_bytes (Suc n) src dst buf = Option.bind (at buf src) (\<lambda>b.
     Option.bind (put buf dst b) (copy_bytes n (src + 1) (dst + 1)))"

text \<open>A copy of \<^verbatim>\<open>mz_uint32\<close>: the four bytes are read before they are written.\<close>

definition copy_word :: "nat \<Rightarrow> nat \<Rightarrow> bytes \<Rightarrow> bytes option" where
  "copy_word src dst buf = Option.bind (memcpy_from (at buf) src 4) (put_list buf dst)"

text \<open>\<^verbatim>\<open>do { ... } while ((pSrc += 8) < pSrc_end)\<close>, \<open>k\<close> turns.\<close>

fun copy_words :: "nat \<Rightarrow> nat \<Rightarrow> nat \<Rightarrow> bytes \<Rightarrow> bytes option" where
  "copy_words 0 src dst buf = Some buf"
| "copy_words (Suc k) src dst buf = Option.bind (copy_word src dst buf) (\<lambda>buf.
     Option.bind (copy_word (src + 4) (dst + 4) buf) (copy_words k (src + 8) (dst + 8)))"

text \<open>
  \<^verbatim>\<open>do { ... } while ((int)(counter -= 3) > 2)\<close> and the rest of one or two bytes: the buffer and the place
  after the copy.  The first three bytes are copied whatever the counter is.
\<close>

function copy_threes :: "int \<Rightarrow> nat \<Rightarrow> nat \<Rightarrow> bytes \<Rightarrow> (bytes \<times> nat) option" where
  "copy_threes counter src dst buf = Option.bind (copy_bytes 3 src dst buf) (\<lambda>buf.
     let counter = counter - 3; src = src + 3; dst = dst + 3 in
     if 2 < counter then copy_threes counter src dst buf
     else if 0 < counter then Option.bind (copy_bytes (nat counter) src dst buf) (\<lambda>buf. Some (buf, dst + nat counter))
     else Some (buf, dst))"
  by auto
termination
  by (relation "measure (\<lambda>(counter, src, dst, buf). nat counter)") auto

declare copy_threes.simps [simp del]

definition copy_match :: "nat \<Rightarrow> nat \<Rightarrow> nat \<Rightarrow> nat \<Rightarrow> bytes \<Rightarrow> (bytes \<times> nat) option" where
  "copy_match counter dist src dst buf =
    (if 9 \<le> counter \<and> counter \<le> dist then
       let n = 8 * (counter div 8); rest = counter mod 8 in
       Option.bind (copy_words (counter div 8) src dst buf) (\<lambda>buf.
       if rest < 3 then Option.bind (copy_bytes rest (src + n) (dst + n) buf) (\<lambda>buf. Some (buf, dst + n + rest))
       else copy_threes (int rest) (src + n) (dst + n) buf)
     else copy_threes (int counter) src dst buf)"

text \<open>\<^verbatim>\<open>(dist_from_out_buf_start - dist) & out_buf_size_mask\<close>, in \<^verbatim>\<open>size_t\<close>.\<close>

definition src_ofs :: "64 word \<Rightarrow> nat \<Rightarrow> nat \<Rightarrow> nat" where
  "src_ofs msk ofs dist = unat ((of_nat ofs - of_nat dist) AND msk)"

definition step_copy :: "tinfl_point T" where
  "step_copy = thenM (modM (\<lambda>s. s\<lparr>m_dist_from_out_buf_start := out_cur s\<rparr>))
     (bindM (getM m_dist) (\<lambda>dist. bindM (getM out_cur) (\<lambda>cur. bindM counterM (\<lambda>counter.
      bindM (flag NON_WRAPPING_OUTPUT_BUF) (\<lambda>nw. bindM (askM out_buf_size_mask) (\<lambda>msk.
      bindM (getM (\<lambda>s. length (out_buf s))) (\<lambda>end.
      let src = src_ofs msk cur dist in
      if cur < dist \<and> nw then retM (Forever 37 TINFL_STATUS_FAILED)
      else if end < max cur src + counter then retM Slow_copy
      else bindM (getM (\<lambda>s. copy_match counter dist src cur (out_buf s))) (\<lambda>r. bindM (checked r) (\<lambda>(buf, cur).
        thenM (modM (\<lambda>s. s\<lparr>out_buf := buf, out_cur := cur\<rparr>)) (retM Decode))))))))))"

text \<open>\<^verbatim>\<open>while (counter--)\<close>\<close>

definition step_slow_copy :: "tinfl_point T" where
  "step_slow_copy = bindM counterM (\<lambda>k. if k = 0 then retM Decode
     else thenM (set_counter (k - 1)) (retM Slow_copy_out))"

definition step_slow_copy_out :: "tinfl_point T" where
  "step_slow_copy_out = thenM (wait_output 53)
     (bindM (askM out_buf_size_mask) (\<lambda>msk. bindM (getM m_dist_from_out_buf_start) (\<lambda>ofs. bindM (getM m_dist) (\<lambda>dist.
      bindM (getM (\<lambda>s. at (out_buf s) (src_ofs msk ofs dist))) (\<lambda>b. bindM (checked b) (\<lambda>b.
      thenM (modM (m_dist_from_out_buf_start_update (\<lambda>n. n + 1))) (thenM (put_byte b) (retM Slow_copy))))))))"

subsection \<open>The end of a block and of the stream\<close>

definition step_block_end :: "tinfl_point T" where
  "step_block_end = bindM (getM m_final) (\<lambda>f. bindM (flag PARSE_ZLIB_HEADER) (\<lambda>z.
     retM (if f AND 1 = 0 then Block else if z then Trailer_skip else Forever 34 TINFL_STATUS_DONE)))"

definition step_trailer_skip :: "tinfl_point T" where
  "step_trailer_skip = bindM (getM m_num_bits) (\<lambda>n. thenM (TINFL_SKIP_BITS 32 (n AND 7))
     (thenM (set_counter 0) (retM Trailer)))"

definition step_trailer :: "tinfl_point T" where
  "step_trailer = bindM counterM (\<lambda>i. bindM (getM m_num_bits) (\<lambda>n. if i < 4 then
       bindM (if n \<noteq> 0 then bindM (TINFL_GET_BITS 41 8) (\<lambda>b. retM (of_nat b)) else TINFL_GET_BYTE 42) (\<lambda>c.
       thenM (modM (m_z_adler32_update (\<lambda>a. push_bit 8 a OR ucast c)))
      (thenM (set_counter (i + 1)) (retM Trailer)))
     else retM (Forever 34 TINFL_STATUS_DONE)))"

fun tinfl_step :: "tinfl_point \<Rightarrow> tinfl_point T" where
  "tinfl_step Start = step_start"
| "tinfl_step Zlib_header0 = step_zlib_header0"
| "tinfl_step Zlib_header1 = step_zlib_header1"
| "tinfl_step Block = step_block"
| "tinfl_step Skip_to_byte = step_skip_to_byte"
| "tinfl_step Raw_header = step_raw_header"
| "tinfl_step Raw_bits = step_raw_bits"
| "tinfl_step Raw_bits_out = step_raw_bits_out"
| "tinfl_step Raw_copy = step_raw_copy"
| "tinfl_step Raw_copy_in = step_raw_copy_in"
| "tinfl_step Table_sizes = step_table_sizes"
| "tinfl_step Code_length_lengths = step_code_length_lengths"
| "tinfl_step Build = step_build"
| "tinfl_step (Code_lengths resumed) = step_code_lengths resumed"
| "tinfl_step Repeat_length = step_repeat_length"
| "tinfl_step Decode = step_decode"
| "tinfl_step (Literal resumed) = step_literal resumed"
| "tinfl_step Literal_out = step_literal_out"
| "tinfl_step Match = step_match"
| "tinfl_step Length_extra = step_length_extra"
| "tinfl_step (Distance resumed) = step_distance resumed"
| "tinfl_step Distance_extra = step_distance_extra"
| "tinfl_step Copy = step_copy"
| "tinfl_step Slow_copy = step_slow_copy"
| "tinfl_step Slow_copy_out = step_slow_copy_out"
| "tinfl_step Block_end = step_block_end"
| "tinfl_step Trailer_skip = step_trailer_skip"
| "tinfl_step Trailer = step_trailer"
| "tinfl_step (Forever i st) = TINFL_CR_RETURN i st"

text \<open>
  The run from a point to a return; \<open>None\<close> would be a run without end.
\<close>

definition tinfl_run :: "tinfl_point \<Rightarrow> tinfl_call \<Rightarrow> tinfl \<Rightarrow> (texc \<times> tinfl) option" where
  "tinfl_run p E s = Option.bind
    (while_option (\<lambda>(r, s). \<not> isl r) (\<lambda>(r, s). tinfl_step (projr r) E s) (Inr p, s))
    (\<lambda>(r, s). Some (projl r, s))"

subsection \<open>The call\<close>

text \<open>
  How a call ends: the status, the decompressor, the number of bytes read, the output buffer and the
  number of bytes written into it; or an access outside a buffer.
\<close>

datatype tinfl_end = Returned tinfl_status tinfl_decompressor nat bytes nat | Crashed

text \<open>The end of the function updates the Adler-32 of the output, with the loop of \<^verbatim>\<open>mz_adler32\<close>.\<close>

definition check_adler32 :: "32 word \<Rightarrow> bytes \<Rightarrow> 32 word" where
  "check_adler32 a bs = (case adler_blocks (length bs mod 5552) bs (a AND 0xFFFF, drop_bit 16 a) of
     (s1, s2) \<Rightarrow> push_bit 16 s2 + s1)"

definition common_exit :: "32 word \<Rightarrow> nat \<Rightarrow> tinfl_status \<Rightarrow> tinfl \<Rightarrow> tinfl_end" where
  "common_exit flags start status s =
    (let r = tinfl_decompressor.truncate s; n = out_cur s - start;
         a = check_adler32 (m_check_adler32 s) (take n (drop start (out_buf s)))
     in if flags AND (PARSE_ZLIB_HEADER OR COMPUTE_ADLER32) \<noteq> 0
          \<and> status \<in> {TINFL_STATUS_DONE, TINFL_STATUS_NEEDS_MORE_INPUT, TINFL_STATUS_HAS_MORE_OUTPUT}
        then Returned
          (if status = TINFL_STATUS_DONE \<and> flags AND PARSE_ZLIB_HEADER \<noteq> 0 \<and> a \<noteq> m_z_adler32 s
           then TINFL_STATUS_ADLER32_MISMATCH else status)
          (r\<lparr>m_check_adler32 := a\<rparr>) (in_cur s) (out_buf s) n
        else Returned status r (in_cur s) (out_buf s) n)"

text \<open>
  \<open>start\<close> is \<^verbatim>\<open>pOut_buf_next - pOut_buf_start\<close>.
\<close>

definition tinfl_decompress ::
  "tinfl_decompressor \<Rightarrow> bytes \<Rightarrow> bytes \<Rightarrow> nat \<Rightarrow> 32 word \<Rightarrow> tinfl_end option" where
  "tinfl_decompress r inp out start flags =
    (let msk = (if flags AND NON_WRAPPING_OUTPUT_BUF \<noteq> 0 then -1 else of_nat (length out) - 1);
         E = \<lparr>in_buf = inp, decomp_flags = flags, out_buf_size_mask = msk\<rparr>;
         s = tinfl_decompressor.extend r \<lparr>in_cur = 0, out_buf = out, out_cur = start\<rparr>
     in if (msk + 1) AND msk \<noteq> 0 then Some (Returned TINFL_STATUS_BAD_PARAM r 0 out 0) else
        case resume_point (m_state r) of
          None \<Rightarrow> Some (common_exit flags start TINFL_STATUS_FAILED s)
        | Some p \<Rightarrow> map_option (\<lambda>(e, s). case e of
             Status st \<Rightarrow> common_exit flags start st s | _ \<Rightarrow> Crashed) (tinfl_run p E s))"

end
