(* ===== verification/Tinfl_Mem.thy ===== *)
theory Tinfl_Mem
  imports Tinfl
begin

text \<open>
  The three functions of \<^verbatim>\<open>xcore/src/miniz.c\<close> that decompress a whole input: into a heap block that grows,
  into a block of the caller, and through a dictionary into a callback.  The allocator and the callback
  are parameters; \<open>stack\<close> is what the decompressor on the stack holds before \<^verbatim>\<open>tinfl_init\<close>.  An outer
  \<open>None\<close> would be a call without end.
\<close>

definition tinfl_init :: "tinfl_decompressor \<Rightarrow> tinfl_decompressor" where
  "tinfl_init r = r\<lparr>m_state := 0\<rparr>"

definition status_negative :: "tinfl_status \<Rightarrow> bool" where
  "status_negative st \<longleftrightarrow> st \<in> {TINFL_STATUS_BAD_PARAM, TINFL_STATUS_ADLER32_MISMATCH, TINFL_STATUS_FAILED}"

text \<open>\<^verbatim>\<open>(flags & ~TINFL_FLAG_HAS_MORE_INPUT) | TINFL_FLAG_USING_NON_WRAPPING_OUTPUT_BUF\<close>\<close>

definition whole_flags :: "32 word \<Rightarrow> 32 word" where
  "whole_flags flags = (flags AND NOT HAS_MORE_INPUT) OR NON_WRAPPING_OUTPUT_BUF"

subsection \<open>Into the heap\<close>

text \<open>
  The block returned (\<open>None\<close> is \<^verbatim>\<open>NULL\<close>) and \<^verbatim>\<open>*pOut_len\<close>.  \<open>realloc old n\<close> is a block of \<open>n\<close> bytes, or no
  block.
\<close>

datatype heap_end = Heap "bytes option" nat | Heap_crash

partial_function (option) to_heap_loop ::
  "(bytes \<Rightarrow> nat \<Rightarrow> bytes option) \<Rightarrow> bytes \<Rightarrow> 32 word \<Rightarrow> tinfl_decompressor \<Rightarrow> nat \<Rightarrow> bytes \<Rightarrow> nat \<Rightarrow> heap_end option" where
  "to_heap_loop realloc src flags r ofs buf out_len =
    Option.bind (tinfl_decompress r (drop ofs src) buf out_len flags) (\<lambda>e. case e of
      Crashed \<Rightarrow> Some Heap_crash
    | Returned st r n buf k \<Rightarrow>
        if status_negative st \<or> st = TINFL_STATUS_NEEDS_MORE_INPUT then Some (Heap None 0)
        else if st = TINFL_STATUS_DONE then Some (Heap (if length buf = 0 then None else Some buf) (out_len + k))
        else case realloc buf (max 128 (2 * length buf)) of
            None \<Rightarrow> Some (Heap None 0)
          | Some buf \<Rightarrow> to_heap_loop realloc src flags r (ofs + n) buf (out_len + k))"

definition tinfl_decompress_mem_to_heap ::
  "(bytes \<Rightarrow> nat \<Rightarrow> bytes option) \<Rightarrow> tinfl_decompressor \<Rightarrow> bytes \<Rightarrow> 32 word \<Rightarrow> heap_end option" where
  "tinfl_decompress_mem_to_heap realloc stack src flags =
    to_heap_loop realloc src (whole_flags flags) (tinfl_init stack) 0 [] 0"

subsection \<open>Into a block of the caller\<close>

text \<open>The number of bytes (\<open>None\<close> is \<^verbatim>\<open>TINFL_DECOMPRESS_MEM_TO_MEM_FAILED\<close>) and the block afterwards.\<close>

datatype mem_end = Mem "nat option" bytes | Mem_crash

definition tinfl_decompress_mem_to_mem ::
  "tinfl_decompressor \<Rightarrow> bytes \<Rightarrow> bytes \<Rightarrow> 32 word \<Rightarrow> mem_end option" where
  "tinfl_decompress_mem_to_mem stack out src flags =
    map_option (\<lambda>e. case e of
        Crashed \<Rightarrow> Mem_crash
      | Returned st r n buf k \<Rightarrow> Mem (if st \<noteq> TINFL_STATUS_DONE then None else Some k) buf)
     (tinfl_decompress (tinfl_init stack) src out 0 (whole_flags flags))"

subsection \<open>Into a callback\<close>

text \<open>
  The result, the number of bytes of the input that were read, and the state of the callback.  A failed
  allocation of the dictionary gives \<^verbatim>\<open>TINFL_STATUS_FAILED\<close>, which is -1, with the input size as it was.
\<close>

datatype 'u callback_end = Callback int nat 'u | Callback_crash

partial_function (option) to_callback_loop ::
  "(bytes \<Rightarrow> 'u \<Rightarrow> bool \<times> 'u) \<Rightarrow> bytes \<Rightarrow> 32 word \<Rightarrow> tinfl_decompressor \<Rightarrow> nat \<Rightarrow> bytes \<Rightarrow> nat \<Rightarrow> 'u \<Rightarrow> 'u callback_end option" where
  "to_callback_loop put_buf src flags r ofs dict dict_ofs u =
    Option.bind (tinfl_decompress r (drop ofs src) dict dict_ofs flags) (\<lambda>e. case e of
      Crashed \<Rightarrow> Some Callback_crash
    | Returned st r n dict k \<Rightarrow>
        (case (if k = 0 then (True, u) else put_buf (take k (drop dict_ofs dict)) u) of (ok, u) \<Rightarrow>
          if \<not> ok then Some (Callback 0 (ofs + n) u)
          else if st \<noteq> TINFL_STATUS_HAS_MORE_OUTPUT
            then Some (Callback (if st = TINFL_STATUS_DONE then 1 else 0) (ofs + n) u)
          else to_callback_loop put_buf src flags r (ofs + n) dict ((dict_ofs + k) mod 32768) u))"

definition tinfl_decompress_mem_to_callback ::
  "bytes option \<Rightarrow> (bytes \<Rightarrow> 'u \<Rightarrow> bool \<times> 'u) \<Rightarrow> tinfl_decompressor \<Rightarrow> bytes \<Rightarrow> 32 word \<Rightarrow> 'u \<Rightarrow> 'u callback_end option" where
  "tinfl_decompress_mem_to_callback malloc put_buf stack src flags u = (case malloc of
      None \<Rightarrow> Some (Callback (-1) (length src) u)
    | Some dict \<Rightarrow> to_callback_loop put_buf src (flags AND NOT (HAS_MORE_INPUT OR NON_WRAPPING_OUTPUT_BUF))
        (tinfl_init stack) 0 dict 0 u)"

end
