(* ===== verification/Zip_Extract.thy ===== *)
theory Zip_Extract
  imports Zip_Query Tinfl_Mem
begin

text \<open>
  Extracting the files of an archive: \<^verbatim>\<open>xcore/src/miniz.c\<close> from \<^verbatim>\<open>mz_zip_reader_extract_to_mem_no_alloc\<close> to
  \<^verbatim>\<open>mz_zip_reader_extract_file_to_callback\<close>.  An extraction does not change the archive; it answers with \<open>None\<close>
  for a call without end, with an exception of the reader, or with its result.  \<open>stack\<close> is what the
  decompressor on the stack holds before \<^verbatim>\<open>tinfl_init\<close>, \<open>fresh n\<close> what a block of \<open>n\<close> bytes from \<^verbatim>\<open>m_pAlloc\<close>
  holds.
\<close>

type_synonym 'a extraction = "zenv \<Rightarrow> mz_zip_archive \<Rightarrow> (zexc + 'a) option"

definition asking :: "'b Z \<Rightarrow> ('b \<Rightarrow> 'a extraction) \<Rightarrow> 'a extraction" where
  "asking m f = (\<lambda>E z. case fst (m E z) of Inl e \<Rightarrow> Some (Inl e) | Inr x \<Rightarrow> f x E z)"

definition giving :: "'a \<Rightarrow> 'a extraction" where
  "giving x = (\<lambda>E z. Some (Inr x))"

definition refusing :: "'a extraction" where
  "refusing = (\<lambda>E z. Some (Inl Returns_false))"

text \<open>An early \<^verbatim>\<open>return MZ_FALSE\<close>, and what it leaves behind.\<close>

definition or_else :: "'a \<Rightarrow> 'a extraction \<Rightarrow> 'a extraction" where
  "or_else d m = (\<lambda>E z. case m E z of Some (Inl Returns_false) \<Rightarrow> Some (Inr d) | r \<Rightarrow> r)"

subsection \<open>The data of a file\<close>

text \<open>The checks on what the directory says of a file.  \<open>compressed\<close> is \<^verbatim>\<open>MZ_ZIP_FLAG_COMPRESSED_DATA\<close>.\<close>

definition refused :: "bool \<Rightarrow> mz_zip_archive_file_stat \<Rightarrow> bool" where
  "refused compressed st \<longleftrightarrow> m_bit_flag st AND (1 OR 32) \<noteq> 0 \<or> \<not> compressed \<and> m_method st \<noteq> 0 \<and> m_method st \<noteq> 8"

text \<open>The local header is read and checked: the place of the data in the archive.\<close>

definition local_data :: "mz_zip_archive_file_stat \<Rightarrow> 64 word Z" where
  "local_data st = bindM (read_exactly (m_local_header_ofs st) 30) (\<lambda>h.
     bindM (access (MZ_READ_LE32 (at h) 0)) (\<lambda>sig. if sig \<noteq> 0x04034b50 then return_false else
     bindM (access (MZ_READ_LE16 (at h) 26)) (\<lambda>name_len. bindM (access (MZ_READ_LE16 (at h) 28)) (\<lambda>extra_len.
     bindM (getM m_archive_size) (\<lambda>archive_size.
     let cur_file_ofs = m_local_header_ofs st + ucast (30 + name_len + extra_len) in
     if archive_size < cur_file_ofs + m_comp_size st then return_false else retM cur_file_ofs)))))"

text \<open>\<^verbatim>\<open>pZip->m_pState->m_pMem\<close>\<close>

definition archive_mem :: "bytes option Z" where
  "archive_mem = bindM pState (\<lambda>st. retM (m_pMem st))"

text \<open>
  What is left to read: the bytes of the read buffer from \<^verbatim>\<open>read_buf_ofs\<close> on, of which there are
  \<^verbatim>\<open>read_buf_avail\<close>, the place in the archive, and \<^verbatim>\<open>comp_remaining\<close>.
\<close>

type_synonym source = "bytes \<times> 64 word \<times> 64 word"

text \<open>
  \<^verbatim>\<open>if ((!read_buf_avail) && (!pZip->m_pState->m_pMem))\<close>: the buffer is filled again; \<open>None\<close> when the archive
  gives fewer bytes than asked.
\<close>

definition fill_again :: "bool \<Rightarrow> 64 word \<Rightarrow> source \<Rightarrow> source option Z" where
  "fill_again in_mem read_buf_size = (\<lambda>(pending, cur, remaining).
     if pending = [] \<and> \<not> in_mem then
       let n = min read_buf_size remaining in
       bindM (pRead cur (unat n)) (\<lambda>b. if length b \<noteq> unat n then retM None else
       retM (Some (b, cur + n, remaining - n)))
     else retM (Some (pending, cur, remaining)))"

subsection \<open>Into memory\<close>

text \<open>\<^verbatim>\<open>do { ... } while (status == TINFL_STATUS_NEEDS_MORE_INPUT)\<close>; \<open>out\<close> is the output up to \<^verbatim>\<open>m_uncomp_size\<close>.\<close>

partial_function (option) inflate_to_mem_loop ::
  "bool \<Rightarrow> 64 word \<Rightarrow> tinfl_decompressor \<Rightarrow> source \<Rightarrow> bytes \<Rightarrow> nat \<Rightarrow> zenv \<Rightarrow> mz_zip_archive \<Rightarrow> (zexc + (tinfl_status \<times> bytes)) option" where
  "inflate_to_mem_loop in_mem read_buf_size r src out out_buf_ofs E z =
    (case fst (fill_again in_mem read_buf_size src E z) of
       Inl e \<Rightarrow> Some (Inl e)
     | Inr None \<Rightarrow> Some (Inr (TINFL_STATUS_FAILED, out))
     | Inr (Some (pending, cur, remaining)) \<Rightarrow>
         Option.bind (tinfl_decompress r pending out out_buf_ofs
           (NON_WRAPPING_OUTPUT_BUF OR (if remaining \<noteq> 0 then HAS_MORE_INPUT else 0))) (\<lambda>e. case e of
           Crashed \<Rightarrow> Some (Inl Bad_access)
         | Returned st r n out k \<Rightarrow>
             if st = TINFL_STATUS_NEEDS_MORE_INPUT
             then inflate_to_mem_loop in_mem read_buf_size r (drop n pending, cur, remaining) out (out_buf_ofs + k) E z
             else Some (Inr (st, out))))"

text \<open>
  Where the compressed data comes from: the archive in memory, a buffer of the caller, or one that is allocated.
  With a buffer of the caller \<^verbatim>\<open>comp_remaining\<close> starts from the size of the file that is not compressed.
\<close>

definition open_source :: "bytes option \<Rightarrow> nat option \<Rightarrow> mz_zip_archive_file_stat \<Rightarrow> 64 word \<Rightarrow> (64 word \<times> source) Z" where
  "open_source mem user st cur = (case mem of
     Some m \<Rightarrow> bindM (access (memcpy_from (at m) (unat cur) (unat (m_comp_size st)))) (\<lambda>b. retM (m_comp_size st, b, cur, 0))
   | None \<Rightarrow> (case user of
       Some n \<Rightarrow> if n = 0 then return_false else retM (of_nat n, [], cur, m_uncomp_size st)
     | None \<Rightarrow> let n = min (m_comp_size st) (64 * 1024) in
         bindM (askM (\<lambda>E. zmalloc E (unat n))) (\<lambda>ok. if \<not> ok then return_false else retM (n, [], cur, m_comp_size st))))"

text \<open>
  \<open>pBuf\<close> is \<^verbatim>\<open>NULL\<close> or a block of at least \<open>buf_size\<close> bytes, \<open>user\<close> the size of the read buffer of the caller.
  The result has the block as it is left.
\<close>

definition mz_zip_reader_extract_to_mem_no_alloc ::
  "tinfl_decompressor \<Rightarrow> 32 word \<Rightarrow> bytes option \<Rightarrow> nat \<Rightarrow> 32 word \<Rightarrow> nat option \<Rightarrow> (bool \<times> bytes option) extraction" where
  "mz_zip_reader_extract_to_mem_no_alloc stack file_index pBuf buf_size flags user = or_else (False, pBuf)
    (if 0 < buf_size \<and> pBuf = None then refusing else
     asking (mz_zip_reader_file_stat file_index) (\<lambda>stat. case stat of None \<Rightarrow> refusing | Some st \<Rightarrow>
     let compressed = flags AND 0x0400 \<noteq> 0; needed_size = (if compressed then m_comp_size st else m_uncomp_size st);
         block = (case pBuf of None \<Rightarrow> [] | Some b \<Rightarrow> b) in
     if m_comp_size st = 0 then giving (True, pBuf)
     else if refused compressed st \<or> buf_size < unat needed_size then refusing
     else asking (local_data st) (\<lambda>cur.
     if compressed \<or> m_method st = 0 then
       asking (pRead cur (unat needed_size)) (\<lambda>b. asking (access (put_list block 0 b)) (\<lambda>block.
         giving (length b = unat needed_size, map_option (\<lambda>_. block) pBuf)))
     else
       asking archive_mem (\<lambda>mem. asking (open_source mem user st cur) (\<lambda>(read_buf_size, src).
       if length block < unat needed_size then asking (access None) giving else (\<lambda>E z.
       map_option (\<lambda>r. case r of Inl e \<Rightarrow> Inl e | Inr (status, out) \<Rightarrow>
           Inr (status = TINFL_STATUS_DONE, map_option (\<lambda>_. out @ drop (unat needed_size) block) pBuf))
        (inflate_to_mem_loop (mem \<noteq> None) read_buf_size (tinfl_init stack) src (take (unat needed_size) block) 0 E z)))))))"

text \<open>The file with a name.\<close>

definition located :: "bytes \<Rightarrow> 32 word \<Rightarrow> 'a \<Rightarrow> (32 word \<Rightarrow> 'a extraction) \<Rightarrow> 'a extraction" where
  "located pFilename flags d f = asking (mz_zip_reader_locate_file pFilename None flags) (\<lambda>file_index.
     if file_index < 0 then giving d else f (of_int file_index))"

definition mz_zip_reader_extract_file_to_mem_no_alloc ::
  "tinfl_decompressor \<Rightarrow> bytes \<Rightarrow> bytes option \<Rightarrow> nat \<Rightarrow> 32 word \<Rightarrow> nat option \<Rightarrow> (bool \<times> bytes option) extraction" where
  "mz_zip_reader_extract_file_to_mem_no_alloc stack pFilename pBuf buf_size flags user = located pFilename flags (False, pBuf)
     (\<lambda>file_index. mz_zip_reader_extract_to_mem_no_alloc stack file_index pBuf buf_size flags user)"

definition mz_zip_reader_extract_to_mem ::
  "tinfl_decompressor \<Rightarrow> 32 word \<Rightarrow> bytes option \<Rightarrow> nat \<Rightarrow> 32 word \<Rightarrow> (bool \<times> bytes option) extraction" where
  "mz_zip_reader_extract_to_mem stack file_index pBuf buf_size flags =
     mz_zip_reader_extract_to_mem_no_alloc stack file_index pBuf buf_size flags None"

definition mz_zip_reader_extract_file_to_mem ::
  "tinfl_decompressor \<Rightarrow> bytes \<Rightarrow> bytes option \<Rightarrow> nat \<Rightarrow> 32 word \<Rightarrow> (bool \<times> bytes option) extraction" where
  "mz_zip_reader_extract_file_to_mem stack pFilename pBuf buf_size flags =
     mz_zip_reader_extract_file_to_mem_no_alloc stack pFilename pBuf buf_size flags None"

subsection \<open>Into the heap\<close>

text \<open>The block, and \<^verbatim>\<open>*pSize\<close>.\<close>

definition mz_zip_reader_extract_to_heap ::
  "(nat \<Rightarrow> bytes) \<Rightarrow> tinfl_decompressor \<Rightarrow> 32 word \<Rightarrow> 32 word \<Rightarrow> (bytes option \<times> nat) extraction" where
  "mz_zip_reader_extract_to_heap fresh stack file_index flags = or_else (None, 0)
    (asking (mz_zip_reader_get_cdh file_index) (\<lambda>p. case p of None \<Rightarrow> refusing | Some p \<Rightarrow>
     asking (cd32 (p + 20)) (\<lambda>comp_size. asking (cd32 (p + 24)) (\<lambda>uncomp_size.
     let alloc_size = unat (if flags AND 0x0400 \<noteq> 0 then comp_size else uncomp_size) in
     asking (askM (\<lambda>E. (size_t_64 E, zmalloc E alloc_size))) (\<lambda>(wide, ok).
     if \<not> wide \<and> 0x7FFFFFFF < alloc_size then refusing else if \<not> ok then refusing else (\<lambda>E z.
     map_option (\<lambda>r. case r of Inl e \<Rightarrow> Inl e
        | Inr (ok, block) \<Rightarrow> if ok then Inr (block, alloc_size) else Inl Returns_false)
      (mz_zip_reader_extract_to_mem stack file_index (Some (fresh alloc_size)) alloc_size flags E z)))))))"

definition mz_zip_reader_extract_file_to_heap ::
  "(nat \<Rightarrow> bytes) \<Rightarrow> tinfl_decompressor \<Rightarrow> bytes \<Rightarrow> 32 word \<Rightarrow> (bytes option \<times> nat) extraction" where
  "mz_zip_reader_extract_file_to_heap fresh stack pFilename flags = located pFilename flags (None, 0)
     (\<lambda>file_index. mz_zip_reader_extract_to_heap fresh stack file_index flags)"

subsection \<open>Into a callback\<close>

text \<open>
  \<^verbatim>\<open>pCallback\<close> gets the offset and the bytes, and answers with the number of bytes it has taken; \<open>u\<close> is the
  state behind \<^verbatim>\<open>pOpaque\<close>.  The end of a loop is the status, \<^verbatim>\<open>out_buf_ofs\<close>, \<^verbatim>\<open>file_crc32\<close> and \<open>u\<close>.
\<close>

type_synonym 'u write_func = "64 word \<Rightarrow> bytes \<Rightarrow> 'u \<Rightarrow> nat \<times> 'u"

text \<open>
  \<^verbatim>\<open>file_crc32 = (mz_uint32)mz_crc32(file_crc32, ...)\<close>; \<open>long_64\<close> says that \<^verbatim>\<open>unsigned long\<close> has 64 bits.
\<close>

definition file_crc :: "bool \<Rightarrow> 32 word \<Rightarrow> bytes \<Rightarrow> 32 word" where
  "file_crc long_64 crc b = (if long_64 then ucast (mz_crc32 (ucast crc :: 64 word) (Some b)) else mz_crc32 crc (Some b))"

type_synonym 'u written = "tinfl_status \<times> 64 word \<times> 32 word \<times> 'u"

text \<open>A file that is stored, or whose compressed data is asked for, in memory and \<^verbatim>\<open>while (comp_remaining)\<close>.\<close>

definition copy_from_mem :: "bool \<Rightarrow> 'u write_func \<Rightarrow> bool \<Rightarrow> bytes \<Rightarrow> 'u \<Rightarrow> 'u written" where
  "copy_from_mem long_64 cb compressed data u = (case cb 0 data u of (n, u) \<Rightarrow>
     if n \<noteq> length data then (TINFL_STATUS_FAILED, of_nat (length data), 0, u)
     else (TINFL_STATUS_DONE, of_nat (length data), if compressed then 0 else file_crc long_64 0 data, u))"

partial_function (option) copy_loop ::
  "bool \<Rightarrow> 'u write_func \<Rightarrow> bool \<Rightarrow> 64 word \<Rightarrow> 64 word \<Rightarrow> 64 word \<Rightarrow> 64 word \<Rightarrow> 32 word \<Rightarrow> 'u \<Rightarrow> zenv \<Rightarrow> mz_zip_archive
     \<Rightarrow> (zexc + 'u written) option" where
  "copy_loop long_64 cb compressed read_buf_size cur remaining out_buf_ofs crc u E z =
    (if remaining = 0 then Some (Inr (TINFL_STATUS_DONE, out_buf_ofs, crc, u)) else
     let n = min read_buf_size remaining in
     (case fst (pRead cur (unat n) E z) of Inl e \<Rightarrow> Some (Inl e)
      | Inr b \<Rightarrow> if length b \<noteq> unat n then Some (Inr (TINFL_STATUS_FAILED, out_buf_ofs, crc, u)) else
         let crc = (if compressed then crc else file_crc long_64 crc b) in
         case cb out_buf_ofs b u of (taken, u) \<Rightarrow>
           if taken \<noteq> unat n then Some (Inr (TINFL_STATUS_FAILED, out_buf_ofs, crc, u))
           else copy_loop long_64 cb compressed read_buf_size (cur + n) (remaining - n) (out_buf_ofs + n) crc u E z))"

text \<open>The output goes round in the dictionary \<open>dict\<close> of 32768 bytes.\<close>

partial_function (option) inflate_to_callback_loop ::
  "bool \<Rightarrow> 'u write_func \<Rightarrow> bool \<Rightarrow> 64 word \<Rightarrow> 64 word \<Rightarrow> tinfl_decompressor \<Rightarrow> source \<Rightarrow> bytes \<Rightarrow> 64 word \<Rightarrow> 32 word \<Rightarrow> 'u
     \<Rightarrow> zenv \<Rightarrow> mz_zip_archive \<Rightarrow> (zexc + 'u written) option" where
  "inflate_to_callback_loop long_64 cb in_mem read_buf_size uncomp_size r src dict out_buf_ofs crc u E z =
    (case fst (fill_again in_mem read_buf_size src E z) of
       Inl e \<Rightarrow> Some (Inl e)
     | Inr None \<Rightarrow> Some (Inr (TINFL_STATUS_FAILED, out_buf_ofs, crc, u))
     | Inr (Some (pending, cur, remaining)) \<Rightarrow>
         Option.bind (tinfl_decompress r pending dict (unat (out_buf_ofs AND (32768 - 1))) (if remaining \<noteq> 0 then HAS_MORE_INPUT else 0))
          (\<lambda>e. case e of
           Crashed \<Rightarrow> Some (Inl Bad_access)
         | Returned st r n dict k \<Rightarrow>
             let bytes = take k (drop (unat (out_buf_ofs AND (32768 - 1))) dict) in
             case (if k = 0 then (True, out_buf_ofs, crc, u) else case cb out_buf_ofs bytes u of (taken, u) \<Rightarrow>
               if taken \<noteq> k then (False, out_buf_ofs, crc, u)
               else (out_buf_ofs + of_nat k \<le> uncomp_size, out_buf_ofs + of_nat k, file_crc long_64 crc bytes, u)) of
             (ok, out_buf_ofs, crc, u) \<Rightarrow>
               if \<not> ok then Some (Inr (TINFL_STATUS_FAILED, out_buf_ofs, crc, u))
               else if st = TINFL_STATUS_NEEDS_MORE_INPUT \<or> st = TINFL_STATUS_HAS_MORE_OUTPUT
               then inflate_to_callback_loop long_64 cb in_mem read_buf_size uncomp_size r (drop n pending, cur, remaining) dict out_buf_ofs crc u E z
               else Some (Inr (st, out_buf_ofs, crc, u))))"

text \<open>The end of the function: the size and the checksum are compared with those of the directory.\<close>

definition checked_status :: "bool \<Rightarrow> mz_zip_archive_file_stat \<Rightarrow> 'u written \<Rightarrow> bool \<times> 'u" where
  "checked_status compressed st = (\<lambda>(status, out_buf_ofs, crc, u).
     (status = TINFL_STATUS_DONE \<and> (compressed \<or> out_buf_ofs = m_uncomp_size st \<and> crc = m_crc32 st), u))"

definition mz_zip_reader_extract_to_callback ::
  "bool \<Rightarrow> (nat \<Rightarrow> bytes) \<Rightarrow> tinfl_decompressor \<Rightarrow> 32 word \<Rightarrow> 'u write_func \<Rightarrow> 'u \<Rightarrow> 32 word \<Rightarrow> (bool \<times> 'u) extraction" where
  "mz_zip_reader_extract_to_callback long_64 fresh stack file_index cb u flags = or_else (False, u)
    (asking (mz_zip_reader_file_stat file_index) (\<lambda>stat. case stat of None \<Rightarrow> refusing | Some st \<Rightarrow>
     let compressed = flags AND 0x0400 \<noteq> 0 in
     if m_comp_size st = 0 then giving (True, u) else if refused compressed st then refusing
     else asking (local_data st) (\<lambda>cur. asking archive_mem (\<lambda>mem. asking (open_source mem None st cur) (\<lambda>(read_buf_size, pending, cur, remaining).
     asking (askM (\<lambda>E. zmalloc E 32768)) (\<lambda>ok E z.
       map_option (map_sum id (checked_status compressed st))
        (if compressed \<or> m_method st = 0 then
           (if mem \<noteq> None then Some (Inr (copy_from_mem long_64 cb compressed pending u))
            else copy_loop long_64 cb compressed read_buf_size cur remaining 0 0 u E z)
         else if \<not> ok then Some (Inr (TINFL_STATUS_FAILED, 0, 0, u))
         else inflate_to_callback_loop long_64 cb (mem \<noteq> None) read_buf_size (m_uncomp_size st) (tinfl_init stack) (pending, cur, remaining)
            (fresh 32768) 0 0 u E z)))))))"

definition mz_zip_reader_extract_file_to_callback ::
  "bool \<Rightarrow> (nat \<Rightarrow> bytes) \<Rightarrow> tinfl_decompressor \<Rightarrow> bytes \<Rightarrow> 'u write_func \<Rightarrow> 'u \<Rightarrow> 32 word \<Rightarrow> (bool \<times> 'u) extraction" where
  "mz_zip_reader_extract_file_to_callback long_64 fresh stack pFilename cb u flags = located pFilename flags (False, u)
     (\<lambda>file_index. mz_zip_reader_extract_to_callback long_64 fresh stack file_index cb u flags)"

end
