(* ===== verification/Lminiz_Archive.thy ===== *)
theory Lminiz_Archive
  imports Xcore_Main Zip_Extract
begin

text \<open>
  The functions of \<^verbatim>\<open>xcore/src/lminiz.c\<close> a script calls to read archives and to decompress strings, and
  \<^verbatim>\<open>miniz_loadfile\<close>.  They work on the Lua state and on the \<^verbatim>\<open>lmz_file_t\<close> inside each userdata.
\<close>

subsection \<open>The state and the environment\<close>

record lmz_file_t =
  archive :: mz_zip_archive
  fd :: int

record lmz =
  lua_state :: lstate
  files :: "nat \<Rightarrow> lmz_file_t option"

text \<open>
  What the code asks beside Lua and libuv: the bytes \<^verbatim>\<open>uv_fs_read\<close> reads of an open file, or \<open>None\<close> for an error,
  \<^verbatim>\<open>malloc\<close>, the content of a fresh block and of a grown one, the decompressor on the stack before
  \<^verbatim>\<open>tinfl_init\<close>, \<^verbatim>\<open>mktime\<close>, and whether \<^verbatim>\<open>size_t\<close> has 64 bits.
\<close>

record lmz_env =
  luaE :: env
  file_bytes :: "int \<Rightarrow> int \<Rightarrow> nat \<Rightarrow> bytes option"
  alloc_ok :: "nat \<Rightarrow> bool"
  fresh_block :: "nat \<Rightarrow> bytes"
  grown_block :: "bytes \<Rightarrow> nat \<Rightarrow> bytes option"
  inflator :: tinfl_decompressor
  local_time :: "tm \<Rightarrow> int"
  wide_size_t :: bool

text \<open>An exception of Lua or of the C code, or a call without end.\<close>

datatype lexc = Raised exc | Hangs

type_synonym 'a L = "(lmz_env, lmz, lexc, 'a) comp"

abbreviation lcrash :: "fault \<Rightarrow> 'a L" where "lcrash f \<equiv> failM (Raised (Crash f))"

definition in_lua :: "'a M \<Rightarrow> 'a L" where
  "in_lua m = (\<lambda>E s. case m (luaE E) (lua_state s) of (Inl e, l) \<Rightarrow> (Inl (Raised e), s\<lparr>lua_state := l\<rparr>)
     | (Inr x, l) \<Rightarrow> (Inr x, s\<lparr>lua_state := l\<rparr>))"

text \<open>
  The callback archives are read through.  A read that fails gives no bytes: its result is negative and never
  the number that was asked for.  The length of an \<^verbatim>\<open>uv_buf_t\<close> has 32 bits.
\<close>

definition lmz_file_read :: "lmz_env \<Rightarrow> int \<Rightarrow> 64 word \<Rightarrow> nat \<Rightarrow> bytes" where
  "lmz_file_read E f file_ofs n = (case file_bytes E f (sint file_ofs) (n mod 2 ^ 32) of None \<Rightarrow> [] | Some b \<Rightarrow> b)"

definition zip_env :: "lmz_env \<Rightarrow> int \<Rightarrow> zenv" where
  "zip_env E f = \<lparr>zmalloc = alloc_ok E, zread = lmz_file_read E f, mktime = local_time E, size_t_64 = wide_size_t E\<rparr>"

definition get_file :: "nat \<Rightarrow> lmz_file_t L" where
  "get_file u = bindM (getM (\<lambda>s. files s u)) (\<lambda>f. case f of None \<Rightarrow> lcrash Uninitialised | Some f \<Rightarrow> retM f)"

text \<open>A call into \<^verbatim>\<open>miniz.c\<close> on the archive of a userdata; an access outside a block is a fault.\<close>

definition in_zip :: "nat \<Rightarrow> 'a Z \<Rightarrow> 'a L" where
  "in_zip u m = bindM (get_file u) (\<lambda>f. bindM (askM (\<lambda>E. m (zip_env E (fd f)) (archive f))) (\<lambda>(r, z).
     thenM (modM (\<lambda>s. s\<lparr>files := (files s)(u := Some (f\<lparr>archive := z\<rparr>))\<rparr>))
      (case r of Inl e \<Rightarrow> lcrash Buffer_overflow | Inr x \<Rightarrow> retM x)))"

definition of_zip :: "nat \<Rightarrow> 'a extraction \<Rightarrow> 'a L" where
  "of_zip u m = bindM (get_file u) (\<lambda>f. bindM (askM (\<lambda>E. m (zip_env E (fd f)) (archive f))) (\<lambda>r.
     case r of None \<Rightarrow> failM Hangs | Some (Inl e) \<Rightarrow> lcrash Buffer_overflow | Some (Inr x) \<Rightarrow> retM x))"

definition chars :: "bytes \<Rightarrow> string" where
  "chars = map (\<lambda>b. char_of (unat b))"

definition octets :: "string \<Rightarrow> bytes" where
  "octets = map (\<lambda>c. of_nat (of_char c))"

text \<open>\<^verbatim>\<open>(lmz_file_t*)luaL_checkudata(L, 1, ...)\<close>; it does not return for another value.\<close>

definition check_zip :: "int \<Rightarrow> string \<Rightarrow> nat L" where
  "check_zip i tname = in_lua (luaL_checkudata i tname)"

text \<open>\<^verbatim>\<open>mz_uint file_index = luaL_checkinteger(L, 2) - 1\<close>\<close>

definition check_index :: "int \<Rightarrow> 32 word L" where
  "check_index i = bindM (in_lua (luaL_checkinteger i)) (\<lambda>n. retM (of_int (n - 1)))"

definition opt_flags :: "int \<Rightarrow> 32 word L" where
  "opt_flags i = bindM (in_lua (luaL_optinteger i 0)) (\<lambda>n. retM (of_int n))"

text \<open>\<^verbatim>\<open>lua_pushnil\<close> and a message.\<close>

definition nil_message :: "string \<Rightarrow> nat L" where
  "nil_message msg = in_lua (thenM lua_pushnil (thenM (lua_pushlstring msg) (retM 2)))"

definition push_result :: "unit M \<Rightarrow> nat L" where
  "push_result m = in_lua (thenM m (retM 1))"

subsection \<open>Opening\<close>

text \<open>\<^verbatim>\<open>memset(archive, 0, sizeof(*archive))\<close>, then the callback.\<close>

definition new_archive :: mz_zip_archive where
  "new_archive = \<lparr>m_archive_size = 0, m_central_directory_file_ofs = 0, m_start_ofs = 0, m_total_files = 0,
     m_zip_mode = MZ_ZIP_MODE_INVALID, m_pRead = Some Read_user, m_pState = None\<rparr>"

text \<open>
  The userdata of the archive and whether it could be opened.  The results of \<^verbatim>\<open>uv_fs_open\<close> and of
  \<^verbatim>\<open>uv_fs_fstat\<close> are not looked at.
\<close>

definition open_archive :: "string \<Rightarrow> 32 word \<Rightarrow> (nat \<times> bool) L" where
  "open_archive path flags =
     bindM (in_lua lua_newuserdata) (\<lambda>u.
     thenM (in_lua (luaL_getmetatable ''miniz_reader''))
    (thenM (in_lua (lua_setmetatable (-2)))
    (bindM (in_lua (askM (\<lambda>E. cpp E ''O_RDONLY''))) (\<lambda>rdonly.
     bindM (in_lua (uv ''uv_fs_open'' [AObj u, AStr path, AInt rdonly, AInt 420, ANull])) (\<lambda>f.
     bindM (in_lua (uv ''uv_fs_fstat'' [AObj u, AInt f, ANull])) (\<lambda>_.
     bindM (in_lua (uv_out 0)) (\<lambda>size.
     thenM (modM (\<lambda>s. s\<lparr>files := (files s)(u := Some \<lparr>archive = new_archive, fd = f\<rparr>)\<rparr>))
    (bindM (in_zip u (mz_zip_reader_init (of_int size) flags)) (\<lambda>ok. retM (u, ok))))))))))"

definition lmz_reader_init :: "nat L" where
  "lmz_reader_init =
     bindM (in_lua (luaL_checkstring 1)) (\<lambda>path.
     bindM (opt_flags 2) (\<lambda>flags.
     bindM (open_archive path flags) (\<lambda>(u, ok).
     if \<not> ok then nil_message (path @ '' does not appear to be a zip file'') else retM 1)))"

definition lmz_reader_gc :: "nat L" where
  "lmz_reader_gc =
     bindM (check_zip 1 ''miniz_reader'') (\<lambda>u.
     bindM (get_file u) (\<lambda>f.
     thenM (in_lua (uv_void ''uv_fs_close'' [AObj u, AInt (fd f), ANull]))
    (thenM (in_lua (uv_void ''uv_fs_req_cleanup'' [AObj u]))
    (bindM (in_zip u mz_zip_reader_end) (\<lambda>_. retM 0)))))"

subsection \<open>Asking\<close>

definition lmz_reader_get_num_files :: "nat L" where
  "lmz_reader_get_num_files =
     bindM (check_zip 1 ''miniz_reader'') (\<lambda>u.
     bindM (in_zip u mz_zip_reader_get_num_files) (\<lambda>n. push_result (lua_pushinteger (uint n))))"

definition lmz_reader_locate_file :: "nat L" where
  "lmz_reader_locate_file =
     bindM (check_zip 1 ''miniz_reader'') (\<lambda>u.
     bindM (in_lua (luaL_checkstring 2)) (\<lambda>path.
     bindM (opt_flags 3) (\<lambda>flags.
     bindM (in_zip u (mz_zip_reader_locate_file (octets path) None flags)) (\<lambda>index.
     if index < 0 then nil_message (''Can't find file '' @ path @ ''.'')
     else push_result (lua_pushinteger (index + 1))))))"

text \<open>\<^verbatim>\<open>"%d is an invalid index"\<close> prints the unsigned index as an \<^verbatim>\<open>int\<close>.\<close>

definition invalid_index :: "32 word \<Rightarrow> nat L" where
  "invalid_index file_index = bindM (in_lua (askM (\<lambda>E. num2str E (LInt (sint file_index)))))
     (\<lambda>n. nil_message (n @ '' is an invalid index''))"

definition set_int :: "string \<Rightarrow> int \<Rightarrow> unit M" where
  "set_int k n = thenM (lua_pushinteger n) (lua_setfield (-2) k)"

definition set_text :: "string \<Rightarrow> bytes \<Rightarrow> unit M" where
  "set_text k b = thenM (lua_pushstring (Some (chars b))) (lua_setfield (-2) k)"

definition lmz_reader_stat :: "nat L" where
  "lmz_reader_stat =
     bindM (check_zip 1 ''miniz_reader'') (\<lambda>u.
     bindM (check_index 2) (\<lambda>file_index.
     bindM (in_zip u (mz_zip_reader_file_stat file_index)) (\<lambda>stat. case stat of
       None \<Rightarrow> invalid_index file_index
     | Some stat \<Rightarrow> push_result (seqM
        [lua_newtable,
         set_int ''index'' (uint file_index),
         set_int ''version_made_by'' (uint (m_version_made_by stat)),
         set_int ''version_needed'' (uint (m_version_needed stat)),
         set_int ''bit_flag'' (uint (m_bit_flag stat)),
         set_int ''method'' (uint (m_method stat)),
         set_int ''time'' (m_time stat),
         set_int ''crc32'' (uint (m_crc32 stat)),
         set_int ''comp_size'' (uint (m_comp_size stat)),
         set_int ''uncomp_size'' (uint (m_uncomp_size stat)),
         set_int ''internal_attr'' (uint (m_internal_attr stat)),
         set_int ''external_attr'' (uint (m_external_attr stat)),
         set_text ''filename'' (m_filename stat),
         set_text ''comment'' (m_comment stat)]))))"

text \<open>The number is 0 for a file that is not there.\<close>

definition lmz_reader_get_filename :: "nat L" where
  "lmz_reader_get_filename =
     bindM (check_zip 1 ''miniz_reader'') (\<lambda>u.
     bindM (check_index 2) (\<lambda>file_index.
     bindM (in_lua (askM (\<lambda>E. cpp E ''PATH_MAX''))) (\<lambda>path_max.
     bindM (in_zip u (mz_zip_reader_get_filename file_index (of_int path_max))) (\<lambda>(n, name).
     if n = 0 then invalid_index file_index
     else (case name of None \<Rightarrow> lcrash Uninitialised
       | Some b \<Rightarrow> push_result (lua_pushstring (Some (chars b))))))))"

definition lmz_reader_is_file_a_directory :: "nat L" where
  "lmz_reader_is_file_a_directory =
     bindM (check_zip 1 ''miniz_reader'') (\<lambda>u.
     bindM (check_index 2) (\<lambda>file_index.
     bindM (in_zip u (mz_zip_reader_is_file_a_directory file_index)) (\<lambda>b. push_result (lua_pushboolean b))))"

definition lmz_reader_get_offset :: "nat L" where
  "lmz_reader_get_offset =
     bindM (check_zip 1 ''miniz_reader'') (\<lambda>u.
     bindM (get_file u) (\<lambda>f. push_result (lua_pushinteger (uint (m_start_ofs (archive f))))))"

subsection \<open>Extracting and decompressing\<close>

definition extract_block :: "nat \<Rightarrow> 32 word \<Rightarrow> 32 word \<Rightarrow> (bytes option \<times> nat) L" where
  "extract_block u file_index flags = bindM (askM id) (\<lambda>E.
     of_zip u (mz_zip_reader_extract_to_heap (fresh_block E) (inflator E) file_index flags))"

text \<open>\<^verbatim>\<open>lua_pushlstring(L, out_buf, out_len)\<close>; the length of \<^verbatim>\<open>NULL\<close> is 0.\<close>

definition push_block :: "bytes option \<Rightarrow> nat \<Rightarrow> nat L" where
  "push_block b n = (case b of
     None \<Rightarrow> if n = 0 then push_result (lua_pushlstring []) else lcrash Null_deref
   | Some b \<Rightarrow> if n \<le> length b then push_result (lua_pushlstring (chars (take n b))) else lcrash Buffer_overflow)"

definition lmz_reader_extract :: "nat L" where
  "lmz_reader_extract =
     bindM (check_zip 1 ''miniz_reader'') (\<lambda>u.
     bindM (check_index 2) (\<lambda>file_index.
     bindM (opt_flags 3) (\<lambda>flags.
     bindM (extract_block u file_index flags) (\<lambda>(b, n). push_block b n))))"

definition ltinfl :: "nat L" where
  "ltinfl =
     bindM (in_lua (luaL_checklstring 1)) (\<lambda>in_buf.
     bindM (opt_flags 2) (\<lambda>flags.
     bindM (askM (\<lambda>E. tinfl_decompress_mem_to_heap (grown_block E) (inflator E) (octets in_buf) flags)) (\<lambda>r.
     case r of None \<Rightarrow> failM Hangs | Some Heap_crash \<Rightarrow> lcrash Buffer_overflow
     | Some (Heap b n) \<Rightarrow> push_block b n)))"

text \<open>Running a file of an archive.  The terminator is written one place after the block.\<close>

definition miniz_loadfile :: "host \<Rightarrow> string \<Rightarrow> string \<Rightarrow> unit L" where
  "miniz_loadfile H path file =
     bindM (open_archive path 0) (\<lambda>(u, ok). if \<not> ok then retM () else
     bindM (in_zip u (mz_zip_reader_locate_file (octets file) None 0)) (\<lambda>index. if index < 0 then retM () else
     bindM (extract_block u (of_int index) 0) (\<lambda>(b, out_len). case b of None \<Rightarrow> retM ()
     | Some b \<Rightarrow> (case put b out_len 0 of None \<Rightarrow> lcrash Buffer_overflow
       | Some b \<Rightarrow> bindM (in_lua (luaL_dostring H (cstr (chars b)))) (\<lambda>_. retM ())))))"

text \<open>A call from Lua, with a stack of its own.\<close>

definition lmz_call :: "nat L \<Rightarrow> lval list \<Rightarrow> lval list L" where
  "lmz_call m args = (\<lambda>E s. let l = lua_state s; back = (\<lambda>s. s\<lparr>lua_state := (lua_state s)\<lparr>stk := stk l\<rparr>\<rparr>) in
     case m E (s\<lparr>lua_state := l\<lparr>stk := args\<rparr>\<rparr>) of
       (Inl e, s') \<Rightarrow> (Inl e, back s')
     | (Inr n, s') \<Rightarrow> let st = stk (lua_state s') in
         if n \<le> length st then (Inr (drop (length st - n) st), back s') else (Inl (Raised (Crash Bad_index)), back s'))"

end
