(* ===== verification/Zip_Wf.thy ===== *)
theory Zip_Wf
  imports Zip_Query "HOL-Library.List_Lexorder"
begin

text \<open>
  What an open archive promises: every record the index points to lies inside the block that holds the
  directory.  The accessors are computed on such a state, in closed form.
\<close>

subsection \<open>Records in a block\<close>

definition le16 :: "bytes \<Rightarrow> nat \<Rightarrow> 32 word" where
  "le16 d p = ucast (d ! p) OR push_bit 8 (ucast (d ! (p + 1)))"

definition le32 :: "bytes \<Rightarrow> nat \<Rightarrow> 32 word" where
  "le32 d p = ucast (d ! p) OR push_bit 8 (ucast (d ! (p + 1)))
     OR push_bit 16 (ucast (d ! (p + 2))) OR push_bit 24 (ucast (d ! (p + 3)))"

definition sub :: "bytes \<Rightarrow> nat \<Rightarrow> nat \<Rightarrow> bytes" where
  "sub d p n = take n (drop p d)"

definition record_at :: "bytes \<Rightarrow> nat \<Rightarrow> bool" where
  "record_at d p \<longleftrightarrow> p + 46 + unat (le16 d (p + 28)) + unat (le16 d (p + 30)) + unat (le16 d (p + 32)) \<le> length d"

definition record_name :: "bytes \<Rightarrow> nat \<Rightarrow> bytes" where
  "record_name d p = sub d (p + 46) (unat (le16 d (p + 28)))"

lemma read_le16: "p + 2 \<le> length d \<Longrightarrow> MZ_READ_LE16 (at d) p = Some (le16 d p)"
  by (simp add: MZ_READ_LE16_def le16_def)

lemma read_le32: "p + 4 \<le> length d \<Longrightarrow> MZ_READ_LE32 (at d) p = Some (le32 d p)"
  by (simp add: MZ_READ_LE32_def le32_def)

lemma those_map_Some: "those (map Some xs) = Some xs"
  by (induction xs) simp_all

lemma memcpy_from_at: "p + n \<le> length d \<Longrightarrow> memcpy_from (at d) p n = Some (sub d p n)"
proof -
  assume p: "p + n \<le> length d"
  have "map (at d) [p..<p + n] = map Some (sub d p n)"
    using p by (intro nth_equalityI) (simp_all add: sub_def)
  then show ?thesis by (simp add: memcpy_from_def those_map_Some)
qed

lemma length_sub: "p + n \<le> length d \<Longrightarrow> length (sub d p n) = n"
  by (simp add: sub_def)

lemma le16_less: "unat (le16 d p) < 65536"
proof -
  have "le16 d p = take_bit 16 (le16 d p)"
    by (rule bit_eqI) (auto simp: le16_def bit_simps dest: bit_imp_le_length)
  then have "unat (le16 d p) = unat (take_bit 16 (le16 d p))" by simp
  also have "\<dots> < 65536" unfolding unsigned_take_bit_eq by (simp add: take_bit_eq_mod)
  finally show ?thesis .
qed

lemma element_bytes: "m_p a = Some (map Some d) \<Longrightarrow> MZ_ZIP_ARRAY_ELEMENT a = at d"
  by (intro ext) (simp add: MZ_ZIP_ARRAY_ELEMENT_def at_def)

subsection \<open>Names\<close>

definition lower :: "bytes \<Rightarrow> bytes" where
  "lower = map MZ_TOLOWER"

text \<open>The comparison of two names is the lexicographic one of their lower-case forms.\<close>

lemma name_diff_less:
  assumes "p + length xs \<le> length d" "q + length ys \<le> length e"
    "sub d p (length xs) = xs" "sub e q (length ys) = ys"
  shows "\<exists>r. name_diff (at d) (at e) p q (min (length xs) (length ys)) = Some r \<and>
    (case r of None \<Rightarrow> lower (take (length ys) xs) = lower (take (length xs) ys)
     | Some (l, r) \<Rightarrow> \<exists>u v w. lower xs = u @ l # v \<and> lower ys = u @ r # w \<and> l \<noteq> r)"
  using assms
proof (induction xs arbitrary: p q ys)
  case Nil
  then show ?case by (simp add: lower_def)
next
  case (Cons x xs)
  show ?case
  proof (cases ys)
    case Nil
    then show ?thesis by (simp add: lower_def)
  next
    case (Cons y ys')
    have x: "d ! p = x" "sub d (p + 1) (length xs) = xs"
      using Cons.prems(1,3) by (auto simp: sub_def Cons_nth_drop_Suc [symmetric])
    have y: "e ! q = y" "sub e (q + 1) (length ys') = ys'"
      using Cons.prems(2,4) \<open>ys = y # ys'\<close> by (auto simp: sub_def Cons_nth_drop_Suc [symmetric])
    show ?thesis
    proof (cases "MZ_TOLOWER x = MZ_TOLOWER y")
      case True
      from Cons.IH [of "p + 1" "q + 1" ys'] Cons.prems x y \<open>ys = y # ys'\<close> obtain r where
        r: "name_diff (at d) (at e) (p + 1) (q + 1) (min (length xs) (length ys')) = Some r"
        "case r of None \<Rightarrow> lower (take (length ys') xs) = lower (take (length xs) ys')
          | Some (l, r) \<Rightarrow> \<exists>u v w. lower xs = u @ l # v \<and> lower ys' = u @ r # w \<and> l \<noteq> r" by auto
      have "name_diff (at d) (at e) p q (min (length (x # xs)) (length ys)) = Some r"
        using r(1) x y True Cons.prems \<open>ys = y # ys'\<close> by (simp add: Let_def)
      moreover have "case r of None \<Rightarrow> lower (take (length ys) (x # xs)) = lower (take (length (x # xs)) ys)
          | Some (l, r) \<Rightarrow> \<exists>u v w. lower (x # xs) = u @ l # v \<and> lower ys = u @ r # w \<and> l \<noteq> r"
      proof (cases r)
        case None
        then show ?thesis using r(2) True \<open>ys = y # ys'\<close> by (simp add: lower_def)
      next
        case (Some lr)
        with r(2) obtain l k u v w where "lr = (l, k)" "lower xs = u @ l # v" "lower ys' = u @ k # w" "l \<noteq> k"
          by (cases lr) auto
        then have "lower (x # xs) = (MZ_TOLOWER x # u) @ l # v" "lower ys = (MZ_TOLOWER x # u) @ k # w"
          using True \<open>ys = y # ys'\<close> by (simp_all add: lower_def)
        then show ?thesis using Some \<open>lr = (l, k)\<close> \<open>l \<noteq> k\<close> by (simp only: option.case case_prod_conv) blast
      qed
      ultimately show ?thesis by blast
    next
      case False
      have "lower (x # xs) = [] @ MZ_TOLOWER x # lower xs" "lower ys = [] @ MZ_TOLOWER y # lower ys'"
        using \<open>ys = y # ys'\<close> by (simp_all add: lower_def)
      then have ex: "\<exists>u v w. lower (x # xs) = u @ MZ_TOLOWER x # v \<and> lower ys = u @ MZ_TOLOWER y # w
          \<and> MZ_TOLOWER x \<noteq> MZ_TOLOWER y"
        using False by metis
      have "name_diff (at d) (at e) p q (min (length (x # xs)) (length ys))
          = Some (Some (MZ_TOLOWER x, MZ_TOLOWER y))"
        using False x y Cons.prems \<open>ys = y # ys'\<close> by (simp add: Let_def)
      then show ?thesis using ex
        by (intro exI [of _ "Some (MZ_TOLOWER x, MZ_TOLOWER y)"]) (simp only: option.case case_prod_conv simp_thms)
    qed
  qed
qed

lemma append_same_less: "(u @ xs < u @ ys) = (xs < (ys :: bytes))"
  by (induction u) simp_all

lemma self_less_append: "(u < u @ (xs :: bytes)) = (xs \<noteq> [])"
  using append_same_less [of u "[]" xs] by (cases xs) simp_all

lemma append_not_less_self: "\<not> u @ xs < (u :: bytes)"
  using append_same_less [of u xs "[]"] by simp

lemma lower_order:
  assumes "lower (take (length ys) xs) = lower (take (length xs) ys)"
  shows "(lower xs < lower ys) = (length xs < length ys)"
    "(lower xs = lower ys) = (length xs = length ys)"
proof -
  have t: "take (length ys) (lower xs) = take (length xs) (lower ys)"
    using assms by (simp add: lower_def take_map)
  have len: "length (lower zs) = length zs" for zs by (simp add: lower_def)
  have "\<exists>zs. lower ys = lower xs @ zs \<and> length zs = length ys - length xs" if "length xs \<le> length ys"
    using t that len by (intro exI [of _ "drop (length xs) (lower ys)"]) (metis append_take_drop_id length_drop take_all)
  moreover have "\<exists>zs. lower xs = lower ys @ zs \<and> length zs = length xs - length ys" if "length ys \<le> length xs"
    using t that len by (intro exI [of _ "drop (length ys) (lower xs)"]) (metis append_take_drop_id length_drop take_all)
  ultimately show "(lower xs < lower ys) = (length xs < length ys)"
    "(lower xs = lower ys) = (length xs = length ys)"
    by (cases "length xs \<le> length ys"; force simp: self_less_append append_not_less_self)+
qed

lemma differing_order:
  assumes "lower xs = u @ l # v" "lower ys = u @ r # w" "l \<noteq> r"
  shows "(lower xs < lower ys) = (l < r)" "lower xs \<noteq> lower ys"
  unfolding assms(1,2) using assms(3) by (simp_all add: append_same_less)

text \<open>A state of the archive with a directory \<open>d\<close> whose records are at \<open>offs\<close>.\<close>

definition array_is :: "'a mz_zip_array \<Rightarrow> 'a list \<Rightarrow> bool" where
  "array_is a xs \<longleftrightarrow> (case m_p a of None \<Rightarrow> xs = [] | Some ys \<Rightarrow> ys = map Some xs)"

lemma element_array:
  "array_is a xs \<Longrightarrow> MZ_ZIP_ARRAY_ELEMENT a i = at xs i"
  by (auto simp: array_is_def MZ_ZIP_ARRAY_ELEMENT_def at_def split: option.splits)

lemma element_array_fun: "array_is a xs \<Longrightarrow> MZ_ZIP_ARRAY_ELEMENT a = at xs"
  by (intro ext) (rule element_array)

definition record_ofs :: "bytes \<Rightarrow> 32 word list \<Rightarrow> bool" where
  "record_ofs d offs \<longleftrightarrow> (\<forall>p \<in> set offs. record_at d (unat p))"

definition dir_name :: "bytes \<Rightarrow> 32 word list \<Rightarrow> 32 word \<Rightarrow> bytes" where
  "dir_name d offs i = record_name d (unat (offs ! unat i))"

lemma record_name_length: "record_at d p \<Longrightarrow> length (record_name d p) = unat (le16 d (p + 28))"
  by (simp add: record_at_def record_name_def length_sub)

lemma filename_less_key:
  assumes "array_is dir d" "array_is offsets offs" "record_ofs d offs"
    "unat i < length offs" "unat j < length offs"
  shows "mz_zip_reader_filename_less dir offsets i j = Some (lower (dir_name d offs i) < lower (dir_name d offs j))"
proof -
  let ?p = "unat (offs ! unat i)" and ?q = "unat (offs ! unat j)"
  let ?xs = "dir_name d offs i" and ?ys = "dir_name d offs j"
  let ?l = "le16 d (?p + 28)" and ?r = "le16 d (?q + 28)"
  have r: "record_at d ?p" "record_at d ?q" using assms(3-5) by (auto simp: record_ofs_def)
  have len: "length ?xs = unat ?l" "length ?ys = unat ?r"
    using r by (simp_all add: dir_name_def record_name_length)
  have bounds: "?p + 46 + length ?xs \<le> length d" "?q + 46 + length ?ys \<le> length d"
    using r len by (simp_all add: record_at_def)
  have self: "sub d (?p + 46) (length ?xs) = ?xs" "sub d (?q + 46) (length ?ys) = ?ys"
    using len by (simp_all add: dir_name_def record_name_def)
  from name_diff_less [OF bounds self] obtain df where
    df: "name_diff (at d) (at d) (?p + 46) (?q + 46) (min (length ?xs) (length ?ys)) = Some df"
      "case df of None \<Rightarrow> lower (take (length ?ys) ?xs) = lower (take (length ?xs) ?ys)
       | Some (l, r) \<Rightarrow> \<exists>u v w. lower ?xs = u @ l # v \<and> lower ?ys = u @ r # w \<and> l \<noteq> r" by blast
  have m: "unat (min ?l ?r) = min (length ?xs) (length ?ys)"
    using len by (simp add: min_def word_le_nat_alt)
  have "(case df of None \<Rightarrow> ?l < ?r | Some (l, r) \<Rightarrow> l < r) = (lower ?xs < lower ?ys)"
  proof (cases df)
    case None
    then show ?thesis using df(2) lower_order(1) [of ?ys ?xs] len by (simp add: word_less_nat_alt)
  next
    case (Some lr)
    then show ?thesis using df(2) differing_order(1) by (cases lr) fastforce
  qed
  moreover have "mz_zip_reader_filename_less dir offsets i j = Some (case df of None \<Rightarrow> ?l < ?r | Some (l, r) \<Rightarrow> l < r)"
    using bounds assms(4,5) df(1) m
    by (simp add: mz_zip_reader_filename_less_def element_array_fun [OF assms(1)] element_array_fun [OF assms(2)]
        Let_def read_le16)
  ultimately show ?thesis by simp
qed

lemma filename_compare_key:
  assumes "array_is dir d" "array_is offsets offs" "record_ofs d offs"
    "unat i < length offs" "length name < 2 ^ 31"
  shows "\<exists>c. mz_zip_reader_filename_compare dir offsets i name (of_nat (length name)) = Some c
    \<and> (c < 0 \<longleftrightarrow> lower (dir_name d offs i) < lower name) \<and> (c = 0 \<longleftrightarrow> lower (dir_name d offs i) = lower name)"
proof -
  let ?p = "unat (offs ! unat i)" and ?xs = "dir_name d offs i"
  let ?l = "le16 d (?p + 28)" and ?r = "of_nat (length name) :: 32 word"
  have r: "record_at d ?p" using assms(3,4) by (auto simp: record_ofs_def)
  have ulen: "unat ?r = length name" using assms(5) by (simp add: unsigned_of_nat take_bit_nat_eq_self)
  have len: "length ?xs = unat ?l" using r by (simp add: dir_name_def record_name_length)
  have bounds: "?p + 46 + length ?xs \<le> length d" using r len by (simp add: record_at_def)
  have self: "sub d (?p + 46) (length ?xs) = ?xs" "sub name 0 (length name) = name"
    using len by (simp_all add: dir_name_def record_name_def sub_def)
  from name_diff_less [OF bounds _ self] obtain df where
    df: "name_diff (at d) (at name) (?p + 46) 0 (min (length ?xs) (length name)) = Some df"
      "case df of None \<Rightarrow> lower (take (length name) ?xs) = lower (take (length ?xs) name)
       | Some (l, r) \<Rightarrow> \<exists>u v w. lower ?xs = u @ l # v \<and> lower name = u @ r # w \<and> l \<noteq> r" by auto
  have m: "unat (min ?l ?r) = min (length ?xs) (length name)"
    using len ulen by (auto simp: min_def word_le_nat_alt)
  have diff: "sint (?l - ?r) = int (length ?xs) - int (length name)"
  proof -
    have u: "uint ?l = int (length ?xs)" "uint ?r = int (length name)"
      using len ulen by (simp_all only: uint_nat)
    have "?l - ?r = word_of_int (int (length ?xs) - int (length name))"
      unfolding u [symmetric] by simp
    then have "sint (?l - ?r) = signed_take_bit 31 (int (length ?xs) - int (length name))"
      by (simp only: signed_of_int) simp
    also have "\<dots> = int (length ?xs) - int (length name)"
    proof (rule signed_take_bit_int_eq_self)
      have "length ?xs < 65536" "length name < 2147483648"
        using le16_less [of d "?p + 28"] len assms(5) by simp_all
      then show "- (2 ^ 31) \<le> int (length ?xs) - int (length name)"
        "int (length ?xs) - int (length name) < 2 ^ 31" by simp_all
    qed
    finally show ?thesis .
  qed
  have "\<exists>c. (case df of None \<Rightarrow> sint (?l - ?r) | Some (l, r) \<Rightarrow> uint l - uint r) = c
      \<and> (c < 0 \<longleftrightarrow> lower ?xs < lower name) \<and> (c = 0 \<longleftrightarrow> lower ?xs = lower name)"
  proof (cases df)
    case None
    then show ?thesis using df(2) lower_order [of name ?xs] diff by auto
  next
    case (Some lr)
    obtain l k where "lr = (l, k)" by (cases lr)
    with Some df(2) obtain u v w where "lower ?xs = u @ l # v" "lower name = u @ k # w" "l \<noteq> k" by auto
    from differing_order [OF this] Some \<open>lr = (l, k)\<close> \<open>l \<noteq> k\<close> show ?thesis
      by (simp add: word_less_def word_uint_eq_iff)
  qed
  then show ?thesis using bounds assms(4) df(1) m
    by (simp add: mz_zip_reader_filename_compare_def element_array_fun [OF assms(1)] element_array_fun [OF assms(2)]
        Let_def read_le16)
qed

subsection \<open>An open archive\<close>

definition zip_ok :: "bytes \<Rightarrow> 32 word list \<Rightarrow> mz_zip_archive \<Rightarrow> bool" where
  "zip_ok d offs z \<longleftrightarrow> m_zip_mode z = MZ_ZIP_MODE_READING \<and> length offs = unat (m_total_files z)
    \<and> record_ofs d offs
    \<and> (\<exists>st srt. m_pState z = Some st \<and> array_is (m_central_dir st) d
        \<and> array_is (m_central_dir_offsets st) offs
        \<and> array_is (m_sorted_central_dir_offsets st) srt
        \<and> mset srt = mset (map of_nat [0..<length offs]))"

lemma zip_okE:
  assumes "zip_ok d offs z"
  obtains st srt where "m_pState z = Some st" "array_is (m_central_dir st) d"
    "array_is (m_central_dir_offsets st) offs" "array_is (m_sorted_central_dir_offsets st) srt"
    "mset srt = mset (map of_nat [0..<length offs])"
  using assms by (auto simp: zip_ok_def)

text \<open>Computations that answer and change nothing.\<close>

definition answers :: "'a Z \<Rightarrow> zenv \<Rightarrow> mz_zip_archive \<Rightarrow> bool" where
  "answers m E z \<longleftrightarrow> (\<exists>x. m E z = (Inr x, z))"

lemma answers_bindM [intro]:
  assumes "answers m E z" "\<And>x. m E z = (Inr x, z) \<Longrightarrow> answers (f x) E z"
  shows "answers (bindM m f) E z"
  using assms by (auto simp: answers_def run_bindM)

lemma answers_retM [intro]: "answers (retM x) E z"
  by (simp add: answers_def run_retM)

lemma answers_getM [intro]: "answers (getM f) E z"
  by (simp add: answers_def run_getM)

lemma answers_askM [intro]: "answers (askM f) E z"
  by (simp add: answers_def run_askM)

lemma answers_if [intro]: "(b \<Longrightarrow> answers m E z) \<Longrightarrow> (\<not> b \<Longrightarrow> answers k E z) \<Longrightarrow> answers (if b then m else k) E z"
  by simp

lemma run_access: "access (Some v) E z = (Inr v, z)" "access None E z = (Inl Bad_access, z)"
  by (simp_all add: access_def run_retM run_failM)

lemma run_pState: "m_pState z = Some st \<Longrightarrow> pState E z = (Inr st, z)"
  by (simp add: pState_def run_bindM run_getM run_access)

lemma run_cd16: "zip_ok d offs z \<Longrightarrow> p + 2 \<le> length d \<Longrightarrow> cd16 p E z = (Inr (le16 d p), z)"
  by (erule zip_okE) (simp add: cd16_def run_bindM run_pState element_array_fun read_le16 run_access)

lemma run_cd32: "zip_ok d offs z \<Longrightarrow> p + 4 \<le> length d \<Longrightarrow> cd32 p E z = (Inr (le32 d p), z)"
  by (erule zip_okE) (simp add: cd32_def run_bindM run_pState element_array_fun read_le32 run_access)

lemma run_cd_copy: "zip_ok d offs z \<Longrightarrow> p + n \<le> length d \<Longrightarrow> cd_copy p n E z = (Inr (sub d p n), z)"
  by (erule zip_okE) (simp add: cd_copy_def run_bindM run_pState element_array_fun memcpy_from_at run_access)

lemma answers_cd16: "zip_ok d offs z \<Longrightarrow> p + 2 \<le> length d \<Longrightarrow> answers (cd16 p) E z"
  by (simp add: answers_def run_cd16)

lemma answers_cd32: "zip_ok d offs z \<Longrightarrow> p + 4 \<le> length d \<Longrightarrow> answers (cd32 p) E z"
  by (simp add: answers_def run_cd32)

lemma answers_cd_copy: "zip_ok d offs z \<Longrightarrow> p + n \<le> length d \<Longrightarrow> answers (cd_copy p n) E z"
  by (simp add: answers_def run_cd_copy)

lemma run_get_cdh:
  assumes "zip_ok d offs z"
  shows "mz_zip_reader_get_cdh i E z =
    (Inr (if unat i < length offs then Some (unat (offs ! unat i)) else None), z)"
proof -
  from assms obtain st srt where st: "m_pState z = Some st" "array_is (m_central_dir_offsets st) offs"
    by (rule zip_okE)
  have "length offs = unat (m_total_files z)" "m_zip_mode z = MZ_ZIP_MODE_READING"
    using assms by (simp_all add: zip_ok_def)
  then show ?thesis using st
    by (auto simp: mz_zip_reader_get_cdh_def run_bindM run_pState run_access run_retM element_array
        word_le_nat_alt)
qed

text \<open>The fields of a record, and the strings behind it, lie inside the block.\<close>

lemma record_ofsD: "record_ofs d offs \<Longrightarrow> i < length offs \<Longrightarrow> record_at d (unat (offs ! i))"
  by (auto simp: record_ofs_def)

lemma run_with_cdh:
  assumes "zip_ok d offs z"
  shows "with_cdh i v f E z = (if unat i < length offs then f (unat (offs ! unat i)) E z else (Inr v, z))"
  by (simp add: with_cdh_def run_bindM run_get_cdh [OF assms] run_retM)

lemma answers_with_cdh:
  assumes "zip_ok d offs z"
    and "\<And>p. record_at d p \<Longrightarrow> answers (f p) E z"
  shows "answers (with_cdh i v f) E z"
proof (cases "unat i < length offs")
  case True
  have "record_ofs d offs" using assms(1) by (simp add: zip_ok_def)
  from assms(2) [OF record_ofsD [OF this True]] show ?thesis
    using True by (simp add: answers_def run_with_cdh [OF assms(1)])
qed (simp add: answers_def run_with_cdh [OF assms(1)])

lemma run_cd16D: "zip_ok d offs z \<Longrightarrow> p + 2 \<le> length d \<Longrightarrow> cd16 p E z = (Inr x, z) \<Longrightarrow> x = le16 d p"
  by (simp add: run_cd16)

lemma zip_record: "zip_ok d offs z \<Longrightarrow> unat i < length offs \<Longrightarrow> record_at d (unat (offs ! unat i))"
  by (auto simp: zip_ok_def intro: record_ofsD)

lemma run_is_encrypted:
  assumes "zip_ok d offs z"
  shows "mz_zip_reader_is_file_encrypted i E z = (Inr (unat i < length offs
    \<and> le16 d (unat (offs ! unat i) + 8) AND 1 \<noteq> 0), z)"
proof (cases "unat i < length offs")
  case True
  then show ?thesis using zip_record [OF assms True]
    by (simp add: mz_zip_reader_is_file_encrypted_def run_with_cdh [OF assms] run_bindM run_retM
        run_cd16 [OF assms] record_at_def)
qed (simp add: mz_zip_reader_is_file_encrypted_def run_with_cdh [OF assms])

lemma run_is_directory:
  assumes "zip_ok d offs z"
  shows "mz_zip_reader_is_file_a_directory i E z = (Inr (unat i < length offs \<and>
    (let p = unat (offs ! unat i); name = record_name d p in
     le16 d (p + 36) = 0 \<and> le32 d (p + 38) AND 0x10 \<noteq> 0 \<or> name \<noteq> [] \<and> last name = 47)), z)"
proof (cases "unat i < length offs")
  case True
  let ?p = "unat (offs ! unat i)"
  let ?n = "unat (le16 d (?p + 28))" and ?name = "record_name d ?p"
  have r: "record_at d ?p" by (rule zip_record [OF assms True])
  have len: "length ?name = ?n" by (rule record_name_length [OF r])
  have last: "(sub d (?p + 46 + ?n - 1) 1 = [47]) = (last ?name = 47)" if "0 < ?n"
  proof -
    have "sub d (?p + 46 + ?n - 1) 1 = [d ! (?p + 46 + ?n - 1)]"
      using r that by (simp add: sub_def record_at_def take_Suc_conv_app_nth)
    moreover have "last ?name = d ! (?p + 46 + ?n - 1)"
      using r that len by (simp add: last_conv_nth record_name_def sub_def record_at_def)
    ultimately show ?thesis by simp
  qed
  have nz: "le16 d (?p + 28) = 0 \<longleftrightarrow> ?name = []"
    using len by (simp add: unat_eq_0 [symmetric] flip: length_0_conv)
  have copy: "cd_copy (?p + 46 + ?n - 1) 1 E z = (Inr (sub d (?p + 46 + ?n - 1) 1), z)" if "0 < ?n"
    using r that by (intro run_cd_copy [OF assms]) (simp add: record_at_def)
  show ?thesis
  proof (cases "0 < ?n")
    case True
    then show ?thesis using r \<open>unat i < length offs\<close> len last [OF True] nz copy [OF True]
      by (auto simp add: mz_zip_reader_is_file_a_directory_def run_with_cdh [OF assms] run_bindM run_retM
        run_cd16 [OF assms] run_cd32 [OF assms] record_at_def Let_def simp del: One_nat_def)
  next
    case False
    then show ?thesis using r \<open>unat i < length offs\<close> len nz
    by (simp add: mz_zip_reader_is_file_a_directory_def run_with_cdh [OF assms] run_bindM run_retM
        run_cd16 [OF assms] run_cd32 [OF assms] record_at_def Let_def)
  qed
qed (simp add: mz_zip_reader_is_file_a_directory_def run_with_cdh [OF assms])

lemma run_get_filename:
  assumes "zip_ok d offs z"
  shows "mz_zip_reader_get_filename i n E z = (Inr (if unat i < length offs then
      (let name = dir_name d offs i in
       if n = 0 then (of_nat (length name) + 1, None)
       else (of_nat (min (length name) (unat (n - 1))) + 1, Some (take (unat (n - 1)) name)))
    else (0, if n = 0 then None else Some [])), z)"
proof (cases "unat i < length offs")
  case True
  let ?p = "unat (offs ! unat i)"
  have r: "record_at d ?p" by (rule zip_record [OF assms True])
  have len: "length (dir_name d offs i) = unat (le16 d (?p + 28))"
    using record_name_length [OF r] by (simp add: dir_name_def)
  have m: "unat (min (le16 d (?p + 28)) (n - 1)) = min (length (dir_name d offs i)) (unat (n - 1))"
    using len by (auto simp: min_def word_le_nat_alt)
  have "sub d (?p + 46) (min (length (dir_name d offs i)) (unat (n - 1))) = take (unat (n - 1)) (dir_name d offs i)"
    using len by (simp add: dir_name_def record_name_def sub_def min.commute)
  moreover have "min (le16 d (?p + 28)) (n - 1) = of_nat (min (length (dir_name d offs i)) (unat (n - 1)))"
    using m by (metis of_nat_unat unsigned_ucast_eq ucast_id)
  moreover have "cd_copy (?p + 46) (unat (min (le16 d (?p + 28)) (n - 1))) E z
      = (Inr (sub d (?p + 46) (unat (min (le16 d (?p + 28)) (n - 1)))), z)"
    using r m len by (intro run_cd_copy [OF assms]) (simp add: record_at_def)
  ultimately show ?thesis
    using r True m len
    by (simp add: mz_zip_reader_get_filename_def run_with_cdh [OF assms] run_bindM run_retM
        run_cd16 [OF assms] record_at_def Let_def)
qed (simp add: mz_zip_reader_get_filename_def run_with_cdh [OF assms] run_retM)

lemma answers_file_stat:
  assumes "zip_ok d offs z"
  shows "answers (mz_zip_reader_file_stat i) E z"
proof (cases "unat i < length offs")
  case True
  have "record_at d (unat (offs ! unat i))" by (rule zip_record [OF assms True])
  then show ?thesis using True
    by (simp add: answers_def mz_zip_reader_file_stat_def mz_zip_dos_to_time_t_def run_with_cdh [OF assms]
        run_bindM run_retM run_askM run_getM run_cd16 [OF assms] run_cd32 [OF assms] run_cd_copy [OF assms]
        record_at_def)
qed (simp add: answers_def mz_zip_reader_file_stat_def run_with_cdh [OF assms])

end
