(* ===== verification/Zip_Find.thy ===== *)
theory Zip_Find
  imports Zip_Wf
begin

text \<open>
  Finding a file by its name in an open archive: the comparisons meet the interfaces of the heap sort and
  of the binary search, so the index is sorted by lower-case names and the search is exact.
\<close>

subsection \<open>The interfaces of \<^verbatim>\<open>Zip_Sort\<close>\<close>

definition index_key :: "bytes \<Rightarrow> 32 word list \<Rightarrow> 32 word option \<Rightarrow> bytes" where
  "index_key d offs x = (case x of None \<Rightarrow> [] | Some i \<Rightarrow> lower (dir_name d offs i))"

definition indices ::
  "8 word mz_zip_array \<Rightarrow> 32 word mz_zip_array \<Rightarrow> bytes \<Rightarrow> 32 word list \<Rightarrow> 32 word option set" where
  "indices dir offsets d offs = (if array_is dir d \<and> array_is offsets offs \<and> record_ofs d offs
     then {Some i | i. unat i < length offs} else {})"

definition index_less ::
  "8 word mz_zip_array \<Rightarrow> 32 word mz_zip_array \<Rightarrow> 32 word option \<Rightarrow> 32 word option \<Rightarrow> bool option" where
  "index_less dir offsets x y =
     Option.bind x (\<lambda>l. Option.bind y (\<lambda>r. mz_zip_reader_filename_less dir offsets l r))"

definition index_compare ::
  "8 word mz_zip_array \<Rightarrow> 32 word mz_zip_array \<Rightarrow> bytes \<Rightarrow> 32 word option \<Rightarrow> int option" where
  "index_compare dir offsets name x =
     Option.bind x (\<lambda>i. mz_zip_reader_filename_compare dir offsets i name (of_nat (length name)))"

interpretation zipsort: keyed "index_less dir offsets" "index_key d offs" "indices dir offsets d offs"
  for dir offsets d offs
  by unfold_locales
    (auto simp: indices_def index_less_def index_key_def filename_less_key split: if_splits)

interpretation zipsearch: searched "index_compare dir offsets name" "index_key d offs"
    "if length name < 2 ^ 31 then indices dir offsets d offs else {}" "lower name"
  for dir offsets name d offs
  by unfold_locales
    (auto simp: indices_def index_compare_def index_key_def filename_compare_key split: if_splits)

subsection \<open>The sorted index\<close>

lemma array_is_unique: "array_is a xs \<Longrightarrow> array_is a ys \<Longrightarrow> xs = ys"
  by (auto simp: array_is_def inj_map_eq_map split: option.splits)

definition index_sorted :: "bytes \<Rightarrow> 32 word list \<Rightarrow> mz_zip_archive \<Rightarrow> bool" where
  "index_sorted d offs z \<longleftrightarrow> (\<exists>st srt. m_pState z = Some st
     \<and> array_is (m_sorted_central_dir_offsets st) srt \<and> sorted (map (index_key d offs) (map Some srt)))"

lemma indices_zip_ok:
  assumes "zip_ok d offs z" "m_pState z = Some st"
  shows "indices (m_central_dir st) (m_central_dir_offsets st) d offs = {Some i | i. unat i < length offs}"
  using assms by (auto simp: indices_def zip_ok_def)

lemma set_indices:
  fixes srt :: "32 word list"
  assumes "mset srt = mset (map of_nat [0..<n])" "n < 2 ^ 32"
  shows "set srt = {i. unat i < n}" "length srt = n"
proof -
  have "set srt = set (map of_nat [0..<n])" using assms(1) by (metis set_mset_mset)
  also have "\<dots> = {i. unat i < n}"
  proof
    show "set (map of_nat [0..<n]) \<subseteq> {i :: 32 word. unat i < n}"
      using assms(2) by (auto simp: unsigned_of_nat take_bit_nat_eq_self)
    show "{i :: 32 word. unat i < n} \<subseteq> set (map of_nat [0..<n])"
    proof
      fix i :: "32 word"
      assume "i \<in> {i. unat i < n}"
      then have "unat i \<in> {0..<n}" by simp
      moreover have "i = of_nat (unat i)" by simp
      ultimately have "i \<in> of_nat ` {0..<n}" by blast
      then show "i \<in> set (map of_nat [0..<n])" by simp
    qed
  qed
  finally show "set srt = {i. unat i < n}" .
  have "size (mset srt) = size (mset (map (of_nat :: nat \<Rightarrow> 32 word) [0..<n]))" using assms(1) by simp
  then show "length srt = n" by simp
qed

lemma zip_ok_size: "zip_ok d offs z \<Longrightarrow> length offs < 2 ^ 32"
  using unsigned_less [of "m_total_files z"] by (simp add: zip_ok_def word_less_nat_alt)

lemma sort_index:
  assumes "zip_ok d offs z"
  shows "\<exists>z'. mz_zip_reader_sort_central_dir_offsets_by_filename E z = (Inr (), z')
    \<and> zip_ok d offs z' \<and> index_sorted d offs z'"
proof -
  from assms obtain st srt where st: "m_pState z = Some st" "array_is (m_central_dir st) d"
    "array_is (m_central_dir_offsets st) offs" "array_is (m_sorted_central_dir_offsets st) srt"
    "mset srt = mset (map of_nat [0..<length offs])" by (rule zip_okE)
  have n: "length offs = unat (m_total_files z)" using assms by (simp add: zip_ok_def)
  note srt = set_indices [OF st(5) zip_ok_size [OF assms]]
  show ?thesis
  proof (cases "m_p (m_sorted_central_dir_offsets st)")
    case None
    then have "srt = []" using st(4) by (simp add: array_is_def)
    moreover have "length offs = 0" using srt(2) \<open>srt = []\<close> by simp
    moreover have "m_total_files z = 0" using n \<open>length offs = 0\<close> by (simp add: unat_eq_0)
    ultimately show ?thesis using None st assms
      by (auto simp: mz_zip_reader_sort_central_dir_offsets_by_filename_def run_bindM run_pState run_getM
          run_retM index_sorted_def)
  next
    case (Some xs)
    then have xs: "xs = map Some srt" using st(4) by (simp add: array_is_def)
    have "set xs \<subseteq> indices (m_central_dir st) (m_central_dir_offsets st) d offs"
      unfolding indices_zip_ok [OF assms st(1)] xs using srt(1) by auto
    from zipsort.heap_sort_sorted [OF this] obtain ys where
      ys: "heap_sort (index_less (m_central_dir st) (m_central_dir_offsets st)) (length xs) xs = Some ys"
        "mset ys = mset xs" "sorted (map (index_key d offs) ys)" by blast
    have "set ys = set xs" using ys(2) by (metis set_mset_mset)
    then obtain srt' where srt': "ys = map Some srt'" using xs ex_map_conv [of ys Some] by auto
    have "mset (map Some srt') = mset (map Some srt)" using ys(2) xs srt' by simp
    then have "mset (map the (map Some srt')) = mset (map the (map Some srt))" by (metis mset_map)
    then have perm: "mset srt' = mset (map of_nat [0..<length offs])" using st(5) by (simp add: comp_def)
    let ?st = "m_sorted_central_dir_offsets_update (\<lambda>a. a\<lparr>m_p := Some ys\<rparr>) st"
    have "index_less (m_central_dir st) (m_central_dir_offsets st) =
        (\<lambda>x y. Option.bind x (\<lambda>l. Option.bind y (\<lambda>r.
          mz_zip_reader_filename_less (m_central_dir st) (m_central_dir_offsets st) l r)))"
      by (intro ext) (simp add: index_less_def)
    moreover have "length xs = unat (m_total_files z)" using xs srt(2) n by simp
    ultimately have "mz_zip_reader_sort_central_dir_offsets_by_filename E z = (Inr (), z\<lparr>m_pState := Some ?st\<rparr>)"
      using Some ys(1) st(1)
      by (simp add: mz_zip_reader_sort_central_dir_offsets_by_filename_def run_bindM run_pState run_getM
          run_access on_state_def run_modM)
    moreover have "array_is (m_sorted_central_dir_offsets ?st) srt'"
      using srt' by (simp add: array_is_def)
    ultimately show ?thesis using assms st perm ys(3) srt'
      by (auto simp: zip_ok_def index_sorted_def)
  qed
qed

subsection \<open>The binary search\<close>

text \<open>
  What a search by name should answer: the index of a file whose name is equal up to case, or -1 when there
  is none.
\<close>

definition found :: "bytes \<Rightarrow> 32 word list \<Rightarrow> bytes \<Rightarrow> int \<Rightarrow> bool" where
  "found d offs name r \<longleftrightarrow>
    (r = -1 \<and> (\<forall>i. unat i < length offs \<longrightarrow> lower (dir_name d offs i) \<noteq> lower name))
    \<or> (\<exists>i. r = uint i \<and> unat i < length offs \<and> lower (dir_name d offs i) = lower name)"

lemma binary_search_found:
  assumes "zip_ok d offs z" "index_sorted d offs z" "length name < 2 ^ 31"
  shows "\<exists>r. mz_zip_reader_locate_file_binary_search name E z = (Inr r, z) \<and> found d offs name r"
proof -
  from assms(1) obtain st srt where st: "m_pState z = Some st" "array_is (m_central_dir st) d"
    "array_is (m_central_dir_offsets st) offs" "array_is (m_sorted_central_dir_offsets st) srt"
    "mset srt = mset (map of_nat [0..<length offs])" by (rule zip_okE)
  have n: "length offs = unat (m_total_files z)" using assms(1) by (simp add: zip_ok_def)
  note srt = set_indices [OF st(5) zip_ok_size [OF assms(1)]]
  let ?a = "map Some srt"
  have a: "(case m_p (m_sorted_central_dir_offsets st) of None \<Rightarrow> [] | Some xs \<Rightarrow> xs) = ?a"
    using st(4) by (auto simp: array_is_def split: option.splits)
  have sorted: "sorted (map (index_key d offs) ?a)"
    using assms(2) st(1,4) array_is_unique by (fastforce simp: index_sorted_def)
  have ind: "indices (m_central_dir st) (m_central_dir_offsets st) d offs = {Some i | i. unat i < length offs}"
    by (rule indices_zip_ok [OF assms(1) st(1)])
  have "set ?a \<subseteq> (if length name < 2 ^ 31
      then indices (m_central_dir st) (m_central_dir_offsets st) d offs else {})"
    using srt(1) ind assms(3) by auto
  from zipsearch.bin_search_complete [OF this sorted] obtain r where
    r: "bin_search (index_compare (m_central_dir st) (m_central_dir_offsets st) name) ?a 0 (int (length ?a) - 1) = Some r"
      "case r of Some x \<Rightarrow> x \<in> set ?a \<and> index_key d offs x = lower name
       | None \<Rightarrow> \<forall>x \<in> set ?a. index_key d offs x \<noteq> lower name" by blast
  have cmp: "index_compare (m_central_dir st) (m_central_dir_offsets st) name =
      (\<lambda>x. Option.bind x (\<lambda>file_index. mz_zip_reader_filename_compare (m_central_dir st)
        (m_central_dir_offsets st) file_index name (of_nat (length name))))"
    by (intro ext) (simp add: index_compare_def)
  have run: "mz_zip_reader_locate_file_binary_search name E z =
      (case r of None \<Rightarrow> (Inr (-1), z) | Some x \<Rightarrow> (case x of None \<Rightarrow> (Inl Bad_access, z) | Some i \<Rightarrow> (Inr (uint i), z)))"
    using r(1) st(1) srt(2) n
    by (simp add: mz_zip_reader_locate_file_binary_search_def run_bindM run_pState run_getM a
        flip: cmp uint_nat) (simp add: run_access run_retM run_bindM split: option.splits)
  show ?thesis
  proof (cases r)
    case None
    then show ?thesis using run r(2) srt(1) by (auto simp: found_def index_key_def)
  next
    case (Some x)
    then obtain i where "x = Some i" "unat i < length offs" using r(2) srt(1) by auto
    then show ?thesis using run Some r(2) by (auto simp: found_def index_key_def)
  qed
qed

subsection \<open>Both searches read inside the directory\<close>

lemma name_diff_defined:
  "p + k \<le> length d \<Longrightarrow> q + k \<le> length e \<Longrightarrow> \<exists>r. name_diff (at d) (at e) p q k = Some r"
  by (induction k arbitrary: p q) (auto simp: Let_def)

lemma equal_bytes_at:
  "p + k \<le> length d \<Longrightarrow> q + k \<le> length e \<Longrightarrow> equal_bytes cs (at d) p (at e) q k
    = Some (if cs then sub d p k = sub e q k else lower (sub d p k) = lower (sub e q k))"
proof (induction k arbitrary: p q)
  case 0
  then show ?case by (simp add: sub_def)
next
  case (Suc k)
  then have s: "sub d p (Suc k) = d ! p # sub d (p + 1) k" "sub e q (Suc k) = e ! q # sub e (q + 1) k"
    by (auto simp: sub_def Cons_nth_drop_Suc [symmetric])
  show ?case using Suc by (auto simp: s lower_def)
qed

lemma base_ofs_defined: "p + k \<le> length d \<Longrightarrow> \<exists>ofs \<le> k. base_ofs (at d) p k = Some ofs"
  by (induction k) (auto intro: le_SucI)

lemma record_matches_defined:
  assumes r: "record_at d p"
  shows "\<exists>b. record_matches (at d) p name comment flags = Some b"
proof -
  let ?n = "unat (le16 d (p + 28))"
  have n: "MZ_READ_LE16 (at d) (p + 28) = Some (le16 d (p + 28))"
    "MZ_READ_LE16 (at d) (p + 30) = Some (le16 d (p + 30))"
    "MZ_READ_LE16 (at d) (p + 32) = Some (le16 d (p + 32))"
    using r by (simp_all add: record_at_def read_le16)
  have c: "\<exists>ok. (if c = [] then Some True
      else if unat (le16 d (p + 32)) \<noteq> length c then Some False
      else mz_zip_reader_string_equal (at c) 0 (at d)
        (p + 46 + ?n + unat (le16 d (p + 30))) (unat (le16 d (p + 32))) flags) = Some ok" for c
    using r by (auto simp: mz_zip_reader_string_equal_def equal_bytes_at record_at_def)
  have "p + 46 + ?n \<le> length d" using r by (simp add: record_at_def)
  then obtain ofs where ofs: "ofs \<le> ?n" "base_ofs (at d) (p + 46) ?n = Some ofs"
    using base_ofs_defined [of "p + 46" ?n d] by auto
  have e: "\<exists>b. (if ?n - o' = length name
      then mz_zip_reader_string_equal (at name) 0 (at d) (p + 46 + o') (?n - o') flags else Some False) = Some b"
    if "o' \<le> ?n" for o'
    using r that by (auto simp: mz_zip_reader_string_equal_def equal_bytes_at record_at_def)
  have "\<exists>ok. (case comment of None \<Rightarrow> Some True | Some c \<Rightarrow>
       if c = [] then Some True else
       Option.bind (MZ_READ_LE16 (at d) (p + 30)) (\<lambda>extra_len.
       Option.bind (MZ_READ_LE16 (at d) (p + 32)) (\<lambda>comment_len.
       if unat comment_len \<noteq> length c then Some False
       else mz_zip_reader_string_equal (at c) 0 (at d)
              (p + 46 + ?n + unat extra_len) (unat comment_len) flags))) = Some ok"
  proof (cases comment)
    case (Some a)
    then show ?thesis using c [of a] n by (auto split: if_splits)
  qed auto
  then obtain ok where ok: "(case comment of None \<Rightarrow> Some True | Some c \<Rightarrow>
       if c = [] then Some True else
       Option.bind (MZ_READ_LE16 (at d) (p + 30)) (\<lambda>extra_len.
       Option.bind (MZ_READ_LE16 (at d) (p + 32)) (\<lambda>comment_len.
       if unat comment_len \<noteq> length c then Some False
       else mz_zip_reader_string_equal (at c) 0 (at d)
              (p + 46 + ?n + unat extra_len) (unat comment_len) flags))) = Some ok" ..
  show ?thesis
    using e [OF ofs(1)] e [of 0] ofs(2)
    by (auto simp: record_matches_def n(1) ok)
qed

lemma scan_records_defined:
  assumes "array_is (m_central_dir st) d" "array_is (m_central_dir_offsets st) offs" "record_ofs d offs"
  shows "i + k \<le> length offs \<Longrightarrow> \<exists>r. scan_records st name comment flags k i = Some r"
proof (induction k arbitrary: i)
  case (Suc k)
  have "record_at d (unat (offs ! i))" using Suc.prems assms(3) by (auto intro: record_ofsD)
  from record_matches_defined [OF this] obtain b where
    "record_matches (at d) (unat (offs ! i)) name comment flags = Some b" by blast
  then show ?case using Suc.prems Suc.IH [of "i + 1"]
    by (simp add: element_array_fun [OF assms(1)] element_array_fun [OF assms(2)])
qed simp

lemma compare_defined:
  assumes "array_is dir d" "array_is offsets offs" "record_ofs d offs" "unat i < length offs"
  shows "\<exists>c. mz_zip_reader_filename_compare dir offsets i name (of_nat (length name)) = Some c"
proof -
  let ?p = "unat (offs ! unat i)"
  have r: "record_at d ?p" using assms(3,4) by (rule record_ofsD)
  have m: "unat (min (le16 d (?p + 28)) (of_nat (length name))) \<le> unat (le16 d (?p + 28))"
    "unat (min (le16 d (?p + 28)) (of_nat (length name))) \<le> length name"
    by (auto simp: min_def word_le_nat_alt unsigned_of_nat intro: take_bit_nat_less_eq_self order_trans)
  have "\<exists>df. name_diff (at d) (at name) (?p + 46) 0
      (unat (min (le16 d (?p + 28)) (of_nat (length name)))) = Some df"
    by (rule name_diff_defined) (use m r in \<open>simp_all add: record_at_def\<close>)
  then obtain df where "name_diff (at d) (at name) (?p + 46) 0
      (unat (min (le16 d (?p + 28)) (of_nat (length name)))) = Some df" ..
  then show ?thesis using r assms(4)
    by (simp add: mz_zip_reader_filename_compare_def element_array_fun [OF assms(1)]
        element_array_fun [OF assms(2)] Let_def read_le16 record_at_def)
qed

lemma answers_locate:
  assumes "zip_ok d offs z"
  shows "answers (mz_zip_reader_locate_file name comment flags) E z"
proof -
  from assms obtain st srt where st: "m_pState z = Some st" "array_is (m_central_dir st) d"
    "array_is (m_central_dir_offsets st) offs" "array_is (m_sorted_central_dir_offsets st) srt"
    "mset srt = mset (map of_nat [0..<length offs])" by (rule zip_okE)
  have n: "length offs = unat (m_total_files z)" and ro: "record_ofs d offs"
    using assms by (simp_all add: zip_ok_def)
  note srt = set_indices [OF st(5) zip_ok_size [OF assms]]
  have "\<exists>r. scan_records st name comment flags (unat (m_total_files z)) 0 = Some r"
    by (rule scan_records_defined [OF st(2,3) ro]) (simp add: n)
  then obtain r where r: "scan_records st name comment flags (unat (m_total_files z)) 0 = Some r" ..
  let ?cmp = "\<lambda>x. Option.bind x (\<lambda>file_index. mz_zip_reader_filename_compare (m_central_dir st)
        (m_central_dir_offsets st) file_index name (of_nat (length name)))"
  have a: "(case m_p (m_sorted_central_dir_offsets st) of None \<Rightarrow> [] | Some xs \<Rightarrow> xs) = map Some srt"
    using st(4) by (auto simp: array_is_def split: option.splits)
  have cmp: "\<exists>c. ?cmp x = Some c" if "x \<in> set (map Some srt)" for x
    using that srt(1) compare_defined [OF st(2,3) ro] by auto
  have "uint (m_total_files z) = int (length (map Some srt))"
    using srt(2) n by (simp only: uint_nat length_map)
  then have "\<exists>q. bin_search ?cmp (map Some srt) 0 (uint (m_total_files z) - 1) = Some q
      \<and> (\<forall>x. q = Some x \<longrightarrow> x \<in> set (map Some srt))"
    by (intro bin_search_defined cmp) simp_all
  then obtain q where q: "bin_search ?cmp (map Some srt) 0 (uint (m_total_files z) - 1) = Some q"
    "\<forall>x. q = Some x \<longrightarrow> x \<in> set (map Some srt)" by blast
  have "answers (mz_zip_reader_locate_file_binary_search name) E z"
  proof (cases q)
    case None
    then show ?thesis using q(1)
      by (simp add: answers_def mz_zip_reader_locate_file_binary_search_def run_bindM
          run_pState [OF st(1)] run_getM a run_access run_retM Let_def)
  next
    case (Some x)
    then obtain i where "x = Some i" using q(2) by auto
    then show ?thesis using q(1) Some
      by (simp add: answers_def mz_zip_reader_locate_file_binary_search_def run_bindM
          run_pState [OF st(1)] run_getM a run_access run_retM Let_def)
  qed
  then show ?thesis
    by (simp add: answers_def mz_zip_reader_locate_file_def st(1) r run_access)
qed

end
