(* ===== verification/Zip_Open.thy ===== *)
theory Zip_Open
  imports Zip_Find
begin

text \<open>
  Opening an archive: whatever bytes the read callback delivers, \<^verbatim>\<open>mz_zip_reader_init\<close> reads and
  writes only inside its own blocks, and when it succeeds the index is good for every later call.
\<close>

subsection \<open>Steps of an opening function\<close>

text \<open>
  \<open>zspec E P m Q\<close>: from a state in \<open>P\<close> the computation ends in \<open>Q\<close>, or returns early with the
  archive still to be closed; it makes no bad access.
\<close>

definition opened :: "mz_zip_archive \<Rightarrow> bool" where
  "opened z \<longleftrightarrow> m_zip_mode z = MZ_ZIP_MODE_READING \<and> m_pState z \<noteq> None"

definition zspec ::
  "zenv \<Rightarrow> (mz_zip_archive \<Rightarrow> bool) \<Rightarrow> 'a Z \<Rightarrow> ('a \<Rightarrow> mz_zip_archive \<Rightarrow> bool) \<Rightarrow> bool" where
  "zspec E P m Q \<longleftrightarrow> (\<forall>z. P z \<longrightarrow> (case m E z of
      (Inr x, z') \<Rightarrow> Q x z' | (Inl Returns_false, z') \<Rightarrow> opened z' | (Inl Bad_access, z') \<Rightarrow> False))"

lemma zspecI: "(\<And>z. P z \<Longrightarrow> \<exists>x z'. m E z = (Inr x, z') \<and> Q x z') \<Longrightarrow> zspec E P m Q"
  by (fastforce simp: zspec_def)

lemma zspecD:
  assumes "zspec E P m Q" "P z"
  shows "(\<exists>x z'. m E z = (Inr x, z') \<and> Q x z') \<or> (\<exists>z'. m E z = (Inl Returns_false, z') \<and> opened z')"
proof -
  obtain r z' where r: "m E z = (r, z')" by fastforce
  show ?thesis
  proof (cases r)
    case (Inl e)
    then show ?thesis using assms r by (cases e) (auto simp: zspec_def)
  next
    case (Inr x)
    then show ?thesis using assms r by (auto simp: zspec_def)
  qed
qed

lemma zspec_bindM:
  assumes m: "zspec E P m Q" and f: "\<And>x. zspec E (Q x) (f x) R"
  shows "zspec E P (bindM m f) R"
  unfolding zspec_def
proof (intro allI impI)
  fix z assume P: "P z"
  from zspecD [OF m P] consider x z1 where "m E z = (Inr x, z1)" "Q x z1"
    | z1 where "m E z = (Inl Returns_false, z1)" "opened z1" by blast
  then show "case bindM m f E z of (Inr x, z') \<Rightarrow> R x z' | (Inl Returns_false, z') \<Rightarrow> opened z'
      | (Inl Bad_access, z') \<Rightarrow> False"
  proof cases
    case 1
    with f [of x] show ?thesis by (simp add: zspec_def run_bindM)
  next
    case 2
    then show ?thesis by (simp add: run_bindM)
  qed
qed

lemma zspec_thenM:
  "zspec E P m (\<lambda>_. Q) \<Longrightarrow> zspec E Q k R \<Longrightarrow> zspec E P (thenM m k) R"
  unfolding thenM_def by (rule zspec_bindM)

lemma zspec_weaken:
  "zspec E P m Q \<Longrightarrow> (\<And>z. P' z \<Longrightarrow> P z) \<Longrightarrow> (\<And>x z. Q x z \<Longrightarrow> Q' x z) \<Longrightarrow> zspec E P' m Q'"
  unfolding zspec_def by (fastforce split: prod.splits sum.splits zexc.splits)

lemma zspec_return_false: "(\<And>z. P z \<Longrightarrow> opened z) \<Longrightarrow> zspec E P return_false Q"
  by (simp add: zspec_def run_failM)

lemma zspec_retM: "(\<And>z. P z \<Longrightarrow> Q x z) \<Longrightarrow> zspec E P (retM x) Q"
  by (simp add: zspec_def run_retM)

lemma zspec_getM: "zspec E P (getM f) (\<lambda>x z. P z \<and> x = f z)"
  by (simp add: zspec_def run_getM)

lemma zspec_get: "zspec E P (getM f) (\<lambda>_. P)"
  by (simp add: zspec_def run_getM)

lemma zspec_askM: "zspec E P (askM f) (\<lambda>x z. P z \<and> x = f E)"
  by (simp add: zspec_def run_askM)

lemma zspec_modM: "(\<And>z. P z \<Longrightarrow> Q (f z)) \<Longrightarrow> zspec E P (modM f) (\<lambda>_. Q)"
  by (simp add: zspec_def run_modM)

lemma zspec_access: "x = Some v \<Longrightarrow> (\<And>z. P z \<Longrightarrow> Q v z) \<Longrightarrow> zspec E P (access x) Q"
  by (simp add: zspec_def run_access)

lemma zspec_if:
  "(b \<Longrightarrow> zspec E P m Q) \<Longrightarrow> (\<not> b \<Longrightarrow> zspec E P k Q) \<Longrightarrow> zspec E P (if b then m else k) Q"
  by simp

lemma zspec_whenM: "(b \<Longrightarrow> zspec E P m (\<lambda>_. Q)) \<Longrightarrow> (\<And>z. \<not> b \<Longrightarrow> P z \<Longrightarrow> Q z) \<Longrightarrow> zspec E P (whenM b m) (\<lambda>_. Q)"
  by (simp add: whenM_def zspec_retM)

lemma zspec_pure: "(b \<Longrightarrow> zspec E P m Q) \<Longrightarrow> zspec E (\<lambda>z. P z \<and> b) m Q"
  by (auto simp: zspec_def)

subsection \<open>Reads\<close>

text \<open>The read function is the one of the user, or the archive is a block of the stated size.\<close>

definition reads_ok :: "mz_zip_archive \<Rightarrow> bool" where
  "reads_ok z \<longleftrightarrow> m_pRead z = Some Read_user \<or>
    m_pRead z = Some Read_mem \<and> (\<exists>st mem. m_pState z = Some st \<and> m_pMem st = Some mem
      \<and> unat (m_archive_size z) \<le> length mem)"

lemma pRead_ok: "reads_ok z \<Longrightarrow> \<exists>b. pRead ofs n E z = (Inr b, z)"
proof -
  assume r: "reads_ok z"
  consider "m_pRead z = Some Read_user" | st mem where "m_pRead z = Some Read_mem" "m_pState z = Some st"
      "m_pMem st = Some mem" "unat (m_archive_size z) \<le> length mem"
    using r by (auto simp: reads_ok_def)
  then show ?thesis
  proof cases
    case 1
    then show ?thesis by (simp add: pRead_def)
  next
    case 2
    let ?s = "if m_archive_size z \<le> ofs then 0 else min (unat (m_archive_size z - ofs)) n"
    have "\<exists>b. memcpy_from (at mem) (unat ofs) ?s = Some b"
    proof (cases "m_archive_size z \<le> ofs")
      case True
      then show ?thesis by (simp add: memcpy_from_def)
    next
      case False
      then have "unat (m_archive_size z - ofs) = unat (m_archive_size z) - unat ofs"
        by (simp add: unat_sub word_le_nat_alt)
      then have "unat ofs + ?s \<le> length mem" using False 2(4) by (simp add: word_le_nat_alt)
      then show ?thesis using memcpy_from_at by blast
    qed
    then show ?thesis using 2 by (auto simp: pRead_def mz_zip_mem_read_func_def Let_def run_access)
  qed
qed

lemma read_exactly_cases:
  assumes "reads_ok z"
  shows "(\<exists>b. read_exactly ofs n E z = (Inr b, z) \<and> length b = n) \<or> read_exactly ofs n E z = (Inl Returns_false, z)"
proof -
  from pRead_ok [OF assms] obtain b where "pRead ofs n E z = (Inr b, z)" by blast
  then show ?thesis by (cases "length b = n") (auto simp: read_exactly_def run_bindM run_failM run_retM)
qed

lemma zspec_read:
  assumes "\<And>z. P z \<Longrightarrow> reads_ok z \<and> opened z"
  shows "zspec E P (read_exactly ofs n) (\<lambda>b z. P z \<and> length b = n)"
  unfolding zspec_def
proof (intro allI impI)
  fix z assume P: "P z"
  with read_exactly_cases [of z ofs n E] assms
  show "case read_exactly ofs n E z of (Inr b, z') \<Rightarrow> P z' \<and> length b = n
      | (Inl Returns_false, z') \<Rightarrow> opened z' | (Inl Bad_access, z') \<Rightarrow> False" by auto
qed

lemma find_sig_defined: "i + 3 \<le> length b \<Longrightarrow> \<exists>r. find_sig b i = Some r"
  by (induction i) (auto simp: read_le32)

text \<open>The scan answers an offset or gives up, and never looks outside its buffer.\<close>

lemma find_end_record_ok:
  assumes "\<And>ofs n. (\<exists>b. rd ofs n = Inr b \<and> length b = n) \<or> rd ofs n = Inl Returns_false"
  shows "find_end_record rd wide sz cur = Inl Returns_false \<or> (\<exists>ofs. find_end_record rd wide sz cur = Inr ofs)"
  using assms
proof (induction rd wide sz cur rule: find_end_record.induct)
  case (1 rd wide sz cur)
  let ?n = "unat (min 4096 (sz - cur))"
  from "1.prems" [of cur ?n] consider b where "rd cur ?n = Inr b" "length b = ?n" | "rd cur ?n = Inl Returns_false"
    by blast
  then show ?case
  proof cases
    case (1 b)
    have "\<exists>r. find_sig b (?n - 3) = Some r"
    proof (cases "3 \<le> ?n")
      case True
      then show ?thesis using 1(2) by (intro find_sig_defined) simp
    next
      case False
      then have "?n - 3 = 0" by simp
      then show ?thesis by (simp only: find_sig.simps) simp
    qed
    then obtain r where r: "find_sig b (?n - 3) = Some r" ..
    show ?thesis
    proof (cases r)
      case (Some i)
      then show ?thesis using 1(1) r by (subst (1 2) find_end_record.simps) (simp add: Let_def)
    next
      case None
      note IH = "1.IH" [OF refl 1(1) r None]
      show ?thesis
      proof (cases "cur = 0 \<or> 0xFFFF + 22 \<le> sz - cur")
        case True
        then show ?thesis using 1(1) r None by (subst (1 2) find_end_record.simps) (simp add: Let_def)
      next
        case False
        then show ?thesis using 1(1) r None IH [OF False "1.prems"]
          by (subst (1 2) find_end_record.simps) (simp add: Let_def)
      qed
    qed
  next
    case 2
    then show ?thesis by (subst (1 2) find_end_record.simps) (simp add: Let_def)
  qed
qed

lemma zspec_locate_end_record:
  assumes "\<And>z. P z \<Longrightarrow> reads_ok z \<and> opened z"
  shows "zspec E P locate_end_record (\<lambda>_. P)"
  unfolding zspec_def
proof (intro allI impI)
  fix z assume P: "P z"
  let ?rd = "\<lambda>ofs n. fst (read_exactly ofs n E z)"
  have "(\<exists>b. ?rd ofs n = Inr b \<and> length b = n) \<or> ?rd ofs n = Inl Returns_false" for ofs n
    using read_exactly_cases [of z ofs n E] assms [OF P] by auto
  from find_end_record_ok [of ?rd, OF this]
  show "case locate_end_record E z of (Inr x, z') \<Rightarrow> P z' | (Inl Returns_false, z') \<Rightarrow> opened z'
      | (Inl Bad_access, z') \<Rightarrow> False"
    using P assms [OF P] unfolding locate_end_record_def
    by (metis (no_types, lifting) case_prod_conv sum.case zexc.case(1))
qed

subsection \<open>The loop over the records\<close>

definition good :: "mz_zip_archive \<Rightarrow> bool" where
  "good z \<longleftrightarrow> opened z \<and> reads_ok z"

lemma good_update:
  "good z \<Longrightarrow> m_pState z = Some st \<Longrightarrow> m_pMem st' = m_pMem st \<Longrightarrow> good (z\<lparr>m_pState := Some st'\<rparr>)"
  by (auto simp: good_def opened_def reads_ok_def)

lemma good_opened: "good z \<Longrightarrow> opened z"
  by (simp add: good_def)

text \<open>The archive while \<open>i\<close> of its \<open>N\<close> records are indexed.\<close>

definition indexed :: "bytes \<Rightarrow> nat \<Rightarrow> nat \<Rightarrow> mz_zip_archive \<Rightarrow> bool" where
  "indexed d N i z \<longleftrightarrow> good z \<and> unat (m_total_files z) = N \<and> (\<exists>st xs ys. m_pState z = Some st
     \<and> array_is (m_central_dir st) d
     \<and> m_p (m_central_dir_offsets st) = Some xs \<and> length xs = N
     \<and> (\<forall>j < i. \<exists>q. xs ! j = Some q \<and> record_at d (unat q))
     \<and> m_p (m_sorted_central_dir_offsets st) = Some ys \<and> length ys = N
     \<and> (\<forall>j < i. ys ! j = Some (of_nat j)))"

text \<open>After the two entries of record \<open>i\<close> are stored, before its length is checked.\<close>

definition stored :: "bytes \<Rightarrow> nat \<Rightarrow> nat \<Rightarrow> 32 word \<Rightarrow> mz_zip_archive \<Rightarrow> bool" where
  "stored d N i q z \<longleftrightarrow> good z \<and> unat (m_total_files z) = N \<and> (\<exists>st xs ys. m_pState z = Some st
     \<and> array_is (m_central_dir st) d
     \<and> m_p (m_central_dir_offsets st) = Some xs \<and> length xs = N \<and> xs ! i = Some q
     \<and> (\<forall>j < i. \<exists>q. xs ! j = Some q \<and> record_at d (unat q))
     \<and> m_p (m_sorted_central_dir_offsets st) = Some ys \<and> length ys = N
     \<and> (\<forall>j \<le> i. ys ! j = Some (of_nat j)))"

definition dir_is :: "bytes \<Rightarrow> mz_zip_archive \<Rightarrow> bool" where
  "dir_is d z \<longleftrightarrow> good z \<and> (\<exists>st. m_pState z = Some st \<and> array_is (m_central_dir st) d)"

lemma dir_is_indexed: "indexed d N i z \<Longrightarrow> dir_is d z" "stored d N i q z \<Longrightarrow> dir_is d z"
  by (auto simp: indexed_def stored_def dir_is_def)

lemma zspec_cd16:
  assumes "\<And>z. P z \<Longrightarrow> dir_is d z" "p + 2 \<le> length d"
  shows "zspec E P (cd16 p) (\<lambda>x z. P z \<and> x = le16 d p)"
proof (rule zspecI)
  fix z assume P: "P z"
  then obtain st where "m_pState z = Some st" "array_is (m_central_dir st) d"
    using assms(1) by (auto simp: dir_is_def)
  then show "\<exists>x z'. cd16 p E z = (Inr x, z') \<and> P z' \<and> x = le16 d p"
    using P assms(2)
    by (simp add: cd16_def run_bindM run_pState element_array_fun read_le16 run_access)
qed

lemma zspec_cd32:
  assumes "\<And>z. P z \<Longrightarrow> dir_is d z" "p + 4 \<le> length d"
  shows "zspec E P (cd32 p) (\<lambda>x z. P z \<and> x = le32 d p)"
proof (rule zspecI)
  fix z assume P: "P z"
  then obtain st where "m_pState z = Some st" "array_is (m_central_dir st) d"
    using assms(1) by (auto simp: dir_is_def)
  then show "\<exists>x z'. cd32 p E z = (Inr x, z') \<and> P z' \<and> x = le32 d p"
    using P assms(2)
    by (simp add: cd32_def run_bindM run_pState element_array_fun read_le32 run_access)
qed

lemma zspec_record_check:
  assumes "\<And>z. P z \<Longrightarrow> dir_is d z" "p + 46 \<le> length d"
  shows "zspec E P (record_check disk p) (\<lambda>_. P)"
proof -
  have op: "\<And>z. P z \<Longrightarrow> opened z" using assms(1) by (simp add: dir_is_def good_def)
  note r = zspec_cd16 [OF assms(1)] zspec_cd32 [OF assms(1)]
  show ?thesis unfolding record_check_def
    apply (rule zspec_bindM [OF r(2)], assumption, use assms(2) in simp, rule zspec_pure)
    apply (rule zspec_bindM [OF r(2)], assumption, use assms(2) in simp, rule zspec_pure)
    apply (rule zspec_bindM [OF r(2)], assumption, use assms(2) in simp, rule zspec_pure)
    apply (rule zspec_if [OF zspec_return_false [OF op]], assumption)
    apply (rule zspec_bindM [OF r(1)], assumption, use assms(2) in simp, rule zspec_pure)
    apply (rule zspec_if [OF zspec_return_false [OF op]], assumption)
    apply (rule zspec_bindM [OF r(2)], assumption, use assms(2) in simp, rule zspec_pure)
    apply (rule zspec_bindM [OF zspec_get])
    apply (rule zspec_whenM [OF zspec_return_false [OF op]], assumption, assumption)
    done
qed

lemma stored_step:
  assumes "indexed d N i z" "i < N"
  shows "\<exists>z1 z2. set_element m_central_dir_offsets m_central_dir_offsets_update i q E z = (Inr (), z1)
    \<and> set_element m_sorted_central_dir_offsets m_sorted_central_dir_offsets_update i (of_nat i) E z1 = (Inr (), z2)
    \<and> stored d N i q z2"
proof -
  from assms(1) obtain st xs ys where st: "m_pState z = Some st" "array_is (m_central_dir st) d"
    "m_p (m_central_dir_offsets st) = Some xs" "length xs = N"
    "\<forall>j < i. \<exists>q. xs ! j = Some q \<and> record_at d (unat q)"
    "m_p (m_sorted_central_dir_offsets st) = Some ys" "length ys = N" "\<forall>j < i. ys ! j = Some (of_nat j)"
    and g: "good z" "unat (m_total_files z) = N"
    by (auto simp: indexed_def)
  let ?st1 = "m_central_dir_offsets_update (\<lambda>a. a\<lparr>m_p := Some (xs[i := Some q])\<rparr>) st"
  let ?st2 = "m_sorted_central_dir_offsets_update (\<lambda>a. a\<lparr>m_p := Some (ys[i := Some (of_nat i)])\<rparr>) ?st1"
  let ?z2 = "z\<lparr>m_pState := Some ?st2\<rparr>"
  have "set_element m_central_dir_offsets m_central_dir_offsets_update i q E z
      = (Inr (), z\<lparr>m_pState := Some ?st1\<rparr>)"
    using st assms(2) by (simp add: set_element_def run_bindM run_pState on_state_def run_modM)
  moreover have "set_element m_sorted_central_dir_offsets m_sorted_central_dir_offsets_update i (of_nat i) E
      (z\<lparr>m_pState := Some ?st1\<rparr>) = (Inr (), ?z2)"
    using st assms(2) by (simp add: set_element_def run_bindM run_pState on_state_def run_modM)
  moreover have "good ?z2" by (rule good_update [OF g(1) st(1)]) simp
  then have "stored d N i q ?z2"
    using st assms(2) g(2) by (auto simp: stored_def nth_list_update)
  ultimately show ?thesis by blast
qed

lemma zspec_store:
  assumes "i < N"
  shows "zspec E (indexed d N i)
    (thenM (set_element m_central_dir_offsets m_central_dir_offsets_update i q)
      (set_element m_sorted_central_dir_offsets m_sorted_central_dir_offsets_update i (of_nat i)))
    (\<lambda>_. stored d N i q)"
proof (rule zspecI)
  fix z assume "indexed d N i z"
  from stored_step [OF this assms, of q E] obtain z1 z2 where
    "set_element m_central_dir_offsets m_central_dir_offsets_update i q E z = (Inr (), z1)"
    "set_element m_sorted_central_dir_offsets m_sorted_central_dir_offsets_update i (of_nat i) E z1 = (Inr (), z2)"
    "stored d N i q z2" by blast
  then show "\<exists>x z'. thenM (set_element m_central_dir_offsets m_central_dir_offsets_update i q)
      (set_element m_sorted_central_dir_offsets m_sorted_central_dir_offsets_update i (of_nat i)) E z
      = (Inr x, z') \<and> stored d N i q z'"
    by (simp add: run_thenM)
qed

lemma stored_indexed: "stored d N i q z \<Longrightarrow> record_at d (unat q) \<Longrightarrow> indexed d N (i + 1) z"
  by (auto simp: stored_def indexed_def less_Suc_eq_le le_less)

lemma zspec_index_records:
  assumes "length d < 2 ^ 32"
  shows "i + k = N \<Longrightarrow> p + n = length d \<Longrightarrow>
    zspec E (indexed d N i) (index_records disk k i n p) (\<lambda>_. indexed d N N)"
proof (induction k arbitrary: i n p)
  case 0
  then show ?case by (simp add: zspec_retM)
next
  case (Suc k)
  have op: "\<And>z. indexed d N i z \<Longrightarrow> opened z" "\<And>z. stored d N i q z \<Longrightarrow> opened z" for q
    by (simp_all add: indexed_def stored_def good_def)
  show ?case
  proof (cases "n < 46")
    case True
    then show ?thesis by (simp add: zspec_return_false op)
  next
    case False
    have p: "unat (of_nat p :: 32 word) = p" "p + 46 \<le> length d"
      using False Suc.prems assms by (simp_all add: unsigned_of_nat take_bit_nat_eq_self)
    note s16 = zspec_cd16 [OF dir_is_indexed(2)]
    let ?rest = "thenM (record_check disk p)
      (bindM (cd16 (p + 28)) (\<lambda>name_len. bindM (cd16 (p + 30)) (\<lambda>extra_len. bindM (cd16 (p + 32)) (\<lambda>comment_len.
       let total_header_size = 46 + unat name_len + unat extra_len + unat comment_len in
       if n < total_header_size then return_false
       else index_records disk k (i + 1) (n - total_header_size) (p + total_header_size)))))"
    have rest: "zspec E (stored d N i (of_nat p)) ?rest (\<lambda>_. indexed d N N)"
      apply (rule zspec_thenM [OF zspec_record_check [OF dir_is_indexed(2)]], assumption, rule p(2))
      apply (rule zspec_bindM [OF s16], assumption, use p(2) in simp, rule zspec_pure)
      apply (rule zspec_bindM [OF s16], assumption, use p(2) in simp, rule zspec_pure)
      apply (rule zspec_bindM [OF s16], assumption, use p(2) in simp, rule zspec_pure)
      unfolding Let_def
      apply (rule zspec_if [OF zspec_return_false [OF op(2)]], assumption)
      apply (rule zspec_weaken [OF Suc.IH])
         apply (use Suc.prems in simp)
        apply (use Suc.prems in simp)
       apply (rule stored_indexed, assumption)
       apply (use Suc.prems in \<open>simp add: record_at_def p(1)\<close>)
      apply assumption
      done
    have e: "index_records disk (Suc k) i n p = bindM (cd32 p) (\<lambda>sig. if sig \<noteq> 0x02014b50 then return_false else
        thenM (thenM (set_element m_central_dir_offsets m_central_dir_offsets_update i (of_nat p))
          (set_element m_sorted_central_dir_offsets m_sorted_central_dir_offsets_update i (of_nat i))) ?rest)"
      using False by (simp add: thenM_assoc cong: if_cong)
    show ?thesis unfolding e
      apply (rule zspec_bindM [OF zspec_cd32 [OF dir_is_indexed(1)]], assumption, use p(2) in simp, rule zspec_pure)
      apply (rule zspec_if [OF zspec_return_false [OF op(1)]], assumption)
      apply (rule zspec_thenM [OF zspec_store rest])
      apply (use Suc.prems in simp)
      done
  qed
qed

subsection \<open>The three blocks of a directory\<close>

definition unused :: "'a mz_zip_array \<Rightarrow> bool" where
  "unused a \<longleftrightarrow> m_p a = None \<and> m_capacity a = 0"

lemma resize_unused:
  assumes "unused a"
  shows "\<exists>ok a'. mz_zip_array_resize E a n False = (ok, a')
    \<and> (ok \<longrightarrow> 0 < n \<longrightarrow> m_p a' = Some (replicate n None))"
  using assms
  by (auto simp: mz_zip_array_resize_def mz_zip_array_ensure_capacity_def unused_def Let_def)

lemma resize_block:
  "mz_zip_array_resize E a n False = (True, a') \<Longrightarrow> unused a \<Longrightarrow> 0 < n \<Longrightarrow> m_p a' = Some (replicate n None)"
  using resize_unused [of a E n] by auto

lemma run_resize_or_fail:
  assumes "m_pState z = Some st" "mz_zip_array_resize E (get st) n False = (ok, a)"
  shows "resize_or_fail get upd n E z
    = (if ok then Inr () else Inl Returns_false, z\<lparr>m_pState := Some (upd (\<lambda>_. a) st)\<rparr>)"
  using assms
  by (simp add: resize_or_fail_def run_bindM run_pState run_thenM on_state_def run_modM run_whenM run_failM)

text \<open>The stages of \<^verbatim>\<open>load_records\<close>: how many of the three blocks are allocated.\<close>

definition blocks :: "nat \<Rightarrow> 32 word \<Rightarrow> mz_zip_archive \<Rightarrow> bool" where
  "blocks k n z \<longleftrightarrow> good z \<and> m_total_files z = n \<and> (\<exists>st. m_pState z = Some st
     \<and> (k = 0 \<longrightarrow> unused (m_central_dir st))
     \<and> (if k \<le> 1 then unused (m_central_dir_offsets st)
        else m_p (m_central_dir_offsets st) = Some (replicate (unat n) None))
     \<and> (if k \<le> 2 then unused (m_sorted_central_dir_offsets st)
        else m_p (m_sorted_central_dir_offsets st) = Some (replicate (unat n) None)))"

lemma blocks_opened: "blocks k n z \<Longrightarrow> opened z"
  by (simp add: blocks_def good_def)

lemma zspec_resize:
  assumes "\<And>z st ok a. blocks k n z \<Longrightarrow> m_pState z = Some st \<Longrightarrow>
      mz_zip_array_resize E (get st) sz False = (ok, a) \<Longrightarrow> m_pMem (upd (\<lambda>_. a) st) = m_pMem st \<and>
      (ok \<longrightarrow> blocks k' n (z\<lparr>m_pState := Some (upd (\<lambda>_. a) st)\<rparr>))"
  shows "zspec E (blocks k n) (resize_or_fail get upd sz) (\<lambda>_. blocks k' n)"
  unfolding zspec_def
proof (intro allI impI)
  fix z assume b: "blocks k n z"
  then obtain st where st: "m_pState z = Some st" by (auto simp: blocks_def)
  obtain ok a where r: "mz_zip_array_resize E (get st) sz False = (ok, a)" by fastforce
  note step = assms [OF b st r]
  have "opened (z\<lparr>m_pState := Some (upd (\<lambda>_. a) st)\<rparr>)"
    using good_update [OF _ st] step b by (simp add: blocks_def good_def)
  then show "case resize_or_fail get upd sz E z of (Inr x, z') \<Rightarrow> blocks k' n z'
      | (Inl Returns_false, z') \<Rightarrow> opened z' | (Inl Bad_access, z') \<Rightarrow> False"
    using step by (simp add: run_resize_or_fail [where get = get and upd = upd, OF st r])
qed

lemma zspec_resizes:
  assumes "n \<noteq> 0"
  shows "zspec E (blocks 0 n) (resize_or_fail m_central_dir m_central_dir_update sz) (\<lambda>_. blocks 1 n)"
    "zspec E (blocks 1 n) (resize_or_fail m_central_dir_offsets m_central_dir_offsets_update (unat n)) (\<lambda>_. blocks 2 n)"
    "zspec E (blocks 2 n)
      (resize_or_fail m_sorted_central_dir_offsets m_sorted_central_dir_offsets_update (unat n)) (\<lambda>_. blocks 3 n)"
proof -
  have pos: "0 < unat n" using assms by (simp add: unat_gt_0)
  show "zspec E (blocks 0 n) (resize_or_fail m_central_dir m_central_dir_update sz) (\<lambda>_. blocks 1 n)"
    by (rule zspec_resize) (auto simp: blocks_def good_update)
  show "zspec E (blocks 1 n) (resize_or_fail m_central_dir_offsets m_central_dir_offsets_update (unat n)) (\<lambda>_. blocks 2 n)"
    by (rule zspec_resize) (use pos in \<open>auto simp: blocks_def good_update dest: resize_block\<close>)
  show "zspec E (blocks 2 n)
      (resize_or_fail m_sorted_central_dir_offsets m_sorted_central_dir_offsets_update (unat n)) (\<lambda>_. blocks 3 n)"
    by (rule zspec_resize) (use pos in \<open>auto simp: blocks_def good_update dest: resize_block\<close>)
qed

lemma zspec_load_records:
  assumes "n \<noteq> 0"
  shows "zspec E (blocks 0 n) (load_records disk ofs sz n) (\<lambda>_ z. \<exists>d. indexed d (unat n) (unat n) z)"
proof -
  have b3: "zspec E (\<lambda>z. blocks 3 n z \<and> length b = unat sz)
      (thenM (on_state (m_central_dir_update (\<lambda>a. a\<lparr>m_p := Some (map Some b)\<rparr>)))
        (index_records disk (unat n) 0 (unat sz) 0)) (\<lambda>_ z. \<exists>d. indexed d (unat n) (unat n) z)" for b
  proof (rule zspec_pure, rule zspec_thenM)
    assume len: "length b = unat sz"
    show "zspec E (blocks 3 n) (on_state (m_central_dir_update (\<lambda>a. a\<lparr>m_p := Some (map Some b)\<rparr>)))
        (\<lambda>_. indexed b (unat n) 0)"
    proof (rule zspecI)
      fix z assume z: "blocks 3 n z"
      then obtain st where st: "m_pState z = Some st" by (auto simp: blocks_def)
      let ?st = "m_central_dir_update (\<lambda>a. a\<lparr>m_p := Some (map Some b)\<rparr>) st"
      have "good (z\<lparr>m_pState := Some ?st\<rparr>)"
        by (rule good_update [OF _ st]) (use z in \<open>simp_all add: blocks_def\<close>)
      then have "indexed b (unat n) 0 (z\<lparr>m_pState := Some ?st\<rparr>)"
        using z st by (auto simp: indexed_def blocks_def array_is_def)
      then show "\<exists>x z'. on_state (m_central_dir_update (\<lambda>a. a\<lparr>m_p := Some (map Some b)\<rparr>)) E z = (Inr x, z')
          \<and> indexed b (unat n) 0 z'"
        using st by (simp add: on_state_def run_bindM run_pState run_modM)
    qed
    have "length b < 2 ^ 32" using len unsigned_less [of sz] by (simp add: word_less_nat_alt)
    from zspec_index_records [OF this, of 0 "unat n" "unat n" 0 "unat sz" E disk]
    show "zspec E (indexed b (unat n) 0) (index_records disk (unat n) 0 (unat sz) 0)
        (\<lambda>_ z. \<exists>d. indexed d (unat n) (unat n) z)"
      by (rule zspec_weaken) (use len in auto)
  qed
  show ?thesis unfolding load_records_def
    apply (rule zspec_thenM [OF zspec_resizes(1) [OF assms]])
    apply (rule zspec_thenM [OF zspec_resizes(2) [OF assms]])
    apply (rule zspec_thenM [OF zspec_resizes(3) [OF assms]])
    apply (rule zspec_bindM [OF zspec_read b3])
    apply (simp add: blocks_def good_def)
    done
qed

subsection \<open>The directory\<close>

text \<open>A fully indexed archive is a good one, and so is one without files.\<close>

lemma indexed_zip_ok: "indexed d N N z \<Longrightarrow> \<exists>offs. zip_ok d offs z"
proof -
  assume i: "indexed d N N z"
  then obtain st xs ys where st: "m_pState z = Some st" "array_is (m_central_dir st) d"
    "m_p (m_central_dir_offsets st) = Some xs" "length xs = N"
    "\<forall>j < N. \<exists>q. xs ! j = Some q \<and> record_at d (unat q)"
    "m_p (m_sorted_central_dir_offsets st) = Some ys" "length ys = N" "\<forall>j < N. ys ! j = Some (of_nat j)"
    and g: "good z" "unat (m_total_files z) = N" by (auto simp: indexed_def)
  let ?offs = "map the xs"
  have "xs = map Some ?offs" using st(4,5) by (intro nth_equalityI) auto
  then have "array_is (m_central_dir_offsets st) ?offs" using st(3) by (simp add: array_is_def)
  moreover have "ys = map Some (map of_nat [0..<N])" using st(7,8) by (intro nth_equalityI) auto
  then have "array_is (m_sorted_central_dir_offsets st) (map of_nat [0..<N])" using st(6) by (simp add: array_is_def)
  moreover have "record_ofs d ?offs"
    using st(4,5) by (auto simp: record_ofs_def in_set_conv_nth) (metis option.sel)
  ultimately show ?thesis using st(1,2,4) g
    by (intro exI [of _ ?offs]) (auto simp: zip_ok_def good_def opened_def)
qed

lemma blocks_zip_ok: "blocks 0 0 z \<Longrightarrow> zip_ok [] [] z"
  by (auto simp: blocks_def zip_ok_def good_def opened_def unused_def array_is_def record_ofs_def)

definition ready :: "32 word \<Rightarrow> mz_zip_archive \<Rightarrow> bool" where
  "ready flags z \<longleftrightarrow> (\<exists>d offs. zip_ok d offs z \<and> (flags AND 0x0800 = 0 \<longrightarrow> index_sorted d offs z))"

definition good_dir :: "mz_zip_archive \<Rightarrow> bool" where
  "good_dir z \<longleftrightarrow> (\<exists>d offs. zip_ok d offs z)"

lemma zspec_sort:
  "zspec E good_dir (whenM (flags AND 0x0800 = 0) mz_zip_reader_sort_central_dir_offsets_by_filename)
    (\<lambda>_. ready flags)"
proof (rule zspec_whenM)
  show "zspec E good_dir mz_zip_reader_sort_central_dir_offsets_by_filename (\<lambda>_. ready flags)"
  proof (rule zspecI)
    fix z assume "good_dir z"
    then obtain d offs where "zip_ok d offs z" by (auto simp: good_dir_def)
    from sort_index [OF this, of E] show
      "\<exists>x z'. mz_zip_reader_sort_central_dir_offsets_by_filename E z = (Inr x, z') \<and> ready flags z'"
      by (auto simp: ready_def)
  qed
qed (auto simp: ready_def good_dir_def)

lemma zspec_records:
  "zspec E (blocks 0 n) (whenM (n \<noteq> 0) (load_records disk ofs sz n)) (\<lambda>_. good_dir)"
proof (rule zspec_whenM)
  assume "n \<noteq> 0"
  from zspec_load_records [OF this] show "zspec E (blocks 0 n) (load_records disk ofs sz n) (\<lambda>_. good_dir)"
  proof (rule zspec_weaken)
    fix z assume "\<exists>d. indexed d (unat n) (unat n) z"
    then show "good_dir z" using indexed_zip_ok unfolding good_dir_def by blast
  qed
qed (auto simp: good_dir_def dest: blocks_zip_ok)

text \<open>The archive before its end record is read.\<close>

definition empty_dir :: "mz_zip_archive \<Rightarrow> bool" where
  "empty_dir z \<longleftrightarrow> (\<exists>n. blocks 0 n z)"

lemma empty_dir_good: "empty_dir z \<Longrightarrow> reads_ok z \<and> opened z"
  by (auto simp: empty_dir_def blocks_def good_def)

lemma blocks_update:
  "empty_dir z \<Longrightarrow> blocks 0 n (z\<lparr>m_total_files := n\<rparr>)"
  "blocks 0 n z \<Longrightarrow> blocks 0 n (z\<lparr>m_start_ofs := x\<rparr>)"
  "blocks 0 n z \<Longrightarrow> blocks 0 n (z\<lparr>m_central_directory_file_ofs := x\<rparr>)"
  by (auto simp: empty_dir_def blocks_def good_def opened_def reads_ok_def)

lemma zspec_le16: "p + 2 \<le> length b \<Longrightarrow> zspec E P (access (MZ_READ_LE16 (at b) p)) (\<lambda>_. P)"
  by (rule zspec_access [OF read_le16])

lemma zspec_le32: "p + 4 \<le> length b \<Longrightarrow> zspec E P (access (MZ_READ_LE32 (at b) p)) (\<lambda>_. P)"
  by (rule zspec_access [OF read_le32])

lemma zspec_use_end_record:
  assumes len: "length pBuf = 22"
  shows "zspec E empty_dir (use_end_record flags archive_size cur_file_ofs pBuf) (\<lambda>_. ready flags)"
  unfolding use_end_record_def Let_def
  apply (rule zspec_bindM [OF zspec_le32], simp add: len)
  apply (rule zspec_if [OF zspec_return_false], simp add: empty_dir_good)
  apply (rule zspec_bindM [OF zspec_le16], simp add: len)
  apply (rule zspec_bindM [OF zspec_le16], simp add: len)
  apply (rule zspec_thenM [OF zspec_modM], erule blocks_update(1))
  apply (rule zspec_if [OF zspec_return_false], erule blocks_opened)
  apply (rule zspec_bindM [OF zspec_le16], simp add: len)
  apply (rule zspec_bindM [OF zspec_le16], simp add: len)
  apply (rule zspec_if [OF zspec_return_false], erule blocks_opened)
  apply (rule zspec_bindM [OF zspec_le32], simp add: len)
  apply (rule zspec_if [OF zspec_return_false], erule blocks_opened)
  apply (rule zspec_bindM [OF zspec_le32], simp add: len)
  apply (rule zspec_thenM [OF zspec_modM], erule blocks_update(2))
  apply (rule zspec_if [OF zspec_return_false], erule blocks_opened)
  apply (rule zspec_thenM [OF zspec_modM], erule blocks_update(3))
  apply (rule zspec_thenM [OF zspec_records zspec_sort])
  done

lemma bool_result_spec:
  assumes "zspec E P m (\<lambda>_. Q)" "P z"
  shows "\<exists>ok z'. bool_result m E z = (Inr ok, z') \<and> (if ok then Q z' else opened z')"
proof -
  from zspecD [OF assms] consider x z' where "m E z = (Inr x, z')" "Q z'"
    | z' where "m E z = (Inl Returns_false, z')" "opened z'" by blast
  then show ?thesis
  proof cases
    case 1
    then show ?thesis by (intro exI [of _ True] exI [of _ z']) (simp add: bool_result_def)
  next
    case 2
    then show ?thesis by (intro exI [of _ False] exI [of _ z']) (simp add: bool_result_def)
  qed
qed

lemma read_central_dir_spec:
  assumes "empty_dir z"
  shows "\<exists>ok z'. mz_zip_reader_read_central_dir flags E z = (Inr ok, z')
    \<and> (if ok then ready flags z' else opened z')"
proof -
  let ?body = "bindM (getM m_archive_size) (\<lambda>archive_size.
    if archive_size < 22 then return_false else
    bindM locate_end_record (\<lambda>cur_file_ofs.
    bindM (read_exactly cur_file_ofs 22) (\<lambda>pBuf.
    use_end_record flags archive_size cur_file_ofs pBuf)))"
  have "zspec E empty_dir ?body (\<lambda>_. ready flags)"
    apply (rule zspec_bindM [OF zspec_get])
    apply (rule zspec_if [OF zspec_return_false], simp add: empty_dir_good)
    apply (rule zspec_bindM [OF zspec_locate_end_record], erule empty_dir_good)
    apply (rule zspec_bindM [OF zspec_read], erule empty_dir_good)
    apply (rule zspec_pure [OF zspec_use_end_record], assumption)
    done
  from bool_result_spec [OF this assms] show ?thesis
    unfolding mz_zip_reader_read_central_dir_def .
qed

subsection \<open>The opening functions\<close>

definition closed :: "mz_zip_archive \<Rightarrow> bool" where
  "closed z \<longleftrightarrow> m_pState z = None \<and> m_zip_mode z = MZ_ZIP_MODE_INVALID"

lemma read_dir_or_end_spec:
  assumes "empty_dir z"
  shows "\<exists>ok z'. read_dir_or_end flags E z = (Inr ok, z') \<and> (if ok then ready flags z' else closed z')"
proof -
  from read_central_dir_spec [OF assms] obtain ok z' where
    r: "mz_zip_reader_read_central_dir flags E z = (Inr ok, z')" "if ok then ready flags z' else opened z'" by blast
  then show ?thesis
    by (cases ok) (auto simp: read_dir_or_end_def run_bindM run_thenM run_retM mz_zip_reader_end_def
        opened_def closed_def)
qed

lemma empty_dirI:
  "m_zip_mode z = MZ_ZIP_MODE_READING \<Longrightarrow> reads_ok z \<Longrightarrow> m_pState z = Some st \<Longrightarrow>
   m_central_dir st = empty_array 1 \<Longrightarrow> m_central_dir_offsets st = empty_array 4 \<Longrightarrow>
   m_sorted_central_dir_offsets st = empty_array 4 \<Longrightarrow> empty_dir z"
  by (auto simp: empty_dir_def blocks_def good_def opened_def unused_def empty_array_def)

text \<open>The state both opening functions hand to the directory reader.\<close>

definition prepared :: "read_func \<Rightarrow> 64 word \<Rightarrow> bytes option \<Rightarrow> mz_zip_archive \<Rightarrow> mz_zip_archive" where
  "prepared rd sz mem z = z\<lparr>m_archive_size := sz, m_central_directory_file_ofs := 0, m_total_files := 0,
     m_zip_mode := MZ_ZIP_MODE_READING, m_pRead := Some rd,
     m_pState := Some \<lparr>m_central_dir = empty_array 1, m_central_dir_offsets = empty_array 4,
       m_sorted_central_dir_offsets = empty_array 4, m_pMem = mem\<rparr>\<rparr>"

lemma run_init:
  assumes "closed z" "m_pRead z \<noteq> Some Read_mem"
  shows "mz_zip_reader_init sz flags E z =
    (if m_pRead z = None then (Inr False, z)
     else if \<not> zmalloc E 1 then (Inr False, z\<lparr>m_zip_mode := MZ_ZIP_MODE_READING, m_archive_size := 0,
                     m_central_directory_file_ofs := 0, m_total_files := 0\<rparr>)
     else read_dir_or_end flags E (prepared Read_user sz None z))"
proof (cases z)
  case (fields as co so tf zm pr ps)
  then show ?thesis using assms
    by (cases pr; cases "the pr") (simp_all add: mz_zip_reader_init_def mz_zip_reader_init_internal_def
        run_bindM run_getM run_retM run_failM run_thenM run_modM bool_result_def closed_def Let_def prepared_def)
qed

lemma run_init_mem:
  assumes "closed z"
  shows "mz_zip_reader_init_mem mem flags E z =
    (if \<not> zmalloc E 1 then (Inr False, z\<lparr>m_zip_mode := MZ_ZIP_MODE_READING, m_archive_size := 0,
                     m_central_directory_file_ofs := 0, m_total_files := 0\<rparr>)
     else read_dir_or_end flags E (prepared Read_mem (of_nat (length mem)) (Some mem) z))"
proof (cases z)
  case (fields as co so tf zm pr ps)
  then show ?thesis using assms
    by (simp add: mz_zip_reader_init_mem_def mz_zip_reader_init_internal_def on_state_def
        run_bindM run_pState run_retM run_failM run_thenM run_modM bool_result_def closed_def Let_def prepared_def)
qed

lemma empty_dir_prepared:
  "rd = Read_user \<or> (\<exists>b. mem = Some b \<and> unat sz \<le> length b) \<Longrightarrow> empty_dir (prepared rd sz mem z)"
  by (rule empty_dirI) (auto simp: prepared_def reads_ok_def intro: read_func.exhaust [of rd])

lemma init_spec:
  assumes "closed z" "m_pRead z \<noteq> Some Read_mem"
  shows "\<exists>ok z'. mz_zip_reader_init sz flags E z = (Inr ok, z')
    \<and> (if ok then ready flags z' else m_pState z' = None)"
proof -
  have "empty_dir (prepared Read_user sz None z)" by (rule empty_dir_prepared) simp
  from read_dir_or_end_spec [OF this, of flags E] obtain ok z' where
    "read_dir_or_end flags E (prepared Read_user sz None z) = (Inr ok, z')" "if ok then ready flags z' else closed z'"
    by blast
  then show ?thesis using assms(1) unfolding run_init [OF assms] by (auto simp: closed_def)
qed

lemma init_mem_spec:
  assumes "closed z" "length mem < 2 ^ 64"
  shows "\<exists>ok z'. mz_zip_reader_init_mem mem flags E z = (Inr ok, z')
    \<and> (if ok then ready flags z' else m_pState z' = None)"
proof -
  have "unat (of_nat (length mem) :: 64 word) \<le> length mem"
    using assms(2) by (simp add: unsigned_of_nat take_bit_nat_eq_self)
  then have "empty_dir (prepared Read_mem (of_nat (length mem)) (Some mem) z)" by (intro empty_dir_prepared) simp
  from read_dir_or_end_spec [OF this, of flags E] obtain ok z' where
    "read_dir_or_end flags E (prepared Read_mem (of_nat (length mem)) (Some mem) z) = (Inr ok, z')"
    "if ok then ready flags z' else closed z'" by blast
  then show ?thesis using assms(1) unfolding run_init_mem [OF assms(1)] by (auto simp: closed_def)
qed

end
