(* ===== verification/Zip_Archive.thy ===== *)
theory Zip_Archive
  imports Zip_Open
begin

text \<open>
  What the ZIP reader of \<^verbatim>\<open>xcore/src/miniz.c\<close> guarantees to a program that opens an archive and asks for
  its files, in terms of its functions only; and two places where it does not find what is there.
\<close>

subsection \<open>The linear search\<close>

lemma sub_all: "sub xs 0 (length xs) = xs"
  by (simp add: sub_def)

lemma record_matches_name:
  assumes "record_at d p"
  shows "record_matches (at d) p name None 0x0100 = Some (record_name d p = name)"
proof -
  let ?n = "unat (le16 d (p + 28))"
  have n: "MZ_READ_LE16 (at d) (p + 28) = Some (le16 d (p + 28))"
    using assms by (simp add: record_at_def read_le16)
  have len: "length (record_name d p) = ?n" by (rule record_name_length [OF assms])
  have e: "?n = length name \<Longrightarrow> equal_bytes True (at name) 0 (at d) (p + 46) ?n
      = Some (record_name d p = name)"
    using assms by (subst equal_bytes_at) (auto simp: record_at_def record_name_def sub_all)
  show ?thesis
  proof (cases "?n = length name")
    case True
    then show ?thesis using e n
      by (simp add: record_matches_def mz_zip_reader_string_equal_def)
  next
    case False
    then have "record_name d p \<noteq> name" using len by auto
    then show ?thesis using False n by (simp add: record_matches_def)
  qed
qed

lemma scan_records_name:
  assumes "array_is (m_central_dir st) d" "array_is (m_central_dir_offsets st) offs" "record_ofs d offs"
  shows "i + k = length offs \<Longrightarrow> \<exists>r. scan_records st name None 0x0100 k i = Some r \<and>
    (r = -1 \<and> (\<forall>j. i \<le> j \<longrightarrow> j < length offs \<longrightarrow> record_name d (unat (offs ! j)) \<noteq> name)
     \<or> (\<exists>j. r = int j \<and> i \<le> j \<and> j < length offs \<and> record_name d (unat (offs ! j)) = name
        \<and> (\<forall>l. i \<le> l \<longrightarrow> l < j \<longrightarrow> record_name d (unat (offs ! l)) \<noteq> name)))"
proof (induction k arbitrary: i)
  case (Suc k)
  have r: "record_at d (unat (offs ! i))" using Suc.prems assms(3) by (auto intro: record_ofsD)
  have i: "i < length offs" using Suc.prems by simp
  show ?case
  proof (cases "record_name d (unat (offs ! i)) = name")
    case True
    then show ?thesis using i
      by (auto simp: element_array_fun [OF assms(1)] element_array_fun [OF assms(2)] record_matches_name [OF r])
  next
    case False
    from Suc.IH [of "i + 1"] Suc.prems obtain r' where r':
      "scan_records st name None 0x0100 k (i + 1) = Some r'"
      "r' = -1 \<and> (\<forall>j. i + 1 \<le> j \<longrightarrow> j < length offs \<longrightarrow> record_name d (unat (offs ! j)) \<noteq> name)
       \<or> (\<exists>j. r' = int j \<and> i + 1 \<le> j \<and> j < length offs \<and> record_name d (unat (offs ! j)) = name
          \<and> (\<forall>l. i + 1 \<le> l \<longrightarrow> l < j \<longrightarrow> record_name d (unat (offs ! l)) \<noteq> name))" by auto
    have "scan_records st name None 0x0100 (Suc k) i = Some r'"
      using r'(1) False i
      by (simp add: element_array_fun [OF assms(1)] element_array_fun [OF assms(2)] record_matches_name [OF r])
    moreover have "record_name d (unat (offs ! j)) \<noteq> name" if "i \<le> j"
      "\<forall>j. i + 1 \<le> j \<longrightarrow> j < l \<longrightarrow> record_name d (unat (offs ! j)) \<noteq> name" "j < l" for j l
      using that False by (cases "j = i") auto
    ultimately show ?thesis using r'(2) by (metis add_leE)
  qed
qed simp

subsection \<open>Names, as the program sees them\<close>

text \<open>The name of a file is what \<^verbatim>\<open>mz_zip_reader_get_filename\<close> puts into a large enough buffer.\<close>

definition has_name :: "zenv \<Rightarrow> mz_zip_archive \<Rightarrow> 32 word \<Rightarrow> bytes \<Rightarrow> bool" where
  "has_name E z i s \<longleftrightarrow> i < m_total_files z \<and>
     (case mz_zip_reader_get_filename i 0x10000 E z of (Inr (n, Some s'), z') \<Rightarrow> s' = s | _ \<Rightarrow> False)"

lemma has_name_iff:
  assumes "zip_ok d offs z"
  shows "has_name E z i s \<longleftrightarrow> unat i < length offs \<and> s = dir_name d offs i"
proof -
  have "length offs = unat (m_total_files z)" using assms by (simp add: zip_ok_def)
  moreover have "take 0xFFFF (dir_name d offs i) = dir_name d offs i" if "unat i < length offs"
    using record_name_length [OF zip_record [OF assms that]] le16_less [of d "unat (offs ! unat i) + 28"]
    by (simp add: dir_name_def)
  ultimately show ?thesis
    by (auto simp: has_name_def run_get_filename [OF assms] Let_def word_less_nat_alt)
qed

lemma answers_queries:
  assumes "zip_ok d offs z"
  shows "answers (mz_zip_reader_is_file_encrypted i) E z \<and> answers (mz_zip_reader_is_file_a_directory i) E z
    \<and> answers (mz_zip_reader_file_stat i) E z \<and> answers (mz_zip_reader_get_filename i n) E z
    \<and> answers (mz_zip_reader_locate_file name comment fl) E z"
  using answers_file_stat [OF assms] answers_locate [OF assms]
  by (simp add: run_is_encrypted [OF assms] run_is_directory [OF assms] run_get_filename [OF assms] answers_def)

lemma locate_found:
  assumes "zip_ok d offs z" "index_sorted d offs z" "length name < 2 ^ 31"
  shows "\<exists>r. mz_zip_reader_locate_file name None 0 E z = (Inr r, z) \<and> found d offs name r"
proof -
  from assms(1) obtain st srt where st: "m_pState z = Some st" "array_is (m_sorted_central_dir_offsets st) srt"
    "mset srt = mset (map of_nat [0..<length offs])" by (rule zip_okE)
  have m: "m_zip_mode z = MZ_ZIP_MODE_READING" "length offs = unat (m_total_files z)"
    using assms(1) by (simp_all add: zip_ok_def)
  show ?thesis
  proof (cases "m_p (m_sorted_central_dir_offsets st)")
    case None
    then have "srt = []" using st(2) by (simp add: array_is_def)
    then have "mset (map (of_nat :: nat \<Rightarrow> 32 word) [0..<length offs]) = {#}" using st(3) by simp
    then have "offs = []" by (simp only: mset_zero_iff) simp
    then show ?thesis using None st(1) m
      by (auto simp: mz_zip_reader_locate_file_def found_def run_access)
  next
    case (Some a)
    then show ?thesis using binary_search_found [OF assms] st(1) m
      by (simp add: mz_zip_reader_locate_file_def)
  qed
qed

lemma scan_case_sensitive:
  assumes "zip_ok d offs z" "length name \<le> 0xFFFF"
  shows "\<exists>r. mz_zip_reader_locate_file name None 0x0100 E z = (Inr r, z) \<and>
    (r = -1 \<and> (\<forall>j < length offs. record_name d (unat (offs ! j)) \<noteq> name)
     \<or> (\<exists>j < length offs. r = int j \<and> record_name d (unat (offs ! j)) = name
        \<and> (\<forall>l < j. record_name d (unat (offs ! l)) \<noteq> name)))"
proof -
  from assms(1) obtain st srt where st: "m_pState z = Some st" "array_is (m_central_dir st) d"
    "array_is (m_central_dir_offsets st) offs" by (rule zip_okE)
  have m: "m_zip_mode z = MZ_ZIP_MODE_READING" "length offs = unat (m_total_files z)" "record_ofs d offs"
    using assms(1) by (simp_all add: zip_ok_def)
  have "(0x0100 :: 32 word) AND (0x0200 OR 0x0100) = 0x0100" by simp
  then show ?thesis
    using scan_records_name [OF st(2,3) m(3), of 0 "length offs" name] assms(2) st(1) m(1,2)
    by (auto simp: mz_zip_reader_locate_file_def run_access)
qed

subsection \<open>A small archive\<close>

definition cd_record :: "8 word \<Rightarrow> bytes" where
  "cd_record name = [0x50, 0x4b, 0x01, 0x02, 0, 0, 0, 0, 0, 0, 0, 0, 0, 0, 0, 0, 0, 0, 0, 0, 0, 0, 0, 0, 0, 0, 0, 0,
     1, 0, 0, 0, 0, 0, 0, 0, 0, 0, 0, 0, 0, 0, 0, 0, 0, 0, name]"

definition end_record :: bytes where
  "end_record = [0x50, 0x4b, 0x05, 0x06, 0, 0, 0, 0, 2, 0, 2, 0, 94, 0, 0, 0, 0, 0, 0, 0, 0, 0]"

text \<open>Two files of size zero, named \<^verbatim>\<open>b\<close> and \<^verbatim>\<open>A\<close>.\<close>

definition small_zip :: bytes where
  "small_zip = cd_record 98 @ cd_record 65 @ end_record"

definition no_zip :: mz_zip_archive where
  "no_zip = \<lparr>m_archive_size = 0, m_central_directory_file_ofs = 0, m_start_ofs = 0, m_total_files = 0,
     m_zip_mode = MZ_ZIP_MODE_INVALID, m_pRead = Some Read_user, m_pState = None\<rparr>"

text \<open>An environment whose read callback delivers a file, as \<^verbatim>\<open>pread\<close> does.\<close>

definition file_env :: "bytes \<Rightarrow> bool \<Rightarrow> zenv" where
  "file_env b wide = \<lparr>zmalloc = (\<lambda>_. True),
     zread = (\<lambda>ofs n. if uint ofs \<le> int (length b) then take n (drop (unat ofs) b) else []),
     mktime = (\<lambda>_. 0), size_t_64 = wide\<rparr>"

definition open_small :: "32 word \<Rightarrow> (zexc + bool) \<times> mz_zip_archive" where
  "open_small flags = mz_zip_reader_init 116 flags (file_env small_zip True) no_zip"

definition small_env :: zenv where
  "small_env = file_env small_zip True"

lemma closed_no_zip: "closed no_zip" "m_pRead no_zip \<noteq> Some Read_mem"
  by (simp_all add: closed_def no_zip_def)

lemma open_small_ok: "fst (open_small 0) = Inr True"
  by code_simp

lemma open_small_eq: "mz_zip_reader_init 116 0 small_env no_zip = (Inr True, snd (open_small 0))"
  using open_small_ok by (simp add: open_small_def small_env_def prod_eq_iff)

subsection \<open>The scan for the end record where \<^verbatim>\<open>size_t\<close> has 64 bits\<close>

lemma run_read_file:
  assumes "m_pRead z = Some Read_user"
  shows "fst (read_exactly ofs n (file_env b wide) z) =
    (if uint ofs \<le> int (length b) \<and> unat ofs + n \<le> length b \<or> n = 0
     then Inr (take n (drop (unat ofs) b)) else Inl Returns_false)"
proof -
  have "length (take n (drop (unat ofs) b)) = n \<longleftrightarrow> unat ofs + n \<le> length b \<or> n = 0" by auto
  then show ?thesis using assms
    by (auto simp: read_exactly_def pRead_def file_env_def run_bindM run_failM run_retM)
qed

lemma wide_second_window:
  fixes n :: "64 word"
  assumes "4096 < unat n" "unat n < 8189"
  shows "unat (prev_window True (n - 4096)) = 2 ^ 64 + unat n - 8189"
    "n - prev_window True (n - 4096) = 8189"
proof -
  have "prev_window True (n - 4096) = n - 8189" by (simp add: prev_window_def)
  moreover have "n - 8189 = of_nat (2 ^ 64 + unat n - 8189)"
  proof -
    have "(of_nat (2 ^ 64 + unat n - 8189) :: 64 word) = of_nat (2 ^ 64 - 8189 + unat n)"
      using assms by (intro arg_cong [of _ _ of_nat]) simp
    also have "\<dots> = of_nat (2 ^ 64 - 8189) + n" by (simp only: of_nat_add of_nat_unat ucast_id)
    also have "(of_nat (2 ^ 64 - 8189) :: 64 word) = - 8189" by simp
    finally show ?thesis by simp
  qed
  ultimately show "unat (prev_window True (n - 4096)) = 2 ^ 64 + unat n - 8189"
    using assms by (simp only: unsigned_of_nat) (simp add: take_bit_nat_eq_self)
  show "n - prev_window True (n - 4096) = 8189" by (simp add: prev_window_def)
qed

lemma first_window_large:
  assumes "4096 < n" "n < 8189"
  shows "first_window (of_nat n) = of_nat n - 4096" "of_nat n - (of_nat n - 4096) = (4096 :: 64 word)"
    "unat (of_nat n - 4096 :: 64 word) = n - 4096"
proof -
  have s: "sint (of_nat n :: 64 word) = int n"
    using assms(2) by (simp only: signed_of_nat) (simp add: signed_take_bit_int_eq_self)
  then show "first_window (of_nat n) = of_nat n - 4096" using assms(1) by (simp add: first_window_def)
  show "of_nat n - (of_nat n - 4096) = (4096 :: 64 word)" by simp
  have "(of_nat n - 4096 :: 64 word) = of_nat (n - 4096)" using assms(1) by (simp add: of_nat_diff)
  then show "unat (of_nat n - 4096 :: 64 word) = n - 4096"
    using assms(2) by (simp only: unsigned_of_nat) (simp add: take_bit_nat_eq_self)
qed

lemma scan_two_windows:
  assumes n: "4096 < length b" "length b < 8189"
    and z: "m_pRead z = Some Read_user" "m_archive_size z = of_nat (length b)"
    and last: "find_sig (drop (length b - 4096) b) 4093 = Some None"
  shows "fst (locate_end_record (file_env b True) z) = Inl Returns_false"
    and "find_sig (take 4096 b) 4093 = Some (Some i) \<Longrightarrow>
      fst (locate_end_record (file_env b False) z) = Inr (of_nat i)"
proof -
  let ?cur = "of_nat (length b) - 4096 :: 64 word" and ?n = "of_nat (length b) :: 64 word"
  let ?rd = "\<lambda>wide ofs n. fst (read_exactly ofs n (file_env b wide) z)"
  note w = first_window_large [OF n]
  have un: "unat ?n = length b" using n(2) by (simp add: unsigned_of_nat take_bit_nat_eq_self)
  have u: "uint ?cur \<le> int (length b)" "unat ?cur + 4096 \<le> length b" using w(3) n by (simp_all add: uint_nat)
  have r1: "?rd wide ?cur 4096 = Inr (drop (length b - 4096) b)" for wide
    using u w(3) n(1) by (simp add: run_read_file [OF z(1)])
  have m1: "unat (min 4096 (?n - ?cur)) = 4096" by simp
  have c: "\<not> (?cur = 0 \<or> 0xFFFF + 22 \<le> ?n - ?cur)"
  proof -
    have "unat ?cur \<noteq> 0" using w(3) n(1) by simp
    then have "?cur \<noteq> 0" by (metis unat_0)
    then show ?thesis by simp
  qed
  have step: "find_end_record (?rd wide) wide ?n ?cur = find_end_record (?rd wide) wide ?n (prev_window wide ?cur)" for wide
    using c by (subst find_end_record.simps) (simp only: Let_def m1 r1 sum.case diff_numeral_simps last, simp add: last)
  show "fst (locate_end_record (file_env b True) z) = Inl Returns_false"
  proof -
    note p = wide_second_window [of ?n, unfolded un, OF n]
    have "\<not> uint (prev_window True ?cur) \<le> int (length b)" using p(1) n by (simp add: uint_nat)
    then have r: "?rd True (prev_window True ?cur) 4096 = Inl Returns_false"
      using run_read_file [OF z(1)] by (simp del: run_read_file)
    have m: "unat (min 4096 (?n - prev_window True ?cur)) = 4096" unfolding p(2) by simp
    have "find_end_record (?rd True) True ?n (prev_window True ?cur) = Inl Returns_false"
      by (subst find_end_record.simps) (simp only: Let_def m r sum.case)
    then show ?thesis using step [of True] by (simp add: locate_end_record_def z(2) w(1) file_env_def)
  qed
  assume first: "find_sig (take 4096 b) 4093 = Some (Some i)"
  have p: "prev_window False ?cur = 0"
  proof -
    have "?cur - 4093 = word_of_int (int (length b) - 8189)" by simp
    then have "sint (?cur - 4093) = signed_take_bit 63 (int (length b) - 8189)"
      by (simp only: signed_of_int) simp
    also have "\<dots> = int (length b) - 8189" using n by (intro signed_take_bit_int_eq_self) auto
    finally show ?thesis using n by (simp add: prev_window_def)
  qed
  have m: "unat (min 4096 (?n - 0)) = 4096"
    using un n by (simp add: min_def word_le_nat_alt)
  have r: "?rd False 0 4096 = Inr (take 4096 b)" using n(1) by (simp add: run_read_file [OF z(1)])
  have "find_end_record (?rd False) False ?n 0 = Inr (of_nat i)"
    by (subst find_end_record.simps) (simp only: Let_def m r sum.case diff_numeral_simps, simp add: first)
  then show "fst (locate_end_record (file_env b False) z) = Inr (of_nat i)"
    using step [of False] by (simp add: locate_end_record_def z(2) w(1) file_env_def p)
qed

text \<open>A signature begins with the byte 0x50, so the scan passes over what has none.\<close>

lemma le32_first: "le32 b j = 0x06054b50 \<Longrightarrow> b ! j = 0x50"
proof -
  assume "le32 b j = 0x06054b50"
  then have "(ucast (le32 b j) :: 8 word) = ucast (0x06054b50 :: 32 word)" by simp
  moreover have "(ucast (le32 b j) :: 8 word) = b ! j"
    by (rule bit_word_eqI) (auto simp: le32_def bit_simps)
  ultimately show ?thesis by simp
qed

lemma find_sig_none:
  "i + 3 \<le> length b \<Longrightarrow> \<forall>j < i. b ! j \<noteq> 0x50 \<Longrightarrow> find_sig b i = Some None"
proof (induction i)
  case (Suc i)
  then show ?case using le32_first [of b i] by (auto simp: read_le32)
qed simp

lemma find_sig_last:
  assumes "le32 b k = 0x06054b50" "\<forall>j. k < j \<longrightarrow> j < i \<longrightarrow> b ! j \<noteq> 0x50"
  shows "k < i \<Longrightarrow> i + 3 \<le> length b \<Longrightarrow> find_sig b i = Some (Some k)"
  using assms(2)
proof (induction i)
  case (Suc i)
  then show ?case using assms(1) le32_first [of b i] by (cases "i = k") (auto simp: read_le32)
qed simp

lemma init_without_end_record:
  assumes z: "closed z" "m_pRead z = Some Read_user"
    and "fst (locate_end_record E (prepared Read_user sz None z)) = Inl Returns_false"
  shows "fst (mz_zip_reader_init sz flags E z) = Inr False"
proof -
  let ?z = "prepared Read_user sz None z"
  have "m_archive_size ?z = sz" by (simp add: prepared_def)
  moreover have "locate_end_record E ?z = (Inl Returns_false, ?z)"
    using assms(3) by (simp add: locate_end_record_def)
  ultimately have "mz_zip_reader_read_central_dir flags E ?z = (Inr False, ?z)"
    by (simp add: mz_zip_reader_read_central_dir_def bool_result_def run_bindM run_getM run_failM)
  then have "fst (read_dir_or_end flags E ?z) = Inr False"
    by (simp add: read_dir_or_end_def run_bindM run_thenM run_retM mz_zip_reader_end_def)
  then show ?thesis using z by (simp add: run_init)
qed

subsection \<open>An archive opened without sorting its index\<close>

lemma unsorted_parts:
  "case open_small 0x0800 of (r, z) \<Rightarrow> r = Inr True \<and> m_total_files z = 2
    \<and> fst (mz_zip_reader_get_filename 0 8 (file_env small_zip True) z) = Inr (2, Some [98])
    \<and> fst (mz_zip_reader_get_filename 1 8 (file_env small_zip True) z) = Inr (2, Some [65])
    \<and> fst (mz_zip_reader_locate_file [65] None 0 (file_env small_zip True) z) = Inr (-1)"
  by code_simp

lemma take_one: "take 7 xs = [x] \<Longrightarrow> xs = [x]"
  by (cases xs) (auto simp: take_Cons')

lemma unsorted_searches:
  "case open_small 0x0800 of (r, z) \<Rightarrow> r = Inr True \<and> has_name small_env z 1 [65]
    \<and> mz_zip_reader_locate_file [65] None 0 small_env z = (Inr (-1), z)
    \<and> mz_zip_reader_locate_file [65] None 0x0100 small_env z = (Inr 1, z)"
proof -
  obtain z where z: "open_small 0x0800 = (Inr True, z)" "m_total_files z = 2"
    "fst (mz_zip_reader_get_filename 0 8 small_env z) = Inr (2, Some [98])"
    "fst (mz_zip_reader_get_filename 1 8 small_env z) = Inr (2, Some [65])"
    "fst (mz_zip_reader_locate_file [65] None 0 small_env z) = Inr (-1)"
    using unsorted_parts by (cases "open_small 0x0800") (auto simp: small_env_def)
  from init_spec [OF closed_no_zip, of 116 "0x0800" small_env] z(1) obtain d offs where
    ok: "zip_ok d offs z" by (auto simp: ready_def open_small_def small_env_def)
  have n: "length offs = 2" using ok z(2) by (simp add: zip_ok_def)
  have names: "dir_name d offs 0 = [98]" "dir_name d offs 1 = [65]"
    using z(3,4) n take_one by (auto simp: run_get_filename [OF ok] Let_def split: if_splits)
  from scan_case_sensitive [OF ok, of "[65]" small_env] obtain r where
    r: "mz_zip_reader_locate_file [65] None 0x0100 small_env z = (Inr r, z)"
      "r = -1 \<and> (\<forall>j < length offs. record_name d (unat (offs ! j)) \<noteq> [65])
       \<or> (\<exists>j < length offs. r = int j \<and> record_name d (unat (offs ! j)) = [65]
          \<and> (\<forall>l < j. record_name d (unat (offs ! l)) \<noteq> [65]))" by auto
  have e: "record_name d (unat (offs ! 0)) = [98]" "record_name d (unat (offs ! 1)) = [65]"
    using names by (simp_all add: dir_name_def)
  have "r = 1"
    using r(2) e by (auto simp: n less_2_cases_iff)
  moreover have "snd (mz_zip_reader_locate_file [65] None 0 small_env z) = z"
    using answers_queries [OF ok] unfolding answers_def by (metis snd_conv)
  ultimately have "mz_zip_reader_locate_file [65] None 0 small_env z = (Inr (-1), z)" "r = 1"
    using z(5) by (simp_all add: prod_eq_iff)
  then show ?thesis unfolding z(1) using r(1) n names by (simp add: has_name_iff [OF ok])
qed

subsection \<open>Properties\<close>

text \<open>
  C21. Opening whatever bytes a read callback delivers makes no access outside the blocks the reader has
  allocated.  Either \<^verbatim>\<open>mz_zip_reader_init\<close> answers false and has released its state, or every
  query about every file index and every name, valid or not, is answered inside the blocks too.
\<close>

theorem zip_reader_safe:
  assumes "closed z" "m_pRead z \<noteq> Some Read_mem" "mz_zip_reader_init sz flags E z = (r, z')"
  shows "\<exists>ok. r = Inr ok \<and> (\<not> ok \<longrightarrow> m_pState z' = None) \<and>
    (ok \<longrightarrow> (\<forall>i n name comment fl. answers (mz_zip_reader_is_file_encrypted i) E z'
      \<and> answers (mz_zip_reader_is_file_a_directory i) E z' \<and> answers (mz_zip_reader_file_stat i) E z'
      \<and> answers (mz_zip_reader_get_filename i n) E z'
      \<and> answers (mz_zip_reader_locate_file name comment fl) E z'))"
proof -
  from init_spec [OF assms(1,2), of sz flags E] assms(3) obtain ok where
    ok: "r = Inr ok" "if ok then ready flags z' else m_pState z' = None" by auto
  show ?thesis
  proof (cases ok)
    case True
    with ok(2) obtain d offs where z: "zip_ok d offs z'" by (auto simp: ready_def)
    show ?thesis by (rule exI [of _ True]) (use True ok(1) in \<open>simp add: answers_queries [OF z]\<close>)
  next
    case False
    show ?thesis by (rule exI [of _ False]) (use False ok in simp)
  qed
qed

theorem zip_reader_safe_witness:
  "answers (mz_zip_reader_get_filename 7 100) small_env (snd (open_small 0))
   \<and> answers (mz_zip_reader_file_stat 1) small_env (snd (open_small 0))"
proof -
  from zip_reader_safe [OF closed_no_zip open_small_eq] obtain ok where
    "(Inr True :: zexc + bool) = Inr ok"
    "ok \<longrightarrow> (\<forall>i n name comment fl. answers (mz_zip_reader_is_file_encrypted i) small_env (snd (open_small 0))
      \<and> answers (mz_zip_reader_is_file_a_directory i) small_env (snd (open_small 0))
      \<and> answers (mz_zip_reader_file_stat i) small_env (snd (open_small 0))
      \<and> answers (mz_zip_reader_get_filename i n) small_env (snd (open_small 0))
      \<and> answers (mz_zip_reader_locate_file name comment fl) small_env (snd (open_small 0)))" by blast
  then show ?thesis by simp
qed

text \<open>
  C23. On an archive opened with its index sorted, the default search of
  \<^verbatim>\<open>mz_zip_reader_locate_file\<close> answers the index of a file whose name is the one asked for up
  to upper and lower case, and -1 if and only if the archive has no such file.
\<close>

theorem locate_exact:
  assumes "closed z" "m_pRead z \<noteq> Some Read_mem" "flags AND 0x0800 = 0"
    and "mz_zip_reader_init sz flags E z = (Inr True, z')" "length name < 2 ^ 31"
  shows "\<exists>r. mz_zip_reader_locate_file name None 0 E z' = (Inr r, z') \<and>
    (if \<exists>i s. has_name E z' i s \<and> lower s = lower name
     then \<exists>i s. r = uint i \<and> has_name E z' i s \<and> lower s = lower name
     else r = -1)"
proof -
  from init_spec [OF assms(1,2), of sz flags E] assms(3,4) obtain d offs where
    z: "zip_ok d offs z'" "index_sorted d offs z'" by (auto simp: ready_def)
  obtain r where r: "mz_zip_reader_locate_file name None 0 E z' = (Inr r, z')" "found d offs name r"
    using locate_found [OF z assms(5)] by blast
  show ?thesis
    by (rule exI [of _ r]) (use r in \<open>auto simp: found_def has_name_iff [OF z(1)]\<close>)
qed

theorem locate_exact_witness:
  "\<exists>r. mz_zip_reader_locate_file [97] None 0 small_env (snd (open_small 0)) = (Inr r, snd (open_small 0)) \<and>
    (if \<exists>i s. has_name small_env (snd (open_small 0)) i s \<and> lower s = lower [97]
     then \<exists>i s. r = uint i \<and> has_name small_env (snd (open_small 0)) i s \<and> lower s = lower [97]
     else r = -1)"
  by (rule locate_exact [OF closed_no_zip _ open_small_eq]) simp_all

text \<open>
  C24. With \<^verbatim>\<open>MZ_ZIP_FLAG_CASE_SENSITIVE\<close> the search answers the first file with exactly the name
  asked for, whatever the flags the archive was opened with, and -1 if there is none.
\<close>

theorem locate_case_sensitive:
  assumes "closed z" "m_pRead z \<noteq> Some Read_mem"
    and "mz_zip_reader_init sz flags E z = (Inr True, z')" "length name \<le> 0xFFFF"
  shows "\<exists>r. mz_zip_reader_locate_file name None 0x0100 E z' = (Inr r, z') \<and>
    (if \<exists>i. has_name E z' i name
     then \<exists>i. r = uint i \<and> has_name E z' i name \<and> (\<forall>j < i. \<not> has_name E z' j name)
     else r = -1)"
proof -
  from init_spec [OF assms(1,2), of sz flags E] assms(3) obtain d offs where
    z: "zip_ok d offs z'" by (auto simp: ready_def)
  have n: "length offs < 2 ^ 32" by (rule zip_ok_size [OF z])
  from scan_case_sensitive [OF z assms(4), of E] obtain r where
    r: "mz_zip_reader_locate_file name None 0x0100 E z' = (Inr r, z')"
    "r = -1 \<and> (\<forall>j < length offs. record_name d (unat (offs ! j)) \<noteq> name)
     \<or> (\<exists>j < length offs. r = int j \<and> record_name d (unat (offs ! j)) = name
        \<and> (\<forall>l < j. record_name d (unat (offs ! l)) \<noteq> name))" by blast
  show ?thesis
  proof (rule exI [of _ r], rule conjI [OF r(1)], cases "r = -1")
    case True
    then show "if \<exists>i. has_name E z' i name then \<exists>i. r = uint i \<and> has_name E z' i name \<and>
        (\<forall>j < i. \<not> has_name E z' j name) else r = -1"
      using r(2) by (auto simp: has_name_iff [OF z] dir_name_def)
  next
    case False
    then obtain j where j: "j < length offs" "r = int j" "record_name d (unat (offs ! j)) = name"
      "\<forall>l < j. record_name d (unat (offs ! l)) \<noteq> name" using r(2) by blast
    let ?i = "of_nat j :: 32 word"
    have i: "unat ?i = j" using j(1) n by (simp add: unsigned_of_nat take_bit_nat_eq_self)
    have "has_name E z' ?i name" "\<forall>l < ?i. \<not> has_name E z' l name" "r = uint ?i"
      using j i by (auto simp: has_name_iff [OF z] dir_name_def word_less_nat_alt uint_nat)
    then show "if \<exists>i. has_name E z' i name then \<exists>i. r = uint i \<and> has_name E z' i name \<and>
        (\<forall>j < i. \<not> has_name E z' j name) else r = -1" by auto
  qed
qed

theorem locate_case_sensitive_witness:
  "\<exists>r. mz_zip_reader_locate_file [65] None 0x0100 small_env (snd (open_small 0)) = (Inr r, snd (open_small 0)) \<and>
    (if \<exists>i. has_name small_env (snd (open_small 0)) i [65]
     then \<exists>i. r = uint i \<and> has_name small_env (snd (open_small 0)) i [65]
       \<and> (\<forall>j < i. \<not> has_name small_env (snd (open_small 0)) j [65])
     else r = -1)"
  by (rule locate_case_sensitive [OF closed_no_zip open_small_eq]) simp




end
