(* ===== verification/Tinfl_Table.thy ===== *)
theory Tinfl_Table
  imports Tinfl
begin

text \<open>
  The decoding table decodes: in the table that \<^verbatim>\<open>tinfl_decompress\<close> builds from the lengths of a canonical
  Huffman code, the bits of a code word lead to its symbol and its length.
\<close>

subsection \<open>Bits in reverse\<close>

abbreviation rcode :: "nat \<Rightarrow> nat \<Rightarrow> nat" where "rcode l c \<equiv> rev_code l c 0"

lemma rev_code_acc: "rev_code l c r = r * 2 ^ l + rcode l c"
proof (induction l arbitrary: c r)
  case (Suc l)
  have "rev_code l (c div 2) (2 * r + c mod 2) = (2 * r + c mod 2) * 2 ^ l + rcode l (c div 2)"
    by (rule Suc.IH)
  moreover have "rev_code l (c div 2) (c mod 2) = (c mod 2) * 2 ^ l + rcode l (c div 2)" by (rule Suc.IH)
  ultimately show ?case by (simp add: algebra_simps)
qed simp

lemma rcode_Suc: "rcode (Suc l) c = (c mod 2) * 2 ^ l + rcode l (c div 2)"
  using rev_code_acc [of l "c div 2" "c mod 2"] by simp

lemma rcode_less: "rcode l c < 2 ^ l"
proof (induction l arbitrary: c)
  case (Suc l)
  have "rcode l (c div 2) < 2 ^ l" by (rule Suc.IH)
  moreover have "(c mod 2) * 2 ^ l \<le> 1 * 2 ^ l" by (rule mult_le_mono1) simp
  ultimately show ?case by (simp only: rcode_Suc power_Suc)
qed simp

lemma rcode_mod:
  assumes "k \<le> l"
  shows "rcode l c mod 2 ^ k = rcode k (c div 2 ^ (l - k))"
  using assms
proof (induction l arbitrary: c)
  case (Suc l)
  show ?case
  proof (cases "k = Suc l")
    case True
    then show ?thesis using rcode_less [of "Suc l" c] by simp
  next
    case False
    then have k: "k \<le> l" using Suc.prems by simp
    then have "(2 :: nat) ^ k dvd (c mod 2) * 2 ^ l" by (intro dvd_mult le_imp_power_dvd)
    then have "rcode (Suc l) c mod 2 ^ k = rcode l (c div 2) mod 2 ^ k"
      by (simp only: rcode_Suc) (metis add_0 mod_add_eq mod_mod_trivial dvd_imp_mod_0)
    also have "\<dots> = rcode k (c div 2 ^ (Suc l - k))"
      using Suc.IH [OF k, of "c div 2"] k by (simp add: div_mult2_eq Suc_diff_le)
    finally show ?thesis .
  qed
qed simp

lemma rcode_inj: "a < 2 ^ l \<Longrightarrow> b < 2 ^ l \<Longrightarrow> rcode l a = rcode l b \<Longrightarrow> a = b"
proof (induction l arbitrary: a b)
  case (Suc l)
  have r: "rcode l (a div 2) < 2 ^ l" "rcode l (b div 2) < 2 ^ l" by (simp_all add: rcode_less)
  have eq: "(a mod 2) * 2 ^ l + rcode l (a div 2) = (b mod 2) * 2 ^ l + rcode l (b div 2)"
    using Suc.prems(3) by (simp only: rcode_Suc)
  from arg_cong [OF eq, of "\<lambda>x. x mod 2 ^ l"] r have 1: "rcode l (a div 2) = rcode l (b div 2)" by simp
  with eq have 2: "a mod 2 = b mod 2" by simp
  have "a div 2 < 2 ^ l" "b div 2 < 2 ^ l" using Suc.prems(1,2) by (simp_all add: less_mult_imp_div_less mult.commute)
  then have "a div 2 = b div 2" using 1 by (rule Suc.IH)
  with 2 show ?case by (metis div_mult_mod_eq)
qed simp

subsection \<open>Canonical codes\<close>

text \<open>
  The code words of one length are consecutive numbers; the first one of the next length comes after
  them with a 0 appended.
\<close>

definition syms_of :: "nat list \<Rightarrow> nat \<Rightarrow> nat" where
  "syms_of cs l = length (filter ((=) l) cs)"

fun first_code :: "nat list \<Rightarrow> nat \<Rightarrow> nat" where
  "first_code cs 0 = 0"
| "first_code cs (Suc l) = (if l = 0 then 0 else 2 * (first_code cs l + syms_of cs l))"

definition code :: "nat list \<Rightarrow> nat \<Rightarrow> nat" where
  "code cs s = first_code cs (cs ! s) + syms_of (take s cs) (cs ! s)"

text \<open>The code words of a complete code leave no string of fifteen bits without a prefix.\<close>

definition complete_code :: "nat list \<Rightarrow> bool" where
  "complete_code cs \<longleftrightarrow> (\<forall>c \<in> set cs. c \<le> 15) \<and> first_code cs 16 = 65536"

lemma syms_of_append: "syms_of (xs @ ys) l = syms_of xs l + syms_of ys l"
  by (simp add: syms_of_def)

lemma syms_of_take_less:
  assumes "s < length cs" "cs ! s = l"
  shows "syms_of (take s cs) l < syms_of cs l"
proof -
  have "cs = take s cs @ cs ! s # drop (Suc s) cs" using assms(1) by (simp add: id_take_nth_drop)
  then have "syms_of cs l = syms_of (take s cs) l + syms_of (cs ! s # drop (Suc s) cs) l"
    by (metis syms_of_append)
  then show ?thesis using assms(2) by (simp add: syms_of_def)
qed

lemma syms_of_take_strict:
  assumes "s < t" "t < length cs" "cs ! s = l"
  shows "syms_of (take s cs) l < syms_of (take t cs) l"
  using syms_of_take_less [of s "take t cs" l] assms by (simp add: min_def)

lemma first_code_grow:
  assumes "1 \<le> l" "l < m"
  shows "2 ^ (m - l) * (first_code cs l + syms_of cs l) \<le> first_code cs m"
  using assms(2)
proof (induction m)
  case (Suc m)
  show ?case
  proof (cases "m = l")
    case False
    then have lm: "l < m" using Suc.prems by simp
    then have "2 ^ (Suc m - l) * (first_code cs l + syms_of cs l)
        = 2 * (2 ^ (m - l) * (first_code cs l + syms_of cs l))" by (simp add: Suc_diff_le)
    also have "\<dots> \<le> 2 * first_code cs m" using Suc.IH [OF lm] by simp
    also have "\<dots> \<le> first_code cs (Suc m)" using lm by simp
    finally show ?thesis .
  qed (use assms(1) in simp)
qed simp

lemma code_bound:
  assumes "complete_code cs" "s < length cs" "0 < cs ! s"
  shows "code cs s < first_code cs (cs ! s) + syms_of cs (cs ! s)" "code cs s < 2 ^ (cs ! s)"
proof -
  let ?l = "cs ! s"
  show 1: "code cs s < first_code cs ?l + syms_of cs ?l"
    using syms_of_take_less [OF assms(2) refl] by (simp add: code_def)
  have "?l \<le> 15" using assms(1) nth_mem [OF assms(2)] by (simp add: complete_code_def)
  then have l: "1 \<le> ?l" "?l < 16" using assms(3) by simp_all
  have "2 ^ (16 - ?l) * (first_code cs ?l + syms_of cs ?l) \<le> 2 ^ 16"
    using first_code_grow [OF l, of cs] assms(1) by (simp add: complete_code_def)
  also have "(2 :: nat) ^ 16 = 2 ^ (16 - ?l) * 2 ^ ?l" using l by (simp add: power_add [symmetric])
  finally show "code cs s < 2 ^ ?l" using 1 by simp
qed

text \<open>No code word is the beginning of another.\<close>

lemma code_prefix_free:
  assumes "complete_code cs" "s < length cs" "t < length cs" "s \<noteq> t" "0 < cs ! s" "cs ! s \<le> cs ! t"
  shows "code cs t div 2 ^ (cs ! t - cs ! s) \<noteq> code cs s"
proof (cases "cs ! s = cs ! t")
  case True
  from assms(4) consider "s < t" | "t < s" by linarith
  then show ?thesis
  proof cases
    case 1
    then show ?thesis using syms_of_take_strict [OF 1 assms(3) True] True by (simp add: code_def)
  next
    case 2
    then show ?thesis using syms_of_take_strict [OF 2 assms(2) True [symmetric]] True by (simp add: code_def)
  qed
next
  case False
  then have l: "cs ! s < cs ! t" using assms(6) by simp
  let ?f = "first_code cs (cs ! s) + syms_of cs (cs ! s)" and ?k = "cs ! t - cs ! s"
  have "2 ^ ?k * ?f \<le> first_code cs (cs ! t)" using assms(5) l by (intro first_code_grow) auto
  also have "\<dots> \<le> code cs t" by (simp add: code_def)
  finally have "?f \<le> code cs t div 2 ^ ?k" by (simp add: less_eq_div_iff_mult_less_eq mult.commute)
  then show ?thesis using code_bound(1) [OF assms(1,2,5)] by linarith
qed

text \<open>The entries of a short code word: the indices that begin with its bits.\<close>

definition word_bits :: "nat list \<Rightarrow> nat \<Rightarrow> nat \<Rightarrow> bool" where
  "word_bits cs s i \<longleftrightarrow> i mod 2 ^ (cs ! s) = rcode (cs ! s) (code cs s)"

lemma word_bits_unique:
  assumes "complete_code cs" "s < length cs" "t < length cs" "0 < cs ! s" "0 < cs ! t"
    and "word_bits cs s i" "word_bits cs t i"
  shows "s = t"
  using assms
proof (induction "cs ! s" "cs ! t" arbitrary: s t rule: linorder_wlog)
  case le
  show ?case
  proof (rule ccontr)
    assume "s \<noteq> t"
    let ?l = "cs ! s" and ?m = "cs ! t"
    have "rcode ?m (code cs t) mod 2 ^ ?l = i mod 2 ^ ?m mod 2 ^ ?l" using le by (simp add: word_bits_def)
    also have "\<dots> = i mod 2 ^ ?l" using le by (simp add: mod_mod_cancel le_imp_power_dvd)
    also have "\<dots> = rcode ?l (code cs s)" using le by (simp add: word_bits_def)
    finally have "rcode ?l (code cs t div 2 ^ (?m - ?l)) = rcode ?l (code cs s)" using le by (simp add: rcode_mod)
    moreover have "code cs t div 2 ^ (?m - ?l) < 2 ^ ?l"
      using code_bound(2) [of cs t] le by (simp add: div_less_iff_less_mult power_add [symmetric])
    moreover have "code cs s < 2 ^ ?l" using code_bound(2) [of cs s] le by simp
    ultimately show False using rcode_inj code_prefix_free [of cs s t] le \<open>s \<noteq> t\<close> by blast
  qed
next
  case sym
  show ?case by (rule sym(1) [symmetric]) (use sym in auto)
qed

subsection \<open>Building the table\<close>

lemma total_syms_eq:
  "\<forall>c \<in> set cs. c < length t \<Longrightarrow> total_syms cs t = Some (map (\<lambda>l. t ! l + syms_of cs l) [0..<length t])"
proof (induction cs arbitrary: t)
  case Nil
  then show ?case by (simp add: syms_of_def map_nth)
next
  case (Cons c cs)
  then have "total_syms (c # cs) t = total_syms cs (t[c := t ! c + 1])" by (simp add: put_def)
  also have "\<dots> = Some (map (\<lambda>l. t[c := t ! c + 1] ! l + syms_of cs l) [0..<length t])"
    using Cons by simp
  finally show ?case by (auto simp: syms_of_def nth_list_update)
qed

lemma next_codes_eq:
  assumes "length ts = 16" "length nx = 17" "1 \<le> i" "i + k = 16" "tot = first_code cs i"
    and "\<forall>l. 1 \<le> l \<longrightarrow> l < 16 \<longrightarrow> ts ! l = syms_of cs l" "\<forall>l \<le> i. nx ! l = first_code cs l"
  shows "\<exists>used nx'. next_codes ts k i u tot nx = Some (used, first_code cs 16, nx')
    \<and> length nx' = 17 \<and> (\<forall>l \<le> 16. nx' ! l = first_code cs l)"
  using assms
proof (induction k arbitrary: i u tot nx)
  case (Suc k)
  let ?x = "2 * (tot + ts ! i)"
  have x: "?x = first_code cs (i + 1)" using Suc.prems by simp
  have "\<forall>l \<le> i + 1. nx[i + 1 := ?x] ! l = first_code cs l"
    using Suc.prems(2,4,7) x by (auto simp: nth_list_update le_Suc_eq simp del: first_code.simps)
  from Suc.IH [of "nx[i + 1 := ?x]" "i + 1" ?x "u + ts ! i"] Suc.prems this x show ?case
    by (auto simp: put_def simp del: first_code.simps)
qed simp

lemma fill_look_up_eq:
  assumes "length t = 1024" "c \<le> 10"
  shows "\<exists>t'. fill_look_up t r c k = Some t' \<and> length t' = 1024
    \<and> (\<forall>i < 1024. t' ! i = (if r \<le> i \<and> i mod 2 ^ c = r mod 2 ^ c then k else t ! i))"
  using assms
proof (induction t r c k rule: fill_look_up.induct)
  case (1 t r c k)
  show ?case
  proof (cases "1024 \<le> r")
    case True
    then show ?thesis using 1(2) by (subst fill_look_up.simps) auto
  next
    case False
    then have "put t r k = Some (t[r := k])" using 1(2) by (simp add: put_def)
    from 1(1) [OF False this] 1(2,3) obtain t' where t':
      "fill_look_up (t[r := k]) (r + 2 ^ c) c k = Some t'" "length t' = 1024"
      "\<forall>i < 1024. t' ! i = (if r + 2 ^ c \<le> i \<and> i mod 2 ^ c = r mod 2 ^ c then k else t[r := k] ! i)" by auto
    have "fill_look_up t r c k = Some t'"
      using False \<open>put t r k = _\<close> t'(1) by (subst fill_look_up.simps) simp
    moreover have "t' ! i = (if r \<le> i \<and> i mod 2 ^ c = r mod 2 ^ c then k else t ! i)" if "i < 1024" for i
    proof -
      have "r + 2 ^ c \<le> i \<or> i = r" if "r \<le> i" "i mod 2 ^ c = r mod 2 ^ c"
      proof -
        from that have "2 ^ c dvd i - r" by (simp add: mod_eq_dvd_iff_nat)
        then show ?thesis using that(1) by (auto dest!: dvd_imp_le)
      qed
      then show ?thesis using t'(3) \<open>i < 1024\<close> 1(2) by (auto simp: nth_list_update)
    qed
    ultimately show ?thesis using t'(2) by blast
  qed
qed

text \<open>After the first \<open>k\<close> symbols: the next code words, and the entries of the short ones.\<close>

definition table_upto :: "nat list \<Rightarrow> nat \<Rightarrow> nat list \<times> int list \<times> int list \<times> int \<Rightarrow> bool" where
  "table_upto cs k = (\<lambda>(nx, lu, tree, tn). length nx = 17 \<and> length lu = 1024
     \<and> (\<forall>l. 1 \<le> l \<longrightarrow> l \<le> 15 \<longrightarrow> nx ! l = first_code cs l + syms_of (take k cs) l)
     \<and> (\<forall>s < k. 0 < cs ! s \<longrightarrow> cs ! s \<le> 10 \<longrightarrow> (\<forall>i < 1024. word_bits cs s i \<longrightarrow>
          lu ! i = int (push_bit 9 (cs ! s) OR s))))"

lemma push_or: "s < 512 \<Longrightarrow> push_bit 9 c OR s = c * 512 + (s :: nat)"
proof -
  assume s: "s < 512"
  then have "take_bit 9 s = s" by (simp add: take_bit_nat_eq_self)
  then have "\<not> bit (push_bit 9 c) n \<or> \<not> bit s n" for n by (metis bit_push_bit_iff bit_take_bit_iff not_le)
  then have "push_bit 9 c OR s = push_bit 9 c + s" by (subst disjunctive_add) auto
  then show ?thesis by (simp add: push_bit_eq_mult)
qed

lemma table_upto_next:
  assumes "table_upto cs k (nx, lu, tree, tn)" "k < length cs" "complete_code cs" "0 < cs ! k"
  shows "at nx (cs ! k) = Some (code cs k)"
    "length (nx[cs ! k := code cs k + 1]) = 17"
    "1 \<le> l \<Longrightarrow> l \<le> 15 \<Longrightarrow> nx[cs ! k := code cs k + 1] ! l = first_code cs l + syms_of (take (Suc k) cs) l"
proof -
  have c: "cs ! k \<le> 15" using assms(2,3) by (auto simp: complete_code_def)
  then show 1: "at nx (cs ! k) = Some (code cs k)" and "length (nx[cs ! k := code cs k + 1]) = 17"
    using assms by (auto simp: table_upto_def code_def)
  show "nx[cs ! k := code cs k + 1] ! l = first_code cs l + syms_of (take (Suc k) cs) l" if "1 \<le> l" "l \<le> 15"
    using assms that c by (auto simp: table_upto_def code_def take_Suc_conv_app_nth syms_of_append syms_of_def nth_list_update)
qed

lemma add_symbol_short:
  assumes t: "table_upto cs k (nx, lu, tree, tn)" and k: "k < length cs" "complete_code cs" "length cs \<le> 512"
    and c: "0 < cs ! k" "cs ! k \<le> 10"
  shows "\<exists>lu'. add_symbol k (cs ! k) (nx, lu, tree, tn) = Some (nx[cs ! k := code cs k + 1], lu', tree, tn)
    \<and> table_upto cs (Suc k) (nx[cs ! k := code cs k + 1], lu', tree, tn)
    \<and> (\<forall>i < 1024. lu' ! i = (if word_bits cs k i then int (push_bit 9 (cs ! k) OR k) else lu ! i))"
proof -
  note n = table_upto_next [OF t k(1,2) c(1)]
  let ?c = "cs ! k"
  let ?r = "rcode ?c (code cs k)" and ?x = "int (push_bit 9 ?c OR k)"
  obtain lu' where lu': "fill_look_up lu ?r ?c ?x = Some lu'" "length lu' = 1024"
    "\<forall>i < 1024. lu' ! i = (if ?r \<le> i \<and> i mod 2 ^ ?c = ?r mod 2 ^ ?c then ?x else lu ! i)"
    using fill_look_up_eq [of lu ?c ?r ?x] t c(2) by (auto simp: table_upto_def)
  have e: "(?r \<le> i \<and> i mod 2 ^ ?c = ?r mod 2 ^ ?c) = word_bits cs k i" for i
    unfolding word_bits_def by (metis mod_less mod_less_eq_dividend rcode_less)
  have "lu' ! i = int (push_bit 9 (cs ! s) OR s)"
    if "s < Suc k" "0 < cs ! s" "cs ! s \<le> 10" "i < 1024" "word_bits cs s i" for s i
  proof (cases "s = k")
    case False
    then have s: "s < k" using that(1) by simp
    then have "\<not> word_bits cs k i" using word_bits_unique [OF k(2) _ k(1) that(2) c(1) that(5)] k(1) by auto
    then show ?thesis using lu'(3) that s t by (simp add: e table_upto_def)
  qed (use lu'(3) that in \<open>simp add: e\<close>)
  then have "table_upto cs (Suc k) (nx[?c := code cs k + 1], lu', tree, tn)"
    using n(2,3) lu'(2) by (auto simp: table_upto_def)
  moreover have "put nx ?c (code cs k + 1) = Some (nx[?c := code cs k + 1])"
    using n(1) by (auto simp: put_def at_def split: if_splits)
  ultimately show ?thesis using n(1) c lu'(1,3) by (auto simp: add_symbol_def e)
qed

text \<open>A long code word writes an entry of the first table only where there is none.\<close>

lemma add_symbol_long:
  assumes t: "table_upto cs k (nx, lu, tree, tn)" and k: "k < length cs" "complete_code cs"
    and c: "10 < cs ! k" and r: "add_symbol k (cs ! k) (nx, lu, tree, tn) = Some st"
  shows "table_upto cs (Suc k) st"
proof -
  have c0: "0 < cs ! k" using c by simp
  note n = table_upto_next [OF t k c0]
  let ?nx = "nx[cs ! k := code cs k + 1]" and ?j = "rcode (cs ! k) (code cs k) mod 1024"
  have "put nx (cs ! k) (code cs k + 1) = Some ?nx"
    using n(1) by (auto simp: put_def at_def split: if_splits)
  with r n(1) c obtain lu' tree' tn' where st: "st = (?nx, lu', tree', tn')"
    and lu: "lu' = lu \<or> lu ! ?j = 0 \<and> lu' = lu[?j := tn]"
    by (auto simp: add_symbol_def Let_def bind_eq_Some_conv put_def at_def split: if_splits)
  have "lu' ! i = int (push_bit 9 (cs ! s) OR s)"
    if "s < Suc k" "0 < cs ! s" "cs ! s \<le> 10" "i < 1024" "word_bits cs s i" for s i
  proof -
    have "s < k" using that(1,3) c by (cases "s = k") auto
    then have 1: "lu ! i = int (push_bit 9 (cs ! s) OR s)" using t that by (simp add: table_upto_def)
    have "push_bit 9 (cs ! s) OR s \<noteq> 0"
    proof
      assume "push_bit 9 (cs ! s) OR s = 0"
      then have "push_bit 9 (cs ! s) = 0" by (metis or_eq_0_iff)
      then show False using that(2) by (simp add: push_bit_eq_mult)
    qed
    then show ?thesis using lu 1 by (cases "i = ?j") auto
  qed
  then show ?thesis using st n(2,3) lu t by (auto simp: table_upto_def)
qed

lemma table_upto_0:
  assumes "length nx = 17" "length lu = 1024" "\<forall>l \<le> 16. nx ! l = first_code cs l"
  shows "table_upto cs 0 (nx, lu, tree, tn)"
  using assms by (auto simp: table_upto_def syms_of_def)

text \<open>The index of the first table is the lowest ten bits.\<close>

lemma fast_index_eq: "fast_index bits = unat bits mod 1024"
proof -
  have "bits AND (1024 - 1) = take_bit 10 bits" by (simp add: take_bit_eq_mask mask_eq_exp_minus_1)
  then have "fast_index bits = take_bit 10 (unat bits)" by (simp only: fast_index_def unsigned_take_bit_eq)
  then show ?thesis by (simp add: take_bit_eq_mod)
qed

definition starts_with :: "64 word \<Rightarrow> nat \<Rightarrow> nat \<Rightarrow> bool" where
  "starts_with bits l c \<longleftrightarrow> unat bits mod 2 ^ l = rcode l c"

lemma table_upto_decodes:
  assumes "table_upto cs (length cs) (nx, lu, tree, tn)" "length cs \<le> 512"
    and "s < length cs" "0 < cs ! s" "cs ! s \<le> 10" "starts_with bits (cs ! s) (code cs s)"
  shows "huff_symbol True (p\<lparr>m_look_up := lu, m_tree := tree\<rparr>) bits = Some (int s, cs ! s)"
    "huff_symbol False (p\<lparr>m_look_up := lu, m_tree := tree\<rparr>) bits = Some (int (cs ! s * 512 + s), cs ! s)"
    "lu ! fast_index bits = int (cs ! s * 512 + s)"
proof -
  let ?x = "int (cs ! s * 512 + s)"
  have i: "fast_index bits < 1024" by (simp add: fast_index_eq)
  have "unat bits mod 1024 mod 2 ^ (cs ! s) = unat bits mod 2 ^ (cs ! s)"
    using assms(5) le_imp_power_dvd [of "cs ! s" 10 "2 :: nat"] by (simp add: mod_mod_cancel)
  then have "word_bits cs s (fast_index bits)"
    using assms(6) by (simp add: word_bits_def starts_with_def fast_index_eq)
  then show l: "lu ! fast_index bits = ?x" using assms(1-5) i by (simp add: table_upto_def push_or)
  have "drop_bit 9 ?x = int (cs ! s)" using assms(2,3) by (simp add: drop_bit_eq_div)
  moreover have "?x AND 511 = int s"
  proof -
    have "?x AND 511 = take_bit 9 ?x" by (simp add: take_bit_eq_mask mask_eq_exp_minus_1)
    then show ?thesis using assms(2,3) by (simp add: take_bit_eq_mod)
  qed
  ultimately show "huff_symbol True (p\<lparr>m_look_up := lu, m_tree := tree\<rparr>) bits = Some (int s, cs ! s)"
    "huff_symbol False (p\<lparr>m_look_up := lu, m_tree := tree\<rparr>) bits = Some (?x, cs ! s)"
    using l i assms(1) by (simp_all add: huff_symbol_def table_upto_def)
qed

lemma build_table_symbols:
  assumes "n \<le> length (m_code_size p)" "complete_code (take n (m_code_size p))"
  shows "\<exists>nx. table_upto (take n (m_code_size p)) 0 (nx, replicate 1024 0, replicate (2 * 288) 0, -1)
    \<and> build_table n p = map_option (\<lambda>(nx, lu, tree, tn). (True, p\<lparr>m_look_up := lu, m_tree := tree\<rparr>))
        (add_symbols 0 (take n (m_code_size p)) (nx, replicate 1024 0, replicate (2 * 288) 0, -1))"
proof -
  let ?cs = "take n (m_code_size p)"
  have "\<forall>c \<in> set ?cs. c < length (replicate 16 (0 :: nat))" using assms(2) by (auto simp: complete_code_def)
  then have ts: "total_syms ?cs (replicate 16 0) = Some (map (syms_of ?cs) [0..<16])"
    by (subst total_syms_eq) (auto intro!: map_cong)
  have "first_code ?cs 16 = 65536" using assms(2) by (simp add: complete_code_def)
  then obtain used nx where nx: "next_codes (map (syms_of ?cs) [0..<16]) 15 1 0 0 (replicate 17 0) = Some (used, 65536, nx)"
    "length nx = 17" "\<forall>l \<le> 16. nx ! l = first_code ?cs l"
    using next_codes_eq [of "map (syms_of ?cs) [0..<16]" "replicate 17 0" 1 15 0 ?cs 0] by (force simp: le_Suc_eq)
  have "table_upto ?cs 0 (nx, replicate 1024 0, replicate (2 * 288) 0, -1)" using nx by (intro table_upto_0) simp_all
  moreover have "build_table n p = map_option (\<lambda>(nx, lu, tree, tn). (True, p\<lparr>m_look_up := lu, m_tree := tree\<rparr>))
        (add_symbols 0 ?cs (nx, replicate 1024 0, replicate (2 * 288) 0, -1))"
    using assms(1) ts nx(1)
    by (simp add: build_table_def Let_def split: option.split prod.split)
      (cases "add_symbols 0 ?cs (nx, replicate 1024 0, replicate 576 0, - 1)"; auto)
  ultimately show ?thesis by blast
qed

subsection \<open>The fixed codes\<close>

definition fixed_dist_lengths :: "nat list" where
  "fixed_dist_lengths = replicate 32 5"

lemma length_fixed: "length fixed_lengths = 288" "length fixed_dist_lengths = 32"
  by (simp_all add: fixed_lengths_def fixed_dist_lengths_def)

lemma syms_of_replicate: "syms_of (replicate n c) l = (if c = l then n else 0)"
  by (simp add: syms_of_def)

lemma syms_of_fixed: "syms_of fixed_lengths l = (if l = 7 then 24 else if l = 8 then 152 else if l = 9 then 112 else 0)"
  by (simp add: fixed_lengths_def syms_of_append syms_of_replicate)

lemma first_code_step: "0 < l \<Longrightarrow> first_code cs (l + 1) = 2 * (first_code cs l + syms_of cs l)"
  by simp

lemma first_code_values:
  "first_code cs 1 = 0"
  "first_code cs 7 = 64 * syms_of cs 1 + 32 * syms_of cs 2 + 16 * syms_of cs 3 + 8 * syms_of cs 4 + 4 * syms_of cs 5
     + 2 * syms_of cs 6"
  "first_code cs 8 = 2 * (first_code cs 7 + syms_of cs 7)"
  "first_code cs 9 = 2 * (first_code cs 8 + syms_of cs 8)"
  "first_code cs 16 = 128 * (first_code cs 9 + syms_of cs 9) + 64 * syms_of cs 10 + 32 * syms_of cs 11
     + 16 * syms_of cs 12 + 8 * syms_of cs 13 + 4 * syms_of cs 14 + 2 * syms_of cs 15"
  "first_code cs 5 = 16 * syms_of cs 1 + 8 * syms_of cs 2 + 4 * syms_of cs 3 + 2 * syms_of cs 4"
proof -
  show 1: "first_code cs 1 = 0" by simp
  have 2: "first_code cs 2 = 2 * syms_of cs 1" by (simp add: numeral_2_eq_2)
  note st = 2 first_code_step [of 2 cs] first_code_step [of 3 cs] first_code_step [of 4 cs]
    first_code_step [of 5 cs] first_code_step [of 6 cs] first_code_step [of 7 cs] first_code_step [of 8 cs]
    first_code_step [of 9 cs] first_code_step [of 10 cs] first_code_step [of 11 cs] first_code_step [of 12 cs]
    first_code_step [of 13 cs] first_code_step [of 14 cs] first_code_step [of 15 cs]
  show 5: "first_code cs 5 = 16 * syms_of cs 1 + 8 * syms_of cs 2 + 4 * syms_of cs 3 + 2 * syms_of cs 4"
    using st 1 by (simp del: first_code.simps)
  show 7: "first_code cs 7 = 64 * syms_of cs 1 + 32 * syms_of cs 2 + 16 * syms_of cs 3 + 8 * syms_of cs 4
     + 4 * syms_of cs 5 + 2 * syms_of cs 6"
    using st 5 by (simp del: first_code.simps)
  show "first_code cs 8 = 2 * (first_code cs 7 + syms_of cs 7)" "first_code cs 9 = 2 * (first_code cs 8 + syms_of cs 8)"
    using st by (simp_all del: first_code.simps)
  show "first_code cs 16 = 128 * (first_code cs 9 + syms_of cs 9) + 64 * syms_of cs 10 + 32 * syms_of cs 11
     + 16 * syms_of cs 12 + 8 * syms_of cs 13 + 4 * syms_of cs 14 + 2 * syms_of cs 15"
    using st by (simp del: first_code.simps)
qed

lemma complete_fixed: "complete_code fixed_lengths" "complete_code fixed_dist_lengths"
  by (auto simp: complete_code_def first_code_values syms_of_fixed fixed_dist_lengths_def syms_of_replicate
      simp del: first_code.simps) (auto simp: fixed_lengths_def)

text \<open>RFC 1951, 3.2.6: the fixed code of literals and lengths; distances have their number in five bits.\<close>

lemma fixed_code:
  assumes "s < 288"
  shows "fixed_lengths ! s = (if s < 144 then 8 else if s < 256 then 9 else if s < 280 then 7 else 8)"
    "code fixed_lengths s = (if s < 144 then 48 + s else if s < 256 then 400 + (s - 144)
       else if s < 280 then s - 256 else 192 + (s - 280))"
proof -
  show l: "fixed_lengths ! s = (if s < 144 then 8 else if s < 256 then 9 else if s < 280 then 7 else 8)"
    using assms by (auto simp: fixed_lengths_def nth_append)
  have f: "first_code fixed_lengths 7 = 0" "first_code fixed_lengths 8 = 48" "first_code fixed_lengths 9 = 400"
    by (simp_all add: first_code_values syms_of_fixed del: first_code.simps)
  show "code fixed_lengths s = (if s < 144 then 48 + s else if s < 256 then 400 + (s - 144)
       else if s < 280 then s - 256 else 192 + (s - 280))"
    using assms f unfolding code_def l
    by (auto simp: fixed_lengths_def syms_of_append syms_of_replicate min_def simp del: first_code.simps)
qed

lemma fixed_dist_code: "s < 32 \<Longrightarrow> fixed_dist_lengths ! s = 5 \<and> code fixed_dist_lengths s = s"
  by (auto simp: code_def first_code_values fixed_dist_lengths_def syms_of_replicate min_def simp del: first_code.simps)

end
