(* ===== verification/Tinfl_Tree.thy ===== *)
theory Tinfl_Tree
  imports Tinfl_Table
begin

text \<open>
  The tree behind the first table: for every complete code of at most 288 symbols it is built inside its
  array of 576 entries, and it leads from the bits of each long code word to its symbol.
  An inner node stands for the beginning of a code word that is at least ten bits long and goes on; the
  node made as number \<open>q\<close> is the value \<open>-2 q - 1\<close>, and its two entries are those with the indices \<open>2 q\<close> and
  \<open>2 q + 1\<close>.
\<close>

definition word_of :: "nat list \<Rightarrow> nat \<Rightarrow> nat" where
  "word_of cs s = rcode (cs ! s) (code cs s)"

definition inner :: "nat list \<Rightarrow> (nat \<times> nat) set" where
  "inner cs = {(m, v). \<exists>t < length cs. 10 \<le> m \<and> m < cs ! t \<and> v = word_of cs t mod 2 ^ m}"

lemma word_of_less: "word_of cs s < 2 ^ (cs ! s)"
  by (simp add: word_of_def rcode_less)

lemma word_of_prefix_free:
  assumes "complete_code cs" "s < length cs" "t < length cs" "0 < cs ! s" "cs ! s \<le> cs ! t"
    "word_of cs t mod 2 ^ (cs ! s) = word_of cs s"
  shows "s = t"
proof -
  have "word_bits cs s (word_of cs t)" using assms(6) by (simp add: word_bits_def word_of_def)
  moreover have "word_bits cs t (word_of cs t)" by (simp add: word_bits_def word_of_def rcode_less)
  ultimately show ?thesis using assms word_bits_unique [of cs s t] by simp
qed

lemma mod_mod_exp: "m \<le> n \<Longrightarrow> (x :: nat) mod 2 ^ n mod 2 ^ m = x mod 2 ^ m"
  by (simp add: mod_mod_cancel le_imp_power_dvd)

text \<open>A beginning of a code word that goes on is no code word.\<close>

lemma inner_not_word:
  assumes "complete_code cs" "(m, v) \<in> inner cs" "s < length cs" "0 < cs ! s" "cs ! s \<le> m"
  shows "v mod 2 ^ (cs ! s) \<noteq> word_of cs s"
proof
  assume e: "v mod 2 ^ (cs ! s) = word_of cs s"
  from assms(2) obtain t where t: "t < length cs" "m < cs ! t" "v = word_of cs t mod 2 ^ m" by (auto simp: inner_def)
  then have "word_of cs t mod 2 ^ (cs ! s) = word_of cs s" using e assms(5) by (simp add: mod_mod_exp)
  moreover have "cs ! s \<le> cs ! t" using t(2) assms(5) by simp
  ultimately have "s = t" using word_of_prefix_free [OF assms(1,3) t(1) assms(4)] by blast
  then show False using t(2) assms(5) by simp
qed

lemma inner_not_short:
  assumes "complete_code cs" "(10, i) \<in> inner cs" "s < length cs" "0 < cs ! s" "cs ! s \<le> 10"
  shows "\<not> word_bits cs s i"
  using inner_not_word [OF assms] by (simp add: word_bits_def word_of_def)

subsection \<open>Counting the inner nodes\<close>

lemma card_inner_level:
  assumes "complete_code cs" "1 \<le> m"
  shows "finite {v. (m, v) \<in> inner cs} \<and> card {v. (m, v) \<in> inner cs} \<le> 2 ^ m - (first_code cs m + syms_of cs m)"
proof -
  let ?a = "first_code cs m + syms_of cs m"
  have "{v. (m, v) \<in> inner cs} \<subseteq> rcode m ` {?a..<2 ^ m}"
  proof
    fix v assume "v \<in> {v. (m, v) \<in> inner cs}"
    then obtain t where t: "t < length cs" "m < cs ! t" "v = word_of cs t mod 2 ^ m" by (auto simp: inner_def)
    let ?c = "code cs t div 2 ^ (cs ! t - m)"
    have "v = rcode m ?c" using t by (simp add: word_of_def rcode_mod)
    moreover have "?c < 2 ^ m"
      using code_bound(2) [OF assms(1) t(1)] t(2) by (simp add: div_less_iff_less_mult power_add [symmetric])
    moreover have "?a \<le> ?c"
    proof -
      have "2 ^ (cs ! t - m) * ?a \<le> first_code cs (cs ! t)" using assms(2) t(2) by (rule first_code_grow)
      also have "\<dots> \<le> code cs t" by (simp add: code_def)
      finally show ?thesis by (simp add: less_eq_div_iff_mult_less_eq mult.commute)
    qed
    ultimately show "v \<in> rcode m ` {?a..<2 ^ m}" by auto
  qed
  then have "finite {v. (m, v) \<in> inner cs}" "card {v. (m, v) \<in> inner cs} \<le> card (rcode m ` {?a..<2 ^ m})"
    by (auto intro: finite_subset card_mono)
  moreover have "card (rcode m ` {?a..<2 ^ m}) \<le> 2 ^ m - ?a" using card_image_le [of "{?a..<2 ^ m}" "rcode m"] by simp
  ultimately show ?thesis by linarith
qed

lemma syms_of_sum: "syms_of cs 11 + syms_of cs 12 + syms_of cs 13 + syms_of cs 14 + syms_of cs 15 \<le> length cs"
  by (induction cs) (auto simp: syms_of_def)

lemma card_inner:
  assumes "complete_code cs"
  shows "finite (inner cs)" "card (inner cs) \<le> length cs"
proof -
  let ?I = "\<lambda>m. {v. (m, v) \<in> inner cs}"
  have "inner cs \<subseteq> (\<Union>m \<in> {10, 11, 12, 13, 14}. Pair m ` ?I m)"
  proof
    fix x assume x: "x \<in> inner cs"
    then obtain m v t where "x = (m, v)" "t < length cs" "10 \<le> m" "m < cs ! t" by (auto simp: inner_def)
    moreover have "cs ! t \<le> 15" using assms nth_mem [OF \<open>t < length cs\<close>] by (simp add: complete_code_def)
    ultimately have "x = (m, v)" "m = 10 \<or> m = 11 \<or> m = 12 \<or> m = 13 \<or> m = 14" by auto
    then show "x \<in> (\<Union>m \<in> {10, 11, 12, 13, 14}. Pair m ` ?I m)" using x by auto
  qed
  then have sub: "inner cs \<subseteq> (\<Union>m \<in> {10, 11, 12, 13, 14}. Pair m ` ?I m)" .
  have fin: "finite (?I m)" if "1 \<le> m" for m using card_inner_level [OF assms that] by blast
  show "finite (inner cs)" by (rule finite_subset [OF sub]) (auto simp: fin)
  let ?a = "\<lambda>m. first_code cs m + syms_of cs m" and ?n = "syms_of cs"
  have "card (inner cs) \<le> card (\<Union>m \<in> {10, 11, 12, 13, 14}. Pair m ` ?I m)"
    by (rule card_mono [OF _ sub]) (auto simp: fin)
  also have "\<dots> \<le> (\<Sum>m \<in> {10, 11, 12, 13, 14}. card (Pair m ` ?I m))" by (rule card_UN_le) simp
  also have "\<dots> \<le> (\<Sum>m \<in> {10, 11, 12, 13, 14}. 2 ^ m - ?a m)"
  proof (rule sum_mono)
    fix m :: nat assume "m \<in> {10, 11, 12, 13, 14}"
    then have "1 \<le> m" by auto
    then show "card (Pair m ` ?I m) \<le> 2 ^ m - ?a m"
      using card_inner_level [OF assms] by (simp add: card_image inj_on_def)
  qed
  also have "\<dots> = (2 ^ 10 - ?a 10) + (2 ^ 11 - ?a 11) + (2 ^ 12 - ?a 12) + (2 ^ 13 - ?a 13) + (2 ^ 14 - ?a 14)"
    by simp
  also have "\<dots> \<le> ?n 11 + ?n 12 + ?n 13 + ?n 14 + ?n 15"
  proof -
    have "65536 = 2 * ?a 15" "first_code cs 15 = 2 * ?a 14" "first_code cs 14 = 2 * ?a 13" "first_code cs 13 = 2 * ?a 12"
      "first_code cs 12 = 2 * ?a 11" "first_code cs 11 = 2 * ?a 10"
      using assms first_code_step [of 15 cs] first_code_step [of 14 cs] first_code_step [of 13 cs]
        first_code_step [of 12 cs] first_code_step [of 11 cs] first_code_step [of 10 cs]
      by (simp_all add: complete_code_def del: first_code.simps)
    then show ?thesis by (simp del: first_code.simps)
  qed
  also have "\<dots> \<le> length cs" by (rule syms_of_sum)
  finally show "card (inner cs) \<le> length cs" .
qed

subsection \<open>The tree after some of the symbols\<close>

definition node_val :: "(nat \<times> nat) list \<Rightarrow> nat \<times> nat \<Rightarrow> int \<Rightarrow> bool" where
  "node_val ns c x \<longleftrightarrow> (\<forall>q < length ns. ns ! q = c \<longrightarrow> x = - 2 * int q - 1)"

text \<open>The entry for a beginning \<open>c\<close>: a node, the symbol of a code word, or still 0.\<close>

definition slot_val :: "nat list \<Rightarrow> nat \<Rightarrow> (nat \<times> nat) list \<Rightarrow> nat \<times> nat \<Rightarrow> int \<Rightarrow> bool" where
  "slot_val cs k ns c x \<longleftrightarrow> node_val ns c x \<and> (c \<notin> set ns \<longrightarrow>
     (\<forall>s < k. 10 < cs ! s \<longrightarrow> (cs ! s, word_of cs s) = c \<longrightarrow> x = int s)
     \<and> ((\<forall>s < k. 10 < cs ! s \<longrightarrow> (cs ! s, word_of cs s) \<noteq> c) \<longrightarrow> x = 0))"

definition first_entry :: "nat list \<Rightarrow> nat \<Rightarrow> (nat \<times> nat) list \<Rightarrow> nat \<Rightarrow> int \<Rightarrow> bool" where
  "first_entry cs k ns i x \<longleftrightarrow> node_val ns (10, i) x \<and> ((10, i) \<notin> set ns \<longrightarrow>
     (\<forall>s < k. 0 < cs ! s \<longrightarrow> cs ! s \<le> 10 \<longrightarrow> word_bits cs s i \<longrightarrow> x = int (push_bit 9 (cs ! s) OR s))
     \<and> ((\<forall>s < k. 0 < cs ! s \<longrightarrow> cs ! s \<le> 10 \<longrightarrow> \<not> word_bits cs s i) \<longrightarrow> x = 0))"

definition nodes_ok :: "nat list \<Rightarrow> (nat \<times> nat) list \<Rightarrow> bool" where
  "nodes_ok cs ns \<longleftrightarrow> distinct ns \<and> set ns \<subseteq> inner cs
     \<and> (\<forall>m v. (Suc m, v) \<in> set ns \<longrightarrow> 10 \<le> m \<longrightarrow> (m, v mod 2 ^ m) \<in> set ns)"

text \<open>\<open>k\<close>: the symbols below it are in the tables.\<close>

definition tree_inv :: "nat list \<Rightarrow> nat \<Rightarrow> (nat \<times> nat) list \<Rightarrow> int list \<Rightarrow> int list \<Rightarrow> bool" where
  "tree_inv cs k ns lu tree \<longleftrightarrow> length lu = 1024 \<and> length tree = 576 \<and> nodes_ok cs ns
     \<and> (\<forall>s < k. \<forall>m. 10 \<le> m \<longrightarrow> m < cs ! s \<longrightarrow> (m, word_of cs s mod 2 ^ m) \<in> set ns)
     \<and> (\<forall>i < 1024. first_entry cs k ns i (lu ! i))
     \<and> (\<forall>q m v b. q < length ns \<longrightarrow> ns ! q = (m, v) \<longrightarrow> b < 2 \<longrightarrow>
          slot_val cs k ns (Suc m, v + b * 2 ^ m) (tree ! (2 * q + b)))
     \<and> (\<forall>j. 2 * length ns \<le> j \<longrightarrow> j < 576 \<longrightarrow> tree ! j = 0)"

lemma nodes_bound:
  assumes "complete_code cs" "length cs \<le> 288" "nodes_ok cs ns"
  shows "length ns \<le> 288"
    and "x \<in> inner cs \<Longrightarrow> x \<notin> set ns \<Longrightarrow> length ns < 288"
proof -
  have 1: "length ns = card (set ns)" using assms(3) by (simp add: nodes_ok_def distinct_card)
  have "card (set ns) \<le> card (inner cs)" using assms(3) card_inner(1) [OF assms(1)] by (simp add: nodes_ok_def card_mono)
  then show "length ns \<le> 288" using 1 card_inner(2) [OF assms(1)] assms(2) by linarith
  assume x: "x \<in> inner cs" "x \<notin> set ns"
  then have "set ns \<subset> inner cs" using assms(3) by (auto simp: nodes_ok_def)
  then have "card (set ns) < card (inner cs)" by (rule psubset_card_mono [OF card_inner(1) [OF assms(1)]])
  then show "length ns < 288" using 1 card_inner(2) [OF assms(1)] assms(2) by linarith
qed

lemma node_val_in: "node_val ns c x \<Longrightarrow> c \<in> set ns \<Longrightarrow> \<exists>q < length ns. ns ! q = c \<and> x = - 2 * int q - 1"
  by (auto simp: node_val_def in_set_conv_nth)

lemma node_val_notin: "c \<notin> set ns \<Longrightarrow> node_val ns c x"
  using nth_mem by (fastforce simp: node_val_def)

lemma node_val_append:
  "node_val (ns @ [c']) c x \<longleftrightarrow> node_val ns c x \<and> (c' = c \<longrightarrow> x = - 2 * int (length ns) - 1)"
  by (auto simp: node_val_def nth_append less_Suc_eq)

lemma inner_bound: "(m, v) \<in> inner cs \<Longrightarrow> 10 \<le> m \<and> v < 2 ^ m"
  by (auto simp: inner_def)

text \<open>A beginning has one parent and one last bit.\<close>

lemma child_unique:
  assumes "v + b * 2 ^ m = v' + b' * 2 ^ m" "v < 2 ^ m" "v' < 2 ^ m"
  shows "v = v' \<and> b = (b' :: nat)"
proof -
  have "(v + b * 2 ^ m) mod 2 ^ m = v" "(v' + b' * 2 ^ m) mod 2 ^ m = v'" using assms(2,3) by simp_all
  moreover have "(v + b * 2 ^ m) div 2 ^ m = b" "(v' + b' * 2 ^ m) div 2 ^ m = b'" using assms(2,3) by simp_all
  ultimately show ?thesis using assms(1) by metis
qed

text \<open>Making a node: the place it is entered is the one of its beginning.\<close>

lemma nodes_ok_append:
  assumes "nodes_ok cs ns" "(m, v) \<in> inner cs" "(m, v) \<notin> set ns" "m = 10 \<or> (m - 1, v mod 2 ^ (m - 1)) \<in> set ns"
  shows "nodes_ok cs (ns @ [(m, v)])"
  using assms by (auto simp: nodes_ok_def)

lemma new_children:
  assumes "complete_code cs" "nodes_ok cs ns" "(m, v) \<in> inner cs" "(m, v) \<notin> set ns" "b < 2" "k \<le> length cs"
    and "\<forall>s < k. \<forall>m. 10 \<le> m \<longrightarrow> m < cs ! s \<longrightarrow> (m, word_of cs s mod 2 ^ m) \<in> set ns"
  shows "slot_val cs k (ns @ [(m, v)]) (Suc m, v + b * 2 ^ m) 0"
proof -
  have m: "10 \<le> m" "v < 2 ^ m" using inner_bound [OF assms(3)] by simp_all
  then have mod: "(v + b * 2 ^ m) mod 2 ^ m = v" by simp
  have "(Suc m, v + b * 2 ^ m) \<notin> set ns"
  proof
    assume "(Suc m, v + b * 2 ^ m) \<in> set ns"
    then have "(m, (v + b * 2 ^ m) mod 2 ^ m) \<in> set ns" using assms(2) m(1) unfolding nodes_ok_def by blast
    then show False using assms(4) mod by simp
  qed
  moreover have "(cs ! s, word_of cs s) \<noteq> (Suc m, v + b * 2 ^ m)" if "s < k" for s
  proof
    assume e: "(cs ! s, word_of cs s) = (Suc m, v + b * 2 ^ m)"
    then have "(m, word_of cs s mod 2 ^ m) \<in> set ns" using assms(7) [rule_format, OF that m(1)] by simp
    moreover have "word_of cs s mod 2 ^ m = v" using e mod by simp
    ultimately show False using assms(4) by simp
  qed
  ultimately show ?thesis by (auto simp: slot_val_def node_val_def in_set_conv_nth nth_append less_Suc_eq)
qed

lemma tree_inv_alloc:
  assumes cs: "complete_code cs" "length cs \<le> 288" "k \<le> length cs"
    and inv: "tree_inv cs k ns lu tree" and q: "q < length ns" "ns ! q = (m, v)" "b < 2"
    and c: "(Suc m, v + b * 2 ^ m) \<in> inner cs" "(Suc m, v + b * 2 ^ m) \<notin> set ns"
  shows "tree_inv cs k (ns @ [(Suc m, v + b * 2 ^ m)]) lu (tree[2 * q + b := - 2 * int (length ns) - 1])"
proof -
  let ?c = "(Suc m, v + b * 2 ^ m)"
  let ?ns = "ns @ [?c]" and ?tree = "tree[2 * q + b := - 2 * int (length ns) - 1]"
  have ok: "nodes_ok cs ns" and len: "length lu = 1024" "length tree = 576"
    and path: "\<forall>s < k. \<forall>m. 10 \<le> m \<longrightarrow> m < cs ! s \<longrightarrow> (m, word_of cs s mod 2 ^ m) \<in> set ns"
    and slot: "\<And>q m v b. q < length ns \<Longrightarrow> ns ! q = (m, v) \<Longrightarrow> b < 2 \<Longrightarrow>
          slot_val cs k ns (Suc m, v + b * 2 ^ m) (tree ! (2 * q + b))"
    and zero: "\<And>j. 2 * length ns \<le> j \<Longrightarrow> j < 576 \<Longrightarrow> tree ! j = 0"
    using inv by (auto simp: tree_inv_def)
  have mv: "(m, v) \<in> set ns" using q(1,2) by (metis nth_mem)
  then have m: "10 \<le> m" "v < 2 ^ m" using ok inner_bound [of m v cs] by (auto simp: nodes_ok_def)
  have n: "length ns < 288" using nodes_bound(2) [OF cs(1,2) ok c] .
  have ok': "nodes_ok cs ?ns" using nodes_ok_append [OF ok c] mv m(2) by simp
  have first: "first_entry cs k ?ns i (lu ! i)" if "i < 1024" for i
    using inv that m(1) by (auto simp: tree_inv_def first_entry_def node_val_append)
  have slot': "slot_val cs k ?ns (Suc m', v' + b' * 2 ^ m') (?tree ! (2 * q' + b'))"
    if q': "q' < length ?ns" "?ns ! q' = (m', v')" "b' < 2" for q' m' v' b'
  proof (cases "q' = length ns")
    case True
    then have "(m', v') = ?c" using q'(2) by simp
    moreover have "?tree ! (2 * q' + b') = 0" using True q(1,3) q'(3) n zero [of "2 * q' + b'"] by (simp add: nth_list_update)
    ultimately show ?thesis using new_children [OF cs(1) ok c q'(3) cs(3) path] by auto
  next
    case False
    then have l: "q' < length ns" "ns ! q' = (m', v')" using q'(1,2) by (auto simp: nth_append)
    note sv = slot [OF l q'(3)]
    have "(m', v') \<in> set ns" using l by (metis nth_mem)
    then have v': "v' < 2 ^ m'" using ok inner_bound [of m' v' cs] by (auto simp: nodes_ok_def)
    show ?thesis
    proof (cases "2 * q' + b' = 2 * q + b")
      case True
      then have "q' = q" "b' = b" using q(3) q'(3) by presburger+
      then have "(m', v') = (m, v)" using l q(2) by simp
      then show ?thesis using \<open>b' = b\<close> \<open>q' = q\<close> q(1,3) n len(2) node_val_notin [OF c(2)]
        by (simp add: slot_val_def node_val_append)
    next
      case ne: False
      have "(Suc m', v' + b' * 2 ^ m') \<noteq> ?c"
      proof
        assume e: "(Suc m', v' + b' * 2 ^ m') = ?c"
        then have "m' = m" "v' = v \<and> b' = b" using child_unique [of v' b' m v b] v' m(2) by auto
        then have "ns ! q' = ns ! q" using l q(2) by simp
        then have "q' = q" using ok l(1) q(1) by (simp add: nodes_ok_def nth_eq_iff_index_eq)
        then show False using ne \<open>v' = v \<and> b' = b\<close> by simp
      qed
      then show ?thesis using sv ne by (auto simp: slot_val_def node_val_append)
    qed
  qed
  have "\<forall>j. 2 * length ?ns \<le> j \<longrightarrow> j < 576 \<longrightarrow> ?tree ! j = 0" using zero q(1,3) by (auto simp: nth_list_update)
  then show ?thesis unfolding tree_inv_def using len ok' path first slot' by auto
qed

lemma tree_inv_alloc_first:
  assumes cs: "complete_code cs" "length cs \<le> 288" "k \<le> length cs"
    and inv: "tree_inv cs k ns lu tree" and c: "(10, j) \<in> inner cs" "(10, j) \<notin> set ns"
  shows "tree_inv cs k (ns @ [(10, j)]) (lu[j := - 2 * int (length ns) - 1]) tree"
proof -
  let ?ns = "ns @ [(10, j)]" and ?lu = "lu[j := - 2 * int (length ns) - 1]"
  have ok: "nodes_ok cs ns" and len: "length lu = 1024" "length tree = 576"
    and path: "\<forall>s < k. \<forall>m. 10 \<le> m \<longrightarrow> m < cs ! s \<longrightarrow> (m, word_of cs s mod 2 ^ m) \<in> set ns"
    and slot: "\<And>q m v b. q < length ns \<Longrightarrow> ns ! q = (m, v) \<Longrightarrow> b < 2 \<Longrightarrow>
          slot_val cs k ns (Suc m, v + b * 2 ^ m) (tree ! (2 * q + b))"
    and zero: "\<And>j. 2 * length ns \<le> j \<Longrightarrow> j < 576 \<Longrightarrow> tree ! j = 0"
    and first: "\<And>i. i < 1024 \<Longrightarrow> first_entry cs k ns i (lu ! i)"
    using inv by (auto simp: tree_inv_def)
  have n: "length ns < 288" using nodes_bound(2) [OF cs(1,2) ok c] .
  have j: "j < 1024" using inner_bound [OF c(1)] by simp
  have ok': "nodes_ok cs ?ns" using nodes_ok_append [OF ok c] by simp
  have first': "first_entry cs k ?ns i (?lu ! i)" if "i < 1024" for i
  proof (cases "i = j")
    case True
    then show ?thesis using len(1) j node_val_notin [OF c(2)] by (simp add: first_entry_def node_val_append)
  qed (use first [OF that] in \<open>auto simp: first_entry_def node_val_append\<close>)
  have slot': "slot_val cs k ?ns (Suc m', v' + b' * 2 ^ m') (tree ! (2 * q' + b'))"
    if q': "q' < length ?ns" "?ns ! q' = (m', v')" "b' < 2" for q' m' v' b'
  proof (cases "q' = length ns")
    case True
    then have "(m', v') = (10, j)" using q'(2) by simp
    moreover have "tree ! (2 * q' + b') = 0" using True q'(3) n zero [of "2 * q' + b'"] by simp
    ultimately show ?thesis using new_children [OF cs(1) ok c q'(3) cs(3) path] by auto
  next
    case False
    then have l: "q' < length ns" "ns ! q' = (m', v')" using q'(1,2) by (auto simp: nth_append)
    have "(m', v') \<in> set ns" using l by (metis nth_mem)
    then have "10 \<le> m'" using ok inner_bound [of m' v' cs] by (auto simp: nodes_ok_def)
    then show ?thesis using slot [OF l q'(3)] by (auto simp: slot_val_def node_val_append)
  qed
  have "\<forall>j. 2 * length ?ns \<le> j \<longrightarrow> j < 576 \<longrightarrow> tree ! j = 0" using zero by auto
  then show ?thesis unfolding tree_inv_def using len ok' path first' slot' by auto
qed

text \<open>A node is found, or it is still to be made.\<close>

lemma slot_node:
  assumes "complete_code cs" "slot_val cs k ns c x" "c \<in> inner cs" "k \<le> length cs" "fst c \<noteq> 0"
  shows "if c \<in> set ns then \<exists>q < length ns. ns ! q = c \<and> x = - 2 * int q - 1 else x = 0"
proof (cases "c \<in> set ns")
  case True
  then show ?thesis using node_val_in [of ns c x] assms(2) by (auto simp: slot_val_def)
next
  case False
  obtain m v where c: "c = (m, v)" by (cases c)
  have "(cs ! s, word_of cs s) \<noteq> c" if "s < k" for s
  proof
    assume e: "(cs ! s, word_of cs s) = c"
    then have "v mod 2 ^ (cs ! s) = word_of cs s" using word_of_less [of cs s] c by auto
    then show False using inner_not_word [OF assms(1) assms(3) [unfolded c], of s] e c that assms(4,5) by auto
  qed
  then show ?thesis using False assms(2) by (auto simp: slot_val_def)
qed

lemma at_int_nat: "at_int a (int n) = at a n"
  by (simp add: at_int_def)

lemma put_int_nat: "put_int a (int n) x = put a n x"
  by (simp add: put_int_def)

lemma next_bit:
  fixes r :: nat
  shows "r mod 2 ^ Suc m = r mod 2 ^ m + (r div 2 ^ m mod 2) * 2 ^ m"
  by (simp only: power_Suc2 mod_mult2_eq) simp

text \<open>The levels of a long code word \<open>k\<close> between the tenth bit and the last but one.\<close>

lemma grow_tree_inv:
  assumes cs: "complete_code cs" "length cs \<le> 288" "k < length cs" and l: "10 \<le> m" "m < cs ! k"
    and inv: "tree_inv cs k ns lu tree" and q: "q < length ns" "ns ! q = (m, word_of cs k mod 2 ^ m)"
    and r: "r div 2 = word_of cs k div 2 ^ m"
    and path: "\<forall>m'. 10 \<le> m' \<longrightarrow> m' \<le> m \<longrightarrow> (m', word_of cs k mod 2 ^ m') \<in> set ns"
  shows "\<exists>ns' tree' q' r'. grow_tree (cs ! k - Suc m) r tree (- 2 * int q - 1) (- 2 * int (length ns) - 1)
      = Some (r', tree', - 2 * int q' - 1, - 2 * int (length ns') - 1)
    \<and> tree_inv cs k ns' lu tree' \<and> q' < length ns' \<and> ns' ! q' = (cs ! k - 1, word_of cs k mod 2 ^ (cs ! k - 1))
    \<and> r' div 2 = word_of cs k div 2 ^ (cs ! k - 1)
    \<and> (\<forall>m'. 10 \<le> m' \<longrightarrow> m' < cs ! k \<longrightarrow> (m', word_of cs k mod 2 ^ m') \<in> set ns')"
  using l inv q r path
proof (induction "cs ! k - Suc m" arbitrary: m ns tree q r)
  case 0
  then have "cs ! k = Suc m" by simp
  then show ?case using 0 by (intro exI [of _ ns] exI [of _ tree] exI [of _ q] exI [of _ r]) (auto simp: less_Suc_eq_le)
next
  case (Suc n)
  let ?w = "word_of cs k"
  let ?b = "r div 2 mod 2" and ?v = "?w mod 2 ^ m"
  let ?c = "(Suc m, ?v + ?b * 2 ^ m)"
  have c: "?c = (Suc m, ?w mod 2 ^ Suc m)" using next_bit [of ?w m] Suc.prems(6) by simp
  have m: "Suc m < cs ! k" using Suc.hyps(2) by simp
  have ci: "?c \<in> inner cs" unfolding c inner_def using cs(3) m Suc.prems(1) by auto
  have qn: "q < 288" using nodes_bound(1) [OF cs(1,2)] Suc.prems(3,4) by (fastforce simp: tree_inv_def)
  have len: "length tree = 576" using Suc.prems(3) by (simp add: tree_inv_def)
  have sv: "slot_val cs k ns ?c (tree ! (2 * q + ?b))"
    using Suc.prems(3,4,5) by (simp add: tree_inv_def)
  have i: "- (- 2 * int q - 1 - int ?b) - 1 = int (2 * q + ?b)" by simp
  have at: "at_int tree (- (- 2 * int q - 1 - int ?b) - 1) = Some (tree ! (2 * q + ?b))"
    unfolding i at_int_nat using qn len by (simp add: at_def)
  have r2: "r div 2 div 2 = ?w div 2 ^ Suc m" using Suc.prems(6) by (simp add: div_mult2_eq power_Suc2 del: power_Suc)
  have k: "cs ! k - Suc m = Suc (cs ! k - Suc (Suc m))" "n = cs ! k - Suc (Suc m)" using m Suc.hyps(2) by simp_all
  note sn = slot_node [OF cs(1) sv ci less_imp_le [OF cs(3)]]
  show ?case
  proof (cases "?c \<in> set ns")
    case True
    then obtain q1 where q1: "q1 < length ns" "ns ! q1 = ?c" "tree ! (2 * q + ?b) = - 2 * int q1 - 1" using sn by auto
    have "grow_tree (cs ! k - Suc m) r tree (- 2 * int q - 1) (- 2 * int (length ns) - 1)
        = grow_tree (cs ! k - Suc (Suc m)) (r div 2) tree (- 2 * int q1 - 1) (- 2 * int (length ns) - 1)"
      unfolding k(1) grow_tree.simps Let_def at using q1(3) by simp
    moreover have "\<forall>m'. 10 \<le> m' \<longrightarrow> m' \<le> Suc m \<longrightarrow> (m', ?w mod 2 ^ m') \<in> set ns"
      using Suc.prems(7) True c by (auto simp: le_Suc_eq)
    ultimately show ?thesis
      using Suc.hyps(1) [OF k(2) _ m Suc.prems(3) q1(1) q1(2) [unfolded c] r2] Suc.prems(1) by simp
  next
    case False
    then have x: "tree ! (2 * q + ?b) = 0" using sn by simp
    let ?ns = "ns @ [?c]" and ?tn = "- 2 * int (length ns) - 1"
    let ?tree = "tree[2 * q + ?b := ?tn]"
    have inv': "tree_inv cs k ?ns lu ?tree"
      using tree_inv_alloc [OF cs(1,2) less_imp_le [OF cs(3)] Suc.prems(3,4,5) _ ci False] by simp
    have p: "put_int tree (- (- 2 * int q - 1 - int ?b) - 1) ?tn = Some ?tree"
      unfolding i put_int_nat using qn len by (simp add: put_def)
    have "grow_tree (cs ! k - Suc m) r tree (- 2 * int q - 1) ?tn
        = grow_tree (cs ! k - Suc (Suc m)) (r div 2) ?tree (- 2 * int (length ns) - 1) (- 2 * int (length ?ns) - 1)"
      unfolding k(1) grow_tree.simps Let_def at using x p by simp
    moreover have "\<forall>m'. 10 \<le> m' \<longrightarrow> m' \<le> Suc m \<longrightarrow> (m', ?w mod 2 ^ m') \<in> set ?ns"
      using Suc.prems(7) c by (auto simp: le_Suc_eq)
    moreover have "?ns ! length ns = (Suc m, ?w mod 2 ^ Suc m)" using c by simp
    ultimately show ?thesis
      using Suc.hyps(1) [OF k(2) _ m inv' _ _ r2, of "length ns"] Suc.prems(1) by simp
  qed
qed

text \<open>The last bit: the symbol is entered.\<close>

lemma tree_inv_leaf:
  assumes cs: "complete_code cs" "length cs \<le> 288" "k < length cs" and l: "10 < cs ! k"
    and inv: "tree_inv cs k ns lu tree" and q: "q < length ns" "ns ! q = (m, v)" "b < 2"
    and w: "cs ! k = Suc m" "word_of cs k = v + b * 2 ^ m"
    and path: "\<forall>m'. 10 \<le> m' \<longrightarrow> m' < cs ! k \<longrightarrow> (m', word_of cs k mod 2 ^ m') \<in> set ns"
  shows "tree_inv cs (Suc k) ns lu (tree[2 * q + b := int k])"
proof -
  let ?tree = "tree[2 * q + b := int k]" and ?c = "(Suc m, v + b * 2 ^ m)"
  have ok: "nodes_ok cs ns" and len: "length lu = 1024" "length tree = 576"
    and slot: "\<And>q m v b. q < length ns \<Longrightarrow> ns ! q = (m, v) \<Longrightarrow> b < 2 \<Longrightarrow>
          slot_val cs k ns (Suc m, v + b * 2 ^ m) (tree ! (2 * q + b))"
    and zero: "\<And>j. 2 * length ns \<le> j \<Longrightarrow> j < 576 \<Longrightarrow> tree ! j = 0"
    and first: "\<And>i. i < 1024 \<Longrightarrow> first_entry cs k ns i (lu ! i)"
    using inv by (auto simp: tree_inv_def)
  have mv: "v < 2 ^ m" using ok inner_bound [of m v cs] q(1,2) nth_mem [OF q(1)] by (auto simp: nodes_ok_def)
  have "?c \<notin> inner cs"
  proof
    assume "?c \<in> inner cs"
    moreover have "(v + b * 2 ^ m) mod 2 ^ (cs ! k) = word_of cs k" using word_of_less [of cs k] w by simp
    ultimately show False using inner_not_word [OF cs(1) _ cs(3), of "Suc m" "v + b * 2 ^ m"] w(1) by simp
  qed
  then have c: "?c \<notin> set ns" using ok by (auto simp: nodes_ok_def)
  have n: "length ns \<le> 288" by (rule nodes_bound(1) [OF cs(1,2) ok])
  have path': "\<forall>s < Suc k. \<forall>m. 10 \<le> m \<longrightarrow> m < cs ! s \<longrightarrow> (m, word_of cs s mod 2 ^ m) \<in> set ns"
    using inv path by (auto simp: tree_inv_def less_Suc_eq)
  have first': "first_entry cs (Suc k) ns i (lu ! i)" if "i < 1024" for i
    using first [OF that] l by (auto simp: first_entry_def less_Suc_eq)
  have slot': "slot_val cs (Suc k) ns (Suc m', v' + b' * 2 ^ m') (?tree ! (2 * q' + b'))"
    if q': "q' < length ns" "ns ! q' = (m', v')" "b' < 2" for q' m' v' b'
  proof (cases "2 * q' + b' = 2 * q + b")
    case True
    then have "q' = q" "b' = b" using q(3) q'(3) by presburger+
    then have e: "m' = m" "v' = v" using q(2) q'(2) by simp_all
    have "s = k" if "s < Suc k" "(cs ! s, word_of cs s) = ?c" for s
      using word_of_prefix_free [OF cs(1) _ cs(3), of s] that cs(3) w word_of_less [of cs k] by auto
    then show ?thesis using e \<open>q' = q\<close> \<open>b' = b\<close> q(1,3) n len(2) node_val_notin [OF c] c l w
      by (auto simp: slot_val_def less_Suc_eq)
  next
    case ne: False
    have "(m', v') \<in> set ns" using q'(1,2) by (metis nth_mem)
    then have v': "v' < 2 ^ m'" using ok inner_bound [of m' v' cs] by (auto simp: nodes_ok_def)
    have "(Suc m', v' + b' * 2 ^ m') \<noteq> ?c"
    proof
      assume e: "(Suc m', v' + b' * 2 ^ m') = ?c"
      then have "m' = m" "v' = v \<and> b' = b" using child_unique [of v' b' m v b] v' mv by auto
      then have "ns ! q' = ns ! q" using q(2) q'(2) by simp
      then have "q' = q" using ok q(1) q'(1) by (simp add: nodes_ok_def nth_eq_iff_index_eq)
      then show False using ne \<open>v' = v \<and> b' = b\<close> by simp
    qed
    then show ?thesis using slot [OF q'] ne w by (auto simp: slot_val_def less_Suc_eq)
  qed
  have "\<forall>j. 2 * length ns \<le> j \<longrightarrow> j < 576 \<longrightarrow> ?tree ! j = 0" using zero q(1,3) by (auto simp: nth_list_update)
  then show ?thesis unfolding tree_inv_def using len ok path' first' slot' by auto
qed

text \<open>A short code word changes the first table alone.\<close>

lemma tree_inv_short:
  assumes cs: "complete_code cs" "k < length cs" and l: "0 < cs ! k" "cs ! k \<le> 10"
    and inv: "tree_inv cs k ns lu tree" and lu: "length lu' = 1024"
      "\<forall>i < 1024. lu' ! i = (if word_bits cs k i then int (push_bit 9 (cs ! k) OR k) else lu ! i)"
  shows "tree_inv cs (Suc k) ns lu' tree"
proof -
  have ok: "nodes_ok cs ns" and len: "length tree = 576"
    and path: "\<forall>s < k. \<forall>m. 10 \<le> m \<longrightarrow> m < cs ! s \<longrightarrow> (m, word_of cs s mod 2 ^ m) \<in> set ns"
    and slot: "\<And>q m v b. q < length ns \<Longrightarrow> ns ! q = (m, v) \<Longrightarrow> b < 2 \<Longrightarrow>
          slot_val cs k ns (Suc m, v + b * 2 ^ m) (tree ! (2 * q + b))"
    and zero: "\<forall>j. 2 * length ns \<le> j \<longrightarrow> j < 576 \<longrightarrow> tree ! j = 0"
    and first: "\<And>i. i < 1024 \<Longrightarrow> first_entry cs k ns i (lu ! i)"
    using inv by (auto simp: tree_inv_def)
  have first': "first_entry cs (Suc k) ns i (lu' ! i)" if i: "i < 1024" for i
  proof (cases "word_bits cs k i")
    case True
    then have c: "(10, i) \<notin> set ns" using inner_not_short [OF cs(1) _ cs(2) l] ok by (auto simp: nodes_ok_def)
    have "s = k" if "s < Suc k" "0 < cs ! s" "word_bits cs s i" for s
      using word_bits_unique [OF cs(1) _ cs(2) that(2) l(1) that(3) True] that(1) cs(2) by simp
    then show ?thesis using True i lu(2) node_val_notin [OF c] l by (auto simp: first_entry_def)
  next
    case False
    then show ?thesis using first [OF i] i lu(2) by (auto simp: first_entry_def less_Suc_eq)
  qed
  have "\<forall>s < Suc k. \<forall>m. 10 \<le> m \<longrightarrow> m < cs ! s \<longrightarrow> (m, word_of cs s mod 2 ^ m) \<in> set ns"
    using path l by (auto simp: less_Suc_eq)
  moreover have "slot_val cs (Suc k) ns (Suc m, v + b * 2 ^ m) (tree ! (2 * q + b))"
    if "q < length ns" "ns ! q = (m, v)" "b < 2" for q m v b
    using slot [OF that] l by (auto simp: slot_val_def less_Suc_eq)
  ultimately show ?thesis unfolding tree_inv_def using lu(1) len ok first' zero by auto
qed

lemma tree_inv_none:
  assumes "cs ! k = 0" "tree_inv cs k ns lu tree"
  shows "tree_inv cs (Suc k) ns lu tree"
proof -
  have "slot_val cs (Suc k) ns c x = slot_val cs k ns c x" "first_entry cs (Suc k) ns i x = first_entry cs k ns i x" for c i x
    using assms(1) by (auto simp: slot_val_def first_entry_def less_Suc_eq)
  then show ?thesis using assms by (auto simp: tree_inv_def less_Suc_eq)
qed

subsection \<open>The table of a complete code\<close>

definition table_tree :: "nat list \<Rightarrow> nat \<Rightarrow> nat list \<times> int list \<times> int list \<times> int \<Rightarrow> bool" where
  "table_tree cs k st \<longleftrightarrow> table_upto cs k st \<and> (case st of (nx, lu, tree, tn) \<Rightarrow>
     \<exists>ns. tree_inv cs k ns lu tree \<and> tn = - 2 * int (length ns) - 1)"

lemma table_tree_short:
  assumes "table_tree cs k st" "complete_code cs" "length cs \<le> 288" "k < length cs" "0 < cs ! k" "cs ! k \<le> 10"
  shows "\<exists>st'. add_symbol k (cs ! k) st = Some st' \<and> table_tree cs (Suc k) st'"
proof -
  obtain nx lu tree tn where st: "st = (nx, lu, tree, tn)" by (cases st) auto
  from assms(1) obtain ns where t: "table_upto cs k (nx, lu, tree, tn)" "tree_inv cs k ns lu tree" "tn = - 2 * int (length ns) - 1"
    by (auto simp: table_tree_def st)
  from add_symbol_short [OF t(1) assms(4,2) _ assms(5,6)] assms(3) obtain lu' where
    lu': "add_symbol k (cs ! k) (nx, lu, tree, tn) = Some (nx[cs ! k := code cs k + 1], lu', tree, tn)"
      "table_upto cs (Suc k) (nx[cs ! k := code cs k + 1], lu', tree, tn)"
      "\<forall>i < 1024. lu' ! i = (if word_bits cs k i then int (push_bit 9 (cs ! k) OR k) else lu ! i)" by auto
  have "tree_inv cs (Suc k) ns lu' tree"
    using tree_inv_short [OF assms(2,4,5,6) t(2) _ lu'(3)] lu'(2) by (simp add: table_upto_def)
  then have "table_tree cs (Suc k) (nx[cs ! k := code cs k + 1], lu', tree, tn)"
    using lu'(2) t(3) by (auto simp: table_tree_def)
  then show ?thesis using lu'(1) st by blast
qed

text \<open>The entry of the first table for a long code word: its node, made when it is missing.\<close>

lemma first_node:
  assumes cs: "complete_code cs" "length cs \<le> 288" "k < length cs" "10 < cs ! k" and inv: "tree_inv cs k ns lu tree"
  shows "\<exists>q ns'. (let t = lu ! (word_of cs k mod 1024) in
      q < length ns' \<and> ns' ! q = (10, word_of cs k mod 1024)
      \<and> (if t = 0 then - 2 * int (length ns) - 1 else t) = - 2 * int q - 1
      \<and> (if t = 0 then (- 2 * int (length ns) - 1) - 2 else - 2 * int (length ns) - 1) = - 2 * int (length ns') - 1
      \<and> tree_inv cs k ns' (if t = 0 then lu[word_of cs k mod 1024 := - 2 * int (length ns) - 1] else lu) tree)"
proof -
  let ?j = "word_of cs k mod 1024"
  have c: "(10, ?j) \<in> inner cs" unfolding inner_def using cs(3,4) by (auto intro!: exI [of _ k])
  have fe: "first_entry cs k ns ?j (lu ! ?j)" using inv by (simp add: tree_inv_def)
  show ?thesis
  proof (cases "(10, ?j) \<in> set ns")
    case True
    then obtain q where "q < length ns" "ns ! q = (10, ?j)" "lu ! ?j = - 2 * int q - 1"
      using node_val_in [of ns "(10, ?j)" "lu ! ?j"] fe by (auto simp: first_entry_def)
    then show ?thesis using inv by (intro exI [of _ q] exI [of _ ns]) (simp add: Let_def)
  next
    case False
    have "\<not> word_bits cs s ?j" if "s < k" "0 < cs ! s" "cs ! s \<le> 10" for s
      using inner_not_short [OF cs(1) c _ that(2,3)] that(1) cs(3) by simp
    then have "lu ! ?j = 0" using fe False by (auto simp: first_entry_def)
    then show ?thesis using tree_inv_alloc_first [OF cs(1,2) less_imp_le [OF cs(3)] inv c False]
      by (intro exI [of _ "length ns"] exI [of _ "ns @ [(10, ?j)]"]) (simp add: Let_def)
  qed
qed

lemma table_tree_long:
  assumes "table_tree cs k st" "complete_code cs" "length cs \<le> 288" "k < length cs" "10 < cs ! k"
  shows "\<exists>st'. add_symbol k (cs ! k) st = Some st' \<and> table_tree cs (Suc k) st'"
proof -
  obtain nx lu tree tn where st: "st = (nx, lu, tree, tn)" by (cases st) auto
  from assms(1) obtain ns where t: "table_upto cs k (nx, lu, tree, tn)" "tree_inv cs k ns lu tree" "tn = - 2 * int (length ns) - 1"
    by (auto simp: table_tree_def st)
  let ?w = "word_of cs k" and ?l = "cs ! k"
  let ?j = "?w mod 1024"
  have l0: "0 < ?l" using assms(5) by simp
  note nx = table_upto_next [OF t(1) assms(4,2) l0]
  have len: "length lu = 1024" "length tree = 576" using t(2) by (simp_all add: tree_inv_def)
  obtain q ns1 where q: "q < length ns1" "ns1 ! q = (10, ?w mod 2 ^ 10)"
    "(if lu ! ?j = 0 then tn else lu ! ?j) = - 2 * int q - 1"
    "(if lu ! ?j = 0 then tn - 2 else tn) = - 2 * int (length ns1) - 1"
    and inv1: "tree_inv cs k ns1 (if lu ! ?j = 0 then lu[?j := tn] else lu) tree"
    using first_node [OF assms(2,3,4,5) t(2)] unfolding t(3) Let_def by auto
  let ?lu = "if lu ! ?j = 0 then lu[?j := tn] else lu"
  have r: "?w div 512 div 2 = ?w div 2 ^ 10" by (simp add: div_mult2_eq [symmetric])
  have p0: "\<forall>m'. 10 \<le> m' \<longrightarrow> m' \<le> 10 \<longrightarrow> (m', ?w mod 2 ^ m') \<in> set ns1"
    using q(1,2) by (metis le_antisym nth_mem)
  obtain ns2 tree' q' r' where g: "grow_tree (?l - 11) (?w div 512) tree (- 2 * int q - 1) (- 2 * int (length ns1) - 1)
      = Some (r', tree', - 2 * int q' - 1, - 2 * int (length ns2) - 1)"
    and inv2: "tree_inv cs k ns2 ?lu tree'" and q': "q' < length ns2" "ns2 ! q' = (?l - 1, ?w mod 2 ^ (?l - 1))"
    and r': "r' div 2 = ?w div 2 ^ (?l - 1)"
    and path: "\<forall>m'. 10 \<le> m' \<longrightarrow> m' < ?l \<longrightarrow> (m', ?w mod 2 ^ m') \<in> set ns2"
    using grow_tree_inv [OF assms(2,3,4) _ assms(5) inv1 q(1,2) r p0] by auto
  let ?b = "r' div 2 mod 2"
  have l: "?l = Suc (?l - 1)" using assms(5) by simp
  have w: "?w = ?w mod 2 ^ (?l - 1) + ?b * 2 ^ (?l - 1)"
    using next_bit [of ?w "?l - 1"] word_of_less [of cs k] r' l by (metis mod_less)
  have inv3: "tree_inv cs (Suc k) ns2 ?lu (tree'[2 * q' + ?b := int k])"
    using tree_inv_leaf [OF assms(2,3,4,5) inv2 q' _ l w path] by simp
  have q'n: "q' < 288" "length tree' = 576"
    using nodes_bound(1) [OF assms(2,3), of ns2] inv2 q'(1) by (auto simp: tree_inv_def)
  have i: "- (- 2 * int q' - 1 - int ?b) - 1 = int (2 * q' + ?b)" by simp
  have p: "put_int tree' (- (- 2 * int q' - 1 - int ?b) - 1) (int k) = Some (tree'[2 * q' + ?b := int k])"
    unfolding i put_int_nat using q'n by (simp add: put_def)
  have pn: "put nx ?l (code cs k + 1) = Some (nx[?l := code cs k + 1])"
    using nx(1) by (auto simp: put_def at_def split: if_splits)
  have pl: "put lu ?j tn = Some (lu[?j := tn])" using len by (simp add: put_def)
  have al: "at lu ?j = Some (lu ! ?j)" using len by simp
  have st': "add_symbol k ?l st = Some (nx[?l := code cs k + 1], ?lu, tree'[2 * q' + ?b := int k], - 2 * int (length ns2) - 1)"
    using nx(1) pn al pl q(3,4) g p assms(5)
    by (simp add: st add_symbol_def Let_def word_of_def [symmetric] del: of_nat_add)
  have "table_upto cs (Suc k) (nx[?l := code cs k + 1], ?lu, tree'[2 * q' + ?b := int k], - 2 * int (length ns2) - 1)"
    using add_symbol_long [OF t(1) assms(4,2,5)] st' st by simp
  then show ?thesis using st' inv3 by (auto simp: table_tree_def)
qed

lemma table_tree_none:
  assumes "table_tree cs k st" "cs ! k = 0" "k < length cs"
  shows "add_symbol k (cs ! k) st = Some st" "table_tree cs (Suc k) st"
proof -
  obtain nx lu tree tn where st: "st = (nx, lu, tree, tn)" by (cases st) auto
  show "add_symbol k (cs ! k) st = Some st" using assms(2) by (simp add: add_symbol_def st)
  have "table_upto cs (Suc k) st" using assms
    by (auto simp: table_tree_def st table_upto_def less_Suc_eq take_Suc_conv_app_nth syms_of_append syms_of_def)
  then show "table_tree cs (Suc k) st"
    using assms(1) tree_inv_none [OF assms(2)] by (auto simp: table_tree_def st)
qed

lemma add_symbols_tree:
  assumes "table_tree cs k st" "complete_code cs" "length cs \<le> 288" "k \<le> length cs"
  shows "\<exists>st'. add_symbols k (drop k cs) st = Some st' \<and> table_tree cs (length cs) st'"
  using assms
proof (induction "length cs - k" arbitrary: k st)
  case (Suc n)
  then have k: "k < length cs" by simp
  then have d: "drop k cs = cs ! k # drop (Suc k) cs" by (simp add: Cons_nth_drop_Suc)
  obtain st1 where st1: "add_symbol k (cs ! k) st = Some st1" "table_tree cs (Suc k) st1"
  proof -
    consider "cs ! k = 0" | "0 < cs ! k" "cs ! k \<le> 10" | "10 < cs ! k" by linarith
    then show ?thesis
    proof cases
      case 1
      then show ?thesis using table_tree_none [OF Suc.prems(1) 1 k] that by blast
    next
      case 2
      then show ?thesis using table_tree_short [OF Suc.prems(1,2,3) k 2] that by blast
    next
      case 3
      then show ?thesis using table_tree_long [OF Suc.prems(1,2,3) k 3] that by blast
    qed
  qed
  then show ?case using Suc.hyps(1) [of "Suc k" st1] Suc.hyps(2) Suc.prems(2,3) k by (simp add: d)
qed simp

lemma table_tree_0:
  assumes "table_upto cs 0 (nx, replicate 1024 0, replicate (2 * 288) 0, -1)"
  shows "table_tree cs 0 (nx, replicate 1024 0, replicate (2 * 288) 0, -1)"
  using assms by (auto simp: table_tree_def tree_inv_def nodes_ok_def first_entry_def node_val_def intro!: exI [of _ "[]"])

text \<open>
  The table is always built; \<open>good_tables\<close> is what it then satisfies.
\<close>

definition good_tables :: "nat list \<Rightarrow> tinfl_huff_table \<Rightarrow> bool" where
  "good_tables cs p \<longleftrightarrow> complete_code cs \<and> length cs \<le> 288 \<and>
     (\<exists>nx tn. table_tree cs (length cs) (nx, m_look_up p, m_tree p, tn))"

lemma build_table_good:
  assumes "n \<le> length (m_code_size p)" "n \<le> 288" "complete_code (take n (m_code_size p))"
  shows "\<exists>p'. build_table n p = Some (True, p') \<and> good_tables (take n (m_code_size p)) p'
    \<and> m_code_size p' = m_code_size p"
proof -
  let ?cs = "take n (m_code_size p)"
  obtain nx where nx: "table_upto ?cs 0 (nx, replicate 1024 0, replicate (2 * 288) 0, -1)"
    "build_table n p = map_option (\<lambda>(nx, lu, tree, tn). (True, p\<lparr>m_look_up := lu, m_tree := tree\<rparr>))
        (add_symbols 0 ?cs (nx, replicate 1024 0, replicate (2 * 288) 0, -1))"
    using build_table_symbols [OF assms(1,3)] by blast
  obtain st where st: "add_symbols 0 ?cs (nx, replicate 1024 0, replicate (2 * 288) 0, -1) = Some st"
    "table_tree ?cs (length ?cs) st"
    using add_symbols_tree [OF table_tree_0 [OF nx(1)] assms(3) _ le0] assms(2) unfolding drop_0 by fastforce
  obtain nx' lu tree tn where "st = (nx', lu, tree, tn)" by (cases st) auto
  then show ?thesis using nx(2) st assms by (auto simp: good_tables_def)
qed

subsection \<open>Decoding\<close>

text \<open>The bits of a number that begins with a code word, as far as they are there.\<close>

lemma bit_mod: "bit v i \<longleftrightarrow> v div 2 ^ i mod 2 = (1 :: nat)"
  by (simp add: bit_iff_odd odd_iff_mod_2_eq_one)

lemma bit_of_mod:
  assumes "v mod 2 ^ l = w" "i < l"
  shows "w div 2 ^ i mod 2 = v div 2 ^ i mod (2 :: nat)"
proof -
  have "bit (take_bit l v) i \<longleftrightarrow> bit v i" using assms(2) by (simp add: bit_take_bit_iff)
  then have "(v mod 2 ^ l) div 2 ^ i mod 2 = 1 \<longleftrightarrow> v div 2 ^ i mod 2 = 1" by (simp add: bit_mod take_bit_eq_mod)
  then show ?thesis using assms(1) by (metis not_mod_2_eq_1_eq_0)
qed

lemma tree_slot:
  assumes inv: "tree_inv cs (length cs) ns lu tree" and cs: "complete_code cs" "length cs \<le> 288" "s < length cs"
    and m: "10 \<le> m" "m < cs ! s" and q: "q < length ns" "ns ! q = (m, word_of cs s mod 2 ^ m)"
    and v: "v mod 2 ^ Suc m = word_of cs s mod 2 ^ Suc m"
  shows "\<exists>x. at_int tree (- (- 2 * int q - 1) - 1 + (if bit (v :: nat) m then 1 else 0)) = Some x
    \<and> (if Suc m = cs ! s then x = int s
       else \<exists>q'. q' < length ns \<and> ns ! q' = (Suc m, word_of cs s mod 2 ^ Suc m) \<and> x = - 2 * int q' - 1)"
proof -
  let ?w = "word_of cs s"
  let ?b = "?w div 2 ^ m mod 2"
  have b: "?b = (if bit v m then 1 else 0)"
  proof -
    have "?b = ?w mod 2 ^ Suc m div 2 ^ m mod 2" using bit_of_mod [of ?w "Suc m" "?w mod 2 ^ Suc m" m] by simp
    also have "\<dots> = v div 2 ^ m mod 2" using bit_of_mod [of v "Suc m" "?w mod 2 ^ Suc m" m] v by simp
    finally show ?thesis by (simp add: bit_mod)
  qed
  have i: "- (- 2 * int q - 1) - 1 + (if bit v m then 1 else 0) = int (2 * q + ?b)" unfolding b by simp
  have len: "length tree = 576" "q < 288"
    using inv nodes_bound(1) [OF cs(1,2), of ns] q(1) by (auto simp: tree_inv_def)
  let ?x = "tree ! (2 * q + ?b)"
  have a: "at_int tree (- (- 2 * int q - 1) - 1 + (if bit v m then 1 else 0)) = Some ?x"
    unfolding i at_int_nat using len by (simp add: at_def)
  let ?c = "(Suc m, ?w mod 2 ^ m + ?b * 2 ^ m)"
  have c: "?c = (Suc m, ?w mod 2 ^ Suc m)" using next_bit [of ?w m] by simp
  have sv: "slot_val cs (length cs) ns ?c ?x" using inv q by (simp add: tree_inv_def)
  show ?thesis
  proof (cases "Suc m = cs ! s")
    case True
    have w: "?w mod 2 ^ Suc m = ?w" using word_of_less [of cs s] True by simp
    have "?c \<notin> inner cs"
      using inner_not_word [OF cs(1) _ cs(3), of "Suc m" ?w] True w c by (metis le_refl zero_less_Suc)
    then have "?c \<notin> set ns" using inv by (auto simp: tree_inv_def nodes_ok_def)
    moreover have "10 < cs ! s" using m by simp
    ultimately have "?x = int s" using sv cs(3) True w c unfolding slot_val_def by metis
    then show ?thesis using a True by auto
  next
    case False
    then have "Suc m < cs ! s" using m(2) by simp
    moreover have "\<forall>s < length cs. \<forall>m. 10 \<le> m \<longrightarrow> m < cs ! s \<longrightarrow> (m, word_of cs s mod 2 ^ m) \<in> set ns"
      using inv by (simp add: tree_inv_def)
    ultimately have "?c \<in> set ns" unfolding c using cs(3) m(1) by (metis le_Suc_eq)
    then obtain q' where "q' < length ns" "ns ! q' = ?c" "?x = - 2 * int q' - 1"
      using node_val_in [of ns ?c ?x] sv by (auto simp: slot_val_def)
    then show ?thesis using a False unfolding c by auto
  qed
qed

lemma tree_walk_finds:
  assumes inv: "tree_inv cs (length cs) ns lu tree" and cs: "complete_code cs" "length cs \<le> 288" "s < length cs"
    and v: "unat (bits :: 64 word) mod 2 ^ (cs ! s) = word_of cs s"
  shows "10 \<le> m \<Longrightarrow> m < cs ! s \<Longrightarrow> q < length ns \<Longrightarrow> ns ! q = (m, word_of cs s mod 2 ^ m) \<Longrightarrow>
    tree_walk tree bits (- 2 * int q - 1) m = Some (int s, cs ! s)"
proof (induction "cs ! s - m" arbitrary: m q)
  case (Suc n)
  have v': "unat bits mod 2 ^ Suc m = word_of cs s mod 2 ^ Suc m"
    using v mod_mod_exp [of "Suc m" "cs ! s" "unat bits"] Suc.prems(2) by simp
  have c: "cs ! s \<le> 15" using cs(1) nth_mem [OF cs(3)] by (simp add: complete_code_def)
  have bb: "bit bits m = bit (unat bits) m" by (simp add: bit_unsigned_iff)
  obtain x where x: "at_int tree (- (- 2 * int q - 1) - 1 + (if bit bits m then 1 else 0)) = Some x"
    "if Suc m = cs ! s then x = int s
       else \<exists>q'. q' < length ns \<and> ns ! q' = (Suc m, word_of cs s mod 2 ^ Suc m) \<and> x = - 2 * int q' - 1"
    using tree_slot [OF inv cs Suc.prems v'] unfolding bb by blast
  have u: "tree_walk tree bits (- 2 * int q - 1) m =
      (if x < 0 then tree_walk tree bits x (m + 1) else Some (x, m + 1))"
    using x(1) Suc.prems(2) c by (subst tree_walk.simps) simp
  show ?case
  proof (cases "Suc m = cs ! s")
    case True
    then show ?thesis using u x(2) by simp
  next
    case False
    then obtain q' where q': "q' < length ns" "ns ! q' = (Suc m, word_of cs s mod 2 ^ Suc m)" "x = - 2 * int q' - 1"
      using x(2) by auto
    have "tree_walk tree bits x (Suc m) = Some (int s, cs ! s)"
      unfolding q'(3) using Suc.hyps(1) [of "Suc m" q'] Suc.hyps(2) Suc.prems(1,2) False q'(1,2) by simp
    then show ?thesis using u q'(3) by simp
  qed
qed simp

lemma tree_walk_in_sound:
  assumes inv: "tree_inv cs (length cs) ns lu tree" and cs: "complete_code cs" "length cs \<le> 288" "s < length cs"
    and k: "k < 15" and b: "unat (bits :: 64 word) = v mod 2 ^ k" and v: "v mod 2 ^ (cs ! s) = word_of cs s"
  shows "10 \<le> m \<Longrightarrow> m < k \<Longrightarrow> m < cs ! s \<Longrightarrow> q < length ns \<Longrightarrow> ns ! q = (m, word_of cs s mod 2 ^ m) \<Longrightarrow>
    \<exists>f. tree_walk_in tree bits k (- 2 * int q - 1) m = Some f \<and> (f \<longrightarrow> cs ! s \<le> k)"
proof (induction "k - m" arbitrary: m q)
  case (Suc n)
  have v': "unat bits mod 2 ^ Suc m = word_of cs s mod 2 ^ Suc m"
    using v mod_mod_exp [of "Suc m" "cs ! s" v] mod_mod_exp [of "Suc m" k v] Suc.prems(2,3) b by simp
  have bb: "bit bits m = bit (unat bits) m" by (simp add: bit_unsigned_iff)
  obtain x where x: "at_int tree (- (- 2 * int q - 1) - 1 + (if bit bits m then 1 else 0)) = Some x"
    "if Suc m = cs ! s then x = int s
       else \<exists>q'. q' < length ns \<and> ns ! q' = (Suc m, word_of cs s mod 2 ^ Suc m) \<and> x = - 2 * int q' - 1"
    using tree_slot [OF inv cs Suc.prems(1,3,4,5) v'] unfolding bb by blast
  have u: "tree_walk_in tree bits k (- 2 * int q - 1) m =
      (if x < 0 \<and> m + 2 \<le> k then tree_walk_in tree bits k x (m + 1) else Some (0 \<le> x))"
    using x(1) Suc.prems(2) k by (subst tree_walk_in.simps) simp
  show ?case
  proof (cases "Suc m = cs ! s")
    case True
    then show ?thesis using u x(2) Suc.prems(2) by (intro exI [of _ True]) simp
  next
    case False
    then obtain q' where q': "q' < length ns" "ns ! q' = (Suc m, word_of cs s mod 2 ^ Suc m)" "x = - 2 * int q' - 1"
      using x(2) by auto
    show ?thesis
    proof (cases "m + 2 \<le> k")
      case True
      then show ?thesis using u q' Suc.hyps(1) [of "Suc m" q'] Suc.hyps(2) Suc.prems(1,3) False by simp
    next
      case F: False
      then show ?thesis using u q'(3) by (intro exI [of _ False]) simp
    qed
  qed
qed simp

text \<open>The whole code word is in the bits.\<close>

lemma good_tables_symbol:
  assumes "good_tables cs p" "s < length cs" "0 < cs ! s" "unat (bits :: 64 word) mod 2 ^ (cs ! s) = word_of cs s"
  shows "huff_symbol True p bits = Some (int s, cs ! s)"
    "\<exists>x. huff_symbol False p bits = Some (int x, cs ! s) \<and> x mod 512 = s"
proof -
  obtain nx tn ns where t: "table_upto cs (length cs) (nx, m_look_up p, m_tree p, tn)"
    "tree_inv cs (length cs) ns (m_look_up p) (m_tree p)" and cs: "complete_code cs" "length cs \<le> 288"
    using assms(1) by (auto simp: good_tables_def table_tree_def)
  have "huff_symbol True p bits = Some (int s, cs ! s) \<and> (\<exists>x. huff_symbol False p bits = Some (int x, cs ! s) \<and> x mod 512 = s)"
  proof (cases "cs ! s \<le> 10")
    case True
    have p: "p = p\<lparr>m_look_up := m_look_up p, m_tree := m_tree p\<rparr>" by simp
    have "starts_with bits (cs ! s) (code cs s)" using assms(4) by (simp add: starts_with_def word_of_def)
    note d = table_upto_decodes [OF t(1) _ assms(2,3) True this]
    have "huff_symbol True p bits = Some (int s, cs ! s)" "huff_symbol False p bits = Some (int (cs ! s * 512 + s), cs ! s)"
      using d(1,2) [of p] cs(2) by simp_all
    moreover have "(cs ! s * 512 + s) mod 512 = s" using assms(2) cs(2) by simp
    ultimately show ?thesis by blast
  next
    case False
    let ?i = "fast_index bits"
    have i: "?i = word_of cs s mod 2 ^ 10"
      using assms(4) mod_mod_exp [of 10 "cs ! s" "unat bits"] False by (simp add: fast_index_eq)
    have "\<forall>m. 10 \<le> m \<longrightarrow> m < cs ! s \<longrightarrow> (m, word_of cs s mod 2 ^ m) \<in> set ns" using t(2) assms(2) by (simp add: tree_inv_def)
    from this [rule_format, of 10] have "(10, ?i) \<in> set ns" unfolding i using False by simp
    moreover have "first_entry cs (length cs) ns ?i (m_look_up p ! ?i)" "length (m_look_up p) = 1024"
      using t(2) by (simp_all add: tree_inv_def fast_index_eq)
    ultimately obtain q where q: "q < length ns" "ns ! q = (10, ?i)" "m_look_up p ! ?i = - 2 * int q - 1"
      using node_val_in [of ns "(10, ?i)"] by (auto simp: first_entry_def)
    have "at (m_look_up p) ?i = Some (- 2 * int q - 1)" using q(3) \<open>length (m_look_up p) = 1024\<close> by (simp add: fast_index_eq)
    moreover have "tree_walk (m_tree p) bits (- 2 * int q - 1) 10 = Some (int s, cs ! s)"
      using tree_walk_finds [OF t(2) cs assms(2,4) _ _ q(1)] q(2) i False by simp
    ultimately have "huff_symbol b p bits = Some (int s, cs ! s)" for b by (simp add: huff_symbol_def)
    moreover have "s mod 512 = s" using assms(2) cs(2) by simp
    ultimately show ?thesis by blast
  qed
  then show "huff_symbol True p bits = Some (int s, cs ! s)"
    "\<exists>x. huff_symbol False p bits = Some (int x, cs ! s) \<and> x mod 512 = s" by blast+
qed

text \<open>
  Only the first \<open>k\<close> bits are there, and zeros stand for the others: when the code finds a word in them, it
  is the right one.
\<close>

lemma good_tables_in_buffer:
  assumes "good_tables cs p" "s < length cs" "0 < cs ! s" "v mod 2 ^ (cs ! s) = word_of cs s"
    and k: "k < 15" and b: "unat (bits :: 64 word) = v mod 2 ^ k"
  shows "\<exists>f. huff_in_buffer p bits k = Some f \<and> (f \<longrightarrow> cs ! s \<le> k)"
proof -
  obtain nx tn ns where t: "table_upto cs (length cs) (nx, m_look_up p, m_tree p, tn)"
    "tree_inv cs (length cs) ns (m_look_up p) (m_tree p)" and cs: "complete_code cs" "length cs \<le> 288"
    using assms(1) by (auto simp: good_tables_def table_tree_def)
  let ?i = "fast_index bits"
  let ?x = "m_look_up p ! ?i"
  have i: "?i = v mod 2 ^ k mod 1024" by (simp add: fast_index_eq b)
  have fe: "first_entry cs (length cs) ns ?i ?x" and len: "length (m_look_up p) = 1024"
    using t(2) by (simp_all add: tree_inv_def fast_index_eq)
  have a: "at (m_look_up p) ?i = Some ?x" using len by (simp add: fast_index_eq)
  consider (node) "(10, ?i) \<in> set ns"
    | (word) s' where "(10, ?i) \<notin> set ns" "s' < length cs" "0 < cs ! s'" "cs ! s' \<le> 10" "word_bits cs s' ?i"
    | (none) "(10, ?i) \<notin> set ns" "\<forall>s < length cs. 0 < cs ! s \<longrightarrow> cs ! s \<le> 10 \<longrightarrow> \<not> word_bits cs s ?i" by blast
  then show ?thesis
  proof cases
    case node
    then obtain q where q: "q < length ns" "ns ! q = (10, ?i)" "?x = - 2 * int q - 1"
      using node_val_in [of ns "(10, ?i)" ?x] fe by (auto simp: first_entry_def)
    show ?thesis
    proof (cases "10 < k")
      case False
      then show ?thesis using a q(3) by (intro exI [of _ False]) (simp add: huff_in_buffer_def)
    next
      case True
      have i': "?i = v mod 2 ^ 10" using i True mod_mod_exp [of 10 k v] by simp
      have inn: "(10, ?i) \<in> inner cs" using node t(2) by (auto simp: tree_inv_def nodes_ok_def)
      have l: "10 < cs ! s"
      proof (rule ccontr)
        assume "\<not> 10 < cs ! s"
        then have le: "cs ! s \<le> 10" by simp
        have "?i mod 2 ^ (cs ! s) = word_of cs s" unfolding i' using mod_mod_exp [OF le, of v] assms(4) by simp
        then show False using inner_not_word [OF cs(1) inn assms(2,3) le] by simp
      qed
      have "?i = word_of cs s mod 2 ^ 10" unfolding i' using mod_mod_exp [of 10 "cs ! s" v] assms(4) l by simp
      then have "\<exists>f. tree_walk_in (m_tree p) bits k (- 2 * int q - 1) 10 = Some f \<and> (f \<longrightarrow> cs ! s \<le> k)"
        using tree_walk_in_sound [OF t(2) cs assms(2) k b assms(4) _ True l q(1)] q(2) by simp
      then show ?thesis using a q(3) True by (simp add: huff_in_buffer_def)
    qed
  next
    case word
    then have x: "?x = int (cs ! s' * 512 + s')" using fe cs(2) by (simp add: first_entry_def push_or)
    have d: "drop_bit 9 ?x = int (cs ! s')" unfolding x using word(2) cs(2) by (simp add: drop_bit_eq_div)
    have h: "huff_in_buffer p bits k = Some (cs ! s' \<le> k)"
      using a word(3) d by (simp add: huff_in_buffer_def x)
    have "cs ! s \<le> k" if "cs ! s' \<le> k"
    proof -
      have "v mod 2 ^ (cs ! s') = ?i mod 2 ^ (cs ! s')"
        unfolding i using mod_mod_exp [OF that, of v] mod_mod_exp [OF word(4), of "v mod 2 ^ k"] by simp
      then have "word_bits cs s' v" using word(5) by (simp add: word_bits_def)
      moreover have "word_bits cs s v" using assms(4) by (simp add: word_bits_def word_of_def)
      ultimately have "s' = s" using word_bits_unique [OF cs(1) word(2) assms(2) word(3) assms(3)] by blast
      then show ?thesis using that by simp
    qed
    then show ?thesis using h by blast
  next
    case none
    then have "?x = 0" using fe by (simp add: first_entry_def)
    then show ?thesis using a by (intro exI [of _ False]) (simp add: huff_in_buffer_def)
  qed
qed

end
