(* ===== verification/Tinfl_Bits.thy ===== *)
theory Tinfl_Bits
  imports Tinfl_Tree
begin

text \<open>
  The bits the inflater has still to read, as one number: those in the buffer of bits, then those of
  the remaining input, then zeros without end.  Reading bits takes them from its low end, however the bytes
  were brought into the buffer.
\<close>

fun le_val :: "bytes \<Rightarrow> nat" where
  "le_val [] = 0"
| "le_val (b # bs) = unat b + 256 * le_val bs"

definition todo :: "tinfl_call \<Rightarrow> tinfl \<Rightarrow> nat" where
  "todo E s = unat (m_bit_buf s) + 2 ^ m_num_bits s * le_val (drop (in_cur s) (in_buf E))"

definition bits_ok :: "tinfl_call \<Rightarrow> tinfl \<Rightarrow> bool" where
  "bits_ok E s \<longleftrightarrow> unat (m_bit_buf s) < 2 ^ m_num_bits s \<and> m_num_bits s \<le> 62 \<and> in_cur s \<le> length (in_buf E)"

text \<open>The whole input is there (\<^verbatim>\<open>TINFL_FLAG_HAS_MORE_INPUT\<close> is not set).\<close>

definition no_more :: "tinfl_call \<Rightarrow> bool" where
  "no_more E \<longleftrightarrow> decomp_flags E AND HAS_MORE_INPUT = 0"

text \<open>
  Reading \<open>n\<close> bits changes only the buffer of bits and the place in the input.  The bits left are \<open>n\<close>
  fewer, but for the bytes of zeros that were added past the end of the input.
\<close>

definition left_bits :: "tinfl_call \<Rightarrow> tinfl \<Rightarrow> nat" where
  "left_bits E s = 8 * (length (in_buf E) - in_cur s) + m_num_bits s"

definition reads :: "tinfl_call \<Rightarrow> nat \<Rightarrow> tinfl \<Rightarrow> tinfl \<Rightarrow> bool" where
  "reads E n s s' \<longleftrightarrow> bits_ok E s' \<and> todo E s' = todo E s div 2 ^ n
     \<and> (\<exists>j. left_bits E s' + n = left_bits E s + 8 * j)
     \<and> (\<exists>b k c. s' = s\<lparr>m_bit_buf := b, m_num_bits := k, in_cur := c\<rparr>)"

lemma readsI:
  assumes "bits_ok E s'" "todo E s' = todo E s div 2 ^ n" "left_bits E s' + n = left_bits E s + 8 * j"
    "s' = s\<lparr>m_bit_buf := m_bit_buf s', m_num_bits := m_num_bits s', in_cur := in_cur s'\<rparr>"
  shows "reads E n s s'"
  using assms unfolding reads_def by blast

lemma reads_refl: "bits_ok E s \<Longrightarrow> reads E 0 s s"
  by (rule readsI [where j = 0]) simp_all

lemma reads_trans:
  assumes "reads E m s s'" "reads E n s' s''"
  shows "reads E (m + n) s s''"
proof -
  from assms obtain b k c b' k' c' where "s' = s\<lparr>m_bit_buf := b, m_num_bits := k, in_cur := c\<rparr>"
    "s'' = s'\<lparr>m_bit_buf := b', m_num_bits := k', in_cur := c'\<rparr>" unfolding reads_def by blast
  then have "s'' = s\<lparr>m_bit_buf := b', m_num_bits := k', in_cur := c'\<rparr>" by simp
  moreover obtain i j where "left_bits E s' + m = left_bits E s + 8 * i" "left_bits E s'' + n = left_bits E s' + 8 * j"
    using assms unfolding reads_def by blast
  then have "left_bits E s'' + (m + n) = left_bits E s + 8 * (i + j)" by simp
  ultimately show ?thesis using assms unfolding reads_def by (metis div_mult2_eq power_add)
qed

lemma reads_left:
  assumes "reads E n s s'"
  obtains j where "left_bits E s' + n = left_bits E s + 8 * j"
  using assms unfolding reads_def by blast

lemma reads_same:
  assumes "reads E n s s'"
  shows "m_state s' = m_state s" "m_final s' = m_final s" "m_type s' = m_type s" "m_dist s' = m_dist s"
    "m_counter s' = m_counter s" "m_num_extra s' = m_num_extra s" "m_table_sizes s' = m_table_sizes s"
    "m_dist_from_out_buf_start s' = m_dist_from_out_buf_start s" "m_tables s' = m_tables s"
    "m_raw_header s' = m_raw_header s" "m_len_codes s' = m_len_codes s" "out_buf s' = out_buf s" "out_cur s' = out_cur s"
    "m_z_adler32 s' = m_z_adler32 s" "m_check_adler32 s' = m_check_adler32 s" "m_zhdr0 s' = m_zhdr0 s" "m_zhdr1 s' = m_zhdr1 s"
    "bits_ok E s'" "todo E s' = todo E s div 2 ^ n"
  using assms by (auto simp: reads_def)

subsection \<open>Bringing bytes into the buffer\<close>

lemma unat_push:
  fixes b :: "'a :: len word"
  assumes "unat b < 2 ^ k" "c < 2 ^ n" "k + n \<le> LENGTH('a)"
  shows "unat (b OR push_bit k (of_nat c)) = unat b + 2 ^ k * c"
proof -
  have c: "c < 2 ^ LENGTH('a)" using assms(2,3) by (meson less_le_trans one_le_numeral power_increasing le_add2 le_trans)
  have "2 ^ k * c < 2 ^ k * 2 ^ n" using assms(2) by simp
  also have "\<dots> \<le> 2 ^ LENGTH('a)" using assms(3) by (simp only: power_add [symmetric]) (simp only: power_increasing_iff numeral_le_one_iff)
  finally have kc: "2 ^ k * c < 2 ^ LENGTH('a)" .
  have "\<not> bit b i \<or> \<not> bit (push_bit k (of_nat c :: 'a word)) i" for i
  proof -
    have "take_bit k (unat b) = unat b" using assms(1) by (simp add: take_bit_nat_eq_self)
    then have "bit (unat b) i \<Longrightarrow> i < k" by (metis bit_take_bit_iff)
    then show ?thesis by (auto simp: bit_push_bit_iff bit_unsigned_iff)
  qed
  then have "b OR push_bit k (of_nat c) = b + push_bit k (of_nat c)" by (intro disjunctive_add [symmetric]) auto
  also have "\<dots> = of_nat (unat b + 2 ^ k * c)" by (simp add: push_bit_eq_mult)
  finally have e: "b OR push_bit k (of_nat c) = of_nat (unat b + 2 ^ k * c)" .
  have "unat b + 2 ^ k * c < 2 ^ k * 1 + 2 ^ k * c" using assms(1) by simp
  also have "\<dots> = 2 ^ k * (c + 1)" by simp
  also have "\<dots> \<le> 2 ^ k * 2 ^ n" using assms(2) by (intro mult_le_mono2) simp
  also have "\<dots> \<le> 2 ^ LENGTH('a)" using assms(3) by (simp only: power_add [symmetric]) (simp only: power_increasing_iff numeral_le_one_iff)
  finally show ?thesis unfolding e by (simp only: unsigned_of_nat) (simp add: take_bit_nat_eq_self)
qed

lemma le_val_drop: "i < length bs \<Longrightarrow> le_val (drop i bs) = unat (bs ! i) + 256 * le_val (drop (i + 1) bs)"
  by (simp add: Cons_nth_drop_Suc [symmetric])

lemma push_bits_reads:
  assumes "bits_ok E s" "m_num_bits s + n \<le> 62" "c < 2 ^ n" "in_cur s \<le> j" "j \<le> length (in_buf E)"
    and "n = 8 * (j - in_cur s) + 8 * m"
    and "le_val (drop (in_cur s) (in_buf E)) = c + 2 ^ n * le_val (drop j (in_buf E))"
  shows "reads E 0 s (s\<lparr>m_bit_buf := m_bit_buf s OR push_bit (m_num_bits s) (of_nat c), m_num_bits := m_num_bits s + n,
      in_cur := j\<rparr>)" (is "reads E 0 s ?s")
proof -
  let ?k = "m_num_bits s"
  have u: "unat (m_bit_buf ?s) = unat (m_bit_buf s) + 2 ^ ?k * c"
    using unat_push [of "m_bit_buf s" ?k c n] assms by (simp add: bits_ok_def)
  have "unat (m_bit_buf s) + 2 ^ ?k * c < 2 ^ ?k * 1 + 2 ^ ?k * c" using assms(1) by (simp add: bits_ok_def)
  also have "\<dots> = 2 ^ ?k * (c + 1)" by simp
  also have "\<dots> \<le> 2 ^ ?k * 2 ^ n" using assms(3) by (intro mult_le_mono2) simp
  finally have "bits_ok E ?s" using u assms by (simp add: bits_ok_def power_add)
  moreover have "todo E ?s = todo E s" using u assms(7) by (simp add: todo_def power_add algebra_simps)
  moreover have "left_bits E ?s + 0 = left_bits E s + 8 * m" using assms(4-6) by (simp add: left_bits_def)
  ultimately show ?thesis unfolding reads_def by (auto simp del: unsigned_or_eq)
qed

lemma byte_of_bits_reads:
  assumes "bits_ok E s" "no_more E" "m_num_bits s \<le> 54"
  shows "\<exists>s'. byte_of_bits i E s = (Inr (), s') \<and> reads E 0 s s' \<and> m_num_bits s' = m_num_bits s + 8"
proof (cases "in_cur s < length (in_buf E)")
  case True
  let ?c = "in_buf E ! in_cur s"
  have w: "(ucast ?c :: 64 word) = of_nat (unat ?c)" by simp
  have c: "unat ?c < 2 ^ 8" by (rule order_less_le_trans [OF unsigned_less]) simp
  have "byte_of_bits i E s = (Inr (), s\<lparr>m_bit_buf := m_bit_buf s OR push_bit (m_num_bits s) (of_nat (unat ?c)),
      m_num_bits := m_num_bits s + 8, in_cur := in_cur s + 1\<rparr>)"
    using True by (simp add: byte_of_bits_def TINFL_GET_BYTE_def in_avail_def next_byte_def checked_def push_bits_def luasem)
  moreover have "reads E 0 s (s\<lparr>m_bit_buf := m_bit_buf s OR push_bit (m_num_bits s) (of_nat (unat ?c)),
      m_num_bits := m_num_bits s + 8, in_cur := in_cur s + 1\<rparr>)"
    using True assms c le_val_drop [OF True] by (intro push_bits_reads [where m = 0]) auto
  ultimately show ?thesis by simp
next
  case False
  then have e: "in_cur s = length (in_buf E)" using assms(1) by (simp add: bits_ok_def)
  have "byte_of_bits i E s = (Inr (), s\<lparr>m_bit_buf := m_bit_buf s OR push_bit (m_num_bits s) (of_nat 0),
      m_num_bits := m_num_bits s + 8, in_cur := in_cur s\<rparr>)"
    using e assms(2) by (simp add: byte_of_bits_def TINFL_GET_BYTE_def in_avail_def flag_def no_more_def push_bits_def luasem)
  moreover have "reads E 0 s (s\<lparr>m_bit_buf := m_bit_buf s OR push_bit (m_num_bits s) (of_nat 0),
      m_num_bits := m_num_bits s + 8, in_cur := in_cur s\<rparr>)"
    using e assms by (intro push_bits_reads [where m = 1]) simp_all
  ultimately show ?thesis by simp
qed

subsection \<open>Taking bits\<close>

lemma drop_bits_reads:
  assumes "bits_ok E s" "n \<le> m_num_bits s"
  shows "\<exists>s'. drop_bits n E s = (Inr (), s') \<and> reads E n s s'"
proof -
  let ?s = "s\<lparr>m_bit_buf := drop_bit n (m_bit_buf s), m_num_bits := m_num_bits s - n\<rparr>"
  let ?r = "le_val (drop (in_cur s) (in_buf E))"
  have u: "unat (m_bit_buf ?s) = unat (m_bit_buf s) div 2 ^ n" 
    by (simp, subst unat_drop_bit_eq) (simp only: drop_bit_eq_div)
  have k: "(2 :: nat) ^ m_num_bits s = 2 ^ n * 2 ^ (m_num_bits s - n)" using assms(2) by (simp add: power_add [symmetric])
  have "bits_ok E ?s" using assms u k by (auto simp: bits_ok_def less_mult_imp_div_less mult.commute)
  moreover have "todo E s div 2 ^ n = todo E ?s"
  proof -
    have "todo E s = unat (m_bit_buf s) + 2 ^ n * (2 ^ (m_num_bits s - n) * ?r)" by (simp add: todo_def k mult.assoc)
    then show ?thesis using u by (simp only: div_mult_self2) (simp add: todo_def)
  qed
  ultimately have "reads E n s ?s" using assms(2) by (intro readsI [where j = 0]) (simp_all add: left_bits_def)
  then show ?thesis using assms(2) by (auto simp: drop_bits_def luasem)
qed

lemma bit_buf_mod:
  assumes "bits_ok E s" "n \<le> m_num_bits s"
  shows "unat (m_bit_buf s) mod 2 ^ n = todo E s mod 2 ^ n"
proof -
  have "(2 :: nat) ^ n dvd 2 ^ m_num_bits s" using assms(2) by (rule le_imp_power_dvd)
  then show ?thesis unfolding todo_def by (metis (no_types, lifting) dvd_mult2 mod_add_right_eq add_0_right dvd_imp_mod_0)
qed

lemma need_bits_reads:
  assumes "bits_ok E s" "no_more E" "n \<le> 54"
  shows "\<exists>s'. TINFL_NEED_BITS i n E s = (Inr (), s') \<and> reads E 0 s s' \<and> n \<le> m_num_bits s'"
  using assms
proof (induction i n E s rule: TINFL_NEED_BITS.induct)
  case (1 i n E s)
  show ?case
  proof (cases "n \<le> m_num_bits s")
    case True
    then show ?thesis using 1(2) by (subst TINFL_NEED_BITS.simps) (auto intro: reads_refl)
  next
    case False
    then obtain s1 where s1: "byte_of_bits i E s = (Inr (), s1)" "reads E 0 s s1"
      using byte_of_bits_reads [OF 1(2,3)] 1(4) by force
    from 1(1) [OF False s1(1) [symmetric] refl] reads_same(18) [OF s1(2)] 1(3,4) obtain s2 where
      s2: "TINFL_NEED_BITS i n E s1 = (Inr (), s2)" "reads E 0 s1 s2" "n \<le> m_num_bits s2" by auto
    have "TINFL_NEED_BITS i n E s = (Inr (), s2)" using False s1(1) s2(1) by (subst TINFL_NEED_BITS.simps) simp
    then show ?thesis using reads_trans [OF s1(2) s2(2)] s2(3) by auto
  qed
qed

lemma unat_mask: "unat ((b :: 64 word) AND (2 ^ n - 1)) = unat b mod 2 ^ n"
proof -
  have e: "b AND (2 ^ n - 1) = take_bit n b" by (simp add: take_bit_eq_mask mask_eq_exp_minus_1)
  show ?thesis by (simp only: e unsigned_take_bit_eq) (simp only: take_bit_eq_mod)
qed

lemma get_bits_reads:
  assumes "bits_ok E s" "no_more E" "n \<le> 54"
  shows "\<exists>s'. TINFL_GET_BITS i n E s = (Inr (todo E s mod 2 ^ n), s') \<and> reads E n s s'"
proof -
  obtain s1 where s1: "TINFL_NEED_BITS i n E s = (Inr (), s1)" "reads E 0 s s1" "n \<le> m_num_bits s1"
    using need_bits_reads [OF assms] by blast
  note k = reads_same(18,19) [OF s1(2)]
  obtain s2 where s2: "drop_bits n E s1 = (Inr (), s2)" "reads E n s1 s2"
    using drop_bits_reads [OF k(1) s1(3)] by blast
  have "unat (m_bit_buf s1 AND (2 ^ n - 1)) = todo E s mod 2 ^ n"
    using bit_buf_mod [OF k(1) s1(3)] k(2) assms(3) by (simp add: unat_mask)
  then have "TINFL_GET_BITS i n E s = (Inr (todo E s mod 2 ^ n), s2)"
    using s1(1) s2(1) by (simp add: TINFL_GET_BITS_def luasem)
  then show ?thesis using reads_trans [OF s1(2) s2(2)] by auto
qed

subsection \<open>Decoding a symbol\<close>

text \<open>The bits begin with the code word of \<open>s\<close>.\<close>

definition begins :: "nat list \<Rightarrow> nat \<Rightarrow> nat \<Rightarrow> bool" where
  "begins cs s v \<longleftrightarrow> s < length cs \<and> 0 < cs ! s \<and> v mod 2 ^ (cs ! s) = word_of cs s"

lemma begins_length: "complete_code cs \<Longrightarrow> begins cs s v \<Longrightarrow> cs ! s \<le> 15"
  using nth_mem [of s cs] by (auto simp: begins_def complete_code_def)

lemma huff_fill_reads:
  assumes "good_tables cs p" "begins cs s (todo E st)" "bits_ok E st" "no_more E" "m_num_bits st < 15"
  shows "\<exists>st'. TINFL_HUFF_BITBUF_FILL i p E st = (Inr (), st') \<and> reads E 0 st st' \<and> cs ! s \<le> m_num_bits st'"
  using assms
proof (induction i p E st rule: TINFL_HUFF_BITBUF_FILL.induct)
  case (1 i p E st)
  have c: "cs ! s \<le> 15" using begins_length [of cs s] 1(2,3) by (auto simp: good_tables_def)
  let ?k = "m_num_bits st"
  have b: "unat (m_bit_buf st) = todo E st mod 2 ^ ?k"
    using bit_buf_mod [OF 1(4) order_refl] 1(4) by (simp add: bits_ok_def)
  obtain f where f: "huff_in_buffer p (m_bit_buf st) ?k = Some f" "f \<longrightarrow> cs ! s \<le> ?k"
    using good_tables_in_buffer [OF 1(2) _ _ _ 1(6) b, of s] 1(3) by (auto simp: begins_def)
  show ?case
  proof (cases f)
    case True
    then have "TINFL_HUFF_BITBUF_FILL i p E st = (Inr (), st)" using f(1) by (subst TINFL_HUFF_BITBUF_FILL.simps) simp
    then show ?thesis using True f(2) reads_refl [OF 1(4)] by auto
  next
    case False
    obtain s1 where s1: "byte_of_bits i E st = (Inr (), s1)" "reads E 0 st s1" "m_num_bits s1 = ?k + 8"
      using byte_of_bits_reads [OF 1(4,5)] 1(6) by force
    note r = reads_same(18,19) [OF s1(2)]
    show ?thesis
    proof (cases "m_num_bits s1 < 15")
      case T: True
      have "begins cs s (todo E s1)" using r(2) 1(3) by simp
      then obtain s2 where s2: "TINFL_HUFF_BITBUF_FILL i p E s1 = (Inr (), s2)" "reads E 0 s1 s2" "cs ! s \<le> m_num_bits s2"
        using 1(1) [OF f(1) False s1(1) [symmetric] refl T 1(2) _ r(1) 1(5) T] by auto
      have "TINFL_HUFF_BITBUF_FILL i p E st = (Inr (), s2)"
        using f(1) False s1(1) T s2(1) by (subst TINFL_HUFF_BITBUF_FILL.simps) simp
      then show ?thesis using reads_trans [OF s1(2) s2(2)] s2(3) by auto
    next
      case F: False
      have "TINFL_HUFF_BITBUF_FILL i p E st = (Inr (), s1)"
        using f(1) False s1(1) F by (subst TINFL_HUFF_BITBUF_FILL.simps) simp
      then show ?thesis using s1(2) F c by auto
    qed
  qed
qed

text \<open>Two and four bytes at once.\<close>

lemma unat_wide: "unat (ucast (b :: 8 word) :: 64 word) = unat b"
proof -
  have "unat b < 2 ^ 8" by (rule order_less_le_trans [OF unsigned_less]) simp
  then show ?thesis by (simp add: unsigned_ucast_eq take_bit_nat_eq_self)
qed

lemma byte_less: "unat (b :: 8 word) < 2 ^ 8"
  by (rule order_less_le_trans [OF unsigned_less]) simp

lemma push_word_reads:
  assumes "bits_ok E s" "m_num_bits s + n \<le> 62" "unat w < 2 ^ n" "in_cur s \<le> j" "j \<le> length (in_buf E)"
    and "n = 8 * (j - in_cur s)"
    and "le_val (drop (in_cur s) (in_buf E)) = unat w + 2 ^ n * le_val (drop j (in_buf E))"
  shows "reads E 0 s (s\<lparr>m_bit_buf := m_bit_buf s OR push_bit (m_num_bits s) w, m_num_bits := m_num_bits s + n,
      in_cur := j\<rparr>)"
  using push_bits_reads [of E s n "unat w" j 0] assms by simp

lemma two_bytes_reads:
  assumes "bits_ok E s" "m_num_bits s < 15" "2 \<le> length (in_buf E) - in_cur s"
  shows "\<exists>s'. bindM next_byte (\<lambda>b0. bindM next_byte (\<lambda>b1. push_bits (ucast b0 OR push_bit 8 (ucast b1)) 16)) E s = (Inr (), s')
    \<and> reads E 0 s s' \<and> m_num_bits s' = m_num_bits s + 16"
proof -
  let ?i = "in_cur s" and ?d = "in_buf E"
  let ?w = "ucast (?d ! ?i) OR push_bit 8 (ucast (?d ! Suc ?i)) :: 64 word"
  have i: "?i < length ?d" "Suc ?i < length ?d" using assms(3) by simp_all
  have w: "unat ?w = unat (?d ! ?i) + 2 ^ 8 * unat (?d ! Suc ?i)"
    using unat_push [of "ucast (?d ! ?i) :: 64 word" 8 "unat (?d ! Suc ?i)" 8] byte_less [of "?d ! ?i"] byte_less [of "?d ! Suc ?i"]
    by (simp add: unat_wide)
  let ?s = "s\<lparr>m_bit_buf := m_bit_buf s OR push_bit (m_num_bits s) ?w, m_num_bits := m_num_bits s + 16, in_cur := ?i + 2\<rparr>"
  have "unat ?w < 2 ^ 16" using w byte_less [of "?d ! ?i"] byte_less [of "?d ! Suc ?i"] by simp
  then have "reads E 0 s ?s"
    using assms(1,2) i w le_val_drop [OF i(1)] le_val_drop [OF i(2)] by (intro push_word_reads) simp_all
  moreover have "bindM next_byte (\<lambda>b0. bindM next_byte (\<lambda>b1. push_bits (ucast b0 OR push_bit 8 (ucast b1)) 16)) E s = (Inr (), ?s)"
    using i by (simp add: next_byte_def checked_def push_bits_def luasem)
  ultimately show ?thesis by auto
qed

lemma huff_decode_reads:
  assumes "good_tables cs p" "begins cs s (todo E st)" "bits_ok E st" "no_more E"
  shows "\<exists>st'. TINFL_HUFF_DECODE i False p E st = (Inr s, st') \<and> reads E (cs ! s) st st'"
proof -
  have c: "cs ! s \<le> 15" using begins_length [of cs s] assms(1,2) by (auto simp: good_tables_def)
  let ?fill = "bindM (getM m_num_bits) (\<lambda>n. whenM (n < 15)
        (bindM in_avail (\<lambda>k. if k < 2 then TINFL_HUFF_BITBUF_FILL i p
           else bindM next_byte (\<lambda>b0. bindM next_byte (\<lambda>b1.
                push_bits (ucast b0 OR push_bit 8 (ucast b1)) 16)))))"
  obtain s1 where s1: "?fill E st = (Inr (), s1)" "reads E 0 st s1" "cs ! s \<le> m_num_bits s1"
  proof (cases "m_num_bits st < 15")
    case False
    then show ?thesis using that [of st] reads_refl [OF assms(3)] c by (simp add: luasem)
  next
    case True
    show ?thesis
    proof (cases "length (in_buf E) - in_cur st < 2")
      case T: True
      obtain s2 where "TINFL_HUFF_BITBUF_FILL i p E st = (Inr (), s2)" "reads E 0 st s2" "cs ! s \<le> m_num_bits s2"
        using huff_fill_reads [OF assms True] by blast
      then show ?thesis using that [of s2] True T by (simp add: luasem in_avail_def)
    next
      case F: False
      then obtain s2 where "bindM next_byte (\<lambda>b0. bindM next_byte (\<lambda>b1. push_bits (ucast b0 OR push_bit 8 (ucast b1)) 16)) E st
          = (Inr (), s2)" "reads E 0 st s2" "m_num_bits s2 = m_num_bits st + 16"
        using two_bytes_reads [OF assms(3) True] by auto
      then show ?thesis using that [of s2] True F c by (simp add: run_bindM run_getM run_whenM in_avail_def)
    qed
  qed
  note r = reads_same(18,19) [OF s1(2)]
  have "unat (m_bit_buf s1) mod 2 ^ (cs ! s) = word_of cs s"
    using bit_buf_mod [OF r(1) s1(3)] r(2) assms(2) by (simp add: begins_def)
  then have h: "huff_symbol True p (m_bit_buf s1) = Some (int s, cs ! s)"
    using good_tables_symbol(1) [OF assms(1)] assms(2) by (simp add: begins_def)
  obtain s2 where s2: "drop_bits (cs ! s) E s1 = (Inr (), s2)" "reads E (cs ! s) s1 s2"
    using drop_bits_reads [OF r(1) s1(3)] by blast
  have "TINFL_HUFF_DECODE i False p E st = (Inr s, s2)"
    unfolding TINFL_HUFF_DECODE_def if_False run_thenM s1(1)
    by (simp add: luasem h checked_def s2(1))
  then show ?thesis using reads_trans [OF s1(2) s2(2)] by auto
qed

end
