(* ===== verification/Deflate.thy ===== *)
theory Deflate
  imports Tinfl_Bits
begin

text \<open>
  The format the inflater reads, as RFC 1951 defines it and independently of the code: what a stream of
  blocks means, and the bits that stand for it.  The code words are the canonical ones of
  \<open>Tinfl_Table\<close>.
\<close>

subsection \<open>The meaning of a stream\<close>

text \<open>A match has the symbol of its length and that of its distance, each with the value of its extra bits.\<close>

datatype token = Lit "8 word" | Ref nat nat nat nat

text \<open>\<open>n\<close> bytes from \<open>d\<close> before the end, which may run into the bytes that are being copied.\<close>

fun lz_copy :: "nat \<Rightarrow> nat \<Rightarrow> bytes \<Rightarrow> bytes" where
  "lz_copy 0 d P = P"
| "lz_copy (Suc n) d P = lz_copy n d (P @ [P ! (length P - d)])"

definition ref_length :: "nat \<Rightarrow> nat \<Rightarrow> nat" where
  "ref_length l e = s_length_base ! (l - 257) + e"

definition ref_dist :: "nat \<Rightarrow> nat \<Rightarrow> nat" where
  "ref_dist d x = s_dist_base ! d + x"

fun expand_token :: "token \<Rightarrow> bytes \<Rightarrow> bytes" where
  "expand_token (Lit b) P = P @ [b]"
| "expand_token (Ref l e d x) P = lz_copy (ref_length l e) (ref_dist d x) P"

fun expand_tokens :: "token list \<Rightarrow> bytes \<Rightarrow> bytes" where
  "expand_tokens [] P = P"
| "expand_tokens (t # ts) P = expand_tokens ts (expand_token t P)"

text \<open>
  The lengths of the code words of a block with its own codes come in a code of their own, a
  length or a run of lengths at a time.
\<close>

datatype run = Len nat | Again nat | Zeros3 nat | Zeros7 nat

datatype deflate_block = Stored bytes | Fixed "token list"
  | Dynamic nat "nat list" "run list" nat "nat list" "token list"

fun expand_block :: "deflate_block \<Rightarrow> bytes \<Rightarrow> bytes" where
  "expand_block (Stored bs) P = P @ bs"
| "expand_block (Fixed ts) P = expand_tokens ts P"
| "expand_block (Dynamic k ls rs n cs ts) P = expand_tokens ts P"

fun expand :: "deflate_block list \<Rightarrow> bytes \<Rightarrow> bytes" where
  "expand [] P = P"
| "expand (b # bs) P = expand bs (expand_block b P)"

subsection \<open>The bits of a stream\<close>

text \<open>A number has its lowest bit first, a code word its highest.\<close>

definition number_bits :: "nat \<Rightarrow> nat \<Rightarrow> bool list" where
  "number_bits n v = map (bit v) [0..<n]"

definition huff_bits :: "nat list \<Rightarrow> nat \<Rightarrow> bool list" where
  "huff_bits cs s = rev (number_bits (cs ! s) (code cs s))"

fun token_bits :: "nat list \<Rightarrow> nat list \<Rightarrow> token \<Rightarrow> bool list" where
  "token_bits cs ds (Lit b) = huff_bits cs (unat b)"
| "token_bits cs ds (Ref l e d x) = huff_bits cs l @ number_bits (s_length_extra ! (l - 257)) e
     @ huff_bits ds d @ number_bits (s_dist_extra ! d) x"

definition tokens_bits :: "nat list \<Rightarrow> nat list \<Rightarrow> token list \<Rightarrow> bool list" where
  "tokens_bits cs ds ts = concat (map (token_bits cs ds) ts) @ huff_bits cs 256"

fun run_bits :: "nat list \<Rightarrow> run \<Rightarrow> bool list" where
  "run_bits ls (Len n) = huff_bits ls n"
| "run_bits ls (Again n) = huff_bits ls 16 @ number_bits 2 n"
| "run_bits ls (Zeros3 n) = huff_bits ls 17 @ number_bits 3 n"
| "run_bits ls (Zeros7 n) = huff_bits ls 18 @ number_bits 7 n"

text \<open>
  \<open>Dynamic k ls rs n cs ts\<close>: the lengths \<open>ls\<close> of the code of lengths, of which \<open>k\<close> are sent in the order
  of \<^verbatim>\<open>s_length_dezigzag\<close>; the runs \<open>rs\<close> that say \<open>cs\<close>, the \<open>n\<close> lengths of the code of literals and after them
  those of the code of distances; and the tokens.
\<close>

fun block_bits :: "nat \<Rightarrow> bool \<Rightarrow> deflate_block \<Rightarrow> bool list" where
  "block_bits pos fin (Stored bs) = [fin, False, False] @ replicate ((8 - (pos + 3) mod 8) mod 8) False
     @ number_bits 16 (length bs) @ number_bits 16 (65535 - length bs)
     @ concat (map (\<lambda>b. number_bits 8 (unat b)) bs)"
| "block_bits pos fin (Fixed ts) = [fin, True, False] @ tokens_bits fixed_lengths fixed_dist_lengths ts"
| "block_bits pos fin (Dynamic k ls rs n cs ts) = [fin, False, True]
     @ number_bits 5 (n - 257) @ number_bits 5 (length cs - n - 1) @ number_bits 4 (k - 4)
     @ concat (map (\<lambda>i. number_bits 3 (ls ! (s_length_dezigzag ! i))) [0..<k])
     @ concat (map (run_bits ls) rs) @ tokens_bits (take n cs) (drop n cs) ts"

fun stream_bits :: "nat \<Rightarrow> deflate_block list \<Rightarrow> bool list" where
  "stream_bits pos [] = []"
| "stream_bits pos (b # bs) = (let B = block_bits pos (bs = []) b in B @ stream_bits (pos + length B) bs)"

subsection \<open>Well-formed streams\<close>

text \<open>A reference reaches back no further than the output begins; symbols have a code word.\<close>

fun token_ok :: "nat list \<Rightarrow> nat list \<Rightarrow> nat \<Rightarrow> token \<Rightarrow> bool" where
  "token_ok cs ds n (Lit b) \<longleftrightarrow> 0 < cs ! unat b"
| "token_ok cs ds n (Ref l e d x) \<longleftrightarrow> 257 \<le> l \<and> l \<le> 285 \<and> l < length cs \<and> 0 < cs ! l \<and> e < 2 ^ (s_length_extra ! (l - 257))
     \<and> d < 30 \<and> d < length ds \<and> 0 < ds ! d \<and> x < 2 ^ (s_dist_extra ! d) \<and> ref_dist d x \<le> n"

fun tokens_ok :: "nat list \<Rightarrow> nat list \<Rightarrow> bytes \<Rightarrow> token list \<Rightarrow> bool" where
  "tokens_ok cs ds P [] \<longleftrightarrow> True"
| "tokens_ok cs ds P (t # ts) \<longleftrightarrow> token_ok cs ds (length P) t \<and> tokens_ok cs ds (expand_token t P) ts"

text \<open>What the runs say, after the lengths \<open>xs\<close>.\<close>

fun say_run :: "run \<Rightarrow> nat list \<Rightarrow> nat list" where
  "say_run (Len n) xs = xs @ [n]"
| "say_run (Again n) xs = xs @ replicate (n + 3) (last xs)"
| "say_run (Zeros3 n) xs = xs @ replicate (n + 3) 0"
| "say_run (Zeros7 n) xs = xs @ replicate (n + 11) 0"

fun run_ok :: "nat list \<Rightarrow> run \<Rightarrow> nat list \<Rightarrow> bool" where
  "run_ok ls (Len n) xs \<longleftrightarrow> n < 16 \<and> 0 < ls ! n"
| "run_ok ls (Again n) xs \<longleftrightarrow> n < 4 \<and> 0 < ls ! 16 \<and> xs \<noteq> []"
| "run_ok ls (Zeros3 n) xs \<longleftrightarrow> n < 8 \<and> 0 < ls ! 17"
| "run_ok ls (Zeros7 n) xs \<longleftrightarrow> n < 128 \<and> 0 < ls ! 18"

fun runs_say :: "nat list \<Rightarrow> run list \<Rightarrow> nat list \<Rightarrow> nat list \<Rightarrow> bool" where
  "runs_say ls [] xs ys \<longleftrightarrow> xs = ys"
| "runs_say ls (r # rs) xs ys \<longleftrightarrow> run_ok ls r xs \<and> length xs < length ys \<and> runs_say ls rs (say_run r xs) ys"

fun deflate_ok :: "bytes \<Rightarrow> deflate_block \<Rightarrow> bool" where
  "deflate_ok P (Stored bs) \<longleftrightarrow> length bs < 65536"
| "deflate_ok P (Fixed ts) \<longleftrightarrow> tokens_ok fixed_lengths fixed_dist_lengths P ts"
| "deflate_ok P (Dynamic k ls rs n cs ts) \<longleftrightarrow> 4 \<le> k \<and> k \<le> 19 \<and> length ls = 19 \<and> complete_code ls \<and> (\<forall>l \<in> set ls. l < 8)
     \<and> (\<forall>i < 19. k \<le> i \<longrightarrow> ls ! (s_length_dezigzag ! i) = 0)
     \<and> 257 \<le> n \<and> n \<le> 288 \<and> n < length cs \<and> length cs \<le> n + 32 \<and> runs_say ls rs [] cs
     \<and> complete_code (take n cs) \<and> complete_code (drop n cs) \<and> 0 < cs ! 256
     \<and> tokens_ok (take n cs) (drop n cs) P ts"

fun blocks_ok :: "bytes \<Rightarrow> deflate_block list \<Rightarrow> bool" where
  "blocks_ok P [] \<longleftrightarrow> True"
| "blocks_ok P (b # bs) \<longleftrightarrow> deflate_ok P b \<and> blocks_ok (expand_block b P) bs"

subsection \<open>Bits as numbers\<close>

definition bits_val :: "bool list \<Rightarrow> nat" where
  "bits_val bs = horner_sum of_bool 2 bs"

lemma bits_val_simps [simp]: "bits_val [] = 0" "bits_val (b # bs) = of_bool b + 2 * bits_val bs"
  by (simp_all add: bits_val_def)

lemma bits_val_append: "bits_val (as @ bs) = bits_val as + 2 ^ length as * bits_val bs"
  by (simp add: bits_val_def horner_sum_append)

lemma bits_val_less: "bits_val bs < 2 ^ length bs"
  by (induction bs) auto

lemma length_number_bits [simp]: "length (number_bits n v) = n"
  by (simp add: number_bits_def)

lemma bits_val_number: "bits_val (number_bits n v) = v mod 2 ^ n"
  by (simp add: bits_val_def number_bits_def horner_sum_bit_eq_take_bit take_bit_eq_mod)

lemma number_bits_Suc: "number_bits (Suc n) v = odd v # number_bits n (v div 2)"
  by (simp add: number_bits_def bit_0 bit_Suc map_upt_Suc del: upt_Suc)

lemma bits_val_rev_number: "bits_val (rev (number_bits n v)) = rcode n v"
proof (induction n arbitrary: v)
  case 0
  then show ?case by (simp add: number_bits_def)
next
  case (Suc n)
  then show ?case by (simp add: number_bits_Suc bits_val_append rcode_Suc mod_2_eq_odd mult.commute del: rev_code.simps)
qed

lemma length_huff_bits [simp]: "length (huff_bits cs s) = cs ! s"
  by (simp add: huff_bits_def)

lemma bits_val_huff: "bits_val (huff_bits cs s) = word_of cs s"
  by (simp add: huff_bits_def bits_val_rev_number word_of_def)

subsection \<open>The bits ahead\<close>

text \<open>The next bits, from the \<open>pos\<close>-th of the stream on, are \<open>B\<close>, and they are there.\<close>

definition ahead :: "tinfl_call \<Rightarrow> tinfl \<Rightarrow> nat \<Rightarrow> bool list \<Rightarrow> bool" where
  "ahead E s pos B \<longleftrightarrow> todo E s mod 2 ^ length B = bits_val B \<and> length B \<le> left_bits E s
     \<and> (left_bits E s + pos) mod 8 = 0"

lemma ahead_appendD:
  assumes "ahead E s pos (A @ B)"
  shows "ahead E s pos A" "todo E s mod 2 ^ length A = bits_val A"
    "todo E s div 2 ^ length A mod 2 ^ length B = bits_val B"
proof -
  have v: "todo E s mod 2 ^ (length A + length B) = bits_val A + 2 ^ length A * bits_val B"
    and l: "length A + length B \<le> left_bits E s" "(left_bits E s + pos) mod 8 = 0"
    using assms by (simp_all add: ahead_def bits_val_append)
  have "todo E s mod 2 ^ (length A + length B) mod 2 ^ length A = todo E s mod 2 ^ length A"
    by (rule mod_mod_cancel) (simp add: power_add)
  then show m: "todo E s mod 2 ^ length A = bits_val A" using v bits_val_less [of A] by simp
  have "todo E s mod (2 ^ length A * 2 ^ length B) = 2 ^ length A * (todo E s div 2 ^ length A mod 2 ^ length B) + todo E s mod 2 ^ length A"
    by (rule mod_mult2_eq)
  then show "todo E s div 2 ^ length A mod 2 ^ length B = bits_val B" using v m by (simp add: power_add)
  show "ahead E s pos A" using m l by (simp add: ahead_def)
qed

lemma ahead_reads:
  assumes "ahead E s pos (A @ B)" "reads E (length A) s s'"
  shows "ahead E s' (pos + length A) B"
proof -
  obtain j where j: "left_bits E s' + length A = left_bits E s + 8 * j" by (rule reads_left [OF assms(2)])
  have "left_bits E s' + (pos + length A) = (left_bits E s + pos) + 8 * j" using j by simp
  then have "(left_bits E s' + (pos + length A)) mod 8 = (left_bits E s + pos) mod 8" by (simp only: mod_mult_self2)
  then have "(left_bits E s' + (pos + length A)) mod 8 = 0" using assms(1) by (simp only: ahead_def)
  then show ?thesis using j ahead_appendD(3) [OF assms(1)] assms(1) reads_same(19) [OF assms(2)] by (simp add: ahead_def)
qed

lemma ahead_cong:
  assumes "m_bit_buf s' = m_bit_buf s" "m_num_bits s' = m_num_bits s" "in_cur s' = in_cur s"
  shows "ahead E s' pos B = ahead E s pos B" "bits_ok E s' = bits_ok E s" "todo E s' = todo E s"
  using assms by (simp_all add: ahead_def todo_def left_bits_def bits_ok_def)

lemma ahead_begins:
  assumes "ahead E s pos (huff_bits cs y @ B)" "y < length cs" "0 < cs ! y"
  shows "begins cs y (todo E s)"
  using ahead_appendD(2) [OF assms(1)] assms(2,3) by (simp add: begins_def bits_val_huff)

text \<open>A number that is ahead is read, and a symbol is decoded.\<close>

lemma get_number:
  assumes "ahead E s pos (number_bits n v @ B)" "v < 2 ^ n" "n \<le> 54" "bits_ok E s" "no_more E"
  obtains s' where "TINFL_GET_BITS i n E s = (Inr v, s')" "reads E n s s'" "ahead E s' (pos + n) B"
proof -
  obtain s' where s': "TINFL_GET_BITS i n E s = (Inr (todo E s mod 2 ^ n), s')" "reads E n s s'"
    using get_bits_reads [OF assms(4,5,3)] by blast
  moreover have "todo E s mod 2 ^ n = v" using ahead_appendD(2) [OF assms(1)] assms(2) by (simp add: bits_val_number)
  moreover have "ahead E s' (pos + n) B" using ahead_reads [OF assms(1)] s'(2) by simp
  ultimately show thesis using that by simp
qed

lemma get_symbol:
  assumes "ahead E s pos (huff_bits cs y @ B)" "good_tables cs p" "y < length cs" "0 < cs ! y" "bits_ok E s" "no_more E"
  obtains s' where "TINFL_HUFF_DECODE i False p E s = (Inr y, s')" "reads E (cs ! y) s s'" "ahead E s' (pos + cs ! y) B"
proof -
  obtain s' where s': "TINFL_HUFF_DECODE i False p E s = (Inr y, s')" "reads E (cs ! y) s s'"
    using huff_decode_reads [OF assms(2) ahead_begins [OF assms(1,3,4)] assms(5,6)] by blast
  moreover have "ahead E s' (pos + cs ! y) B" using ahead_reads [OF assms(1)] s'(2) by simp
  ultimately show thesis using that by simp
qed

end
