(* ===== verification/Tinfl_Copy.thy ===== *)
theory Tinfl_Copy
  imports Deflate
begin

text \<open>
  Copying a match.  The code copies words of four bytes when the match does not overlap itself,
  and three bytes a turn otherwise; both are the copy of one byte after the other that defines a match.
\<close>

lemma length_lz_copy [simp]: "length (lz_copy n d P) = length P + n"
  by (induction n arbitrary: P) auto

lemma lz_copy_prefix: "take (length P) (lz_copy n d P) = P"
proof (induction n arbitrary: P)
  case (Suc n)
  let ?P = "P @ [P ! (length P - d)]"
  have "take (length P) (take (length ?P) (lz_copy n d ?P)) = P" by (simp only: Suc.IH) simp
  then show ?case by (simp add: min_def)
qed simp

lemma copy_bytes_add:
  "copy_bytes (m + n) src dst buf = Option.bind (copy_bytes m src dst buf) (copy_bytes n (src + m) (dst + m))"
proof (induction m arbitrary: src dst buf)
  case (Suc m)
  then show ?case by (cases "at buf src") (simp_all add: put_def)
qed simp

lemma copy_bytes_length: "copy_bytes n src dst buf = Some buf' \<Longrightarrow> length buf' = length buf"
  by (induction n arbitrary: src dst buf) (auto simp: put_def bind_eq_Some_conv split: if_splits)

lemma copy_bytes_defined:
  "src + n \<le> length buf \<Longrightarrow> dst + n \<le> length buf \<Longrightarrow> \<exists>buf'. copy_bytes n src dst buf = Some buf'"
  by (induction n arbitrary: src dst buf) (auto simp: put_def)

text \<open>The bytes that are read lie before those that are written.\<close>

lemma copy_bytes_lz:
  assumes "0 < d" "d \<le> dst" "dst + n \<le> length buf"
  shows "copy_bytes n (dst - d) dst buf = Some (lz_copy n d (take dst buf) @ drop (dst + n) buf)"
  using assms
proof (induction n arbitrary: dst buf)
  case (Suc n)
  let ?b = "buf ! (dst - d)"
  have t: "take (dst + 1) (buf[dst := ?b]) = take dst buf @ [?b]"
    using Suc.prems by (simp add: take_Suc_conv_app_nth)
  have "copy_bytes n (dst + 1 - d) (dst + 1) (buf[dst := ?b])
      = Some (lz_copy n d (take (dst + 1) (buf[dst := ?b])) @ drop (dst + 1 + n) (buf[dst := ?b]))"
    using Suc.prems by (intro Suc.IH) simp_all
  moreover have "dst + 1 - d = dst - d + 1" using Suc.prems by simp
  moreover have "take dst buf ! (length (take dst buf) - d) = ?b" using Suc.prems by (simp add: min_def)
  ultimately show ?case using Suc.prems t by (simp add: put_def)
qed simp

subsection \<open>Three bytes a turn\<close>

lemma copy_threes_bytes:
  "3 \<le> c \<Longrightarrow> copy_threes (int c) src dst buf = map_option (\<lambda>b. (b, dst + c)) (copy_bytes c src dst buf)"
proof (induction c arbitrary: src dst buf rule: less_induct)
  case (less c)
  have c: "copy_bytes c src dst buf = Option.bind (copy_bytes 3 src dst buf) (copy_bytes (c - 3) (src + 3) (dst + 3))"
    using copy_bytes_add [of 3 "c - 3" src dst buf] less.prems by simp
  have i: "int c - 3 = int (c - 3)" "nat (int c - 3) = c - 3" using less.prems by simp_all
  consider "5 < c" | "3 < c" "c \<le> 5" | "c = 3" using less.prems by linarith
  then show ?case
  proof cases
    case 1
    then have "copy_threes (int (c - 3)) (src + 3) (dst + 3) b
        = map_option (\<lambda>b. (b, dst + c)) (copy_bytes (c - 3) (src + 3) (dst + 3) b)" for b
      using less.IH [of "c - 3" "src + 3" "dst + 3" b] by simp
    then show ?thesis unfolding c copy_threes.simps [of "int c"] Let_def i(1) using 1
      by (cases "copy_bytes 3 src dst buf") simp_all
  next
    case 2
    then show ?thesis unfolding c copy_threes.simps [of "int c"] Let_def i(1)
      by (cases "copy_bytes 3 src dst buf") (simp_all add: i(2) map_option_case split: option.split)
  next
    case 3
    then show ?thesis unfolding c copy_threes.simps [of "int c"] Let_def i(1)
      by (cases "copy_bytes 3 src dst buf") simp_all
  qed
qed

subsection \<open>Four bytes at once\<close>

lemma memcpy_from_eq:
  "src + n \<le> length buf \<Longrightarrow> memcpy_from (at buf) src n = Some (take n (drop src buf))"
proof (induction n arbitrary: src)
  case 0
  then show ?case by (simp add: memcpy_from_def)
next
  case (Suc n)
  have "memcpy_from (at buf) (Suc src) n = Some (take n (drop (Suc src) buf))" using Suc by simp
  then show ?case using Suc.prems
    by (simp add: memcpy_from_def upt_conv_Cons Cons_nth_drop_Suc [symmetric] del: upt_Suc)
qed

lemma copy_bytes_apart:
  assumes "src + n \<le> dst" "dst + n \<le> length buf"
  shows "copy_bytes n src dst buf = Some (take dst buf @ take n (drop src buf) @ drop (dst + n) buf)"
  using assms
proof (induction n arbitrary: src dst buf)
  case (Suc n)
  let ?buf = "buf[dst := buf ! src]"
  have "copy_bytes n (src + 1) (dst + 1) ?buf
      = Some (take (dst + 1) ?buf @ take n (drop (src + 1) ?buf) @ drop (dst + 1 + n) ?buf)"
    using Suc.prems by (intro Suc.IH) simp_all
  moreover have "take (dst + 1) ?buf = take dst buf @ [buf ! src]" using Suc.prems by (simp add: take_Suc_conv_app_nth)
  moreover have "take n (drop (src + 1) ?buf) = take n (drop (src + 1) buf)"
    using Suc.prems by (simp add: list_eq_iff_nth_eq)
  moreover have "take (Suc n) (drop src buf) = buf ! src # take n (drop (src + 1) buf)"
    using Suc.prems by (simp add: Cons_nth_drop_Suc [symmetric])
  ultimately show ?case using Suc.prems by (simp add: put_def)
qed simp

lemma copy_word_bytes:
  assumes "src + 4 \<le> dst" "dst + 4 \<le> length buf"
  shows "copy_word src dst buf = copy_bytes 4 src dst buf"
  using assms copy_bytes_apart [of src 4 dst buf] by (simp add: copy_word_def memcpy_from_eq put_list_def min_def)

lemma copy_words_bytes:
  assumes "src + 4 \<le> dst" "dst + 8 * k \<le> length buf"
  shows "copy_words k src dst buf = copy_bytes (8 * k) src dst buf"
  using assms
proof (induction k arbitrary: src dst buf)
  case (Suc k)
  obtain b1 where b1: "copy_bytes 4 src dst buf = Some b1" using copy_bytes_defined [of src 4 buf dst] Suc.prems by auto
  obtain b2 where b2: "copy_bytes 4 (src + 4) (dst + 4) b1 = Some b2"
    using copy_bytes_defined [of "src + 4" 4 b1 "dst + 4"] copy_bytes_length [OF b1] Suc.prems by auto
  have "copy_words k (src + 8) (dst + 8) b2 = copy_bytes (8 * k) (src + 8) (dst + 8) b2"
    using copy_bytes_length [OF b1] copy_bytes_length [OF b2] Suc.prems by (intro Suc.IH) simp_all
  moreover have "copy_bytes (8 * Suc k) src dst buf = copy_bytes (8 * k) (src + 8) (dst + 8) b2"
    using copy_bytes_add [of 4 "4 + 8 * k" src dst buf] copy_bytes_add [of 4 "8 * k" "src + 4" "dst + 4" b1] b1 b2 by (simp add: add.commute)
  ultimately show ?case using b1 b2 copy_bytes_length [OF b1] Suc.prems by (simp add: copy_word_bytes)
qed simp

subsection \<open>The whole copy\<close>

lemma copy_match_bytes:
  assumes "3 \<le> n" "0 < d" "d \<le> dst" "dst + n \<le> length buf"
  shows "copy_match n d (dst - d) dst buf = map_option (\<lambda>b. (b, dst + n)) (copy_bytes n (dst - d) dst buf)"
proof (cases "9 \<le> n \<and> n \<le> d")
  case False
  then show ?thesis using copy_threes_bytes [OF assms(1)] by (auto simp: copy_match_def)
next
  case True
  let ?k = "n div 8" and ?r = "n mod 8"
  have n: "n = 8 * ?k + ?r" by simp
  have w: "copy_words ?k (dst - d) dst buf = copy_bytes (8 * ?k) (dst - d) dst buf"
    using True assms n by (intro copy_words_bytes) linarith+
  have e: "copy_bytes n (dst - d) dst buf = Option.bind (copy_bytes (8 * ?k) (dst - d) dst buf)
      (copy_bytes ?r (dst - d + 8 * ?k) (dst + 8 * ?k))"
    using copy_bytes_add [of "8 * ?k" ?r "dst - d" dst buf] by simp
  have t: "3 \<le> ?r \<Longrightarrow> copy_threes (int ?r) (dst - d + 8 * ?k) (dst + 8 * ?k) b
      = map_option (\<lambda>b. (b, dst + n)) (copy_bytes ?r (dst - d + 8 * ?k) (dst + 8 * ?k) b)" for b
    using copy_threes_bytes [of ?r "dst - d + 8 * ?k" "dst + 8 * ?k" b] by (simp add: add.commute)
  show ?thesis unfolding copy_match_def Let_def w e using True
    by (cases "copy_bytes (8 * ?k) (dst - d) dst buf") (auto simp: t map_option_case split: option.split)
qed

lemma copy_match_lz:
  assumes "3 \<le> n" "0 < d" "d \<le> dst" "dst + n \<le> length buf"
  shows "copy_match n d (dst - d) dst buf = Some (lz_copy n d (take dst buf) @ drop (dst + n) buf, dst + n)"
  using copy_match_bytes [OF assms] copy_bytes_lz [OF assms(2-4)] by simp

end
