(* ===== verification/Tinfl_Run.thy ===== *)
theory Tinfl_Run
  imports Tinfl_Copy
begin

text \<open>
  The runs of the inflater on the tokens of a block.  The buffer does not wrap
  (\<^verbatim>\<open>TINFL_FLAG_USING_NON_WRAPPING_OUTPUT_BUF\<close>) and the whole input is there; the output may be full at any byte,
  and then the run ends with the rest of the work to do.
\<close>

subsection \<open>Steps and runs\<close>

lemma run_step:
  "tinfl_run p E s = (case tinfl_step p E s of (Inl e, s') \<Rightarrow> Some (e, s') | (Inr p', s') \<Rightarrow> tinfl_run p' E s')"
proof -
  have stop: "while_option (\<lambda>(r, s). \<not> isl r) (\<lambda>(r, s). tinfl_step (projr r) E s) (Inl e, s') = Some (Inl e, s')" for e s'
    by (subst while_option_unfold) simp
  show ?thesis unfolding tinfl_run_def by (subst while_option_unfold) (simp add: stop split: prod.split sum.split)
qed

lemma run_to: "tinfl_step p E s = (Inr p', s') \<Longrightarrow> tinfl_run p E s = tinfl_run p' E s'"
  by (simp add: run_step [of p])

lemma run_stop: "tinfl_step p E s = (Inl e, s') \<Longrightarrow> tinfl_run p E s = Some (e, s')"
  by (simp add: run_step [of p])

definition call_ok :: "tinfl_call \<Rightarrow> bool" where
  "call_ok E \<longleftrightarrow> no_more E \<and> decomp_flags E AND NON_WRAPPING_OUTPUT_BUF \<noteq> 0 \<and> out_buf_size_mask E = -1"

lemma call_no_more: "call_ok E \<Longrightarrow> no_more E"
  by (simp add: call_ok_def)

definition st_ok :: "tinfl_call \<Rightarrow> tinfl \<Rightarrow> bool" where
  "st_ok E s \<longleftrightarrow> bits_ok E s \<and> out_cur s \<le> length (out_buf s) \<and> length (out_buf s) < 2 ^ 64"

definition produced :: "tinfl \<Rightarrow> bytes" where
  "produced s = take (out_cur s) (out_buf s)"

definition full :: "tinfl \<Rightarrow> bool" where
  "full s \<longleftrightarrow> out_cur s = length (out_buf s)"

text \<open>\<open>emits\<close>: the output has become \<open>Q\<close>, what follows it and the tables are as they were.\<close>

definition same_tables :: "tinfl \<Rightarrow> tinfl \<Rightarrow> bool" where
  "same_tables s s' \<longleftrightarrow> m_tables s' = m_tables s \<and> m_final s' = m_final s \<and> m_table_sizes s' = m_table_sizes s
     \<and> m_raw_header s' = m_raw_header s \<and> m_len_codes s' = m_len_codes s
     \<and> m_z_adler32 s' = m_z_adler32 s \<and> m_check_adler32 s' = m_check_adler32 s"

definition emits :: "tinfl_call \<Rightarrow> tinfl \<Rightarrow> tinfl \<Rightarrow> bytes \<Rightarrow> bool" where
  "emits E s s' Q \<longleftrightarrow> st_ok E s' \<and> same_tables s s' \<and> out_cur s \<le> out_cur s' \<and> length (out_buf s') = length (out_buf s)
     \<and> drop (out_cur s') (out_buf s') = drop (out_cur s') (out_buf s) \<and> produced s' = Q"

lemma emits_refl: "st_ok E s \<Longrightarrow> emits E s s (produced s)"
  by (simp add: emits_def same_tables_def)

lemma emits_trans:
  assumes "emits E s s' P" "emits E s' s'' Q"
  shows "emits E s s'' Q"
proof -
  have "drop (out_cur s') (out_buf s') = drop (out_cur s') (out_buf s)" using assms(1) by (simp only: emits_def)
  then have "drop (out_cur s'' - out_cur s') (drop (out_cur s') (out_buf s'))
      = drop (out_cur s'' - out_cur s') (drop (out_cur s') (out_buf s))" by (rule arg_cong)
  moreover have "out_cur s'' - out_cur s' + out_cur s' = out_cur s''" using assms(2) by (simp add: emits_def)
  ultimately have "drop (out_cur s'') (out_buf s') = drop (out_cur s'') (out_buf s)" by (simp only: drop_drop)
  then show ?thesis using assms by (auto simp: emits_def same_tables_def)
qed

lemma emitsD:
  assumes "emits E s s' Q"
  shows "st_ok E s'" "bits_ok E s'" "m_tables s' = m_tables s" "produced s' = Q" "length (out_buf s') = length (out_buf s)"
    "m_final s' = m_final s" "out_cur s \<le> out_cur s'"
  using assms by (simp_all add: emits_def same_tables_def st_ok_def)

lemma reads_emits: "reads E n s s' \<Longrightarrow> st_ok E s \<Longrightarrow> emits E s s' (produced s)"
  by (simp add: emits_def same_tables_def st_ok_def produced_def reads_same)

text \<open>Registers that are not part of the output.\<close>

lemma emits_set [simp]:
  "emits E s (s'\<lparr>m_counter := a\<rparr>) Q = emits E s s' Q"
  "emits E s (s'\<lparr>m_dist := a\<rparr>) Q = emits E s s' Q"
  "emits E s (s'\<lparr>m_num_extra := a\<rparr>) Q = emits E s s' Q"
  "emits E s (s'\<lparr>m_state := a\<rparr>) Q = emits E s s' Q"
  "emits E s (s'\<lparr>m_dist_from_out_buf_start := a\<rparr>) Q = emits E s s' Q"
  "emits E s (s'\<lparr>m_type := t\<rparr>) Q = emits E s s' Q"
  by (simp_all add: emits_def st_ok_def bits_ok_def same_tables_def produced_def)

lemma ahead_set [simp]:
  "ahead E (s\<lparr>m_counter := a\<rparr>) = ahead E s"
  "ahead E (s\<lparr>m_dist := a\<rparr>) = ahead E s"
  "ahead E (s\<lparr>m_num_extra := a\<rparr>) = ahead E s"
  "ahead E (s\<lparr>m_state := a\<rparr>) = ahead E s"
  "ahead E (s\<lparr>m_dist_from_out_buf_start := a\<rparr>) = ahead E s"
  "ahead E (s\<lparr>m_type := t\<rparr>) = ahead E s"
  "ahead E (s\<lparr>m_final := a\<rparr>) = ahead E s"
  "ahead E (s\<lparr>m_tables := ts\<rparr>) = ahead E s"
  "ahead E (s\<lparr>m_table_sizes := ns\<rparr>) = ahead E s"
  "ahead E (s\<lparr>m_raw_header := h\<rparr>) = ahead E s"
  "ahead E (s\<lparr>m_len_codes := ns\<rparr>) = ahead E s"
  "ahead E (s\<lparr>out_buf := b\<rparr>) = ahead E s"
  "ahead E (s\<lparr>out_cur := a\<rparr>) = ahead E s"
  by (simp_all add: fun_eq_iff ahead_def todo_def left_bits_def)

lemma produced_set [simp]:
  "produced (s\<lparr>m_counter := a\<rparr>) = produced s" "produced (s\<lparr>m_dist := a\<rparr>) = produced s"
  "produced (s\<lparr>m_num_extra := a\<rparr>) = produced s" "produced (s\<lparr>m_state := a\<rparr>) = produced s"
  "produced (s\<lparr>m_dist_from_out_buf_start := a\<rparr>) = produced s"
  by (simp_all add: produced_def)

text \<open>One byte of output.\<close>

definition after_byte :: "8 word \<Rightarrow> tinfl \<Rightarrow> tinfl" where
  "after_byte b s = s\<lparr>out_buf := (out_buf s)[out_cur s := b], out_cur := out_cur s + 1\<rparr>"

lemma put_byte_eq: "out_cur s < length (out_buf s) \<Longrightarrow> put_byte b E s = (Inr (), after_byte b s)"
  by (simp add: put_byte_def checked_def put_def after_byte_def luasem)

lemma after_byte_emits:
  assumes "st_ok E s" "out_cur s < length (out_buf s)"
  shows "emits E s (after_byte b s) (produced s @ [b])"
proof -
  have "take (Suc (out_cur s)) ((out_buf s)[out_cur s := b]) = take (out_cur s) (out_buf s) @ [b]"
    using assms(2) by (simp add: take_Suc_conv_app_nth)
  then show ?thesis using assms
    by (simp add: emits_def st_ok_def bits_ok_def same_tables_def produced_def after_byte_def)
qed

lemma ahead_after_byte [simp]: "ahead E (after_byte b s) = ahead E s"
  by (simp add: after_byte_def)

lemma after_byte_same [simp]:
  "m_counter (after_byte b s) = m_counter s" "m_dist (after_byte b s) = m_dist s"
  "m_dist_from_out_buf_start (after_byte b s) = m_dist_from_out_buf_start s"
  "out_cur (after_byte b s) = out_cur s + 1" "m_num_bits (after_byte b s) = m_num_bits s"
  by (simp_all add: after_byte_def)

lemma wait_output_eq:
  "wait_output i E s = (if out_cur s < length (out_buf s) then (Inr (), s)
     else (Inl (Status TINFL_STATUS_HAS_MORE_OUTPUT), s\<lparr>m_state := i\<rparr>))"
  by (simp add: wait_output_def out_avail_def TINFL_CR_RETURN_def luasem)

subsection \<open>Where a run stops within the tokens\<close>

text \<open>What the output is when the token that was begun is finished.\<close>

definition owes :: "tinfl \<Rightarrow> bytes \<Rightarrow> bool" where
  "owes s Q \<longleftrightarrow> (m_state s = 24 \<and> m_counter s < 256 \<and> Q = produced s @ [of_nat (m_counter s)])
     \<or> (m_state s = 53 \<and> 0 < m_dist s \<and> m_dist s \<le> out_cur s \<and> m_dist_from_out_buf_start s = out_cur s
        \<and> Q = lz_copy (m_counter s + 1) (m_dist s) (produced s))"

text \<open>The tables in use are those of the codes \<open>cs\<close> and \<open>ds\<close>.\<close>

definition codes :: "nat list \<Rightarrow> nat list \<Rightarrow> tinfl \<Rightarrow> bool" where
  "codes cs ds s \<longleftrightarrow> length (m_tables s) = 3 \<and> good_tables cs (m_tables s ! 0) \<and> good_tables ds (m_tables s ! 1)
     \<and> 256 < length cs \<and> 0 < cs ! 256"

lemma codes_emits: "codes cs ds s \<Longrightarrow> emits E s s' Q \<Longrightarrow> codes cs ds s'"
  by (simp add: codes_def emitsD)

lemma codesD:
  assumes "codes cs ds s"
  shows "table 0 E s = (Inr (m_tables s ! 0), s)" "table (Suc 0) E s = (Inr (m_tables s ! Suc 0), s)"
    "good_tables cs (m_tables s ! 0)" "good_tables ds (m_tables s ! 1)" "length cs \<le> 288"
  using assms by (simp_all add: codes_def table_def checked_def luasem good_tables_def)

text \<open>
  Where the run stops because the output is full: the tokens \<open>ts\<close> are still to come after the one in work, before the bits \<open>R\<close>
  at \<open>pos\<close>, and the output will be \<open>W\<close> after them.
\<close>

definition stopped :: "tinfl_call \<Rightarrow> nat list \<Rightarrow> nat list \<Rightarrow> nat \<Rightarrow> bool list \<Rightarrow> bytes \<Rightarrow> tinfl \<Rightarrow> bool" where
  "stopped E cs ds pos R W s \<longleftrightarrow> (\<exists>ts Q pos'. ahead E s pos' (tokens_bits cs ds ts @ R)
     \<and> pos = pos' + length (tokens_bits cs ds ts) \<and> tokens_ok cs ds Q ts \<and> owes s Q \<and> expand_tokens ts Q = W)"

subsection \<open>Copying a match\<close>

lemma src_ofs_flat: "d \<le> n \<Longrightarrow> n < 2 ^ 64 \<Longrightarrow> src_ofs (-1) n d = n - d"
proof -
  assume a: "d \<le> n" "n < 2 ^ 64"
  then have "(of_nat n - of_nat d :: 64 word) = of_nat (n - d)" by (simp add: of_nat_diff)
  then show ?thesis using a by (simp only: src_ofs_def and.right_neutral unsigned_of_nat) (simp add: take_bit_nat_eq_self)
qed

lemma length_produced: "st_ok E s \<Longrightarrow> length (produced s) = out_cur s"
  by (simp add: st_ok_def produced_def min_def)

lemma produced_nth: "st_ok E s \<Longrightarrow> i < out_cur s \<Longrightarrow> produced s ! i = out_buf s ! i"
  by (simp add: produced_def)

lemma full_cases: "st_ok E s \<Longrightarrow> full s \<or> out_cur s < length (out_buf s)"
  by (auto simp: st_ok_def full_def)

lemma wait_full: "full s \<Longrightarrow> wait_output i E s = (Inl (Status TINFL_STATUS_HAS_MORE_OUTPUT), s\<lparr>m_state := i\<rparr>)"
  by (simp add: wait_output_eq full_def)

lemma wait_room: "out_cur s < length (out_buf s) \<Longrightarrow> wait_output i E s = (Inr (), s)"
  by (simp add: wait_output_eq)

lemma slow_copy_out_step:
  assumes "call_ok E" "st_ok E s" "0 < m_dist s" "m_dist s \<le> out_cur s" "m_dist_from_out_buf_start s = out_cur s"
    and "out_cur s < length (out_buf s)"
  shows "\<exists>s'. tinfl_step Slow_copy_out E s = (Inr Slow_copy, s')
    \<and> emits E s s' (produced s @ [produced s ! (length (produced s) - m_dist s)]) \<and> ahead E s' = ahead E s
    \<and> m_counter s' = m_counter s \<and> m_dist s' = m_dist s \<and> m_dist_from_out_buf_start s' = out_cur s' \<and> out_cur s' = out_cur s + 1"
proof -
  let ?b = "out_buf s ! (out_cur s - m_dist s)"
  have o: "src_ofs (-1) (out_cur s) (m_dist s) = out_cur s - m_dist s"
    using assms(2,4) by (intro src_ofs_flat) (simp_all add: st_ok_def)
  have u: "m_dist_from_out_buf_start_update Suc s = s\<lparr>m_dist_from_out_buf_start := out_cur s + 1\<rparr>"
    using assms(5) by (cases s) simp
  have "tinfl_step Slow_copy_out E s
      = (Inr Slow_copy, after_byte ?b (s\<lparr>m_dist_from_out_buf_start := out_cur s + 1\<rparr>))"
    using assms by (simp add: o u step_slow_copy_out_def wait_room put_byte_eq checked_def call_ok_def luasem)
  moreover have "emits E s (after_byte ?b (s\<lparr>m_dist_from_out_buf_start := out_cur s + 1\<rparr>)) (produced s @ [?b])"
  proof -
    have e: "emits E s (s\<lparr>m_dist_from_out_buf_start := out_cur s + 1\<rparr>) (produced s)" using emits_refl [OF assms(2)] by simp
    show ?thesis using emits_trans [OF e after_byte_emits [OF emitsD(1) [OF e]]] assms(6) by simp
  qed
  moreover have "?b = produced s ! (length (produced s) - m_dist s)"
    using assms by (simp add: length_produced produced_nth)
  ultimately show ?thesis by simp
qed

lemma slow_copy:
  assumes "call_ok E" "st_ok E s" "0 < m_dist s" "m_dist s \<le> out_cur s" "m_dist_from_out_buf_start s = out_cur s"
  shows "(\<exists>s'. tinfl_run Slow_copy E s = tinfl_run Decode E s' \<and> ahead E s' = ahead E s
       \<and> emits E s s' (lz_copy (m_counter s) (m_dist s) (produced s)))
   \<or> (\<exists>s'. tinfl_run Slow_copy E s = Some (Status TINFL_STATUS_HAS_MORE_OUTPUT, s') \<and> ahead E s' = ahead E s
       \<and> full s' \<and> emits E s s' (produced s') \<and> owes s' (lz_copy (m_counter s) (m_dist s) (produced s)))"
  using assms(2-)
proof (induction "m_counter s" arbitrary: s)
  case 0
  then have "tinfl_run Slow_copy E s = tinfl_run Decode E s" by (intro run_to) (simp add: step_slow_copy_def luasem)
  then show ?case using 0 emits_refl [of E s] by (intro disjI1 exI [of _ s]) (simp del: lz_copy.simps add: lz_copy.simps(1))
next
  case (Suc k)
  let ?s = "s\<lparr>m_counter := k\<rparr>"
  have k: "m_counter s = Suc k" using Suc(2) by simp
  have e: "emits E s ?s (produced s)" using emits_refl [OF Suc(3)] by simp
  have st: "st_ok E ?s" by (rule emitsD(1) [OF e])
  have r: "tinfl_run Slow_copy E s = tinfl_run Slow_copy_out E ?s"
    using k by (intro run_to) (simp add: step_slow_copy_def set_counter_def luasem)
  show ?case
  proof (cases "full s")
    case True
    have "tinfl_run Slow_copy_out E ?s = Some (Status TINFL_STATUS_HAS_MORE_OUTPUT, ?s\<lparr>m_state := 53\<rparr>)"
      using True by (intro run_stop) (simp add: step_slow_copy_out_def wait_full full_def luasem)
    moreover have "owes (?s\<lparr>m_state := 53\<rparr>) (lz_copy (m_counter s) (m_dist s) (produced s))"
      using Suc(4-6) k by (simp add: owes_def del: lz_copy.simps)
    moreover have "emits E s (?s\<lparr>m_state := 53\<rparr>) (produced s)" using e by simp
    ultimately show ?thesis using True r
      by (intro disjI2 exI [of _ "?s\<lparr>m_state := 53\<rparr>"]) (simp add: full_def del: lz_copy.simps)
  next
    case False
    then have room: "out_cur ?s < length (out_buf ?s)" using full_cases [OF Suc(3)] by simp
    let ?Q = "produced s @ [produced s ! (length (produced s) - m_dist s)]"
    have c: "0 < m_dist ?s" "m_dist ?s \<le> out_cur ?s" "m_dist_from_out_buf_start ?s = out_cur ?s" using Suc(4-6) by simp_all
    obtain s1 where s1: "tinfl_step Slow_copy_out E ?s = (Inr Slow_copy, s1)" "emits E ?s s1 ?Q" "ahead E s1 = ahead E s"
      "m_counter s1 = k" "m_dist s1 = m_dist s" "m_dist_from_out_buf_start s1 = out_cur s1" "out_cur s1 = out_cur s + 1"
      using slow_copy_out_step [OF assms(1) st c room] by (elim exE conjE) simp
    note e1 = emits_trans [OF e s1(2)]
    have W: "lz_copy (m_counter s1) (m_dist s1) (produced s1) = lz_copy (m_counter s) (m_dist s) (produced s)"
      unfolding s1(4,5) k emitsD(4) [OF s1(2)] by simp
    have r1: "tinfl_run Slow_copy E s = tinfl_run Slow_copy E s1" using r run_to [OF s1(1)] by (rule trans)
    have "k = m_counter s1" "0 < m_dist s1" "m_dist s1 \<le> out_cur s1" using s1(4,5,7) Suc(4,5) by simp_all
    from Suc(1) [OF this(1) emitsD(1) [OF s1(2)] this(2,3) s1(6)] consider
        (a) s2 where "tinfl_run Slow_copy E s1 = tinfl_run Decode E s2" "ahead E s2 = ahead E s1"
          "emits E s1 s2 (lz_copy (m_counter s1) (m_dist s1) (produced s1))"
      | (b) s2 where "tinfl_run Slow_copy E s1 = Some (Status TINFL_STATUS_HAS_MORE_OUTPUT, s2)" "ahead E s2 = ahead E s1"
          "full s2" "emits E s1 s2 (produced s2)" "owes s2 (lz_copy (m_counter s1) (m_dist s1) (produced s1))" by auto
    then show ?thesis
    proof cases
      case a
      then have "tinfl_run Slow_copy E s = tinfl_run Decode E s2 \<and> ahead E s2 = ahead E s
         \<and> emits E s s2 (lz_copy (m_counter s) (m_dist s) (produced s))"
        using r1 s1(3) emits_trans [OF e1 a(3)] by (simp add: W)
      then show ?thesis by blast
    next
      case b
      then have "tinfl_run Slow_copy E s = Some (Status TINFL_STATUS_HAS_MORE_OUTPUT, s2) \<and> ahead E s2 = ahead E s
         \<and> full s2 \<and> emits E s s2 (produced s2) \<and> owes s2 (lz_copy (m_counter s) (m_dist s) (produced s))"
        using r1 s1(3) emits_trans [OF e1 b(4)] by (simp add: W)
      then show ?thesis by blast
    qed
  qed
qed

text \<open>From the point where the length and the distance are known.\<close>

lemma copy_run:
  assumes "call_ok E" "st_ok E s" "3 \<le> m_counter s" "0 < m_dist s" "m_dist s \<le> out_cur s"
  shows "(\<exists>s'. tinfl_run Copy E s = tinfl_run Decode E s' \<and> ahead E s' = ahead E s
       \<and> emits E s s' (lz_copy (m_counter s) (m_dist s) (produced s)))
   \<or> (\<exists>s'. tinfl_run Copy E s = Some (Status TINFL_STATUS_HAS_MORE_OUTPUT, s') \<and> ahead E s' = ahead E s
       \<and> full s' \<and> emits E s s' (produced s') \<and> owes s' (lz_copy (m_counter s) (m_dist s) (produced s)))"
proof -
  let ?n = "m_counter s" and ?d = "m_dist s" and ?c = "out_cur s"
  let ?s = "s\<lparr>m_dist_from_out_buf_start := ?c\<rparr>"
  have o: "src_ofs (-1) ?c ?d = ?c - ?d" using assms by (intro src_ofs_flat) (simp_all add: st_ok_def)
  have E: "decomp_flags E AND NON_WRAPPING_OUTPUT_BUF \<noteq> 0" "out_buf_size_mask E = -1" using assms(1) by (simp_all add: call_ok_def)
  have e: "emits E s ?s (produced s)" using emits_refl [OF assms(2)] by simp
  show ?thesis
  proof (cases "length (out_buf s) < ?c + ?n")
    case True
    have r: "tinfl_run Copy E s = tinfl_run Slow_copy E ?s"
      using True assms(3-5) E o by (intro run_to) (simp add: step_copy_def flag_def luasem)
    from slow_copy [OF assms(1) emitsD(1) [OF e]] assms(4,5) consider
        (a) s2 where "tinfl_run Slow_copy E ?s = tinfl_run Decode E s2" "ahead E s2 = ahead E s"
          "emits E ?s s2 (lz_copy ?n ?d (produced s))"
      | (b) s2 where "tinfl_run Slow_copy E ?s = Some (Status TINFL_STATUS_HAS_MORE_OUTPUT, s2)" "ahead E s2 = ahead E s"
          "full s2" "emits E ?s s2 (produced s2)" "owes s2 (lz_copy ?n ?d (produced s))" by force
    then show ?thesis
    proof cases
      case a
      then show ?thesis using r emits_trans [OF e a(3)] by (intro disjI1 exI [of _ s2]) simp
    next
      case b
      then show ?thesis using r emits_trans [OF e b(4)] by (intro disjI2 exI [of _ s2]) simp
    qed
  next
    case False
    let ?b = "lz_copy ?n ?d (take ?c (out_buf s)) @ drop (?c + ?n) (out_buf s)"
    let ?t = "?s\<lparr>out_buf := ?b, out_cur := ?c + ?n\<rparr>"
    have c: "copy_match ?n ?d (?c - ?d) ?c (out_buf s) = Some (?b, ?c + ?n)"
      using False assms by (intro copy_match_lz) simp_all
    have r: "tinfl_run Copy E s = tinfl_run Decode E ?t"
      using False assms(3-5) E o c by (intro run_to) (simp add: step_copy_def flag_def checked_def luasem)
    have "length (take ?c (out_buf s)) = ?c" using assms(2) by (simp add: st_ok_def min_def)
    then have "emits E s ?t (lz_copy ?n ?d (produced s))"
      using False assms(2) by (simp add: emits_def st_ok_def bits_ok_def same_tables_def produced_def)
    then show ?thesis using r by (intro disjI1 exI [of _ ?t]) simp
  qed
qed

subsection \<open>A match\<close>

lemma length_tables:
  "length s_length_base = 31" "length s_length_extra = 31" "length s_dist_base = 32" "length s_dist_extra = 32"
  by (simp_all add: s_length_base_def s_length_extra_def s_dist_base_def s_dist_extra_def)

lemma list_all_nth: "list_all P xs \<Longrightarrow> i < length xs \<Longrightarrow> P (xs ! i)"
  by (simp add: list_all_length)

lemma length_extra_le: "i < 31 \<Longrightarrow> s_length_extra ! i \<le> 54"
  using list_all_nth [of "\<lambda>k. k \<le> 54" s_length_extra i] by (simp add: s_length_extra_def)

lemma dist_extra_le: "i < 32 \<Longrightarrow> s_dist_extra ! i \<le> 54"
  using list_all_nth [of "\<lambda>k. k \<le> 54" s_dist_extra i] by (simp add: s_dist_extra_def)

lemma length_base_ge: "i < 29 \<Longrightarrow> 3 \<le> s_length_base ! i"
proof -
  have "list_all (\<lambda>k. 3 \<le> k) (take 29 s_length_base)" by (simp add: s_length_base_def)
  then show "i < 29 \<Longrightarrow> 3 \<le> s_length_base ! i"
    using list_all_nth [of "\<lambda>k. 3 \<le> k" "take 29 s_length_base" i] by (simp add: length_tables)
qed

lemma dist_base_pos: "i < 30 \<Longrightarrow> 0 < s_dist_base ! i"
proof -
  have "list_all (\<lambda>k. 0 < k) (take 30 s_dist_base)" by (simp add: s_dist_base_def)
  then show "i < 30 \<Longrightarrow> 0 < s_dist_base ! i"
    using list_all_nth [of "\<lambda>k. 0 < k" "take 30 s_dist_base" i] by (simp add: length_tables)
qed

text \<open>The length of a match, from its symbol in the counter.\<close>

lemma length_run:
  assumes "call_ok E" "st_ok E s" "ahead E s pos (number_bits (s_length_extra ! (l - 257)) e @ R)"
    and "m_counter s AND 511 = l" "257 \<le> l" "l \<le> 285" "e < 2 ^ (s_length_extra ! (l - 257))"
  shows "\<exists>s'. tinfl_run Match E s = tinfl_run (Distance False) E s' \<and> m_counter s' = ref_length l e
    \<and> ahead E s' (pos + s_length_extra ! (l - 257)) R \<and> emits E s s' (produced s)"
proof -
  let ?k = "s_length_extra ! (l - 257)" and ?b = "s_length_base ! (l - 257)"
  let ?s = "s\<lparr>m_num_extra := ?k, m_counter := ?b\<rparr>"
  have s: "emits E s ?s (produced s)" using emits_refl [OF assms(2)] by simp
  have step: "tinfl_step Match E s = (Inr (if ?k \<noteq> 0 then Length_extra else Distance False), ?s)"
    using assms(4-6) by (simp add: step_match_def Let_def checked_def length_tables luasem)
  show ?thesis
  proof (cases "?k = 0")
    case True
    then have "tinfl_run Match E s = tinfl_run (Distance False) E ?s" "e = 0" using step assms(7) by (auto intro: run_to)
    then show ?thesis using True s assms(3) by (intro exI [of _ ?s]) (simp add: ref_length_def number_bits_def)
  next
    case False
    have a: "ahead E ?s pos (number_bits ?k e @ R)" using assms(3) by simp
    obtain s1 where s1: "TINFL_GET_BITS 25 ?k E ?s = (Inr e, s1)" "reads E ?k ?s s1" "ahead E s1 (pos + ?k) R"
      using get_number [OF a assms(7) _ emitsD(2) [OF s] call_no_more [OF assms(1)]] length_extra_le [of "l - 257"] assms(6) by auto
    note e1 = emits_trans [OF s reads_emits [OF s1(2) emitsD(1) [OF s]]]
    have "tinfl_run Match E s = tinfl_run Length_extra E ?s" using False step by (intro run_to) simp
    also have "\<dots> = tinfl_run (Distance False) E (s1\<lparr>m_counter := m_counter s1 + e\<rparr>)"
      using s1(1) reads_same(5) [OF s1(2)]
      by (intro run_to) (simp add: step_length_extra_def luasem)
    finally show ?thesis using s1(3) e1 reads_same(5) [OF s1(2)]
      by (intro exI [of _ "s1\<lparr>m_counter := m_counter s1 + e\<rparr>"]) (simp add: ref_length_def)
  qed
qed

lemma distance_run:
  assumes "call_ok E" "st_ok E s" "codes cs ds s"
    and "ahead E s pos (huff_bits ds d @ number_bits (s_dist_extra ! d) x @ R)"
    and "d < 30" "d < length ds" "0 < ds ! d" "x < 2 ^ (s_dist_extra ! d)"
  shows "\<exists>s'. tinfl_run (Distance False) E s = tinfl_run Copy E s' \<and> m_dist s' = ref_dist d x \<and> m_counter s' = m_counter s
    \<and> ahead E s' (pos + (ds ! d + s_dist_extra ! d)) R \<and> emits E s s' (produced s)"
proof -
  let ?k = "s_dist_extra ! d" and ?b = "s_dist_base ! d"
  obtain s1 where s1: "TINFL_HUFF_DECODE 26 False (m_tables s ! 1) E s = (Inr d, s1)" "reads E (ds ! d) s s1"
      "ahead E s1 (pos + ds ! d) (number_bits ?k x @ R)"
    using get_symbol [OF assms(4) codesD(4) [OF assms(3)] assms(6,7) _ call_no_more [OF assms(1)]] assms(2)
    by (auto simp: st_ok_def)
  note e1 = reads_emits [OF s1(2) assms(2)]
  let ?s = "s1\<lparr>m_num_extra := ?k, m_dist := ?b\<rparr>"
  have s: "emits E s ?s (produced s)" using e1 by simp
  have step: "tinfl_step (Distance False) E s = (Inr (if ?k \<noteq> 0 then Distance_extra else Copy), ?s)"
    using s1(1) assms(5) by (simp add: step_distance_def checked_def length_tables codesD [OF assms(3)] luasem)
  show ?thesis
  proof (cases "?k = 0")
    case True
    then have "tinfl_run (Distance False) E s = tinfl_run Copy E ?s" "x = 0" using step assms(8) by (auto intro: run_to)
    then show ?thesis using True s s1(3) reads_same(5) [OF s1(2)]
      by (intro exI [of _ ?s]) (simp add: ref_dist_def number_bits_def)
  next
    case False
    have a: "ahead E ?s (pos + ds ! d) (number_bits ?k x @ R)" using s1(3) by simp
    obtain s2 where s2: "TINFL_GET_BITS 27 ?k E ?s = (Inr x, s2)" "reads E ?k ?s s2" "ahead E s2 (pos + ds ! d + ?k) R"
      using get_number [OF a assms(8) _ emitsD(2) [OF s] call_no_more [OF assms(1)]] dist_extra_le [of d] assms(5) by auto
    note e2 = emits_trans [OF s reads_emits [OF s2(2) emitsD(1) [OF s]]]
    have "tinfl_run (Distance False) E s = tinfl_run Distance_extra E ?s" using False step by (intro run_to) simp
    also have "\<dots> = tinfl_run Copy E (s2\<lparr>m_dist := m_dist s2 + x\<rparr>)"
      using s2(1) reads_same(6) [OF s2(2)] by (intro run_to) (simp add: step_distance_extra_def luasem)
    finally show ?thesis using s2(3) e2 e1 reads_same(4,5) [OF s2(2)] reads_same(5) [OF s1(2)]
      by (intro exI [of _ "s2\<lparr>m_dist := m_dist s2 + x\<rparr>"]) (simp add: ref_dist_def add.assoc emitsD)
  qed
qed

text \<open>A whole match, with the symbol of its length in the counter.\<close>

definition stops_at :: "tinfl_call \<Rightarrow> tinfl_point \<Rightarrow> tinfl \<Rightarrow> nat \<Rightarrow> bool list \<Rightarrow> bytes \<Rightarrow> tinfl \<Rightarrow> bool" where
  "stops_at E p s pos R Q s' \<longleftrightarrow> tinfl_run p E s = Some (Status TINFL_STATUS_HAS_MORE_OUTPUT, s') \<and> ahead E s' pos R
     \<and> full s' \<and> emits E s s' (produced s') \<and> owes s' Q"

lemma stops_at_trans:
  assumes "tinfl_run p E s = tinfl_run p' E s1" "emits E s s1 P" "stops_at E p' s1 pos R Q s'"
  shows "stops_at E p s pos R Q s'"
  using assms emits_trans [OF assms(2)] by (auto simp: stops_at_def)

lemma match_run:
  assumes E: "call_ok E" "st_ok E s" "codes cs ds s"
    and a: "ahead E s pos (number_bits (s_length_extra ! (l - 257)) e @ huff_bits ds d @ number_bits (s_dist_extra ! d) x @ R)"
    and c: "m_counter s AND 511 = l" and t: "token_ok cs ds (length (produced s)) (Ref l e d x)"
    and pos': "pos' = pos + (s_length_extra ! (l - 257) + (ds ! d + s_dist_extra ! d))"
  shows "(\<exists>s'. tinfl_run Match E s = tinfl_run Decode E s' \<and> ahead E s' pos' R
      \<and> emits E s s' (expand_token (Ref l e d x) (produced s)))
   \<or> (\<exists>s'. stops_at E Match s pos' R (expand_token (Ref l e d x) (produced s)) s')"
proof -
  obtain s1 where s1: "tinfl_run Match E s = tinfl_run (Distance False) E s1" "m_counter s1 = ref_length l e"
      "ahead E s1 (pos + s_length_extra ! (l - 257)) (huff_bits ds d @ number_bits (s_dist_extra ! d) x @ R)"
      "emits E s s1 (produced s)"
    using length_run [OF E(1,2) a c] t by auto
  obtain s2 where s2: "tinfl_run (Distance False) E s1 = tinfl_run Copy E s2" "m_dist s2 = ref_dist d x"
      "m_counter s2 = m_counter s1" "ahead E s2 (pos + s_length_extra ! (l - 257) + (ds ! d + s_dist_extra ! d)) R"
      "emits E s1 s2 (produced s1)"
    using distance_run [OF E(1) emitsD(1) [OF s1(4)] codes_emits [OF E(3) s1(4)] s1(3)] t by auto
  have p2: "produced s2 = produced s" using emitsD(4) [OF s1(4)] emitsD(4) [OF s2(5)] by simp
  have e2: "emits E s s2 (produced s)" using emits_trans [OF s1(4) s2(5)] emitsD(4) [OF s1(4)] by simp
  have r2: "tinfl_run Match E s = tinfl_run Copy E s2" using s1(1) s2(1) by (rule trans)
  have "l - 257 < 29" "d < 30" using t by auto
  then have "3 \<le> m_counter s2" "0 < m_dist s2" "m_dist s2 \<le> out_cur s2"
    using t s1(2) s2(2,3) length_base_ge [of "l - 257"] dist_base_pos [of d] p2 length_produced [OF emitsD(1) [OF e2]]
    by (simp_all add: ref_length_def ref_dist_def)
  from copy_run [OF E(1) emitsD(1) [OF e2] this] show ?thesis
  proof (elim disjE exE conjE)
    fix s3 assume s3: "tinfl_run Copy E s2 = tinfl_run Decode E s3" "ahead E s3 = ahead E s2"
      "emits E s2 s3 (lz_copy (m_counter s2) (m_dist s2) (produced s2))"
    show ?thesis using r2 s3(1,2) emits_trans [OF e2 s3(3)] s2(2-4) s1(2) p2 pos'
      by (intro disjI1 exI [of _ s3]) (simp add: add.assoc)
  next
    fix s3 assume s3: "tinfl_run Copy E s2 = Some (Status TINFL_STATUS_HAS_MORE_OUTPUT, s3)" "ahead E s3 = ahead E s2"
      "full s3" "emits E s2 s3 (produced s3)" "owes s3 (lz_copy (m_counter s2) (m_dist s2) (produced s2))"
    have "stops_at E Copy s2 pos' R (expand_token (Ref l e d x) (produced s)) s3"
      using s3 s2(2-4) s1(2) p2 pos' by (simp add: stops_at_def add.assoc)
    then show ?thesis using stops_at_trans [OF r2 e2] by blast
  qed
qed

end
