(* ===== verification/Tinfl_Decode.thy ===== *)
theory Tinfl_Decode
  imports Tinfl_Run
begin

text \<open>
  The loop over the symbols of a block: from the head of the loop, the tokens that are ahead are
  decoded and the output becomes what they mean, or is full before.
\<close>

subsection \<open>Two symbols in one turn\<close>

lemma le32_unat:
  "unat (ucast (b0 :: 8 word) OR push_bit 8 (ucast (b1 :: 8 word)) OR push_bit 16 (ucast (b2 :: 8 word))
      OR push_bit 24 (ucast (b3 :: 8 word)) :: 32 word)
   = unat b0 + 2 ^ 8 * unat b1 + 2 ^ 16 * unat b2 + 2 ^ 24 * unat b3" (is "unat ?w = _")
proof -
  have u: "(ucast b :: 32 word) = of_nat (unat b)" for b :: "8 word" by simp
  note l = byte_less [of b0] byte_less [of b1] byte_less [of b2] byte_less [of b3]
  have l0: "unat b0 + 2 ^ 8 * unat b1 < 2 ^ 16" "unat b0 + 2 ^ 8 * unat b1 + 2 ^ 16 * unat b2 < 2 ^ 24"
    using l by simp_all
  have a: "unat (of_nat (unat b0) :: 32 word) = unat b0"
    using l(1) by (simp only: unsigned_of_nat) (simp add: take_bit_nat_eq_self)
  have b: "unat (of_nat (unat b0) OR push_bit 8 (of_nat (unat b1)) :: 32 word) = unat b0 + 2 ^ 8 * unat b1"
    using unat_push [of "of_nat (unat b0) :: 32 word" 8 "unat b1" 8] l(1,2) by (simp only: a) simp
  have c: "unat ((of_nat (unat b0) OR push_bit 8 (of_nat (unat b1))) OR push_bit 16 (of_nat (unat b2)) :: 32 word)
      = unat b0 + 2 ^ 8 * unat b1 + 2 ^ 16 * unat b2"
    using unat_push [of "of_nat (unat b0) OR push_bit 8 (of_nat (unat b1)) :: 32 word" 16 "unat b2" 8] l0 l(3)
    by (simp only: b) simp
  have d: "unat (((of_nat (unat b0) OR push_bit 8 (of_nat (unat b1))) OR push_bit 16 (of_nat (unat b2)))
      OR push_bit 24 (of_nat (unat b3)) :: 32 word) = unat b0 + 2 ^ 8 * unat b1 + 2 ^ 16 * unat b2 + 2 ^ 24 * unat b3"
    using unat_push [of "(of_nat (unat b0) OR push_bit 8 (of_nat (unat b1))) OR push_bit 16 (of_nat (unat b2)) :: 32 word"
        24 "unat b3" 8] l0 l(4)
    by (simp only: c) simp
  show ?thesis using d by (simp only: u or.assoc)
qed

lemma read_word32:
  assumes "4 \<le> length bs - i"
  obtains w where "MZ_READ_LE32 (at bs) i = Some w" "le_val (drop i bs) = unat w + 2 ^ 32 * le_val (drop (i + 4) bs)"
proof -
  have i: "i < length bs" "i + 1 < length bs" "i + 2 < length bs" "i + 3 < length bs" using assms by simp_all
  let ?w = "ucast (bs ! i) OR push_bit 8 (ucast (bs ! (i + 1))) OR push_bit 16 (ucast (bs ! (i + 2)))
      OR push_bit 24 (ucast (bs ! (i + 3))) :: 32 word"
  have "MZ_READ_LE32 (at bs) i = Some ?w" using i by (simp add: MZ_READ_LE32_def)
  moreover have "le_val (drop i bs) = unat ?w + 2 ^ 32 * le_val (drop (i + 4) bs)"
  proof -
    have "i + 1 + 1 = i + 2" "i + 2 + 1 = i + 3" "i + 3 + 1 = i + 4" by simp_all
    then show ?thesis using le_val_drop [OF i(1)] le_val_drop [OF i(2)] le_val_drop [OF i(3)] le_val_drop [OF i(4)]
      by (simp only: le32_unat) simp
  qed
  ultimately show thesis using that by blast
qed

lemma fast_refill_reads:
  assumes "bits_ok E s" "4 \<le> length (in_buf E) - in_cur s"
  obtains s' where "fast_refill E s = (Inr (), s')" "reads E 0 s s'" "30 \<le> m_num_bits s'"
proof (cases "m_num_bits s < 30")
  case False
  then show thesis using that [of s] reads_refl [OF assms(1)] by (simp add: fast_refill_def luasem)
next
  case True
  obtain w where w: "MZ_READ_LE32 (at (in_buf E)) (in_cur s) = Some w"
      "le_val (drop (in_cur s) (in_buf E)) = unat w + 2 ^ 32 * le_val (drop (in_cur s + 4) (in_buf E))"
    using read_word32 [OF assms(2)] by blast
  have u: "unat w < 2 ^ 32" by (rule order_less_le_trans [OF unsigned_less]) simp
  have v: "unat (ucast w :: 64 word) = unat w" using u by (simp add: unsigned_ucast_eq take_bit_nat_eq_self)
  let ?s = "s\<lparr>m_bit_buf := m_bit_buf s OR push_bit (m_num_bits s) (ucast w), m_num_bits := m_num_bits s + 32,
      in_cur := in_cur s + 4\<rparr>"
  have "fast_refill E s = (Inr (), ?s)" using True w(1) by (simp add: fast_refill_def push_bits_def checked_def luasem)
  moreover have "reads E 0 s ?s" using True assms u w(2) v by (intro push_word_reads) simp_all
  ultimately show thesis using that [of ?s] by simp
qed

lemma mod_and_256: "x mod 512 = y \<Longrightarrow> x AND 256 = 0 \<longleftrightarrow> y < 256" for x y :: nat
proof -
  assume y: "x mod 512 = y"
  have "x AND 2 ^ 8 = 0 \<longleftrightarrow> \<not> bit x 8" by (rule and_exp_eq_0_iff_not_bit)
  then have "x AND 256 = 0 \<longleftrightarrow> even (x div 256)" by (simp add: bit_iff_odd)
  moreover have "x div 256 = 2 * (x div 512) + y div 256"
  proof -
    have "x = 512 * (x div 512) + x mod 512" by simp
    then have "x div 256 = (256 * (2 * (x div 512)) + x mod 512) div 256" by simp
    also have "\<dots> = 2 * (x div 512) + (x mod 512) div 256" by (simp only: div_mult_self4 [OF zero_neq_numeral [symmetric]])
    finally show ?thesis by (simp only: y)
  qed
  moreover have "y div 256 < 2" using y by (intro less_mult_imp_div_less) auto
  moreover have "y div 256 = 0 \<longleftrightarrow> y < 256" by (simp add: div_eq_0_iff)
  ultimately show ?thesis by (cases "y < 256") (auto simp: less_2_cases_iff)
qed

lemma byte_of_mod: "x mod 512 = y \<Longrightarrow> (of_nat x :: 8 word) = of_nat y"
proof -
  assume "x mod 512 = y"
  then have "x mod 256 = y mod 256" using mod_mod_cancel [of 256 512 x] by auto
  then show ?thesis by (simp only: word_of_nat_eq_iff) (simp add: take_bit_eq_mod)
qed

lemma and_511: "x AND 511 = x mod 512" for x :: nat
proof -
  have "x AND 511 = x AND mask 9" by (simp add: mask_eq_exp_minus_1)
  then show ?thesis by (simp add: take_bit_eq_mask [symmetric] take_bit_eq_mod)
qed

lemma fast_symbol_reads:
  assumes "codes cs ds s" "ahead E s pos (huff_bits cs y @ B)" "y < length cs" "0 < cs ! y" "bits_ok E s" "15 \<le> m_num_bits s"
  obtains x s' where "fast_symbol E s = (Inr x, s')" "reads E (cs ! y) s s'" "ahead E s' (pos + cs ! y) B" "x mod 512 = y"
    "m_num_bits s \<le> m_num_bits s' + 15"
proof -
  have g: "good_tables cs (m_tables s ! 0)" using assms(1) by (rule codesD)
  have c: "cs ! y \<le> 15" using begins_length [of cs y] ahead_begins [OF assms(2-4)] g by (auto simp: good_tables_def)
  then have n: "cs ! y \<le> m_num_bits s" using assms(6) by simp
  have "unat (m_bit_buf s) mod 2 ^ (cs ! y) = word_of cs y"
    using bit_buf_mod [OF assms(5) n] ahead_appendD(2) [OF assms(2)] by (simp add: bits_val_huff)
  then obtain x where x: "huff_symbol False (m_tables s ! 0) (m_bit_buf s) = Some (int x, cs ! y)" "x mod 512 = y"
    using good_tables_symbol(2) [OF g assms(3,4)] by blast
  obtain s1 where s1: "drop_bits (cs ! y) E s = (Inr (), s1)" "reads E (cs ! y) s s1"
    using drop_bits_reads [OF assms(5) n] by blast
  have "m_num_bits s1 = m_num_bits s - cs ! y" using s1(1) n by (auto simp: drop_bits_def luasem)
  then have "m_num_bits s \<le> m_num_bits s1 + 15" using c by simp
  moreover have "fast_symbol E s = (Inr x, s1)"
    using x(1) s1(1) by (simp add: fast_symbol_def codesD [OF assms(1)] checked_def luasem)
  moreover have "ahead E s1 (pos + cs ! y) B" using ahead_reads [OF assms(2)] s1(2) by simp
  ultimately show thesis using that s1(2) x(2) by blast
qed

subsection \<open>The symbol at the head\<close>

text \<open>The symbol of the next token or of the end of the block, and the bits after it.\<close>

fun head_sym :: "token list \<Rightarrow> nat" where
  "head_sym [] = 256"
| "head_sym (Lit b # ts) = unat b"
| "head_sym (Ref l e d x # ts) = l"

fun after_sym :: "nat list \<Rightarrow> nat list \<Rightarrow> token list \<Rightarrow> bool list" where
  "after_sym cs ds [] = []"
| "after_sym cs ds (Lit b # ts) = tokens_bits cs ds ts"
| "after_sym cs ds (Ref l e d x # ts) = number_bits (s_length_extra ! (l - 257)) e @ huff_bits ds d
     @ number_bits (s_dist_extra ! d) x @ tokens_bits cs ds ts"

lemma tokens_bits_head: "tokens_bits cs ds ts = huff_bits cs (head_sym ts) @ after_sym cs ds ts"
  by (cases "(cs, ds, ts)" rule: after_sym.cases) (simp_all add: tokens_bits_def)

lemma unat_byte_less: "unat (b :: 8 word) < 256"
  using byte_less [of b] by simp

lemma head_sym_ok:
  assumes "codes cs ds s" "tokens_ok cs ds P ts"
  shows "head_sym ts < length cs" "0 < cs ! head_sym ts" "head_sym ts < 512"
proof -
  have "head_sym ts < length cs \<and> 0 < cs ! head_sym ts" using assms unat_byte_less
    by (cases ts rule: head_sym.cases) (auto simp: codes_def intro: less_trans)
  then show "head_sym ts < length cs" "0 < cs ! head_sym ts" "head_sym ts < 512"
    using codesD(5) [OF assms(1)] by auto
qed

lemma head_lit:
  assumes "head_sym ts < 256" "tokens_ok cs ds P ts"
  obtains b ts' where "ts = Lit b # ts'"
  using assms by (cases ts rule: head_sym.cases) auto

lemma tokens_ok_lits: "tokens_ok cs ds P (map Lit bs @ ts) \<Longrightarrow> tokens_ok cs ds (P @ bs) ts"
proof (induction bs arbitrary: P)
  case (Cons b bs)
  then show ?case using Cons.IH [of "P @ [b]"] by simp
qed simp

lemma expand_tokens_lits: "expand_tokens (map Lit bs @ ts) P = expand_tokens ts (P @ bs)"
  by (induction bs arbitrary: P) auto

subsection \<open>One turn of the loop\<close>

text \<open>
  From the head of the loop to the head again, with literals written; to a symbol that is no literal; or
  to the end of the room for output.
\<close>

definition turn :: "tinfl_call \<Rightarrow> tinfl \<Rightarrow> nat list \<Rightarrow> nat list \<Rightarrow> token list \<Rightarrow> nat \<Rightarrow> bool list \<Rightarrow> bool" where
  "turn E s cs ds ts fin R \<longleftrightarrow>
     (\<exists>s' bs ts' pos. tinfl_run Decode E s = tinfl_run Decode E s' \<and> ts = map Lit bs @ ts' \<and> bs \<noteq> []
       \<and> emits E s s' (produced s @ bs) \<and> ahead E s' pos (tokens_bits cs ds ts' @ R)
       \<and> fin = pos + length (tokens_bits cs ds ts'))
   \<or> (\<exists>s' bs ts' pos. tinfl_run Decode E s = tinfl_run Match E s' \<and> ts = map Lit bs @ ts' \<and> 256 \<le> head_sym ts'
       \<and> m_counter s' AND 511 = head_sym ts' \<and> emits E s s' (produced s @ bs) \<and> ahead E s' pos (after_sym cs ds ts' @ R)
       \<and> fin = pos + length (after_sym cs ds ts'))
   \<or> (\<exists>s' b ts' pos. ts = Lit b # ts' \<and> stops_at E Decode s pos (tokens_bits cs ds ts' @ R) (produced s @ [b]) s'
       \<and> fin = pos + length (tokens_bits cs ds ts'))"

lemma turn_again:
  assumes "tinfl_run Decode E s = tinfl_run Decode E s'" "ts = map Lit bs @ ts'" "bs \<noteq> []"
    "emits E s s' (produced s @ bs)" "ahead E s' pos (tokens_bits cs ds ts' @ R)" "fin = pos + length (tokens_bits cs ds ts')"
  shows "turn E s cs ds ts fin R"
  unfolding turn_def by (rule disjI1) (use assms in blast)

lemma turn_match:
  assumes "tinfl_run Decode E s = tinfl_run Match E s'" "ts = map Lit bs @ ts'" "256 \<le> head_sym ts'"
    "m_counter s' AND 511 = head_sym ts'" "emits E s s' (produced s @ bs)" "ahead E s' pos (after_sym cs ds ts' @ R)"
    "fin = pos + length (after_sym cs ds ts')"
  shows "turn E s cs ds ts fin R"
  unfolding turn_def by (rule disjI2, rule disjI1) (use assms in blast)

lemma turn_stop:
  assumes "ts = Lit b # ts'" "stops_at E Decode s pos (tokens_bits cs ds ts' @ R) (produced s @ [b]) s'"
    "fin = pos + length (tokens_bits cs ds ts')"
  shows "turn E s cs ds ts fin R"
  unfolding turn_def by (rule disjI2, rule disjI2) (use assms in blast)

lemma slow_turn:
  assumes E: "call_ok E" "st_ok E s" "codes cs ds s" and a: "ahead E s pos (tokens_bits cs ds ts @ R)"
    and t: "tokens_ok cs ds (produced s) ts" and fin: "fin = pos + length (tokens_bits cs ds ts)"
    and slow: "length (in_buf E) - in_cur s < 4 \<or> length (out_buf s) - out_cur s < 2"
  shows "turn E s cs ds ts fin R"
proof -
  let ?y = "head_sym ts"
  note y = head_sym_ok [OF E(3) t]
  have a': "ahead E s pos (huff_bits cs ?y @ after_sym cs ds ts @ R)" using a by (simp add: tokens_bits_head [of cs ds ts])
  obtain s1 where s1: "TINFL_HUFF_DECODE 23 False (m_tables s ! 0) E s = (Inr ?y, s1)" "reads E (cs ! ?y) s s1"
      "ahead E s1 (pos + cs ! ?y) (after_sym cs ds ts @ R)"
    using get_symbol [OF a' codesD(3) [OF E(3)] y(1,2) _ call_no_more [OF E(1)]] E(2) by (auto simp: st_ok_def)
  let ?s = "s1\<lparr>m_counter := ?y\<rparr>"
  have e: "emits E s ?s (produced s)" using reads_emits [OF s1(2) E(2)] by simp
  have "tinfl_run Decode E s = tinfl_run (Literal False) E s"
    using slow by (intro run_to) (auto simp: step_decode_def in_avail_def out_avail_def luasem)
  also have "\<dots> = tinfl_run (if 256 \<le> ?y then Match else Literal_out) E ?s"
    using s1(1) by (intro run_to) (simp add: step_literal_def codesD [OF E(3)] set_counter_def luasem)
  finally have r: "tinfl_run Decode E s = tinfl_run (if 256 \<le> ?y then Match else Literal_out) E ?s" .
  have f: "fin = (pos + cs ! ?y) + length (after_sym cs ds ts)" using fin by (simp add: tokens_bits_head [of cs ds ts])
  show ?thesis
  proof (cases "256 \<le> ?y")
    case True
    show ?thesis
    proof (rule turn_match [of E s ?s ts "[]" ts "pos + cs ! ?y"])
      show "m_counter ?s AND 511 = ?y" using y(3) by (simp add: and_511)
      show "ahead E ?s (pos + cs ! ?y) (after_sym cs ds ts @ R)" using s1(3) by simp
    qed (use True r e f in simp_all)
  next
    case False
    then obtain b ts' where ts: "ts = Lit b # ts'" using head_lit [OF _ t] by auto
    have r': "tinfl_run Decode E s = tinfl_run Literal_out E ?s" using r False by simp
    show ?thesis
    proof (cases "full ?s")
      case True
      let ?t = "?s\<lparr>m_state := 24\<rparr>"
      have "tinfl_run Literal_out E ?s = Some (Status TINFL_STATUS_HAS_MORE_OUTPUT, ?t)"
        using True by (intro run_stop) (simp add: step_literal_out_def wait_full luasem)
      then have "stops_at E Literal_out ?s (pos + cs ! ?y) (tokens_bits cs ds ts' @ R) (produced ?s @ [b]) ?t"
        using True s1(3) emits_refl [OF emitsD(1) [OF e]] ts unat_byte_less [of b]
        by (simp add: stops_at_def full_def owes_def)
      from turn_stop [OF ts stops_at_trans [OF r' e this [unfolded emitsD(4) [OF e]]]] show ?thesis using f ts by simp
    next
      case F: False
      then have room: "out_cur ?s < length (out_buf ?s)" using full_cases [OF emitsD(1) [OF e]] by auto
      have "tinfl_step Literal_out E ?s = (Inr Decode, after_byte b ?s)"
        using room ts by (simp add: step_literal_out_def wait_room put_byte_eq luasem)
      then have r2: "tinfl_run Decode E s = tinfl_run Decode E (after_byte b ?s)" using r' run_to by metis
      have e2: "emits E s (after_byte b ?s) (produced s @ [b])"
        using emits_trans [OF e after_byte_emits [OF emitsD(1) [OF e] room]] emitsD(4) [OF e] by simp
      show ?thesis
        by (rule turn_again [OF r2 _ _ e2, of ts ts' "pos + cs ! ?y"]) (use ts s1(3) f in simp_all)
    qed
  qed
qed

lemma fast_turn:
  assumes E: "call_ok E" "st_ok E s" "codes cs ds s" and a: "ahead E s pos (tokens_bits cs ds ts @ R)"
    and t: "tokens_ok cs ds (produced s) ts" and fin: "fin = pos + length (tokens_bits cs ds ts)"
    and fast: "\<not> length (in_buf E) - in_cur s < 4" "\<not> length (out_buf s) - out_cur s < 2"
  shows "turn E s cs ds ts fin R"
proof -
  let ?y = "head_sym ts"
  note y = head_sym_ok [OF E(3) t]
  obtain s0 where s0: "fast_refill E s = (Inr (), s0)" "reads E 0 s s0" "30 \<le> m_num_bits s0"
    using fast_refill_reads [of E s] E(2) fast(1) by (auto simp: st_ok_def)
  note e0 = reads_emits [OF s0(2) E(2)]
  have a0: "ahead E s0 pos (huff_bits cs ?y @ after_sym cs ds ts @ R)"
    using ahead_reads [of E s pos "[]" _ s0] a s0(2) by (simp add: tokens_bits_head [of cs ds ts])
  obtain x s1 where s1: "fast_symbol E s0 = (Inr x, s1)" "reads E (cs ! ?y) s0 s1"
      "ahead E s1 (pos + cs ! ?y) (after_sym cs ds ts @ R)" "x mod 512 = ?y" "m_num_bits s0 \<le> m_num_bits s1 + 15"
    using fast_symbol_reads [OF codes_emits [OF E(3) e0] a0 y(1,2) emitsD(2) [OF e0]] s0(3) by auto
  let ?s = "s1\<lparr>m_counter := x\<rparr>"
  have e1: "emits E s ?s (produced s)"
    using emits_trans [OF e0 reads_emits [OF s1(2) emitsD(1) [OF e0]]] emitsD(4) [OF e0] by simp
  have f: "fin = (pos + cs ! ?y) + length (after_sym cs ds ts)" using fin by (simp add: tokens_bits_head [of cs ds ts])
  have a1: "ahead E ?s (pos + cs ! ?y) (after_sym cs ds ts @ R)" using s1(3) by simp
  show ?thesis
  proof (cases "256 \<le> ?y")
    case True
    then have "tinfl_run Decode E s = tinfl_run Match E ?s" using fast s0(1) s1(1) mod_and_256 [OF s1(4)]
      by (intro run_to) (simp add: step_decode_def in_avail_def out_avail_def set_counter_def luasem)
    then show ?thesis using True e1 a1 f s1(4)
      by (intro turn_match [of E s ?s ts "[]" ts "pos + cs ! ?y"]) (simp_all add: and_511)
  next
    case False
    then obtain b ts' where ts: "ts = Lit b # ts'" using head_lit [OF _ t] by auto
    let ?z = "head_sym ts'"
    have t': "tokens_ok cs ds (produced s @ [b]) ts'" using t ts by simp
    note z = head_sym_ok [OF codes_emits [OF E(3) e1] t']
    have b: "of_nat x = b" using byte_of_mod [OF s1(4)] ts by simp
    have a2: "ahead E ?s (pos + cs ! ?y) (huff_bits cs ?z @ after_sym cs ds ts' @ R)"
      using a1 ts by (simp add: tokens_bits_head [of cs ds ts'])
    have n: "15 \<le> m_num_bits ?s" using s0(3) s1(5) by simp
    obtain x2 s2 where s2: "fast_symbol E ?s = (Inr x2, s2)" "reads E (cs ! ?z) ?s s2"
        "ahead E s2 (pos + cs ! ?y + cs ! ?z) (after_sym cs ds ts' @ R)" "x2 mod 512 = ?z"
      using fast_symbol_reads [OF codes_emits [OF E(3) e1] a2 z(1,2) emitsD(2) [OF e1] n] by metis
    have e2: "emits E s s2 (produced s)"
      using emits_trans [OF e1 reads_emits [OF s2(2) emitsD(1) [OF e1]]] emitsD(4) [OF e1] by simp
    have "length (out_buf s2) = length (out_buf s)" "out_cur s2 = out_cur s"
      using emitsD(5) [OF e2] length_produced [OF emitsD(1) [OF e2]] length_produced [OF E(2)] emitsD(4) [OF e2] by simp_all
    then have room: "out_cur s2 < length (out_buf s2)" "Suc (out_cur s2) < length (out_buf s2)" using fast(2) by simp_all
    let ?t = "after_byte b s2"
    have e3: "emits E s ?t (produced s @ [b])"
      using emits_trans [OF e2 after_byte_emits [OF emitsD(1) [OF e2] room(1)]] emitsD(4) [OF e2] by simp
    have a3: "ahead E ?t (pos + cs ! ?y + cs ! ?z) (after_sym cs ds ts' @ R)" using s2(3) by simp
    have f3: "fin = (pos + cs ! ?y + cs ! ?z) + length (after_sym cs ds ts')"
      using f ts by (simp add: tokens_bits_head [of cs ds ts'])
    note step = step_decode_def in_avail_def out_avail_def set_counter_def luasem
    show ?thesis
    proof (cases "256 \<le> ?z")
      case True
      then have "tinfl_run Decode E s = tinfl_run Match E (?t\<lparr>m_counter := x2\<rparr>)"
        using False fast s0(1) s1(1) s2(1) mod_and_256 [OF s1(4)] mod_and_256 [OF s2(4)] room b
        by (intro run_to) (simp add: step put_byte_eq)
      then show ?thesis using True e3 a3 f3 s2(4) ts
        by (intro turn_match [of E s "?t\<lparr>m_counter := x2\<rparr>" ts "[b]" ts' "pos + cs ! ?y + cs ! ?z"]) (simp_all add: and_511)
    next
      case F: False
      then obtain b2 ts'' where ts': "ts' = Lit b2 # ts''" using head_lit [OF _ t'] by auto
      have b2: "of_nat x2 = b2" using byte_of_mod [OF s2(4)] ts' by simp
      have room2: "out_cur ?t < length (out_buf ?t)" using room by (simp add: after_byte_def)
      have "tinfl_run Decode E s = tinfl_run Decode E (after_byte b2 ?t)"
        using False F fast s0(1) s1(1) s2(1) mod_and_256 [OF s1(4)] mod_and_256 [OF s2(4)] room room2 b b2
        by (intro run_to) (simp add: step put_byte_eq)
      moreover have "emits E s (after_byte b2 ?t) (produced s @ [b, b2])"
        using emits_trans [OF e3 after_byte_emits [OF emitsD(1) [OF e3] room2]] emitsD(4) [OF e3] by simp
      ultimately show ?thesis using a3 f3 ts ts'
        by (intro turn_again [of E s "after_byte b2 ?t" ts "[b, b2]" ts'' "pos + cs ! ?y + cs ! ?z"]) simp_all
    qed
  qed
qed

lemma decode_turn:
  assumes "call_ok E" "st_ok E s" "codes cs ds s" "ahead E s pos (tokens_bits cs ds ts @ R)"
    "tokens_ok cs ds (produced s) ts" "fin = pos + length (tokens_bits cs ds ts)"
  shows "turn E s cs ds ts fin R"
  using slow_turn [OF assms] fast_turn [OF assms] by blast

subsection \<open>All tokens of a block\<close>

definition tokens_end ::
  "tinfl_call \<Rightarrow> tinfl_point \<Rightarrow> tinfl \<Rightarrow> nat list \<Rightarrow> nat list \<Rightarrow> nat \<Rightarrow> bool list \<Rightarrow> bytes \<Rightarrow> bool" where
  "tokens_end E p s cs ds fin R W \<longleftrightarrow>
     (\<exists>s'. tinfl_run p E s = tinfl_run Block_end E s' \<and> ahead E s' fin R \<and> emits E s s' W)
   \<or> (\<exists>s'. tinfl_run p E s = Some (Status TINFL_STATUS_HAS_MORE_OUTPUT, s') \<and> emits E s s' (produced s')
       \<and> full s' \<and> stopped E cs ds fin R W s')"

lemma tokens_end_trans:
  assumes "tinfl_run p E s = tinfl_run p' E s1" "emits E s s1 P" "tokens_end E p' s1 cs ds fin R W"
  shows "tokens_end E p s cs ds fin R W"
  using assms(3) emits_trans [OF assms(2)] unfolding tokens_end_def assms(1) by blast

lemma tokens_end_stop:
  assumes "stops_at E p s pos (tokens_bits cs ds ts @ R) Q s'" "tokens_ok cs ds Q ts" "fin = pos + length (tokens_bits cs ds ts)"
    "W = expand_tokens ts Q"
  shows "tokens_end E p s cs ds fin R W"
proof -
  have "stopped E cs ds fin R W s'" using assms unfolding stopped_def stops_at_def by blast
  then show ?thesis using assms(1) unfolding tokens_end_def stops_at_def by blast
qed

lemma end_of_block:
  assumes "st_ok E s" "m_counter s AND 511 = 256" "ahead E s pos R"
  shows "tokens_end E Match s cs ds pos R (produced s)"
proof -
  have "tinfl_run Match E s = tinfl_run Block_end E (s\<lparr>m_counter := 256\<rparr>)"
    using assms(2) by (intro run_to) (simp add: step_match_def Let_def set_counter_def luasem)
  then show ?thesis unfolding tokens_end_def using assms(3) emits_refl [OF assms(1)]
    by (intro disjI1 exI [of _ "s\<lparr>m_counter := 256\<rparr>"]) simp
qed

lemma tokens_run:
  assumes "call_ok E" "st_ok E s" "codes cs ds s" "ahead E s pos (tokens_bits cs ds ts @ R)"
    "tokens_ok cs ds (produced s) ts" "fin = pos + length (tokens_bits cs ds ts)"
  shows "tokens_end E Decode s cs ds fin R (expand_tokens ts (produced s))"
  using assms(2-)
proof (induction "length ts" arbitrary: ts s pos rule: less_induct)
  case less
  note E = assms(1)
  from decode_turn [OF E less.prems] consider
      (again) s1 bs ts' p1 where "tinfl_run Decode E s = tinfl_run Decode E s1" "ts = map Lit bs @ ts'" "bs \<noteq> []"
        "emits E s s1 (produced s @ bs)" "ahead E s1 p1 (tokens_bits cs ds ts' @ R)" "fin = p1 + length (tokens_bits cs ds ts')"
    | (match) s1 bs ts' p1 where "tinfl_run Decode E s = tinfl_run Match E s1" "ts = map Lit bs @ ts'" "256 \<le> head_sym ts'"
        "m_counter s1 AND 511 = head_sym ts'" "emits E s s1 (produced s @ bs)" "ahead E s1 p1 (after_sym cs ds ts' @ R)"
        "fin = p1 + length (after_sym cs ds ts')"
    | (stop) s1 b ts' p1 where "ts = Lit b # ts'" "stops_at E Decode s p1 (tokens_bits cs ds ts' @ R) (produced s @ [b]) s1"
        "fin = p1 + length (tokens_bits cs ds ts')"
    unfolding turn_def by blast
  then show ?case
  proof cases
    case again
    have t: "tokens_ok cs ds (produced s1) ts'"
      using tokens_ok_lits less.prems(4) again(2) emitsD(4) [OF again(4)] by auto
    have "length ts' < length ts" using again(2,3) by (cases bs) simp_all
    from less.hyps [OF this emitsD(1) [OF again(4)] codes_emits [OF less.prems(2) again(4)] again(5) t again(6)]
    have "tokens_end E Decode s1 cs ds fin R (expand_tokens ts (produced s))"
      using emitsD(4) [OF again(4)] again(2) by (simp add: expand_tokens_lits)
    then show ?thesis using tokens_end_trans [OF again(1,4)] by blast
  next
    case stop
    then show ?thesis using less.prems(4) by (intro tokens_end_stop [OF stop(2) _ stop(3)]) simp_all
  next
    case match
    have t: "tokens_ok cs ds (produced s1) ts'" "expand_tokens ts (produced s) = expand_tokens ts' (produced s1)"
      using tokens_ok_lits [of cs ds "produced s" bs ts'] less.prems(4) match(2) emitsD(4) [OF match(5)]
      by (simp_all add: expand_tokens_lits)
    note st = emitsD(1) [OF match(5)] codes_emits [OF less.prems(2) match(5)]
    have "tokens_end E Match s1 cs ds fin R (expand_tokens ts' (produced s1))"
    proof (cases ts' rule: head_sym.cases)
      case 1
      then show ?thesis using end_of_block [OF st(1), of p1 R cs ds] match(4,6,7) by simp
    next
      case (2 b ts'')
      then show ?thesis using match(3) unat_byte_less [of b] by simp
    next
      case (3 l e d x ts'')
      let ?t = "Ref l e d x" and ?Q = "expand_token (Ref l e d x) (produced s1)"
      let ?q = "p1 + (s_length_extra ! (l - 257) + (ds ! d + s_dist_extra ! d))"
      have ok: "token_ok cs ds (length (produced s1)) ?t" "tokens_ok cs ds ?Q ts''" using t(1) 3 by simp_all
      have a: "ahead E s1 p1 (number_bits (s_length_extra ! (l - 257)) e @ huff_bits ds d @ number_bits (s_dist_extra ! d) x
          @ tokens_bits cs ds ts'' @ R)" using match(6) 3 by simp
      have c: "m_counter s1 AND 511 = l" using match(4) 3 by simp
      have f: "fin = ?q + length (tokens_bits cs ds ts'')" using match(7) 3 by simp
      from match_run [OF E st a c ok(1) refl] show ?thesis
      proof (elim disjE exE conjE)
        fix s2 assume s2: "tinfl_run Match E s1 = tinfl_run Decode E s2" "ahead E s2 ?q (tokens_bits cs ds ts'' @ R)" "emits E s1 s2 ?Q"
        have "length ts'' < length ts" using match(2) 3 by simp
        from less.hyps [OF this emitsD(1) [OF s2(3)] codes_emits [OF st(2) s2(3)] s2(2) _ f] ok(2) emitsD(4) [OF s2(3)] 3
        have "tokens_end E Decode s2 cs ds fin R (expand_tokens ts' (produced s1))" by simp
        then show ?thesis using tokens_end_trans [OF s2(1,3)] by blast
      next
        fix s2 assume "stops_at E Match s1 ?q (tokens_bits cs ds ts'' @ R) ?Q s2"
        from tokens_end_stop [OF this ok(2) f] show ?thesis using 3 by simp
      qed
    qed
    then show ?thesis using tokens_end_trans [OF match(1,5)] t(2) by simp
  qed
qed

text \<open>A run that was stopped goes on where it stopped.\<close>

lemma tokens_resume:
  assumes E: "call_ok E" "st_ok E s" "codes cs ds s" and o: "owes s Q" "resume_point (m_state s) = Some p"
    and a: "ahead E s pos (tokens_bits cs ds ts @ R)" and t: "tokens_ok cs ds Q ts" and fin: "fin = pos + length (tokens_bits cs ds ts)"
  shows "tokens_end E p s cs ds fin R (expand_tokens ts Q)"
proof (cases "full s")
  case True
  have "tinfl_run p E s = Some (Status TINFL_STATUS_HAS_MORE_OUTPUT, s)"
    using o True by (intro run_stop) (auto simp: owes_def resume_point_def step_literal_out_def step_slow_copy_out_def wait_full luasem)
  then have "stops_at E p s pos (tokens_bits cs ds ts @ R) Q s"
    using True a o(1) emits_refl [OF E(2)] by (simp add: stops_at_def)
  from tokens_end_stop [OF this t fin refl] show ?thesis .
next
  case False
  then have room: "out_cur s < length (out_buf s)" using full_cases [OF E(2)] by blast
  have go: "tokens_end E p s cs ds fin R (expand_tokens ts Q)"
    if "tinfl_run p E s = tinfl_run Decode E s'" "emits E s s' Q" "ahead E s' = ahead E s" for s'
  proof -
    have "tokens_end E Decode s' cs ds fin R (expand_tokens ts (produced s'))"
      using tokens_run [OF E(1) emitsD(1) [OF that(2)] codes_emits [OF E(3) that(2)] _ _ fin] a t that emitsD(4) [OF that(2)] by simp
    then show ?thesis using tokens_end_trans [OF that(1,2)] emitsD(4) [OF that(2)] by simp
  qed
  consider (lit) "m_state s = 24" "p = Literal_out" "m_counter s < 256" "Q = produced s @ [of_nat (m_counter s)]"
    | (copy) "m_state s = 53" "p = Slow_copy_out" "0 < m_dist s" "m_dist s \<le> out_cur s" "m_dist_from_out_buf_start s = out_cur s"
        "Q = lz_copy (m_counter s + 1) (m_dist s) (produced s)"
    using o by (auto simp: owes_def resume_point_def)
  then show ?thesis
  proof cases
    case lit
    have "tinfl_run p E s = tinfl_run Decode E (after_byte (of_nat (m_counter s)) s)"
      using lit(2) room by (intro run_to) (simp add: step_literal_out_def wait_room put_byte_eq luasem)
    from go [OF this _ ahead_after_byte] show ?thesis using after_byte_emits [OF E(2) room] lit(4) by simp
  next
    case copy
    let ?P = "produced s @ [produced s ! (length (produced s) - m_dist s)]"
    obtain s1 where s1: "tinfl_step Slow_copy_out E s = (Inr Slow_copy, s1)" "emits E s s1 ?P" "ahead E s1 = ahead E s"
      "m_counter s1 = m_counter s" "m_dist s1 = m_dist s" "m_dist_from_out_buf_start s1 = out_cur s1" "out_cur s1 = out_cur s + 1"
      using slow_copy_out_step [OF E(1,2) copy(3-5) room] by blast
    have Q: "lz_copy (m_counter s1) (m_dist s1) (produced s1) = Q" unfolding s1(4,5) copy(6) emitsD(4) [OF s1(2)] by simp
    have r: "tinfl_run p E s = tinfl_run Slow_copy E s1" using run_to [OF s1(1)] copy(2) by simp
    have c: "0 < m_dist s1" "m_dist s1 \<le> out_cur s1" using s1(5,7) copy(3,4) by simp_all
    from slow_copy [OF E(1) emitsD(1) [OF s1(2)] c s1(6)] show ?thesis unfolding Q
    proof (elim disjE exE conjE)
      fix s2 assume s2: "tinfl_run Slow_copy E s1 = tinfl_run Decode E s2" "ahead E s2 = ahead E s1" "emits E s1 s2 Q"
      show ?thesis by (rule go [OF trans [OF r s2(1)] emits_trans [OF s1(2) s2(3)] trans [OF s2(2) s1(3)]])
    next
      fix s2 assume s2: "tinfl_run Slow_copy E s1 = Some (Status TINFL_STATUS_HAS_MORE_OUTPUT, s2)" "ahead E s2 = ahead E s1"
        "full s2" "emits E s1 s2 (produced s2)" "owes s2 Q"
      have "stops_at E Slow_copy s1 pos (tokens_bits cs ds ts @ R) Q s2" using s2 s1(3) a by (simp add: stops_at_def)
      from tokens_end_stop [OF stops_at_trans [OF r s1(2) this] t fin refl] show ?thesis .
    qed
  qed
qed

end
