(* ===== verification/Tinfl_Blocks.thy ===== *)
theory Tinfl_Blocks
  imports Tinfl_Decode
begin

text \<open>
  The runs of the inflater on the header of a block and on the bytes of a stored block.
\<close>

subsection \<open>Shapes\<close>

text \<open>The arrays of the decompressor have their sizes.\<close>

definition shaped :: "'a tinfl_decompressor_scheme \<Rightarrow> bool" where
  "shaped s \<longleftrightarrow> length (m_tables s) = 3 \<and> (\<forall>p \<in> set (m_tables s). length (m_code_size p) = 288)
     \<and> length (m_table_sizes s) = 3 \<and> length (m_raw_header s) = 4 \<and> length (m_len_codes s) = 457"

text \<open>As \<open>emits\<close>, but the tables, the flag of the last block and the header may have changed.\<close>

definition goes :: "tinfl_call \<Rightarrow> tinfl \<Rightarrow> tinfl \<Rightarrow> bytes \<Rightarrow> bool" where
  "goes E s s' Q \<longleftrightarrow> st_ok E s' \<and> shaped s' \<and> m_z_adler32 s' = m_z_adler32 s \<and> m_check_adler32 s' = m_check_adler32 s
     \<and> length (out_buf s') = length (out_buf s)
     \<and> out_cur s \<le> out_cur s' \<and> drop (out_cur s') (out_buf s') = drop (out_cur s') (out_buf s) \<and> produced s' = Q"

lemma goes_refl: "st_ok E s \<Longrightarrow> shaped s \<Longrightarrow> goes E s s (produced s)"
  by (simp add: goes_def)

lemma emits_goes: "emits E s s' Q \<Longrightarrow> shaped s \<Longrightarrow> goes E s s' Q"
  by (simp add: goes_def emits_def same_tables_def shaped_def)

lemma goes_trans:
  assumes "goes E s s' P" "goes E s' s'' Q"
  shows "goes E s s'' Q"
proof -
  have "drop (out_cur s') (out_buf s') = drop (out_cur s') (out_buf s)" using assms(1) by (simp only: goes_def)
  then have "drop (out_cur s'' - out_cur s') (drop (out_cur s') (out_buf s'))
      = drop (out_cur s'' - out_cur s') (drop (out_cur s') (out_buf s))" by (rule arg_cong)
  moreover have "out_cur s'' - out_cur s' + out_cur s' = out_cur s''" using assms(2) by (simp add: goes_def)
  ultimately have "drop (out_cur s'') (out_buf s') = drop (out_cur s'') (out_buf s)" by (simp only: drop_drop)
  then show ?thesis using assms by (auto simp: goes_def)
qed

lemma goesD:
  assumes "goes E s s' Q"
  shows "st_ok E s'" "bits_ok E s'" "shaped s'" "produced s' = Q" "length (out_buf s') = length (out_buf s)" "out_cur s \<le> out_cur s'"
  using assms by (simp_all add: goes_def st_ok_def)

lemma goes_set [simp]:
  "goes E s (s'\<lparr>m_counter := a\<rparr>) Q = goes E s s' Q"
  "goes E s (s'\<lparr>m_dist := a\<rparr>) Q = goes E s s' Q"
  "goes E s (s'\<lparr>m_num_extra := a\<rparr>) Q = goes E s s' Q"
  "goes E s (s'\<lparr>m_state := a\<rparr>) Q = goes E s s' Q"
  "goes E s (s'\<lparr>m_type := t\<rparr>) Q = goes E s s' Q"
  "goes E s (s'\<lparr>m_final := a\<rparr>) Q = goes E s s' Q"
  by (simp_all add: goes_def st_ok_def bits_ok_def shaped_def produced_def)

lemma reads_shaped: "reads E n s s' \<Longrightarrow> shaped s \<Longrightarrow> shaped s'"
  by (simp add: shaped_def reads_same)

lemma reads_goes: "reads E n s s' \<Longrightarrow> st_ok E s \<Longrightarrow> shaped s \<Longrightarrow> goes E s s' (produced s)"
  by (rule emits_goes [OF reads_emits])

text \<open>A change of the arrays that same_tables their sizes.\<close>

lemma goes_same_output:
  assumes "goes E s s' Q" "shaped s''" "m_bit_buf s'' = m_bit_buf s'" "m_num_bits s'' = m_num_bits s'" "in_cur s'' = in_cur s'"
    "out_buf s'' = out_buf s'" "out_cur s'' = out_cur s'" "m_z_adler32 s'' = m_z_adler32 s'" "m_check_adler32 s'' = m_check_adler32 s'"
  shows "goes E s s'' Q"
  using assms by (simp add: goes_def st_ok_def bits_ok_def produced_def)

subsection \<open>The head of a block\<close>

definition type_bits :: "bool \<Rightarrow> nat \<Rightarrow> nat" where
  "type_bits fin t = of_bool fin + 2 * t"

lemma type_number:
  assumes "t < 4"
  shows "number_bits 3 (type_bits fin t) = [fin, odd t, 2 \<le> t]"
proof -
  have n0: "number_bits 0 v = []" for v by (simp add: number_bits_def)
  have "number_bits 3 (type_bits fin t) = [fin, odd t, odd (t div 2)]"
    by (simp add: numeral_3_eq_3 number_bits_Suc n0 type_bits_def del: One_nat_def)
  moreover have "odd (t div 2) \<longleftrightarrow> 2 \<le> t" using assms by presburger
  ultimately show ?thesis by simp
qed

lemma type_bits_eq: "type_bits fin t div 2 = t" "t < 4 \<Longrightarrow> type_bits fin t < 8" "odd (type_bits fin t) = fin"
  "type_bits fin t AND 1 = of_bool fin"
  by (simp_all add: type_bits_def and_one_eq mod_2_eq_odd)

text \<open>The three bits at the head of a block.\<close>

lemma block_head:
  assumes "call_ok E" "st_ok E s" "shaped s" "ahead E s pos ([fin, odd t, 2 \<le> t] @ B)" "t < 4"
  obtains s' where "TINFL_GET_BITS 3 3 E s = (Inr (type_bits fin t), s')" "goes E s s' (produced s)" "ahead E s' (pos + 3) B"
    "m_tables s' = m_tables s" "m_table_sizes s' = m_table_sizes s"
proof -
  have a: "ahead E s pos (number_bits 3 (type_bits fin t) @ B)" using assms(4,5) by (simp add: type_number)
  have b: "bits_ok E s" using assms(2) by (simp add: st_ok_def)
  obtain s' where s': "TINFL_GET_BITS 3 3 E s = (Inr (type_bits fin t), s')" "reads E 3 s s'" "ahead E s' (pos + 3) B"
    using get_number [OF a _ _ b call_no_more [OF assms(1)]] type_bits_eq(2) [OF assms(5)] by auto
  then show thesis using that reads_goes [OF s'(2) assms(2,3)] reads_same(7,9) [OF s'(2)] by blast
qed

end
