(* ===== verification/Tinfl_Stored.thy ===== *)
theory Tinfl_Stored
  imports Tinfl_Blocks
begin

text \<open>
  The runs of the inflater on a stored block: the rest of a byte is skipped, the length and its
  complement are read, and the bytes are copied, first those that are already in the buffer of
  bits, then directly from the input.
\<close>

abbreviation bytes_bits :: "bytes \<Rightarrow> bool list" where
  "bytes_bits bs \<equiv> concat (map (\<lambda>b. number_bits 8 (unat b)) bs)"

lemma length_bytes_bits [simp]: "length (bytes_bits bs) = 8 * length bs"
  by (induction bs) simp_all

lemma bits_val_bytes: "bits_val (bytes_bits bs) = le_val bs"
proof (induction bs)
  case (Cons b bs)
  have "unat b mod 256 = unat b" using unat_byte_less [of b] by simp
  then show ?case using Cons by (simp add: bits_val_append bits_val_number)
qed simp

lemma and_7: "n AND 7 = n mod 8" for n :: nat
proof -
  have "n AND 7 = n AND mask 3" by (simp add: mask_eq_exp_minus_1)
  then show ?thesis by (simp add: take_bit_eq_mask [symmetric] take_bit_eq_mod)
qed

lemma skip_bits_reads:
  assumes "bits_ok E s" "n \<le> m_num_bits s"
  obtains s' where "TINFL_SKIP_BITS i n E s = (Inr (), s')" "reads E n s s'"
proof -
  have "TINFL_NEED_BITS i n E s = (Inr (), s)" using assms(2) by (subst TINFL_NEED_BITS.simps) simp
  then show thesis using that drop_bits_reads [OF assms] by (auto simp: TINFL_SKIP_BITS_def run_thenM)
qed

lemma mod_8_neg:
  fixes a p :: nat
  assumes "(a + p) mod 8 = 0"
  shows "a mod 8 = (8 - p mod 8) mod 8"
proof -
  define x y where "x = a mod 8" and "y = p mod 8"
  have xy: "(x + y) mod 8 = 0" "x < 8" "y < 8" using assms by (simp_all add: x_def y_def mod_add_eq)
  then have "x + y = 0 \<or> x + y = 8" by (cases "x + y < 8") (auto simp: mod_if split: if_splits)
  then show ?thesis unfolding x_def [symmetric] y_def [symmetric] using xy(2,3) by (cases "x = 0") auto
qed

text \<open>The bits in the buffer of bits end at a byte of the input.\<close>

lemma ahead_align: "ahead E s pos B \<Longrightarrow> m_num_bits s mod 8 = (8 - pos mod 8) mod 8"
proof -
  assume "ahead E s pos B"
  then have "(8 * (length (in_buf E) - in_cur s) + (m_num_bits s + pos)) mod 8 = 0"
    by (simp add: ahead_def left_bits_def add.assoc)
  then have "(m_num_bits s + pos) mod 8 = 0" by (simp only: mod_mult_self4)
  then show ?thesis by (rule mod_8_neg)
qed

lemma skip_to_byte_run:
  assumes "call_ok E" "st_ok E s" "shaped s" "ahead E s pos (replicate ((8 - pos mod 8) mod 8) False @ B)"
  obtains s' where "tinfl_run Skip_to_byte E s = tinfl_run Raw_header E s'" "m_counter s' = 0"
    "ahead E s' (pos + (8 - pos mod 8) mod 8) B" "emits E s s' (produced s)"
proof -
  let ?k = "(8 - pos mod 8) mod 8"
  have k: "m_num_bits s AND 7 = ?k" using ahead_align [OF assms(4)] by (simp add: and_7)
  have b: "bits_ok E s" using assms(2) by (simp add: st_ok_def)
  have "?k \<le> m_num_bits s" using k by (simp add: and_7 flip: k)
  then obtain s1 where s1: "TINFL_SKIP_BITS 5 ?k E s = (Inr (), s1)" "reads E ?k s s1"
    using skip_bits_reads [OF b] by blast
  have "tinfl_run Skip_to_byte E s = tinfl_run Raw_header E (s1\<lparr>m_counter := 0\<rparr>)"
    using s1(1) k by (intro run_to) (simp add: step_skip_to_byte_def set_counter_def luasem)
  moreover have "ahead E s1 (pos + ?k) B" using ahead_reads [OF assms(4)] s1(2) by simp
  ultimately show thesis using that [of "s1\<lparr>m_counter := 0\<rparr>"] reads_emits [OF s1(2) assms(2)] by simp
qed

subsection \<open>A byte at a byte boundary\<close>

lemma le_val_byte: "i < length bs \<Longrightarrow> le_val (drop i bs) mod 256 = unat (bs ! i) \<and> le_val (drop i bs) div 256 = le_val (drop (i + 1) bs)"
  using unat_byte_less [of "bs ! i"] by (simp add: le_val_drop)

lemma get_whole_byte:
  assumes "ahead E s pos (number_bits 8 v @ B)" "v < 256" "bits_ok E s" "no_more E"
  obtains s' where
    "(if m_num_bits s \<noteq> 0 then bindM (TINFL_GET_BITS i 8) (\<lambda>b. retM (of_nat b)) else TINFL_GET_BYTE j) E s = (Inr (of_nat v :: 8 word), s')"
    "reads E 8 s s'" "ahead E s' (pos + 8) B"
proof (cases "m_num_bits s = 0")
  case False
  obtain s' where "TINFL_GET_BITS i 8 E s = (Inr v, s')" "reads E 8 s s'" "ahead E s' (pos + 8) B"
    using get_number [OF assms(1) _ _ assms(3,4)] assms(2) by auto
  then show thesis using that [of s'] False by (simp add: luasem)
next
  case True
  have "8 \<le> 8 * (length (in_buf E) - in_cur s)" using assms(1) True by (simp add: ahead_def left_bits_def)
  then have i: "in_cur s < length (in_buf E)" "in_cur s \<le> length (in_buf E)" by simp_all
  have z: "unat (m_bit_buf s) = 0" using assms(3) True by (simp add: bits_ok_def)
  have t: "todo E s = le_val (drop (in_cur s) (in_buf E))" using True z by (simp add: todo_def)
  note l = le_val_byte [OF i(1)]
  have "of_nat (unat (in_buf E ! in_cur s)) = (of_nat v :: 8 word)" using ahead_appendD(2) [OF assms(1)] assms(2) l t by (simp add: bits_val_number)
  then have v: "in_buf E ! in_cur s = of_nat v" by simp
  let ?s = "s\<lparr>in_cur := in_cur s + 1\<rparr>"
  have "TINFL_GET_BYTE j E s = (Inr (of_nat v), ?s)"
    using i v by (simp add: TINFL_GET_BYTE_def in_avail_def next_byte_def checked_def luasem)
  moreover have r: "reads E 8 s ?s"
  proof (rule readsI [where j = 0])
    show "bits_ok E ?s" using assms(3) i by (simp add: bits_ok_def)
    have "todo E ?s = le_val (drop (in_cur s + 1) (in_buf E))" using True z by (simp add: todo_def)
    then show "todo E ?s = todo E s div 2 ^ 8" using l t by simp
    show "left_bits E ?s + 8 = left_bits E s + 8 * 0" using i by (simp add: left_bits_def)
  qed simp
  moreover have "ahead E ?s (pos + 8) B" using ahead_reads [OF assms(1)] r by simp
  ultimately show thesis using that [of ?s] True by simp
qed

text \<open>The four bytes of the length.\<close>

lemma raw_header_byte:
  assumes "call_ok E" "st_ok E s" "shaped s" "ahead E s pos (number_bits 8 v @ B)" "v < 256" "m_counter s = i" "i < 4"
  obtains s' where "tinfl_run Raw_header E s = tinfl_run Raw_header E s'" "m_counter s' = i + 1"
    "m_raw_header s' = (m_raw_header s)[i := of_nat v]" "ahead E s' (pos + 8) B" "goes E s s' (produced s)" "m_final s' = m_final s"
proof -
  have b: "bits_ok E s" using assms(2) by (simp add: st_ok_def)
  obtain s1 where s1:
    "(if m_num_bits s \<noteq> 0 then bindM (TINFL_GET_BITS 6 8) (\<lambda>b. retM (of_nat b)) else TINFL_GET_BYTE 7) E s = (Inr (of_nat v :: 8 word), s1)"
    "reads E 8 s s1" "ahead E s1 (pos + 8) B"
    using get_whole_byte [OF assms(4,5) b call_no_more [OF assms(1)]] by blast
  let ?h = "(m_raw_header s)[i := of_nat v]"
  let ?s = "s1\<lparr>m_raw_header := ?h, m_counter := i + 1\<rparr>"
  have "length (m_raw_header s) = 4" using assms(3) by (simp add: shaped_def)
  then have "tinfl_run Raw_header E s = tinfl_run Raw_header E ?s"
    using s1(1) assms(6,7) reads_same(10) [OF s1(2)]
    by (intro run_to) (simp add: step_raw_header_def run_bindM run_getM run_thenM run_modM run_retM set_counter_def checked_def put_def)
  moreover have "goes E s ?s (produced s)"
    by (rule goes_same_output [OF reads_goes [OF s1(2) assms(2,3)]]) (use reads_shaped [OF s1(2) assms(3)] in \<open>simp_all add: shaped_def reads_same [OF s1(2)]\<close>)
  ultimately show thesis using that [of ?s] s1(3) reads_same(2) [OF s1(2)] by simp
qed

lemma number_bits_add: "number_bits (a + b) v = number_bits a v @ number_bits b (v div 2 ^ a)"
proof (induction a arbitrary: v)
  case 0
  then show ?case by (simp add: number_bits_def)
next
  case (Suc a)
  then show ?case by (simp add: number_bits_Suc div_mult2_eq)
qed

lemma number_bits_mod: "number_bits n (v mod 2 ^ n) = number_bits n v"
  by (auto simp: number_bits_def bit_take_bit_iff simp flip: take_bit_eq_mod)

lemma number_bits_16:
  "number_bits 16 n = number_bits 8 (n mod 256) @ number_bits 8 (n div 256)"
  using number_bits_add [of 8 8 n] number_bits_mod [of 8 n] by simp

lemma xor_complement:
  assumes "n < 65536"
  shows "(0xFFFF :: 32 word) XOR of_nat (65535 - n) = of_nat n"
proof -
  let ?w = "of_nat n :: 32 word" and ?m = "mask 16 :: 32 word"
  have m: "?m = 0xFFFF" by (simp add: mask_eq_exp_minus_1)
  have "take_bit 16 ?w = ?w" using assms by (simp add: take_bit_of_nat take_bit_nat_eq_self)
  then have b: "bit ?w i \<Longrightarrow> i < 16" for i by (metis bit_take_bit_iff)
  have "?w + (?m XOR ?w) = ?w OR (?m XOR ?w)" by (rule disjunctive_add) (auto simp: bit_xor_iff bit_mask_iff dest: b)
  also have "\<dots> = ?m"
  proof (rule bit_word_eqI)
    fix i assume "i < LENGTH(32)"
    then show "bit (?w OR (?m XOR ?w)) i = bit ?m i" using b [of i] by (auto simp: bit_or_iff bit_xor_iff bit_mask_iff)
  qed
  finally have "?m XOR ?w = ?m - ?w" by (simp add: eq_diff_eq add.commute)
  also have "\<dots> = of_nat (65535 - n)" using assms m by (simp add: of_nat_diff)
  finally have "?m XOR of_nat (65535 - n) = ?m XOR (?m XOR ?w)" by simp
  then show ?thesis by (simp add: m flip: xor.assoc)
qed

lemma le16_of_nat:
  assumes "n < 65536" "a = of_nat (n mod 256)" "b = of_nat (n div 256)"
  shows "(ucast (a :: 8 word) OR push_bit 8 (ucast (b :: 8 word)) :: 32 word) = of_nat n"
proof -
  have v: "unat (of_nat k :: 8 word) = k" if "k < 256" for k
    using that by (simp only: unsigned_of_nat) (simp add: take_bit_nat_eq_self)
  have k: "n mod 256 < 256" "n div 256 < 256" using assms(1) by (simp_all add: less_mult_imp_div_less)
  have w: "(ucast x :: 32 word) = of_nat (unat x)" for x :: "8 word" by simp
  have e: "(ucast a :: 32 word) = of_nat (n mod 256)" "(ucast b :: 32 word) = of_nat (n div 256)"
    by (simp_all only: w assms(2,3) v [OF k(1)] v [OF k(2)])
  have u: "unat (of_nat (n mod 256) :: 32 word) = n mod 256"
    using k(1) by (simp only: unsigned_of_nat) (simp add: take_bit_nat_eq_self)
  have "unat (of_nat (n mod 256) OR push_bit 8 (of_nat (n div 256)) :: 32 word) = n mod 256 + 2 ^ 8 * (n div 256)"
    using unat_push [of "of_nat (n mod 256) :: 32 word" 8 "n div 256" 8] k by (simp only: u) simp
  then have "unat (ucast a OR push_bit 8 (ucast b) :: 32 word) = n" by (simp only: e) simp
  then have "of_nat (unat (ucast a OR push_bit 8 (ucast b) :: 32 word)) = (of_nat n :: 32 word)" by (rule arg_cong)
  then show ?thesis by (simp del: unsigned_or_eq)
qed

lemma raw_header_run:
  assumes E: "call_ok E" "st_ok E s" "shaped s" and n: "n < 65536" "m_counter s = 0"
    and a: "ahead E s pos (number_bits 16 n @ number_bits 16 (65535 - n) @ B)"
  obtains s' where "tinfl_run Raw_header E s = tinfl_run Raw_bits E s'" "m_counter s' = n" "ahead E s' (pos + 32) B"
    "goes E s s' (produced s)" "m_final s' = m_final s"
proof -
  let ?m = "65535 - n"
  have lt: "n mod 256 < 256" "n div 256 < 256" "?m mod 256 < 256" "?m div 256 < 256" "?m < 65536"
    using n(1) by (simp_all add: less_mult_imp_div_less)
  note a1 = a [unfolded number_bits_16, simplified append_assoc]
  obtain s1 where s1: "tinfl_run Raw_header E s = tinfl_run Raw_header E s1" "m_counter s1 = 0 + 1"
    "m_raw_header s1 = (m_raw_header s)[0 := of_nat (n mod 256)]"
    "ahead E s1 (pos + 8) (number_bits 8 (n div 256) @ number_bits 8 (?m mod 256) @ number_bits 8 (?m div 256) @ B)"
    "goes E s s1 (produced s)" "m_final s1 = m_final s"
    using raw_header_byte [OF E a1 lt(1) n(2)] by auto
  have c1: "m_counter s1 = 1" using s1(2) by simp
  obtain s2 where s2: "tinfl_run Raw_header E s1 = tinfl_run Raw_header E s2" "m_counter s2 = 1 + 1"
    "m_raw_header s2 = (m_raw_header s1)[1 := of_nat (n div 256)]"
    "ahead E s2 (pos + 8 + 8) (number_bits 8 (?m mod 256) @ number_bits 8 (?m div 256) @ B)"
    "goes E s1 s2 (produced s1)" "m_final s2 = m_final s1"
    by (rule raw_header_byte [OF E(1) goesD(1,3) [OF s1(5)] s1(4) lt(2) c1]) simp_all
  have c2: "m_counter s2 = 2" using s2(2) by simp
  obtain s3 where s3: "tinfl_run Raw_header E s2 = tinfl_run Raw_header E s3" "m_counter s3 = 2 + 1"
    "m_raw_header s3 = (m_raw_header s2)[2 := of_nat (?m mod 256)]"
    "ahead E s3 (pos + 8 + 8 + 8) (number_bits 8 (?m div 256) @ B)"
    "goes E s2 s3 (produced s2)" "m_final s3 = m_final s2"
    by (rule raw_header_byte [OF E(1) goesD(1,3) [OF s2(5)] s2(4) lt(3) c2]) simp_all
  have c3: "m_counter s3 = 3" using s3(2) by simp
  obtain s4 where s4: "tinfl_run Raw_header E s3 = tinfl_run Raw_header E s4" "m_counter s4 = 3 + 1"
    "m_raw_header s4 = (m_raw_header s3)[3 := of_nat (?m div 256)]"
    "ahead E s4 (pos + 8 + 8 + 8 + 8) B" "goes E s3 s4 (produced s3)" "m_final s4 = m_final s3"
    by (rule raw_header_byte [OF E(1) goesD(1,3) [OF s3(5)] s3(4) lt(4) c3]) simp_all
  have "length (m_raw_header s) = Suc (Suc (Suc (Suc 0)))" using E(3) by (simp add: shaped_def)
  then obtain h0 h1 h2 h3 where hs: "m_raw_header s = [h0, h1, h2, h3]" by (auto simp: length_Suc_conv)
  have h: "m_raw_header s4 = [of_nat (n mod 256), of_nat (n div 256), of_nat (?m mod 256), of_nat (?m div 256)]"
    unfolding s4(3) s3(3) s2(3) s1(3) hs by (simp only: numeral_2_eq_2 numeral_3_eq_3 One_nat_def list_update.simps nat.case)
  have g: "goes E s s4 (produced s)"
    using goes_trans [OF goes_trans [OF goes_trans [OF s1(5) s2(5)] s3(5)] s4(5)]
    by (simp add: goesD(4) [OF s1(5)] goesD(4) [OF s2(5)] goesD(4) [OF s3(5)])
  have r4: "tinfl_run Raw_header E s = tinfl_run Raw_header E s4" using s1(1) s2(1) s3(1) s4(1) by simp
  have un: "unat (of_nat n :: 32 word) = n" using n(1) by (simp only: unsigned_of_nat) (simp add: take_bit_nat_eq_self)
  have "tinfl_run Raw_header E s4 = tinfl_run Raw_bits E (s4\<lparr>m_counter := n\<rparr>)"
    using s4(2) by (intro run_to)
      (simp add: step_raw_header_def h MZ_READ_LE16_def checked_def set_counter_def luasem le16_of_nat [OF n(1) refl refl]
        le16_of_nat [OF lt(5) refl refl] xor_complement [OF n(1)] un del: of_nat_diff)
  then show thesis using that [of "s4\<lparr>m_counter := n\<rparr>"] r4 s4(4,6) g s1(6) s2(6) s3(6)
    by (simp add: add.commute)
qed

end
