(* ===== verification/Tinfl_Raw.thy ===== *)
theory Tinfl_Raw
  imports Tinfl_Stored
begin

text \<open>
  The bytes of a stored block, from the buffer of bits and from the input; the output may be full before they
  are all written.
\<close>

subsection \<open>The bytes of the input\<close>

lemma le_val_append: "le_val (xs @ ys) = le_val xs + 256 ^ length xs * le_val ys"
  by (induction xs) (simp_all add: algebra_simps)

lemma le_val_less: "le_val xs < 256 ^ length xs"
proof (induction xs)
  case (Cons x xs)
  have "unat x < 256" by (rule unat_byte_less)
  then have "le_val (x # xs) < 256 * (le_val xs + 1)" by simp
  also have "\<dots> \<le> 256 * 256 ^ length xs" using Cons by (intro mult_le_mono2) simp
  finally show ?case by simp
qed simp

lemma le_val_inj: "length xs = length ys \<Longrightarrow> le_val xs = le_val ys \<Longrightarrow> xs = ys"
proof (induction xs arbitrary: ys)
  case (Cons x xs)
  then obtain y ys' where y: "ys = y # ys'" by (cases ys) auto
  have e: "unat x + 256 * le_val xs = unat y + 256 * le_val ys'" using Cons.prems y by simp
  then have "(unat x + 256 * le_val xs) mod 256 = (unat y + 256 * le_val ys') mod 256" by simp
  then have u: "unat x = unat y" using unat_byte_less [of x] unat_byte_less [of y] by simp
  then have "le_val xs = le_val ys'" using e by simp
  then show ?case using Cons y u by (simp add: word_unat_eq_iff)
qed simp

lemma at_input:
  assumes "bits_ok E s" "m_num_bits s = 0"
  shows "todo E s = le_val (drop (in_cur s) (in_buf E))" "in_cur s \<le> length (in_buf E)"
    "left_bits E s = 8 * (length (in_buf E) - in_cur s)"
proof -
  have "unat (m_bit_buf s) = 0" using assms by (simp add: bits_ok_def)
  then show "todo E s = le_val (drop (in_cur s) (in_buf E))" using assms(2) by (simp add: todo_def)
  show "in_cur s \<le> length (in_buf E)" using assms(1) by (simp add: bits_ok_def)
  show "left_bits E s = 8 * (length (in_buf E) - in_cur s)" using assms(2) by (simp add: left_bits_def)
qed

lemma power_256: "(256 :: nat) ^ n = 2 ^ (8 * n)"
  by (simp add: power_mult)

lemma input_bytes:
  assumes "bits_ok E s" "m_num_bits s = 0" "ahead E s pos (bytes_bits bs @ R)"
  shows "length bs \<le> length (in_buf E) - in_cur s" "take (length bs) (drop (in_cur s) (in_buf E)) = bs"
proof -
  let ?xs = "drop (in_cur s) (in_buf E)"
  show l: "length bs \<le> length (in_buf E) - in_cur s"
    using assms(3) at_input(3) [OF assms(1,2)] by (simp add: ahead_def)
  have ln: "length (take (length bs) ?xs) = length bs" using l by simp
  have "le_val ?xs = le_val (take (length bs) ?xs @ drop (length bs) ?xs)" by (simp only: append_take_drop_id)
  also have "\<dots> = le_val (take (length bs) ?xs) + 256 ^ length bs * le_val (drop (length bs) ?xs)"
    by (simp only: le_val_append ln)
  finally have "le_val ?xs mod 256 ^ length bs = le_val (take (length bs) ?xs)"
    using le_val_less [of "take (length bs) ?xs"] ln by (simp only: ln) simp
  moreover have "todo E s mod 2 ^ (8 * length bs) = le_val bs"
    using ahead_appendD(2) [OF assms(3)] by (simp add: bits_val_bytes)
  ultimately have "le_val (take (length bs) ?xs) = le_val bs" using at_input(1) [OF assms(1,2)] by (simp add: power_256)
  then show "take (length bs) ?xs = bs" using l by (intro le_val_inj) simp_all
qed

lemma skip_input:
  assumes "bits_ok E s" "m_num_bits s = 0" "n \<le> length (in_buf E) - in_cur s"
  shows "reads E (8 * n) s (s\<lparr>in_cur := in_cur s + n\<rparr>)" (is "reads E (8 * n) s ?s")
proof (rule readsI [where j = 0])
  let ?xs = "drop (in_cur s) (in_buf E)"
  note i = at_input [OF assms(1,2)]
  show b: "bits_ok E ?s" using assms i(2) by (simp add: bits_ok_def)
  have ln: "length (take n ?xs) = n" using assms(3) by simp
  have "le_val ?xs = le_val (take n ?xs @ drop n ?xs)" by (simp only: append_take_drop_id)
  also have "\<dots> = le_val (take n ?xs) + 256 ^ n * le_val (drop n ?xs)"
    by (simp only: le_val_append ln)
  finally have "le_val ?xs div 256 ^ n = le_val (drop n ?xs)"
    using le_val_less [of "take n ?xs"] ln by (simp only: ln) simp
  moreover have "drop n ?xs = drop (in_cur ?s) (in_buf E)" by (simp add: add.commute)
  ultimately show "todo E ?s = todo E s div 2 ^ (8 * n)"
    using i(1) at_input(1) [OF b] assms(2) by (simp add: power_256)
  show "left_bits E ?s + 8 * n = left_bits E s + 8 * 0" using assms(3) by (simp add: left_bits_def)
qed simp

subsection \<open>Where a run stops within the bytes\<close>

definition raw_left :: "tinfl_call \<Rightarrow> tinfl \<Rightarrow> nat \<Rightarrow> bool list \<Rightarrow> bytes \<Rightarrow> bool" where
  "raw_left E s fin R Q \<longleftrightarrow>
     (\<exists>b bs pos. m_state s = 52 \<and> m_dist s = unat b \<and> m_counter s = length bs + 1
       \<and> ahead E s pos (bytes_bits bs @ R) \<and> fin = pos + 8 * length bs \<and> Q = produced s @ b # bs)
   \<or> (\<exists>bs pos. m_state s = 9 \<and> m_num_bits s = 0 \<and> bs \<noteq> [] \<and> m_counter s = length bs
       \<and> ahead E s pos (bytes_bits bs @ R) \<and> fin = pos + 8 * length bs \<and> Q = produced s @ bs)"

definition raw_end :: "tinfl_call \<Rightarrow> tinfl_point \<Rightarrow> tinfl \<Rightarrow> nat \<Rightarrow> bool list \<Rightarrow> bytes \<Rightarrow> bool" where
  "raw_end E p s fin R W \<longleftrightarrow>
     (\<exists>s'. tinfl_run p E s = tinfl_run Block_end E s' \<and> ahead E s' fin R \<and> emits E s s' W)
   \<or> (\<exists>s'. tinfl_run p E s = Some (Status TINFL_STATUS_HAS_MORE_OUTPUT, s') \<and> emits E s s' (produced s')
       \<and> full s' \<and> raw_left E s' fin R W)"

lemma raw_end_trans:
  assumes "tinfl_run p E s = tinfl_run p' E s1" "emits E s s1 P" "raw_end E p' s1 fin R W"
  shows "raw_end E p s fin R W"
  using assms(3) emits_trans [OF assms(2)] unfolding raw_end_def assms(1) by blast

lemma raw_end_done:
  assumes "tinfl_run p E s = tinfl_run Block_end E s" "ahead E s fin R" "st_ok E s"
  shows "raw_end E p s fin R (produced s)"
  unfolding raw_end_def by (rule disjI1) (use assms emits_refl in blast)

lemma raw_end_full:
  assumes "tinfl_run p E s = Some (Status TINFL_STATUS_HAS_MORE_OUTPUT, s')" "emits E s s' (produced s')" "full s'"
    "raw_left E s' fin R W"
  shows "raw_end E p s fin R W"
  unfolding raw_end_def by (rule disjI2) (use assms in blast)

lemma raw_left_copy:
  assumes "m_state s = 9" "m_num_bits s = 0" "bs \<noteq> []" "m_counter s = length bs" "ahead E s pos (bytes_bits bs @ R)"
    "fin = pos + 8 * length bs" "Q = produced s @ bs"
  shows "raw_left E s fin R Q"
  unfolding raw_left_def by (rule disjI2) (use assms in blast)

lemma raw_left_bits:
  assumes "m_state s = 52" "m_dist s = unat b" "m_counter s = length bs + 1" "ahead E s pos (bytes_bits bs @ R)"
    "fin = pos + 8 * length bs" "Q = produced s @ b # bs"
  shows "raw_left E s fin R Q"
  unfolding raw_left_def by (rule disjI1) (use assms in blast)

subsection \<open>Directly from the input\<close>

lemma raw_copy_run:
  assumes "call_ok E" "st_ok E s" "m_num_bits s = 0 \<or> bs = []" "m_counter s = length bs"
    "ahead E s pos (bytes_bits bs @ R)" "fin = pos + 8 * length bs"
  shows "raw_end E Raw_copy s fin R (produced s @ bs)"
  using assms(2-)
proof (induction "length bs" arbitrary: bs s pos rule: less_induct)
  case less
  show ?case
  proof (cases "bs = []")
    case True
    then have "tinfl_run Raw_copy E s = tinfl_run Block_end E s"
      using less.prems(3) by (intro run_to) (simp add: step_raw_copy_def luasem)
    then show ?thesis using raw_end_done [of Raw_copy E s fin R] less.prems True by simp
  next
    case False
    then have k: "m_counter s \<noteq> 0" "m_num_bits s = 0" using less.prems(2,3) by simp_all
    have b: "bits_ok E s" using less.prems(1) by (simp add: st_ok_def)
    show ?thesis
    proof (cases "full s")
      case True
      let ?t = "s\<lparr>m_state := 9\<rparr>"
      have "tinfl_run Raw_copy E s = Some (Status TINFL_STATUS_HAS_MORE_OUTPUT, ?t)"
        using True k by (intro run_stop) (simp add: step_raw_copy_def wait_full luasem)
      moreover have "raw_left E ?t fin R (produced s @ bs)"
        by (rule raw_left_copy [of ?t bs E pos]) (use False k less.prems in simp_all)
      ultimately show ?thesis using True emits_refl [OF less.prems(1)] by (intro raw_end_full [of _ E s ?t]) (simp_all add: full_def)
    next
      case F: False
      then have room: "out_cur s < length (out_buf s)" using full_cases [OF less.prems(1)] by blast
      note i = input_bytes [OF b k(2) less.prems(4)]
      let ?n = "min (length (out_buf s) - out_cur s) (length bs)"
      have n: "min (min (length (out_buf s) - out_cur s) (length (in_buf E) - in_cur s)) (length bs) = ?n"
        using i(1) by simp
      have "0 < length bs" using False by simp
      then have n0: "0 < ?n" "?n \<le> length bs" using room by simp_all
      have t: "take ?n (drop (in_cur s) (in_buf E)) = take ?n bs"
        using i(2) n0(2) by (metis (no_types, lifting) min.absorb1 take_take)
      let ?o = "take (out_cur s) (out_buf s) @ take ?n bs @ drop (out_cur s + ?n) (out_buf s)"
      let ?t = "s\<lparr>out_buf := ?o, in_cur := in_cur s + ?n, out_cur := out_cur s + ?n, m_counter := length bs - ?n\<rparr>"
      have put: "put_list (out_buf s) (out_cur s) (take ?n bs) = Some ?o"
        using room by (auto simp: put_list_def min_def)
      have av: "length (in_buf E) - in_cur s \<noteq> 0" using i(1) False by (cases bs) simp_all
      have "tinfl_run Raw_copy E s = tinfl_run Raw_copy_in E s"
        using room k by (intro run_to) (simp add: step_raw_copy_def wait_room luasem)
      also have "\<dots> = tinfl_run Raw_copy E ?t"
      proof (rule run_to)
        show "tinfl_step Raw_copy_in E s = (Inr Raw_copy, ?t)"
          using av by (simp add: step_raw_copy_in_def in_avail_def out_avail_def Let_def run_bindM run_getM run_thenM run_modM run_retM
              n t put checked_def less.prems(3) del: min_less_iff_conj)
      qed
      finally have r: "tinfl_run Raw_copy E s = tinfl_run Raw_copy E ?t" .
      have rd: "reads E (8 * ?n) s (s\<lparr>in_cur := in_cur s + ?n\<rparr>)"
        using i(1) n0(2) by (intro skip_input [OF b k(2)]) simp
      have e: "emits E s ?t (produced s @ take ?n bs)"
      proof -
        have "bits_ok E ?t" using reads_same(18) [OF rd] by (simp add: bits_ok_def)
        moreover have "take (out_cur s + ?n) ?o = take (out_cur s) (out_buf s) @ take ?n bs"
          using room by (simp add: min_def)
        moreover have "length ?o = length (out_buf s)" using room by simp
        moreover have "drop (out_cur s + ?n) ?o = drop (out_cur s + ?n) (out_buf s)" using room by (simp add: min_def)
        ultimately show ?thesis using less.prems(1) by (simp add: emits_def st_ok_def same_tables_def produced_def)
      qed
      have "bytes_bits bs = bytes_bits (take ?n bs) @ bytes_bits (drop ?n bs)"
        by (metis append_take_drop_id concat_append map_append)
      then have "ahead E s pos (bytes_bits (take ?n bs) @ bytes_bits (drop ?n bs) @ R)" using less.prems(4) by simp
      moreover have lb: "length (bytes_bits (take ?n bs)) = 8 * ?n" using n0(2) by simp
      ultimately have "ahead E (s\<lparr>in_cur := in_cur s + ?n\<rparr>) (pos + 8 * ?n) (bytes_bits (drop ?n bs) @ R)"
        using ahead_reads [of E s pos "bytes_bits (take ?n bs)" _ "s\<lparr>in_cur := in_cur s + ?n\<rparr>"] rd unfolding lb by blast
      then have a: "ahead E ?t (pos + 8 * ?n) (bytes_bits (drop ?n bs) @ R)" by (simp add: ahead_def todo_def left_bits_def)
      have lt: "length (drop ?n bs) < length bs" using n0 by simp
      have fin: "fin = pos + 8 * ?n + 8 * length (drop ?n bs)" using less.prems(5) n0(2) by simp
      have "raw_end E Raw_copy ?t fin R (produced ?t @ drop ?n bs)"
        by (rule less.hyps [OF lt emitsD(1) [OF e] _ _ a fin]) (use k in simp_all)
      moreover have "produced ?t @ drop ?n bs = produced s @ bs" using emitsD(4) [OF e] by simp
      ultimately show ?thesis using raw_end_trans [OF r e] by simp
    qed
  qed
qed

subsection \<open>From the buffer of bits\<close>

lemma raw_bits_run:
  assumes "call_ok E" "st_ok E s" "m_counter s = length bs" "ahead E s pos (bytes_bits bs @ R)" "fin = pos + 8 * length bs"
  shows "raw_end E Raw_bits s fin R (produced s @ bs)"
  using assms(2-)
proof (induction bs arbitrary: s pos)
  case Nil
  have "tinfl_run Raw_bits E s = tinfl_run Raw_copy E s"
    using Nil by (intro run_to) (simp add: step_raw_bits_def luasem)
  from raw_end_trans [OF this emits_refl [OF Nil(1)] raw_copy_run [OF assms(1) Nil(1) _ Nil(2-4)]] show ?case by simp
next
  case (Cons b bs)
  show ?case
  proof (cases "m_num_bits s = 0")
    case True
    then have "tinfl_run Raw_bits E s = tinfl_run Raw_copy E s" by (intro run_to) (simp add: step_raw_bits_def luasem)
    from raw_end_trans [OF this emits_refl [OF Cons(2)] raw_copy_run [OF assms(1) Cons(2) _ Cons(3-5)]] show ?thesis
      using True by simp
  next
    case False
    have a: "ahead E s pos (number_bits 8 (unat b) @ bytes_bits bs @ R)" using Cons(4) by simp
    have b: "bits_ok E s" using Cons(2) by (simp add: st_ok_def)
    obtain s1 where s1: "TINFL_GET_BITS 51 8 E s = (Inr (unat b), s1)" "reads E 8 s s1" "ahead E s1 (pos + 8) (bytes_bits bs @ R)"
      using get_number [OF a _ _ b call_no_more [OF assms(1)]] unat_byte_less [of b] by auto
    let ?s = "s1\<lparr>m_dist := unat b\<rparr>"
    have e: "emits E s ?s (produced s)" using reads_emits [OF s1(2) Cons(2)] by simp
    have c: "m_counter ?s = length bs + 1" using reads_same(5) [OF s1(2)] Cons(3) by simp
    have r: "tinfl_run Raw_bits E s = tinfl_run Raw_bits_out E ?s"
      using False Cons(3) s1(1) by (intro run_to) (simp add: step_raw_bits_def luasem)
    have p: "produced ?s = produced s" by (rule emitsD(4) [OF e])
    show ?thesis
    proof (cases "full ?s")
      case True
      let ?t = "?s\<lparr>m_state := 52\<rparr>"
      have "tinfl_run Raw_bits_out E ?s = Some (Status TINFL_STATUS_HAS_MORE_OUTPUT, ?t)"
        using True by (intro run_stop) (simp add: step_raw_bits_out_def wait_full luasem)
      moreover have "raw_left E ?t fin R (produced s @ b # bs)"
        by (rule raw_left_bits [of ?t b bs E "pos + 8"]) (use c s1(3) Cons(5) p in simp_all)
      ultimately show ?thesis using True e p r by (intro raw_end_full [of _ E s ?t]) (simp_all add: full_def)
    next
      case F: False
      then have room: "out_cur ?s < length (out_buf ?s)" using full_cases [OF emitsD(1) [OF e]] by blast
      let ?t = "(after_byte b ?s)\<lparr>m_counter := length bs\<rparr>"
      have "tinfl_run Raw_bits_out E ?s = tinfl_run Raw_bits E ?t"
        using room c by (intro run_to) (simp add: step_raw_bits_out_def wait_room put_byte_eq set_counter_def luasem)
      then have r2: "tinfl_run Raw_bits E s = tinfl_run Raw_bits E ?t" using r by simp
      have e2: "emits E s ?t (produced s @ [b])"
        using emits_trans [OF e after_byte_emits [OF emitsD(1) [OF e] room]] p by simp
      have "raw_end E Raw_bits ?t fin R (produced ?t @ bs)"
        by (rule Cons.IH [OF emitsD(1) [OF e2], of "pos + 8"]) (use s1(3) Cons(5) in simp_all)
      then show ?thesis using raw_end_trans [OF r2 e2] emitsD(4) [OF e2] by simp
    qed
  qed
qed

text \<open>A run that was stopped goes on where it stopped.\<close>

lemma raw_resume:
  assumes E: "call_ok E" "st_ok E s" and l: "raw_left E s fin R Q" "resume_point (m_state s) = Some p"
  shows "raw_end E p s fin R Q"
proof -
  consider (bits) b bs pos where "m_state s = 52" "p = Raw_bits_out" "m_dist s = unat b" "m_counter s = length bs + 1"
        "ahead E s pos (bytes_bits bs @ R)" "fin = pos + 8 * length bs" "Q = produced s @ b # bs"
    | (copy) bs pos where "m_state s = 9" "p = Raw_copy" "m_num_bits s = 0" "m_counter s = length bs"
        "ahead E s pos (bytes_bits bs @ R)" "fin = pos + 8 * length bs" "Q = produced s @ bs"
    using l unfolding raw_left_def resume_point_def by auto
  then show ?thesis
  proof cases
    case copy
    then show ?thesis using raw_copy_run [OF E disjI1 [OF copy(3)] copy(4-6)] by simp
  next
    case bits
    show ?thesis
    proof (cases "full s")
      case True
      have "tinfl_run p E s = Some (Status TINFL_STATUS_HAS_MORE_OUTPUT, s)"
        using True bits(1,2) by (intro run_stop) (simp add: step_raw_bits_out_def wait_full luasem)
      then show ?thesis using True l(1) emits_refl [OF E(2)] by (intro raw_end_full) simp_all
    next
      case False
      then have room: "out_cur s < length (out_buf s)" using full_cases [OF E(2)] by blast
      let ?t = "(after_byte b s)\<lparr>m_counter := length bs\<rparr>"
      have r: "tinfl_run p E s = tinfl_run Raw_bits E ?t"
        using room bits(2-4) by (intro run_to) (simp add: step_raw_bits_out_def wait_room put_byte_eq set_counter_def luasem)
      have e: "emits E s ?t (produced s @ [b])" using after_byte_emits [OF E(2) room] by simp
      have "raw_end E Raw_bits ?t fin R (produced ?t @ bs)"
        by (rule raw_bits_run [OF E(1) emitsD(1) [OF e], of _ pos]) (use bits(5,6) in simp_all)
      then show ?thesis using raw_end_trans [OF r e] emitsD(4) [OF e] bits(7) by simp
    qed
  qed
qed

end
