(* ===== verification/Tinfl_Codes.thy ===== *)
theory Tinfl_Codes
  imports Tinfl_Raw
begin

text \<open>
  The runs of the inflater that set the codes of a block: the tables are built from the lengths of the
  code words, which are the fixed ones or come at the head of the block.
\<close>

subsection \<open>Building the tables\<close>

lemma shaped_tables:
  assumes "shaped s" "t < 3"
  shows "t < length (m_tables s)" "length (m_code_size (m_tables s ! t)) = 288" "t < length (m_table_sizes s)"
  using assms by (auto simp: shaped_def)

lemma table_eq: "shaped s \<Longrightarrow> t < 3 \<Longrightarrow> table t E s = (Inr (m_tables s ! t), s)"
  using shaped_tables [of s t] by (simp add: table_def checked_def luasem)

lemma table_size_eq: "shaped s \<Longrightarrow> t < 3 \<Longrightarrow> table_size t E s = (Inr (m_table_sizes s ! t), s)"
  using shaped_tables [of s t] by (simp add: table_size_def checked_def luasem)

lemma put_table_eq: "shaped s \<Longrightarrow> t < 3 \<Longrightarrow> put_table t p E s = (Inr (), s\<lparr>m_tables := (m_tables s)[t := p]\<rparr>)"
  using shaped_tables [of s t] by (simp add: put_table_def put_def checked_def luasem)

lemma put_table_size_eq: "shaped s \<Longrightarrow> t < 3 \<Longrightarrow> put_table_size t n E s = (Inr (), s\<lparr>m_table_sizes := (m_table_sizes s)[t := n]\<rparr>)"
  using shaped_tables [of s t] by (simp add: put_table_size_def put_def checked_def luasem)

lemma shaped_set [simp]:
  "shaped (s\<lparr>m_counter := a\<rparr>) = shaped s" "shaped (s\<lparr>m_type := i\<rparr>) = shaped s" "shaped (s\<lparr>m_dist := a\<rparr>) = shaped s"
  "shaped (s\<lparr>m_num_extra := a\<rparr>) = shaped s" "shaped (s\<lparr>m_final := a\<rparr>) = shaped s"
  by (simp_all add: shaped_def)

lemma shaped_cong:
  assumes "shaped s" "m_tables s' = m_tables s" "m_table_sizes s' = m_table_sizes s" "m_raw_header s' = m_raw_header s"
    "m_len_codes s' = m_len_codes s"
  shows "shaped s'"
  using assms by (simp add: shaped_def)

lemma shaped_put_table: "shaped s \<Longrightarrow> length (m_code_size p) = 288 \<Longrightarrow> shaped (s\<lparr>m_tables := (m_tables s)[t := p]\<rparr>)"
  using set_update_subset_insert [of "m_tables s" t p] by (auto simp: shaped_def)

lemma shaped_put_size: "shaped s \<Longrightarrow> shaped (s\<lparr>m_table_sizes := (m_table_sizes s)[t := n]\<rparr>)"
  by (simp add: shaped_def)

lemma shaped_put_lens: "shaped s \<Longrightarrow> length lc = 457 \<Longrightarrow> shaped (s\<lparr>m_len_codes := lc\<rparr>)"
  by (simp add: shaped_def)

lemma build_step:
  assumes "shaped s" "m_type s = int t" "t < 3" "m_table_sizes s ! t \<le> 288"
    and "complete_code (take (m_table_sizes s ! t) (m_code_size (m_tables s ! t)))"
  obtains p where "tinfl_step Build E s = (if t = 2 then (Inr (Code_lengths False), s\<lparr>m_tables := (m_tables s)[t := p], m_counter := 0\<rparr>)
      else (Inr Build, s\<lparr>m_tables := (m_tables s)[t := p], m_type := int t - 1\<rparr>))"
    "good_tables (take (m_table_sizes s ! t) (m_code_size (m_tables s ! t))) p" "m_code_size p = m_code_size (m_tables s ! t)"
proof -
  let ?n = "m_table_sizes s ! t" and ?q = "m_tables s ! t"
  have n: "?n \<le> length (m_code_size ?q)" using assms(4) shaped_tables(2) [OF assms(1,3)] by simp
  obtain p where p: "build_table ?n ?q = Some (True, p)" "good_tables (take ?n (m_code_size ?q)) p" "m_code_size p = m_code_size ?q"
    using build_table_good [OF n assms(4,5)] by blast
  have "tinfl_step Build E s = (if t = 2 then (Inr (Code_lengths False), s\<lparr>m_tables := (m_tables s)[t := p], m_counter := 0\<rparr>)
      else (Inr Build, s\<lparr>m_tables := (m_tables s)[t := p], m_type := int t - 1\<rparr>))"
    using assms(1-3) p(1)
    by (simp add: step_build_def table_eq table_size_eq put_table_eq checked_def set_counter_def luasem)
  then show thesis using that p by blast
qed

lemma build_run:
  assumes "call_ok E" "st_ok E s" "shaped s" "m_type s = 1" "m_table_sizes s ! 0 \<le> 288" "m_table_sizes s ! 1 \<le> 288"
    and cs: "take (m_table_sizes s ! 0) (m_code_size (m_tables s ! 0)) = cs" "complete_code cs" "256 < length cs" "0 < cs ! 256"
    and ds: "take (m_table_sizes s ! 1) (m_code_size (m_tables s ! 1)) = ds" "complete_code ds"
  obtains s' where "tinfl_run Build E s = tinfl_run Decode E s'" "codes cs ds s'" "ahead E s' = ahead E s"
    "goes E s s' (produced s)" "m_final s' = m_final s"
proof -
  have t1: "m_type s = int 1" using assms(4) by simp
  obtain q where q: "tinfl_step Build E s = (Inr Build, s\<lparr>m_tables := (m_tables s)[1 := q], m_type := 0\<rparr>)"
      "good_tables ds q" "m_code_size q = m_code_size (m_tables s ! 1)"
    using build_step [OF assms(3) t1 _ assms(6)] ds by auto
  let ?s = "s\<lparr>m_tables := (m_tables s)[1 := q], m_type := 0\<rparr>"
  have w1: "shaped ?s" using shaped_put_table [OF assms(3)] shaped_tables(2) [OF assms(3)] q(3) by simp
  have t0: "m_type ?s = int 0" "m_table_sizes ?s ! 0 \<le> 288" using assms(5) by simp_all
  have c0: "take (m_table_sizes ?s ! 0) (m_code_size (m_tables ?s ! 0)) = cs" using cs(1) by simp
  obtain p where p: "tinfl_step Build E ?s = (Inr Build, ?s\<lparr>m_tables := (m_tables ?s)[0 := p], m_type := -1\<rparr>)"
      "good_tables cs p" "m_code_size p = m_code_size (m_tables ?s ! 0)"
    using build_step [OF w1 t0(1) _ t0(2)] c0 cs(2) by auto
  let ?t = "?s\<lparr>m_tables := (m_tables ?s)[0 := p], m_type := -1\<rparr>"
  have "length (m_code_size p) = 288" using shaped_tables(2) [OF w1, of 0] p(3) by simp
  from shaped_put_table [OF w1 this, of 0] have w2: "shaped ?t" by (simp add: shaped_def)
  have "tinfl_run Build E s = tinfl_run Build E ?t" using run_to [OF q(1)] run_to [OF p(1)] by simp
  also have "\<dots> = tinfl_run Decode E ?t" by (intro run_to) (simp add: step_build_def luasem)
  finally have r: "tinfl_run Build E s = tinfl_run Decode E ?t" .
  have "codes cs ds ?t" using q(2) p(2) cs(3,4) shaped_tables(1) [OF assms(3), of 1] assms(3)
    by (simp add: codes_def shaped_def)
  moreover have "goes E s ?t (produced s)"
    by (rule goes_same_output [OF goes_refl [OF assms(2,3)] w2]) simp_all
  ultimately show thesis using that [of ?t] r by simp
qed

subsection \<open>The fixed codes\<close>

lemma put_list_whole: "length xs = length a \<Longrightarrow> put_list a 0 xs = Some xs"
  by (simp add: put_list_def)

lemma fixed_tables_eq:
  assumes "shaped s"
  shows "\<exists>p q. fixed_tables E s = (Inr (), s\<lparr>m_table_sizes := (m_table_sizes s)[0 := 288, 1 := 32],
      m_tables := (m_tables s)[1 := q, 0 := p]\<rparr>) \<and> m_code_size p = fixed_lengths
      \<and> take 32 (m_code_size q) = fixed_dist_lengths \<and> length (m_code_size q) = 288"
proof -
  let ?p = "m_tables s ! 0" and ?q = "m_tables s ! 1"
  let ?c1 = "replicate 32 5 @ drop 32 (m_code_size ?q)"
  have l: "length (m_code_size ?p) = 288" "length (m_code_size ?q) = 288" using shaped_tables(2) [OF assms] by simp_all
  have "put_list (m_code_size ?p) 0 fixed_lengths = Some fixed_lengths"
    using l(1) by (intro put_list_whole) (simp add: length_fixed)
  moreover have "put_list (m_code_size ?q) 0 (replicate 32 5) = Some ?c1" using l(2) by (simp add: put_list_def)
  moreover have w: "shaped (s\<lparr>m_table_sizes := (m_table_sizes s)[0 := 288]\<rparr>)"
    "shaped (s\<lparr>m_table_sizes := (m_table_sizes s)[0 := 288, 1 := 32]\<rparr>)"
    using assms by (simp_all add: shaped_def)
  moreover have w3: "shaped (s\<lparr>m_table_sizes := (m_table_sizes s)[0 := 288, 1 := 32],
      m_tables := (m_tables s)[1 := ?q\<lparr>m_code_size := ?c1\<rparr>]\<rparr>)"
    using shaped_put_table [OF w(2), of "?q\<lparr>m_code_size := ?c1\<rparr>" 1] l(2) by simp
  ultimately have "fixed_tables E s = (Inr (), s\<lparr>m_table_sizes := (m_table_sizes s)[0 := 288, 1 := 32],
      m_tables := (m_tables s)[1 := ?q\<lparr>m_code_size := ?c1\<rparr>, 0 := ?p\<lparr>m_code_size := fixed_lengths\<rparr>]\<rparr>)"
    using assms by (simp add: fixed_tables_def table_eq put_table_eq put_table_size_eq checked_def luasem del: One_nat_def)
  then show ?thesis using l(2)
    by (intro exI [of _ "?p\<lparr>m_code_size := fixed_lengths\<rparr>"] exI [of _ "?q\<lparr>m_code_size := ?c1\<rparr>"])
      (simp add: fixed_dist_lengths_def)
qed

lemma block_fixed_run:
  assumes E: "call_ok E" "st_ok E s" "shaped s" and a: "ahead E s pos ([fin, True, False] @ B)"
  obtains s' where "tinfl_run Block E s = tinfl_run Decode E s'" "codes fixed_lengths fixed_dist_lengths s'"
    "ahead E s' (pos + 3) B" "goes E s s' (produced s)" "m_final s' = type_bits fin 1"
proof -
  have a': "ahead E s pos ([fin, odd (1 :: nat), 2 \<le> (1 :: nat)] @ B)" using a by simp
  obtain s1 where s1: "TINFL_GET_BITS 3 3 E s = (Inr (type_bits fin 1), s1)" "goes E s s1 (produced s)" "ahead E s1 (pos + 3) B"
    using block_head [OF E a'] by auto
  let ?s = "s1\<lparr>m_final := type_bits fin 1, m_type := 1\<rparr>"
  have g: "goes E s ?s (produced s)" using s1(2) by simp
  note w = goesD(3) [OF g]
  obtain p q where f: "fixed_tables E ?s = (Inr (), ?s\<lparr>m_table_sizes := (m_table_sizes ?s)[0 := 288, 1 := 32],
      m_tables := (m_tables ?s)[1 := q, 0 := p]\<rparr>)" "m_code_size p = fixed_lengths"
      "take 32 (m_code_size q) = fixed_dist_lengths" "length (m_code_size q) = 288"
    using fixed_tables_eq [OF w] by blast
  let ?t = "?s\<lparr>m_table_sizes := (m_table_sizes ?s)[0 := 288, 1 := 32], m_tables := (m_tables ?s)[1 := q, 0 := p]\<rparr>"
  have lens: "length (m_tables ?s) = 3" "length (m_table_sizes ?s) = 3" using w by (simp_all add: shaped_def)
  have lp: "length (m_code_size p) = 288" using f(2) by (simp add: length_fixed)
  have w2: "shaped ?t"
    using shaped_put_table [OF shaped_put_table [OF shaped_put_size [OF shaped_put_size [OF w, of 0 288], of 1 32] f(4), of 1] lp, of 0]
    by simp
  have g2: "goes E s ?t (produced s)" by (rule goes_same_output [OF g w2]) simp_all
  have r: "tinfl_run Block E s = tinfl_run Build E ?t"
    using s1(1) f(1) by (intro run_to) (simp add: step_block_def type_bits_eq luasem)
  have b: "m_type ?t = 1" "m_table_sizes ?t ! 0 \<le> 288" "m_table_sizes ?t ! 1 \<le> 288" using lens by simp_all
  have c: "take (m_table_sizes ?t ! 0) (m_code_size (m_tables ?t ! 0)) = fixed_lengths"
    "take (m_table_sizes ?t ! 1) (m_code_size (m_tables ?t ! 1)) = fixed_dist_lengths"
    using lens f(2,3) by (simp_all add: length_fixed)
  have c256: "256 < length fixed_lengths" "0 < fixed_lengths ! 256" using fixed_code(1) [of 256] by (simp_all add: length_fixed)
  obtain s2 where s2: "tinfl_run Build E ?t = tinfl_run Decode E s2" "codes fixed_lengths fixed_dist_lengths s2"
      "ahead E s2 = ahead E ?t" "goes E ?t s2 (produced ?t)" "m_final s2 = m_final ?t"
    using build_run [OF E(1) goesD(1) [OF g2] w2 b c(1) complete_fixed(1) c256 c(2) complete_fixed(2)] by metis
  have "goes E s s2 (produced s)" using goes_trans [OF g2 s2(4)] goesD(4) [OF g2] by simp
  moreover have "ahead E s2 (pos + 3) B" using s2(3) s1(3) by simp
  ultimately show thesis using that [of s2] r s2(1,2,5) by simp
qed

subsection \<open>The lengths of the code of lengths\<close>

lemma table_sizes_step:
  assumes E: "call_ok E" "st_ok E s" "shaped s" and a: "ahead E s pos (number_bits w v @ B)" "v < 2 ^ w"
    and i: "m_counter s = i" "i < 3" "w = [5, 5, 4] ! i"
  obtains s' where "tinfl_run Table_sizes E s = tinfl_run Table_sizes E s'" "m_counter s' = i + 1"
    "m_table_sizes s' = (m_table_sizes s)[i := v + s_min_table_sizes ! i]" "ahead E s' (pos + w) B" "goes E s s' (produced s)"
    "m_final s' = m_final s" "m_type s' = m_type s" "m_tables s' = m_tables s" "m_len_codes s' = m_len_codes s"
proof -
  have b: "bits_ok E s" using E(2) by (simp add: st_ok_def)
  have w: "w \<le> 54" using i(2,3) by (auto simp: less_Suc_eq numeral_3_eq_3)
  obtain s1 where s1: "TINFL_GET_BITS 11 w E s = (Inr v, s1)" "reads E w s s1" "ahead E s1 (pos + w) B"
    using get_number [OF a w b call_no_more [OF E(1)]] by blast
  note r = reads_same [OF s1(2)]
  let ?s = "s1\<lparr>m_table_sizes := (m_table_sizes s)[i := v + s_min_table_sizes ! i], m_counter := i + 1\<rparr>"
  have at: "at [5, 5, 4] i = Some w" "at s_min_table_sizes i = Some (s_min_table_sizes ! i)"
    using i(2,3) by (simp_all add: s_min_table_sizes_def)
  have "tinfl_run Table_sizes E s = tinfl_run Table_sizes E ?s"
    using i(1,2) s1(1) r(7)
    by (intro run_to) (simp add: step_table_sizes_def at checked_def put_table_size_eq [OF reads_shaped [OF s1(2) E(3)]] set_counter_def luasem)
  moreover have "goes E s ?s (produced s)"
    by (rule goes_same_output [OF reads_goes [OF s1(2) E(2,3)]])
      (use shaped_put_size [OF reads_shaped [OF s1(2) E(3)]] r(7) in \<open>simp_all add: shaped_def\<close>)
  ultimately show thesis using that [of ?s] s1(3) r by simp
qed

text \<open>The array of lengths after the first \<open>i\<close> of them have been read.\<close>

definition lens_read :: "nat list \<Rightarrow> nat \<Rightarrow> nat list \<Rightarrow> bool" where
  "lens_read ls i c \<longleftrightarrow> length c = 288 \<and> (\<forall>m < 19. c ! m = (if \<exists>j < i. s_length_dezigzag ! j = m then ls ! m else 0))"

lemma length_dezigzag: "length s_length_dezigzag = 19"
  by (simp add: s_length_dezigzag_def)

lemma dezigzag_less: "j < 19 \<Longrightarrow> s_length_dezigzag ! j < 19"
  using list_all_nth [of "\<lambda>k. k < 19" s_length_dezigzag j] by (simp add: s_length_dezigzag_def)

lemma dezigzag_onto: "m < 19 \<Longrightarrow> \<exists>j < 19. s_length_dezigzag ! j = m"
proof -
  have "set s_length_dezigzag = {0..<19}" by (auto simp: s_length_dezigzag_def) arith
  then show "m < 19 \<Longrightarrow> \<exists>j < 19. s_length_dezigzag ! j = m"
    using in_set_conv_nth [of m s_length_dezigzag] by (auto simp: length_dezigzag)
qed

lemma lens_read_0: "lens_read ls 0 (replicate 288 0)"
  by (simp add: lens_read_def)

lemma lens_read_Suc:
  assumes "lens_read ls i c" "i < 19"
  shows "lens_read ls (i + 1) (c[s_length_dezigzag ! i := ls ! (s_length_dezigzag ! i)])"
  using assms dezigzag_less [OF assms(2)] unfolding lens_read_def by (auto simp: nth_list_update less_Suc_eq)

lemma lens_read_all:
  assumes "lens_read ls k c" "k \<le> 19" "length ls = 19" "\<forall>i < 19. k \<le> i \<longrightarrow> ls ! (s_length_dezigzag ! i) = 0"
  shows "take 19 c = ls"
proof (rule nth_equalityI)
  show "length (take 19 c) = length ls" using assms(1,3) by (simp add: lens_read_def)
  fix m assume "m < length (take 19 c)"
  then have m: "m < 19" by simp
  obtain j where j: "j < 19" "s_length_dezigzag ! j = m" using dezigzag_onto [OF m] by blast
  have "c ! m = (if \<exists>j < k. s_length_dezigzag ! j = m then ls ! m else 0)" using assms(1) m by (simp add: lens_read_def)
  also have "\<dots> = ls ! m" using assms(4) j by (auto simp: not_less)
  finally show "take 19 c ! m = ls ! m" using m by simp
qed

lemma code_length_lengths_run:
  assumes E: "call_ok E" and ls: "k \<le> 19" "length ls = 19" "\<forall>l \<in> set ls. l < 8"
  shows "st_ok E s \<Longrightarrow> shaped s \<Longrightarrow> m_counter s = i \<Longrightarrow> i \<le> k \<Longrightarrow> m_table_sizes s ! 2 = k \<Longrightarrow> lens_read ls i (m_code_size (m_tables s ! 2))
    \<Longrightarrow> ahead E s pos (concat (map (\<lambda>i. number_bits 3 (ls ! (s_length_dezigzag ! i))) [i..<k]) @ B)
    \<Longrightarrow> \<exists>s'. tinfl_run Code_length_lengths E s = tinfl_run Build E s' \<and> lens_read ls k (m_code_size (m_tables s' ! 2))
      \<and> m_table_sizes s' = (m_table_sizes s)[2 := 19] \<and> ahead E s' (pos + 3 * (k - i)) B \<and> goes E s s' (produced s)
      \<and> m_final s' = m_final s \<and> m_type s' = m_type s \<and> m_len_codes s' = m_len_codes s"
proof (induction "k - i" arbitrary: i s pos)
  case 0
  then have i: "i = k" by simp
  let ?s = "s\<lparr>m_table_sizes := (m_table_sizes s)[2 := 19]\<rparr>"
  have "tinfl_run Code_length_lengths E s = tinfl_run Build E ?s"
    using 0 i by (intro run_to) (simp add: step_code_length_lengths_def table_size_eq put_table_size_eq luasem)
  moreover have "goes E s ?s (produced s)"
    by (rule goes_same_output [OF goes_refl [OF 0(2,3)] shaped_put_size [OF 0(3)]]) simp_all
  ultimately show ?case using 0 i by (intro exI [of _ ?s]) simp
next
  case (Suc n)
  have i: "i < k" "i < 19" using Suc(2) ls(1) by simp_all
  let ?j = "s_length_dezigzag ! i"
  have j: "?j < 19" by (rule dezigzag_less [OF i(2)])
  have v: "ls ! ?j < 2 ^ 3" using ls(2,3) j by simp
  have b: "bits_ok E s" using Suc(3) by (simp add: st_ok_def)
  have a: "ahead E s pos (number_bits 3 (ls ! ?j) @ concat (map (\<lambda>i. number_bits 3 (ls ! (s_length_dezigzag ! i))) [Suc i..<k]) @ B)"
    using Suc(9) i(1) by (simp add: upt_conv_Cons)
  obtain s1 where s1: "TINFL_GET_BITS 14 3 E s = (Inr (ls ! ?j), s1)" "reads E 3 s s1"
      "ahead E s1 (pos + 3) (concat (map (\<lambda>i. number_bits 3 (ls ! (s_length_dezigzag ! i))) [Suc i..<k]) @ B)"
    using get_number [OF a v _ b call_no_more [OF E]] by auto
  note r = reads_same [OF s1(2)]
  note w1 = reads_shaped [OF s1(2) Suc(4)]
  let ?c = "(m_code_size (m_tables s ! 2))[?j := ls ! ?j]"
  let ?p = "(m_tables s ! 2)\<lparr>m_code_size := ?c\<rparr>"
  let ?s = "s1\<lparr>m_tables := (m_tables s)[2 := ?p], m_counter := i + 1\<rparr>"
  have l2: "length (m_code_size (m_tables s ! 2)) = 288" using shaped_tables(2) [OF Suc(4), of 2] by simp
  have p: "put (m_code_size (m_tables s ! 2)) ?j (ls ! ?j) = Some ?c" using j l2 by (simp add: put_def)
  have w2: "shaped ?s" using shaped_put_table [OF w1, of ?p 2] l2 r(9) by (simp add: shaped_def)
  have st: "tinfl_run Code_length_lengths E s = tinfl_run Code_length_lengths E ?s"
    using Suc(4,5,7) i(1,2) s1(1) w1 r(9) p
    by (intro run_to) (simp add: step_code_length_lengths_def table_size_eq table_eq put_table_eq checked_def
        length_dezigzag set_counter_def luasem)
  have g: "goes E s ?s (produced s)"
    by (rule goes_same_output [OF reads_goes [OF s1(2) Suc(3,4)] w2]) simp_all
  have "2 < length (m_tables s)" using shaped_tables(1) [OF Suc(4), of 2] by simp
  then have lr: "lens_read ls (i + 1) (m_code_size (m_tables ?s ! 2))" using lens_read_Suc [OF Suc(8) i(2)] by simp
  have "n = k - (i + 1)" "i + 1 \<le> k" using Suc(2) i(1) by simp_all
  from Suc(1) [OF this(1) goesD(1) [OF g] w2 _ this(2) _ lr, of "pos + 3"] s1(3) Suc(7) r(7)
  obtain s2 where s2: "tinfl_run Code_length_lengths E ?s = tinfl_run Build E s2" "lens_read ls k (m_code_size (m_tables s2 ! 2))"
      "m_table_sizes s2 = (m_table_sizes ?s)[2 := 19]" "ahead E s2 (pos + 3 + 3 * (k - (i + 1))) B" "goes E ?s s2 (produced ?s)"
      "m_final s2 = m_final ?s" "m_type s2 = m_type ?s" "m_len_codes s2 = m_len_codes ?s"
    by auto
  have "goes E s s2 (produced s)" using goes_trans [OF g s2(5)] goesD(4) [OF g] by simp
  moreover have "pos + 3 + 3 * (k - (i + 1)) = pos + 3 * (k - i)" using i(1) by simp
  then have "ahead E s2 (pos + 3 * (k - i)) B" using s2(4) by (simp only:)
  ultimately show ?case using st s2(1-3,6-8) r by (intro exI [of _ s2]) simp
qed

subsection \<open>The lengths of the two codes\<close>

lemma len_codes_length: "shaped s \<Longrightarrow> length (m_len_codes s) = 457"
  by (simp add: shaped_def)

text \<open>One run of lengths: the lengths \<open>xs\<close> that have been said become \<open>say_run x xs\<close>.\<close>

definition says :: "tinfl \<Rightarrow> nat list \<Rightarrow> bool" where
  "says s xs \<longleftrightarrow> m_counter s = length xs \<and> take (length xs) (m_len_codes s) = xs"

lemma says_put_list:
  assumes "take n lc = xs" "length xs = n" "n + length ys \<le> length lc"
  shows "put_list lc n ys = Some (take n lc @ ys @ drop (n + length ys) lc)"
    "take (length (xs @ ys)) (take n lc @ ys @ drop (n + length ys) lc) = xs @ ys"
  using assms by (simp_all add: put_list_def min_def)

text \<open>The state as it is between two runs.\<close>

definition between :: "tinfl_call \<Rightarrow> nat list \<Rightarrow> nat \<Rightarrow> nat \<Rightarrow> tinfl \<Rightarrow> nat list \<Rightarrow> bool" where
  "between E ls n0 n1 s xs \<longleftrightarrow> st_ok E s \<and> shaped s \<and> good_tables ls (m_tables s ! 2) \<and> length ls = 19 \<and> says s xs
     \<and> m_table_sizes s ! 0 = n0 \<and> m_table_sizes s ! 1 = n1"

lemma betweenD:
  assumes "between E ls n0 n1 s xs"
  shows "st_ok E s" "bits_ok E s" "shaped s" "good_tables ls (m_tables s ! 2)" "length ls = 19" "m_counter s = length xs"
    "take (length xs) (m_len_codes s) = xs" "m_table_sizes s ! 0 = n0" "m_table_sizes s ! 1 = n1"
  using assms by (simp_all add: between_def says_def st_ok_def)

lemma code_symbol:
  assumes E: "call_ok E" and b: "between E ls n0 n1 s xs" and l: "length xs < n0 + n1"
    and a: "ahead E s pos (huff_bits ls d @ B)" "d < 19" "0 < ls ! d"
  obtains s1 where "TINFL_HUFF_DECODE 16 False (m_tables s ! 2) E s = (Inr d, s1)" "reads E (ls ! d) s s1" "ahead E s1 (pos + ls ! d) B"
    "\<And>k. bindM counterM k E s = k (length xs) E s" "shaped s1"
proof -
  note D = betweenD [OF b]
  obtain s1 where s1: "TINFL_HUFF_DECODE 16 False (m_tables s ! 2) E s = (Inr d, s1)" "reads E (ls ! d) s s1" "ahead E s1 (pos + ls ! d) B"
    using get_symbol [OF a(1) D(4) _ a(3) D(2) call_no_more [OF E]] a(2) D(5) by auto
  then show thesis using that [OF s1] D(6) reads_shaped [OF s1(2) D(3)] by (simp add: luasem)
qed

lemma len_step:
  assumes E: "call_ok E" and b: "between E ls n0 n1 s xs" and l: "length xs < n0 + n1" "n0 + n1 \<le> 320"
    and a: "ahead E s pos (huff_bits ls d @ B)" "d < 16" "0 < ls ! d"
  shows "\<exists>s'. tinfl_run (Code_lengths False) E s = tinfl_run (Code_lengths False) E s' \<and> between E ls n0 n1 s' (xs @ [d])
    \<and> ahead E s' (pos + ls ! d) B \<and> goes E s s' (produced s) \<and> m_final s' = m_final s \<and> m_type s' = m_type s \<and> m_tables s' = m_tables s
    \<and> m_table_sizes s' = m_table_sizes s"
proof -
  note D = betweenD [OF b]
  obtain s1 where s1: "TINFL_HUFF_DECODE 16 False (m_tables s ! 2) E s = (Inr d, s1)" "reads E (ls ! d) s s1"
      "ahead E s1 (pos + ls ! d) B" "shaped s1"
    using code_symbol [OF E b l(1) a(1) _ a(3)] a(2) by auto
  note r = reads_same [OF s1(2)]
  let ?lc = "(m_len_codes s)[length xs := d]"
  let ?s = "s1\<lparr>m_dist := d, m_len_codes := ?lc, m_counter := length xs + 1\<rparr>"
  have lc: "length xs < length (m_len_codes s)" using len_codes_length [OF D(3)] l by simp
  have w: "shaped ?s" using shaped_put_lens [OF s1(4), of ?lc] len_codes_length [OF D(3)] by (simp add: shaped_def)
  have st: "tinfl_run (Code_lengths False) E s = tinfl_run (Code_lengths False) E ?s"
    using s1(1) D(3,6,8,9) l(1) a(2) lc r(11)
    by (intro run_to) (simp add: step_code_lengths_def table_size_eq table_eq checked_def put_def set_counter_def luasem)
  have g: "goes E s ?s (produced s)" by (rule goes_same_output [OF reads_goes [OF s1(2) D(1,3)] w]) simp_all
  have "take (length xs + 1) ?lc = xs @ [d]" using lc D(7) by (simp add: take_Suc_conv_app_nth)
  then have "between E ls n0 n1 ?s (xs @ [d])"
    using D goesD(1) [OF g] w r by (simp add: between_def says_def)
  then show ?thesis using st s1(3) g r by (intro exI [of _ ?s]) simp
qed

lemma repeat_step:
  assumes E: "call_ok E" and b: "between E ls n0 n1 s xs" and l: "length xs < n0 + n1" "n0 + n1 \<le> 320"
    and d: "16 \<le> d" "d \<le> 18" "0 < ls ! d" "d = 16 \<longrightarrow> xs \<noteq> []" and k: "k = [2, 3, 7] ! (d - 16)" "n < 2 ^ k"
    and a: "ahead E s pos (huff_bits ls d @ number_bits k n @ B)"
    and ys: "ys = replicate (n + [3, 3, 11] ! (d - 16)) (if d = 16 then last xs else 0)"
  shows "\<exists>s'. tinfl_run (Code_lengths False) E s = tinfl_run (Code_lengths False) E s' \<and> between E ls n0 n1 s' (xs @ ys)
    \<and> ahead E s' (pos + ls ! d + k) B \<and> goes E s s' (produced s) \<and> m_final s' = m_final s \<and> m_type s' = m_type s \<and> m_tables s' = m_tables s
    \<and> m_table_sizes s' = m_table_sizes s"
proof -
  note D = betweenD [OF b]
  obtain s1 where s1: "TINFL_HUFF_DECODE 16 False (m_tables s ! 2) E s = (Inr d, s1)" "reads E (ls ! d) s s1"
      "ahead E s1 (pos + ls ! d) (number_bits k n @ B)" "shaped s1"
    using code_symbol [OF E b l(1) a _ d(3)] d(2) by auto
  note r = reads_same [OF s1(2)]
  let ?s = "s1\<lparr>m_dist := d, m_num_extra := k\<rparr>"
  have dc: "d = 16 \<or> d = 17 \<or> d = 18" using d(1,2) by linarith
  have at: "at [2, 3, 7] (d - 16) = Some k" "at [3, 3, 11] (d - 16) = Some ([3, 3, 11] ! (d - 16) :: nat)"
    using k(1) dc by auto
  have k54: "k \<le> 54" "n + [3, 3, 11] ! (d - 16) \<le> 138" using k dc by auto
  have e: "emits E s ?s (produced s)" using reads_emits [OF s1(2) D(1)] by simp
  have r1: "tinfl_run (Code_lengths False) E s = tinfl_run Repeat_length E ?s"
    using s1(1) D(3,6,8,9) l(1) d(1,4) at(1)
    by (intro run_to) (auto simp: step_code_lengths_def table_size_eq table_eq checked_def luasem)
  have a1: "ahead E ?s (pos + ls ! d) (number_bits k n @ B)" using s1(3) by simp
  obtain s2 where s2: "TINFL_GET_BITS 18 k E ?s = (Inr n, s2)" "reads E k ?s s2" "ahead E s2 (pos + ls ! d + k) B"
    using get_number [OF a1 k(2) k54(1) emitsD(2) [OF e] call_no_more [OF E]] by auto
  note r2 = reads_same [OF s2(2)]
  have ln: "length ys = n + [3, 3, 11] ! (d - 16)" using ys by simp
  have lx: "length xs + length ys \<le> length (m_len_codes s)" using l k54(2) ln len_codes_length [OF D(3)] by simp
  note put = says_put_list [OF D(7) refl lx]
  let ?lc = "take (length xs) (m_len_codes s) @ ys @ drop (length xs + length ys) (m_len_codes s)"
  let ?t = "s2\<lparr>m_len_codes := ?lc, m_counter := length xs + length ys\<rparr>"
  define m where "m = ([3, 3, 11] ! (d - 16) :: nat)"
  define v where "v = (if d = 16 then last xs else 0)"
  have x: "checked (at (m_len_codes s) (length xs - 1)) E s2 = (Inr v, s2)" if "d = 16"
  proof -
    have x0: "xs \<noteq> []" using d(4) that by simp
    then have lt: "length xs - 1 < length xs" by (cases xs) simp_all
    then have "m_len_codes s ! (length xs - 1) = xs ! (length xs - 1)" using D(7) nth_take by metis
    moreover have "length xs - 1 < length (m_len_codes s)" using lt lx by simp
    ultimately show ?thesis using that x0 by (simp add: v_def checked_def last_conv_nth luasem)
  qed
  have lc2: "m_len_codes s2 = m_len_codes s" "m_counter s2 = length xs" "m_dist s2 = d" using r2 r D(6) by simp_all
  have ym: "replicate (n + m) v = ys" "length ys = n + m" "at [3, 3, 11] (d - 16) = Some m"
    using at(2) ys by (simp_all only: m_def v_def length_replicate)
  have pl: "checked (put_list (m_len_codes s) (length xs) (replicate (n + m) v)) E s2 = (Inr ?lc, s2)"
    using put(1) by (simp only: ym(1)) (simp add: checked_def luasem)
  have m3: "checked (Some m) E s2 = (Inr m, s2)" by (simp add: checked_def luasem)
  note unrun = step_repeat_length_def run_bindM run_getM run_thenM run_modM run_retM set_counter_def lc2 pl ym(2,3) m3
  have r3: "tinfl_run Repeat_length E ?s = tinfl_run (Code_lengths False) E ?t"
  proof (cases "d = 16")
    case True
    show ?thesis using s2(1)
      by (intro run_to) (simp add: unrun if_P [OF True] x [OF True] del: One_nat_def)
  next
    case False
    have v: "v = 0" using False by (simp add: v_def)
    show ?thesis using s2(1) pl [unfolded v]
      by (intro run_to) (simp add: unrun if_not_P [OF False] del: One_nat_def)
  qed
  have w: "shaped ?t"
    using shaped_put_lens [OF reads_shaped [OF s2(2)], of ?lc] s1(4) lx len_codes_length [OF D(3)] by (simp add: shaped_def)
  have g2: "goes E s s2 (produced s)"
    using emits_goes [OF emits_trans [OF e reads_emits [OF s2(2) emitsD(1) [OF e]]] D(3)] emitsD(4) [OF e] by simp
  have g: "goes E s ?t (produced s)" by (rule goes_same_output [OF g2 w]) simp_all
  have "between E ls n0 n1 ?t (xs @ ys)"
    using D goesD(1) [OF g] w r r2 put(2) by (simp add: between_def says_def)
  then show ?thesis using r1 r3 s2(3) g r r2 by (intro exI [of _ ?t]) simp
qed

lemma run_step_lengths:
  assumes E: "call_ok E" and b: "between E ls n0 n1 s xs" and l: "length xs < n0 + n1" "n0 + n1 \<le> 320"
    and a: "ahead E s pos (run_bits ls x @ B)" and ok: "run_ok ls x xs"
  shows "\<exists>s'. tinfl_run (Code_lengths False) E s = tinfl_run (Code_lengths False) E s' \<and> between E ls n0 n1 s' (say_run x xs)
    \<and> ahead E s' (pos + length (run_bits ls x)) B \<and> goes E s s' (produced s) \<and> m_final s' = m_final s \<and> m_type s' = m_type s
    \<and> m_tables s' = m_tables s \<and> m_table_sizes s' = m_table_sizes s"
proof (cases x)
  case (Len d)
  then show ?thesis using len_step [OF E b l, of pos d B] a ok by simp
next
  case (Again n)
  then show ?thesis using repeat_step [OF E b l, of 16 2 n pos B] a ok by (simp add: add.assoc)
next
  case (Zeros3 n)
  then show ?thesis using repeat_step [OF E b l, of 17 3 n pos B] a ok by (simp add: add.assoc)
next
  case (Zeros7 n)
  then show ?thesis using repeat_step [OF E b l, of 18 7 n pos B] a ok by (simp add: add.assoc)
qed

lemma runs_run:
  assumes E: "call_ok E" and n: "n0 + n1 \<le> 320" "length ys = n0 + n1"
  shows "between E ls n0 n1 s xs \<Longrightarrow> runs_say ls rs xs ys \<Longrightarrow> ahead E s pos (concat (map (run_bits ls) rs) @ B)
    \<Longrightarrow> \<exists>s'. tinfl_run (Code_lengths False) E s = tinfl_run (Code_lengths False) E s' \<and> between E ls n0 n1 s' ys
      \<and> ahead E s' (pos + length (concat (map (run_bits ls) rs))) B \<and> goes E s s' (produced s) \<and> m_final s' = m_final s \<and> m_type s' = m_type s
      \<and> m_tables s' = m_tables s \<and> m_table_sizes s' = m_table_sizes s"
proof (induction rs arbitrary: s xs pos)
  case Nil
  then show ?case using goes_refl [OF betweenD(1,3) [OF Nil(1)]] by (intro exI [of _ s]) simp
next
  case (Cons x rs)
  have ok: "run_ok ls x xs" "length xs < n0 + n1" "runs_say ls rs (say_run x xs) ys" using Cons(3) n(2) by simp_all
  have a: "ahead E s pos (run_bits ls x @ concat (map (run_bits ls) rs) @ B)" using Cons(4) by simp
  obtain s1 where s1: "tinfl_run (Code_lengths False) E s = tinfl_run (Code_lengths False) E s1" "between E ls n0 n1 s1 (say_run x xs)"
      "ahead E s1 (pos + length (run_bits ls x)) (concat (map (run_bits ls) rs) @ B)" "goes E s s1 (produced s)" "m_final s1 = m_final s"
      "m_type s1 = m_type s" "m_tables s1 = m_tables s" "m_table_sizes s1 = m_table_sizes s"
    using run_step_lengths [OF E Cons(2) ok(2) n(1) a ok(1)] by blast
  obtain s2 where s2: "tinfl_run (Code_lengths False) E s1 = tinfl_run (Code_lengths False) E s2" "between E ls n0 n1 s2 ys"
      "ahead E s2 (pos + length (run_bits ls x) + length (concat (map (run_bits ls) rs))) B" "goes E s1 s2 (produced s1)"
      "m_final s2 = m_final s1" "m_type s2 = m_type s1" "m_tables s2 = m_tables s1" "m_table_sizes s2 = m_table_sizes s1"
    using Cons.IH [OF s1(2) ok(3) s1(3)] by blast
  have "goes E s s2 (produced s)" using goes_trans [OF s1(4) s2(4)] goesD(4) [OF s1(4)] by simp
  then show ?case using s1 s2 by (intro exI [of _ s2]) (simp add: add.assoc)
qed

text \<open>The lengths are copied to the tables of the two codes.\<close>

lemma lengths_done:
  assumes E: "call_ok E" and b: "between E ls n0 n1 s ys" and n: "n0 + n1 = length ys" "n0 \<le> 288" "n1 \<le> 32" and t: "m_type s = 2"
  obtains s' where "tinfl_run (Code_lengths False) E s = tinfl_run Build E s'" "m_type s' = 1"
    "m_table_sizes s' = m_table_sizes s" "take n0 (m_code_size (m_tables s' ! 0)) = take n0 ys"
    "take n1 (m_code_size (m_tables s' ! 1)) = drop n0 ys" "ahead E s' = ahead E s" "goes E s s' (produced s)" "m_final s' = m_final s"
proof -
  note D = betweenD [OF b]
  let ?p = "m_tables s ! 0" and ?q = "m_tables s ! 1" and ?lc = "m_len_codes s"
  have l: "length (m_code_size ?p) = 288" "length (m_code_size ?q) = 288" "length ?lc = 457"
    using shaped_tables(2) [OF D(3)] len_codes_length [OF D(3)] by simp_all
  have lc: "take n0 ?lc = take n0 ys" "take n1 (drop n0 ?lc) = drop n0 ys"
  proof -
    have "take n0 (take (length ys) ?lc) = take n0 ys" "drop n0 (take (length ys) ?lc) = drop n0 ys" by (simp_all only: D(7))
    moreover have "min n0 (length ys) = n0" "length ys - n0 = n1" using n(1) by simp_all
    ultimately show "take n0 ?lc = take n0 ys" "take n1 (drop n0 ?lc) = drop n0 ys" by (simp_all only: take_take drop_take)
  qed
  have ll: "length (take n0 ys) = n0" "length (drop n0 ys) = n1" using n(1) by simp_all
  let ?c0 = "take n0 ys @ drop n0 (m_code_size ?p)" and ?c1 = "drop n0 ys @ drop n1 (m_code_size ?q)"
  have put: "put_list (m_code_size ?p) 0 (take n0 ?lc) = Some ?c0" "put_list (m_code_size ?q) 0 (take n1 (drop n0 ?lc)) = Some ?c1"
    unfolding lc using l(1,2) n ll by (simp_all add: put_list_def)
  let ?s1 = "s\<lparr>m_tables := (m_tables s)[0 := ?p\<lparr>m_code_size := ?c0\<rparr>]\<rparr>"
  let ?t = "s\<lparr>m_tables := (m_tables s)[0 := ?p\<lparr>m_code_size := ?c0\<rparr>, 1 := ?q\<lparr>m_code_size := ?c1\<rparr>], m_type := 1\<rparr>"
  have w1: "shaped ?s1" using l(1) n ll by (intro shaped_put_table [OF D(3)]) simp
  have w2: "shaped (?s1\<lparr>m_tables := (m_tables ?s1)[1 := ?q\<lparr>m_code_size := ?c1\<rparr>]\<rparr>)"
    using l(2) n ll by (intro shaped_put_table [OF w1]) simp
  have w: "shaped ?t" by (rule shaped_cong [OF w2]) simp_all
  have mt: "m_type_update (\<lambda>t. t - 1) s' = s'\<lparr>m_type := 1\<rparr>" if "m_type s' = 2" for s' :: tinfl
    using that by (cases s') simp
  have "tinfl_run (Code_lengths False) E s = tinfl_run Build E ?t"
    using D(3,6,8,9) n(1) put w1 t
    by (intro run_to) (simp add: step_code_lengths_def table_size_eq table_eq put_table_eq checked_def mt luasem)
  moreover have "goes E s ?t (produced s)" by (rule goes_same_output [OF goes_refl [OF D(1,3)] w]) simp_all
  moreover have "length (m_tables s) = 3" "n0 \<le> length ys" using D(3) n(1) by (simp_all add: shaped_def)
  ultimately show thesis using that [of ?t] ll by simp
qed

subsection \<open>A block with its own codes\<close>

lemma block_dynamic_run:
  assumes E: "call_ok E" "st_ok E s" "shaped s" and ok: "deflate_ok P (Dynamic k ls rs n cs ts)"
    and a: "ahead E s pos (block_bits pos fin (Dynamic k ls rs n cs ts) @ R)"
  obtains s' q where "tinfl_run Block E s = tinfl_run Decode E s'" "codes (take n cs) (drop n cs) s'"
    "ahead E s' q (tokens_bits (take n cs) (drop n cs) ts @ R)"
    "q + length (tokens_bits (take n cs) (drop n cs) ts) = pos + length (block_bits pos fin (Dynamic k ls rs n cs ts))"
    "goes E s s' (produced s)" "m_final s' = type_bits fin 2"
proof -
  let ?L = "concat (map (\<lambda>i. number_bits 3 (ls ! (s_length_dezigzag ! i))) [0..<k])"
  let ?C = "concat (map (run_bits ls) rs)" and ?T = "tokens_bits (take n cs) (drop n cs) ts"
  let ?n1 = "length cs - n"
  have k: "4 \<le> k" "k \<le> 19" "length ls = 19" "complete_code ls" "\<forall>l \<in> set ls. l < 8"
      "\<forall>i < 19. k \<le> i \<longrightarrow> ls ! (s_length_dezigzag ! i) = 0"
    and n: "257 \<le> n" "n \<le> 288" "n < length cs" "length cs \<le> n + 32" "runs_say ls rs [] cs"
      "complete_code (take n cs)" "complete_code (drop n cs)" "0 < cs ! 256"
    using ok by simp_all
  have a0: "ahead E s pos ([fin, odd (2 :: nat), 2 \<le> (2 :: nat)] @ number_bits 5 (n - 257) @ number_bits 5 (?n1 - 1)
      @ number_bits 4 (k - 4) @ ?L @ ?C @ ?T @ R)" using a by simp
  obtain s0 where s0: "TINFL_GET_BITS 3 3 E s = (Inr (type_bits fin 2), s0)" "goes E s s0 (produced s)"
      "ahead E s0 (pos + 3) (number_bits 5 (n - 257) @ number_bits 5 (?n1 - 1) @ number_bits 4 (k - 4) @ ?L @ ?C @ ?T @ R)"
    using block_head [OF E a0] by auto
  let ?s0 = "s0\<lparr>m_final := type_bits fin 2, m_type := 2, m_counter := 0\<rparr>"
  have g0: "goes E s ?s0 (produced s)" using s0(2) by simp
  have r0: "tinfl_run Block E s = tinfl_run Table_sizes E ?s0"
    using s0(1) by (intro run_to) (simp add: step_block_def type_bits_eq set_counter_def luasem)
  have b0: "ahead E ?s0 (pos + 3) (number_bits 5 (n - 257) @ number_bits 5 (?n1 - 1) @ number_bits 4 (k - 4) @ ?L @ ?C @ ?T @ R)"
    using s0(3) by simp
  have v: "n - 257 < 2 ^ 5" "?n1 - 1 < 2 ^ 5" "k - 4 < 2 ^ 4" using n k by simp_all
  have l3: "length (m_table_sizes ?s0) = 3" using goesD(3) [OF g0] by (simp add: shaped_def)
  obtain s1 where s1: "tinfl_run Table_sizes E ?s0 = tinfl_run Table_sizes E s1" "m_counter s1 = 0 + 1"
    "m_table_sizes s1 = (m_table_sizes ?s0)[0 := n - 257 + s_min_table_sizes ! 0]"
    "ahead E s1 (pos + 3 + 5) (number_bits 5 (?n1 - 1) @ number_bits 4 (k - 4) @ ?L @ ?C @ ?T @ R)" "goes E ?s0 s1 (produced ?s0)"
    "m_final s1 = m_final ?s0" "m_type s1 = m_type ?s0" "m_tables s1 = m_tables ?s0" "m_len_codes s1 = m_len_codes ?s0"
    by (rule table_sizes_step [OF E(1) goesD(1,3) [OF g0] b0 v(1), of 0]) simp_all
  have g1: "goes E s s1 (produced s)" using goes_trans [OF g0 s1(5)] goesD(4) [OF g0] by simp
  have c1: "m_counter s1 = 1" using s1(2) by simp
  obtain s2 where s2: "tinfl_run Table_sizes E s1 = tinfl_run Table_sizes E s2" "m_counter s2 = 1 + 1"
    "m_table_sizes s2 = (m_table_sizes s1)[1 := ?n1 - 1 + s_min_table_sizes ! 1]"
    "ahead E s2 (pos + 3 + 5 + 5) (number_bits 4 (k - 4) @ ?L @ ?C @ ?T @ R)" "goes E s1 s2 (produced s1)"
    "m_final s2 = m_final s1" "m_type s2 = m_type s1" "m_tables s2 = m_tables s1" "m_len_codes s2 = m_len_codes s1"
    by (rule table_sizes_step [OF E(1) goesD(1,3) [OF g1] s1(4) v(2) c1]) simp_all
  have g2: "goes E s s2 (produced s)" using goes_trans [OF g1 s2(5)] goesD(4) [OF g1] by simp
  have c2: "m_counter s2 = 2" using s2(2) by simp
  obtain s3 where s3: "tinfl_run Table_sizes E s2 = tinfl_run Table_sizes E s3" "m_counter s3 = 2 + 1"
    "m_table_sizes s3 = (m_table_sizes s2)[2 := k - 4 + s_min_table_sizes ! 2]"
    "ahead E s3 (pos + 3 + 5 + 5 + 4) (?L @ ?C @ ?T @ R)" "goes E s2 s3 (produced s2)"
    "m_final s3 = m_final s2" "m_type s3 = m_type s2" "m_tables s3 = m_tables s2" "m_len_codes s3 = m_len_codes s2"
    by (rule table_sizes_step [OF E(1) goesD(1,3) [OF g2] s2(4) v(3) c2]) simp_all
  have g3: "goes E s s3 (produced s)" using goes_trans [OF g2 s3(5)] goesD(4) [OF g2] by simp
  have sizes: "m_table_sizes s3 ! 0 = n" "m_table_sizes s3 ! 1 = ?n1" "m_table_sizes s3 ! 2 = k"
    using n k l3 unfolding s3(3) s2(3) s1(3) by (simp_all add: s_min_table_sizes_def)
  have m3: "m_final s3 = type_bits fin 2" "m_type s3 = 2" using s1 s2 s3 by simp_all
  let ?p = "(m_tables s3 ! 2)\<lparr>m_code_size := replicate 288 0\<rparr>"
  let ?s4 = "s3\<lparr>m_tables := (m_tables s3)[2 := ?p], m_counter := 0\<rparr>"
  have w3: "shaped s3" by (rule goesD(3) [OF g3])
  have "shaped (s3\<lparr>m_tables := (m_tables s3)[2 := ?p]\<rparr>)" by (intro shaped_put_table [OF w3]) simp
  then have w4: "shaped ?s4" by simp
  have r4: "tinfl_run Table_sizes E s3 = tinfl_run Code_length_lengths E ?s4"
    using s3(2) w3 by (intro run_to) (simp add: step_table_sizes_def table_eq put_table_eq set_counter_def luasem)
  have g4: "goes E s ?s4 (produced s)" by (rule goes_same_output [OF g3 w4]) simp_all
  have "2 < length (m_tables s3)" using shaped_tables(1) [OF w3, of 2] by simp
  then have lr: "lens_read ls 0 (m_code_size (m_tables ?s4 ! 2))" by (simp add: lens_read_0)
  obtain s5 where s5: "tinfl_run Code_length_lengths E ?s4 = tinfl_run Build E s5" "lens_read ls k (m_code_size (m_tables s5 ! 2))"
      "m_table_sizes s5 = (m_table_sizes ?s4)[2 := 19]" "ahead E s5 (pos + 3 + 5 + 5 + 4 + 3 * (k - 0)) (?C @ ?T @ R)"
      "goes E ?s4 s5 (produced ?s4)" "m_final s5 = m_final ?s4" "m_type s5 = m_type ?s4"
    using code_length_lengths_run [OF E(1) k(2,3,5) goesD(1) [OF g4] w4 _ _ _ lr, of "pos + 3 + 5 + 5 + 4"] sizes(3) s3(4) by auto
  have g5: "goes E s s5 (produced s)" using goes_trans [OF g4 s5(5)] goesD(4) [OF g4] by simp
  note w5 = goesD(3) [OF g5]
  have ls: "take 19 (m_code_size (m_tables s5 ! 2)) = ls" by (rule lens_read_all [OF s5(2) k(2,3,6)])
  have l5: "length (m_table_sizes s5) = 3" using w5 by (simp add: shaped_def)
  then have n19: "m_table_sizes s5 ! 2 = 19" using s5(3) by simp
  have t2: "m_type s5 = int 2" using s5(7) m3(2) by simp
  have cc: "complete_code (take (m_table_sizes s5 ! 2) (m_code_size (m_tables s5 ! 2)))" using n19 ls k(4) by simp
  obtain p where p: "tinfl_step Build E s5 = (Inr (Code_lengths False), s5\<lparr>m_tables := (m_tables s5)[2 := p], m_counter := 0\<rparr>)"
      "good_tables ls p" "m_code_size p = m_code_size (m_tables s5 ! 2)"
    using build_step [OF w5 t2 _ _ cc] n19 ls by auto
  let ?s6 = "s5\<lparr>m_tables := (m_tables s5)[2 := p], m_counter := 0\<rparr>"
  have "length (m_code_size p) = 288" using p(3) shaped_tables(2) [OF w5, of 2] by simp
  from shaped_put_table [OF w5 this, of 2] have w6: "shaped ?s6" by simp
  have g6: "goes E s ?s6 (produced s)" by (rule goes_same_output [OF g5 w6]) simp_all
  have z6: "m_table_sizes ?s6 ! 0 = n" "m_table_sizes ?s6 ! 1 = ?n1" using s5(3) sizes by simp_all
  have "2 < length (m_tables s5)" using shaped_tables(1) [OF w5, of 2] by simp
  then have b6: "between E ls n ?n1 ?s6 []" using goesD(1) [OF g6] w6 p(2) k(3) z6 by (simp add: between_def says_def)
  have a6: "ahead E ?s6 (pos + 17 + 3 * k) (?C @ ?T @ R)" using s5(4) by (simp add: add.assoc)
  have nn: "n + ?n1 \<le> 320" "length cs = n + ?n1" "n + ?n1 = length cs" "?n1 \<le> 32" using n by simp_all
  obtain s7 where s7: "tinfl_run (Code_lengths False) E ?s6 = tinfl_run (Code_lengths False) E s7" "between E ls n ?n1 s7 cs"
      "ahead E s7 (pos + 17 + 3 * k + length ?C) (?T @ R)" "goes E ?s6 s7 (produced ?s6)" "m_final s7 = m_final ?s6"
      "m_type s7 = m_type ?s6" "m_table_sizes s7 = m_table_sizes ?s6"
    using runs_run [OF E(1) nn(1,2) b6 n(5) a6] by blast
  have g7: "goes E s s7 (produced s)" using goes_trans [OF g6 s7(4)] goesD(4) [OF g6] by simp
  have t7: "m_type s7 = 2" using s7(6) t2 by simp
  obtain s8 where s8: "tinfl_run (Code_lengths False) E s7 = tinfl_run Build E s8" "m_type s8 = 1" "m_table_sizes s8 = m_table_sizes s7"
      "take n (m_code_size (m_tables s8 ! 0)) = take n cs" "take ?n1 (m_code_size (m_tables s8 ! 1)) = drop n cs"
      "ahead E s8 = ahead E s7" "goes E s7 s8 (produced s7)" "m_final s8 = m_final s7"
    by (rule lengths_done [OF E(1) s7(2) nn(3) n(2) nn(4) t7])
  have g8: "goes E s s8 (produced s)" using goes_trans [OF g7 s8(7)] goesD(4) [OF g7] by simp
  have z8: "m_table_sizes s8 ! 0 = n" "m_table_sizes s8 ! 1 = ?n1" using s8(3) s7(7) z6 by simp_all
  have c256: "256 < length (take n cs)" "0 < take n cs ! 256" using n by simp_all
  obtain s9 where s9: "tinfl_run Build E s8 = tinfl_run Decode E s9" "codes (take n cs) (drop n cs) s9" "ahead E s9 = ahead E s8"
      "goes E s8 s9 (produced s8)" "m_final s9 = m_final s8"
    by (rule build_run [OF E(1) goesD(1,3) [OF g8] s8(2), of "take n cs" "drop n cs"]) (use z8 n nn s8(4,5) c256 in simp_all)
  have g9: "goes E s s9 (produced s)" using goes_trans [OF g8 s9(4)] goesD(4) [OF g8] by simp
  have "tinfl_run Block E s = tinfl_run Decode E s9"
    using r0 s1(1) s2(1) s3(1) r4 s5(1) run_to [OF p(1)] s7(1) s8(1) s9(1) by (simp only:)
  moreover have "ahead E s9 (pos + 17 + 3 * k + length ?C) (?T @ R)" using s9(3) s8(6) s7(3) by simp
  moreover have "length ?L = 3 * k" by (simp add: length_concat o_def sum_list_triv)
  ultimately show thesis using that [of s9 "pos + 17 + 3 * k + length ?C"] s9(2) g9 s9(5) s8(8) s7(5) s5(6) m3(1) by simp
qed

end
