(* ===== verification/Tinfl_Stream.thy ===== *)
theory Tinfl_Stream
  imports Tinfl_Codes
begin

text \<open>
  The runs of the inflater on a whole stream: block after block, until the last one is done or the
  output is full, and then from there in the next call.
\<close>

subsection \<open>A stored block\<close>

lemma block_stored_run:
  assumes E: "call_ok E" "st_ok E s" "shaped s" and n: "length bs < 65536"
    and a: "ahead E s pos (block_bits pos fin (Stored bs) @ R)" and q: "q = pos + length (block_bits pos fin (Stored bs))"
  obtains s' where "tinfl_run Block E s = tinfl_run Raw_bits E s'" "raw_end E Raw_bits s' q R (produced s @ bs)"
    "goes E s s' (produced s)" "m_final s' = type_bits fin 0"
proof -
  let ?k = "(8 - (pos + 3) mod 8) mod 8"
  let ?H = "number_bits 16 (length bs) @ number_bits 16 (65535 - length bs) @ bytes_bits bs @ R"
  have a0: "ahead E s pos ([fin, odd (0 :: nat), 2 \<le> (0 :: nat)] @ replicate ?k False @ ?H)" using a by simp
  obtain s0 where s0: "TINFL_GET_BITS 3 3 E s = (Inr (type_bits fin 0), s0)" "goes E s s0 (produced s)"
      "ahead E s0 (pos + 3) (replicate ?k False @ ?H)"
    using block_head [OF E a0] by auto
  let ?s0 = "s0\<lparr>m_final := type_bits fin 0, m_type := 0\<rparr>"
  have g0: "goes E s ?s0 (produced s)" using s0(2) by simp
  have r0: "tinfl_run Block E s = tinfl_run Skip_to_byte E ?s0"
    using s0(1) by (intro run_to) (simp add: step_block_def type_bits_eq luasem)
  have b0: "ahead E ?s0 (pos + 3) (replicate ?k False @ ?H)" using s0(3) by simp
  obtain s1 where s1: "tinfl_run Skip_to_byte E ?s0 = tinfl_run Raw_header E s1" "m_counter s1 = 0"
      "ahead E s1 (pos + 3 + ?k) ?H" "emits E ?s0 s1 (produced ?s0)"
    by (rule skip_to_byte_run [OF E(1) goesD(1,3) [OF g0] b0])
  have g1: "goes E s s1 (produced s)" using goes_trans [OF g0 emits_goes [OF s1(4) goesD(3) [OF g0]]] goesD(4) [OF g0] by simp
  obtain s2 where s2: "tinfl_run Raw_header E s1 = tinfl_run Raw_bits E s2" "m_counter s2 = length bs"
      "ahead E s2 (pos + 3 + ?k + 32) (bytes_bits bs @ R)" "goes E s1 s2 (produced s1)" "m_final s2 = m_final s1"
    by (rule raw_header_run [OF E(1) goesD(1,3) [OF g1] n s1(2,3)])
  have g2: "goes E s s2 (produced s)" using goes_trans [OF g1 s2(4)] goesD(4) [OF g1] by simp
  have q': "q = pos + 3 + ?k + 32 + 8 * length bs" using q by simp
  have "raw_end E Raw_bits s2 q R (produced s @ bs)"
    using raw_bits_run [OF E(1) goesD(1) [OF g2] s2(2,3) q'] goesD(4) [OF g2] by simp
  then show thesis using that [of s2] r0 s1(1) s2(1,5) g2 emitsD(6) [OF s1(4)] by simp
qed

subsection \<open>Where a run stops within a stream\<close>

definition paused :: "tinfl_call \<Rightarrow> nat \<Rightarrow> bool list \<Rightarrow> bytes \<Rightarrow> tinfl \<Rightarrow> bool" where
  "paused E fin R W s \<longleftrightarrow> (\<exists>bl Q pos. m_final s AND 1 = of_bool (bl = []) \<and> blocks_ok Q bl \<and> W = expand bl Q
     \<and> fin = pos + length (stream_bits pos bl)
     \<and> ((\<exists>cs ds. codes cs ds s \<and> stopped E cs ds pos (stream_bits pos bl @ R) Q s)
       \<or> raw_left E s pos (stream_bits pos bl @ R) Q))"

definition blocks_end :: "tinfl_call \<Rightarrow> tinfl_point \<Rightarrow> tinfl \<Rightarrow> nat \<Rightarrow> bool list \<Rightarrow> bytes \<Rightarrow> bool" where
  "blocks_end E p s fin R W \<longleftrightarrow>
     (\<exists>s'. tinfl_run p E s = tinfl_run Block_end E s' \<and> m_final s' AND 1 = 1 \<and> ahead E s' fin R \<and> goes E s s' W)
   \<or> (\<exists>s'. tinfl_run p E s = Some (Status TINFL_STATUS_HAS_MORE_OUTPUT, s') \<and> goes E s s' (produced s')
       \<and> full s' \<and> paused E fin R W s')"

lemma blocks_end_trans:
  assumes "tinfl_run p E s = tinfl_run p' E s1" "goes E s s1 P" "blocks_end E p' s1 fin R W"
  shows "blocks_end E p s fin R W"
  using assms(3) goes_trans [OF assms(2)] unfolding blocks_end_def assms(1) by blast

lemma blocks_end_done:
  assumes "tinfl_run p E s = tinfl_run Block_end E s'" "m_final s' AND 1 = 1" "ahead E s' fin R" "goes E s s' W"
  shows "blocks_end E p s fin R W"
  unfolding blocks_end_def by (rule disjI1) (use assms in blast)

lemma blocks_end_full:
  assumes "tinfl_run p E s = Some (Status TINFL_STATUS_HAS_MORE_OUTPUT, s')" "goes E s s' (produced s')" "full s'"
    "paused E fin R W s'"
  shows "blocks_end E p s fin R W"
  unfolding blocks_end_def by (rule disjI2) (use assms in blast)

text \<open>A block that is done is followed by the rest \<open>bl\<close> of the stream.\<close>

definition goes_on :: "tinfl_call \<Rightarrow> deflate_block list \<Rightarrow> nat \<Rightarrow> bool list \<Rightarrow> bool" where
  "goes_on E bl fin R \<longleftrightarrow> (\<forall>s pos. st_ok E s \<longrightarrow> shaped s \<longrightarrow> ahead E s pos (stream_bits pos bl @ R) \<longrightarrow>
     m_final s AND 1 = of_bool (bl = []) \<longrightarrow> blocks_ok (produced s) bl \<longrightarrow> fin = pos + length (stream_bits pos bl) \<longrightarrow>
     blocks_end E Block_end s fin R (expand bl (produced s)))"

lemma tokens_then:
  assumes "tokens_end E p s cs ds pos (stream_bits pos bl @ R) Q" "codes cs ds s" "shaped s" "m_final s AND 1 = of_bool (bl = [])"
    "blocks_ok Q bl" "fin = pos + length (stream_bits pos bl)" "goes_on E bl fin R"
  shows "blocks_end E p s fin R (expand bl Q)"
proof -
  consider (over) s' where "tinfl_run p E s = tinfl_run Block_end E s'" "ahead E s' pos (stream_bits pos bl @ R)" "emits E s s' Q"
    | (stop) s' where "tinfl_run p E s = Some (Status TINFL_STATUS_HAS_MORE_OUTPUT, s')" "emits E s s' (produced s')" "full s'"
        "stopped E cs ds pos (stream_bits pos bl @ R) Q s'"
    using assms(1) unfolding tokens_end_def by blast
  then show ?thesis
  proof cases
    case over
    note g = emits_goes [OF over(3) assms(3)]
    have "blocks_end E Block_end s' fin R (expand bl (produced s'))"
      using assms(4-7) goesD(1,3) [OF g] over(2) emitsD(4,6) [OF over(3)] unfolding goes_on_def by auto
    then show ?thesis using blocks_end_trans [OF over(1) g] emitsD(4) [OF over(3)] by simp
  next
    case stop
    have "paused E fin R (expand bl Q) s'"
      unfolding paused_def using assms(4-6) stop(4) codes_emits [OF assms(2) stop(2)] emitsD(6) [OF stop(2)]
      by (intro exI [of _ bl] exI [of _ Q] exI [of _ pos]) auto
    then show ?thesis using blocks_end_full [OF stop(1) emits_goes [OF stop(2) assms(3)] stop(3)] by blast
  qed
qed

lemma raw_then:
  assumes "raw_end E p s pos (stream_bits pos bl @ R) Q" "shaped s" "m_final s AND 1 = of_bool (bl = [])"
    "blocks_ok Q bl" "fin = pos + length (stream_bits pos bl)" "goes_on E bl fin R"
  shows "blocks_end E p s fin R (expand bl Q)"
proof -
  consider (over) s' where "tinfl_run p E s = tinfl_run Block_end E s'" "ahead E s' pos (stream_bits pos bl @ R)" "emits E s s' Q"
    | (stop) s' where "tinfl_run p E s = Some (Status TINFL_STATUS_HAS_MORE_OUTPUT, s')" "emits E s s' (produced s')" "full s'"
        "raw_left E s' pos (stream_bits pos bl @ R) Q"
    using assms(1) unfolding raw_end_def by blast
  then show ?thesis
  proof cases
    case over
    note g = emits_goes [OF over(3) assms(2)]
    have "blocks_end E Block_end s' fin R (expand bl (produced s'))"
      using assms(3-6) goesD(1,3) [OF g] over(2) emitsD(4,6) [OF over(3)] unfolding goes_on_def by auto
    then show ?thesis using blocks_end_trans [OF over(1) g] emitsD(4) [OF over(3)] by simp
  next
    case stop
    have "paused E fin R (expand bl Q) s'"
      unfolding paused_def using assms(3-5) stop(4) emitsD(6) [OF stop(2)]
      by (intro exI [of _ bl] exI [of _ Q] exI [of _ pos]) auto
    then show ?thesis using blocks_end_full [OF stop(1) emits_goes [OF stop(2) assms(2)] stop(3)] by blast
  qed
qed

subsection \<open>Block after block\<close>

lemma block_run:
  assumes E: "call_ok E" "st_ok E s" "shaped s" and a: "ahead E s pos (stream_bits pos (b # bl) @ R)"
    and ok: "blocks_ok (produced s) (b # bl)" and fin: "fin = pos + length (stream_bits pos (b # bl))" and next': "goes_on E bl fin R"
  shows "blocks_end E Block s fin R (expand (b # bl) (produced s))"
proof -
  let ?q = "pos + length (block_bits pos (bl = []) b)"
  let ?R = "stream_bits ?q bl @ R"
  have a': "ahead E s pos (block_bits pos (bl = []) b @ ?R)" using a by (simp add: Let_def)
  have f: "fin = ?q + length (stream_bits ?q bl)" using fin by (simp add: Let_def)
  have ok': "deflate_ok (produced s) b" "blocks_ok (expand_block b (produced s)) bl" using ok by simp_all
  have t1: "type_bits (bl = []) t AND 1 = of_bool (bl = [])" for t by (rule type_bits_eq)
  show ?thesis
  proof (cases b)
    case (Stored bs)
    obtain s1 where s1: "tinfl_run Block E s = tinfl_run Raw_bits E s1" "raw_end E Raw_bits s1 ?q ?R (produced s @ bs)"
        "goes E s s1 (produced s)" "m_final s1 = type_bits (bl = []) 0"
      by (rule block_stored_run [OF E, of bs pos "bl = []" ?R ?q]) (use ok'(1) a' Stored in simp_all)
    have "blocks_end E Raw_bits s1 fin R (expand bl (produced s @ bs))"
      by (rule raw_then [OF s1(2) goesD(3) [OF s1(3)] _ _ f next']) (use s1(4) t1 ok'(2) Stored in simp_all)
    then show ?thesis using blocks_end_trans [OF s1(1,3)] Stored by simp
  next
    case (Fixed ts)
    let ?T = "tokens_bits fixed_lengths fixed_dist_lengths ts"
    have a1: "ahead E s pos ([bl = [], True, False] @ ?T @ ?R)" using a' Fixed by simp
    obtain s1 where s1: "tinfl_run Block E s = tinfl_run Decode E s1" "codes fixed_lengths fixed_dist_lengths s1"
        "ahead E s1 (pos + 3) (?T @ ?R)" "goes E s s1 (produced s)" "m_final s1 = type_bits (bl = []) 1"
      by (rule block_fixed_run [OF E a1])
    have q: "?q = pos + 3 + length ?T" using Fixed by simp
    have "tokens_end E Decode s1 fixed_lengths fixed_dist_lengths ?q ?R (expand_tokens ts (produced s1))"
      by (rule tokens_run [OF E(1) goesD(1) [OF s1(4)] s1(2,3) _ q]) (use ok'(1) Fixed goesD(4) [OF s1(4)] in simp)
    then have "blocks_end E Decode s1 fin R (expand bl (expand_tokens ts (produced s1)))"
      by (rule tokens_then [OF _ s1(2) goesD(3) [OF s1(4)] _ _ f next'])
        (use s1(5) t1 ok'(2) Fixed goesD(4) [OF s1(4)] in simp_all)
    then show ?thesis using blocks_end_trans [OF s1(1,4)] Fixed goesD(4) [OF s1(4)] by simp
  next
    case (Dynamic k ls rs n cs ts)
    let ?cs = "take n cs" and ?ds = "drop n cs"
    have a1: "ahead E s pos (block_bits pos (bl = []) (Dynamic k ls rs n cs ts) @ ?R)" using a' Dynamic by simp
    have ok1: "deflate_ok (produced s) (Dynamic k ls rs n cs ts)" using ok'(1) Dynamic by simp
    obtain s1 q where s1: "tinfl_run Block E s = tinfl_run Decode E s1" "codes ?cs ?ds s1"
        "ahead E s1 q (tokens_bits ?cs ?ds ts @ ?R)"
        "q + length (tokens_bits ?cs ?ds ts) = pos + length (block_bits pos (bl = []) (Dynamic k ls rs n cs ts))"
        "goes E s s1 (produced s)" "m_final s1 = type_bits (bl = []) 2"
      by (rule block_dynamic_run [OF E ok1 a1])
    have q: "?q = q + length (tokens_bits ?cs ?ds ts)" using s1(4) Dynamic by simp
    have "tokens_end E Decode s1 ?cs ?ds ?q ?R (expand_tokens ts (produced s1))"
      by (rule tokens_run [OF E(1) goesD(1) [OF s1(5)] s1(2,3) _ q]) (use ok1 goesD(4) [OF s1(5)] in simp)
    then have "blocks_end E Decode s1 fin R (expand bl (expand_tokens ts (produced s1)))"
      by (rule tokens_then [OF _ s1(2) goesD(3) [OF s1(5)] _ _ f next'])
        (use s1(6) t1 ok'(2) Dynamic goesD(4) [OF s1(5)] in simp_all)
    then show ?thesis using blocks_end_trans [OF s1(1,5)] Dynamic goesD(4) [OF s1(5)] by simp
  qed
qed

lemma all_go_on: "call_ok E \<Longrightarrow> goes_on E bl fin R"
proof (induction bl)
  case Nil
  then show ?case unfolding goes_on_def using blocks_end_done [OF refl _ _ goes_refl] by simp
next
  case (Cons b bl)
  show ?case unfolding goes_on_def
  proof (intro allI impI)
    fix s pos
    assume s: "st_ok E s" "shaped s" "ahead E s pos (stream_bits pos (b # bl) @ R)" "m_final s AND 1 = of_bool (b # bl = [])"
      "blocks_ok (produced s) (b # bl)" "fin = pos + length (stream_bits pos (b # bl))"
    have "tinfl_run Block_end E s = tinfl_run Block E s"
      using s(4) by (intro run_to) (simp add: step_block_end_def flag_def luasem)
    from blocks_end_trans [OF this goes_refl [OF s(1,2)] block_run [OF Cons.prems s(1-3,5,6) Cons.IH [OF Cons.prems]]]
    show "blocks_end E Block_end s fin R (expand (b # bl) (produced s))" .
  qed
qed

lemma stream_run:
  assumes "call_ok E" "st_ok E s" "shaped s" "ahead E s pos (stream_bits pos bl @ R)" "bl \<noteq> []" "blocks_ok (produced s) bl"
    "fin = pos + length (stream_bits pos bl)"
  shows "blocks_end E Block s fin R (expand bl (produced s))"
proof (cases bl)
  case (Cons b bl')
  show ?thesis using block_run [OF assms(1-3) _ _ _ all_go_on [OF assms(1)], of pos b bl'] assms(4,6,7) Cons by blast
qed (use assms(5) in simp)

text \<open>A run that was stopped goes on where it stopped.\<close>

lemma stream_resume:
  assumes E: "call_ok E" "st_ok E s" "shaped s" and p: "paused E fin R W s" "resume_point (m_state s) = Some p"
  shows "blocks_end E p s fin R W"
proof -
  obtain bl Q pos where b: "m_final s AND 1 = of_bool (bl = [])" "blocks_ok Q bl" "W = expand bl Q" "fin = pos + length (stream_bits pos bl)"
    and alt: "(\<exists>cs ds. codes cs ds s \<and> stopped E cs ds pos (stream_bits pos bl @ R) Q s) \<or> raw_left E s pos (stream_bits pos bl @ R) Q"
    using p(1) unfolding paused_def by blast
  from alt show ?thesis
  proof (elim disjE exE conjE)
    fix cs ds assume c: "codes cs ds s" "stopped E cs ds pos (stream_bits pos bl @ R) Q s"
    obtain ts Q' pos' where t: "ahead E s pos' (tokens_bits cs ds ts @ stream_bits pos bl @ R)"
        "pos = pos' + length (tokens_bits cs ds ts)" "tokens_ok cs ds Q' ts" "owes s Q'" "expand_tokens ts Q' = Q"
      using c(2) unfolding stopped_def by blast
    have "tokens_end E p s cs ds pos (stream_bits pos bl @ R) Q"
      using tokens_resume [OF E(1,2) c(1) t(4) p(2) t(1,3,2)] t(5) by simp
    from tokens_then [OF this c(1) E(3) b(1,2,4) all_go_on [OF E(1)]] show ?thesis using b(3) by simp
  next
    assume "raw_left E s pos (stream_bits pos bl @ R) Q"
    from raw_then [OF raw_resume [OF E(1,2) this p(2)] E(3) b(1,2,4) all_go_on [OF E(1)]] show ?thesis using b(3) by simp
  qed
qed

end
