(* ===== verification/Inflate.thy ===== *)
theory Inflate
  imports Tinfl_Stream Tinfl_Mem
begin

text \<open>
  The calls of the inflater: a stream that is well-formed is decompressed to what it means, in one call or
  in several, and a buffer that is too small is reported.
\<close>

subsection \<open>The input\<close>

text \<open>The input begins with the bits of a stream.\<close>

definition starts :: "bytes \<Rightarrow> bool list \<Rightarrow> bool" where
  "starts inp B \<longleftrightarrow> take (length B) (bytes_bits inp) = B"

lemma starts_ahead:
  assumes "starts inp B" "m_num_bits s = 0" "m_bit_buf s = 0" "in_cur s = 0" "in_buf E = inp"
  shows "ahead E s 0 (B @ [])"
proof -
  have e: "bytes_bits inp = B @ drop (length B) (bytes_bits inp)" using assms(1) unfolding starts_def by (metis append_take_drop_id)
  have l: "length B \<le> 8 * length inp"
    using arg_cong [OF e, of length] by (simp only: length_append length_bytes_bits)
  have "le_val inp = bits_val B + 2 ^ length B * bits_val (drop (length B) (bytes_bits inp))"
    using arg_cong [OF e, of bits_val] by (simp only: bits_val_append bits_val_bytes)
  then have "le_val inp mod 2 ^ length B = bits_val B" using bits_val_less [of B] by simp
  then show ?thesis using assms(2-5) l by (simp add: ahead_def todo_def left_bits_def)
qed

subsection \<open>How much is produced\<close>

lemma expand_token_length: "length P < length (expand_token t P) \<or> (\<exists>l e d x. t = Ref l e d x)"
  by (cases t) auto

lemma expand_tokens_le: "length P \<le> length (expand_tokens ts P)"
proof (induction ts arbitrary: P)
  case (Cons t ts)
  have "length P \<le> length (expand_token t P)" by (cases t) simp_all
  then show ?case using Cons [of "expand_token t P"] by simp
qed simp

lemma expand_le: "length P \<le> length (expand bl P)"
proof (induction bl arbitrary: P)
  case (Cons b bl)
  have "length P \<le> length (expand_block b P)" by (cases b) (simp_all add: expand_tokens_le)
  then show ?case using Cons [of "expand_block b P"] by simp
qed simp

text \<open>Where a run has stopped there is something left to write.\<close>

lemma owes_more: "owes s Q \<Longrightarrow> length (produced s) < length Q"
  by (auto simp: owes_def simp del: lz_copy.simps)

lemma raw_left_more: "raw_left E s pos R Q \<Longrightarrow> length (produced s) < length Q"
  by (auto simp: raw_left_def)

lemma paused_more: "paused E fin R W s \<Longrightarrow> length (produced s) < length W"
  using owes_more raw_left_more expand_tokens_le expand_le unfolding paused_def stopped_def
  by (metis order.strict_trans2)

subsection \<open>One call\<close>

text \<open>The flags of a call on raw deflate data, as the functions over a whole input pass them.\<close>

definition raw_call :: "32 word \<Rightarrow> bool" where
  "raw_call flags \<longleftrightarrow> flags AND HAS_MORE_INPUT = 0 \<and> flags AND NON_WRAPPING_OUTPUT_BUF \<noteq> 0
     \<and> flags AND PARSE_ZLIB_HEADER = 0 \<and> flags AND (PARSE_ZLIB_HEADER OR COMPUTE_ADLER32) = 0"

definition the_call :: "bytes \<Rightarrow> 32 word \<Rightarrow> tinfl_call" where
  "the_call inp flags = \<lparr>in_buf = inp, decomp_flags = flags, out_buf_size_mask = -1\<rparr>"

lemma the_call_ok: "raw_call flags \<Longrightarrow> call_ok (the_call inp flags)"
  by (simp add: raw_call_def call_ok_def no_more_def the_call_def)

abbreviation entry :: "tinfl_decompressor \<Rightarrow> bytes \<Rightarrow> nat \<Rightarrow> tinfl" where
  "entry r out start \<equiv> tinfl_decompressor.extend r \<lparr>in_cur = 0, out_buf = out, out_cur = start\<rparr>"

lemma call_run:
  assumes "raw_call flags" "resume_point (m_state r) = Some p"
    "tinfl_run p (the_call inp flags) (entry r out start) = Some (Status st, s)"
  shows "tinfl_decompress r inp out start flags
    = Some (Returned st (tinfl_decompressor.truncate s) (in_cur s) (out_buf s) (out_cur s - start))"
  using assms by (simp add: tinfl_decompress_def raw_call_def the_call_def common_exit_def Let_def)

text \<open>The end of a stream: the last block is followed by the return of \<^verbatim>\<open>TINFL_STATUS_DONE\<close>.\<close>

lemma stream_end:
  assumes "raw_call flags" "m_final s AND 1 = 1"
  shows "tinfl_run Block_end (the_call inp flags) s = Some (Status TINFL_STATUS_DONE, s\<lparr>m_state := 34\<rparr>)"
proof -
  have "decomp_flags (the_call inp flags) AND 1 = 0" using assms(1) by (simp add: raw_call_def the_call_def)
  then have "tinfl_run Block_end (the_call inp flags) s = tinfl_run (Forever 34 TINFL_STATUS_DONE) (the_call inp flags) s"
    using assms(2) by (intro run_to) (simp add: step_block_end_def flag_def luasem)
  also have "\<dots> = Some (Status TINFL_STATUS_DONE, s\<lparr>m_state := 34\<rparr>)"
    by (intro run_stop) (simp add: TINFL_CR_RETURN_def luasem)
  finally show ?thesis .
qed

text \<open>
  A call from a state from which the stream means \<open>W\<close>: either it is done and the output is \<open>W\<close>, or the output is
  full and the call can be repeated.
\<close>

definition call_done :: "tinfl_end option \<Rightarrow> bytes \<Rightarrow> nat \<Rightarrow> bytes \<Rightarrow> bool" where
  "call_done e out start W \<longleftrightarrow> (\<exists>r n. e = Some (Returned TINFL_STATUS_DONE r n (W @ drop (length W) out) (length W - start)))
     \<and> length W \<le> length out"

definition call_more :: "tinfl_end option \<Rightarrow> bytes \<Rightarrow> bytes \<Rightarrow> nat \<Rightarrow> nat \<Rightarrow> bytes \<Rightarrow> bool" where
  "call_more e inp out start fin W \<longleftrightarrow> (\<exists>r n s E. e = Some (Returned TINFL_STATUS_HAS_MORE_OUTPUT r n (produced s) (length out - start))
     \<and> length (produced s) = length out \<and> length out < length W \<and> st_ok E s \<and> shaped s \<and> paused E fin [] W s
     \<and> r = tinfl_decompressor.truncate s \<and> n = in_cur s \<and> in_buf E = inp)"

lemma call_end:
  assumes f: "raw_call flags" and r: "resume_point (m_state r) = Some p" and l: "start \<le> length out"
    and t: "tinfl_run p (the_call inp flags) (entry r out start) = tinfl_run q (the_call inp flags) t" "out_cur t = start" "out_buf t = out"
    and e: "blocks_end (the_call inp flags) q t fin [] W"
  shows "call_done (tinfl_decompress r inp out start flags) out start W
    \<or> call_more (tinfl_decompress r inp out start flags) inp out start fin W"
proof -
  let ?E = "the_call inp flags" and ?s = "entry r out start"
  note s0 = t(2,3)
  consider (over) s' where "tinfl_run q ?E t = tinfl_run Block_end ?E s'" "m_final s' AND 1 = 1" "ahead ?E s' fin []" "goes ?E t s' W"
    | (stop) s' where "tinfl_run q ?E t = Some (Status TINFL_STATUS_HAS_MORE_OUTPUT, s')" "goes ?E t s' (produced s')"
        "full s'" "paused ?E fin [] W s'"
    using e unfolding blocks_end_def by blast
  then show ?thesis
  proof cases
    case over
    have run: "tinfl_run p ?E ?s = Some (Status TINFL_STATUS_DONE, s'\<lparr>m_state := 34\<rparr>)"
      using t(1) over(1) stream_end [OF f over(2)] by simp
    note g = goesD [OF over(4)]
    have c: "out_cur s' = length W" using length_produced [OF g(1)] g(4) by simp
    have "out_buf s' = produced s' @ drop (out_cur s') (out_buf s')" by (simp add: produced_def)
    also have "\<dots> = W @ drop (length W) out" using over(4) g(4) c s0(2) by (simp add: goes_def)
    finally have "out_buf s' = W @ drop (length W) out" .
    moreover have "length W \<le> length out" using g(1,5) c s0(2) by (simp add: st_ok_def)
    ultimately have "call_done (tinfl_decompress r inp out start flags) out start W"
      using call_run [OF f r run] c by (simp add: call_done_def)
    then show ?thesis ..
  next
    case stop
    note g = goesD [OF stop(2)]
    have c: "out_cur s' = length out" using stop(3) g(5) s0(2) by (simp add: full_def)
    have b: "out_buf s' = produced s'" using stop(3) by (simp add: produced_def full_def)
    have lp: "length (produced s') = length out" using length_produced [OF g(1)] c by simp
    moreover have "length out < length W" using paused_more [OF stop(4)] lp by simp
    moreover have "tinfl_decompress r inp out start flags = Some (Returned TINFL_STATUS_HAS_MORE_OUTPUT
        (tinfl_decompressor.truncate s') (in_cur s') (produced s') (length out - start))"
      using call_run [OF f r trans [OF t(1) stop(1)]] b c by simp
    moreover have "in_buf ?E = inp" by (simp add: the_call_def)
    ultimately have "call_more (tinfl_decompress r inp out start flags) inp out start fin W"
      unfolding call_more_def using g(1,3) stop(4) by blast
    then show ?thesis ..
  qed
qed

text \<open>The first call.\<close>

lemma first_call:
  assumes f: "raw_call flags" and r: "m_state r = 0" "shaped r" and out: "length out < 2 ^ 64"
    and bl: "bl \<noteq> []" "blocks_ok [] bl" "starts inp (stream_bits 0 bl)"
  shows "call_done (tinfl_decompress r inp out 0 flags) out 0 (expand bl [])
    \<or> call_more (tinfl_decompress r inp out 0 flags) inp out 0 (length (stream_bits 0 bl)) (expand bl [])"
proof -
  let ?E = "the_call inp flags" and ?s = "entry r out 0"
  let ?t = "?s\<lparr>m_bit_buf := 0, m_num_bits := 0, m_dist := 0, m_counter := 0,
       m_num_extra := 0, m_zhdr0 := 0, m_zhdr1 := 0, m_z_adler32 := 1, m_check_adler32 := 1\<rparr>"
  have rp: "resume_point (m_state r) = Some Start" using r(1) by (simp add: resume_point_def)
  have s0: "out_cur ?t = 0" "out_buf ?t = out" "in_cur ?t = 0" "m_num_bits ?t = 0" "m_bit_buf ?t = 0"
    by (simp_all add: tinfl_decompressor.extend_def)
  have "decomp_flags ?E AND 1 = 0" using f by (simp add: raw_call_def the_call_def)
  then have run: "tinfl_run Start ?E ?s = tinfl_run Block ?E ?t"
    by (intro run_to) (simp add: step_start_def flag_def luasem)
  have st: "st_ok ?E ?t" using out s0 by (simp add: st_ok_def bits_ok_def)
  have w: "shaped ?t" using r(2) by (simp add: shaped_def tinfl_decompressor.extend_def)
  have p: "produced ?t = []" using s0 by (simp add: produced_def)
  have a: "ahead ?E ?t 0 (stream_bits 0 bl @ [])" using starts_ahead [OF bl(3)] s0 by (simp add: the_call_def)
  have e: "blocks_end ?E Block ?t (length (stream_bits 0 bl)) [] (expand bl (produced ?t))"
    by (rule stream_run [OF the_call_ok [OF f] st w a bl(1)]) (use bl(2) p in simp_all)
  show ?thesis by (rule call_end [OF f rp _ run s0(1,2) e [unfolded p]]) simp
qed

subsection \<open>The next call\<close>

text \<open>The state a call finds that goes on with the rest of the input and a larger buffer.\<close>

lemma entry_resumed:
  "entry (tinfl_decompressor.truncate s) out start = s\<lparr>in_cur := 0, out_buf := out, out_cur := start\<rparr>"
  by (cases s) (simp add: tinfl_decompressor.extend_def tinfl_decompressor.truncate_def)

lemma ahead_moved:
  assumes "in_cur s' = 0" "m_bit_buf s' = m_bit_buf s" "m_num_bits s' = m_num_bits s" "in_buf E' = drop (in_cur s) (in_buf E)"
  shows "ahead E' s' = ahead E s"
  using assms by (simp add: fun_eq_iff ahead_def todo_def left_bits_def)

lemma paused_moved:
  assumes p: "paused E fin R W s" and E: "in_buf E' = drop (in_cur s) (in_buf E)" and o: "take (out_cur s) out = produced s"
  shows "paused E' fin R W (s\<lparr>in_cur := 0, out_buf := out, out_cur := out_cur s\<rparr>)"
proof -
  let ?s = "s\<lparr>in_cur := 0, out_buf := out, out_cur := out_cur s\<rparr>"
  have a: "ahead E' ?s = ahead E s" by (rule ahead_moved) (simp_all add: E)
  have pr: "produced ?s = produced s" using o by (simp add: produced_def)
  have w: "owes ?s Q = owes s Q" for Q unfolding owes_def pr by simp
  have "stopped E' cs ds pos B Q ?s = stopped E cs ds pos B Q s" for cs ds pos B Q
    unfolding stopped_def a w ..
  moreover have "raw_left E' ?s pos B Q = raw_left E s pos B Q" for pos B Q unfolding raw_left_def a pr by simp
  moreover have "codes cs ds ?s = codes cs ds s" for cs ds by (simp add: codes_def)
  ultimately show ?thesis using p by (simp add: paused_def)
qed

lemma paused_point: "paused E fin R W s \<Longrightarrow> \<exists>p. resume_point (m_state s) = Some p"
  unfolding paused_def stopped_def owes_def raw_left_def by (auto simp: resume_point_def)

lemma next_call:
  assumes f: "raw_call flags" and s: "st_ok E s" "shaped s" "paused E fin [] W s" "in_buf E = inp"
    and out: "length out < 2 ^ 64" "take (out_cur s) out = produced s" "out_cur s \<le> length out"
  shows "call_done (tinfl_decompress (tinfl_decompressor.truncate s) (drop (in_cur s) inp) out (out_cur s) flags) out (out_cur s) W
    \<or> call_more (tinfl_decompress (tinfl_decompressor.truncate s) (drop (in_cur s) inp) out (out_cur s) flags)
        (drop (in_cur s) inp) out (out_cur s) fin W"
proof -
  let ?r = "tinfl_decompressor.truncate s" and ?E = "the_call (drop (in_cur s) inp) flags"
  let ?s = "s\<lparr>in_cur := 0, out_buf := out, out_cur := out_cur s\<rparr>"
  obtain p where p: "resume_point (m_state s) = Some p" using paused_point [OF s(3)] by blast
  have ms: "m_state ?r = m_state s" by (simp add: tinfl_decompressor.truncate_def)
  have pz: "paused ?E fin [] W ?s" by (rule paused_moved [OF s(3) _ out(2)]) (simp add: the_call_def s(4))
  have st: "st_ok ?E ?s" "shaped ?s" using s(1,2) out by (simp_all add: st_ok_def bits_ok_def shaped_def)
  have e: "blocks_end ?E p ?s fin [] W"
    by (rule stream_resume [OF the_call_ok [OF f] st pz]) (use p in simp)
  show ?thesis
    by (rule call_end [OF f _ out(3) _ _ _ e, of ?r]) (use p ms in \<open>simp_all add: entry_resumed\<close>)
qed

subsection \<open>Into a block of the caller\<close>

lemma whole_flags_raw: "flags AND (PARSE_ZLIB_HEADER OR COMPUTE_ADLER32) = 0 \<Longrightarrow> raw_call (whole_flags flags)"
proof -
  assume f: "flags AND (PARSE_ZLIB_HEADER OR COMPUTE_ADLER32) = 0"
  have b: "\<not> bit flags 0" "\<not> bit flags 3"
  proof -
    have "bit (flags AND (PARSE_ZLIB_HEADER OR COMPUTE_ADLER32)) n = False" for n by (simp only: f bit_0_eq bot_fun_def bot_bool_def)
    from this [of 0] this [of 3] show "\<not> bit flags 0" "\<not> bit flags 3" by (auto simp: bit_simps)
  qed
  have m: "whole_flags flags AND m = 0" if "\<And>n. bit m n \<Longrightarrow> n = 0 \<or> n = 3" for m
  proof (rule bit_word_eqI)
    fix n assume "n < LENGTH(32)"
    show "bit (whole_flags flags AND m) n = bit (0 :: 32 word) n"
      using that [of n] b by (auto simp: whole_flags_def bit_simps)
  qed
  have b8: "bit (8 :: 32 word) n \<Longrightarrow> n = 3" for n
  proof -
    have "(8 :: 32 word) = 2 ^ 3" by simp
    then show "bit (8 :: 32 word) n \<Longrightarrow> n = 3" by (metis bit_exp_iff)
  qed
  have h: "whole_flags flags AND HAS_MORE_INPUT = 0"
    by (rule bit_word_eqI) (auto simp: whole_flags_def bit_simps)
  have w: "bit (whole_flags flags AND NON_WRAPPING_OUTPUT_BUF) 2" by (simp add: whole_flags_def bit_simps)
  have "whole_flags flags AND NON_WRAPPING_OUTPUT_BUF \<noteq> 0" using w by (metis bit_0_eq bot_apply bot_bool_def)
  moreover have p: "whole_flags flags AND PARSE_ZLIB_HEADER = 0" "whole_flags flags AND COMPUTE_ADLER32 = 0"
    by (rule m; use b8 in \<open>auto simp: bit_simps\<close>)+
  moreover have "whole_flags flags AND (PARSE_ZLIB_HEADER OR COMPUTE_ADLER32) = 0" by (simp only: bit.conj_disj_distrib p or.right_neutral)
  ultimately show "raw_call (whole_flags flags)" using h by (simp add: raw_call_def)
qed

lemma shaped_init: "shaped (tinfl_init stack) = shaped stack" "m_state (tinfl_init stack) = 0"
  by (simp_all add: tinfl_init_def shaped_def)

lemma mem_to_mem_stream:
  assumes "flags AND (PARSE_ZLIB_HEADER OR COMPUTE_ADLER32) = 0" "shaped stack" "length out < 2 ^ 64"
    and "bl \<noteq> []" "blocks_ok [] bl" "starts inp (stream_bits 0 bl)"
  shows "\<exists>buf. tinfl_decompress_mem_to_mem stack out inp flags
    = Some (if length (expand bl []) \<le> length out
        then Mem (Some (length (expand bl []))) (expand bl [] @ drop (length (expand bl [])) out) else Mem None buf)"
proof -
  have s: "m_state (tinfl_init stack) = 0" "shaped (tinfl_init stack)" using assms(2) by (simp_all add: shaped_init)
  from first_call [OF whole_flags_raw [OF assms(1)] s assms(3-6)] show ?thesis
  proof
    assume "call_done (tinfl_decompress (tinfl_init stack) inp out 0 (whole_flags flags)) out 0 (expand bl [])"
    then show ?thesis by (auto simp: call_done_def tinfl_decompress_mem_to_mem_def)
  next
    assume "call_more (tinfl_decompress (tinfl_init stack) inp out 0 (whole_flags flags)) inp out 0 (length (stream_bits 0 bl)) (expand bl [])"
    then show ?thesis by (auto simp: call_more_def tinfl_decompress_mem_to_mem_def)
  qed
qed

subsection \<open>Into the heap\<close>

text \<open>What the code relies on: the new block has the size and begins with what the old one held.\<close>

definition realloc_ok :: "(bytes \<Rightarrow> nat \<Rightarrow> bytes option) \<Rightarrow> bool" where
  "realloc_ok realloc \<longleftrightarrow> (\<forall>old n. length old \<le> n \<longrightarrow> n < 2 ^ 64 \<longrightarrow>
     (\<exists>new. realloc old n = Some new \<and> length new = n \<and> take (length old) new = old))"

lemma heap_loop_stream:
  assumes f: "raw_call flags" and re: "realloc_ok realloc" and W: "length W < 2 ^ 62"
  shows "call_done (tinfl_decompress r (drop ofs src) buf n flags) buf n W
      \<or> call_more (tinfl_decompress r (drop ofs src) buf n flags) (drop ofs src) buf n fin W
    \<Longrightarrow> n \<le> length W \<Longrightarrow> n \<le> length buf
    \<Longrightarrow> \<exists>b. to_heap_loop realloc src flags r ofs buf n = Some (Heap (if length buf = 0 \<and> W = [] then None else Some b) (length W))
      \<and> take (length W) b = W"
proof (induction "length W - length buf" arbitrary: r ofs buf n rule: less_induct)
  case less
  from less.prems(1) show ?case
  proof
    assume d: "call_done (tinfl_decompress r (drop ofs src) buf n flags) buf n W"
    then obtain r' m where e: "tinfl_decompress r (drop ofs src) buf n flags
        = Some (Returned TINFL_STATUS_DONE r' m (W @ drop (length W) buf) (length W - n))" "length W \<le> length buf"
      unfolding call_done_def by blast
    have "to_heap_loop realloc src flags r ofs buf n
        = Some (Heap (if length buf = 0 \<and> W = [] then None else Some (W @ drop (length W) buf)) (length W))"
      using e less.prems(2) by (subst to_heap_loop.simps) (auto simp: status_negative_def)
    then show ?thesis by (intro exI [of _ "W @ drop (length W) buf"]) simp
  next
    assume "call_more (tinfl_decompress r (drop ofs src) buf n flags) (drop ofs src) buf n fin W"
    then obtain s E where e: "tinfl_decompress r (drop ofs src) buf n flags = Some (Returned TINFL_STATUS_HAS_MORE_OUTPUT
          (tinfl_decompressor.truncate s) (in_cur s) (produced s) (length buf - n))"
        "length (produced s) = length buf" "length buf < length W" "st_ok E s" "shaped s" "paused E fin [] W s" "in_buf E = drop ofs src"
      unfolding call_more_def by blast
    let ?k = "max 128 (2 * length (produced s))"
    have k: "length (produced s) \<le> ?k" "?k < 2 ^ 64" "length buf < ?k" using e(2,3) W by auto
    obtain b where b: "realloc (produced s) ?k = Some b" "length b = ?k" "take (length (produced s)) b = produced s"
      using re k(1,2) unfolding realloc_ok_def by blast
    have oc: "out_cur s = length buf" using length_produced [OF e(4)] e(2) by simp
    have step: "to_heap_loop realloc src flags r ofs buf n
        = to_heap_loop realloc src flags (tinfl_decompressor.truncate s) (ofs + in_cur s) b (length buf)"
      using e(1) b(1) less.prems(3) by (subst to_heap_loop.simps) (simp add: status_negative_def)
    have nc: "call_done (tinfl_decompress (tinfl_decompressor.truncate s) (drop (in_cur s) (drop ofs src)) b (out_cur s) flags) b (out_cur s) W
      \<or> call_more (tinfl_decompress (tinfl_decompressor.truncate s) (drop (in_cur s) (drop ofs src)) b (out_cur s) flags)
        (drop (in_cur s) (drop ofs src)) b (out_cur s) fin W"
      by (rule next_call [OF f e(4-7)]) (use b k oc e(2) in simp_all)
    have "length W - length b < length W - length buf" using e(3) k(3) b(2) by simp
    from less.hyps [OF this, of "tinfl_decompressor.truncate s" "ofs + in_cur s" "length buf"] nc oc e(3) k(3) b(2)
    obtain b' where "to_heap_loop realloc src flags (tinfl_decompressor.truncate s) (ofs + in_cur s) b (length buf)
        = Some (Heap (if length b = 0 \<and> W = [] then None else Some b') (length W))" "take (length W) b' = W"
      by (auto simp: add.commute)
    moreover have "W \<noteq> []" using e(3) by auto
    ultimately show ?thesis using step by (intro exI [of _ b']) simp
  qed
qed

lemma mem_to_heap_stream:
  assumes "flags AND (PARSE_ZLIB_HEADER OR COMPUTE_ADLER32) = 0" "shaped stack" "realloc_ok realloc"
    and "bl \<noteq> []" "blocks_ok [] bl" "starts src (stream_bits 0 bl)" "length (expand bl []) < 2 ^ 62"
  shows "\<exists>b. tinfl_decompress_mem_to_heap realloc stack src flags
      = Some (Heap (if expand bl [] = [] then None else Some b) (length (expand bl [])))
    \<and> take (length (expand bl [])) b = expand bl []"
proof -
  have s: "m_state (tinfl_init stack) = 0" "shaped (tinfl_init stack)" using assms(2) by (simp_all add: shaped_init)
  have "length ([] :: bytes) < 2 ^ 64" by simp
  from first_call [OF whole_flags_raw [OF assms(1)] s this assms(4-6)]
  show ?thesis
    using heap_loop_stream [OF whole_flags_raw [OF assms(1)] assms(3,7), of "tinfl_init stack" 0 src "[]" 0 "length (stream_bits 0 bl)"]
    by (simp add: tinfl_decompress_mem_to_heap_def)
qed

end
