(* ===== verification/Tinfl_Term.thy ===== *)
theory Tinfl_Term
  imports Tinfl_Mem
begin

text \<open>
  The inflater always returns: every step from a point of the coroutine to the next makes a measure smaller,
  whatever the decompressor and the input are.  What a call can use up is its input and the room in its output.
  A code word may be empty, when a table came from an incomplete code, and past its end the input goes on with
  zeros; then the output bounds the loop over the symbols, and the check of the header of a stored block that
  over the blocks.
\<close>

subsection \<open>What holds after a computation\<close>

definition after :: "'a T \<Rightarrow> tinfl_call \<Rightarrow> tinfl \<Rightarrow> ('a \<Rightarrow> tinfl \<Rightarrow> bool) \<Rightarrow> bool" where
  "after m E s P \<longleftrightarrow> (\<forall>x s'. m E s = (Inr x, s') \<longrightarrow> P x s')"

named_theorems aft "what holds after a computation of the inflater"

lemma after_retM [aft]: "after (retM x) E s P = P x s"
  by (simp add: after_def luasem)

lemma after_failM [aft]: "after (failM e) E s P = True"
  by (simp add: after_def luasem)

lemma after_bindM [aft]: "after (bindM m f) E s P = after m E s (\<lambda>x s'. after (f x) E s' P)"
  by (fastforce simp: after_def luasem split: sum.splits prod.splits)

lemma after_thenM [aft]: "after (thenM m k) E s P = after m E s (\<lambda>_ s'. after k E s' P)"
  by (fastforce simp: after_def luasem split: sum.splits prod.splits)

lemma after_getM [aft]: "after (getM f) E s P = P (f s) s"
  by (simp add: after_def luasem)

lemma after_askM [aft]: "after (askM f) E s P = P (f E) s"
  by (simp add: after_def luasem)

lemma after_modM [aft]: "after (modM f) E s P = P () (f s)"
  by (simp add: after_def luasem)

lemma after_whenM [aft]: "after (whenM b m) E s P = (if b then after m E s P else P () s)"
  by (simp add: after_def luasem)

lemma after_checked [aft]: "after (checked x) E s P = (\<forall>v. x = Some v \<longrightarrow> P v s)"
  by (simp add: after_def checked_def luasem split: option.splits)

lemma after_CR_RETURN [aft]: "after (TINFL_CR_RETURN i st) E s P = True"
  by (simp add: after_def TINFL_CR_RETURN_def luasem)

lemma after_flag [aft]: "after (flag f) E s P = P (decomp_flags E AND f \<noteq> 0) s"
  by (simp add: flag_def aft)

lemma after_in_avail [aft]: "after in_avail E s P = P (length (in_buf E) - in_cur s) s"
  by (simp add: after_def in_avail_def)

lemma after_out_avail [aft]: "after out_avail E s P = P (length (out_buf s) - out_cur s) s"
  by (simp add: out_avail_def aft)

lemma after_checked_here [aft]: "after (\<lambda>E s. checked (f E s) E s) E s P = (\<forall>v. f E s = Some v \<longrightarrow> P v s)"
  by (simp add: after_def checked_def luasem split: option.splits)

lemma after_weaken: "after m E s P \<Longrightarrow> (\<And>x s'. P x s' \<Longrightarrow> Q x s') \<Longrightarrow> after m E s Q"
  by (auto simp: after_def)

subsection \<open>What reading uses up\<close>

text \<open>
  While input is left, bits are taken from it; when none is left, those that are set in the buffer go.
\<close>

definition avail :: "tinfl_call \<Rightarrow> tinfl \<Rightarrow> nat" where
  "avail E s = length (in_buf E) - in_cur s"

definition kept :: "tinfl_call \<Rightarrow> tinfl \<Rightarrow> nat" where
  "kept E s = (if avail E s = 0 then unat (m_bit_buf s) else m_num_bits s)"

definition spent :: "tinfl_call \<Rightarrow> tinfl \<Rightarrow> bool" where
  "spent E s \<longleftrightarrow> avail E s = 0 \<and> m_bit_buf s = 0"

text \<open>\<open>s'\<close> is \<open>s\<close> after some reading, and what is left has not grown, or has become less.\<close>

definition eats :: "tinfl_call \<Rightarrow> tinfl \<Rightarrow> tinfl \<Rightarrow> bool" where
  "eats E s s' \<longleftrightarrow> (\<exists>b n i. s' = s\<lparr>m_bit_buf := b, m_num_bits := n, in_cur := i\<rparr>)
     \<and> (avail E s' < avail E s \<or> avail E s' = avail E s \<and> kept E s' \<le> kept E s)"

definition less_left :: "tinfl_call \<Rightarrow> tinfl \<Rightarrow> tinfl \<Rightarrow> bool" where
  "less_left E s s' \<longleftrightarrow> avail E s' < avail E s \<or> avail E s' = avail E s \<and> kept E s' < kept E s"

lemma eatsI:
  assumes "s' = s\<lparr>m_bit_buf := m_bit_buf s', m_num_bits := m_num_bits s', in_cur := in_cur s'\<rparr>"
    "avail E s' < avail E s \<or> avail E s' = avail E s \<and> kept E s' \<le> kept E s"
  shows "eats E s s'"
  using assms unfolding eats_def by blast

lemma eats_refl [simp]: "eats E s s"
  by (rule eatsI) simp_all

lemma eats_trans:
  assumes "eats E s s'" "eats E s' s''"
  shows "eats E s s''"
proof -
  from assms obtain b n i b' n' i' where "s' = s\<lparr>m_bit_buf := b, m_num_bits := n, in_cur := i\<rparr>"
    "s'' = s'\<lparr>m_bit_buf := b', m_num_bits := n', in_cur := i'\<rparr>" unfolding eats_def by blast
  then have "s'' = s\<lparr>m_bit_buf := b', m_num_bits := n', in_cur := i'\<rparr>" by simp
  then show ?thesis using assms unfolding eats_def by (metis dual_order.trans order.strict_trans)
qed

lemma less_left_eats:
  "less_left E s s' \<Longrightarrow> eats E s' s'' \<Longrightarrow> less_left E s s''"
  "eats E s s' \<Longrightarrow> less_left E s' s'' \<Longrightarrow> less_left E s s''"
  by (auto simp: less_left_def eats_def)

lemma spent_eats: "spent E s \<Longrightarrow> eats E s s' \<Longrightarrow> spent E s'"
  by (auto simp: spent_def eats_def kept_def unat_eq_0)

lemma eats_fields:
  assumes "eats E s s'"
  shows "m_counter s' = m_counter s" "m_type s' = m_type s" "m_table_sizes s' = m_table_sizes s" "m_raw_header s' = m_raw_header s"
    "out_cur s' = out_cur s" "out_buf s' = out_buf s" "m_final s' = m_final s" "m_num_extra s' = m_num_extra s" "m_dist s' = m_dist s"
    "m_tables s' = m_tables s" "m_len_codes s' = m_len_codes s" "m_dist_from_out_buf_start s' = m_dist_from_out_buf_start s"
  using assms by (auto simp: eats_def)

subsection \<open>The operations that read\<close>

lemma push_zero_eats: "avail E s = 0 \<Longrightarrow> after (push_bits 0 k) E s (\<lambda>_. eats E s)"
  by (auto simp: push_bits_def aft kept_def avail_def intro!: eatsI)

lemma next_byte_eats:
  "after next_byte E s (\<lambda>b s'. 0 < avail E s \<and> s' = s\<lparr>in_cur := in_cur s + 1\<rparr>)"
  by (auto simp: next_byte_def after_def luasem checked_def avail_def at_def split: option.splits if_splits)

lemma in_cur_less_left:
  assumes "k \<noteq> 0" "k \<le> avail E s"
  shows "less_left E s (s\<lparr>m_bit_buf := b, m_num_bits := n, in_cur := in_cur s + k\<rparr>)"
    "eats E s (s\<lparr>m_bit_buf := b, m_num_bits := n, in_cur := in_cur s + k\<rparr>)"
  using assms by (auto simp: less_left_def eats_def avail_def)

lemma after_GET_BYTE:
  assumes "\<And>c s'. eats E s s' \<Longrightarrow> (avail E s = 0 \<longrightarrow> c = 0 \<and> s' = s) \<Longrightarrow> (0 < avail E s \<longrightarrow> s' = s\<lparr>in_cur := in_cur s + 1\<rparr>)
    \<Longrightarrow> less_left E s s' \<or> avail E s = 0 \<Longrightarrow> P c s'"
  shows "after (TINFL_GET_BYTE i) E s P"
proof (cases "avail E s = 0")
  case True
  then show ?thesis using assms [of s 0] by (simp add: TINFL_GET_BYTE_def aft avail_def)
next
  case False
  have "s\<lparr>in_cur := in_cur s + 1\<rparr> = s\<lparr>m_bit_buf := m_bit_buf s, m_num_bits := m_num_bits s, in_cur := in_cur s + 1\<rparr>" by simp
  then have "eats E s (s\<lparr>in_cur := in_cur s + 1\<rparr>)" "less_left E s (s\<lparr>in_cur := in_cur s + 1\<rparr>)"
    using False in_cur_less_left [of 1 E s] by (metis One_nat_def Suc_leI one_neq_zero neq0_conv)+
  then have "after next_byte E s P"
    by (intro after_weaken [OF next_byte_eats]) (use False assms in auto)
  then show ?thesis using False by (simp add: TINFL_GET_BYTE_def aft avail_def)
qed

lemma after_byte_of_bits:
  assumes "\<And>s'. eats E s s' \<Longrightarrow> (avail E s = 0 \<longrightarrow> m_bit_buf s' = m_bit_buf s) \<Longrightarrow> P () s'"
  shows "after (byte_of_bits i) E s P"
  unfolding byte_of_bits_def after_bindM
proof (rule after_GET_BYTE)
  fix c :: "8 word" and s' assume c: "avail E s = 0 \<longrightarrow> c = 0 \<and> s' = s" "0 < avail E s \<longrightarrow> s' = s\<lparr>in_cur := in_cur s + 1\<rparr>"
  show "after (push_bits (ucast c) 8) E s' P"
  proof (cases "avail E s = 0")
    case True
    then show ?thesis using c push_zero_eats [OF True, of 8] assms by (simp add: push_bits_def aft)
  next
    case False
    then show ?thesis using c by (auto simp: push_bits_def aft avail_def intro!: assms eatsI)
  qed
qed

lemma NEED_BITS_eats:
  "TINFL_NEED_BITS i n E s = (Inr x, s') \<Longrightarrow>
    eats E s s' \<and> n \<le> m_num_bits s' \<and> (avail E s = 0 \<longrightarrow> m_bit_buf s' = m_bit_buf s)"
proof (induction i n E s arbitrary: x s' rule: TINFL_NEED_BITS.induct)
  case (1 i n E s)
  show ?case
  proof (cases "n \<le> m_num_bits s")
    case True
    then show ?thesis using 1(2) by (simp add: TINFL_NEED_BITS.simps)
  next
    case False
    with 1(2) obtain y s1 where b: "byte_of_bits i E s = (Inr y, s1)" and r: "TINFL_NEED_BITS i n E s1 = (Inr x, s')"
      by (subst (asm) TINFL_NEED_BITS.simps) (auto split: prod.splits sum.splits)
    have e: "eats E s s1" "avail E s = 0 \<longrightarrow> m_bit_buf s1 = m_bit_buf s"
      using after_byte_of_bits [of E s "\<lambda>_ s1. eats E s s1 \<and> (avail E s = 0 \<longrightarrow> m_bit_buf s1 = m_bit_buf s)" i] b
      by (auto simp: after_def)
    have "avail E s = 0 \<longrightarrow> avail E s1 = 0" using e(1) by (auto simp: eats_def)
    then show ?thesis using 1(1) [OF False b [symmetric] refl r] e eats_trans by auto
  qed
qed

lemma drop_bits_eats:
  "after (drop_bits n) E s (\<lambda>_ s'. eats E s s' \<and> (0 < n \<longrightarrow> less_left E s s' \<or> spent E s))"
proof (cases "m_num_bits s < n")
  case True
  then show ?thesis by (simp add: drop_bits_def aft)
next
  case False
  let ?s = "s\<lparr>m_bit_buf := drop_bit n (m_bit_buf s), m_num_bits := m_num_bits s - n\<rparr>"
  have d: "unat (drop_bit n (m_bit_buf s)) = unat (m_bit_buf s) div 2 ^ n" by (simp only: unat_drop_bit_eq) (simp add: drop_bit_eq_div)
  have "eats E s ?s" by (rule eatsI) (use d in \<open>auto simp: kept_def avail_def\<close>)
  moreover have "0 < n \<longrightarrow> less_left E s ?s \<or> spent E s"
  proof
    assume n: "0 < n"
    have "unat (m_bit_buf s) div 2 ^ n < unat (m_bit_buf s)" if "m_bit_buf s \<noteq> 0"
      using that n one_less_power [of "2 :: nat" n] by (intro div_less_dividend) (simp_all add: unat_gt_0)
    then show "less_left E s ?s \<or> spent E s" using d n False by (auto simp: less_left_def kept_def avail_def spent_def)
  qed
  ultimately show ?thesis using False by (simp add: drop_bits_def aft)
qed

lemma after_GET_BITS:
  assumes "\<And>x s'. eats E s s' \<Longrightarrow> (0 < n \<longrightarrow> less_left E s s' \<or> spent E s \<and> x = 0) \<Longrightarrow> P x s'"
  shows "after (TINFL_GET_BITS i n) E s P"
  unfolding TINFL_GET_BITS_def aft
proof (rule after_weaken [where P = "\<lambda>_ s'. eats E s s' \<and> n \<le> m_num_bits s' \<and> (avail E s = 0 \<longrightarrow> m_bit_buf s' = m_bit_buf s)"])
  show "after (TINFL_NEED_BITS i n) E s (\<lambda>_ s'. eats E s s' \<and> n \<le> m_num_bits s' \<and> (avail E s = 0 \<longrightarrow> m_bit_buf s' = m_bit_buf s))"
    unfolding after_def using NEED_BITS_eats by blast
next
  fix x s1 assume s1: "eats E s s1 \<and> n \<le> m_num_bits s1 \<and> (avail E s = 0 \<longrightarrow> m_bit_buf s1 = m_bit_buf s)"
  show "after (drop_bits n) E s1 (\<lambda>_ s'. P (unat (m_bit_buf s1 AND (push_bit n 1 - 1))) s')"
  proof (rule after_weaken [OF drop_bits_eats], rule assms)
    fix s2 assume s2: "eats E s1 s2 \<and> (0 < n \<longrightarrow> less_left E s1 s2 \<or> spent E s1)"
    then show "eats E s s2" using s1 eats_trans by blast
    show "0 < n \<longrightarrow> less_left E s s2 \<or> spent E s \<and> unat (m_bit_buf s1 AND (push_bit n 1 - 1)) = 0"
    proof
      assume "0 < n"
      then consider "less_left E s1 s2" | "spent E s1" using s2 by blast
      then show "less_left E s s2 \<or> spent E s \<and> unat (m_bit_buf s1 AND (push_bit n 1 - 1)) = 0"
      proof cases
        case 1
        then show ?thesis using s1 less_left_eats(2) by blast
      next
        case 2
        show ?thesis
        proof (cases "avail E s = 0")
          case True
          then show ?thesis using 2 s1 by (simp add: spent_def)
        next
          case False
          then have "less_left E s s1" using 2 by (simp add: spent_def less_left_def)
          then show ?thesis using s2 less_left_eats(1) by blast
        qed
      qed
    qed
  qed
qed

lemma BITBUF_FILL_eats: "TINFL_HUFF_BITBUF_FILL i p E s = (Inr x, s') \<Longrightarrow> eats E s s'"
proof (induction i p E s arbitrary: x s' rule: TINFL_HUFF_BITBUF_FILL.induct)
  case (1 i p E s)
  note run = 1(2) [unfolded TINFL_HUFF_BITBUF_FILL.simps [of i p E s]]
  show ?case
  proof (cases "huff_in_buffer p (m_bit_buf s) (m_num_bits s) = Some False")
    case False
    then show ?thesis using run by (auto split: option.splits if_splits)
  next
    case True
    with run obtain y s1 where b: "byte_of_bits i E s = (Inr y, s1)" by (auto split: prod.splits sum.splits)
    have e: "eats E s s1" using after_byte_of_bits [of E s "\<lambda>_ s1. eats E s s1" i] b by (auto simp: after_def)
    show ?thesis
    proof (cases "m_num_bits s1 < 15")
      case True
      then have "eats E s1 s'" using 1(1) [OF \<open>huff_in_buffer p (m_bit_buf s) (m_num_bits s) = Some False\<close> _ b [symmetric] refl] run b
          \<open>huff_in_buffer p (m_bit_buf s) (m_num_bits s) = Some False\<close> by simp
      then show ?thesis using e eats_trans by blast
    next
      case False
      then show ?thesis using run b e True by simp
    qed
  qed
qed

lemma after_BITBUF_FILL: "(\<And>s'. eats E s s' \<Longrightarrow> P () s') \<Longrightarrow> after (TINFL_HUFF_BITBUF_FILL i p) E s P"
  using BITBUF_FILL_eats by (auto simp: after_def)

text \<open>Reading whole bytes, two or four, and pushing them.\<close>

lemma after_next_byte: "(\<And>b. 0 < avail E s \<Longrightarrow> P b (s\<lparr>in_cur := in_cur s + 1\<rparr>)) \<Longrightarrow> after next_byte E s P"
  by (rule after_weaken [OF next_byte_eats]) auto

lemma huff_symbol_eats:
  assumes "\<And>x s'. eats E s s' \<Longrightarrow> P x s'"
  shows "after (bindM (getM m_bit_buf) (\<lambda>bits. bindM (checked (huff_symbol b p bits)) (\<lambda>(temp, code_len).
    thenM (drop_bits code_len) (retM (nat temp))))) E s P"
proof -
  have "after (drop_bits n) E s (\<lambda>_ s'. P x s')" for n x
    by (rule after_weaken [OF drop_bits_eats]) (use assms in blast)
  then show ?thesis by (auto simp: aft)
qed

lemma after_fill:
  assumes k: "\<And>s'. eats E s s' \<Longrightarrow> after K E s' P"
  shows "after (thenM (if resumed
      then thenM (byte_of_bits i) (bindM (getM m_num_bits) (\<lambda>n. whenM (n < 15) (TINFL_HUFF_BITBUF_FILL i p)))
      else bindM (getM m_num_bits) (\<lambda>n. whenM (n < 15)
        (bindM in_avail (\<lambda>k. if k < 2 then TINFL_HUFF_BITBUF_FILL i p
           else bindM next_byte (\<lambda>b0. bindM next_byte (\<lambda>b1.
                push_bits (ucast b0 OR push_bit 8 (ucast b1)) 16)))))) K) E s P"
proof -
  have f: "after (TINFL_HUFF_BITBUF_FILL i p) E s1 (\<lambda>_ s2. after K E s2 P)" if "eats E s s1" for s1
    by (rule after_BITBUF_FILL) (use that k eats_trans in blast)
  have "after (byte_of_bits i) E s (\<lambda>_ s1. if m_num_bits s1 < 15
      then after (TINFL_HUFF_BITBUF_FILL i p) E s1 (\<lambda>_ s2. after K E s2 P) else after K E s1 P)"
    by (rule after_byte_of_bits) (use f k in simp)
  moreover have "after next_byte E s (\<lambda>b0 s1. after next_byte E s1 (\<lambda>b1 s2. after (push_bits (ucast b0 OR push_bit 8 (ucast b1)) 16) E s2
      (\<lambda>_ s3. after K E s3 P)))"
    by (intro after_next_byte) (auto simp: push_bits_def after_modM avail_def intro!: k eatsI)
  ultimately show ?thesis using f [OF eats_refl] k [OF eats_refl]
    by (simp add: after_thenM after_bindM after_getM after_whenM after_in_avail)
qed

lemma after_HUFF_DECODE:
  assumes "\<And>x s'. eats E s s' \<Longrightarrow> P x s'"
  shows "after (TINFL_HUFF_DECODE i resumed p) E s P"
  unfolding TINFL_HUFF_DECODE_def
  by (rule after_fill, rule huff_symbol_eats) (use assms eats_trans in blast)

lemma after_fast_symbol: "(\<And>x s'. eats E s s' \<Longrightarrow> P x s') \<Longrightarrow> after fast_symbol E s P"
  unfolding fast_symbol_def table_def
  by (simp only: after_bindM [of "getM m_tables"] bindM_assoc after_getM after_bindM [of "checked _"] after_checked)
    (auto intro: huff_symbol_eats)

lemma after_fast_refill:
  assumes "\<And>s'. eats E s s' \<Longrightarrow> P () s'" "4 \<le> avail E s"
  shows "after fast_refill E s P"
  unfolding fast_refill_def using assms
  by (auto simp: aft push_bits_def avail_def intro!: assms(1) eatsI)

subsection \<open>The measure\<close>

text \<open>The output has room, and a copy within a match reads inside it.\<close>

definition inside :: "tinfl_call \<Rightarrow> tinfl \<Rightarrow> bool" where
  "inside E s \<longleftrightarrow> out_cur s \<le> length (out_buf s)
     \<and> (decomp_flags E AND NON_WRAPPING_OUTPUT_BUF \<noteq> 0 \<or> unat (out_buf_size_mask E) < length (out_buf s))"

definition room :: "tinfl \<Rightarrow> nat" where
  "room s = length (out_buf s) - out_cur s"

definition zero_header :: "tinfl_call \<Rightarrow> tinfl \<Rightarrow> bool" where
  "zero_header E s \<longleftrightarrow> spent E s \<and> (\<forall>j < m_counter s. j < 4 \<longrightarrow> j < length (m_raw_header s) \<longrightarrow> m_raw_header s ! j = 0)"

text \<open>How far a point is from one that gives back; a point is left for a lower one unless something is used up.\<close>

fun height :: "tinfl_call \<Rightarrow> tinfl_point \<Rightarrow> tinfl \<Rightarrow> nat" where
  "height E Start s = 30"
| "height E Zlib_header0 s = 29"
| "height E Zlib_header1 s = 28"
| "height E Table_sizes s = 27"
| "height E Code_length_lengths s = 26"
| "height E Build s = (if m_type s < 0 then 24 else 25)"
| "height E (Code_lengths b) s = 25"
| "height E Repeat_length s = 25"
| "height E Slow_copy s = (if m_counter s = 0 then 24 else 15)"
| "height E Decode s = 23"
| "height E (Literal b) s = 22"
| "height E Literal_out s = 21"
| "height E Match s = 20"
| "height E Length_extra s = 19"
| "height E (Distance b) s = 18"
| "height E Distance_extra s = 17"
| "height E Copy s = 16"
| "height E Slow_copy_out s = 14"
| "height E Skip_to_byte s = (if spent E s then 2 else 13)"
| "height E Raw_header s = (if zero_header E s then 1 else 12)"
| "height E Raw_bits s = 11"
| "height E Raw_bits_out s = 10"
| "height E Raw_copy s = (if m_counter s \<noteq> 0 \<and> room s \<noteq> 0 then 9 else 7)"
| "height E Raw_copy_in s = 8"
| "height E Block_end s = 6"
| "height E Trailer_skip s = 5"
| "height E Trailer s = 4"
| "height E Block s = 3"
| "height E (Forever i st) s = 0"

text \<open>Within the group of \<^verbatim>\<open>Build\<close> the number of the table comes first, then the lengths that are still to be read.\<close>

definition tables_left :: "tinfl_point \<Rightarrow> tinfl \<Rightarrow> nat" where
  "tables_left p s = (if p = Build \<or> p = Repeat_length \<or> p = Code_lengths True \<or> p = Code_lengths False then nat (m_type s + 1) else 0)"

definition lengths_left :: "tinfl \<Rightarrow> nat" where
  "lengths_left s = m_table_sizes s ! 0 + m_table_sizes s ! 1 - m_counter s"

fun turns :: "tinfl_point \<Rightarrow> tinfl \<Rightarrow> nat" where
  "turns Table_sizes s = 3 - m_counter s"
| "turns Code_length_lengths s = m_table_sizes s ! 2 - m_counter s"
| "turns Build s = 4 * (m_table_sizes s ! 0 + m_table_sizes s ! 1) + 4"
| "turns (Code_lengths b) s = (if b then 4 * lengths_left s + 3 else if lengths_left s = 0 then 0 else 4 * lengths_left s + 2)"
| "turns Repeat_length s = 4 * lengths_left s + 1"
| "turns Raw_header s = 4 - m_counter s"
| "turns Trailer s = 4 - m_counter s"
| "turns _ s = 0"

definition no_more_left :: "tinfl_call \<Rightarrow> tinfl \<Rightarrow> tinfl \<Rightarrow> bool" where
  "no_more_left E s s' \<longleftrightarrow> avail E s' < avail E s \<or> avail E s' = avail E s \<and> kept E s' \<le> kept E s"

definition falls :: "tinfl_call \<Rightarrow> tinfl_point \<Rightarrow> tinfl \<Rightarrow> tinfl_point \<Rightarrow> tinfl \<Rightarrow> bool" where
  "falls E p s q s' \<longleftrightarrow> inside E s' \<and> (less_left E s s' \<or> no_more_left E s s' \<and> (room s' < room s \<or> room s' = room s \<and>
     (height E q s' < height E p s \<or> height E q s' = height E p s \<and>
       (tables_left q s' < tables_left p s \<or> tables_left q s' = tables_left p s \<and> turns q s' < turns p s))))"

text \<open>The other fields do not matter for what is left of the input.\<close>

lemma avail_simps [simp]:
  "avail E (m_state_update f s) = avail E s" "avail E (m_zhdr0_update g s) = avail E s" "avail E (m_zhdr1_update g s) = avail E s"
  "avail E (m_z_adler32_update h s) = avail E s" "avail E (m_final_update f s) = avail E s" "avail E (m_type_update k s) = avail E s"
  "avail E (m_check_adler32_update h s) = avail E s" "avail E (m_dist_update f s) = avail E s" "avail E (m_counter_update f s) = avail E s"
  "avail E (m_num_extra_update f s) = avail E s" "avail E (m_table_sizes_update l s) = avail E s"
  "avail E (m_dist_from_out_buf_start_update f s) = avail E s" "avail E (m_tables_update t s) = avail E s"
  "avail E (m_raw_header_update r s) = avail E s" "avail E (m_len_codes_update l s) = avail E s"
  "avail E (out_buf_update r s) = avail E s" "avail E (out_cur_update f s) = avail E s"
  "avail E (m_bit_buf_update w s) = avail E s" "avail E (m_num_bits_update f s) = avail E s"
  by (simp_all add: avail_def)

lemma kept_simps [simp]:
  "kept E (m_state_update f s) = kept E s" "kept E (m_zhdr0_update g s) = kept E s" "kept E (m_zhdr1_update g s) = kept E s"
  "kept E (m_z_adler32_update h s) = kept E s" "kept E (m_final_update f s) = kept E s" "kept E (m_type_update k s) = kept E s"
  "kept E (m_check_adler32_update h s) = kept E s" "kept E (m_dist_update f s) = kept E s" "kept E (m_counter_update f s) = kept E s"
  "kept E (m_num_extra_update f s) = kept E s" "kept E (m_table_sizes_update l s) = kept E s"
  "kept E (m_dist_from_out_buf_start_update f s) = kept E s" "kept E (m_tables_update t s) = kept E s"
  "kept E (m_raw_header_update r s) = kept E s" "kept E (m_len_codes_update l s) = kept E s"
  "kept E (out_buf_update r s) = kept E s" "kept E (out_cur_update f s) = kept E s"
  by (simp_all add: kept_def)

lemma eats_no_more: "eats E s t \<Longrightarrow> no_more_left E s t"
  by (auto simp: eats_def no_more_left_def)

lemma no_more_refl [simp]: "no_more_left E s s"
  by (simp add: no_more_left_def)

lemma left_other:
  assumes "avail E s' = avail E t" "kept E s' = kept E t"
  shows "less_left E s t \<Longrightarrow> less_left E s s'" "no_more_left E s t \<Longrightarrow> no_more_left E s s'"
  using assms by (simp_all add: less_left_def no_more_left_def)

text \<open>The ways to show that a step falls, from the state \<open>t\<close> after the bits have been read.\<close>

lemma falls_left: "less_left E s t \<Longrightarrow> avail E s' = avail E t \<Longrightarrow> kept E s' = kept E t \<Longrightarrow> inside E s' \<Longrightarrow> falls E p s q s'"
  by (simp add: falls_def left_other)

lemma falls_room:
  "eats E s t \<Longrightarrow> avail E s' = avail E t \<Longrightarrow> kept E s' = kept E t \<Longrightarrow> inside E s' \<Longrightarrow> room s' < room s \<Longrightarrow> falls E p s q s'"
  using left_other(2) [OF _ _ eats_no_more] by (simp add: falls_def)

lemma falls_height:
  "eats E s t \<Longrightarrow> avail E s' = avail E t \<Longrightarrow> kept E s' = kept E t \<Longrightarrow> inside E s' \<Longrightarrow> room s' = room s
    \<Longrightarrow> height E q s' < height E p s \<Longrightarrow> falls E p s q s'"
  using left_other(2) [OF _ _ eats_no_more] by (simp add: falls_def)

lemma falls_turns:
  "eats E s t \<Longrightarrow> avail E s' = avail E t \<Longrightarrow> kept E s' = kept E t \<Longrightarrow> inside E s' \<Longrightarrow> room s' = room s
    \<Longrightarrow> height E q s' = height E p s
    \<Longrightarrow> tables_left q s' < tables_left p s \<or> tables_left q s' = tables_left p s \<and> turns q s' < turns p s \<Longrightarrow> falls E p s q s'"
  using left_other(2) [OF _ _ eats_no_more] by (simp add: falls_def)

lemma inside_eats: "inside E s \<Longrightarrow> eats E s t \<Longrightarrow> inside E t"
  by (auto simp: inside_def eats_fields)

lemma inside_other: "out_cur s' = out_cur t \<Longrightarrow> out_buf s' = out_buf t \<Longrightarrow> inside E s' = inside E t"
  by (simp add: inside_def)

lemma room_other: "out_cur s' = out_cur t \<Longrightarrow> out_buf s' = out_buf t \<Longrightarrow> room s' = room t"
  by (simp add: room_def)

lemma spent_other: "avail E s' = avail E t \<Longrightarrow> m_bit_buf s' = m_bit_buf t \<Longrightarrow> spent E s' = spent E t"
  by (simp add: spent_def)

lemmas other = inside_def room_def eats_fields

lemma after_set_counter [aft]: "after (set_counter n) E s P = P () (s\<lparr>m_counter := n\<rparr>)"
  by (simp add: set_counter_def aft)

lemma after_table [aft]: "after (table i) E s P = (\<forall>p. at (m_tables s) i = Some p \<longrightarrow> P p s)"
  by (simp add: table_def aft)

lemma after_table_size [aft]: "after (table_size i) E s P = (\<forall>n. at (m_table_sizes s) i = Some n \<longrightarrow> P n s)"
  by (simp add: table_size_def aft)

lemma after_put_table [aft]: "after (put_table i p) E s P = (\<forall>ts. put (m_tables s) i p = Some ts \<longrightarrow> P () (s\<lparr>m_tables := ts\<rparr>))"
  by (simp add: put_table_def aft)

lemma after_put_table_size [aft]:
  "after (put_table_size i n) E s P = (\<forall>ns. put (m_table_sizes s) i n = Some ns \<longrightarrow> P () (s\<lparr>m_table_sizes := ns\<rparr>))"
  by (simp add: put_table_size_def aft)

lemma after_seqM [aft]: "after (seqM []) E s P = P () s" "after (seqM (m # ms)) E s P = after m E s (\<lambda>_ s'. after (seqM ms) E s' P)"
  by (simp_all add: aft)

lemma after_put_byte [aft]:
  "after (put_byte b) E s P = (out_cur s < length (out_buf s) \<longrightarrow> P () (s\<lparr>out_buf := (out_buf s)[out_cur s := b], out_cur := out_cur s + 1\<rparr>))"
  by (simp add: put_byte_def aft put_def)

lemma after_wait_output [aft]: "after (wait_output i) E s P = (out_cur s < length (out_buf s) \<longrightarrow> P () s)"
  by (auto simp: wait_output_def aft)

lemma after_if [aft]: "after (if b then m else k) E s P = (if b then after m E s P else after k E s P)"
  by simp

lemma after_prod [aft]: "after (case x of (a, b) \<Rightarrow> m a b) E s P = (\<forall>a b. x = (a, b) \<longrightarrow> after (m a b) E s P)"
  by (simp split: prod.split)

subsection \<open>The steps\<close>

lemma start_falls: "inside E s \<Longrightarrow> after step_start E s (falls E Start s)"
  unfolding step_start_def aft
  by (rule falls_height [where t = "s\<lparr>m_bit_buf := 0, m_num_bits := 0\<rparr>"])
    (auto simp: other kept_def intro!: eatsI)

lemma zlib_header0_falls: "inside E s \<Longrightarrow> after step_zlib_header0 E s (falls E Zlib_header0 s)"
  unfolding step_zlib_header0_def aft
  by (rule after_GET_BYTE, rule falls_height) (auto simp: other)

lemma zlib_header1_falls: "inside E s \<Longrightarrow> after step_zlib_header1 E s (falls E Zlib_header1 s)"
  unfolding step_zlib_header1_def Let_def aft
  by (rule after_GET_BYTE, rule falls_height) (auto simp: other)

lemma block_falls: "inside E s \<Longrightarrow> after step_block E s (falls E Block s)"
proof (unfold step_block_def after_bindM, rule after_GET_BITS)
  fix n :: nat and s' assume i: "inside E s" and e: "eats E s s'" and l: "0 < (3 :: nat) \<longrightarrow> less_left E s s' \<or> spent E s \<and> n = 0"
  consider "less_left E s s'" | "spent E s'" "n = 0" using l spent_eats [OF _ e] by auto
  then show "after (thenM (modM (\<lambda>s. s\<lparr>m_final := n, m_type := int (n div 2)\<rparr>))
     (if n div 2 = 0 then retM Skip_to_byte
      else if n div 2 = 3 then retM (Forever 10 TINFL_STATUS_FAILED)
      else if n div 2 = 1 then thenM fixed_tables (retM Build)
      else thenM (set_counter 0) (retM Table_sizes))) E s' (falls E Block s)"
  proof cases
    case 1
    then show ?thesis using inside_eats [OF i e]
      by (auto simp: aft fixed_tables_def inside_def simp del: seqM.simps intro!: falls_left)
  next
    case 2
    have "spent E (s'\<lparr>m_final := n, m_type := int (n div 2)\<rparr>)" using 2 by (simp add: spent_def)
    then show ?thesis using 2 inside_eats [OF i e] by (auto simp: aft other eats_fields [OF e] intro!: falls_height [OF e])
  qed
qed

lemma spent_less_left: "spent E s \<Longrightarrow> \<not> less_left E s s'"
  by (simp add: spent_def less_left_def kept_def)

lemma skip_to_byte_falls: "inside E s \<Longrightarrow> after step_skip_to_byte E s (falls E Skip_to_byte s)"
  unfolding step_skip_to_byte_def TINFL_SKIP_BITS_def aft after_set_counter
proof (rule after_weaken [where P = "\<lambda>_. eats E s"])
  show "after (TINFL_NEED_BITS 5 (m_num_bits s AND 7)) E s (\<lambda>_. eats E s)"
    using NEED_BITS_eats by (auto simp: after_def)
next
  fix s1 assume i: "inside E s" and e: "eats E s s1"
  show "after (drop_bits (m_num_bits s AND 7)) E s1 (\<lambda>_ s'. falls E Skip_to_byte s Raw_header (s'\<lparr>m_counter := 0\<rparr>))"
  proof (rule after_weaken [OF drop_bits_eats])
    fix x s2 assume "eats E s1 s2 \<and> (0 < m_num_bits s AND 7 \<longrightarrow> less_left E s1 s2 \<or> spent E s1)"
    then have e2: "eats E s s2" using e eats_trans by blast
    have "spent E s \<Longrightarrow> zero_header E (s2\<lparr>m_counter := 0\<rparr>)"
      using spent_eats [OF _ e2] by (simp add: zero_header_def spent_def)
    then show "falls E Skip_to_byte s Raw_header (s2\<lparr>m_counter := 0\<rparr>)"
      using i e2 by (auto simp: other intro!: falls_height [OF e2])
  qed
qed

lemma LE16_zero: "length h = 4 \<Longrightarrow> \<forall>j < 4. h ! j = 0 \<Longrightarrow> k \<le> 2 \<Longrightarrow> MZ_READ_LE16 (at h) k = Some 0"
  by (simp add: MZ_READ_LE16_def)

lemma raw_header_falls: "inside E s \<Longrightarrow> after step_raw_header E s (falls E Raw_header s)"
proof (cases "m_counter s < 4")
  case True
  assume i: "inside E s"
  let ?n = "\<lambda>c s'. \<forall>h. put (m_raw_header s') (m_counter s) c = Some h \<longrightarrow>
    falls E Raw_header s Raw_header (s'\<lparr>m_raw_header := h, m_counter := m_counter s + 1\<rparr>)"
  have n: "?n c s'" if e: "eats E s s'" and c: "spent E s \<longrightarrow> c = 0" for c s'
  proof (intro allI impI)
    fix h assume h: "put (m_raw_header s') (m_counter s) c = Some h"
    let ?t = "s'\<lparr>m_raw_header := h, m_counter := m_counter s + 1\<rparr>"
    have hh: "h = (m_raw_header s)[m_counter s := c]" "m_counter s < length (m_raw_header s)"
      using h e by (auto simp: put_def eats_fields split: if_splits)
    have z: "zero_header E ?t" if "zero_header E s"
      using that c spent_eats [OF _ e] hh by (auto simp: zero_header_def spent_def less_Suc_eq nth_list_update)
    show "falls E Raw_header s Raw_header ?t"
    proof (cases "zero_header E ?t = zero_header E s")
      case True
      then show ?thesis using i e \<open>m_counter s < 4\<close> by (intro falls_turns [OF e]) (auto simp: other tables_left_def)
    next
      case False
      then show ?thesis using i e z by (intro falls_height [OF e]) (auto simp: other)
    qed
  qed
  have "after (bindM (TINFL_GET_BITS 6 8) (\<lambda>b. retM (of_nat b))) E s ?n"
    unfolding aft by (rule after_GET_BITS, rule n) (use spent_less_left in auto)
  moreover have "after (TINFL_GET_BYTE 7) E s ?n"
    by (rule after_GET_BYTE, rule n) (auto simp: spent_def)
  ultimately show ?thesis using True by (simp add: step_raw_header_def aft)
next
  case False
  assume i: "inside E s"
  show ?thesis
  proof (cases "zero_header E s")
    case True
    have z: "MZ_READ_LE16 (at (m_raw_header s)) k = Some v \<Longrightarrow> k \<le> 2 \<Longrightarrow> v = 0" for k v
      using True False by (auto simp: zero_header_def MZ_READ_LE16_def at_def bind_eq_Some_conv split: if_splits)
    show ?thesis using False True i z [of 0] z [of 2]
      by (auto simp: step_raw_header_def aft other intro!: falls_height [OF eats_refl])
  next
    case z: False
    show ?thesis using False z i
      by (auto simp: step_raw_header_def aft other intro!: falls_height [OF eats_refl])
  qed
qed

lemma raw_bits_falls: "inside E s \<Longrightarrow> after step_raw_bits E s (falls E Raw_bits s)"
proof (cases "m_counter s \<noteq> 0 \<and> m_num_bits s \<noteq> 0")
  case True
  assume i: "inside E s"
  have "after (TINFL_GET_BITS 51 8) E s (\<lambda>d s'. falls E Raw_bits s Raw_bits_out (s'\<lparr>m_dist := d\<rparr>))"
    by (rule after_GET_BITS, rule falls_height) (use i in \<open>auto simp: other\<close>)
  then show ?thesis using True by (simp add: step_raw_bits_def aft)
qed (auto simp: step_raw_bits_def aft intro!: falls_height [OF eats_refl])

lemma raw_bits_out_falls: "inside E s \<Longrightarrow> after step_raw_bits_out E s (falls E Raw_bits_out s)"
  unfolding step_raw_bits_out_def
  by (auto simp: aft other intro!: falls_room [OF eats_refl])

lemma raw_copy_falls: "inside E s \<Longrightarrow> after step_raw_copy E s (falls E Raw_copy s)"
  unfolding step_raw_copy_def
  by (auto simp: aft other intro!: falls_height [OF eats_refl])

lemma raw_copy_in_falls: "inside E s \<Longrightarrow> after step_raw_copy_in E s (falls E Raw_copy_in s)"
proof (cases "avail E s = 0")
  case True
  assume "inside E s"
  then show ?thesis using True
    by (auto simp: step_raw_copy_in_def aft avail_def intro!: falls_height [OF eats_refl])
next
  case False
  assume i: "inside E s"
  let ?n = "min (min (length (out_buf s) - out_cur s) (length (in_buf E) - in_cur s)) (m_counter s)"
  let ?t = "\<lambda>buf. s\<lparr>out_buf := buf, in_cur := in_cur s + ?n, out_cur := out_cur s + ?n, m_counter := m_counter s - ?n\<rparr>"
  have f: "falls E Raw_copy_in s Raw_copy (?t buf)" if "length buf = length (out_buf s)" for buf
  proof (cases "?n = 0")
    case True
    then have z: "m_counter s = 0 \<or> room s = 0" using False by (auto simp: min_def room_def avail_def split: if_splits)
    have r: "room (?t buf) = room s" "inside E (?t buf)" using True that i by (simp_all add: other)
    show ?thesis by (rule falls_height [OF eats_refl _ _ r(2,1)]) (use True z r(1) in \<open>auto simp: avail_def kept_def\<close>)
  next
    case False
    then have l: "less_left E s (?t buf)" by (auto simp: less_left_def avail_def)
    show ?thesis by (rule falls_left [OF l]) (use i that in \<open>auto simp: inside_def\<close>)
  qed
  have "length buf = length (out_buf s)" if "put_list (out_buf s) (out_cur s) xs = Some buf" for xs buf
    using that by (auto simp: put_list_def split: if_splits)
  then show ?thesis using False f
    by (simp add: step_raw_copy_in_def aft avail_def Let_def)
qed

lemma table_sizes_falls: "inside E s \<Longrightarrow> after step_table_sizes E s (falls E Table_sizes s)"
proof (cases "m_counter s < 3")
  case True
  assume i: "inside E s"
  have "after (TINFL_GET_BITS 11 k) E s (\<lambda>n s'. \<forall>m. at s_min_table_sizes (m_counter s) = Some m \<longrightarrow>
     (\<forall>ns. put (m_table_sizes s') (m_counter s) (n + m) = Some ns \<longrightarrow>
      falls E Table_sizes s Table_sizes (s'\<lparr>m_table_sizes := ns, m_counter := m_counter s + 1\<rparr>)))" for k
    by (rule after_GET_BITS, intro allI impI, rule falls_turns) (use i True in \<open>auto simp: other tables_left_def\<close>)
  then show ?thesis using True by (simp add: step_table_sizes_def aft)
qed (auto simp: step_table_sizes_def aft other intro!: falls_height [OF eats_refl])

lemma code_length_lengths_falls: "inside E s \<Longrightarrow> after step_code_length_lengths E s (falls E Code_length_lengths s)"
proof (cases "\<exists>n. at (m_table_sizes s) 2 = Some n \<and> m_counter s < n")
  case True
  assume i: "inside E s"
  have n: "m_counter s < m_table_sizes s ! 2" using True by (auto simp: at_def split: if_splits)
  have "after (TINFL_GET_BITS 14 3) E s (\<lambda>c s'. \<forall>j. at s_length_dezigzag (m_counter s) = Some j \<longrightarrow>
     (\<forall>p. at (m_tables s') 2 = Some p \<longrightarrow> (\<forall>cs. put (m_code_size p) j c = Some cs \<longrightarrow>
      (\<forall>ts. put (m_tables s') 2 (p\<lparr>m_code_size := cs\<rparr>) = Some ts \<longrightarrow>
      falls E Code_length_lengths s Code_length_lengths (s'\<lparr>m_tables := ts, m_counter := m_counter s + 1\<rparr>)))))"
    by (rule after_GET_BITS, intro allI impI, rule falls_turns) (use i n in \<open>auto simp: other tables_left_def\<close>)
  then show ?thesis using True by (auto simp: step_code_length_lengths_def aft)
next
  case False
  assume "inside E s"
  then show ?thesis using False
    by (auto simp: step_code_length_lengths_def aft other intro!: falls_height [OF eats_refl])
qed

lemma build_falls: "inside E s \<Longrightarrow> after step_build E s (falls E Build s)"
proof (cases "m_type s < 0")
  case False
  assume i: "inside E s"
  have "falls E Build s (Code_lengths False) (s\<lparr>m_tables := ts, m_counter := 0\<rparr>)" for ts
    by (rule falls_turns [OF eats_refl]) (use i False in \<open>auto simp: other tables_left_def lengths_left_def\<close>)
  moreover have "falls E Build s Build (m_type_update (\<lambda>t. t - 1) (s\<lparr>m_tables := ts\<rparr>))" for ts
  proof (cases "m_type s = 0")
    case True
    then show ?thesis using i by (intro falls_height [OF eats_refl]) (auto simp: other)
  next
    case f: False
    then show ?thesis using i False by (intro falls_turns [OF eats_refl]) (auto simp: other tables_left_def)
  qed
  moreover have "falls E Build s (Forever i st) (s\<lparr>m_tables := ts\<rparr>)" for ts i st
    by (rule falls_height [OF eats_refl]) (use i False in \<open>auto simp: other\<close>)
  ultimately show ?thesis using False by (auto simp: step_build_def aft)
qed (auto simp: step_build_def aft intro!: falls_height [OF eats_refl])

lemma code_lengths_falls: "inside E s \<Longrightarrow> after (step_code_lengths b) E s (falls E (Code_lengths b) s)"
proof (cases "b \<or> 0 < lengths_left s")
  case True
  assume i: "inside E s"
  have n: "falls E (Code_lengths b) s (Code_lengths False) (s'\<lparr>m_dist := d, m_len_codes := lc, m_counter := m_counter s + 1\<rparr>)"
    if e: "eats E s s'" for s' d lc
  proof -
    have "lengths_left (s'\<lparr>m_dist := d, m_len_codes := lc, m_counter := m_counter s + 1\<rparr>) = lengths_left s - 1"
      by (simp add: lengths_left_def eats_fields [OF e])
    then show ?thesis using i True
      by (intro falls_turns [OF e]) (auto simp: inside_def room_def eats_fields [OF e] tables_left_def)
  qed
  have r: "falls E (Code_lengths b) s Repeat_length (s'\<lparr>m_dist := d, m_num_extra := k\<rparr>)"
    if e: "eats E s s'" for s' d k
  proof -
    have "lengths_left (s'\<lparr>m_dist := d, m_num_extra := k\<rparr>) = lengths_left s"
      by (simp add: lengths_left_def eats_fields [OF e])
    then show ?thesis using i True
      by (intro falls_turns [OF e]) (auto simp: inside_def room_def eats_fields [OF e] tables_left_def)
  qed
  have "after (TINFL_HUFF_DECODE 16 b p) E s (\<lambda>d s'.
      after (if d < 16 then
         bindM (getM m_len_codes) (\<lambda>lc. bindM (checked (put lc (m_counter s) d)) (\<lambda>lc.
         thenM (modM (m_len_codes_update (\<lambda>_. lc))) (thenM (set_counter (m_counter s + 1)) (retM (Code_lengths False)))))
       else if d = 16 \<and> m_counter s = 0 then retM (Forever 17 TINFL_STATUS_FAILED)
       else bindM (checked (at [2, 3, 7] (d - 16))) (\<lambda>k.
         thenM (modM (m_num_extra_update (\<lambda>_. k))) (retM Repeat_length))) E (s'\<lparr>m_dist := d\<rparr>) (falls E (Code_lengths b) s))" for p
  proof (rule after_HUFF_DECODE)
    fix d :: nat and s' assume e: "eats E s s'"
    have "falls E (Code_lengths b) s (Forever 17 TINFL_STATUS_FAILED) (s'\<lparr>m_dist := d\<rparr>)" for d
      using i by (intro falls_height [OF e]) (auto simp: other eats_fields [OF e])
    then show "after (if d < 16 then
         bindM (getM m_len_codes) (\<lambda>lc. bindM (checked (put lc (m_counter s) d)) (\<lambda>lc.
         thenM (modM (m_len_codes_update (\<lambda>_. lc))) (thenM (set_counter (m_counter s + 1)) (retM (Code_lengths False)))))
       else if d = 16 \<and> m_counter s = 0 then retM (Forever 17 TINFL_STATUS_FAILED)
       else bindM (checked (at [2, 3, 7] (d - 16))) (\<lambda>k.
         thenM (modM (m_num_extra_update (\<lambda>_. k))) (retM Repeat_length))) E (s'\<lparr>m_dist := d\<rparr>) (falls E (Code_lengths b) s)"
      using n [OF e] r [OF e] by (simp add: aft eats_fields [OF e])
  qed
  moreover have "b \<or> m_counter s < m_table_sizes s ! 0 + m_table_sizes s ! 1" using True by (auto simp: lengths_left_def)
  ultimately show ?thesis by (auto simp: step_code_lengths_def after_bindM after_thenM after_getM after_modM after_table after_table_size at_def)
next
  case False
  assume i: "inside E s"
  then have "\<not> b" "\<not> m_counter s < m_table_sizes s ! 0 + m_table_sizes s ! 1" using False by (auto simp: lengths_left_def)
  moreover have "falls E (Code_lengths False) s Build (m_type_update (\<lambda>t. t - 1) (s\<lparr>m_tables := ts\<rparr>))" for ts
  proof (cases "m_type s \<le> 0")
    case True
    then show ?thesis using i by (intro falls_height [OF eats_refl]) (auto simp: other)
  next
    case False
    then show ?thesis using i by (intro falls_turns [OF eats_refl]) (auto simp: other tables_left_def)
  qed
  moreover have "falls E (Code_lengths False) s (Forever i st) s" for i st
    by (rule falls_height [OF eats_refl]) (use i in \<open>auto simp: other\<close>)
  ultimately show ?thesis
    by (simp add: step_code_lengths_def aft at_def)
qed

lemma repeat_length_falls: "inside E s \<Longrightarrow> after step_repeat_length E s (falls E Repeat_length s)"
proof -
  assume i: "inside E s"
  have f: "falls E Repeat_length s (Code_lengths False) (s'\<lparr>m_len_codes := lc, m_counter := m_counter s + (n + m)\<rparr>)"
    if e: "eats E s s'" and m: "3 \<le> m" for s' lc n m
  proof -
    have "lengths_left (s'\<lparr>m_len_codes := lc, m_counter := m_counter s + (n + m)\<rparr>) = lengths_left s - (n + m)"
      by (simp add: lengths_left_def eats_fields [OF e])
    then show ?thesis using i m
      by (intro falls_turns [OF e]) (auto simp: inside_def room_def eats_fields [OF e] tables_left_def)
  qed
  have m: "3 \<le> m" if "at [3, 3, 11] j = Some m" for j m :: nat
    using that by (cases j) (auto simp: at_def less_Suc_eq nth_Cons' split: if_splits)
  show ?thesis unfolding step_repeat_length_def after_bindM after_getM
    by (rule after_GET_BITS) (use f m in \<open>auto simp: aft eats_fields\<close>)
qed

lemma literal_falls: "inside E s \<Longrightarrow> after (step_literal b) E s (falls E (Literal b) s)"
proof -
  assume i: "inside E s"
  have "after (TINFL_HUFF_DECODE 23 b p) E s (\<lambda>c s'. falls E (Literal b) s (if 256 \<le> c then Match else Literal_out) (s'\<lparr>m_counter := c\<rparr>))" for p
    by (rule after_HUFF_DECODE, rule falls_height) (use i in \<open>auto simp: other\<close>)
  then show ?thesis by (simp add: step_literal_def aft)
qed

lemma literal_out_falls: "inside E s \<Longrightarrow> after step_literal_out E s (falls E Literal_out s)"
  unfolding step_literal_out_def by (auto simp: aft other intro!: falls_room [OF eats_refl])

lemma match_falls: "inside E s \<Longrightarrow> after step_match E s (falls E Match s)"
  unfolding step_match_def Let_def by (auto simp: aft other intro!: falls_height [OF eats_refl])

lemma length_extra_falls: "inside E s \<Longrightarrow> after step_length_extra E s (falls E Length_extra s)"
  unfolding step_length_extra_def after_bindM after_getM
  by (rule after_GET_BITS) (auto simp: aft other intro!: falls_height)

lemma distance_falls: "inside E s \<Longrightarrow> after (step_distance b) E s (falls E (Distance b) s)"
proof -
  assume i: "inside E s"
  have "after (TINFL_HUFF_DECODE 26 b p) E s (\<lambda>d s'. \<forall>k. at s_dist_extra d = Some k \<longrightarrow> (\<forall>v. at s_dist_base d = Some v \<longrightarrow>
      falls E (Distance b) s (if k \<noteq> 0 then Distance_extra else Copy) (s'\<lparr>m_num_extra := k, m_dist := v\<rparr>)))" for p
    by (rule after_HUFF_DECODE, intro allI impI, rule falls_height) (use i in \<open>auto simp: other\<close>)
  then show ?thesis by (simp add: step_distance_def aft)
qed

lemma distance_extra_falls: "inside E s \<Longrightarrow> after step_distance_extra E s (falls E Distance_extra s)"
  unfolding step_distance_extra_def after_bindM after_getM
  by (rule after_GET_BITS) (auto simp: aft other intro!: falls_height)

lemma slow_copy_falls: "inside E s \<Longrightarrow> after step_slow_copy E s (falls E Slow_copy s)"
  unfolding step_slow_copy_def by (auto simp: aft other intro!: falls_height [OF eats_refl])

lemma slow_copy_out_falls: "inside E s \<Longrightarrow> after step_slow_copy_out E s (falls E Slow_copy_out s)"
  unfolding step_slow_copy_out_def by (auto simp: aft other intro!: falls_room [OF eats_refl])

lemma block_end_falls: "inside E s \<Longrightarrow> after step_block_end E s (falls E Block_end s)"
  unfolding step_block_end_def by (auto simp: aft other intro!: falls_height [OF eats_refl])

lemma trailer_skip_falls: "inside E s \<Longrightarrow> after step_trailer_skip E s (falls E Trailer_skip s)"
  unfolding step_trailer_skip_def TINFL_SKIP_BITS_def aft
proof (rule after_weaken [where P = "\<lambda>_. eats E s"])
  show "after (TINFL_NEED_BITS 32 (m_num_bits s AND 7)) E s (\<lambda>_. eats E s)"
    using NEED_BITS_eats by (auto simp: after_def)
next
  fix s1 assume i: "inside E s" and e: "eats E s s1"
  have "falls E Trailer_skip s Trailer (s2\<lparr>m_counter := 0\<rparr>)" if "eats E s1 s2" for s2
    using i eats_trans [OF e that] by (intro falls_height [of E s s2]) (auto simp: other)
  then show "after (drop_bits (m_num_bits s AND 7)) E s1 (\<lambda>_ s'. falls E Trailer_skip s Trailer (s'\<lparr>m_counter := 0\<rparr>))"
    by (intro after_weaken [OF drop_bits_eats]) blast
qed

lemma trailer_falls: "inside E s \<Longrightarrow> after step_trailer E s (falls E Trailer s)"
proof (cases "m_counter s < 4")
  case True
  assume i: "inside E s"
  have n: "falls E Trailer s Trailer (m_z_adler32_update f s'\<lparr>m_counter := m_counter s + 1\<rparr>)" if "eats E s s'" for s' f
    by (rule falls_turns [OF that]) (use i that True in \<open>auto simp: other tables_left_def\<close>)
  have "after (bindM (TINFL_GET_BITS 41 8) (\<lambda>b. retM (of_nat b))) E s (\<lambda>c :: 8 word. \<lambda>s'.
      falls E Trailer s Trailer (m_z_adler32_update (\<lambda>a. push_bit 8 a OR ucast c) s'\<lparr>m_counter := m_counter s + 1\<rparr>))"
    unfolding aft by (rule after_GET_BITS, rule n)
  moreover have "after (TINFL_GET_BYTE 42) E s (\<lambda>c s'.
      falls E Trailer s Trailer (m_z_adler32_update (\<lambda>a. push_bit 8 a OR ucast c) s'\<lparr>m_counter := m_counter s + 1\<rparr>))"
    by (rule after_GET_BYTE, rule n)
  ultimately show ?thesis using True by (simp add: step_trailer_def aft)
qed (auto simp: step_trailer_def aft other intro!: falls_height [OF eats_refl])

lemma decode_falls: "inside E s \<Longrightarrow> after step_decode E s (falls E Decode s)"
proof (cases "avail E s < 4 \<or> room s < 2")
  case True
  assume "inside E s"
  then show ?thesis using True
    by (auto simp: step_decode_def aft avail_def room_def intro!: falls_height [OF eats_refl])
next
  case False
  assume i: "inside E s"
  have m: "falls E Decode s Match (s'\<lparr>m_counter := c\<rparr>)" if "eats E s s'" for s' c
    by (rule falls_height [OF that]) (use i that in \<open>auto simp: other\<close>)
  have w: "falls E Decode s q s3" if e: "eats E s s1" and e2: "eats E (s1\<lparr>m_counter := c\<rparr>) s2"
      and s3: "avail E s3 = avail E s2" "kept E s3 = kept E s2" "out_cur s < out_cur s3" "out_cur s3 \<le> length (out_buf s3)"
        "length (out_buf s3) = length (out_buf s)" for s1 s2 s3 q c
  proof -
    have "no_more_left E s s3" using eats_no_more [OF e] eats_no_more [OF e2] s3(1,2) by (auto simp: no_more_left_def)
    then show ?thesis using i s3 by (auto simp: falls_def inside_def room_def)
  qed
  have two: "after fast_symbol E (s1\<lparr>m_counter := c\<rparr>) (\<lambda>sym2 s2. after (thenM (put_byte (of_nat c))
       (if sym2 AND 256 \<noteq> 0 then thenM (set_counter sym2) (retM Match)
        else thenM (put_byte (of_nat sym2)) (retM Decode))) E s2 (falls E Decode s))"
    if e: "eats E s s1" for s1 c
  proof (rule after_fast_symbol)
    fix sym2 s2 assume e2: "eats E (s1\<lparr>m_counter := c\<rparr>) s2"
    have "out_cur s2 = out_cur s" "out_buf s2 = out_buf s" using eats_fields [OF e2] eats_fields [OF e] by simp_all
    then show "after (thenM (put_byte (of_nat c))
       (if sym2 AND 256 \<noteq> 0 then thenM (set_counter sym2) (retM Match)
        else thenM (put_byte (of_nat sym2)) (retM Decode))) E s2 (falls E Decode s)"
      by (auto simp: aft intro!: w [OF e e2])
  qed
  have one: "after fast_symbol E s0 (\<lambda>c s1. if c AND 256 \<noteq> 0 then falls E Decode s Match (s1\<lparr>m_counter := c\<rparr>) else
      after fast_symbol E (s1\<lparr>m_counter := c\<rparr>) (\<lambda>sym2 s2. after (thenM (put_byte (of_nat c))
       (if sym2 AND 256 \<noteq> 0 then thenM (set_counter sym2) (retM Match)
        else thenM (put_byte (of_nat sym2)) (retM Decode))) E s2 (falls E Decode s)))" if "eats E s s0" for s0
    by (rule after_fast_symbol) (use m two eats_trans [OF that] in auto)
  have "after fast_refill E s (\<lambda>_ s0. after fast_symbol E s0 (\<lambda>c s1. if c AND 256 \<noteq> 0 then falls E Decode s Match (s1\<lparr>m_counter := c\<rparr>) else
      after fast_symbol E (s1\<lparr>m_counter := c\<rparr>) (\<lambda>sym2 s2. after (thenM (put_byte (of_nat c))
       (if sym2 AND 256 \<noteq> 0 then thenM (set_counter sym2) (retM Match)
        else thenM (put_byte (of_nat sym2)) (retM Decode))) E s2 (falls E Decode s))))"
    by (rule after_fast_refill, rule one) (use False in auto)
  then show ?thesis using False
    by (simp add: step_decode_def after_thenM after_bindM after_retM after_set_counter after_if after_in_avail after_out_avail avail_def room_def
        del: seqM.simps split del: if_split cong del: if_weak_cong)
qed

lemma copy_bytes_writes:
  "copy_bytes n src dst buf = Some buf' \<Longrightarrow> length buf' = length buf \<and> (0 < n \<longrightarrow> dst + n \<le> length buf)"
proof (induction n arbitrary: src dst buf)
  case (Suc n)
  then obtain b where b: "at buf src = Some b" "dst < length buf" "copy_bytes n (src + 1) (dst + 1) (buf[dst := b]) = Some buf'"
    by (auto simp: put_def bind_eq_Some_conv split: if_splits)
  show ?case using Suc.IH [OF b(3)] b(2) by (cases n) auto
qed simp

lemma copy_threes_writes:
  "copy_threes k src dst buf = Some (buf', dst') \<Longrightarrow> length buf' = length buf \<and> dst < dst' \<and> dst' \<le> length buf"
proof (induction k src dst buf rule: copy_threes.induct)
  case (1 k src dst buf)
  from 1(2) obtain b where b: "copy_bytes 3 src dst buf = Some b"
    by (subst (asm) copy_threes.simps) (auto simp: bind_eq_Some_conv)
  have l: "length b = length buf" "dst + 3 \<le> length buf" using copy_bytes_writes [OF b] by auto
  show ?case
  proof (cases "2 < k - 3")
    case True
    then have "copy_threes (k - 3) (src + 3) (dst + 3) b = Some (buf', dst')"
      using 1(2) b by (subst (asm) copy_threes.simps) (simp add: Let_def)
    from 1(1) [OF b refl refl refl True this] show ?thesis using l by simp
  next
    case False
    then show ?thesis using 1(2) b l copy_bytes_writes [of "nat (k - 3)" "src + 3" "dst + 3" b]
      by (subst (asm) copy_threes.simps) (auto simp: Let_def bind_eq_Some_conv split: if_splits)
  qed
qed

lemma those_length: "those xs = Some ys \<Longrightarrow> length ys = length xs"
  by (induction xs arbitrary: ys) (auto split: option.splits)

lemma memcpy_from_length: "memcpy_from f p n = Some ys \<Longrightarrow> length ys = n"
  using those_length by (fastforce simp: memcpy_from_def)

lemma copy_words_writes:
  "copy_words k src dst buf = Some buf' \<Longrightarrow> length buf' = length buf \<and> (0 < k \<longrightarrow> dst + 8 * k \<le> length buf)"
proof (induction k arbitrary: src dst buf)
  case (Suc k)
  have w: "length b' = length b \<and> d + 4 \<le> length b" if "copy_word a d b = Some b'" for a d b b'
    using that memcpy_from_length by (fastforce simp: copy_word_def put_list_def bind_eq_Some_conv split: if_splits)
  from Suc.prems obtain b1 where b1: "copy_word src dst buf = Some b1"
    "Option.bind (copy_word (src + 4) (dst + 4) b1) (copy_words k (src + 8) (dst + 8)) = Some buf'"
    unfolding copy_words.simps bind_eq_Some_conv by blast
  then obtain b2 where b: "copy_word src dst buf = Some b1" "copy_word (src + 4) (dst + 4) b1 = Some b2"
    "copy_words k (src + 8) (dst + 8) b2 = Some buf'" unfolding bind_eq_Some_conv by blast
  show ?case
  proof (cases "k = 0")
    case True
    then show ?thesis using w [OF b(1)] w [OF b(2)] b(3) by simp
  next
    case False
    then show ?thesis using w [OF b(1)] w [OF b(2)] Suc.IH [OF b(3)] by simp
  qed
qed simp

lemma copy_match_writes:
  "copy_match k d src dst buf = Some (buf', dst') \<Longrightarrow> length buf' = length buf \<and> dst < dst' \<and> dst' \<le> length buf"
proof (cases "9 \<le> k \<and> k \<le> d")
  case True
  assume m: "copy_match k d src dst buf = Some (buf', dst')"
  let ?n = "8 * (k div 8)"
  from m True obtain b where b: "copy_words (k div 8) src dst buf = Some b" and r: "if k mod 8 < 3
      then Option.bind (copy_bytes (k mod 8) (src + ?n) (dst + ?n) b) (\<lambda>buf. Some (buf, dst + ?n + k mod 8)) = Some (buf', dst')
      else copy_threes (int (k mod 8)) (src + ?n) (dst + ?n) b = Some (buf', dst')"
    by (auto simp: copy_match_def Let_def bind_eq_Some_conv split: if_splits)
  have l: "length b = length buf" "dst + ?n \<le> length buf" "0 < ?n" using copy_words_writes [OF b] True by auto
  show ?thesis
  proof (cases "k mod 8 < 3")
    case True
    with r obtain c where c: "copy_bytes (k mod 8) (src + ?n) (dst + ?n) b = Some c" "buf' = c" "dst' = dst + ?n + k mod 8"
      by (auto simp: bind_eq_Some_conv)
    then show ?thesis using copy_bytes_writes [OF c(1)] l by (cases "k mod 8") auto
  next
    case False
    then show ?thesis using r copy_threes_writes [of "int (k mod 8)" "src + ?n" "dst + ?n" b buf' dst'] l by auto
  qed
next
  case False
  assume "copy_match k d src dst buf = Some (buf', dst')"
  then show ?thesis using False copy_threes_writes by (auto simp: copy_match_def split: if_splits)
qed

lemma src_ofs_inside:
  assumes "inside E s" "decomp_flags E AND NON_WRAPPING_OUTPUT_BUF \<noteq> 0 \<longrightarrow> d \<le> out_cur s"
  shows "src_ofs (out_buf_size_mask E) (out_cur s) d \<le> length (out_buf s)"
proof (cases "decomp_flags E AND NON_WRAPPING_OUTPUT_BUF = 0")
  case True
  have "src_ofs (out_buf_size_mask E) (out_cur s) d \<le> unat (out_buf_size_mask E)"
    unfolding src_ofs_def by (metis and.commute unat_mono word_and_le1 word_le_nat_alt word_and_le2)
  then show ?thesis using assms True by (auto simp: inside_def)
next
  case False
  then have "of_nat (out_cur s) - of_nat d = (of_nat (out_cur s - d) :: 64 word)" using assms by (simp add: of_nat_diff)
  then have "src_ofs (out_buf_size_mask E) (out_cur s) d \<le> unat (of_nat (out_cur s - d) :: 64 word)"
    unfolding src_ofs_def by (metis word_and_le2 word_le_nat_alt)
  also have "\<dots> \<le> out_cur s - d" by (simp add: unat_of_nat)
  finally show ?thesis using assms by (auto simp: inside_def)
qed

lemma copy_falls: "inside E s \<Longrightarrow> after step_copy E s (falls E Copy s)"
proof -
  assume i: "inside E s"
  let ?s = "s\<lparr>m_dist_from_out_buf_start := out_cur s\<rparr>"
  let ?src = "src_ofs (out_buf_size_mask E) (out_cur s) (m_dist s)"
  have f: "falls E Copy s (Forever k st) ?s" for k st
    by (rule falls_height [OF eats_refl]) (use i in \<open>auto simp: other\<close>)
  have d: "falls E Copy s Decode (?s\<lparr>out_buf := buf, out_cur := cur\<rparr>)"
    if "copy_match (m_counter s) (m_dist s) ?src (out_cur s) (out_buf s) = Some (buf, cur)" for buf cur
    by (rule falls_room [OF eats_refl]) (use i copy_match_writes [OF that] in \<open>auto simp: other\<close>)
  have c: "falls E Copy s Slow_copy ?s"
    if "\<not> (out_cur s < m_dist s \<and> decomp_flags E AND NON_WRAPPING_OUTPUT_BUF \<noteq> 0)"
      "length (out_buf s) < max (out_cur s) ?src + m_counter s"
  proof -
    have "m_counter s \<noteq> 0" using that(2) src_ofs_inside [OF i, of "m_dist s"] that(1) i by (auto simp: inside_def)
    then show ?thesis by (intro falls_height [OF eats_refl]) (use i in \<open>auto simp: other\<close>)
  qed
  show ?thesis using f d c by (auto simp: step_copy_def aft Let_def)
qed

lemma step_falls: "inside E s \<Longrightarrow> after (tinfl_step p) E s (falls E p s)"
  by (cases p) (simp_all add: start_falls zlib_header0_falls zlib_header1_falls block_falls skip_to_byte_falls raw_header_falls
    raw_bits_falls raw_bits_out_falls raw_copy_falls raw_copy_in_falls table_sizes_falls code_length_lengths_falls build_falls
    code_lengths_falls repeat_length_falls literal_falls literal_out_falls match_falls length_extra_falls distance_falls
    distance_extra_falls copy_falls slow_copy_falls slow_copy_out_falls block_end_falls trailer_skip_falls trailer_falls
    decode_falls after_CR_RETURN)

subsection \<open>Every call returns\<close>

lemma run_ends:
  assumes "inside E s"
  shows "\<exists>r. tinfl_run p E s = Some r"
proof -
  let ?b = "\<lambda>(r :: texc + tinfl_point, s :: tinfl). \<not> isl r" and ?c = "\<lambda>(r, s). tinfl_step (projr r) E s"
  let ?P = "\<lambda>(r, s). isl r \<or> inside E s"
  let ?M = "measures [\<lambda>(r, s). if isl r then 0 else 1, \<lambda>(r, s). avail E s, \<lambda>(r, s). kept E s, \<lambda>(r, s). room s,
    \<lambda>(r, s). height E (projr r) s, \<lambda>(r, s). tables_left (projr r) s, \<lambda>(r, s). turns (projr r) s]"
  have step: "(?c (r, s), (r, s)) \<in> ?M \<and> ?P (?c (r, s))" if b: "?b (r, s)" and i: "?P (r, s)" for r s
  proof -
    from b obtain q where q: "r = Inr q" by (cases r) auto
    obtain r' s' where c: "tinfl_step q E s = (r', s')" by force
    show ?thesis
    proof (cases r')
      case (Inr q')
      then have "falls E q s q' s'" using step_falls [of E s q] i q c by (simp add: after_def)
      then show ?thesis using q c Inr by (auto simp: falls_def less_left_def no_more_left_def)
    qed (use q c in simp)
  qed
  have "wf ({(t, s). (?P s \<and> ?b s) \<and> t = ?c s})"
  proof (rule wf_subset [OF wf_measures])
    show "{(t, s). (?P s \<and> ?b s) \<and> t = ?c s} \<subseteq> ?M" using step by blast
  qed
  then have "\<exists>t. while_option ?b ?c (Inr p, s) = Some t"
  proof (rule wf_while_option_Some [where P = ?P])
    show "?P (?c t)" if "?P t" "?b t" for t using step [of "fst t" "snd t"] that by (cases t) simp
  qed (use assms in simp)
  then show ?thesis by (auto simp: tinfl_run_def)
qed

lemma decompress_ends:
  assumes "start \<le> length out" "flags AND NON_WRAPPING_OUTPUT_BUF \<noteq> 0 \<or> out \<noteq> []"
  shows "\<exists>e. tinfl_decompress r inp out start flags = Some e"
proof -
  let ?msk = "if flags AND NON_WRAPPING_OUTPUT_BUF \<noteq> 0 then -1 else of_nat (length out) - 1 :: 64 word"
  have "unat (of_nat (length out) - 1 :: 64 word) < length out" if "out \<noteq> []"
  proof -
    have "(of_nat (length out) - 1 :: 64 word) = of_nat (length out - 1)" using that by (cases out) simp_all
    then show ?thesis using that unat_of_nat [of "length out - 1", where 'a = 64] by (cases out) (simp_all add: le_imp_less_Suc)
  qed
  then have "inside \<lparr>in_buf = inp, decomp_flags = flags, out_buf_size_mask = ?msk\<rparr>
      (tinfl_decompressor.extend r \<lparr>in_cur = 0, out_buf = out, out_cur = start\<rparr>)"
    using assms by (auto simp: inside_def tinfl_decompressor.defs)
  from run_ends [OF this] show ?thesis
    by (auto simp: tinfl_decompress_def Let_def split: option.split)
qed

lemma whole_flags_set: "whole_flags flags AND NON_WRAPPING_OUTPUT_BUF \<noteq> 0"
proof
  assume z: "whole_flags flags AND NON_WRAPPING_OUTPUT_BUF = 0"
  have "bit (whole_flags flags AND NON_WRAPPING_OUTPUT_BUF) 2" by (simp add: whole_flags_def bit_simps)
  then show False unfolding z by simp
qed

lemma mem_to_mem_ends: "\<exists>e. tinfl_decompress_mem_to_mem stack out src flags = Some e"
  using decompress_ends [of 0 out "whole_flags flags" "tinfl_init stack" src] whole_flags_set [of flags]
  by (auto simp: tinfl_decompress_mem_to_mem_def)

end
