(* ===== verification/Tinfl_Ends.thy ===== *)
theory Tinfl_Ends
  imports Tinfl_Term
begin

text \<open>
  The loop over the calls of the inflater.  A call leaves the place in the output inside it, so that the next one
  may be made; with an allocator that refuses blocks from some size on the loop ends.
\<close>

subsection \<open>The output after a call\<close>

text \<open>Whatever happens in a step, the output keeps its size and the place in it stays inside.\<close>

definition fits :: "nat \<Rightarrow> tinfl \<Rightarrow> bool" where
  "fits n s \<longleftrightarrow> length (out_buf s) = n \<and> out_cur s \<le> n"

definition fitting :: "nat \<Rightarrow> 'a T \<Rightarrow> bool" where
  "fitting n m \<longleftrightarrow> (\<forall>E. hoare (\<lambda>_. True) (fits n) E (fits n) m (\<lambda>_. fits n))"

named_theorems fit "operations of the inflater that keep the place in the output inside"

lemma fitting_run: "fitting n m \<Longrightarrow> fits n s \<Longrightarrow> fits n (snd (m E s))"
  by (cases "m E s"; cases "fst (m E s)") (auto simp: fitting_def dest: hoareD)

lemma fittingI: "(\<And>E s. fits n s \<Longrightarrow> fits n (snd (m E s))) \<Longrightarrow> fitting n m"
  unfolding fitting_def by (intro allI hoareI) (metis snd_conv)+

lemma fitting_retM [fit]: "fitting n (retM x)"
  by (simp add: fitting_def hw)

lemma fitting_failM [fit]: "fitting n (failM e)"
  by (rule fittingI) (simp add: luasem)

lemma fitting_bindM [fit]: "fitting n m \<Longrightarrow> (\<And>x. fitting n (f x)) \<Longrightarrow> fitting n (bindM m f)"
  unfolding fitting_def by (blast intro: hoare_bindM)

lemma fitting_thenM [fit]: "fitting n m \<Longrightarrow> fitting n k \<Longrightarrow> fitting n (thenM m k)"
  unfolding fitting_def by (blast intro: hoare_thenM)

lemma fitting_getM [fit]: "fitting n (getM f)"
  by (simp add: fitting_def hw)

lemma fitting_askM [fit]: "fitting n (askM f)"
  by (simp add: fitting_def hw)

lemma fitting_modM: "(\<And>s. length (out_buf (f s)) = length (out_buf s)) \<Longrightarrow> (\<And>s. out_cur (f s) = out_cur s) \<Longrightarrow> fitting n (modM f)"
  by (rule fittingI) (simp add: luasem fits_def)

lemma fitting_whenM [fit]: "fitting n m \<Longrightarrow> fitting n (whenM b m)"
  by (simp add: fitting_def hw)

lemma fitting_if [fit]: "(b \<Longrightarrow> fitting n m) \<Longrightarrow> (\<not> b \<Longrightarrow> fitting n k) \<Longrightarrow> fitting n (if b then m else k)"
  by simp

lemma fitting_prod [fit]: "(\<And>a b. fitting n (f a b)) \<Longrightarrow> fitting n (case x of (a, b) \<Rightarrow> f a b)"
  by (cases x) simp

lemma fitting_checked [fit]: "fitting n (checked x)"
  by (rule fittingI) (simp add: checked_def luasem split: option.split)

lemma fitting_checked_here [fit]: "fitting n (\<lambda>E s. checked (f E s) E s)"
  by (rule fittingI) (simp add: checked_def luasem split: option.split)

lemma fitting_flag [fit]: "fitting n (flag f)"
  by (simp add: flag_def fit)

lemma fitting_seqM [fit]: "fitting n (seqM [])" "fitting n m \<Longrightarrow> fitting n (seqM ms) \<Longrightarrow> fitting n (seqM (m # ms))"
  by (simp_all add: fit)

lemma fitting_Let [fit]: "(\<And>y. fitting n (f y)) \<Longrightarrow> fitting n (let y = x in f y)"
  by simp

lemma fitting_CR_RETURN [fit]: "fitting n (TINFL_CR_RETURN i st)"
  unfolding TINFL_CR_RETURN_def by (intro fit fitting_modM) simp_all

lemma fitting_in_avail [fit]: "fitting n in_avail"
  by (rule fittingI) (simp add: in_avail_def)

lemma fitting_next_byte [fit]: "fitting n next_byte"
  by (rule fittingI) (simp add: next_byte_def luasem checked_def fits_def split: option.split)

lemma fitting_GET_BYTE [fit]: "fitting n (TINFL_GET_BYTE i)"
  unfolding TINFL_GET_BYTE_def by (intro fit)

lemma fitting_push_bits [fit]: "fitting n (push_bits c k)"
  unfolding push_bits_def by (intro fitting_modM) simp_all

lemma fitting_drop_bits [fit]: "fitting n (drop_bits k)"
  unfolding drop_bits_def by (intro fit fitting_modM) simp_all

lemma fitting_byte_of_bits [fit]: "fitting n (byte_of_bits i)"
  unfolding byte_of_bits_def by (intro fit)

lemma fitting_NEED_BITS [fit]: "fitting n (TINFL_NEED_BITS i k)"
proof (rule fittingI)
  fix E s show "fits n s \<Longrightarrow> fits n (snd (TINFL_NEED_BITS i k E s))"
  proof (induction i k E s rule: TINFL_NEED_BITS.induct)
    case (1 i k E s)
    show ?case using 1 fitting_run [OF fitting_byte_of_bits 1(2), of i E]
      by (subst TINFL_NEED_BITS.simps) (auto split: prod.split sum.split)
  qed
qed

lemma fitting_BITBUF_FILL [fit]: "fitting n (TINFL_HUFF_BITBUF_FILL i p)"
proof (rule fittingI)
  fix E s show "fits n s \<Longrightarrow> fits n (snd (TINFL_HUFF_BITBUF_FILL i p E s))"
  proof (induction i p E s rule: TINFL_HUFF_BITBUF_FILL.induct)
    case (1 i p E s)
    show ?case using 1 fitting_run [OF fitting_byte_of_bits 1(2), of i E]
      by (subst TINFL_HUFF_BITBUF_FILL.simps) (auto split: prod.split sum.split option.split)
  qed
qed

lemma fitting_SKIP_BITS [fit]: "fitting n (TINFL_SKIP_BITS i k)"
  unfolding TINFL_SKIP_BITS_def by (intro fit)

lemma fitting_GET_BITS [fit]: "fitting n (TINFL_GET_BITS i k)"
  unfolding TINFL_GET_BITS_def by (intro fit)

lemma fitting_HUFF_DECODE [fit]: "fitting n (TINFL_HUFF_DECODE i b p)"
  unfolding TINFL_HUFF_DECODE_def by (intro fit)

lemma fitting_set_counter [fit]: "fitting n (set_counter k)"
  unfolding set_counter_def by (intro fitting_modM) simp_all

lemma fitting_table [fit]: "fitting n (table i)" "fitting n (table_size i)" "fitting n out_avail" "fitting n (wait_output i)"
  unfolding table_def table_size_def out_avail_def wait_output_def by (intro fit)+

lemma fitting_put_table [fit]: "fitting n (put_table i p)" "fitting n (put_table_size i k)"
  unfolding put_table_def put_table_size_def by (intro fit fitting_modM; simp)+

lemma fitting_fast [fit]: "fitting n fast_symbol" "fitting n fast_refill"
  unfolding fast_symbol_def fast_refill_def by (intro fit fitting_modM; simp)+

lemma fitting_put_byte [fit]: "fitting n (put_byte b)"
  by (rule fittingI) (simp add: put_byte_def luasem checked_def put_def fits_def)

lemma fitting_fixed_tables [fit]: "fitting n fixed_tables"
  unfolding fixed_tables_def by (intro fit fitting_modM; simp)

lemma fitting_steps [fit]:
  "fitting n step_start" "fitting n step_zlib_header0" "fitting n step_zlib_header1" "fitting n step_block" "fitting n
    step_skip_to_byte" "fitting n step_raw_header" "fitting n step_raw_bits" "fitting n step_raw_bits_out" "fitting n
    step_raw_copy" "fitting n step_table_sizes" "fitting n step_code_length_lengths" "fitting n step_build" "fitting n
    step_repeat_length" "fitting n step_decode" "fitting n step_literal_out" "fitting n step_match" "fitting n
    step_length_extra" "fitting n step_distance_extra" "fitting n step_slow_copy" "fitting n step_slow_copy_out"
    "fitting n step_block_end" "fitting n step_trailer_skip" "fitting n step_trailer" "fitting n (step_literal b)"
    "fitting n (step_distance b)"
    "fitting n (step_code_lengths b)"
  unfolding step_start_def step_zlib_header0_def step_zlib_header1_def step_block_def step_skip_to_byte_def
    step_raw_header_def step_raw_bits_def step_raw_bits_out_def step_raw_copy_def step_table_sizes_def
    step_code_length_lengths_def step_build_def step_repeat_length_def step_decode_def step_literal_out_def
    step_match_def step_length_extra_def step_distance_extra_def step_slow_copy_def step_slow_copy_out_def
    step_block_end_def step_trailer_skip_def step_trailer_def step_literal_def step_distance_def step_code_lengths_def
  by (intro fit fitting_modM; simp)+

lemma fitting_step: "fitting n (tinfl_step p)"
proof (cases p)
  case Raw_copy_in
  have b: "length b' = length b" if "put_list b c xs = Some b'" for b c b' and xs :: bytes
    using that by (auto simp: put_list_def split: if_splits)
  have m: "c + min (min (l - c) i) k \<le> l" if "c \<le> l" for c l i k :: nat
    using that by simp
  have "fitting n (bindM out_avail (\<lambda>a. bindM counterM (\<lambda>k. let m = min (min a i) k in
       bindM (\<lambda>E s. checked (put_list (out_buf s) (out_cur s) (take m (drop (in_cur s) (in_buf E)))) E s) (\<lambda>buf.
       thenM (modM (\<lambda>s. s\<lparr>out_buf := buf, in_cur := in_cur s + m, out_cur := out_cur s + m, m_counter := k - m\<rparr>))
        (retM Raw_copy)))))" for i
    by (rule fittingI) (use m in \<open>auto simp: out_avail_def luasem checked_def Let_def fits_def dest: b simp del: min_less_iff_conj split: option.split\<close>)
  then have "fitting n step_raw_copy_in" unfolding step_raw_copy_in_def
    by (intro fitting_bindM [OF fitting_in_avail] fitting_if fitting_bindM [OF fitting_flag] fitting_CR_RETURN fitting_retM)
  then show ?thesis using Raw_copy_in by simp
next
  case Copy
  have "fitting n step_copy"
    by (rule fittingI) (auto simp: step_copy_def luasem flag_def checked_def Let_def fits_def split: option.split dest: copy_match_writes)
  then show ?thesis using Copy by simp
qed (simp_all add: fit)

lemma run_fits:
  assumes "tinfl_run p E s = Some (e, s')" "fits n s"
  shows "fits n s'"
proof -
  obtain r where w: "while_option (\<lambda>(r, s). \<not> isl r) (\<lambda>(r, s). tinfl_step (projr r) E s) (Inr p, s) = Some (r, s')"
    using assms(1) by (auto simp: tinfl_run_def bind_eq_Some_conv)
  have "case (r, s') of (r, s) \<Rightarrow> fits n s"
    by (rule while_option_rule [OF _ w]) (use assms(2) fitting_run [OF fitting_step] in \<open>auto simp: case_prod_beta\<close>)
  then show ?thesis by simp
qed

lemma status_Returned:
  "(case e of Status st \<Rightarrow> f st | _ \<Rightarrow> Crashed) = Returned a b c d k \<longleftrightarrow> (\<exists>st. e = Status st \<and> f st = Returned a b c d k)"
  by (cases e) auto

lemma decompress_room:
  assumes "tinfl_decompress r inp out start flags = Some (Returned st r' n buf k)" "start \<le> length out"
  shows "start + k \<le> length buf \<and> length buf = length out"
proof -
  let ?s = "tinfl_decompressor.extend r \<lparr>in_cur = 0, out_buf = out, out_cur = start\<rparr>"
  have s: "fits (length out) ?s" using assms(2) by (simp add: fits_def tinfl_decompressor.defs)
  have c: "start + k \<le> length buf \<and> length buf = length out"
    if "common_exit flags start x s' = Returned st r' n buf k" "fits (length out) s'" for x s'
    using that assms(2) by (auto simp: common_exit_def Let_def fits_def split: if_splits)
  from assms(1) consider "r' = r" "buf = out" "k = 0"
    | x s' where "common_exit flags start x s' = Returned st r' n buf k" "s' = ?s \<or> (\<exists>p E. tinfl_run p E ?s = Some (Status x, s'))"
    by (auto simp: tinfl_decompress_def Let_def status_Returned split: if_splits option.splits)
  then show ?thesis
  proof cases
    case 1
    then show ?thesis using assms(2) by simp
  next
    case 2
    then show ?thesis using c s run_fits by blast
  qed
qed

lemma heap_loop_ends:
  assumes r: "\<And>old n. N \<le> n \<Longrightarrow> realloc old n = None" and l: "\<And>old n new. realloc old n = Some new \<Longrightarrow> length new = n"
    and f: "flags AND NON_WRAPPING_OUTPUT_BUF \<noteq> 0"
  shows "n \<le> length buf \<Longrightarrow> \<exists>e. to_heap_loop realloc src flags r ofs buf n = Some e"
proof (induction "N - length buf" arbitrary: r ofs buf n rule: less_induct)
  case less
  obtain e where e: "tinfl_decompress r (drop ofs src) buf n flags = Some e" using decompress_ends less.prems f by blast
  show ?case
  proof (cases "\<exists>st r' k b m. e = Returned st r' k b m \<and> \<not> (status_negative st \<or> st = TINFL_STATUS_NEEDS_MORE_INPUT)
      \<and> st \<noteq> TINFL_STATUS_DONE \<and> realloc b (max 128 (2 * length b)) \<noteq> None")
    case False
    then show ?thesis using e by (subst to_heap_loop.simps) (auto split: tinfl_end.split)
  next
    case True
    then obtain st r' k b m b' where x: "e = Returned st r' k b m" "\<not> (status_negative st \<or> st = TINFL_STATUS_NEEDS_MORE_INPUT)"
      "st \<noteq> TINFL_STATUS_DONE" "realloc b (max 128 (2 * length b)) = Some b'" by auto
    have b: "n + m \<le> length b" "length b = length buf" using decompress_room [of r "drop ofs src" buf n flags] e x(1) less.prems by auto
    have b': "length b' = max 128 (2 * length b)" using l [OF x(4)] .
    have "\<not> N \<le> max 128 (2 * length b)" using r x(4) by fastforce
    then have "N - length b' < N - length buf" using b' b(2) by auto
    from less.hyps [OF this, of "n + m"] b b' obtain v where "to_heap_loop realloc src flags r' (ofs + k) b' (n + m) = Some v" by fastforce
    then show ?thesis using e x by (subst to_heap_loop.simps) simp
  qed
qed

lemma mem_to_heap_ends:
  assumes "\<forall>old n. N \<le> n \<longrightarrow> realloc old n = None" "\<forall>old n new. realloc old n = Some new \<longrightarrow> length new = n"
  shows "\<exists>e. tinfl_decompress_mem_to_heap realloc stack src flags = Some e"
  unfolding tinfl_decompress_mem_to_heap_def
  by (rule heap_loop_ends [where N = N]) (use assms whole_flags_set in auto)

end
