(* ===== verification/Inflated.thy ===== *)
theory Inflated
  imports Inflate Tinfl_Ends
begin

text \<open>
  What a program can rely on when it decompresses a whole input, with a stream of two blocks on which the
  properties are checked.
\<close>

subsection \<open>A stream\<close>

text \<open>A stored block of two bytes, and a block with the fixed code: a literal and a match of length 4 at distance 1.\<close>

definition sample_blocks :: "deflate_block list" where
  "sample_blocks = [Stored [72, 105], Fixed [Lit 97, Ref 258 0 0 0]]"

definition sample_input :: bytes where
  "sample_input = [0, 2, 0, 253, 255, 72, 105, 75, 4, 1, 0]"

lemma sample_ok: "blocks_ok [] sample_blocks"
proof -
  have "token_ok fixed_lengths fixed_dist_lengths (Suc (Suc (Suc 0))) (Ref 258 0 0 0)"
    by (simp add: ref_dist_def fixed_code fixed_dist_code length_fixed s_length_extra_def s_dist_base_def)
  moreover have "token_ok fixed_lengths fixed_dist_lengths (Suc (Suc 0)) (Lit 97)" by (simp add: fixed_code)
  ultimately show ?thesis by (simp add: sample_blocks_def del: token_ok.simps)
qed

lemma sample_codes:
  "huff_bits fixed_lengths 97 = [True, False, False, True, False, False, False, True]"
  "huff_bits fixed_lengths 258 = [False, False, False, False, False, True, False]"
  "huff_bits fixed_lengths 256 = [False, False, False, False, False, False, False]"
  "huff_bits fixed_dist_lengths 0 = [False, False, False, False, False]"
  by (simp_all add: huff_bits_def fixed_code fixed_dist_code number_bits_def upt_rec bit_iff_odd)

lemma sample_stream:
  "stream_bits 0 sample_blocks = [False, False, False, False, False, False, False, False]
     @ [False, True, False, False, False, False, False, False, False, False, False, False, False, False, False, False]
     @ [True, False, True, True, True, True, True, True, True, True, True, True, True, True, True, True]
     @ [False, False, False, True, False, False, True, False, True, False, False, True, False, True, True, False]
     @ [True, True, False] @ [True, False, False, True, False, False, False, True]
     @ [False, False, False, False, False, True, False] @ [False, False, False, False, False] @ [False, False, False, False, False, False, False]"
proof -
  have "replicate 5 False = [False, False, False, False, False]" by (simp add: eval_nat_numeral)
  then show ?thesis
    by (simp add: sample_blocks_def tokens_bits_def sample_codes s_length_extra_def s_dist_extra_def
      number_bits_def Let_def upt_rec bit_iff_odd)
qed
lemma sample_starts: "starts sample_input (stream_bits 0 sample_blocks)"
  unfolding sample_stream sample_input_def starts_def by code_simp

lemma expand_sample: "expand sample_blocks [] = [72, 105, 97, 97, 97, 97, 97]"
proof -
  have "ref_length 258 0 = Suc (Suc (Suc (Suc 0)))" "ref_dist 0 0 = Suc 0"
    by (simp_all add: ref_length_def ref_dist_def s_length_base_def s_dist_base_def)
  then show ?thesis by (simp add: sample_blocks_def)
qed

lemma expand_sample_length: "length [72, 105, 97, 97, 97, 97, 97 :: 8 word] = 7"
  by simp

text \<open>Arrays of the sizes \<^verbatim>\<open>miniz.h\<close> gives them.\<close>

definition sample_stack :: tinfl_decompressor where
  "sample_stack = \<lparr>m_state = 7, m_num_bits = 3, m_zhdr0 = 0, m_zhdr1 = 0, m_z_adler32 = 5, m_final = 1, m_type = 2,
     m_check_adler32 = 0, m_dist = 1, m_counter = 9, m_num_extra = 0, m_table_sizes = [0, 0, 0], m_bit_buf = 6,
     m_dist_from_out_buf_start = 4,
     m_tables = replicate 3 \<lparr>m_code_size = replicate 288 0, m_look_up = [], m_tree = []\<rparr>,
     m_raw_header = [1, 2, 3, 4], m_len_codes = replicate 457 0\<rparr>"

lemma shaped_sample: "shaped sample_stack"
  by (simp add: shaped_def sample_stack_def)

text \<open>An allocator that keeps what the old block held and gives the rest as zeros.\<close>

definition sample_realloc :: "bytes \<Rightarrow> nat \<Rightarrow> bytes option" where
  "sample_realloc old n = Some (take n old @ replicate (n - length old) 0)"

lemma sample_realloc_ok: "realloc_ok sample_realloc"
  by (simp add: realloc_ok_def sample_realloc_def)

subsection \<open>Into a block of the caller\<close>



subsection \<open>Into the heap\<close>



subsection \<open>Every call returns\<close>



end
