(* ===== verification/Inflate_Fault.thy ===== *)
theory Inflate_Fault
  imports Inflated
begin

text \<open>
  Where the inflater writes outside its output: the length symbols 286 and 287, which RFC 1951 says never occur, and the
  distance symbols 30 and 31 have an entry 0 in the tables of the code and are not refused.  The copy of a
  match of length 0 begins with three bytes.
\<close>

definition zero_match :: "nat \<Rightarrow> nat \<Rightarrow> bool list" where
  "zero_match l d = [True, True, False] @ huff_bits fixed_lengths l @ huff_bits fixed_dist_lengths d"

lemma copy_nothing: "length buf < 3 \<Longrightarrow> copy_match 0 0 0 0 buf = None"
  by (simp add: copy_match_def copy_threes.simps numeral_3_eq_3 at_def put_def)

text \<open>The run from the head of a block with the fixed code to the write.\<close>

lemma zero_match_run:
  assumes E: "call_ok E" "st_ok E s" "shaped s" and a: "ahead E s pos (zero_match l d @ [])"
    and l: "l = 286 \<or> l = 287" and d: "d = 30 \<or> d = 31" and o: "out_cur s = 0" "length (out_buf s) < 2"
  shows "\<exists>s'. tinfl_run Block E s = Some (Bad_memory, s')"
proof -
  have a0: "ahead E s pos ([True, True, False] @ (huff_bits fixed_lengths l @ huff_bits fixed_dist_lengths d @ []))"
    using a by (simp add: zero_match_def)
  obtain s1 where s1: "tinfl_run Block E s = tinfl_run Decode E s1" "codes fixed_lengths fixed_dist_lengths s1"
      "ahead E s1 (pos + 3) (huff_bits fixed_lengths l @ huff_bits fixed_dist_lengths d @ [])" "goes E s s1 (produced s)"
    using block_fixed_run [OF E a0] by metis
  note g1 = goesD [OF s1(4)]
  have o1: "out_cur s1 = 0" "length (out_buf s1) < 2"
    using g1(4,5) o length_produced [OF g1(1)] length_produced [OF E(2)] by simp_all
  note t1 = codesD [OF s1(2)]
  have ly: "l < length fixed_lengths" "0 < fixed_lengths ! l" "d < length fixed_dist_lengths" "0 < fixed_dist_lengths ! d"
    using l d by (auto simp: length_fixed fixed_code fixed_dist_code)
  obtain s2 where s2: "TINFL_HUFF_DECODE 23 False (m_tables s1 ! 0) E s1 = (Inr l, s2)" "reads E (fixed_lengths ! l) s1 s2"
      "ahead E s2 (pos + 3 + fixed_lengths ! l) (huff_bits fixed_dist_lengths d @ [])"
    by (rule get_symbol [OF s1(3) t1(3) ly(1,2) g1(2) call_no_more [OF E(1)]])
  let ?s3 = "s2\<lparr>m_counter := 0, m_num_extra := 0\<rparr>"
  note r2 = reads_same [OF s2(2)]
  have b3: "bits_ok E ?s3" using s2(2) by (simp add: reads_def bits_ok_def)
  have g3: "good_tables fixed_dist_lengths (m_tables ?s3 ! 1)" "table (Suc 0) E ?s3 = (Inr (m_tables ?s3 ! Suc 0), ?s3)"
    using s1(2) r2 by (simp_all add: codes_def table_def checked_def luasem)
  have a3: "ahead E ?s3 (pos + 3 + fixed_lengths ! l) (huff_bits fixed_dist_lengths d @ [])" using s2(3) by simp
  obtain s4 where s4: "TINFL_HUFF_DECODE 26 False (m_tables ?s3 ! 1) E ?s3 = (Inr d, s4)" "reads E (fixed_dist_lengths ! d) ?s3 s4"
    using get_symbol [OF a3 g3(1) ly(3,4) b3 call_no_more [OF E(1)]] by metis
  let ?s5 = "s4\<lparr>m_num_extra := 0, m_dist := 0\<rparr>"
  note r4 = reads_same [OF s4(2)]
  have o5: "out_cur ?s5 = 0" "length (out_buf ?s5) < 2" "m_counter ?s5 = 0" using o1 r2 r4 by simp_all
  have "tinfl_run Decode E s1 = tinfl_run (Literal False) E s1"
    using o1 by (intro run_to) (auto simp: step_decode_def in_avail_def out_avail_def luasem)
  also have "\<dots> = tinfl_run Match E (s2\<lparr>m_counter := l\<rparr>)"
    using s2(1) l by (intro run_to) (auto simp: step_literal_def t1 set_counter_def luasem)
  also have "\<dots> = tinfl_run (Distance False) E ?s3"
    using l by (intro run_to) (auto simp: step_match_def Let_def and_511 checked_def luasem s_length_extra_def s_length_base_def)
  also have "\<dots> = tinfl_run Copy E ?s5"
    using s4(1) d g3(2) by (intro run_to) (auto simp: step_distance_def checked_def luasem s_dist_extra_def s_dist_base_def)
  finally have r: "tinfl_run Block E s = tinfl_run Copy E ?s5" using s1(1) by simp
  have "tinfl_step Copy E ?s5 = (Inl Bad_memory, ?s5\<lparr>m_dist_from_out_buf_start := 0\<rparr>)"
    using E(1) o5 copy_nothing [of "out_buf s4"]
    by (simp add: step_copy_def call_ok_def flag_def checked_def luasem Let_def src_ofs_def)
  then show ?thesis using r run_stop by metis
qed

lemma zero_match_call:
  assumes f: "raw_call flags" and r: "m_state r = 0" "shaped r" and out: "length out < 2"
    and b: "starts inp (zero_match l d)" "l = 286 \<or> l = 287" "d = 30 \<or> d = 31"
  shows "tinfl_decompress r inp out 0 flags = Some Crashed"
proof -
  let ?E = "the_call inp flags" and ?s = "entry r out 0"
  let ?t = "?s\<lparr>m_bit_buf := 0, m_num_bits := 0, m_dist := 0, m_counter := 0,
       m_num_extra := 0, m_zhdr0 := 0, m_zhdr1 := 0, m_z_adler32 := 1, m_check_adler32 := 1\<rparr>"
  have rp: "resume_point (m_state r) = Some Start" using r(1) by (simp add: resume_point_def)
  have s0: "out_cur ?t = 0" "out_buf ?t = out" "in_cur ?t = 0" "m_num_bits ?t = 0" "m_bit_buf ?t = 0"
    by (simp_all add: tinfl_decompressor.extend_def)
  have "decomp_flags ?E AND 1 = 0" using f by (simp add: raw_call_def the_call_def)
  then have run: "tinfl_run Start ?E ?s = tinfl_run Block ?E ?t"
    by (intro run_to) (simp add: step_start_def flag_def luasem)
  have st: "st_ok ?E ?t" using out s0 by (simp add: st_ok_def bits_ok_def)
  have w: "shaped ?t" using r(2) by (simp add: shaped_def tinfl_decompressor.extend_def)
  have a: "ahead ?E ?t 0 (zero_match l d @ [])" using starts_ahead [OF b(1)] s0 by (simp add: the_call_def)
  obtain s' where "tinfl_run Block ?E ?t = Some (Bad_memory, s')"
    using zero_match_run [OF the_call_ok [OF f] st w a b(2,3) s0(1)] s0(2) out by auto
  then show ?thesis using run rp f by (simp add: tinfl_decompress_def raw_call_def the_call_def Let_def)
qed

text \<open>
  C37. Two bytes are enough to make the inflater write through \<^verbatim>\<open>NULL\<close>.  For an input that begins with the header of a block
  with the fixed code, a length symbol 286 or 287 and a distance symbol 30 or 31, \<^verbatim>\<open>tinfl_decompress_mem_to_heap\<close>, and with
  it \<^verbatim>\<open>miniz.inflate\<close>, writes three bytes into a block it has not allocated yet, and \<^verbatim>\<open>tinfl_decompress_mem_to_mem\<close>
  writes past the end of a block of less than two bytes.
\<close>

theorem zero_length_match_writes:
  assumes "starts src (zero_match l d)" "l = 286 \<or> l = 287" "d = 30 \<or> d = 31"
    and "flags AND (PARSE_ZLIB_HEADER OR COMPUTE_ADLER32) = 0" "shaped stack" "length out < 2"
  shows "tinfl_decompress_mem_to_heap realloc stack src flags = Some Heap_crash
    \<and> tinfl_decompress_mem_to_mem stack out src flags = Some Mem_crash"
proof -
  have s: "m_state (tinfl_init stack) = 0" "shaped (tinfl_init stack)" using assms(5) by (simp_all add: shaped_init)
  note c = zero_match_call [OF whole_flags_raw [OF assms(4)] s _ assms(1-3)]
  show ?thesis using c [of "[]"] c [OF assms(6)]
    by (simp add: tinfl_decompress_mem_to_heap_def tinfl_decompress_mem_to_mem_def to_heap_loop.simps)
qed

theorem zero_length_match_writes_witness:
  "tinfl_decompress_mem_to_heap sample_realloc sample_stack [0x1B, 0x7B] 0 = Some Heap_crash"
proof -
  have "huff_bits fixed_lengths 286 = [True, True, False, False, False, True, True, False]"
    "huff_bits fixed_dist_lengths 30 = [True, True, True, True, False]"
    by (simp_all add: huff_bits_def fixed_code fixed_dist_code number_bits_def upt_rec bit_iff_odd)
  then have z: "zero_match 286 30 = [True, True, False] @ [True, True, False, False, False, True, True, False] @ [True, True, True, True, False]"
    by (simp only: zero_match_def)
  have "starts [0x1B, 0x7B] (zero_match 286 30)" unfolding z starts_def by code_simp
  from zero_length_match_writes [OF this _ _ _ shaped_sample, of 0 "[]" sample_realloc] show ?thesis by simp
qed

end
