(* ===== verification/Zip_Extracted.thy ===== *)
theory Zip_Extracted
  imports Zip_Archive Zip_Extract Inflate_Fault
begin

text \<open>
  What extracting a file of an archive gives: the composition of the archive reader with the inflater, on an archive in
  memory and on one that is read through a callback.
\<close>

subsection \<open>Running an extraction\<close>

lemma run_asking: "m E z = (Inr x, z') \<Longrightarrow> asking m f E z = f x E z"
  by (simp add: asking_def)

lemma run_asking_some: "access (Some v) E z = (Inr v, z)"
  by (simp add: access_def run_retM)

text \<open>
  File \<open>i\<close> is in the archive with the entry \<open>st\<close>, and its data is \<open>data\<close>: where the local header says, the archive has
  as many bytes as the entry says.
\<close>

definition file_data :: "zenv \<Rightarrow> mz_zip_archive \<Rightarrow> 32 word \<Rightarrow> mz_zip_archive_file_stat \<Rightarrow> bytes \<Rightarrow> bool" where
  "file_data E z i st data \<longleftrightarrow> mz_zip_reader_file_stat i E z = (Inr (Some st), z) \<and> length data = unat (m_comp_size st)
     \<and> (\<exists>cur. local_data st E z = (Inr cur, z) \<and> pRead cur (unat (m_comp_size st)) E z = (Inr data, z)
       \<and> (\<exists>mem. archive_mem E z = (Inr mem, z) \<and> (\<forall>m. mem = Some m \<longrightarrow> memcpy_from (at m) (unat cur) (unat (m_comp_size st)) = Some data)))"

text \<open>The file holds \<open>W\<close>: it is stored, or it is a well-formed stream that means \<open>W\<close>.\<close>

definition holds :: "mz_zip_archive_file_stat \<Rightarrow> bytes \<Rightarrow> bytes \<Rightarrow> bool" where
  "holds st data W \<longleftrightarrow> m_method st = 0 \<and> W = data \<and> m_uncomp_size st = m_comp_size st
     \<or> m_method st = 8 \<and> (\<exists>bl. bl \<noteq> [] \<and> blocks_ok [] bl \<and> starts data (stream_bits 0 bl) \<and> W = expand bl [])"

lemma raw_mem_call: "raw_call (NON_WRAPPING_OUTPUT_BUF OR 0)"
  by (simp add: raw_call_def)

lemma put_list_here: "length b \<le> length buf \<Longrightarrow> put_list buf 0 b = Some (b @ drop (length b) buf)"
  by (simp add: put_list_def)

lemma inflate_one_call:
  assumes "bl \<noteq> []" "blocks_ok [] bl" "starts data (stream_bits 0 bl)" "length (expand bl []) \<le> length out"
    "length out < 2 ^ 64" "shaped stack"
  shows "\<exists>r n. tinfl_decompress (tinfl_init stack) data out 0 (NON_WRAPPING_OUTPUT_BUF OR 0)
    = Some (Returned TINFL_STATUS_DONE r n (expand bl [] @ drop (length (expand bl [])) out) (length (expand bl [])))"
proof -
  have s: "m_state (tinfl_init stack) = 0" "shaped (tinfl_init stack)" using assms(6) by (simp_all add: shaped_init)
  from first_call [OF raw_mem_call s assms(5,1-3)] assms(4) show ?thesis
    by (auto simp: call_done_def call_more_def)
qed

text \<open>The data is read at once: it is in memory, or it fits into the read buffer.\<close>

lemma loop_at_once:
  assumes d: "tinfl_decompress r data out 0 (NON_WRAPPING_OUTPUT_BUF OR 0) = Some (Returned TINFL_STATUS_DONE r' n out' k)"
    and f: "fill_again in_mem sz src E z = (Inr (Some (data, cur, 0)), z')"
  shows "inflate_to_mem_loop in_mem sz r src out 0 E z = Some (Inr (TINFL_STATUS_DONE, out'))"
  using d f by (subst inflate_to_mem_loop.simps) simp

lemma extract_to_mem_run:
  assumes f: "file_data E z i st data" and h: "holds st data W" and W: "length W \<le> unat (m_uncomp_size st)"
    and c: "m_comp_size st \<noteq> 0" "m_bit_flag st AND (1 OR 32) = 0" "flags AND 0x0400 = 0"
    and once: "m_comp_size st \<le> 0x10000 \<and> zmalloc E (unat (m_comp_size st)) \<or> (\<exists>m. archive_mem E z = (Inr (Some m), z))"
    and b: "unat (m_uncomp_size st) \<le> length b" "shaped stack"
  shows "mz_zip_reader_extract_to_mem stack i (Some b) (length b) flags E z = Some (Inr (True, Some (W @ drop (length W) b)))"
proof -
  from f obtain cur mem where st: "mz_zip_reader_file_stat i E z = (Inr (Some st), z)" "length data = unat (m_comp_size st)"
      "local_data st E z = (Inr cur, z)" "pRead cur (unat (m_comp_size st)) E z = (Inr data, z)" "archive_mem E z = (Inr mem, z)"
      "\<And>m. mem = Some m \<Longrightarrow> memcpy_from (at m) (unat cur) (unat (m_comp_size st)) = Some data"
    unfolding file_data_def by blast
  have m: "\<not> refused False st" using c(2) h by (auto simp: refused_def holds_def)
  show ?thesis
  proof (cases "m_method st = 0")
    case True
    then have u: "m_uncomp_size st = m_comp_size st" "W = data" using h by (auto simp: holds_def)
    have "put_list b 0 data = Some (data @ drop (length data) b)" using st(2) u(1) b(1) by (intro put_list_here) simp
    then show ?thesis using st(1-4) c m True u b(1)
      by (simp add: mz_zip_reader_extract_to_mem_def mz_zip_reader_extract_to_mem_no_alloc_def run_asking Let_def run_asking_some
        giving_def or_else_def)
  next
    case False
    then obtain bl where bl: "bl \<noteq> []" "blocks_ok [] bl" "starts data (stream_bits 0 bl)" "W = expand bl []"
      using h by (auto simp: holds_def)
    let ?out = "take (unat (m_uncomp_size st)) b"
    have l: "length ?out = unat (m_uncomp_size st)" using b(1) by simp
    have "length ?out < 2 ^ 64" using unsigned_less [of "m_uncomp_size st"] l by simp
    moreover have "length (expand bl []) \<le> length ?out" using W l bl(4) by simp
    ultimately obtain r n where
      r: "tinfl_decompress (tinfl_init stack) data ?out 0 (NON_WRAPPING_OUTPUT_BUF OR 0)
        = Some (Returned TINFL_STATUS_DONE r n (W @ drop (length W) ?out) (length W))"
      using inflate_one_call [OF bl(1-3) _ _ b(2)] bl(4) by blast
    have o: "\<exists>sz src. open_source mem None st cur E z = (Inr (sz, src), z) \<and> (\<exists>c'. fill_again (mem \<noteq> None) sz src E z = (Inr (Some (data, c', 0)), z))"
    proof (cases mem)
      case (Some m)
      have "data \<noteq> []" using st(2) c(1) by (auto simp: unat_eq_0)
      then show ?thesis using Some st(6) [OF Some]
        by (simp add: open_source_def run_bindM run_asking_some run_retM fill_again_def)
    next
      case None
      then have "m_comp_size st \<le> 0x10000" "zmalloc E (unat (m_comp_size st))" using once st(5) by auto
      moreover from this have "min (m_comp_size st) (64 * 1024) = m_comp_size st" by simp
      ultimately show ?thesis using None st(2,4)
        by (simp add: open_source_def run_bindM run_askM run_retM fill_again_def Let_def)
    qed
    then obtain sz src c' where o: "open_source mem None st cur E z = (Inr (sz, src), z)"
      "fill_again (mem \<noteq> None) sz src E z = (Inr (Some (data, c', 0)), z)" by blast
    have e: "(W @ drop (length W) ?out) @ drop (unat (m_uncomp_size st)) b = W @ drop (length W) b"
      using W b(1) by (simp add: drop_take) (metis append_take_drop_id drop_drop le_add_diff_inverse2 add.commute)
    show ?thesis using st(1,3,5) c m False o(1) b(1) loop_at_once [OF r o(2)] e
      by (simp add: mz_zip_reader_extract_to_mem_def mz_zip_reader_extract_to_mem_no_alloc_def run_asking Let_def giving_def or_else_def)
  qed
qed

text \<open>The sizes \<^verbatim>\<open>mz_zip_reader_extract_to_heap\<close> reads are those of the entry.\<close>

lemma file_stat_entry:
  assumes "zip_ok d offs z" "mz_zip_reader_file_stat i E z = (Inr (Some st), z)"
  shows "\<exists>p. mz_zip_reader_get_cdh i E z = (Inr (Some p), z)
    \<and> (\<exists>c. cd32 (p + 20) E z = (Inr c, z) \<and> m_comp_size st = ucast c) \<and> (\<exists>u. cd32 (p + 24) E z = (Inr u, z) \<and> m_uncomp_size st = ucast u)"
proof (cases "unat i < length offs")
  case True
  let ?p = "unat (offs ! unat i)"
  have r: "record_at d ?p" by (rule zip_record [OF assms(1) True])
  have "m_comp_size st = ucast (le32 d (?p + 20)) \<and> m_uncomp_size st = ucast (le32 d (?p + 24))"
    using assms(2) r True
    by (auto simp: mz_zip_reader_file_stat_def mz_zip_dos_to_time_t_def run_with_cdh [OF assms(1)]
        run_bindM run_retM run_askM run_getM run_cd16 [OF assms(1)] run_cd32 [OF assms(1)] run_cd_copy [OF assms(1)] record_at_def)
  moreover have "cd32 (?p + 20) E z = (Inr (le32 d (?p + 20)), z)" "cd32 (?p + 24) E z = (Inr (le32 d (?p + 24)), z)"
    using r by (auto simp: record_at_def intro!: run_cd32 [OF assms(1)])
  ultimately show ?thesis using True by (auto simp: run_get_cdh [OF assms(1)])
next
  case False
  then show ?thesis using assms by (simp add: mz_zip_reader_file_stat_def run_with_cdh [OF assms(1)])
qed

lemma extract_to_heap_run:
  assumes z: "zip_ok d offs z" and f: "file_data E z i st data" and h: "holds st data W" and W: "length W \<le> unat (m_uncomp_size st)"
    and c: "m_comp_size st \<noteq> 0" "m_bit_flag st AND (1 OR 32) = 0" "flags AND 0x0400 = 0"
    and once: "m_comp_size st \<le> 0x10000" "\<And>n. zmalloc E n" and w: "size_t_64 E"
    and b: "\<And>n. length (fresh n) = n" "shaped stack"
  shows "mz_zip_reader_extract_to_heap fresh stack i flags E z
    = Some (Inr (Some (W @ drop (length W) (fresh (unat (m_uncomp_size st)))), unat (m_uncomp_size st)))"
proof -
  have "mz_zip_reader_file_stat i E z = (Inr (Some st), z)" using f by (simp add: file_data_def)
  from file_stat_entry [OF z this] obtain p c' u where p: "mz_zip_reader_get_cdh i E z = (Inr (Some p), z)"
    "cd32 (p + 20) E z = (Inr c', z)" "cd32 (p + 24) E z = (Inr u, z)" "m_uncomp_size st = ucast u" by blast
  have u: "unat (m_uncomp_size st) = unat u" using p(4) unsigned_less [of u, where ?'a = nat] by (simp add: unsigned_ucast_eq take_bit_nat_eq_self)
  have "mz_zip_reader_extract_to_mem stack i (Some (fresh (unat u))) (unat u) flags E z
      = Some (Inr (True, Some (W @ drop (length W) (fresh (unat u)))))"
    using extract_to_mem_run [OF f h W c _ _ b(2), of "fresh (unat u)"] once b(1) u by simp
  then show ?thesis using p(1-3) c(3) w once(2) u
    by (simp add: mz_zip_reader_extract_to_heap_def run_asking run_askM Let_def or_else_def)
qed

lemma pRead_same: "snd (pRead ofs n E z) = z"
  by (simp add: pRead_def access_def run_retM run_failM split: option.split read_func.split)

lemma local_data_same: "snd (local_data st E z) = z"
  using pRead_same [of "m_local_header_ofs st" 30 E z]
  by (auto simp: local_data_def read_exactly_def access_def run_bindM run_getM run_retM run_failM Let_def
      split: option.split prod.split sum.split)

subsection \<open>An archive with one file\<close>

text \<open>The stream \<^verbatim>\<open>sample_input\<close> under the name \<^verbatim>\<open>f\<close>; the checksum is wrong, and the size is 9 instead of 7.\<close>

definition file_zip :: bytes where
  "file_zip = [0x50, 0x4b, 0x03, 0x04, 20, 0, 0, 0, 8, 0, 0, 0, 0, 0, 1, 2, 3, 4, 11, 0, 0, 0, 9, 0, 0, 0, 1, 0, 0, 0, 102]
     @ sample_input
     @ [0x50, 0x4b, 0x01, 0x02, 20, 0, 20, 0, 0, 0, 8, 0, 0, 0, 0, 0, 1, 2, 3, 4, 11, 0, 0, 0, 9, 0, 0, 0,
        1, 0, 0, 0, 0, 0, 0, 0, 0, 0, 0, 0, 0, 0, 0, 0, 0, 0, 102]
     @ [0x50, 0x4b, 0x05, 0x06, 0, 0, 0, 0, 1, 0, 1, 0, 47, 0, 0, 0, 42, 0, 0, 0, 0, 0]"

definition file_zip_env :: zenv where
  "file_zip_env = file_env file_zip True"

definition open_file_zip :: "(zexc + bool) \<times> mz_zip_archive" where
  "open_file_zip = mz_zip_reader_init 111 0 file_zip_env no_zip"

text \<open>What the parts say of the file.\<close>

definition sample_parts :: "zenv \<Rightarrow> zexc + bool \<Rightarrow> mz_zip_archive \<Rightarrow> bool" where
  "sample_parts E r z \<longleftrightarrow> r = Inr True \<and> map_option m_pMem (m_pState z) = Some None
    \<and> (case fst (mz_zip_reader_file_stat 0 E z) of Inr (Some st) \<Rightarrow>
        Some (m_comp_size st, m_uncomp_size st, m_bit_flag st, m_method st, fst (local_data st E z))
      | _ \<Rightarrow> None) = Some (11, 9, 0, 8, Inr 31)
    \<and> fst (pRead 31 11 E z) = Inr sample_input"

lemma sample_file:
  assumes ok: "zip_ok d offs z" and p: "sample_parts E (Inr True) z"
  shows "\<exists>st. file_data E z 0 st sample_input \<and> holds st sample_input [72, 105, 97, 97, 97, 97, 97]
    \<and> m_comp_size st = 11 \<and> m_uncomp_size st = 9 \<and> m_bit_flag st = 0"
proof -
  have z: "map_option m_pMem (m_pState z) = Some None" "fst (pRead 31 11 E z) = Inr sample_input"
    using p by (simp_all add: sample_parts_def)
  obtain st where st: "fst (mz_zip_reader_file_stat 0 E z) = Inr (Some st)" "m_comp_size st = 11" "m_uncomp_size st = 9"
    "m_bit_flag st = 0" "m_method st = 8" "fst (local_data st E z) = Inr 31"
    using p by (auto simp: sample_parts_def split: sum.split_asm option.split_asm)
  have s: "mz_zip_reader_file_stat 0 E z = (Inr (Some st), z)"
    using st(1) answers_queries [OF ok, of 0 E] by (auto simp: answers_def prod_eq_iff)
  have "local_data st E z = (Inr 31, z)" "pRead 31 11 E z = (Inr sample_input, z)"
    using st(6) z(2) local_data_same pRead_same by (metis prod.collapse)+
  moreover have "archive_mem E z = (Inr None, z)" using z(1) by (auto simp: archive_mem_def run_bindM run_pState run_retM)
  moreover have "length sample_input = 11" by (simp add: sample_input_def)
  ultimately have "file_data E z 0 st sample_input" using s st(2) by (simp add: file_data_def)
  moreover have "holds st sample_input [72, 105, 97, 97, 97, 97, 97]"
    using st(5) sample_ok sample_starts expand_sample unfolding holds_def sample_blocks_def by (metis list.distinct(1))
  ultimately show ?thesis using st(2-4) by blast
qed

lemma file_zip_parts: "case open_file_zip of (r, z) \<Rightarrow> sample_parts file_zip_env r z"
  by code_simp

text \<open>
  Extraction gives the files of an archive.  From an archive opened with the read callback,
  \<^verbatim>\<open>mz_zip_reader_extract_to_heap\<close> gives for a file that is stored, or compressed to a well-formed stream of at most
  65536 bytes, exactly its content, in a block of the size the directory says.  Neither the checksum of the directory nor
  the size are compared with what was decompressed: when the stream means fewer bytes the rest of the block is what the
  allocator left there.
\<close>

lemma extract_gives_file:
  assumes "closed z0" "m_pRead z0 \<noteq> Some Read_mem" "mz_zip_reader_init sz fl E z0 = (Inr True, z)"
    and "file_data E z i st data" "holds st data W" "length W \<le> unat (m_uncomp_size st)"
    and "m_comp_size st \<noteq> 0" "m_comp_size st \<le> 0x10000" "m_bit_flag st AND (1 OR 32) = 0" "flags AND 0x0400 = 0"
    and "\<forall>n. zmalloc E n" "size_t_64 E" "\<forall>n. length (fresh n) = n" "shaped stack"
  shows "mz_zip_reader_extract_to_heap fresh stack i flags E z
    = Some (Inr (Some (W @ drop (length W) (fresh (unat (m_uncomp_size st)))), unat (m_uncomp_size st)))"
proof -
  from init_spec [OF assms(1,2), of sz fl E] assms(3) obtain d offs where z: "zip_ok d offs z" by (auto simp: ready_def)
  show ?thesis by (rule extract_to_heap_run [OF z assms(4-7,9,10,8) _ assms(12) _ assms(14)]) (use assms(11,13) in auto)
qed

theorem extract_gives_file_witness:
  "mz_zip_reader_extract_to_heap (\<lambda>n. replicate n 0xCC) sample_stack 0 0 file_zip_env (snd open_file_zip)
    = Some (Inr (Some [72, 105, 97, 97, 97, 97, 97, 0xCC, 0xCC], 9))"
proof -
  let ?E = file_zip_env
  obtain z where z: "open_file_zip = (Inr True, z)" "sample_parts ?E (Inr True) z"
    using file_zip_parts by (cases open_file_zip) (auto simp: sample_parts_def)
  have i: "mz_zip_reader_init 111 0 ?E no_zip = (Inr True, z)" using z(1) by (simp add: open_file_zip_def)
  from init_spec [OF closed_no_zip, of 111 0 ?E] i obtain d offs where "zip_ok d offs z" by (auto simp: ready_def)
  from sample_file [OF this z(2)] obtain st where f: "file_data ?E z 0 st sample_input"
    "holds st sample_input [72, 105, 97, 97, 97, 97, 97]" "m_comp_size st = 11" "m_uncomp_size st = 9" "m_bit_flag st = 0" by blast
  have "\<forall>n. zmalloc ?E n" "size_t_64 ?E" by (simp_all add: file_zip_env_def file_env_def)
  from extract_gives_file [OF closed_no_zip i f(1,2) _ _ _ _ _ this _ shaped_sample, of 0 "\<lambda>n. replicate n 0xCC"]
  moreover have "replicate 2 0xCC = [0xCC, 0xCC :: 8 word]" by (simp add: numeral_2_eq_2)
  moreover have "snd open_file_zip = z" unfolding z(1) by (rule snd_conv)
  ultimately show ?thesis using f(3-5) by simp
qed

end
