(* ===== verification/Lminiz_Safe.thy ===== *)
theory Lminiz_Safe
  imports Lminiz_Archive Zip_Extracted
begin

text \<open>
  The readers a script holds: a script that opens whatever file and calls whatever function of a reader, except the
  extraction, cannot make the C code leave its blocks.
\<close>

subsection \<open>Calls of the Lua API\<close>

text \<open>\<open>tame m\<close>: the call does not fault, and keeps the metatables, the named entries of the registry and the userdata.\<close>

definition tame :: "'a M \<Rightarrow> bool" where
  "tame m \<longleftrightarrow> (\<forall>E l. (\<forall>c. fst (m E l) \<noteq> Inl (Crash c)) \<and> umeta (snd (m E l)) = umeta l \<and> regs (snd (m E l)) = regs l
     \<and> nud (snd (m E l)) = nud l)"

named_theorems tames "calls of the Lua API that are tame"

lemma tameD:
  assumes "tame m" "m E l = (r, l')"
  shows "umeta l' = umeta l" "regs l' = regs l" "nud l' = nud l" "r \<noteq> Inl (Crash c)"
  using assms unfolding tame_def by (metis fst_conv snd_conv)+

lemma tame_bindM [tames]:
  assumes "tame m" "\<And>x. tame (f x)"
  shows "tame (bindM m f)"
  unfolding tame_def
proof (intro allI)
  fix E l
  obtain r l1 where m: "m E l = (r, l1)" by fastforce
  show "(\<forall>c. fst (bindM m f E l) \<noteq> Inl (Crash c)) \<and> umeta (snd (bindM m f E l)) = umeta l
      \<and> regs (snd (bindM m f E l)) = regs l \<and> nud (snd (bindM m f E l)) = nud l"
  proof (cases r)
    case (Inl e)
    then show ?thesis using m tameD [OF assms(1) m] by (auto simp: run_bindM)
  next
    case (Inr x)
    obtain r2 l2 where f: "f x E l1 = (r2, l2)" by fastforce
    show ?thesis using m Inr f tameD [OF assms(1) m] tameD [OF assms(2) f] by (auto simp: run_bindM)
  qed
qed

lemma tame_thenM [tames]: "tame m \<Longrightarrow> tame k \<Longrightarrow> tame (thenM m k)"
  by (simp add: thenM_def tame_bindM)

lemma tame_basic [tames]:
  "tame (retM x)" "tame (failM (LuaErr v))" "tame (askM g)" "tame (getM h)" "tame (push v)" "tame (set_slot i v)"
  "tame (uv f args)" "tame (uv_void f args)" "tame (uv_out k)" "tame (lua_pushstring p)"
  by (simp_all add: tame_def luasem set_slot_def)

lemma tame_index2addr [tames]: "0 < i \<Longrightarrow> tame (index2addr i)"
  by (simp add: tame_def luasem)

lemma tame_if [tames]: "tame a \<Longrightarrow> tame b \<Longrightarrow> tame (if c then a else b)"
  by simp

lemma tame_typeerror [tames]: "0 < i \<Longrightarrow> tame (typeerror i t)"
  by (simp add: typeerror_def lua_type_def luaL_argerror_def tames)

lemma tame_checks [tames]:
  assumes "0 < i"
  shows "tame (luaL_checkudata i t)" "tame (luaL_checkinteger i)" "tame (luaL_optinteger i d)"
    "tame (luaL_checklstring i)" "tame (luaL_checkstring i)"
proof -
  note t = tame_bindM tame_basic tame_index2addr [OF assms] tame_typeerror [OF assms]
  show "tame (luaL_checkudata i t)" unfolding luaL_checkudata_def
    by (intro t; simp split: option.split lval.split; intro allI conjI impI t; auto split: prod.split intro!: t)
  show c: "tame (luaL_checkinteger i)" unfolding luaL_checkinteger_def
    by (intro t; simp add: luaL_argerror_def split: option.split; intro allI conjI impI t)
  show "tame (luaL_optinteger i d)" unfolding luaL_optinteger_def lua_isnoneornil_def lua_type_def
    by (intro t; simp; intro conjI impI t c)
  have "tame (lua_tostring i)" unfolding lua_tostring_def
    by (intro t; simp split: option.split lval.split; intro allI conjI impI t tame_thenM)
  then show s: "tame (luaL_checklstring i)" unfolding luaL_checklstring_def
    by (intro t; simp split: option.split; intro allI conjI impI t)
  show "tame (luaL_checkstring i)" unfolding luaL_checkstring_def by (intro t s)
qed

subsection \<open>What a script keeps\<close>

text \<open>
  The metatable \<^verbatim>\<open>miniz_reader\<close> is a table, every userdata with it has been set up, and every archive is good or
  released.
\<close>

definition good_archive :: "mz_zip_archive \<Rightarrow> bool" where
  "good_archive z \<longleftrightarrow> m_pState z = None \<or> (\<exists>d offs. zip_ok d offs z)"

definition readers_ok :: "lmz \<Rightarrow> bool" where
  "readers_ok s \<longleftrightarrow> (\<exists>t. regs (lua_state s) ''miniz_reader'' = LTab t)
     \<and> (\<forall>u t. umeta (lua_state s) u = Some t \<longrightarrow> regs (lua_state s) ''miniz_reader'' = LTab t \<longrightarrow> files s u \<noteq> None)
     \<and> (\<forall>u f. files s u = Some f \<longrightarrow> good_archive (archive f))"

text \<open>
  \<open>safe E P m Q\<close>: from a state in \<open>P\<close> the call returns in \<open>Q\<close>, or raises a Lua error with the readers still good.
\<close>

definition safe :: "lmz_env \<Rightarrow> (lmz \<Rightarrow> bool) \<Rightarrow> 'a L \<Rightarrow> ('a \<Rightarrow> lmz \<Rightarrow> bool) \<Rightarrow> bool" where
  "safe E P m Q \<longleftrightarrow> (\<forall>s. P s \<longrightarrow> (case m E s of (Inr x, s') \<Rightarrow> Q x s'
     | (Inl e, s') \<Rightarrow> (\<exists>v. e = Raised (LuaErr v)) \<and> readers_ok s'))"

lemma safeI: "(\<And>s. P s \<Longrightarrow> \<exists>x s'. m E s = (Inr x, s') \<and> Q x s') \<Longrightarrow> safe E P m Q"
  by (fastforce simp: safe_def)

lemma safe_bindM:
  assumes m: "safe E P m Q" and f: "\<And>x. safe E (Q x) (f x) R"
  shows "safe E P (bindM m f) R"
  unfolding safe_def
proof (intro allI impI)
  fix s assume P: "P s"
  obtain r s1 where r: "m E s = (r, s1)" by fastforce
  show "case bindM m f E s of (Inr x, s') \<Rightarrow> R x s' | (Inl e, s') \<Rightarrow> (\<exists>v. e = Raised (LuaErr v)) \<and> readers_ok s'"
  proof (cases r)
    case (Inl e)
    then show ?thesis using m P r by (auto simp: safe_def run_bindM)
  next
    case (Inr x)
    then have "Q x s1" using m P r by (auto simp: safe_def)
    then show ?thesis using f [of x] r Inr by (simp add: safe_def run_bindM)
  qed
qed

lemma safe_thenM: "safe E P m Q \<Longrightarrow> (\<And>x. safe E (Q x) k R) \<Longrightarrow> safe E P (thenM m k) R"
  by (simp add: thenM_def safe_bindM)

lemma safe_retM: "(\<And>s. P s \<Longrightarrow> Q x s) \<Longrightarrow> safe E P (retM x) Q"
  by (simp add: safe_def luasem)

lemma safe_weaken: "safe E P m Q \<Longrightarrow> (\<And>s. P' s \<Longrightarrow> P s) \<Longrightarrow> (\<And>x s. Q x s \<Longrightarrow> Q' x s) \<Longrightarrow> safe E P' m Q'"
  unfolding safe_def by (fastforce split: prod.splits sum.splits)

text \<open>A call of the Lua API that is tame, with what it leaves alone.\<close>

lemma readers_ok_cong:
  "umeta (lua_state s') = umeta (lua_state s) \<Longrightarrow> regs (lua_state s') = regs (lua_state s) \<Longrightarrow> files s' = files s \<Longrightarrow>
   readers_ok s' = readers_ok s"
  by (simp add: readers_ok_def)

lemma safe_in_lua:
  assumes "tame m" "\<And>s. P s \<Longrightarrow> readers_ok s"
    and "\<And>s x l. P s \<Longrightarrow> m (luaE E) (lua_state s) = (Inr x, l) \<Longrightarrow> readers_ok (s\<lparr>lua_state := l\<rparr>) \<Longrightarrow> Q x (s\<lparr>lua_state := l\<rparr>)"
  shows "safe E P (in_lua m) Q"
  unfolding safe_def
proof (intro allI impI)
  fix s assume P: "P s"
  obtain r l where r: "m (luaE E) (lua_state s) = (r, l)" by fastforce
  note t = tameD [OF assms(1) r]
  have k: "readers_ok (s\<lparr>lua_state := l\<rparr>)"
    using assms(2) [OF P] by (subst readers_ok_cong [of _ s]) (simp_all add: t)
  show "case in_lua m E s of (Inr x, s') \<Rightarrow> Q x s' | (Inl e, s') \<Rightarrow> (\<exists>v. e = Raised (LuaErr v)) \<and> readers_ok s'"
  proof (cases r)
    case (Inl e)
    then obtain v where "e = LuaErr v" using t(4) by (cases e) auto
    then show ?thesis using r Inl k by (simp add: in_lua_def)
  next
    case (Inr x)
    then show ?thesis using r assms(3) [OF P _ k] by (simp add: in_lua_def)
  qed
qed

lemma safe_lua: "tame m \<Longrightarrow> safe E readers_ok (in_lua m) (\<lambda>x. readers_ok)"
  by (rule safe_in_lua) auto

text \<open>The checked userdata has been set up.\<close>

definition reader :: "nat \<Rightarrow> lmz \<Rightarrow> bool" where
  "reader u s \<longleftrightarrow> readers_ok s \<and> files s u \<noteq> None"

lemma checkudata_InrD:
  assumes "luaL_checkudata 1 k E l = (Inr u, l')"
  shows "l' = l \<and> (\<exists>t. umeta l u = Some t \<and> regs l k = LTab t)"
proof -
  have e: "luaL_checkudata 1 k E l = (case index2addr 1 E l of (Inl e, l') \<Rightarrow> (Inl e, l') | (Inr v, l') \<Rightarrow>
      (case v of Some (LUData u) \<Rightarrow> if map_option LTab (umeta l' u) = Some (regs l' k) then (Inr u, l') else typeerror 1 k E l'
       | _ \<Rightarrow> typeerror 1 k E l'))"
    by (auto simp: luaL_checkudata_def luasem split: prod.splits sum.splits option.splits lval.splits)
  have t: "typeerror 1 k E l \<noteq> (Inr u, l')" for l by (simp add: typeerror_def lua_type_def luasem)
  show ?thesis using assms t unfolding e
    by (auto simp: run_index2addr_pos split: if_splits option.splits lval.splits)
qed

lemma safe_check_zip: "safe E readers_ok (check_zip 1 ''miniz_reader'') reader"
  unfolding check_zip_def
proof (rule safe_in_lua)
  fix s x l
  assume "readers_ok s" "luaL_checkudata 1 ''miniz_reader'' (luaE E) (lua_state s) = (Inr x, l)"
  with checkudata_InrD [OF this(2)] show "reader x (s\<lparr>lua_state := l\<rparr>)"
    by (auto simp: reader_def readers_ok_def)
qed (auto intro: tame_checks)

subsection \<open>Calls on the archive\<close>

lemma with_cdh_none: "m_pState z = None \<Longrightarrow> with_cdh i d f E z = (Inr d, z)"
  by (simp add: with_cdh_def mz_zip_reader_get_cdh_def luasem)

lemma query_answers:
  assumes "good_archive z"
  shows "answers (mz_zip_reader_is_file_a_directory i) E z" "answers (mz_zip_reader_file_stat i) E z"
    "answers (mz_zip_reader_locate_file name comment fl) E z" "answers mz_zip_reader_get_num_files E z"
proof -
  have n: "answers mz_zip_reader_get_num_files E z" by (simp add: answers_def mz_zip_reader_get_num_files_def luasem)
  have "answers (mz_zip_reader_is_file_a_directory i) E z \<and> answers (mz_zip_reader_file_stat i) E z
      \<and> answers (mz_zip_reader_locate_file name comment fl) E z"
  proof (cases "m_pState z = None")
    case True
    have l: "mz_zip_reader_locate_file name comment fl E z = (Inr (-1), z)" using True by (simp add: mz_zip_reader_locate_file_def)
    show ?thesis unfolding answers_def mz_zip_reader_is_file_a_directory_def mz_zip_reader_file_stat_def
      by (intro conjI exI, rule with_cdh_none [OF True], rule with_cdh_none [OF True], rule l)
  next
    case False
    then obtain d offs where "zip_ok d offs z" using assms by (auto simp: good_archive_def)
    from answers_queries [OF this] show ?thesis by blast
  qed
  with n show "answers (mz_zip_reader_is_file_a_directory i) E z" "answers (mz_zip_reader_file_stat i) E z"
    "answers (mz_zip_reader_locate_file name comment fl) E z" "answers mz_zip_reader_get_num_files E z" by blast+
qed

lemma filename_answers:
  assumes "good_archive z" "n \<noteq> 0"
  shows "\<exists>k b. mz_zip_reader_get_filename i n E z = (Inr (k, Some b), z)"
proof (cases "m_pState z = None")
  case True
  then show ?thesis using assms(2)
    by (simp add: mz_zip_reader_get_filename_def with_cdh_def mz_zip_reader_get_cdh_def luasem)
next
  case False
  then obtain d offs where "zip_ok d offs z" using assms(1) by (auto simp: good_archive_def)
  from run_get_filename [OF this] show ?thesis using assms(2) by (auto simp: Let_def)
qed

lemma run_in_zip:
  assumes "files s u = Some f" "m (zip_env E (fd f)) (archive f) = (Inr x, z)"
  shows "in_zip u m E s = (Inr x, s\<lparr>files := (files s)(u := Some (f\<lparr>archive := z\<rparr>))\<rparr>)"
  using assms by (simp add: in_zip_def get_file_def luasem)

lemma safe_query:
  assumes "\<And>z E. good_archive z \<Longrightarrow> answers m E z"
  shows "safe E (reader u) (in_zip u m) (\<lambda>x. readers_ok)"
proof (rule safeI)
  fix s assume s: "reader u s"
  then obtain f where f: "files s u = Some f" by (auto simp: reader_def)
  have "good_archive (archive f)" using s f by (auto simp: reader_def readers_ok_def)
  then obtain x where x: "m (zip_env E (fd f)) (archive f) = (Inr x, archive f)"
    using assms [of "archive f" "zip_env E (fd f)"] by (auto simp: answers_def)
  have "s\<lparr>files := (files s)(u := Some (f\<lparr>archive := archive f\<rparr>))\<rparr> = s" using f by (simp add: fun_upd_idem)
  with run_in_zip [of s u f m E, OF f x] s show "\<exists>x s'. in_zip u m E s = (Inr x, s') \<and> readers_ok s'"
    by (auto simp: reader_def)
qed

text \<open>What a function returns is on its stack.\<close>

definition returned :: "nat \<Rightarrow> lmz \<Rightarrow> bool" where
  "returned n s \<longleftrightarrow> readers_ok s \<and> n \<le> length (stk (lua_state s))"

definition pushes :: "unit M \<Rightarrow> bool" where
  "pushes m \<longleftrightarrow> (\<forall>E l. \<exists>v tb nt. m E l = (Inr (), l\<lparr>stk := stk l @ [v], tabs := tb, ntab := nt\<rparr>))"

lemma safe_push_result:
  assumes "pushes m"
  shows "safe E readers_ok (push_result m) returned"
proof (rule safeI)
  fix s assume s: "readers_ok s"
  obtain v tb nt where m: "m (luaE E) (lua_state s) = (Inr (), (lua_state s)\<lparr>stk := stk (lua_state s) @ [v], tabs := tb, ntab := nt\<rparr>)"
    using assms unfolding pushes_def by blast
  then have "push_result m E s = (Inr 1, s\<lparr>lua_state := (lua_state s)\<lparr>stk := stk (lua_state s) @ [v], tabs := tb, ntab := nt\<rparr>\<rparr>)"
    by (simp add: push_result_def in_lua_def luasem)
  moreover have "readers_ok (s\<lparr>lua_state := (lua_state s)\<lparr>stk := stk (lua_state s) @ [v], tabs := tb, ntab := nt\<rparr>\<rparr>)"
    using s by (subst readers_ok_cong [of _ s]) simp_all
  ultimately show "\<exists>x s'. push_result m E s = (Inr x, s') \<and> returned x s'" by (simp add: returned_def)
qed

lemma pushes_push: "pushes (push v)"
  unfolding pushes_def
proof (intro allI)
  fix E and l :: lstate
  have "push v E l = (Inr (), l\<lparr>stk := stk l @ [v], tabs := tabs l, ntab := ntab l\<rparr>)"
    by (auto simp: luasem intro: lstate_eqI)
  then show "\<exists>v' tb nt. push v E l = (Inr (), l\<lparr>stk := stk l @ [v'], tabs := tb, ntab := nt\<rparr>)" by blast
qed

lemma pushes_string: "pushes (lua_pushstring p)"
  using pushes_push by (cases p) (simp_all add: lua_pushstring_def)

lemma safe_nil_message: "safe E readers_ok (nil_message msg) returned"
proof (rule safeI)
  fix s assume s: "readers_ok s"
  let ?s = "s\<lparr>lua_state := (lua_state s)\<lparr>stk := stk (lua_state s) @ [LNil, LStr msg]\<rparr>\<rparr>"
  have "readers_ok ?s" using s by (subst readers_ok_cong [of _ s]) simp_all
  then show "\<exists>x s'. nil_message msg E s = (Inr x, s') \<and> returned x s'"
    by (auto simp: nil_message_def in_lua_def luasem returned_def)
qed

text \<open>The table of a file.\<close>

definition setter :: "unit M \<Rightarrow> bool" where
  "setter m \<longleftrightarrow> (\<forall>E l base t. stk l = base @ [LTab t] \<longrightarrow> (\<exists>tb. m E l = (Inr (), l\<lparr>tabs := tb\<rparr>)))"

lemma setter_field: "setter (thenM (push v) (lua_setfield (-2) k))"
  unfolding setter_def
proof (intro allI impI)
  fix E and l :: lstate and base t assume l: "stk l = base @ [LTab t]"
  have "lua_setfield (-2) k E (l\<lparr>stk := base @ [LTab t, v]\<rparr>) = (Inr (), l\<lparr>stk := base @ [LTab t],
      tabs := (tabs l)(t := tset (tabs l t) (LStr k) v)\<rparr>)"
    by (subst run_lua_setfield) simp_all
  moreover have "l\<lparr>stk := base @ [LTab t], tabs := (tabs l)(t := tset (tabs l t) (LStr k) v)\<rparr>
      = l\<lparr>tabs := (tabs l)(t := tset (tabs l t) (LStr k) v)\<rparr>" using l by (intro lstate_eqI) simp_all
  ultimately show "\<exists>tb. thenM (push v) (lua_setfield (-2) k) E l = (Inr (), l\<lparr>tabs := tb\<rparr>)"
    using l by (auto simp: luasem)
qed

lemma setters_run:
  "list_all setter ms \<Longrightarrow> stk l = base @ [LTab t] \<Longrightarrow> \<exists>tb. seqM ms E l = (Inr (), l\<lparr>tabs := tb\<rparr>)"
proof (induction ms arbitrary: l)
  case Nil
  have "l\<lparr>tabs := tabs l\<rparr> = l" by (intro lstate_eqI) simp_all
  then show ?case by (auto simp: luasem intro: exI [of _ "tabs l"])
next
  case (Cons m ms)
  have "setter m" using Cons.prems(1) by simp
  then obtain tb where "m E l = (Inr (), l\<lparr>tabs := tb\<rparr>)" using Cons.prems(2) unfolding setter_def by blast
  moreover obtain tb2 where "seqM ms E (l\<lparr>tabs := tb\<rparr>) = (Inr (), l\<lparr>tabs := tb, tabs := tb2\<rparr>)"
    using Cons.IH [of "l\<lparr>tabs := tb\<rparr>"] Cons.prems by auto
  ultimately show ?case by (auto simp: luasem)
qed

lemma pushes_table: "list_all setter ms \<Longrightarrow> pushes (seqM (lua_newtable # ms))"
  unfolding pushes_def
proof (intro allI)
  fix E and l :: lstate assume ms: "list_all setter ms"
  let ?l = "l\<lparr>tabs := (tabs l)(ntab l := []), ntab := Suc (ntab l), stk := stk l @ [LTab (ntab l)]\<rparr>"
  obtain tb where "seqM ms E ?l = (Inr (), ?l\<lparr>tabs := tb\<rparr>)" using setters_run [OF ms, of ?l "stk l" "ntab l" E] by auto
  moreover have "?l\<lparr>tabs := tb\<rparr> = l\<lparr>stk := stk l @ [LTab (ntab l)], tabs := tb, ntab := Suc (ntab l)\<rparr>"
    by (intro lstate_eqI) simp_all
  ultimately show "\<exists>v tb nt. seqM (lua_newtable # ms) E l = (Inr (), l\<lparr>stk := stk l @ [v], tabs := tb, ntab := nt\<rparr>)"
    by (auto simp: luasem)
qed

subsection \<open>The functions\<close>

lemmas safe_calls = safe_lua [OF tame_checks(2)] safe_lua [OF tame_checks(3)] safe_lua [OF tame_checks(5)]

lemma safe_reader_bindM:
  assumes "safe E (reader u) m (\<lambda>x. reader u)" "\<And>x. safe E (reader u) (f x) Q"
  shows "safe E (reader u) (bindM m f) Q"
  by (rule safe_bindM [OF assms])

lemma safe_reader_lua: "tame m \<Longrightarrow> safe E (reader u) (in_lua m) (\<lambda>x. reader u)"
  by (rule safe_in_lua) (auto simp: reader_def)

lemma safe_check_index: "safe E (reader u) (check_index 2) (\<lambda>x. reader u)"
  unfolding check_index_def by (rule safe_bindM, rule safe_reader_lua, simp add: tame_checks, rule safe_retM)

lemma safe_opt_flags: "0 < i \<Longrightarrow> safe E (reader u) (opt_flags i) (\<lambda>x. reader u)"
  unfolding opt_flags_def by (rule safe_bindM, rule safe_reader_lua, simp add: tame_checks, rule safe_retM)

lemma safe_invalid_index: "safe E readers_ok (invalid_index i) returned"
  unfolding invalid_index_def
  by (rule safe_bindM, rule safe_lua, rule tame_basic, rule safe_nil_message)

lemma safe_if: "safe E P a Q \<Longrightarrow> safe E P b Q \<Longrightarrow> safe E P (if c then a else b) Q"
  by simp

lemma safe_num_files: "safe E readers_ok lmz_reader_get_num_files returned"
  unfolding lmz_reader_get_num_files_def
  by (rule safe_bindM [OF safe_check_zip], rule safe_bindM, rule safe_query, rule query_answers, assumption,
      rule safe_push_result, rule pushes_push)

lemma safe_is_directory: "safe E readers_ok lmz_reader_is_file_a_directory returned"
  unfolding lmz_reader_is_file_a_directory_def
  by (rule safe_bindM [OF safe_check_zip], rule safe_bindM [OF safe_check_index], rule safe_bindM, rule safe_query,
      rule query_answers, assumption, rule safe_push_result, rule pushes_push)

lemma safe_locate_file: "safe E readers_ok lmz_reader_locate_file returned"
  unfolding lmz_reader_locate_file_def
  by (rule safe_bindM [OF safe_check_zip], rule safe_bindM, rule safe_reader_lua, rule tame_checks, simp,
      rule safe_bindM [OF safe_opt_flags], simp, rule safe_bindM, rule safe_query, rule query_answers, assumption,
      rule safe_if, rule safe_nil_message, rule safe_push_result, rule pushes_push)

lemma safe_stat: "safe E readers_ok lmz_reader_stat returned"
proof -
  have "safe E readers_ok (case st of None \<Rightarrow> invalid_index i | Some stat \<Rightarrow> push_result (seqM
        [lua_newtable,
         set_int ''index'' (uint i),
         set_int ''version_made_by'' (uint (m_version_made_by stat)),
         set_int ''version_needed'' (uint (m_version_needed stat)),
         set_int ''bit_flag'' (uint (m_bit_flag stat)),
         set_int ''method'' (uint (m_method stat)),
         set_int ''time'' (m_time stat),
         set_int ''crc32'' (uint (m_crc32 stat)),
         set_int ''comp_size'' (uint (m_comp_size stat)),
         set_int ''uncomp_size'' (uint (m_uncomp_size stat)),
         set_int ''internal_attr'' (uint (m_internal_attr stat)),
         set_int ''external_attr'' (uint (m_external_attr stat)),
         set_text ''filename'' (m_filename stat),
         set_text ''comment'' (m_comment stat)])) returned" for st i
    by (cases st) (auto simp: set_int_def set_text_def lua_pushstring_def setter_field simp del: seqM.simps
        intro!: safe_invalid_index safe_push_result pushes_table)
  then show ?thesis unfolding lmz_reader_stat_def
    by (intro safe_bindM [OF safe_check_zip] safe_bindM [OF safe_check_index] safe_bindM [OF safe_query] query_answers)
qed

lemma safe_get_filename:
  assumes "of_int (cpp (luaE E) ''PATH_MAX'') \<noteq> (0 :: 32 word)"
  shows "safe E readers_ok lmz_reader_get_filename returned"
proof -
  let ?n = "of_int (cpp (luaE E) ''PATH_MAX'') :: 32 word"
  have max: "safe E (reader u) (in_lua (askM (\<lambda>E. cpp E ''PATH_MAX'')))
      (\<lambda>m s. reader u s \<and> m = cpp (luaE E) ''PATH_MAX'')" for u
    by (rule safeI) (simp add: in_lua_def luasem)
  have name: "safe E (\<lambda>s. reader u s \<and> m = cpp (luaE E) ''PATH_MAX'')
      (in_zip u (mz_zip_reader_get_filename i (of_int m))) (\<lambda>r s. readers_ok s \<and> snd r \<noteq> None)" for u i m
  proof (rule safeI)
    fix s assume s: "reader u s \<and> m = cpp (luaE E) ''PATH_MAX''"
    then obtain f where f: "files s u = Some f" by (auto simp: reader_def)
    have "good_archive (archive f)" using s f by (auto simp: reader_def readers_ok_def)
    from filename_answers [OF this assms] obtain k b where
      b: "mz_zip_reader_get_filename i ?n (zip_env E (fd f)) (archive f) = (Inr (k, Some b), archive f)" by blast
    have "s\<lparr>files := (files s)(u := Some (f\<lparr>archive := archive f\<rparr>))\<rparr> = s" using f by (simp add: fun_upd_idem)
    then have "in_zip u (mz_zip_reader_get_filename i ?n) E s = (Inr (k, Some b), s)"
      using run_in_zip [where m = "mz_zip_reader_get_filename i ?n", OF f b] by simp
    then show "\<exists>x s'. in_zip u (mz_zip_reader_get_filename i (of_int m)) E s = (Inr x, s') \<and> readers_ok s' \<and> snd x \<noteq> None"
      using s by (auto simp: reader_def)
  qed
  have push: "safe E (\<lambda>s. readers_ok s \<and> snd r \<noteq> None) (case r of (n, name) \<Rightarrow> if n = 0 then invalid_index i
     else (case name of None \<Rightarrow> lcrash Uninitialised | Some b \<Rightarrow> push_result (lua_pushstring (Some (chars b))))) returned" for r i
    using safe_invalid_index safe_push_result [OF pushes_string]
    by (cases r; cases "snd r") (auto simp: safe_def)
  show ?thesis unfolding lmz_reader_get_filename_def
    by (intro safe_bindM [OF safe_check_zip] safe_bindM [OF safe_check_index] safe_bindM [OF max] safe_bindM [OF name] push)
qed

lemma safe_get_offset: "safe E readers_ok lmz_reader_get_offset returned"
proof -
  have "safe E (reader u) (get_file u) (\<lambda>f. readers_ok)" for u
    by (rule safeI) (auto simp: get_file_def reader_def luasem)
  then show ?thesis unfolding lmz_reader_get_offset_def
    by (intro safe_bindM [OF safe_check_zip]) (rule safe_bindM, assumption, rule safe_push_result, rule pushes_push)
qed

text \<open>Closing leaves the archive released.\<close>

lemma good_end: "good_archive z \<Longrightarrow> \<exists>x z'. mz_zip_reader_end E z = (Inr x, z') \<and> good_archive z'"
  by (auto simp: mz_zip_reader_end_def good_archive_def)

lemma readers_ok_upd:
  "readers_ok s \<Longrightarrow> good_archive z \<Longrightarrow> readers_ok (s\<lparr>files := (files s)(u := Some \<lparr>archive = z, fd = n\<rparr>)\<rparr>)"
  by (auto simp: readers_ok_def)

lemma safe_gc: "safe E readers_ok lmz_reader_gc returned"
proof -
  have get: "safe E (reader u) (get_file u) (\<lambda>f. reader u)" for u
    by (rule safeI) (auto simp: get_file_def reader_def luasem)
  have close: "safe E (reader u) (in_zip u mz_zip_reader_end) (\<lambda>x. readers_ok)" for u
  proof (rule safeI)
    fix s assume s: "reader u s"
    then obtain f where f: "files s u = Some f" by (auto simp: reader_def)
    then have "good_archive (archive f)" using s by (auto simp: reader_def readers_ok_def)
    from good_end [OF this] obtain x z where z: "mz_zip_reader_end (zip_env E (fd f)) (archive f) = (Inr x, z)" "good_archive z"
      by blast
    have "readers_ok (s\<lparr>files := (files s)(u := Some (f\<lparr>archive := z\<rparr>))\<rparr>)"
      using s z(2) readers_ok_upd [of s z u "fd f"] by (cases f) (simp add: reader_def)
    then show "\<exists>x s'. in_zip u mz_zip_reader_end E s = (Inr x, s') \<and> readers_ok s'"
      using run_in_zip [where m = mz_zip_reader_end, OF f z(1)] by blast
  qed
  show ?thesis unfolding lmz_reader_gc_def
    by (rule safe_bindM [OF safe_check_zip], rule safe_bindM [OF get], rule safe_thenM, rule safe_reader_lua, rule tame_basic,
        rule safe_thenM, rule safe_reader_lua, rule tame_basic, rule safe_bindM [OF close], rule safe_retM,
        simp add: returned_def)
qed

text \<open>Opening, also of what is no archive.\<close>

lemma run_setmetatable:
  assumes "stk l = base @ [LUData u, LTab t]"
  shows "lua_setmetatable (-2) E l = (Inr (), l\<lparr>stk := base @ [LUData u], umeta := (umeta l)(u := Some t)\<rparr>)"
proof -
  have "index2addr (-2) E l = (Inr (Some (LUData u)), l)"
    by (rule run_index2addr_neg [of _ base _ "[LTab t]"]) (use assms in simp_all)
  then show ?thesis using assms by (simp add: lua_setmetatable_def luasem butlast_append)
qed

lemma open_archive_run:
  assumes s: "readers_ok s"
  shows "\<exists>ok z f s'. open_archive path flags E s = (Inr (nud (lua_state s), ok), s') \<and> readers_ok s'
    \<and> stk (lua_state s') = stk (lua_state s) @ [LUData (nud (lua_state s))]
    \<and> files s' (nud (lua_state s)) = Some \<lparr>archive = z, fd = f\<rparr>
    \<and> (\<exists>log. mz_zip_reader_init (of_int (uv_int (luaE E) log 0)) flags (zip_env E f) new_archive = (Inr ok, z))
    \<and> (\<exists>t. umeta (lua_state s') (nud (lua_state s)) = Some t \<and> regs (lua_state s') ''miniz_reader'' = LTab t)"
proof -
  let ?l = "lua_state s"
  let ?u = "nud ?l"
  obtain t where t: "regs ?l ''miniz_reader'' = LTab t" using s by (auto simp: readers_ok_def)
  let ?open = "(''uv_fs_open'', [AObj ?u, AStr path, AInt (cpp (luaE E) ''O_RDONLY''), AInt 420, ANull])"
  let ?fd = "uv_ret (luaE E) (?open # uvlog ?l)"
  let ?log = "(''uv_fs_fstat'', [AObj ?u, AInt ?fd, ANull]) # ?open # uvlog ?l"
  let ?l1 = "?l\<lparr>nud := Suc ?u, hnds := (hnds ?l)(?u := None), rqs := (rqs ?l)(?u := None), stk := stk ?l @ [LUData ?u],
      umeta := (umeta ?l)(?u := Some t), uvlog := ?log\<rparr>"
  let ?s1 = "s\<lparr>lua_state := ?l1, files := (files s)(?u := Some \<lparr>archive = new_archive, fd = ?fd\<rparr>)\<rparr>"
  have n: "closed new_archive" "m_pRead new_archive \<noteq> Some Read_mem" by (simp_all add: closed_def new_archive_def)
  let ?size = "of_int (uv_int (luaE E) ?log 0) :: 64 word"
  from init_spec [OF n, of ?size flags "zip_env E ?fd"] obtain ok z where
    z: "mz_zip_reader_init ?size flags (zip_env E ?fd) new_archive = (Inr ok, z)" "if ok then ready flags z else m_pState z = None"
    by blast
  have g: "good_archive z" using z(2) by (auto simp: good_archive_def ready_def split: if_splits)
  let ?s2 = "?s1\<lparr>files := (files ?s1)(?u := Some \<lparr>archive = z, fd = ?fd\<rparr>)\<rparr>"
  have i: "in_zip ?u (mz_zip_reader_init ?size flags) E ?s1 = (Inr ok, ?s2)"
    using run_in_zip [where m = "mz_zip_reader_init ?size flags" and s = ?s1 and u = ?u
        and f = "\<lparr>archive = new_archive, fd = ?fd\<rparr>"] z(1) by simp
  have "open_archive path flags E s = (Inr (?u, ok), ?s2)"
    using i by (simp add: open_archive_def in_lua_def luasem t run_setmetatable [where base = "stk ?l" and u = ?u and t = t])
  moreover have "readers_ok ?s2" using s g t by (auto simp: readers_ok_def)
  moreover have "stk (lua_state ?s2) = stk ?l @ [LUData ?u]" "files ?s2 ?u = Some \<lparr>archive = z, fd = ?fd\<rparr>"
    "umeta (lua_state ?s2) ?u = Some t" "regs (lua_state ?s2) ''miniz_reader'' = LTab t" using t by simp_all
  ultimately show ?thesis using z(1) by blast
qed

lemma safe_open_archive: "safe E readers_ok (open_archive path flags) (\<lambda>r s. readers_ok s \<and> stk (lua_state s) \<noteq> [])"
proof (rule safeI)
  fix s assume "readers_ok s"
  from open_archive_run [OF this, of path flags E]
  show "\<exists>x s'. open_archive path flags E s = (Inr x, s') \<and> readers_ok s' \<and> stk (lua_state s') \<noteq> []" by fastforce
qed

lemma safe_init: "safe E readers_ok lmz_reader_init returned"
proof -
  have flags: "safe E readers_ok (opt_flags 2) (\<lambda>x. readers_ok)"
    unfolding opt_flags_def by (rule safe_bindM, rule safe_lua, simp add: tame_checks, rule safe_retM)
  have ret: "safe E (\<lambda>s. readers_ok s \<and> stk (lua_state s) \<noteq> []) (if \<not> ok then nil_message msg else retM 1) returned" for ok msg
    using safe_nil_message [of E msg] by (auto simp: safe_def luasem returned_def Suc_le_eq)
  show ?thesis unfolding lmz_reader_init_def
  proof (rule safe_bindM)
    show "safe E readers_ok (in_lua (luaL_checkstring 1)) (\<lambda>x. readers_ok)" by (rule safe_lua, rule tame_checks, simp)
  next
    fix path
    show "safe E readers_ok (bindM (opt_flags 2) (\<lambda>flags. bindM (open_archive path flags) (\<lambda>(u, ok).
        if \<not> ok then nil_message (path @ '' does not appear to be a zip file'') else retM 1))) returned"
    proof (rule safe_bindM [OF flags], rule safe_bindM [OF safe_open_archive])
      fix r :: "nat \<times> bool"
      show "safe E (\<lambda>s. readers_ok s \<and> stk (lua_state s) \<noteq> []) (case r of (u, ok) \<Rightarrow>
          if \<not> ok then nil_message (path @ '' does not appear to be a zip file'') else retM 1) returned"
        using ret by (cases r) simp
    qed
  qed
qed

definition reader_functions :: "nat L list" where
  "reader_functions = [lmz_reader_init, lmz_reader_gc, lmz_reader_get_num_files, lmz_reader_locate_file, lmz_reader_stat,
     lmz_reader_get_filename, lmz_reader_is_file_a_directory, lmz_reader_get_offset]"

lemma safe_functions:
  assumes "of_int (cpp (luaE E) ''PATH_MAX'') \<noteq> (0 :: 32 word)" "m \<in> set reader_functions"
  shows "safe E readers_ok m returned"
  using assms(2) safe_get_filename [OF assms(1)]
  by (auto simp: reader_functions_def intro: safe_init safe_gc safe_num_files safe_locate_file safe_stat safe_is_directory safe_get_offset)

text \<open>
  C22. A script cannot make the readers of archives misbehave, whatever the files hold and whatever it passes.  When it
  calls one of the functions of a reader with any arguments, in a state where the archives of its readers are good
  or released, the function returns or raises a Lua error: it never leaves a block of memory.  Afterwards the
  archives are again good or released, also the one that could not be opened and the one that was closed.
\<close>

theorem reader_functions_safe:
  assumes "readers_ok s" "m \<in> set reader_functions" "of_int (cpp (luaE E) ''PATH_MAX'') \<noteq> (0 :: 32 word)"
    and "lmz_call m args E s = (r, s')"
  shows "readers_ok s' \<and> ((\<exists>vs. r = Inr vs) \<or> (\<exists>v. r = Inl (Raised (LuaErr v))))"
proof -
  let ?s = "s\<lparr>lua_state := (lua_state s)\<lparr>stk := args\<rparr>\<rparr>"
  have ok: "readers_ok ?s" using assms(1) by (subst readers_ok_cong [of _ s]) simp_all
  obtain x s1 where x: "m E ?s = (x, s1)" by fastforce
  have st: "readers_ok (s1\<lparr>lua_state := (lua_state s1)\<lparr>stk := st\<rparr>\<rparr>) = readers_ok s1" for st
    by (rule readers_ok_cong) simp_all
  from safe_functions [OF assms(3,2)] ok x have "case x of Inr n \<Rightarrow> returned n s1 | Inl e \<Rightarrow> (\<exists>v. e = Raised (LuaErr v)) \<and> readers_ok s1"
    by (fastforce simp: safe_def split: sum.splits)
  then show ?thesis using assms(4) x st
    by (auto simp: lmz_call_def Let_def returned_def split: sum.splits)
qed

text \<open>A script that holds an open archive of two files, in a world where every other file is one byte.\<close>

definition reader_state :: lmz where
  "reader_state = \<lparr>lua_state = luv_state0\<lparr>regs := (regs luv_state0)(''miniz_reader'' := LTab 1000), umeta := [1 \<mapsto> 1000]\<rparr>,
     files = [1 \<mapsto> \<lparr>archive = snd (open_small 0), fd = 3\<rparr>]\<rparr>"

definition byte_env :: lmz_env where
  "byte_env = \<lparr>luaE = quiet_env\<lparr>cst := (\<lambda>_. Some 260)\<rparr>, file_bytes = (\<lambda>f ofs n. Some [7]), alloc_ok = (\<lambda>n. True),
     fresh_block = (\<lambda>n. replicate n 0), grown_block = sample_realloc, inflator = sample_stack, local_time = (\<lambda>t. 0),
     wide_size_t = True\<rparr>"

lemma readers_ok_reader_state: "readers_ok reader_state"
proof -
  from init_spec [OF closed_no_zip, of 116 0 small_env] have "good_archive (snd (open_small 0))"
    by (auto simp: open_small_eq good_archive_def ready_def)
  then show ?thesis by (auto simp: readers_ok_def reader_state_def split: if_splits)
qed

theorem reader_functions_safe_witness:
  "readers_ok (snd (lmz_call lmz_reader_init [LStr ''a.zip''] byte_env reader_state))
    \<and> readers_ok (snd (lmz_call lmz_reader_gc [LUData 1] byte_env reader_state))"
proof -
  have "of_int (cpp (luaE byte_env) ''PATH_MAX'') \<noteq> (0 :: 32 word)" by (simp add: byte_env_def cpp_def)
  note r = reader_functions_safe [OF readers_ok_reader_state _ this]
  have "lmz_reader_init \<in> set reader_functions" "lmz_reader_gc \<in> set reader_functions"
    by (simp_all add: reader_functions_def)
  then show ?thesis using r [OF _ surjective_pairing] by blast
qed

end
