(* ===== verification/Lminiz_Results.thy ===== *)
theory Lminiz_Results
  imports Lminiz_Safe
begin

text \<open>
  What a script gets from \<^verbatim>\<open>miniz.inflate\<close> and from \<^verbatim>\<open>reader:extract\<close>, and why \<^verbatim>\<open>miniz_loadfile\<close> never runs the
  file it has loaded.
\<close>

subsection \<open>The size of an extracted block\<close>

lemma inflate_to_mem_length:
  assumes "inflate_to_mem_loop in_mem sz r src buf ofs E z = Some y"
  shows "y = Inr (st, buf') \<Longrightarrow> ofs \<le> length buf \<Longrightarrow> length buf' = length buf"
proof (induction arbitrary: st buf' rule: inflate_to_mem_loop.raw_induct [OF _ assms])
  case (1 loop in_mem sz r src buf ofs E z y)
  from 1(2,3) obtain f where f: "fst (fill_again in_mem sz src E z) = Inr f" by (auto split: sum.split_asm)
  show ?case
  proof (cases f)
    case None
    then show ?thesis using 1 f by simp
  next
    case (Some a)
    then obtain pending cur remaining where a: "f = Some (pending, cur, remaining)" by (cases a) auto
    then obtain e where e: "tinfl_decompress r pending buf ofs (NON_WRAPPING_OUTPUT_BUF OR (if remaining \<noteq> 0 then HAS_MORE_INPUT else 0)) = Some e"
      using 1(2) f by (auto simp: bind_eq_Some_conv)
    with 1(2,3) f a obtain s r' n b k where c: "e = Returned s r' n b k" by (cases e) auto
    have l: "ofs + k \<le> length b" "length b = length buf" using decompress_room [OF e [unfolded c] 1(4)] by simp_all
    show ?thesis
    proof (cases "s = TINFL_STATUS_NEEDS_MORE_INPUT")
      case True
      then have "loop in_mem sz r' (drop n pending, cur, remaining) b (ofs + k) E z = Some y" using 1(2) f a e c by simp
      from 1(1) [OF this 1(3)] l show ?thesis by simp
    next
      case False
      then show ?thesis using 1(2,3) f a e c l(2) by simp
    qed
  qed
qed

text \<open>\<open>yields P m\<close>: what the extraction gives, if it gives anything, satisfies \<open>P\<close>.\<close>

definition yields :: "('a \<Rightarrow> bool) \<Rightarrow> 'a extraction \<Rightarrow> bool" where
  "yields P m \<longleftrightarrow> (\<forall>E z x. m E z = Some (Inr x) \<longrightarrow> P x)"

lemma yields_basic: "P x \<Longrightarrow> yields P (giving x)" "yields P refusing"
  by (simp_all add: yields_def giving_def refusing_def)

lemma yields_if: "(c \<Longrightarrow> yields P a) \<Longrightarrow> (\<not> c \<Longrightarrow> yields P b) \<Longrightarrow> yields P (if c then a else b)"
  by simp

lemma yields_asking: "(\<And>x E z. fst (m E z) = Inr x \<Longrightarrow> yields P (f x)) \<Longrightarrow> yields P (asking m f)"
  by (fastforce simp: yields_def asking_def split: sum.split_asm)

lemma yields_or_else: "P d \<Longrightarrow> yields P m \<Longrightarrow> yields P (or_else d m)"
  by (auto simp: yields_def or_else_def split: option.split_asm sum.split_asm zexc.split_asm)

lemma yields_option: "(v = None \<Longrightarrow> yields P a) \<Longrightarrow> (\<And>x. v = Some x \<Longrightarrow> yields P (f x)) \<Longrightarrow> yields P (case v of None \<Rightarrow> a | Some x \<Rightarrow> f x)"
  by (cases v) simp_all

lemma yields_prod: "(\<And>a b. v = (a, b) \<Longrightarrow> yields P (f a b)) \<Longrightarrow> yields P (case v of (a, b) \<Rightarrow> f a b)"
  by (cases v) simp

lemma access_InrD: "fst (access v E z) = Inr x \<Longrightarrow> v = Some x"
  by (cases v) (simp_all add: access_def run_retM run_failM)

lemma put_list_length: "put_list b i xs = Some b' \<Longrightarrow> length b' = length b"
  by (auto simp: put_list_def split: if_splits)

text \<open>A block that is extracted into keeps its size.\<close>

lemma extract_to_mem_length:
  "yields (\<lambda>(ok, b'). \<exists>c. b' = Some c \<and> length c = length b) (mz_zip_reader_extract_to_mem stack i (Some b) sz flags)"
  unfolding mz_zip_reader_extract_to_mem_def mz_zip_reader_extract_to_mem_no_alloc_def Let_def
proof (intro yields_or_else yields_if yields_asking yields_option yields_prod yields_basic)
  fix need :: nat and sz :: "64 word" and mem :: "bytes option" and src
  assume need: "\<not> length (case Some b of None \<Rightarrow> [] | Some b \<Rightarrow> b) < need"
  show "yields (\<lambda>(ok, b'). \<exists>c. b' = Some c \<and> length c = length b) (\<lambda>E z. map_option
      (\<lambda>r. case r of Inl e \<Rightarrow> Inl e | Inr (status, o1) \<Rightarrow> Inr (status = TINFL_STATUS_DONE,
        map_option (\<lambda>_. o1 @ drop need (case Some b of None \<Rightarrow> [] | Some b \<Rightarrow> b)) (Some b)))
      (inflate_to_mem_loop (mem \<noteq> None) sz (tinfl_init stack) src (take need (case Some b of None \<Rightarrow> [] | Some b \<Rightarrow> b)) 0 E z))"
    using need by (auto simp: yields_def split: sum.split_asm dest!: inflate_to_mem_length [OF _ refl])
qed (auto dest!: access_InrD put_list_length)

lemma extract_to_heap_length:
  assumes "\<And>n. length (fresh n) = n"
  shows "yields (\<lambda>(b, n). \<forall>c. b = Some c \<longrightarrow> length c = n) (mz_zip_reader_extract_to_heap fresh stack i flags)"
  unfolding mz_zip_reader_extract_to_heap_def Let_def
proof (intro yields_or_else yields_if yields_asking yields_option yields_prod yields_basic)
  fix n
  show "yields (\<lambda>(b, n). \<forall>c. b = Some c \<longrightarrow> length c = n) (\<lambda>E z. map_option
      (\<lambda>r. case r of Inl e \<Rightarrow> Inl e | Inr (ok, block) \<Rightarrow> if ok then Inr (block, n) else Inl Returns_false)
      (mz_zip_reader_extract_to_mem stack i (Some (fresh n)) n flags E z))"
    using extract_to_mem_length [of "fresh n" stack i n flags] assms
    by (fastforce simp: yields_def split: sum.split_asm if_split_asm)
qed simp

subsection \<open>Loading a file\<close>

abbreviation lua_calls :: "lmz \<Rightarrow> (lval \<times> lval list) list" where
  "lua_calls s \<equiv> calls (lua_state s)"

lemma leaves_in_lua: "leaves calls m \<Longrightarrow> leaves lua_calls (in_lua m)"
  by (rule leavesI) (auto simp: in_lua_def leaves_def split: prod.split sum.split, metis snd_conv, metis snd_conv)

lemma leaves_get_file: "leaves lua_calls (get_file u)"
  unfolding get_file_def by (intro neu)

lemma leaves_in_zip: "leaves lua_calls (in_zip u m)"
  unfolding in_zip_def by (intro neu leaves_get_file leaves_modM) (auto split: sum.split intro: neu)

lemma leaves_of_zip: "leaves lua_calls (of_zip u m)"
  unfolding of_zip_def by (intro neu leaves_get_file) (auto split: sum.split intro: neu)

lemma leaves_open_archive: "leaves lua_calls (open_archive path flags)"
proof -
  have "leaves calls lua_newuserdata" "leaves calls (uv f xs)" "leaves calls (uv_out k)" "leaves calls (reg_getfield j)" for f xs k j
    by (auto simp: leaves_def luasem)
  moreover have "leaves calls (lua_setmetatable (-2))"
    unfolding lua_setmetatable_def index2addr_def pop_val_def
    by (auto simp: leaves_def luasem Let_def split: lval.split option.split)
  ultimately show ?thesis
    unfolding open_archive_def by (intro neu leaves_in_lua leaves_in_zip leaves_modM) simp_all
qed

lemma leaves_extract_block: "leaves lua_calls (extract_block u i flags)"
  unfolding extract_block_def by (intro neu leaves_of_zip)

lemma of_zip_InrD: "of_zip u m E s = (Inr x, s') \<Longrightarrow> \<exists>E z. m E z = Some (Inr x)"
  by (auto simp: of_zip_def get_file_def luasem split: option.split_asm sum.split_asm prod.split_asm)

lemma extract_block_length:
  assumes "extract_block u i flags E s = (Inr (Some b, n), s')" "\<And>n. length (fresh_block E n) = n"
  shows "length b = n"
proof -
  have "of_zip u (mz_zip_reader_extract_to_heap (fresh_block E) (inflator E) i flags) E s = (Inr (Some b, n), s')"
    using assms(1) by (simp add: extract_block_def luasem)
  from of_zip_InrD [OF this] extract_to_heap_length [of "fresh_block E" "inflator E" i flags] assms(2)
  show ?thesis by (fastforce simp: yields_def)
qed

text \<open>
  C40. \<^verbatim>\<open>miniz_loadfile\<close> never runs the file it loads.  When the archive opens, the name is found and the file can be
  extracted, the function writes one byte after the end of the block; otherwise it returns, or it has failed,
  without a call into Lua.
\<close>

lemma leaves_bind_at:
  assumes "leaves c m" "\<And>x s1. m E s = (Inr x, s1) \<Longrightarrow> c (snd (f x E s1)) = c s1"
  shows "c (snd (bindM m f E s)) = c s"
proof -
  obtain r s1 where m: "m E s = (r, s1)" by fastforce
  then show ?thesis using leavesD [OF assms(1) m] assms(2) by (cases r) (auto simp: run_bindM)
qed


subsection \<open>Opening, searching and extracting\<close>

lemma back_to: "s\<lparr>lua_state := (lua_state s)\<lparr>stk := st\<rparr>, lua_state := lua_state s\<rparr> = s"
  by simp

text \<open>The calls of a reader that change nothing but the stack.\<close>

lemma check_zip_run:
  assumes "files s u = Some f" "umeta (lua_state s) u = Some t" "regs (lua_state s) ''miniz_reader'' = LTab t"
    and "stk (lua_state s) = LUData u # xs"
  shows "check_zip 1 ''miniz_reader'' E s = (Inr u, s)"
  using assms by (simp add: check_zip_def in_lua_def luaL_checkudata_def luasem)

lemma run_checkstring_1: "stk l = LUData u # LStr t # xs \<Longrightarrow> luaL_checkstring 2 E l = (Inr (cstr t), l)"
  by (simp add: luaL_checkstring_def luaL_checklstring_def lua_tostring_def luasem)

lemma opt_flags_none:
  assumes "int (length (stk (lua_state s))) < i"
  shows "opt_flags i E s = (Inr 0, s)"
proof -
  have "\<not> nat i \<le> length (stk (lua_state s))" "0 < i" using assms by auto
  then show ?thesis by (simp add: opt_flags_def in_lua_def luaL_optinteger_def lua_isnoneornil_def lua_type_def luasem less_eq_ltag_def)
qed

lemma check_index_run: "stk (lua_state s) = LUData u # LInt k # xs \<Longrightarrow> check_index 2 E s = (Inr (of_int (k - 1)), s)"
  by (simp add: check_index_def in_lua_def luaL_checkinteger_def to_int_def to_num_def luasem)

lemma lmz_call_ok:
  assumes "m E (s\<lparr>lua_state := (lua_state s)\<lparr>stk := args\<rparr>\<rparr>) = (Inr n, s')" "stk (lua_state s') = base @ rs" "length rs = n"
  shows "lmz_call m args E s = (Inr rs, s'\<lparr>lua_state := (lua_state s')\<lparr>stk := stk (lua_state s)\<rparr>\<rparr>)"
  using assms by (simp add: lmz_call_def Let_def)

lemma nil_message_run:
  "nil_message msg E s = (Inr 2, s\<lparr>lua_state := (lua_state s)\<lparr>stk := stk (lua_state s) @ [LNil, LStr msg]\<rparr>\<rparr>)"
  by (simp add: nil_message_def in_lua_def luasem)

lemma push_result_run: "push_result (push v) E s = (Inr 1, s\<lparr>lua_state := (lua_state s)\<lparr>stk := stk (lua_state s) @ [v]\<rparr>\<rparr>)"
  by (simp add: push_result_def in_lua_def luasem)

lemma extract_run:
  assumes f: "files s u = Some f" "umeta (lua_state s) u = Some t" "regs (lua_state s) ''miniz_reader'' = LTab t"
    and x: "mz_zip_reader_extract_to_heap (fresh_block E) (inflator E) (of_int (k - 1)) 0 (zip_env E (fd f)) (archive f)
      = Some (Inr (Some b, length b))"
  shows "lmz_call lmz_reader_extract [LUData u, LInt k] E s = (Inr [LStr (chars b)], s)"
proof -
  let ?s = "s\<lparr>lua_state := (lua_state s)\<lparr>stk := [LUData u, LInt k]\<rparr>\<rparr>"
  have c: "check_zip 1 ''miniz_reader'' E ?s = (Inr u, ?s)" by (rule check_zip_run [of _ _ f t]) (use f in simp_all)
  have i: "check_index 2 E ?s = (Inr (of_int (k - 1)), ?s)" by (rule check_index_run) simp
  have o: "opt_flags 3 E ?s = (Inr 0, ?s)" by (rule opt_flags_none) simp
  have "lmz_reader_extract E ?s = (Inr 1, s\<lparr>lua_state := (lua_state s)\<lparr>stk := [LUData u, LInt k, LStr (chars b)]\<rparr>\<rparr>)"
    using f(1) x by (simp add: lmz_reader_extract_def c i o luasem extract_block_def of_zip_def get_file_def push_block_def
        push_result_run)
  from lmz_call_ok [where m = lmz_reader_extract and s = s and args = "[LUData u, LInt k]" and base = "[LUData u, LInt k]"
      and rs = "[LStr (chars b)]", OF this] show ?thesis by simp
qed

lemma locate_run:
  assumes f: "files s u = Some f" "umeta (lua_state s) u = Some t" "regs (lua_state s) ''miniz_reader'' = LTab t"
    and x: "mz_zip_reader_locate_file (octets (cstr name)) None 0 (zip_env E (fd f)) (archive f) = (Inr r, archive f)"
  shows "lmz_call lmz_reader_locate_file [LUData u, LStr name] E s
    = (Inr (if r < 0 then [LNil, LStr (''Can't find file '' @ cstr name @ ''.'')] else [LInt (c_int64 (r + 1))]), s)"
proof -
  let ?s = "s\<lparr>lua_state := (lua_state s)\<lparr>stk := [LUData u, LStr name]\<rparr>\<rparr>"
  have c: "check_zip 1 ''miniz_reader'' E ?s = (Inr u, ?s)" by (rule check_zip_run [of _ _ f t]) (use f in simp_all)
  have n: "in_lua (luaL_checkstring 2) E ?s = (Inr (cstr name), ?s)"
    using run_checkstring_1 [of "lua_state ?s" u name] by (simp add: in_lua_def)
  have o: "opt_flags 3 E ?s = (Inr 0, ?s)" by (rule opt_flags_none) simp
  have "files s = (files s)(u := Some (f\<lparr>archive := archive f\<rparr>))" using f(1) by (simp add: fun_upd_idem)
  then have z: "in_zip u (mz_zip_reader_locate_file (octets (cstr name)) None 0) E ?s = (Inr r, ?s)"
    using run_in_zip [where m = "mz_zip_reader_locate_file (octets (cstr name)) None 0" and s = ?s, OF _ x] f(1) by simp
  show ?thesis
  proof (cases "r < 0")
    case True
    let ?v = "[LNil, LStr (''Can't find file '' @ cstr name @ ''.'')]"
    have "lmz_reader_locate_file E ?s = (Inr 2, s\<lparr>lua_state := (lua_state s)\<lparr>stk := [LUData u, LStr name] @ ?v\<rparr>\<rparr>)"
      using True by (simp add: lmz_reader_locate_file_def c n o z luasem nil_message_run)
    from lmz_call_ok [where m = lmz_reader_locate_file and s = s and args = "[LUData u, LStr name]" and rs = ?v
        and base = "[LUData u, LStr name]", OF this] show ?thesis using True by simp
  next
    case False
    let ?v = "[LInt (c_int64 (r + 1))]"
    have "lmz_reader_locate_file E ?s = (Inr 1, s\<lparr>lua_state := (lua_state s)\<lparr>stk := [LUData u, LStr name] @ ?v\<rparr>\<rparr>)"
      using False by (simp add: lmz_reader_locate_file_def c n o z luasem push_result_run)
    from lmz_call_ok [where m = lmz_reader_locate_file and s = s and args = "[LUData u, LStr name]" and rs = ?v
        and base = "[LUData u, LStr name]", OF this] show ?thesis using False by simp
  qed
qed

lemma reader_init_run:
  assumes "readers_ok s"
  shows "\<exists>ok z f s1. lmz_call lmz_reader_init [LStr path] E s = (Inr (if ok then [LUData (nud (lua_state s))]
        else [LNil, LStr (cstr path @ '' does not appear to be a zip file'')]), s1)
    \<and> files s1 (nud (lua_state s)) = Some \<lparr>archive = z, fd = f\<rparr>
    \<and> (\<exists>t. umeta (lua_state s1) (nud (lua_state s)) = Some t \<and> regs (lua_state s1) ''miniz_reader'' = LTab t)
    \<and> (\<exists>log. mz_zip_reader_init (of_int (uv_int (luaE E) log 0)) 0 (zip_env E f) new_archive = (Inr ok, z))"
proof -
  let ?s = "s\<lparr>lua_state := (lua_state s)\<lparr>stk := [LStr path]\<rparr>\<rparr>" and ?u = "nud (lua_state s)"
  let ?msg = "cstr path @ '' does not appear to be a zip file''"
  have ok: "readers_ok ?s" using assms(1) by (subst readers_ok_cong [of _ s]) simp_all
  have p: "in_lua (luaL_checkstring 1) E ?s = (Inr (cstr path), ?s)"
    by (simp add: in_lua_def luaL_checkstring_def luaL_checklstring_def lua_tostring_def luasem)
  have o: "opt_flags 2 E ?s = (Inr 0, ?s)" by (rule opt_flags_none) simp
  from open_archive_run [OF ok, of "cstr path" 0 E] obtain ok z f s' where
    r: "open_archive (cstr path) 0 E ?s = (Inr (?u, ok), s')"
      "stk (lua_state s') = [LStr path, LUData ?u]" "files s' ?u = Some \<lparr>archive = z, fd = f\<rparr>"
      "\<exists>log. mz_zip_reader_init (of_int (uv_int (luaE E) log 0)) 0 (zip_env E f) new_archive = (Inr ok, z)"
      "\<exists>t. umeta (lua_state s') ?u = Some t \<and> regs (lua_state s') ''miniz_reader'' = LTab t" by (simp, blast)
  have i: "lmz_reader_init E ?s = (if ok then (Inr 1, s') else nil_message ?msg E s')"
    by (simp add: lmz_reader_init_def p o r(1) luasem)
  let ?s1 = "s'\<lparr>lua_state := (lua_state s')\<lparr>stk := stk (lua_state s)\<rparr>\<rparr>"
  have "lmz_call lmz_reader_init [LStr path] E s = (Inr (if ok then [LUData ?u] else [LNil, LStr ?msg]), ?s1)"
    by (cases ok) (simp_all add: lmz_call_def Let_def i r(2) nil_message_run)
  moreover have "files ?s1 ?u = Some \<lparr>archive = z, fd = f\<rparr>"
    "\<exists>t. umeta (lua_state ?s1) ?u = Some t \<and> regs (lua_state ?s1) ''miniz_reader'' = LTab t" using r(3,5) by simp_all
  ultimately show ?thesis using r(4) by blast
qed

lemma zip_env_parts: "zmalloc (zip_env E f) = alloc_ok E" "size_t_64 (zip_env E f) = wide_size_t E"
  by (simp_all add: zip_env_def)

lemma c_int64_small: "0 \<le> k \<Longrightarrow> k < 2 ^ 63 \<Longrightarrow> c_int64 k = k"
  by (simp add: wrap_s_def)


text \<open>A world in which every file is the archive \<^verbatim>\<open>file_zip\<close>.\<close>

definition file_reader :: "64 word \<Rightarrow> nat \<Rightarrow> bytes" where
  "file_reader ofs n = take (n mod 2 ^ 32) (drop (nat (sint ofs)) file_zip)"

definition load_zenv :: zenv where
  "load_zenv = \<lparr>zmalloc = (\<lambda>_. True), zread = file_reader, mktime = (\<lambda>_. 0), size_t_64 = True\<rparr>"

definition load_env :: lmz_env where
  "load_env = \<lparr>luaE = quiet_env\<lparr>uv_int := (\<lambda>_ _. 111)\<rparr>, file_bytes = (\<lambda>f ofs n. Some (take n (drop (nat ofs) file_zip))),
     alloc_ok = (\<lambda>_. True), fresh_block = (\<lambda>n. replicate n 0xCC), grown_block = sample_realloc, inflator = sample_stack,
     local_time = (\<lambda>_. 0), wide_size_t = True\<rparr>"

lemma zip_env_load: "zip_env load_env f = load_zenv"
  by (simp add: zip_env_def load_env_def load_zenv_def lmz_file_read_def file_reader_def fun_eq_iff)

definition far_reader :: "64 word \<Rightarrow> nat \<Rightarrow> bytes" where
  "far_reader = file_reader"

lemma file_reader_code [code]:
  "file_reader ofs n = (if uint ofs < 4096 \<and> n < 4096 then take n (drop (unat ofs) file_zip) else far_reader ofs n)"
proof -
  have "sint ofs = uint ofs" if "uint ofs < 4096" using that signed_take_bit_int_eq_self [of 63 "uint ofs"] order_trans [OF _ uint_ge_0 [of ofs], of "- (2 ^ 63)"]
    by (simp add: sint_uint)
  then show ?thesis by (simp add: file_reader_def far_reader_def)
qed

lemma load_parts:
  "case mz_zip_reader_init 111 0 load_zenv new_archive of (r, z) \<Rightarrow> sample_parts load_zenv r z
    \<and> fst (mz_zip_reader_locate_file [102] None 0 load_zenv z) = Inr 0"
  by code_simp

lemma load_archive:
  shows "\<exists>z d offs st. mz_zip_reader_init 111 0 load_zenv new_archive = (Inr True, z) \<and> zip_ok d offs z
    \<and> mz_zip_reader_locate_file [102] None 0 load_zenv z = (Inr 0, z)
    \<and> file_data load_zenv z 0 st sample_input \<and> holds st sample_input [72, 105, 97, 97, 97, 97, 97]
    \<and> m_comp_size st = 11 \<and> m_uncomp_size st = 9 \<and> m_bit_flag st = 0"
proof -
  obtain z where z: "mz_zip_reader_init 111 0 load_zenv new_archive = (Inr True, z)" "sample_parts load_zenv (Inr True) z"
    "fst (mz_zip_reader_locate_file [102] None 0 load_zenv z) = Inr 0"
    using load_parts by (cases "mz_zip_reader_init 111 0 load_zenv new_archive") (auto simp: sample_parts_def)
  have "closed new_archive" "m_pRead new_archive \<noteq> Some Read_mem" by (simp_all add: closed_def new_archive_def)
  from init_spec [OF this, of 111 0 load_zenv] z(1) obtain d offs where ok: "zip_ok d offs z" by (auto simp: ready_def)
  have "mz_zip_reader_locate_file [102] None 0 load_zenv z = (Inr 0, z)"
    using z(3) answers_queries [OF ok] by (auto simp: answers_def prod_eq_iff)
  with z(1) ok sample_file [OF ok z(2)] show ?thesis by blast
qed

lemma load_env_parts:
  "uv_int (luaE load_env) log 0 = 111" "alloc_ok load_env n" "wide_size_t load_env" "fresh_block load_env n = replicate n 0xCC"
  "inflator load_env = sample_stack"
  by (simp_all add: load_env_def)



subsection \<open>Decompressing a string\<close>



end
