(* ===== verification/Spec2Isabelle.thy ===== *)
theory Spec2Isabelle
  imports Luv_Handle_Life Luv_Fs_Life Luv_Data_Paths Luv_Names Xcore_Start Xcore_Exit Lminiz_Results
begin

text \<open>
  A model of the xcore engine: the program under \<^verbatim>\<open>src/xcore/src\<close> and the binding of libuv to
  Lua under \<^verbatim>\<open>src/xcore/luv\<close>.

  \<^bold>\<open>The program.\<close>  \<^verbatim>\<open>main.c\<close> makes one Lua state, opens the libraries \<^verbatim>\<open>uv\<close> (luv), \<^verbatim>\<open>miniz\<close> and
  \<^verbatim>\<open>engine\<close>, stores the command line in the table \<^verbatim>\<open>exeargs\<close> and runs a script.  The script calls
  the C functions of luv; each of them checks its Lua arguments, calls libuv, and answers with
  Lua values.  What the script wants to hear of later is kept as references into the Lua
  registry (\<^verbatim>\<open>luaL_ref\<close>): a C block on the heap, \<^verbatim>\<open>luv_handle_t\<close> or \<^verbatim>\<open>luv_req_t\<close>, holds one reference
  that keeps the userdata alive, one for each callback, and one for the data of a write, and
  the \<^verbatim>\<open>data\<close> field of the libuv object points to the block.  The script then runs \<^verbatim>\<open>uv_run\<close>, from
  which libuv calls the callbacks of luv; they find the block, push the function and its
  arguments and call Lua in protected mode, reporting errors on \<^verbatim>\<open>stderr\<close>.

  \<^bold>\<open>The model.\<close>  A C function is a computation on a state that returns a value or ends in an
  exception (\<^verbatim>\<open>Prelude\<close>): a Lua error, or a fault that stands for undefined behaviour (a \<^verbatim>\<open>NULL\<close>
  dereference, an overflowing buffer, a bad stack index).  The state survives an exception, so what an
  error path leaves behind is part of the model.  \<^verbatim>\<open>lstate\<close> (\<^verbatim>\<open>Lua_State\<close>) holds the Lua stack, the
  registry with its free list, the named registry entries, the tables, the userdata with their
  metatables, the libuv handles and requests (type, \<^verbatim>\<open>data\<close>, flags), the C heap of luv, the log of
  the libuv calls made, the log of Lua functions called, the text buffer of \<^verbatim>\<open>luv_stackdump\<close>, and the
  lines printed.  The environment \<^verbatim>\<open>env\<close> is the code that is not under \<^verbatim>\<open>xcore/src\<close> or \<^verbatim>\<open>xcore/luv\<close>: what
  libuv answers to a call (a function of the whole log, so that it may answer differently each
  time), whether \<^verbatim>\<open>malloc\<close> succeeds, what a Lua function does when it is called, how Lua converts and
  prints numbers, and the constants of the platform.  Properties that call back into Lua assume
  \<^verbatim>\<open>env_ok\<close>: a Lua function can change the state only into a well-formed one.  The operations of the
  Lua C API are modelled as its manual documents them, the reference table of \<^verbatim>\<open>lauxlib.c\<close> as it is
  coded.

  \<^bold>\<open>The theories.\<close>
  \<^item> \<^verbatim>\<open>Prelude\<close>, \<^verbatim>\<open>Lua_Value\<close>, \<^verbatim>\<open>Lua_Registry\<close> (\<^verbatim>\<open>luaL_ref\<close> and \<^verbatim>\<open>luaL_unref\<close>, with the locale \<^verbatim>\<open>ref_store\<close> of
    what luv relies on), \<^verbatim>\<open>Lua_State\<close> (state, environment, Lua API).
  \<^item> \<^verbatim>\<open>Luv_Util\<close> (\<^verbatim>\<open>luv_util.c\<close>: reports and protected calls), \<^verbatim>\<open>Luv_Lhandle\<close>, \<^verbatim>\<open>Luv_Req\<close>, \<^verbatim>\<open>Luv_Handle\<close> (the
    blocks, their setup, callbacks and release), and one theory for each group of libuv objects:
    \<^verbatim>\<open>Luv_Timer\<close>, \<^verbatim>\<open>Luv_Watchers\<close> (prepare, check, idle, async, poll), \<^verbatim>\<open>Luv_Signal\<close>, \<^verbatim>\<open>Luv_Stream\<close>, \<^verbatim>\<open>Luv_Tcp\<close>,
    \<^verbatim>\<open>Luv_Pipe\<close> (pipe and tty), \<^verbatim>\<open>Luv_Udp\<close>, \<^verbatim>\<open>Luv_Fs\<close>, \<^verbatim>\<open>Luv_Fs_Event\<close> (event and poll), \<^verbatim>\<open>Luv_Dns\<close>, \<^verbatim>\<open>Luv_Process\<close>,
    \<^verbatim>\<open>Luv_Misc\<close>, \<^verbatim>\<open>Luv_Constants\<close> (name tables, with the locale \<^verbatim>\<open>name_table\<close>), \<^verbatim>\<open>Luv_Loop\<close>.  Each definition
    bears the name of the C function it models.  \<^verbatim>\<open>Luv\<close> has the tables of exported functions and
    \<^verbatim>\<open>luv_init\<close>.
  \<^item> \<^verbatim>\<open>Luv_Wf\<close> (the invariant), \<^verbatim>\<open>Luv_Keep\<close> (every exported function and every callback keeps it),
    \<^verbatim>\<open>Luv_Init\<close> (\<^verbatim>\<open>luv_init\<close> establishes it), \<^verbatim>\<open>Luv_Reach\<close> (the library as a state machine and its
    reachable states), \<^verbatim>\<open>Luv_Scenario\<close> (concrete environments and states for the witnesses).
  \<^item> \<^verbatim>\<open>Luv_Handle_Life\<close>, \<^verbatim>\<open>Luv_Request_Life\<close>, \<^verbatim>\<open>Luv_Fs_Life\<close>: what an object owns from its creation to its
    release.  \<^verbatim>\<open>Luv_Reports\<close>: error reports and their buffer.  \<^verbatim>\<open>Luv_Data_Paths\<close>: data from libuv to
    the callbacks.  \<^verbatim>\<open>Luv_Names\<close>: the names of constants, access modes, file types.
  \<^item> \<^verbatim>\<open>Lminiz\<close> (the tables of \<^verbatim>\<open>lminiz.c\<close>, \<^verbatim>\<open>lengine.c\<close>), \<^verbatim>\<open>Xcore_Main\<close> (\<^verbatim>\<open>main.c\<close>), \<^verbatim>\<open>Xcore_Start\<close> (what the
    script finds when it starts), \<^verbatim>\<open>Xcore_Exit\<close> (the exit of \<^verbatim>\<open>main\<close> against the console handler, as
    interleaved steps on the shared \<^verbatim>\<open>g_Lua\<close>).
  \<^item> \<^verbatim>\<open>Miniz_Checksum\<close> (\<^verbatim>\<open>mz_adler32\<close>, \<^verbatim>\<open>mz_crc32\<close> and their references), \<^verbatim>\<open>Zip_Sort\<close> (the heap sort and the binary
    search of the archive reader, with the locales \<^verbatim>\<open>keyed\<close> and \<^verbatim>\<open>searched\<close> of what they need of a
    comparison), \<^verbatim>\<open>Zip_Dir\<close> (opening an archive: the search for the end record, the central directory, its
    index), \<^verbatim>\<open>Zip_Query\<close> (the accessors and the searches by name), \<^verbatim>\<open>Zip_Extract\<close> (the extraction of a file
    into memory, into the heap and into a callback).  An operation acts on the
    \<^verbatim>\<open>mz_zip_archive\<close>; an access outside a block, or of memory never written, is the exception \<^verbatim>\<open>Bad_access\<close>.
    \<^verbatim>\<open>Zip_Wf\<close> and \<^verbatim>\<open>Zip_Find\<close> compute the queries on an archive whose index points into its directory,
    \<^verbatim>\<open>Zip_Open\<close> shows that opening establishes this, with triples over the operations, and \<^verbatim>\<open>Zip_Archive\<close>
    states what a program can rely on.
  \<^item> \<^verbatim>\<open>Tinfl_Huff\<close>, \<^verbatim>\<open>Tinfl\<close>, \<^verbatim>\<open>Tinfl_Mem\<close> (\<^verbatim>\<open>tinfl_decompress\<close>, a machine from point to point of the coroutine,
    its decoding tables, and the functions that drive it over a whole input).  \<^verbatim>\<open>Tinfl_Table\<close> and \<^verbatim>\<open>Tinfl_Tree\<close>
    show that the tables decode the canonical Huffman code, \<^verbatim>\<open>Tinfl_Bits\<close> that bits are read in order however
    bytes are fetched.  \<^verbatim>\<open>Deflate\<close> is the format of RFC 1951 as a reference: the meaning of a stream of blocks
    and its bits.  \<^verbatim>\<open>Tinfl_Copy\<close>, \<^verbatim>\<open>Tinfl_Run\<close>, \<^verbatim>\<open>Tinfl_Decode\<close>, \<^verbatim>\<open>Tinfl_Blocks\<close>, \<^verbatim>\<open>Tinfl_Stored\<close>, \<^verbatim>\<open>Tinfl_Raw\<close>,
    \<^verbatim>\<open>Tinfl_Codes\<close> and \<^verbatim>\<open>Tinfl_Stream\<close> run the machine on the parts of a stream, up to its end or to where the
    output is full and the next call goes on; \<^verbatim>\<open>Inflate\<close> composes the calls.  \<^verbatim>\<open>Tinfl_Term\<close> gives
    a measure that every step makes smaller, and \<^verbatim>\<open>Tinfl_Ends\<close> follows the loop over the calls.  \<^verbatim>\<open>Inflated\<close> states
    that the functions over a whole input compute what the stream means, and that they return for every input;
    \<^verbatim>\<open>Inflate_Fault\<close> shows the streams that make the code write outside its output, and \<^verbatim>\<open>Zip_Extracted\<close> composes
    the archive reader, the extraction and the inflater.
  \<^item> \<^verbatim>\<open>Lminiz_Archive\<close> (the functions of \<^verbatim>\<open>lminiz.c\<close> on readers, \<^verbatim>\<open>ltinfl\<close> and \<^verbatim>\<open>miniz_loadfile\<close>: calls that act on the Lua
    state and on the archive inside a userdata), \<^verbatim>\<open>Lminiz_Safe\<close> (what a script can do with a reader) and
    \<^verbatim>\<open>Lminiz_Results\<close> (what it gets from a reader and from \<^verbatim>\<open>inflate\<close>).

  \<^bold>\<open>What the properties show.\<close>  The invariant of ownership holds in every reachable state, and with
  it no userdata that libuv still uses can be collected, whatever the script does, as long as no
  fault happens (C1 to C4, and C5 for the tables).  The faults themselves are shown where the
  code has them: a closed stream, a cancelled name resolution, a report that is too long.  The
  life of handles, requests and file-system calls is balanced: what is taken is given back, the
  callback registered is the one called, with the arguments libuv's data stands for.  The
  next properties are about names, the start and the exit of the engine.  For the archives: a
  reader given arbitrary bytes touches only its own blocks, also when a script drives it through the binding; the searches by
  name find what is there, except in the two cases that are shown; the checksums are those of their definitions.  The inflater gives what
  RFC 1951 says of every well-formed stream of raw deflate data with complete codes, into a block of the caller
  and into the heap, and it returns for every input; but two bytes with a length symbol that RFC 1951 excludes make it write
  outside its output.  What a script gets from a reader is the content of the file it asked for.  The theorems about
  streams are for raw deflate data without the header of zlib; the one about files is for a file whose data is read
  at once, in at most 65536 bytes.

  \<^bold>\<open>Bounds.\<close>  No definition needs fuel: the loops of luv run over lists that the state or the
  environment holds (the entries of a result, the events of a run, the 255 upvalues a closure can
  have at most), and the recursion is on these lists.  The buffer of a report has 1024 bytes, as in
  \<^verbatim>\<open>luv_util.c\<close>.  The scan for the end record of an archive moves by 4093 bytes and stops after 65557;
  the other loops of the archive reader run over the number of files or halve an interval.  The machine of
  the inflater is run by \<^verbatim>\<open>while_option\<close>, and the loop over its calls is a \<^verbatim>\<open>partial_function\<close>, so that a run
  without end is a value, \<^verbatim>\<open>None\<close>, which the properties exclude.

  \<^bold>\<open>Not modelled.\<close>  The vendored Lua, LuaJIT, libuv and Redis under \<^verbatim>\<open>xcore/deps\<close> are used through their
  interfaces only.  The Lua scripts of \<^verbatim>\<open>gameserver\<close> are not C.  \<^verbatim>\<open>luv_state\<close> finds the main Lua state of a
  loop; the model has one Lua state, on which it is the identity.  The registration of the console
  handler (\<^verbatim>\<open>SetConsoleCtrlHandler\<close>) is a call of the system; what the handler does is modelled.
  The files \<^verbatim>\<open>miniz.c\<close> reads and writes through \<^verbatim>\<open>stdio\<close> and its interface in the style of zlib are
  compiled out (\<^verbatim>\<open>miniz.h\<close>).  Its compressor and its archive writer
  are not modelled, and so \<^verbatim>\<open>ltdefl\<close> and the functions of \<^verbatim>\<open>lminiz.c\<close> on writers.
\<close>

section \<open>The state of the whole library\<close>

text \<open>
  C1. Every state a program can reach is well-formed, as long as no C fault has happened:
  the free list of the registry is intact; each \<^verbatim>\<open>luv_handle_t\<close> and \<^verbatim>\<open>luv_req_t\<close> on the C
  heap holds distinct live references, none of them held by a second block; and a callback
  slot is empty or names a function.
\<close>

theorem reachable_ownership:
  assumes "reachable E s" "env_ok E"
  shows "reg_ok (reg s)
    \<and> (\<forall>a b. mem s a = Some b \<longrightarrow> distinct (pos_refs b) \<and> set (pos_refs b) \<subseteq> reg_live (reg s) \<and> cb_ok (reg s) b)
    \<and> (\<forall>a a' b b'. mem s a = Some b \<longrightarrow> mem s a' = Some b' \<longrightarrow> a \<noteq> a' \<longrightarrow>
        set (pos_refs b) \<inter> set (pos_refs b') = {})"
  using wfD(1,2) [OF wf_reachable [OF assms]] by (auto simp: heap_ok_def block_ok_def)

theorem reachable_ownership_witness:
  "reg_ok (reg timer_state) \<and> mem timer_state 0 \<noteq> None
    \<and> set (pos_refs (BHandle \<lparr>lh_ref = 3, lh_cb0 = -2, lh_cb1 = -2\<rparr>)) \<subseteq> reg_live (reg timer_state)"
proof -
  have "mem timer_state 0 = Some (BHandle \<lparr>lh_ref = 3, lh_cb0 = -2, lh_cb1 = -2\<rparr>)"
    by (simp add: timer_state_def)
  with reachable_ownership [OF reachable_timer_state env_ok_quiet] show ?thesis by blast
qed

text \<open>
  C2. The collector cannot free memory libuv uses.  In every reachable state, when the \<^verbatim>\<open>data\<close>
  of a handle or of a request points to an allocated block, the block is of the right kind
  and its first reference is live in the registry and holds that very userdata.
\<close>

theorem live_objects_anchored:
  assumes "reachable E s" "env_ok E"
  shows "(\<forall>u h a b. hnds s u = Some h \<longrightarrow> h_data h = Some a \<longrightarrow> mem s a = Some b \<longrightarrow>
      (\<exists>d. b = BHandle d \<and> lh_ref d \<in> reg_live (reg s) \<and> reg_geti (reg s) (lh_ref d) = LUData u))
    \<and> (\<forall>u r a b. rqs s u = Some r \<longrightarrow> r_data r = Some a \<longrightarrow> mem s a = Some b \<longrightarrow>
      (\<exists>q. b = BReq q \<and> lr_req_ref q \<in> reg_live (reg s) \<and> reg_geti (reg s) (lr_req_ref q) = LUData u))"
proof -
  have w: "wf s" by (rule wf_reachable [OF assms])
  have l: "r \<in> reg_live (reg s)" if "mem s a = Some b" "r \<in> set (block_refs b)" "0 < r" for a b r
    using wf_block_ok [OF w that(1)] that(2,3) by (auto simp: block_ok_def pos_refs_def)
  show ?thesis
    using wfD(6,7) [OF w] l by (fastforce simp: h_ptr_ok_def r_ptr_ok_def block_refs_def)
qed

theorem live_objects_anchored_witness:
  "\<exists>d. mem timer_state 0 = Some (BHandle d) \<and> reg_geti (reg timer_state) (lh_ref d) = LUData 1"
proof -
  have "hnds timer_state 1 = Some \<lparr>h_type = UV_TIMER, h_data = Some 0, h_closing = False\<rparr>"
    "mem timer_state 0 = Some (BHandle \<lparr>lh_ref = 3, lh_cb0 = -2, lh_cb1 = -2\<rparr>)"
    by (simp_all add: timer_state_def)
  with conjunct1 [OF live_objects_anchored [OF reachable_timer_state env_ok_quiet]]
  show ?thesis by (metis uv_handle.select_convs(2))
qed

text \<open>
  C3. Every one of the exported functions keeps the invariant, whatever its arguments:
  called from Lua in a well-formed state it returns, raises a Lua error or faults, and unless
  it faults the state afterwards is well-formed.
\<close>

theorem exported_keep_wf:
  assumes "env_ok E" "(n, c, m) \<in> set luv_functions" "wf s" "capi m args E s = (r, s')" "recoverable r"
  shows "wf s'"
  by (rule keep_capi [OF keep_luv_functions [OF assms(1,2)] assms(3-5)])

theorem exported_keep_wf_witness: "wf timer_state"
proof (rule exported_keep_wf [OF env_ok_quiet])
  show "(''timer_new'', ''luv_timer_new'', luv_timer_new) \<in> set luv_functions"
    by (simp add: luv_functions_def functions_timer_def)
  show "wf luv_state0" by (rule wf_luv_state0)
  show "capi luv_timer_new [] quiet_env luv_state0 = (Inr [LUData 1], timer_state)"
    by (rule capi_timer_new)
qed simp

text \<open>
  C4. So does every callback libuv makes: close, timer, prepare, check, idle, async, poll,
  signal, connection, read, write, shutdown, connect, UDP, file system, watch, exit and
  resolver events, with any arguments libuv passes.
\<close>

theorem callbacks_keep_wf:
  assumes "env_ok E" "wf s" "dispatch ev E s = (r, s')" "recoverable r"
  shows "wf s'"
  using hoareD [OF keep_dispatch [OF assms(1)] assms(2)] assms(3,4) by (cases r) auto

theorem callbacks_keep_wf_witness: "wf (snd (dispatch (EvClose 1) quiet_env timer_state))"
proof -
  have "dispatch (EvClose 1) quiet_env timer_state =
      (Inr (), snd (dispatch (EvClose 1) quiet_env timer_state))"
    using run_luv_handle_close_cb_nocb [of timer_state 1 _ 0 _ quiet_env] by (simp add: timer_state_def)
  from callbacks_keep_wf [OF env_ok_quiet wf_timer_state this] show ?thesis by simp
qed



end
